(* ===== verification/Prelude.thy ===== *)
theory Prelude
  imports Main "HOL-Library.Sublist"
begin

text \<open>
  Shared vocabulary of the development: the JavaScript values that cross the boundaries of the
  server (results of JSON.parse and the absent member \<open>undefined\<close>), the string operations the
  modelled functions use, results of calls that may throw, and the generic lemmas on lists and
  maps that the components share.

  Numbers. A JavaScript number is an integer (\<open>JInt\<close>), a finite non-integer known by its floor
  (\<open>JFrac\<close>), NaN or an infinity. The modelled code only asks whether a number is a safe integer
  or finite, takes its floor and compares it with integers, which this representation decides.

  Strings. A string is a list of UTF-16 code units; the model covers the code units below 256,
  one \<^typ>\<open>char\<close> each. Lengths count code units as \<open>length\<close> does in the source, and
  \<open>utf8_length\<close> counts the bytes of the UTF-8 encoding as \<open>Buffer.byteLength\<close> does.
\<close>

section \<open>Collections of facts\<close>

named_theorems shape_defs \<open>definitions of the validators on JSON values\<close>

named_theorems inv_intros \<open>preservation of component invariants\<close>

section \<open>Results of calls that may throw\<close>

type_synonym ('e, 'a) result = "'e + 'a"

fun bind_result :: "'e + 'a \<Rightarrow> ('a \<Rightarrow> 'e + 'b) \<Rightarrow> 'e + 'b" where
  "bind_result (Inl e) f = Inl e"
| "bind_result (Inr a) f = f a"

fun map_result :: "('a \<Rightarrow> 'e + 'b) \<Rightarrow> 'a list \<Rightarrow> 'e + 'b list" where
  "map_result f [] = Inr []"
| "map_result f (x # xs) =
     (case f x of Inl e \<Rightarrow> Inl e
      | Inr y \<Rightarrow> (case map_result f xs of Inl e \<Rightarrow> Inl e | Inr ys \<Rightarrow> Inr (y # ys)))"

lemma bind_result_Inr: "bind_result r f = Inr b \<longleftrightarrow> (\<exists>a. r = Inr a \<and> f a = Inr b)"
  by (cases r) auto

lemma bind_result_Inl:
  "bind_result r f = Inl e \<longleftrightarrow> r = Inl e \<or> (\<exists>a. r = Inr a \<and> f a = Inl e)"
  by (cases r) auto

lemma map_result_Inr_iff:
  "map_result f xs = Inr ys \<longleftrightarrow> list_all2 (\<lambda>x y. f x = Inr y) xs ys"
proof (induction xs arbitrary: ys)
  case Nil
  show ?case by (cases ys) auto
next
  case (Cons x xs)
  show ?case
  proof (cases "map_result f xs")
    case (Inl e)
    with Cons.IH have "\<not> list_all2 (\<lambda>x y. f x = Inr y) xs zs" for zs by simp
    with Inl show ?thesis by (cases "f x"; cases ys) simp_all
  next
    case (Inr zs)
    have "list_all2 (\<lambda>x y. f x = Inr y) xs us \<longleftrightarrow> us = zs" for us
      using Cons.IH [of us] Inr by auto
    with Inr show ?thesis by (cases "f x"; cases ys) auto
  qed
qed

lemma map_result_length: "map_result f xs = Inr ys \<Longrightarrow> length ys = length xs"
  by (auto simp: map_result_Inr_iff list_all2_lengthD)

lemma map_result_all:
  assumes "map_result f xs = Inr ys" and "\<And>x y. x \<in> set xs \<Longrightarrow> f x = Inr y \<Longrightarrow> P y"
  shows "\<forall>y \<in> set ys. P y"
  using assms
  by (auto simp: map_result_Inr_iff list_all2_conv_all_nth in_set_conv_nth) (metis nth_mem)

lemma map_result_to: "map_result f xs = Inr ys \<Longrightarrow> x \<in> set xs \<Longrightarrow> \<exists>y \<in> set ys. f x = Inr y"
  by (induction xs arbitrary: ys) (auto split: sum.splits)

lemma map_result_from: "map_result f xs = Inr ys \<Longrightarrow> y \<in> set ys \<Longrightarrow> \<exists>x \<in> set xs. f x = Inr y"
  by (induction xs arbitrary: ys) (auto split: sum.splits)

section \<open>JavaScript values\<close>

datatype js_number = JInt int | JFrac int | JNaN | JInf | JNegInf

datatype json =
    JUndefined
  | JNull
  | JBool bool
  | JNumber js_number
  | JString string
  | JArray "json list"
  | JObject "(string \<times> json) list"

definition max_safe_integer :: int where
  "max_safe_integer = 9007199254740991"

definition safe_int :: "int \<Rightarrow> bool" where
  "safe_int i \<longleftrightarrow> - max_safe_integer \<le> i \<and> i \<le> max_safe_integer"

fun is_safe_integer :: "json \<Rightarrow> bool" where
  "is_safe_integer (JNumber (JInt i)) = safe_int i"
| "is_safe_integer _ = False"

fun number_of :: "json \<Rightarrow> int" where
  "number_of (JNumber (JInt i)) = i"
| "number_of (JNumber (JFrac f)) = f"
| "number_of _ = 0"

fun is_finite_number :: "json \<Rightarrow> bool" where
  "is_finite_number (JNumber (JInt _)) = True"
| "is_finite_number (JNumber (JFrac _)) = True"
| "is_finite_number _ = False"

fun is_js_string :: "json \<Rightarrow> bool" where
  "is_js_string (JString _) = True"
| "is_js_string _ = False"

fun str_of :: "json \<Rightarrow> string" where
  "str_of (JString s) = s"
| "str_of _ = []"

fun is_js_boolean :: "json \<Rightarrow> bool" where
  "is_js_boolean (JBool _) = True"
| "is_js_boolean _ = False"

fun is_js_array :: "json \<Rightarrow> bool" where
  "is_js_array (JArray _) = True"
| "is_js_array _ = False"

fun elems_of :: "json \<Rightarrow> json list" where
  "elems_of (JArray xs) = xs"
| "elems_of _ = []"

text \<open>\<open>isRecord\<close> of the boundary modules: an object that is neither null nor an array.\<close>

fun is_record :: "json \<Rightarrow> bool" where
  "is_record (JObject _) = True"
| "is_record _ = False"

fun obj_members :: "json \<Rightarrow> (string \<times> json) list" where
  "obj_members (JObject ms) = ms"
| "obj_members _ = []"

text \<open>Reading a member that is absent gives \<open>undefined\<close>.\<close>

definition member :: "json \<Rightarrow> string \<Rightarrow> json" where
  "member v k = (case map_of (obj_members v) k of None \<Rightarrow> JUndefined | Some x \<Rightarrow> x)"

definition object_keys :: "json \<Rightarrow> string list" where
  "object_keys v = map fst (obj_members v)"

lemma is_js_string_iff: "is_js_string v \<longleftrightarrow> (\<exists>s. v = JString s)"
  by (cases v) auto

lemma is_js_array_iff: "is_js_array v \<longleftrightarrow> (\<exists>xs. v = JArray xs)"
  by (cases v) auto

lemma is_record_iff: "is_record v \<longleftrightarrow> (\<exists>ms. v = JObject ms)"
  by (cases v) auto

lemma is_js_boolean_iff: "is_js_boolean v \<longleftrightarrow> (\<exists>b. v = JBool b)"
  by (cases v) auto

lemma is_safe_integer_iff: "is_safe_integer v \<longleftrightarrow> (\<exists>i. v = JNumber (JInt i) \<and> safe_int i)"
  by (cases v rule: is_safe_integer.cases) auto

lemma member_in_keys: "member v k \<noteq> JUndefined \<Longrightarrow> k \<in> set (object_keys v)"
  by (auto simp: member_def object_keys_def split: option.splits dest: map_of_SomeD)
    (metis fst_conv image_eqI map_of_SomeD)

section \<open>String operations\<close>

definition nul :: char where
  "nul = char_of (0::nat)"

text \<open>White space as \<open>trim\<close> and the regular expression class \<open>\s\<close> see it, below code unit 256.\<close>

definition js_space :: "char \<Rightarrow> bool" where
  "js_space c \<longleftrightarrow> of_char c \<in> {9, 10, 11, 12, 13, 32, 160 :: nat}"

definition js_trim :: "string \<Rightarrow> string" where
  "js_trim s = rev (dropWhile js_space (rev (dropWhile js_space s)))"

definition js_starts_with :: "string \<Rightarrow> string \<Rightarrow> bool" where
  "js_starts_with s p \<longleftrightarrow> take (length p) s = p"

definition js_includes :: "string \<Rightarrow> char \<Rightarrow> bool" where
  "js_includes s c \<longleftrightarrow> c \<in> set s"

definition is_digit :: "char \<Rightarrow> bool" where
  "is_digit c \<longleftrightarrow> 48 \<le> (of_char c :: nat) \<and> (of_char c :: nat) \<le> 57"

definition is_upper :: "char \<Rightarrow> bool" where
  "is_upper c \<longleftrightarrow> 65 \<le> (of_char c :: nat) \<and> (of_char c :: nat) \<le> 90"

definition is_lower :: "char \<Rightarrow> bool" where
  "is_lower c \<longleftrightarrow> 97 \<le> (of_char c :: nat) \<and> (of_char c :: nat) \<le> 122"

definition is_alnum :: "char \<Rightarrow> bool" where
  "is_alnum c \<longleftrightarrow> is_digit c \<or> is_upper c \<or> is_lower c"

text \<open>\<open>toLowerCase\<close> on the code units below 256.\<close>

definition lower_char :: "char \<Rightarrow> char" where
  "lower_char c =
     (let n = (of_char c :: nat)
      in if 65 \<le> n \<and> n \<le> 90 \<or> 192 \<le> n \<and> n \<le> 222 \<and> n \<noteq> 215 then char_of (n + 32) else c)"

definition js_lower :: "string \<Rightarrow> string" where
  "js_lower s = map lower_char s"

definition utf8_width :: "char \<Rightarrow> nat" where
  "utf8_width c = (if (of_char c :: nat) < 128 then 1 else 2)"

definition utf8_length :: "string \<Rightarrow> nat" where
  "utf8_length s = sum_list (map utf8_width s)"

text \<open>\<open>split\<close> at a one-character separator: always at least one part.\<close>

fun js_split :: "char \<Rightarrow> string \<Rightarrow> string list" where
  "js_split c [] = [[]]"
| "js_split c (x # xs) =
     (if x = c then [] # js_split c xs
      else (case js_split c xs of [] \<Rightarrow> [[x]] | p # ps \<Rightarrow> (x # p) # ps))"

fun js_join :: "string \<Rightarrow> string list \<Rightarrow> string" where
  "js_join sep [] = []"
| "js_join sep [p] = p"
| "js_join sep (p # q # ps) = p @ sep @ js_join sep (q # ps)"

text \<open>The value of a string of decimal digits.\<close>

definition decimal_value :: "string \<Rightarrow> nat" where
  "decimal_value s = foldl (\<lambda>n c. 10 * n + (of_char c - 48)) 0 s"

text \<open>Decimal printing of numbers, as template literals do.\<close>

fun show_nat :: "nat \<Rightarrow> string" where
  "show_nat n = (if n < 10 then [char_of (48 + n)] else show_nat (n div 10) @ [char_of (48 + n mod 10)])"

declare show_nat.simps [simp del]

definition show_int :: "int \<Rightarrow> string" where
  "show_int i = (if i < 0 then ''-'' @ show_nat (nat (- i)) else show_nat (nat i))"

lemma decimal_value_snoc: "decimal_value (s @ [c]) = 10 * decimal_value s + (of_char c - 48)"
  by (simp add: decimal_value_def)

lemma decimal_value_show_nat [simp]: "decimal_value (show_nat n) = n"
proof (induction n rule: show_nat.induct)
  case (1 n)
  have digit: "(of_char (char_of (48 + d) :: char) :: nat) = 48 + d" if "d < 10" for d :: nat
    using that by (simp add: of_char_of)
  show ?case
  proof (cases "n < 10")
    case True
    then have "decimal_value (show_nat n) = of_char (char_of (48 + n) :: char) - 48"
      by (subst show_nat.simps) (simp add: decimal_value_def)
    with digit [OF True] show ?thesis by simp
  next
    case False
    have "n mod 10 < 10" by simp
    with False 1 show ?thesis
      by (subst show_nat.simps) (simp add: decimal_value_snoc digit)
  qed
qed

lemma show_nat_inject [simp]: "show_nat m = show_nat n \<longleftrightarrow> m = n"
  by (metis decimal_value_show_nat)

lemma js_trim_idem [simp]: "js_trim (js_trim s) = js_trim s"
proof -
  define t where "t = dropWhile js_space s"
  define u where "u = dropWhile js_space (rev t)"
  have "u = [] \<or> \<not> js_space (hd (rev u))"
  proof (cases "u = []")
    case False
    obtain pre where "rev t = pre @ u"
      unfolding u_def by (metis takeWhile_dropWhile_id)
    then have "t = rev u @ rev pre"
      by (metis rev_append rev_rev_ident)
    with False have "hd (rev u) = hd t" and "t \<noteq> []"
      by auto
    then show ?thesis
      unfolding t_def by (metis hd_dropWhile)
  qed simp
  then have "dropWhile js_space (rev u) = rev u"
    by (metis dropWhile_eq_self_iff rev_is_Nil_conv)
  moreover have "dropWhile js_space u = u"
    unfolding u_def by simp
  ultimately show ?thesis
    by (simp add: js_trim_def t_def [symmetric] u_def [symmetric])
qed

lemma js_split_not_Nil [simp]: "js_split c s \<noteq> []"
  by (induction s) (auto split: list.splits)

lemma js_join_split: "js_join [c] (js_split c s) = s"
proof (induction s)
  case (Cons x xs)
  show ?case
  proof (cases "js_split c xs")
    case (Cons p ps)
    with Cons.IH show ?thesis by (cases ps) auto
  qed (simp add: js_split_not_Nil [of c xs])
qed simp

lemma js_split_no_sep: "p \<in> set (js_split c s) \<Longrightarrow> c \<notin> set p"
proof (induction s arbitrary: p)
  case (Cons x xs)
  obtain q qs where q: "js_split c xs = q # qs"
    by (cases "js_split c xs") auto
  with Cons.prems have "p = [] \<or> p \<in> set (js_split c xs) \<or> (x \<noteq> c \<and> p = x # q)"
    by (auto split: if_splits)
  with Cons.IH q show ?case by auto
qed simp

lemma utf8_length_append [simp]: "utf8_length (s @ t) = utf8_length s + utf8_length t"
  by (simp add: utf8_length_def)

lemma utf8_length_ge: "length s \<le> utf8_length s"
  by (induction s) (auto simp: utf8_length_def utf8_width_def)

section \<open>JSON text\<close>

text \<open>
  \<open>JSON.stringify\<close> without indentation. Members that are undefined are left out, undefined array
  elements become null, and control characters are escaped. The text of a number is a parameter.
\<close>

definition LF :: char where
  "LF = char_of (10::nat)"

definition CR :: char where
  "CR = char_of (13::nat)"

definition hex_digit :: "nat \<Rightarrow> char" where
  "hex_digit n = (if n < 10 then char_of (48 + n) else char_of (87 + n))"

definition quote_char :: char where
  "quote_char = char_of (34::nat)"

definition backslash :: char where
  "backslash = char_of (92::nat)"

definition json_escape :: "char \<Rightarrow> string" where
  "json_escape c =
     (let n = (of_char c :: nat) in
      if n = 34 \<or> n = 92 then [backslash, c]
      else if n = 8 then [backslash, CHR ''b''] else if n = 9 then [backslash, CHR ''t'']
      else if n = 10 then [backslash, CHR ''n''] else if n = 12 then [backslash, CHR ''f'']
      else if n = 13 then [backslash, CHR ''r'']
      else if n < 32 then backslash # ''u00'' @ [hex_digit (n div 16), hex_digit (n mod 16)]
      else [c])"

definition json_string :: "string \<Rightarrow> string" where
  "json_string s = quote_char # concat (map json_escape s) @ [quote_char]"

fun json_stringify :: "(js_number \<Rightarrow> string) \<Rightarrow> json \<Rightarrow> string" where
  "json_stringify num JUndefined = ''null''"
| "json_stringify num JNull = ''null''"
| "json_stringify num (JBool b) = (if b then ''true'' else ''false'')"
| "json_stringify num (JNumber n) = (case n of JInt _ \<Rightarrow> num n | JFrac _ \<Rightarrow> num n | _ \<Rightarrow> ''null'')"
| "json_stringify num (JString s) = json_string s"
| "json_stringify num (JArray xs) = ''['' @ js_join '','' (map (json_stringify num) xs) @ '']''"
| "json_stringify num (JObject ms) =
     ''{'' @ js_join '',''
       (map (\<lambda>(k, v). json_string k @ '':'' @ json_stringify num v)
         (filter (\<lambda>(k, v). v \<noteq> JUndefined) ms)) @ ''}''"

lemma LF_neq [simp]: "LF \<noteq> quote_char" "LF \<noteq> backslash" "LF \<noteq> CR" "CR \<noteq> LF"
  by code_simp+

lemma hex_digit_ge: "n < 16 \<Longrightarrow> 48 \<le> (of_char (hex_digit n) :: nat)"
  by (simp add: hex_digit_def of_char_of)

lemma json_escape_ge:
  assumes "x \<in> set (json_escape c)"
  shows "32 \<le> (of_char x :: nat)"
proof -
  have b: "(of_char backslash :: nat) = 92" by (simp add: backslash_def of_char_of)
  show ?thesis
  proof (cases "(of_char c :: nat) < 32")
    case True
    have d: "48 \<le> (of_char (hex_digit (of_char c div 16)) :: nat)"
      "48 \<le> (of_char (hex_digit (of_char c mod 16)) :: nat)"
      using True by (auto intro!: hex_digit_ge)
    have "32 \<le> (of_char x :: nat)" if "x = CHR ''u'' \<or> x = CHR ''0'' \<or> x = CHR ''b'' \<or> x = CHR ''t''
        \<or> x = CHR ''n'' \<or> x = CHR ''f'' \<or> x = CHR ''r''"
      using that by auto
    moreover have "x = CHR ''u'' \<or> x = CHR ''0'' \<or> x = CHR ''b'' \<or> x = CHR ''t'' \<or> x = CHR ''n''
        \<or> x = CHR ''f'' \<or> x = CHR ''r'' \<or> x = backslash \<or> x = hex_digit (of_char c div 16)
        \<or> x = hex_digit (of_char c mod 16)"
      using assms True unfolding json_escape_def Let_def
      by (simp split: if_splits) blast+
    ultimately show ?thesis using b d by force
  next
    case False
    with assms b show ?thesis
      by (auto simp: json_escape_def Let_def split: if_splits)
  qed
qed

lemma json_escape_no_LF: "LF \<notin> set (json_escape c)"
proof
  assume "LF \<in> set (json_escape c)"
  from json_escape_ge [OF this] show False by (simp add: LF_def of_char_of)
qed

lemma json_string_no_LF: "LF \<notin> set (json_string s)"
  using json_escape_no_LF by (auto simp: json_string_def)

lemma js_join_chars: "set (js_join sep ps) \<subseteq> set sep \<union> \<Union> (set ` set ps)"
  by (induction sep ps rule: js_join.induct) auto

lemma json_stringify_no_LF:
  assumes num: "\<And>n. LF \<notin> set (num n)"
  shows "LF \<notin> set (json_stringify num v)"
proof (induction v)
  case (JNumber n)
  have "LF \<notin> set ''null''" by code_simp
  with num show ?case by (simp split: js_number.split)
next
  case (JBool b)
  have "LF \<notin> set ''true''" "LF \<notin> set ''false''" by code_simp+
  then show ?case by simp
next
  case (JArray xs)
  have c: "LF \<notin> set '',''" "LF \<notin> set ''[''" "LF \<notin> set '']''" by code_simp+
  with JArray js_join_chars [of "'',''" "map (json_stringify num) xs"] have
    "LF \<notin> set (js_join '','' (map (json_stringify num) xs))" by auto
  with c show ?case by simp
next
  case (JObject ms)
  let ?ps = "map (\<lambda>(k, v). json_string k @ '':'' @ json_stringify num v)
    (filter (\<lambda>(k, v). v \<noteq> JUndefined) ms)"
  have c: "LF \<notin> set '',''" "LF \<notin> set ''{''" "LF \<notin> set ''}''" "LF \<notin> set '':''" by code_simp+
  have "LF \<notin> set p" if "p \<in> set ?ps" for p
    using that JObject c(4) json_string_no_LF by (force simp: snds.simps)
  with js_join_chars [of "'',''" ?ps] c(1) have "LF \<notin> set (js_join '','' ?ps)" by blast
  with c show ?case by simp
next
  case (JString s)
  show ?case by (simp add: json_string_no_LF)
qed (code_simp)+

lemma json_stringify_not_Nil [simp]: "is_record v \<Longrightarrow> json_stringify num v \<noteq> []"
  by (cases v) auto

section \<open>Ordered maps\<close>

text \<open>
  A JavaScript \<open>Map\<close> keeps the insertion order of its keys; it is an association list with
  distinct keys. \<open>om_set\<close> overwrites in place or appends, as \<open>Map.set\<close> does.
\<close>

type_synonym ('k, 'v) omap = "('k \<times> 'v) list"

definition om_wf :: "('k, 'v) omap \<Rightarrow> bool" where
  "om_wf m \<longleftrightarrow> distinct (map fst m)"

definition om_get :: "('k, 'v) omap \<Rightarrow> 'k \<Rightarrow> 'v option" where
  "om_get m k = map_of m k"

definition om_has :: "('k, 'v) omap \<Rightarrow> 'k \<Rightarrow> bool" where
  "om_has m k \<longleftrightarrow> k \<in> set (map fst m)"

fun om_set :: "('k, 'v) omap \<Rightarrow> 'k \<Rightarrow> 'v \<Rightarrow> ('k, 'v) omap" where
  "om_set [] k v = [(k, v)]"
| "om_set ((k', v') # m) k v = (if k' = k then (k, v) # m else (k', v') # om_set m k v)"

definition om_delete :: "('k, 'v) omap \<Rightarrow> 'k \<Rightarrow> ('k, 'v) omap" where
  "om_delete m k = filter (\<lambda>p. fst p \<noteq> k) m"

lemma om_get_Nil [simp]: "om_get [] k = None"
  by (simp add: om_get_def)

lemma om_get_set [simp]: "om_get (om_set m k v) k' = (if k' = k then Some v else om_get m k')"
  by (induction m) (auto simp: om_get_def)

lemma om_get_delete [simp]: "om_get (om_delete m k) k' = (if k' = k then None else om_get m k')"
  by (induction m) (auto simp: om_get_def om_delete_def)

lemma om_keys_set: "set (map fst (om_set m k v)) = insert k (set (map fst m))"
  by (induction m k v rule: om_set.induct) (simp_all add: insert_commute)

lemma om_has_set [simp]: "om_has (om_set m k v) k' \<longleftrightarrow> k' = k \<or> om_has m k'"
  using om_keys_set [of m k v] by (auto simp: om_has_def)

lemma om_has_delete [simp]: "om_has (om_delete m k) k' \<longleftrightarrow> k' \<noteq> k \<and> om_has m k'"
  by (auto simp: om_has_def om_delete_def)

lemma om_has_get: "om_has m k \<longleftrightarrow> om_get m k \<noteq> None"
  by (simp add: om_has_def om_get_def map_of_eq_None_iff)

lemma om_wf_Nil [simp]: "om_wf []"
  by (simp add: om_wf_def)

lemma om_wf_set [simp]: "om_wf m \<Longrightarrow> om_wf (om_set m k v)"
proof (induction m)
  case (Cons p m)
  obtain a b where p: "p = (a, b)" by (cases p)
  from Cons.prems p have a: "a \<notin> set (map fst m)" and wf: "om_wf m"
    by (auto simp: om_wf_def)
  from wf have IH: "om_wf (om_set m k v)" by (rule Cons.IH)
  have "a \<noteq> k \<Longrightarrow> a \<notin> set (map fst (om_set m k v))"
    using a by (simp only: om_keys_set) simp
  with a IH wf p show ?case by (auto simp: om_wf_def)
qed (simp add: om_wf_def)

lemma om_wf_delete [simp]: "om_wf m \<Longrightarrow> om_wf (om_delete m k)"
  by (simp add: om_wf_def om_delete_def distinct_map_filter)

lemma om_length_set: "length (om_set m k v) = (if om_has m k then length m else Suc (length m))"
  by (induction m k v rule: om_set.induct) (simp_all add: om_has_def)

lemma om_length_delete:
  "om_wf m \<Longrightarrow> length (om_delete m k) = (if om_has m k then length m - 1 else length m)"
proof (induction m)
  case (Cons p m)
  then have wf: "om_wf m" and notin: "fst p \<notin> set (map fst m)"
    by (auto simp: om_wf_def)
  show ?case
  proof (cases "fst p = k")
    case True
    with notin have "om_delete m k = m"
      by (auto simp: om_delete_def image_iff intro!: filter_True)
    with True show ?thesis by (auto simp: om_delete_def om_has_def)
  next
    case False
    have "om_has m k \<Longrightarrow> m \<noteq> []" by (auto simp: om_has_def)
    with False Cons.IH [OF wf] show ?thesis
      by (cases m) (auto simp: om_delete_def om_has_def)
  qed
qed (simp add: om_delete_def om_has_def)

lemma om_length_delete_le: "length (om_delete m k) \<le> length m"
  by (simp add: om_delete_def)

section \<open>Lists\<close>

lemma suffix_filter_le: "suffix xs ys \<Longrightarrow> suffix (filter P xs) (filter P ys)"
  by (auto simp: suffix_def)

lemma sorted_wrt_suffix: "suffix xs ys \<Longrightarrow> sorted_wrt R ys \<Longrightarrow> sorted_wrt R xs"
  by (auto simp: suffix_def sorted_wrt_append)

lemma sum_list_suffix_le:
  "suffix xs ys \<Longrightarrow> sum_list (map (f :: 'a \<Rightarrow> nat) xs) \<le> sum_list (map f ys)"
  by (auto simp: suffix_def)

lemma length_filter_remove_key:
  assumes "distinct (map key xs)" and "x \<in> set xs" and "P x"
  shows "length (filter P xs) = Suc (length (filter (\<lambda>y. P y \<and> key y \<noteq> key x) xs))"
  using assms
proof (induction xs)
  case (Cons y ys)
  show ?case
  proof (cases "x = y")
    case True
    have "filter (\<lambda>z. P z \<and> key z \<noteq> key x) ys = filter P ys"
      using Cons.prems(1) True by (intro filter_cong) (auto simp: image_iff)
    with True Cons.prems show ?thesis by simp
  next
    case False
    with Cons.prems have "x \<in> set ys" "key y \<noteq> key x" by (auto simp: image_iff)
    with Cons show ?thesis by simp
  qed
qed simp

section \<open>Sorting\<close>

text \<open>\<open>Array.prototype.sort\<close> with a comparator: stable, and for a consistent comparator this list.\<close>

fun sorted_insert :: "('a \<Rightarrow> 'a \<Rightarrow> int) \<Rightarrow> 'a \<Rightarrow> 'a list \<Rightarrow> 'a list" where
  "sorted_insert compare x [] = [x]"
| "sorted_insert compare x (y # ys) =
     (if compare x y \<le> 0 then x # y # ys else y # sorted_insert compare x ys)"

definition js_sort :: "('a \<Rightarrow> 'a \<Rightarrow> int) \<Rightarrow> 'a list \<Rightarrow> 'a list" where
  "js_sort compare xs = foldr (sorted_insert compare) xs []"

lemma sorted_insert_set [simp]: "set (sorted_insert f x ys) = insert x (set ys)"
  by (induction ys) auto

lemma sorted_insert_distinct [simp]:
  "distinct (map g (sorted_insert f x ys)) \<longleftrightarrow> g x \<notin> g ` set ys \<and> distinct (map g ys)"
  by (induction ys) auto

lemma js_sort_set [simp]: "set (js_sort f xs) = set xs"
  by (induction xs) (simp_all add: js_sort_def)

lemma js_sort_distinct [simp]: "distinct (map g (js_sort f xs)) \<longleftrightarrow> distinct (map g xs)"
proof (induction xs)
  case (Cons x xs)
  then show ?case using js_sort_set [of f xs] by (simp add: js_sort_def)
qed (simp add: js_sort_def)

text \<open>With a comparator that is total and transitive the result is in order.\<close>

lemma js_sort_sorted:
  assumes total: "\<And>x y. f x y \<le> 0 \<or> f y x \<le> 0" and trans: "\<And>x y z. f x y \<le> 0 \<Longrightarrow> f y z \<le> 0 \<Longrightarrow> f x z \<le> 0"
  shows "sorted_wrt (\<lambda>x y. f x y \<le> 0) (js_sort f xs)"
proof -
  have ins: "sorted_wrt (\<lambda>x y. f x y \<le> 0) ys \<Longrightarrow> sorted_wrt (\<lambda>x y. f x y \<le> 0) (sorted_insert f x ys)" for x ys
    by (induction ys) (use total trans in \<open>auto\<close>)
  show ?thesis by (induction xs) (simp_all add: js_sort_def ins)
qed

end
