(* ===== verification/Session_Phases.thy ===== *)
theory Session_Phases
  imports Prelude
begin

text \<open>
  The two state machines of a session. \<open>SessionStateMachine\<close>
  (web/server/session-state-machine.ts) validates the phase a browser sees; listeners are values
  of a type variable and a delivery is an entry of the returned effect list.
  \<open>SessionRuntimeStateMachine\<close> and its registry (web/server/session-runtime-state.ts) validate
  the commits of one runtime generation. The clock (\<open>Date.now()\<close>) is an argument.

  Both machines promise the same thing to their callers: a commit either moves along the table
  or leaves the phase alone. The locale \<open>guarded_machine\<close> states that contract, and both machines
  are interpretations of it.
\<close>

section \<open>The contract of a guarded machine\<close>

locale guarded_machine =
  fixes phase_of :: "'m \<Rightarrow> 's"
    and table :: "'s \<Rightarrow> 's \<Rightarrow> bool"
    and move :: "'a \<Rightarrow> 's \<Rightarrow> 'm \<Rightarrow> bool \<times> 'm"
  assumes move_accepted: "move a s m = (True, m') \<Longrightarrow> phase_of m' = s"
    and move_allowed: "move a s m = (True, m') \<Longrightarrow> s = phase_of m \<or> table (phase_of m) s"
    and move_refused: "move a s m = (False, m') \<Longrightarrow> phase_of m' = phase_of m"
begin

lemma move_phase:
  "phase_of (snd (move a s m)) = phase_of m \<or>
   (table (phase_of m) s \<and> phase_of (snd (move a s m)) = s)"
proof (cases "move a s m")
  case (Pair ok m')
  then show ?thesis
    using move_accepted [of a s m m'] move_allowed [of a s m m'] move_refused [of a s m m']
    by (cases ok) auto
qed

lemma moves_follow_table:
  "(phase_of m, phase_of (fold (\<lambda>(a, s) m. snd (move a s m)) reqs m)) \<in> {(x, y). table x y}\<^sup>*"
proof (induction reqs arbitrary: m)
  case (Cons r reqs)
  obtain a s where r: "r = (a, s)" by (cases r)
  have "(phase_of m, phase_of (snd (move a s m))) \<in> {(x, y). table x y}\<^sup>*"
    using move_phase [of a s m] by auto
  with Cons.IH [of "snd (move a s m)"] r show ?case
    by (simp add: rtrancl_trans)
qed simp

lemma moves_stay_or_request:
  "phase_of (fold (\<lambda>(a, s) m. snd (move a s m)) reqs m) \<in> insert (phase_of m) (snd ` set reqs)"
proof (induction reqs arbitrary: m)
  case (Cons r reqs)
  obtain a s where r: "r = (a, s)" by (cases r)
  show ?case
    using Cons.IH [of "snd (move a s m)"] move_phase [of a s m] r by auto
qed simp

lemma leaving_needs_exit:
  assumes only: "\<And>t. table p t \<Longrightarrow> t = q"
    and start: "phase_of m = p"
    and moved: "phase_of (fold (\<lambda>(a, s) m. snd (move a s m)) reqs m) \<noteq> p"
  shows "q \<in> snd ` set reqs"
  using start moved
proof (induction reqs arbitrary: m)
  case (Cons r reqs)
  obtain a s where r: "r = (a, s)" by (cases r)
  consider "phase_of (snd (move a s m)) = p" | "table p s"
    using move_phase [of a s m] Cons.prems(1) by auto
  then show ?case
  proof cases
    case 1
    with Cons r show ?thesis by auto
  next
    case 2
    then have "s = q" by (rule only)
    with r show ?thesis by force
  qed
qed simp

end

section \<open>Session phases\<close>

datatype session_phase =
    Starting
  | Initializing
  | Ready
  | Streaming
  | AwaitingPermission
  | Compacting
  | Reconnecting
  | Terminated

record transition_event =
  te_sessionId :: string
  te_from :: session_phase
  te_to :: session_phase
  te_trigger :: string
  te_timestamp :: int

record 'l session_machine =
  sm_phase :: session_phase
  sm_sessionId :: string
  sm_listeners :: "'l list"

text \<open>What a call does to the outside: the error metric with its warning, and the deliveries.\<close>

datatype 'l sm_effect =
    BlockedTransition session_phase session_phase
  | Deliver 'l transition_event

fun VALID_TRANSITIONS :: "session_phase \<Rightarrow> session_phase list" where
  "VALID_TRANSITIONS Starting = [Initializing, Streaming, Reconnecting, Terminated]"
| "VALID_TRANSITIONS Initializing = [Ready, Streaming, Reconnecting, Terminated]"
| "VALID_TRANSITIONS Ready = [Streaming, Compacting, Reconnecting, Terminated]"
| "VALID_TRANSITIONS Streaming =
     [Ready, Initializing, AwaitingPermission, Compacting, Reconnecting, Terminated]"
| "VALID_TRANSITIONS AwaitingPermission = [Streaming, Ready, Reconnecting, Terminated]"
| "VALID_TRANSITIONS Compacting = [Ready, Streaming, Reconnecting, Terminated]"
| "VALID_TRANSITIONS Reconnecting = [Initializing, Starting, Ready, Streaming, Terminated]"
| "VALID_TRANSITIONS Terminated = [Starting]"

definition new_session_machine :: "string \<Rightarrow> session_phase \<Rightarrow> 'l session_machine" where
  "new_session_machine sessionId initialPhase =
     \<lparr>sm_phase = initialPhase, sm_sessionId = sessionId, sm_listeners = []\<rparr>"

text \<open>
  \<open>transition(to, trigger)\<close>: the result, the machine and the effects. A listener that throws is
  caught, so every listener of the snapshot gets the event.
\<close>

definition transition ::
  "'l session_machine \<Rightarrow> session_phase \<Rightarrow> string \<Rightarrow> int
     \<Rightarrow> bool \<times> 'l session_machine \<times> 'l sm_effect list" where
  "transition m to trigger now =
     (if sm_phase m = to then (True, m, [])
      else if to \<notin> set (VALID_TRANSITIONS (sm_phase m))
      then (False, m, [BlockedTransition (sm_phase m) to])
      else (let event = \<lparr>te_sessionId = sm_sessionId m, te_from = sm_phase m, te_to = to,
                         te_trigger = trigger, te_timestamp = now\<rparr>
            in (True, m\<lparr>sm_phase := to\<rparr>, map (\<lambda>l. Deliver l event) (sm_listeners m))))"

definition onTransition :: "'l session_machine \<Rightarrow> 'l \<Rightarrow> 'l session_machine" where
  "onTransition m listener = m\<lparr>sm_listeners := sm_listeners m @ [listener]\<rparr>"

text \<open>The returned unsubscribe function removes the first occurrence (\<open>indexOf\<close>, \<open>splice\<close>).\<close>

definition unsubscribe :: "'l session_machine \<Rightarrow> 'l \<Rightarrow> 'l session_machine" where
  "unsubscribe m listener = m\<lparr>sm_listeners := remove1 listener (sm_listeners m)\<rparr>"

definition forceState :: "'l session_machine \<Rightarrow> session_phase \<Rightarrow> 'l session_machine" where
  "forceState m p = m\<lparr>sm_phase := p\<rparr>"

definition canAcceptUserMessage :: "'l session_machine \<Rightarrow> bool" where
  "canAcceptUserMessage m \<longleftrightarrow> sm_phase m = Ready"

definition canRespondToPermission :: "'l session_machine \<Rightarrow> bool" where
  "canRespondToPermission m \<longleftrightarrow> sm_phase m = AwaitingPermission"

definition canSendToCLI :: "'l session_machine \<Rightarrow> bool" where
  "canSendToCLI m \<longleftrightarrow>
     sm_phase m \<noteq> Terminated \<and> sm_phase m \<noteq> Reconnecting \<and> sm_phase m \<noteq> Starting"

definition isActive :: "'l session_machine \<Rightarrow> bool" where
  "isActive m \<longleftrightarrow> sm_phase m \<noteq> Terminated"

definition isIdle :: "'l session_machine \<Rightarrow> bool" where
  "isIdle m \<longleftrightarrow> sm_phase m = Ready"

definition transitions ::
  "(session_phase \<times> string \<times> int) list \<Rightarrow> 'l session_machine \<Rightarrow> 'l session_machine" where
  "transitions reqs m = fold (\<lambda>(to, trigger, now) m. fst (snd (transition m to trigger now))) reqs m"

lemmas transition_simps =
  transition_def onTransition_def unsubscribe_def forceState_def new_session_machine_def

text \<open>The machine as an instance of the contract; the request carries trigger and clock.\<close>

definition phase_move ::
  "string \<times> int \<Rightarrow> session_phase \<Rightarrow> 'l session_machine \<Rightarrow> bool \<times> 'l session_machine" where
  "phase_move a to m = (let (ok, m', effects) = transition m to (fst a) (snd a) in (ok, m'))"

interpretation session: guarded_machine sm_phase "\<lambda>p q. q \<in> set (VALID_TRANSITIONS p)" phase_move
  by unfold_locales (auto simp: phase_move_def transition_def Let_def split: if_splits)

lemma transitions_as_moves:
  "transitions reqs m =
     fold (\<lambda>(a, s) m. snd (phase_move a s m)) (map (\<lambda>(to, trigger, now). ((trigger, now), to)) reqs) m"
proof -
  have "snd (phase_move (trigger, now) to m) = fst (snd (transition m to trigger now))"
    for trigger now to and m :: "'l session_machine"
    by (simp add: phase_move_def split: prod.splits)
  then have step: "(\<lambda>(a, s) m. snd (phase_move a s m)) \<circ> (\<lambda>(to, trigger, now). ((trigger, now), to)) =
      (\<lambda>(to, trigger, now) (m :: 'l session_machine). fst (snd (transition m to trigger now)))"
    by (auto simp: fun_eq_iff)
  show ?thesis
    by (simp add: transitions_def fold_map step)
qed

lemma transitions_session_id: "sm_sessionId (transitions reqs m) = sm_sessionId m"
proof (induction reqs arbitrary: m)
  case (Cons r reqs)
  obtain to trigger now where "r = (to, trigger, now)" by (cases r)
  with Cons show ?case
    by (simp add: transitions_def transition_def Let_def)
qed (simp add: transitions_def)

section \<open>Runtime generations\<close>

datatype runtime_state =
    Idle
  | Preparing
  | RtStarting
  | Connecting
  | RtReady
  | Stopping
  | Stopped
  | Failed

record runtime_snapshot =
  rs_sessionId :: string
  rs_state :: runtime_state
  rs_generation :: int
  rs_reason :: string
  rs_updatedAt :: int

fun VALID_RUNTIME_TRANSITIONS :: "runtime_state \<Rightarrow> runtime_state list" where
  "VALID_RUNTIME_TRANSITIONS Idle = [Preparing, Stopping, Failed]"
| "VALID_RUNTIME_TRANSITIONS Preparing = [RtStarting, Stopping, Failed]"
| "VALID_RUNTIME_TRANSITIONS RtStarting = [Connecting, Stopping, Failed]"
| "VALID_RUNTIME_TRANSITIONS Connecting = [RtReady, RtStarting, Stopping, Failed]"
| "VALID_RUNTIME_TRANSITIONS RtReady = [Connecting, Stopping, Failed]"
| "VALID_RUNTIME_TRANSITIONS Stopping = [Stopped, Failed]"
| "VALID_RUNTIME_TRANSITIONS Stopped = [Preparing]"
| "VALID_RUNTIME_TRANSITIONS Failed = [Preparing, Stopping]"

definition new_runtime_machine ::
  "string \<Rightarrow> runtime_state option \<Rightarrow> int option \<Rightarrow> string option \<Rightarrow> int \<Rightarrow> runtime_snapshot" where
  "new_runtime_machine sessionId state generation reason now =
     \<lparr>rs_sessionId = sessionId,
      rs_state = (case state of None \<Rightarrow> Idle | Some s \<Rightarrow> s),
      rs_generation = (case generation of None \<Rightarrow> 0 | Some g \<Rightarrow> g),
      rs_reason = (case reason of None \<Rightarrow> ''initialized'' | Some r \<Rightarrow> r),
      rs_updatedAt = now\<rparr>"

text \<open>\<open>begin\<close>: only the two entry states can start a generation.\<close>

datatype begin_state = BeginPreparing | BeginStopping

fun begin_to_state :: "begin_state \<Rightarrow> runtime_state" where
  "begin_to_state BeginPreparing = Preparing"
| "begin_to_state BeginStopping = Stopping"

definition runtime_begin ::
  "runtime_snapshot \<Rightarrow> int \<Rightarrow> begin_state \<Rightarrow> string \<Rightarrow> int \<Rightarrow> bool \<times> runtime_snapshot" where
  "runtime_begin s generation state reason now =
     (if \<not> safe_int generation \<or> generation \<le> rs_generation s then (False, s)
      else (True, s\<lparr>rs_state := begin_to_state state, rs_generation := generation,
                    rs_reason := reason, rs_updatedAt := now\<rparr>))"

definition runtime_transition ::
  "runtime_snapshot \<Rightarrow> int \<Rightarrow> runtime_state \<Rightarrow> string \<Rightarrow> int \<Rightarrow> bool \<times> runtime_snapshot" where
  "runtime_transition s generation state reason now =
     (if generation \<noteq> rs_generation s then (False, s)
      else if state = rs_state s then (True, s\<lparr>rs_reason := reason, rs_updatedAt := now\<rparr>)
      else if state \<notin> set (VALID_RUNTIME_TRANSITIONS (rs_state s)) then (False, s)
      else (True, s\<lparr>rs_state := state, rs_reason := reason, rs_updatedAt := now\<rparr>))"

lemmas runtime_defs = runtime_begin_def runtime_transition_def new_runtime_machine_def

definition runtime_move ::
  "int \<times> string \<times> int \<Rightarrow> runtime_state \<Rightarrow> runtime_snapshot \<Rightarrow> bool \<times> runtime_snapshot" where
  "runtime_move a state s = runtime_transition s (fst a) state (fst (snd a)) (snd (snd a))"

interpretation runtime: guarded_machine rs_state
  "\<lambda>p q. q \<in> set (VALID_RUNTIME_TRANSITIONS p)" runtime_move
  by unfold_locales (auto simp: runtime_move_def runtime_transition_def split: if_splits)

text \<open>The registry: one machine per session id, in insertion order.\<close>

type_synonym runtime_registry = "(string, runtime_snapshot) omap"

definition registry_ensure :: "runtime_registry \<Rightarrow> string \<Rightarrow> int \<Rightarrow> runtime_snapshot \<times> runtime_registry" where
  "registry_ensure r sessionId now =
     (case om_get r sessionId of
        Some s \<Rightarrow> (s, r)
      | None \<Rightarrow> (let s = new_runtime_machine sessionId None None None now
                 in (s, om_set r sessionId s)))"

definition registry_begin ::
  "runtime_registry \<Rightarrow> string \<Rightarrow> int \<Rightarrow> begin_state \<Rightarrow> string \<Rightarrow> int \<Rightarrow> bool \<times> runtime_registry" where
  "registry_begin r sessionId generation state reason now =
     (let (s, r') = registry_ensure r sessionId now;
          (ok, s') = runtime_begin s generation state reason now
      in (ok, om_set r' sessionId s'))"

definition registry_transition ::
  "runtime_registry \<Rightarrow> string \<Rightarrow> int \<Rightarrow> runtime_state \<Rightarrow> string \<Rightarrow> int \<Rightarrow> bool \<times> runtime_registry" where
  "registry_transition r sessionId generation state reason now =
     (let (s, r') = registry_ensure r sessionId now;
          (ok, s') = runtime_transition s generation state reason now
      in (ok, om_set r' sessionId s'))"

definition registry_get :: "runtime_registry \<Rightarrow> string \<Rightarrow> runtime_snapshot option" where
  "registry_get r sessionId = om_get r sessionId"

definition registry_remove :: "runtime_registry \<Rightarrow> string \<Rightarrow> bool \<times> runtime_registry" where
  "registry_remove r sessionId = (om_has r sessionId, om_delete r sessionId)"

definition registry_list :: "runtime_registry \<Rightarrow> runtime_snapshot list" where
  "registry_list r = map snd r"

text \<open>The commits of the orchestrator, in any order.\<close>

datatype registry_op =
    OpBegin string int begin_state string int
  | OpTransition string int runtime_state string int

fun registry_step :: "registry_op \<Rightarrow> runtime_registry \<Rightarrow> runtime_registry" where
  "registry_step (OpBegin sid g st reason now) r = snd (registry_begin r sid g st reason now)"
| "registry_step (OpTransition sid g st reason now) r = snd (registry_transition r sid g st reason now)"

definition generation_of :: "runtime_registry \<Rightarrow> string \<Rightarrow> int" where
  "generation_of r sid = (case om_get r sid of None \<Rightarrow> 0 | Some s \<Rightarrow> rs_generation s)"

lemma registry_step_generation: "generation_of r sid \<le> generation_of (registry_step op r) sid"
  by (cases op)
    (auto simp: generation_of_def registry_begin_def registry_transition_def registry_ensure_def
      runtime_defs Let_def split: option.splits prod.splits)

lemma registry_steps_generation: "generation_of r sid \<le> generation_of (fold registry_step ops r) sid"
proof (induction ops arbitrary: r)
  case (Cons op ops)
  have "generation_of r sid \<le> generation_of (registry_step op r) sid"
    by (rule registry_step_generation)
  also have "\<dots> \<le> generation_of (fold registry_step ops (registry_step op r)) sid"
    by (rule Cons.IH)
  finally show ?case by simp
qed simp

lemma registry_step_wf: "om_wf r \<Longrightarrow> om_wf (registry_step op r)"
  by (cases op)
    (auto simp: registry_begin_def registry_transition_def registry_ensure_def Let_def
      split: option.splits prod.splits)

lemma registry_step_other:
  "(case op of OpBegin s _ _ _ _ \<Rightarrow> s | OpTransition s _ _ _ _ \<Rightarrow> s) \<noteq> sid \<Longrightarrow>
   om_get (registry_step op r) sid = om_get r sid"
  by (cases op)
    (auto simp: registry_begin_def registry_transition_def registry_ensure_def Let_def
      split: option.splits prod.splits)


section \<open>What observers see of a run\<close>

text \<open>The effects of a run, in order, and the events one listener receives.\<close>

fun run_effects ::
  "(session_phase \<times> string \<times> int) list \<Rightarrow> 'l session_machine \<Rightarrow> 'l sm_effect list" where
  "run_effects [] m = []"
| "run_effects ((to, trigger, now) # reqs) m =
     (let (ok, m', effects) = transition m to trigger now in effects @ run_effects reqs m')"

definition events_of :: "'l \<Rightarrow> 'l sm_effect list \<Rightarrow> transition_event list" where
  "events_of l effects =
     concat (map (\<lambda>e. case e of Deliver l' ev \<Rightarrow> (if l' = l then [ev] else []) | _ \<Rightarrow> []) effects)"

text \<open>A list of events that leads from one phase to another along the table, without a jump.\<close>

fun linked :: "session_phase \<Rightarrow> transition_event list \<Rightarrow> session_phase \<Rightarrow> bool" where
  "linked p [] q \<longleftrightarrow> p = q"
| "linked p (ev # evs) q \<longleftrightarrow>
     te_from ev = p \<and> te_to ev \<in> set (VALID_TRANSITIONS p) \<and> linked (te_to ev) evs q"

lemma events_of_Nil [simp]: "events_of l [] = []"
  by (simp add: events_of_def)

lemma events_of_append [simp]: "events_of l (xs @ ys) = events_of l xs @ events_of l ys"
  by (simp add: events_of_def)

lemma events_of_deliveries:
  "distinct ls \<Longrightarrow> events_of l (map (\<lambda>l. Deliver l ev) ls) = (if l \<in> set ls then [ev] else [])"
  by (induction ls) (auto simp: events_of_def)

lemma transition_cases:
  obtains (same) "transition m to trigger now = (True, m, [])" "sm_phase m = to"
  | (blocked) "transition m to trigger now = (False, m, [BlockedTransition (sm_phase m) to])"
      "to \<notin> set (VALID_TRANSITIONS (sm_phase m))"
  | (moved) ev where "ev = \<lparr>te_sessionId = sm_sessionId m, te_from = sm_phase m, te_to = to,
                         te_trigger = trigger, te_timestamp = now\<rparr>"
      "transition m to trigger now =
        (True, m\<lparr>sm_phase := to\<rparr>, map (\<lambda>l. Deliver l ev) (sm_listeners m))"
      "to \<in> set (VALID_TRANSITIONS (sm_phase m))"
  by (cases "sm_phase m = to"; cases "to \<in> set (VALID_TRANSITIONS (sm_phase m))")
    (auto simp: transition_def Let_def)

lemma run_effects_linked:
  assumes "l \<in> set (sm_listeners m)" and "distinct (sm_listeners m)"
  shows "linked (sm_phase m) (events_of l (run_effects reqs m)) (sm_phase (transitions reqs m))"
  using assms
proof (induction reqs arbitrary: m)
  case (Cons r reqs)
  obtain to trigger now where r: "r = (to, trigger, now)" by (cases r)
  show ?case
  proof (cases rule: transition_cases [of m to trigger now])
    case same
    with Cons.IH [OF Cons.prems] r show ?thesis by (simp add: transitions_def)
  next
    case blocked
    with Cons.IH [OF Cons.prems] r show ?thesis
      by (simp add: transitions_def events_of_def)
  next
    case (moved ev)
    from Cons.IH [of "m\<lparr>sm_phase := to\<rparr>"] Cons.prems moved r show ?thesis
      by (simp add: transitions_def events_of_deliveries)
  qed
qed (simp add: transitions_def)

section \<open>Properties\<close>

text \<open>
  Every sequence of phase changes stays on the published table: from any phase, whatever is
  requested in whatever order, the phase reached is connected to the starting one by a path of
  \<open>VALID_TRANSITIONS\<close>, and a listener subscribed throughout is told exactly the steps of such a
  path: the events it gets chain from the first phase to the last with no gap and no repetition.
\<close>

theorem session_phase_runs_follow_table:
  assumes "l \<in> set (sm_listeners m)" and "distinct (sm_listeners m)"
  shows "(sm_phase m, sm_phase (transitions reqs m)) \<in> {(p, q). q \<in> set (VALID_TRANSITIONS p)}\<^sup>*
    \<and> linked (sm_phase m) (events_of l (run_effects reqs m)) (sm_phase (transitions reqs m))"
proof
  show "(sm_phase m, sm_phase (transitions reqs m)) \<in> {(p, q). q \<in> set (VALID_TRANSITIONS p)}\<^sup>*"
    unfolding transitions_as_moves by (rule session.moves_follow_table)
  show "linked (sm_phase m) (events_of l (run_effects reqs m)) (sm_phase (transitions reqs m))"
    using assms by (rule run_effects_linked)
qed

theorem session_phase_runs_follow_table_witness:
  "linked Starting
     (events_of (0::nat) (run_effects [(Initializing, ''connected'', 1), (Compacting, ''x'', 2), (Ready, ''ok'', 3)]
       (onTransition (new_session_machine ''s'' Starting) 0))) Ready"
  using session_phase_runs_follow_table
    [of "0::nat" "onTransition (new_session_machine ''s'' Starting) 0"
       "[(Initializing, ''connected'', 1), (Compacting, ''x'', 2), (Ready, ''ok'', 3)]"]
  by (simp add: transition_simps transitions_def Let_def)

text \<open>
  A terminated session can only be revived through a restart: a run of requests that starts in
  \<open>terminated\<close> and ends in any other phase contains a request for \<open>starting\<close>, so no late
  streaming or ready event of a dead process brings the session back.
\<close>

theorem terminated_needs_restart:
  assumes "sm_phase m = Terminated" and "sm_phase (transitions reqs m) \<noteq> Terminated"
  shows "Starting \<in> fst ` set reqs"
proof -
  let ?reqs = "map (\<lambda>(to, trigger, now). ((trigger, now), to)) reqs"
  have "Starting \<in> snd ` set ?reqs"
    using assms by (intro session.leaving_needs_exit [of Terminated Starting m])
      (simp_all add: transitions_as_moves)
  then show ?thesis by (force simp: image_iff)
qed

theorem terminated_needs_restart_witness:
  "Starting \<in> fst ` set [(Ready, ''late'', 1), (Starting, ''relaunch'', 2::int)]"
  by (rule terminated_needs_restart [of "new_session_machine ''s'' Terminated :: nat session_machine"])
    (simp_all add: transition_simps transitions_def Let_def)

text \<open>
  Runtime generations only grow, and a commit of an overtaken generation fails closed: once a
  session has reached some generation, then after any further begins and transitions of any
  sessions, a transition that still carries an older generation is refused and the session's
  snapshot is unchanged.
\<close>

theorem stale_generation_commit_refused:
  assumes "registry_get r sid = Some s" and "g < rs_generation s"
  shows "let r1 = fold registry_step ops r;
             (ok, r2) = registry_transition r1 sid g st reason now
         in \<not> ok \<and> registry_get r2 sid = registry_get r1 sid \<and> g < generation_of r2 sid"
proof -
  define r1 where "r1 = fold registry_step ops r"
  have "rs_generation s \<le> generation_of r1 sid"
    using registry_steps_generation [of r sid ops] assms(1)
    by (simp add: r1_def generation_of_def registry_get_def)
  moreover obtain s1 where s1: "om_get r1 sid = Some s1"
  proof -
    have "om_get r sid \<noteq> None \<Longrightarrow> om_get (fold registry_step ops r) sid \<noteq> None"
    proof (induction ops arbitrary: r)
      case (Cons op ops)
      have "om_get (registry_step op r) sid \<noteq> None"
        using Cons.prems
        by (cases op) (auto simp: registry_begin_def registry_transition_def registry_ensure_def
            Let_def split: option.splits prod.splits)
      then show ?case using Cons.IH by simp
    qed simp
    then show ?thesis using assms(1) that by (auto simp: r1_def registry_get_def)
  qed
  ultimately have "g < rs_generation s1" using assms(2) by (simp add: generation_of_def)
  with s1 show ?thesis
    by (simp add: r1_def [symmetric] registry_transition_def registry_ensure_def registry_get_def
        runtime_transition_def generation_of_def)
qed

theorem stale_generation_commit_refused_witness:
  "let r0 = snd (registry_begin [] ''s'' 2 BeginPreparing ''launch'' 0);
       r1 = fold registry_step [OpTransition ''s'' 2 RtStarting ''spawned'' 1] r0;
       (ok, r2) = registry_transition r1 ''s'' 1 Failed ''old exit'' 5
   in \<not> ok \<and> registry_get r2 ''s'' = registry_get r1 ''s'' \<and> 1 < generation_of r2 ''s''"
proof -
  let ?r0 = "snd (registry_begin [] ''s'' 2 BeginPreparing ''launch'' 0)"
  have get: "registry_get ?r0 ''s'' = Some (the (registry_get ?r0 ''s''))" by code_simp
  have gen: "1 < rs_generation (the (registry_get ?r0 ''s''))" by code_simp
  from stale_generation_commit_refused
    [OF get gen, of "[OpTransition ''s'' 2 RtStarting ''spawned'' 1]" Failed "''old exit''" 5]
  show ?thesis by (simp only: Let_def)
qed

end
