(* ===== verification/Message_Buffer.thy ===== *)
theory Message_Buffer
  imports Prelude
begin

text \<open>
  \<open>BoundedMessageBuffer\<close> (web/server/bounded-message-buffer.ts): a first-in first-out buffer with
  a budget of items and a budget of bytes. The measure of an item is a parameter, as in the
  source, where it defaults to the UTF-8 length of the item's JSON text.

  The locale \<open>bounded_fifo\<close> is what the replay code relies on: an append keeps a suffix of the
  items, the new one last, or refuses the item and changes nothing. The buffer is an
  interpretation of it.
\<close>

section \<open>The contract of a bounded queue\<close>

locale bounded_fifo =
  fixes put :: "'a \<Rightarrow> 'b \<Rightarrow> bool \<times> 'b"
    and contents :: "'b \<Rightarrow> 'a list"
    and fits :: "'b \<Rightarrow> 'a \<Rightarrow> bool"
    and good :: "'b \<Rightarrow> bool"
  assumes put_good: "good b \<Longrightarrow> good (snd (put x b))"
    and put_fits: "good b \<Longrightarrow> fits (snd (put x b)) y = fits b y"
    and put_refused: "good b \<Longrightarrow> \<not> fits b x \<Longrightarrow> put x b = (False, b)"
    and put_accepted: "good b \<Longrightarrow> fits b x \<Longrightarrow> fst (put x b)"
    and put_suffix: "good b \<Longrightarrow> fits b x \<Longrightarrow> suffix (contents (snd (put x b))) (contents b @ [x])"
    and put_newest: "good b \<Longrightarrow> fits b x \<Longrightarrow> contents (snd (put x b)) \<noteq> []"
begin

definition puts :: "'a list \<Rightarrow> 'b \<Rightarrow> 'b" where
  "puts xs b = fold (\<lambda>x b. snd (put x b)) xs b"

lemma puts_good: "good b \<Longrightarrow> good (puts xs b)"
  by (induction xs arbitrary: b) (auto simp: puts_def put_good)

lemma puts_suffix: "good b \<Longrightarrow> suffix (contents (puts xs b)) (contents b @ filter (fits b) xs)"
proof (induction xs arbitrary: b)
  case (Cons x xs)
  let ?b = "snd (put x b)"
  have fits: "fits ?b = fits b"
    using put_fits [OF Cons.prems] by (auto simp: fun_eq_iff)
  have rest: "suffix (contents (puts xs ?b)) (contents ?b @ filter (fits b) xs)"
    using Cons.IH [OF put_good [OF Cons.prems, of x]] by (simp add: fits)
  have "puts (x # xs) b = puts xs ?b" by (simp add: puts_def)
  moreover have "suffix (contents ?b @ filter (fits b) xs) (contents b @ filter (fits b) (x # xs))"
  proof (cases "fits b x")
    case True
    then obtain pre where "contents b @ [x] = pre @ contents ?b"
      using put_suffix [OF Cons.prems] by (auto simp: suffix_def)
    with True show ?thesis
      by (metis append.assoc append_Cons append_Nil filter.simps(2) suffix_def)
  next
    case False
    then show ?thesis using put_refused [OF Cons.prems] by simp
  qed
  ultimately show ?case
    using rest suffix_order.trans by metis
qed (simp add: puts_def)

text \<open>A refused item leaves the whole buffer alone; an accepted one is the newest item.\<close>

lemma put_last: "good b \<Longrightarrow> fits b x \<Longrightarrow> last (contents (snd (put x b))) = x"
  using put_suffix [of b x] put_newest [of b x]
  by (metis last_appendR last_snoc suffix_def)

end

section \<open>The buffer\<close>

record 'a buffer =
  buf_items :: "'a list"
  buf_bytes :: int
  buf_maxItems :: int
  buf_maxBytes :: int

datatype buffer_error = BufferTypeError string

definition positiveInteger :: "json \<Rightarrow> string \<Rightarrow> buffer_error + int" where
  "positiveInteger value label =
     (if \<not> is_safe_integer value \<or> number_of value < 1
      then Inl (BufferTypeError (label @ '' must be a positive integer''))
      else Inr (number_of value))"

definition recalculate :: "('a \<Rightarrow> int) \<Rightarrow> 'a buffer \<Rightarrow> 'a buffer" where
  "recalculate msr b = b\<lparr>buf_bytes := sum_list (map msr (buf_items b))\<rparr>"

text \<open>\<open>trim\<close>: shift from the front until both budgets hold; the items left, their bytes, the dropped ones.\<close>

fun trim_loop :: "('a \<Rightarrow> int) \<Rightarrow> int \<Rightarrow> int \<Rightarrow> 'a list \<Rightarrow> int \<Rightarrow> 'a list \<times> int \<times> 'a list" where
  "trim_loop msr maxItems maxBytes [] bytes = ([], bytes, [])"
| "trim_loop msr maxItems maxBytes (x # xs) bytes =
     (if int (length (x # xs)) > maxItems \<or> bytes > maxBytes
      then (let (items, bytes', dropped) =
              trim_loop msr maxItems maxBytes xs (max 0 (bytes - msr x))
            in (items, bytes', x # dropped))
      else (x # xs, bytes, []))"

definition trim :: "('a \<Rightarrow> int) \<Rightarrow> 'a buffer \<Rightarrow> 'a list \<times> 'a buffer" where
  "trim msr b =
     (let (items, bytes, dropped) =
        trim_loop msr (buf_maxItems b) (buf_maxBytes b) (buf_items b) (buf_bytes b)
      in (dropped, b\<lparr>buf_items := items, buf_bytes := bytes\<rparr>))"

definition new_buffer ::
  "('a \<Rightarrow> int) \<Rightarrow> 'a list \<Rightarrow> json \<Rightarrow> json \<Rightarrow> buffer_error + 'a buffer" where
  "new_buffer msr items maxItems maxBytes =
     bind_result (positiveInteger maxItems ''maxItems'') (\<lambda>mi.
     bind_result (positiveInteger maxBytes ''maxBytes'') (\<lambda>mb.
       Inr (snd (trim msr (recalculate msr
         \<lparr>buf_items = items, buf_bytes = 0, buf_maxItems = mi, buf_maxBytes = mb\<rparr>)))))"

record 'a append_result =
  ar_accepted :: bool
  ar_dropped :: "'a list"
  ar_byteLength :: int

definition buffer_append ::
  "('a \<Rightarrow> int) \<Rightarrow> 'a buffer \<Rightarrow> 'a \<Rightarrow> buffer_error + 'a append_result \<times> 'a buffer" where
  "buffer_append msr b item =
     (let itemBytes = msr item
      in if \<not> safe_int itemBytes \<or> itemBytes < 0
         then Inl (BufferTypeError ''message byte length must be a non-negative safe integer'')
         else if itemBytes > buf_maxBytes b
         then Inr (\<lparr>ar_accepted = False, ar_dropped = [], ar_byteLength = buf_bytes b\<rparr>, b)
         else (let (dropped, b') = trim msr
                 (b\<lparr>buf_items := buf_items b @ [item], buf_bytes := buf_bytes b + itemBytes\<rparr>)
               in Inr (\<lparr>ar_accepted = True, ar_dropped = dropped, ar_byteLength = buf_bytes b'\<rparr>, b')))"

definition buffer_shift :: "('a \<Rightarrow> int) \<Rightarrow> 'a buffer \<Rightarrow> 'a option \<times> 'a buffer" where
  "buffer_shift msr b =
     (case buf_items b of
        [] \<Rightarrow> (None, b)
      | x # xs \<Rightarrow> (Some x, b\<lparr>buf_items := xs, buf_bytes := max 0 (buf_bytes b - msr x)\<rparr>))"

definition removeAt :: "('a \<Rightarrow> int) \<Rightarrow> 'a buffer \<Rightarrow> js_number \<Rightarrow> 'a option \<times> 'a buffer" where
  "removeAt msr b index =
     (case index of
        JInt i \<Rightarrow>
          (if i < 0 \<or> i \<ge> int (length (buf_items b)) then (None, b)
           else (let x = buf_items b ! nat i
                 in (Some x, b\<lparr>buf_items := take (nat i) (buf_items b) @ drop (Suc (nat i)) (buf_items b),
                                buf_bytes := max 0 (buf_bytes b - msr x)\<rparr>)))
      | _ \<Rightarrow> (None, b))"

definition takeAll :: "'a buffer \<Rightarrow> 'a list \<times> 'a buffer" where
  "takeAll b = (buf_items b, b\<lparr>buf_items := [], buf_bytes := 0\<rparr>)"

definition buffer_replace :: "('a \<Rightarrow> int) \<Rightarrow> 'a buffer \<Rightarrow> 'a list \<Rightarrow> 'a list \<times> 'a buffer" where
  "buffer_replace msr b values = trim msr (recalculate msr (b\<lparr>buf_items := values\<rparr>))"

section \<open>Invariant and functional behaviour\<close>

definition total_bytes :: "('a \<Rightarrow> int) \<Rightarrow> 'a list \<Rightarrow> int" where
  "total_bytes msr xs = sum_list (map msr xs)"

definition within :: "('a \<Rightarrow> int) \<Rightarrow> int \<Rightarrow> int \<Rightarrow> 'a list \<Rightarrow> bool" where
  "within msr maxItems maxBytes xs \<longleftrightarrow>
     int (length xs) \<le> maxItems \<and> total_bytes msr xs \<le> maxBytes"

definition buffer_inv :: "('a \<Rightarrow> int) \<Rightarrow> 'a buffer \<Rightarrow> bool" where
  "buffer_inv msr b \<longleftrightarrow>
     1 \<le> buf_maxItems b \<and> 1 \<le> buf_maxBytes b \<and>
     buf_bytes b = total_bytes msr (buf_items b) \<and>
     within msr (buf_maxItems b) (buf_maxBytes b) (buf_items b)"

text \<open>The specification of \<open>trim\<close>: the longest suffix within the budgets.\<close>

fun keep_longest :: "('a \<Rightarrow> int) \<Rightarrow> int \<Rightarrow> int \<Rightarrow> 'a list \<Rightarrow> 'a list" where
  "keep_longest msr mi mb [] = []"
| "keep_longest msr mi mb (x # xs) =
     (if within msr mi mb (x # xs) then x # xs else keep_longest msr mi mb xs)"

lemma total_simps [simp]:
  "total_bytes msr [] = 0"
  "total_bytes msr (x # xs) = msr x + total_bytes msr xs"
  "total_bytes msr (xs @ ys) = total_bytes msr xs + total_bytes msr ys"
  by (simp_all add: total_bytes_def)

lemma total_nonneg: "\<forall>x \<in> set xs. 0 \<le> msr x \<Longrightarrow> 0 \<le> total_bytes msr xs"
  by (induction xs) auto

lemma trim_loop_spec:
  assumes "\<forall>x \<in> set xs. 0 \<le> msr x"
  shows "\<exists>dropped. trim_loop msr mi mb xs (total_bytes msr xs) =
      (keep_longest msr mi mb xs, total_bytes msr (keep_longest msr mi mb xs), dropped) \<and>
      dropped @ keep_longest msr mi mb xs = xs"
  using assms
proof (induction xs)
  case (Cons x xs)
  have "0 \<le> total_bytes msr xs" using Cons.prems by (intro total_nonneg) simp
  then have "max 0 (total_bytes msr (x # xs) - msr x) = total_bytes msr xs" by simp
  with Cons show ?case by (auto simp: within_def not_le split: prod.splits)
qed simp

lemma keep_longest_suffix: "suffix (keep_longest msr mi mb xs) xs"
  by (induction xs) (auto simp: suffix_Cons)

lemma keep_longest_within: "0 \<le> mi \<Longrightarrow> 0 \<le> mb \<Longrightarrow> within msr mi mb (keep_longest msr mi mb xs)"
  by (induction xs) (auto simp: within_def)

lemma keep_longest_maximal:
  "suffix ys xs \<Longrightarrow> within msr mi mb ys \<Longrightarrow> suffix ys (keep_longest msr mi mb xs)"
  by (induction xs) (auto simp: suffix_Cons)

lemma keep_longest_id: "within msr mi mb xs \<Longrightarrow> keep_longest msr mi mb xs = xs"
  by (cases xs) auto

lemma trim_eq:
  assumes "\<forall>x \<in> set (buf_items b). 0 \<le> msr x" and "buf_bytes b = total_bytes msr (buf_items b)"
  shows "snd (trim msr b) =
      (let kept = keep_longest msr (buf_maxItems b) (buf_maxBytes b) (buf_items b)
       in b\<lparr>buf_items := kept, buf_bytes := total_bytes msr kept\<rparr>)"
    and "fst (trim msr b) @ buf_items (snd (trim msr b)) = buf_items b"
  using trim_loop_spec [OF assms(1), of "buf_maxItems b" "buf_maxBytes b"] assms(2)
  by (auto simp: trim_def Let_def)

lemma trim_inv [inv_intros]:
  assumes "\<forall>x \<in> set (buf_items b). 0 \<le> msr x" and "buf_bytes b = total_bytes msr (buf_items b)"
    and "1 \<le> buf_maxItems b" and "1 \<le> buf_maxBytes b"
  shows "buffer_inv msr (snd (trim msr b))"
  using assms trim_eq(1) [OF assms(1,2)]
  by (simp add: buffer_inv_def Let_def keep_longest_within)

lemma append_items:
  assumes inv: "buffer_inv msr b" and nonneg: "\<forall>x. 0 \<le> msr x \<and> safe_int (msr x)"
    and fits: "msr item \<le> buf_maxBytes b"
  obtains r b' where "buffer_append msr b item = Inr (r, b')" and "ar_accepted r"
    and "buffer_inv msr b'"
    and "buf_items b' = keep_longest msr (buf_maxItems b) (buf_maxBytes b) (buf_items b @ [item])"
    and "ar_dropped r @ buf_items b' = buf_items b @ [item]"
    and "buf_maxItems b' = buf_maxItems b" and "buf_maxBytes b' = buf_maxBytes b"
proof -
  define c where "c = b\<lparr>buf_items := buf_items b @ [item], buf_bytes := buf_bytes b + msr item\<rparr>"
  have 1: "\<forall>x \<in> set (buf_items c). 0 \<le> msr x" using nonneg by simp
  have 2: "buf_bytes c = total_bytes msr (buf_items c)" using inv by (simp add: c_def buffer_inv_def)
  obtain d b' where t: "trim msr c = (d, b')" by (cases "trim msr c")
  have "0 \<le> msr item" and "safe_int (msr item)" using nonneg by auto
  then have "buffer_append msr b item =
      Inr (\<lparr>ar_accepted = True, ar_dropped = d, ar_byteLength = buf_bytes b'\<rparr>, b')"
    using fits t by (simp add: buffer_append_def Let_def c_def)
  moreover have "buffer_inv msr b'"
    using trim_inv [OF 1 2] inv t by (simp add: c_def buffer_inv_def)
  moreover have "b' = c\<lparr>buf_items := keep_longest msr (buf_maxItems b) (buf_maxBytes b) (buf_items c),
      buf_bytes := total_bytes msr (keep_longest msr (buf_maxItems b) (buf_maxBytes b) (buf_items c))\<rparr>"
    using trim_eq(1) [OF 1 2] t by (simp add: c_def Let_def)
  moreover have "d @ buf_items b' = buf_items c"
    using trim_eq(2) [OF 1 2] t by simp
  ultimately show thesis
    by (intro that [of "\<lparr>ar_accepted = True, ar_dropped = d, ar_byteLength = buf_bytes b'\<rparr>" b'])
      (simp_all add: c_def)
qed

lemma keep_longest_snoc_nonempty:
  assumes "1 \<le> mi" and "msr x \<le> mb"
  shows "keep_longest msr mi mb (xs @ [x]) \<noteq> []"
proof -
  have "within msr mi mb [x]" using assms by (simp add: within_def)
  then have "suffix [x] (keep_longest msr mi mb (xs @ [x]))"
    by (intro keep_longest_maximal) (auto simp: suffix_def)
  then show ?thesis by auto
qed

lemma buffer_shift_inv [inv_intros]:
  "buffer_inv msr b \<Longrightarrow> \<forall>x. 0 \<le> msr x \<Longrightarrow> buffer_inv msr (snd (buffer_shift msr b))"
  using total_nonneg [of "tl (buf_items b)" msr]
  by (auto simp: buffer_inv_def buffer_shift_def within_def max_def split: list.splits)
    (smt (verit))

lemma total_remove:
  "i < length xs \<Longrightarrow> total_bytes msr (take i xs @ drop (Suc i) xs) = total_bytes msr xs - msr (xs ! i)"
proof -
  assume "i < length xs"
  then have "xs = take i xs @ xs ! i # drop (Suc i) xs" by (rule id_take_nth_drop)
  then have "total_bytes msr xs = total_bytes msr (take i xs @ xs ! i # drop (Suc i) xs)" by simp
  then show ?thesis by simp
qed

lemma removeAt_inv [inv_intros]:
  assumes inv: "buffer_inv msr b" and nonneg: "\<forall>x. 0 \<le> msr x"
  shows "buffer_inv msr (snd (removeAt msr b index))"
proof (cases "\<exists>i. index = JInt i \<and> 0 \<le> i \<and> i < int (length (buf_items b))")
  case True
  then obtain i where i: "index = JInt i" "0 \<le> i" "i < int (length (buf_items b))" by blast
  let ?xs = "take (nat i) (buf_items b) @ drop (Suc (nat i)) (buf_items b)"
  have "nat i < length (buf_items b)" using i by linarith
  then have tot: "total_bytes msr ?xs = buf_bytes b - msr (buf_items b ! nat i)"
    using inv total_remove [of "nat i" "buf_items b" msr] by (simp add: buffer_inv_def)
  have "0 \<le> total_bytes msr ?xs" using nonneg by (intro total_nonneg) auto
  moreover have "total_bytes msr ?xs \<le> buf_bytes b" using tot nonneg by simp
  moreover have "length ?xs \<le> length (buf_items b)" by simp
  ultimately show ?thesis
    using inv i tot by (simp add: removeAt_def Let_def buffer_inv_def within_def max_def)
next
  case False
  then have "snd (removeAt msr b index) = b"
    by (cases index) (auto simp: removeAt_def not_less not_le)
  with inv show ?thesis by simp
qed

lemma takeAll_inv [inv_intros]: "buffer_inv msr b \<Longrightarrow> buffer_inv msr (snd (takeAll b))"
  by (simp add: takeAll_def buffer_inv_def within_def)

lemma buffer_replace_inv [inv_intros]:
  "buffer_inv msr b \<Longrightarrow> \<forall>x. 0 \<le> msr x \<Longrightarrow> buffer_inv msr (snd (buffer_replace msr b values))"
  unfolding buffer_replace_def
  by (rule trim_inv) (simp_all add: recalculate_def total_bytes_def buffer_inv_def)

lemma new_buffer_inv [inv_intros]:
  assumes "new_buffer msr items mi mb = Inr b" and "\<forall>x. 0 \<le> msr x"
  shows "buffer_inv msr b \<and> buf_maxItems b = number_of mi \<and> buf_maxBytes b = number_of mb \<and>
    suffix (buf_items b) items"
proof -
  let ?c = "recalculate msr \<lparr>buf_items = items, buf_bytes = 0, buf_maxItems = number_of mi,
      buf_maxBytes = number_of mb\<rparr>"
  from assms(1) have b: "b = snd (trim msr ?c)" and pos: "1 \<le> number_of mi" "1 \<le> number_of mb"
    by (auto simp: new_buffer_def bind_result_Inr positiveInteger_def split: if_splits)
  have 1: "\<forall>x \<in> set (buf_items ?c). 0 \<le> msr x" using assms(2) by simp
  have 2: "buf_bytes ?c = total_bytes msr (buf_items ?c)" by (simp add: recalculate_def total_bytes_def)
  show ?thesis
    using trim_inv [OF 1 2] trim_eq [OF 1 2] pos b
    by (simp add: recalculate_def Let_def keep_longest_suffix)
qed

section \<open>The buffer as a bounded queue\<close>

definition buffer_put :: "('a \<Rightarrow> int) \<Rightarrow> 'a \<Rightarrow> 'a buffer \<Rightarrow> bool \<times> 'a buffer" where
  "buffer_put msr x b =
     (case buffer_append msr b x of Inl e \<Rightarrow> (False, b) | Inr (r, b') \<Rightarrow> (ar_accepted r, b'))"

definition buffer_fits :: "('a \<Rightarrow> int) \<Rightarrow> 'a buffer \<Rightarrow> 'a \<Rightarrow> bool" where
  "buffer_fits msr b x \<longleftrightarrow> 0 \<le> msr x \<and> safe_int (msr x) \<and> msr x \<le> buf_maxBytes b"

definition buffer_good :: "('a \<Rightarrow> int) \<Rightarrow> 'a buffer \<Rightarrow> bool" where
  "buffer_good msr b \<longleftrightarrow> (\<forall>x. 0 \<le> msr x \<and> safe_int (msr x)) \<and> buffer_inv msr b"

lemma buffer_put_fits:
  assumes "buffer_good msr b" and "buffer_fits msr b x"
  obtains b' where "buffer_put msr x b = (True, b')" and "buffer_good msr b'"
    and "buf_items b' = keep_longest msr (buf_maxItems b) (buf_maxBytes b) (buf_items b @ [x])"
    and "buf_maxItems b' = buf_maxItems b" and "buf_maxBytes b' = buf_maxBytes b"
proof -
  have inv: "buffer_inv msr b" and nn: "\<forall>x. 0 \<le> msr x \<and> safe_int (msr x)"
    and le: "msr x \<le> buf_maxBytes b"
    using assms by (auto simp: buffer_good_def buffer_fits_def)
  obtain r b' where r: "buffer_append msr b x = Inr (r, b')" "ar_accepted r" "buffer_inv msr b'"
    "buf_items b' = keep_longest msr (buf_maxItems b) (buf_maxBytes b) (buf_items b @ [x])"
    "buf_maxItems b' = buf_maxItems b" "buf_maxBytes b' = buf_maxBytes b"
    by (rule append_items [OF inv nn le])
  show thesis
    by (rule that [of b']) (use r nn in \<open>auto simp: buffer_put_def buffer_good_def\<close>)
qed

lemma buffer_put_unfit: "\<not> buffer_fits msr b x \<Longrightarrow> buffer_put msr x b = (False, b)"
  by (auto simp: buffer_fits_def buffer_put_def buffer_append_def Let_def)

interpretation fifo: bounded_fifo "buffer_put msr" buf_items "buffer_fits msr" "buffer_good msr"
  for msr :: "'a \<Rightarrow> int"
proof unfold_locales
  fix b :: "'a buffer" and x y
  assume good: "buffer_good msr b"
  show "buffer_good msr (snd (buffer_put msr x b))"
    using good by (cases "buffer_fits msr b x")
      (auto simp: buffer_put_unfit elim!: buffer_put_fits [OF good])
  show "buffer_fits msr (snd (buffer_put msr x b)) y = buffer_fits msr b y"
  proof (cases "buffer_fits msr b x")
    case True
    then obtain b' where "buffer_put msr x b = (True, b')" "buf_maxBytes b' = buf_maxBytes b"
      by (rule buffer_put_fits [OF good])
    then show ?thesis by (simp add: buffer_fits_def)
  qed (simp add: buffer_put_unfit)
  show "\<not> buffer_fits msr b x \<Longrightarrow> buffer_put msr x b = (False, b)"
    by (rule buffer_put_unfit)
  assume fits: "buffer_fits msr b x"
  then obtain b' where b': "buffer_put msr x b = (True, b')"
    "buf_items b' = keep_longest msr (buf_maxItems b) (buf_maxBytes b) (buf_items b @ [x])"
    by (rule buffer_put_fits [OF good])
  show "fst (buffer_put msr x b)" using b' by simp
  show "suffix (buf_items (snd (buffer_put msr x b))) (buf_items b @ [x])"
    using b' keep_longest_suffix [of msr "buf_maxItems b" "buf_maxBytes b" "buf_items b @ [x]"] by simp
  show "buf_items (snd (buffer_put msr x b)) \<noteq> []"
    using b' keep_longest_snoc_nonempty [of "buf_maxItems b" msr x "buf_maxBytes b"] good fits
    by (simp add: buffer_good_def buffer_inv_def buffer_fits_def)
qed

section \<open>Properties\<close>

text \<open>
  The buffer never exceeds either budget and its byte counter never drifts: an append that
  accepts an item keeps exactly the longest suffix of the old items followed by the new one that
  fits both budgets, reports the items in front of it as dropped, in order, and the counter is
  the sum of the measures of what is kept. An item larger than the byte budget is refused and
  nothing changes.
\<close>

theorem append_keeps_longest_suffix:
  assumes "buffer_inv msr b" and "\<forall>x. 0 \<le> msr x \<and> safe_int (msr x)"
  shows "\<exists>r b'. buffer_append msr b item = Inr (r, b') \<and> buffer_inv msr b' \<and>
    ar_accepted r = (msr item \<le> buf_maxBytes b) \<and>
    ar_byteLength r = total_bytes msr (buf_items b') \<and>
    (if ar_accepted r
     then ar_dropped r @ buf_items b' = buf_items b @ [item] \<and>
       last (buf_items b') = item \<and> buf_items b' \<noteq> [] \<and>
       (\<forall>ys. suffix ys (buf_items b @ [item]) \<longrightarrow>
          within msr (buf_maxItems b) (buf_maxBytes b) ys \<longrightarrow> suffix ys (buf_items b'))
     else b' = b \<and> ar_dropped r = [])"
proof (cases "msr item \<le> buf_maxBytes b")
  case True
  obtain r b' where r: "buffer_append msr b item = Inr (r, b')" "ar_accepted r"
    "buffer_inv msr b'" "ar_dropped r @ buf_items b' = buf_items b @ [item]"
    and items: "buf_items b' = keep_longest msr (buf_maxItems b) (buf_maxBytes b) (buf_items b @ [item])"
    by (rule append_items [OF assms True])
  have "buf_items b' \<noteq> []"
    unfolding items using True assms(1) by (intro keep_longest_snoc_nonempty) (simp_all add: buffer_inv_def)
  moreover from this have "last (buf_items b') = item"
    using r(4) by (metis last_appendR last_snoc)
  moreover have "ar_byteLength r = total_bytes msr (buf_items b')"
    using r(1,3) True assms
    by (auto simp: buffer_append_def buffer_inv_def Let_def split: prod.splits if_splits)
  ultimately show ?thesis
    using r True by (auto simp: items keep_longest_maximal)
next
  case False
  then show ?thesis
    using assms by (simp add: buffer_append_def buffer_inv_def Let_def)
qed

theorem append_keeps_longest_suffix_witness:
  "\<exists>r b'. buffer_append (\<lambda>x. if x then 4 else 3)
      \<lparr>buf_items = [False, True], buf_bytes = 7, buf_maxItems = 3, buf_maxBytes = 8\<rparr> True = Inr (r, b') \<and>
    ar_accepted r \<and> ar_dropped r @ buf_items b' = [False, True, True]"
proof -
  let ?b = "\<lparr>buf_items = [False, True], buf_bytes = 7, buf_maxItems = 3, buf_maxBytes = 8\<rparr>"
  have inv: "buffer_inv (\<lambda>x. if x then 4 else 3) ?b"
    by (simp add: buffer_inv_def within_def)
  have nonneg: "\<forall>x. 0 \<le> (if x then 4 else 3 :: int) \<and> safe_int (if x then 4 else 3)"
    by (simp add: safe_int_def max_safe_integer_def)
  show ?thesis
    using append_keeps_longest_suffix [OF inv nonneg, of True] by auto
qed

end
