(* ===== verification/Browser_Replay.thy ===== *)
theory Browser_Replay
  imports Message_Buffer
begin

text \<open>
  Sequencing, replay and de-duplication of browser events: session-message-buffers.ts,
  ws-bridge-replay.ts, ws-bridge-browser.ts and ws-bridge-publish.ts under web/server.

  A session record holds the delivery state of the \<open>Session\<close> interface. A socket is a number with
  the data the bridge keeps on it. Browser messages are JSON objects. Parameters: the measure of a
  buffered event (\<open>utf8JsonByteLength\<close> over JSON.stringify), whether \<open>socket.send\<close> succeeds, the
  history loader, and what other turns of the event loop do to the session while a handler awaits.
\<close>

section \<open>Data\<close>

record buffered_event =
  be_seq :: int
  be_message :: json

record socket_data =
  sk_protocolVersion :: int
  sk_contextEpoch :: int
  sk_contextId :: string
  sk_subscribed :: bool
  sk_lastAckSeq :: "int option"

text \<open>The cached buffer of a session: the identity of the array it owns, its bytes and limits.\<close>

record replay_cache =
  rc_array :: nat
  rc_bytes :: int
  rc_maxItems :: int
  rc_maxBytes :: int

record session =
  ses_id :: string
  ses_sockets :: "(nat, socket_data) omap"
  ses_nextEventSeq :: int
  ses_eventArray :: nat
  ses_eventBuffer :: "buffered_event list"
  ses_buffers :: "replay_cache option"
  ses_lastAckSeq :: int
  ses_processedIds :: "string list"
  ses_processedIdSet :: "string set"
  ses_runState :: string
  ses_generation :: int
  ses_usage :: json

definition EVENT_BUFFER_LIMIT :: int where
  "EVENT_BUFFER_LIMIT = 600"

definition EVENT_BUFFER_MAX_BYTES :: int where
  "EVENT_BUFFER_MAX_BYTES = 8 * 1024 * 1024"

definition utf8JsonByteLength :: "(json \<Rightarrow> string option) \<Rightarrow> json \<Rightarrow> int" where
  "utf8JsonByteLength stringify value =
     int (utf8_length (case stringify value of None \<Rightarrow> ''null'' | Some s \<Rightarrow> s))"

definition event_json :: "buffered_event \<Rightarrow> json" where
  "event_json e = JObject [(''seq'', JNumber (JInt (be_seq e))), (''message'', be_message e)]"

section \<open>The replay buffer of a session\<close>

definition replayEventBuffer ::
  "(buffered_event \<Rightarrow> int) \<Rightarrow> session \<Rightarrow> int \<Rightarrow> int \<Rightarrow> buffer_error + buffered_event buffer" where
  "replayEventBuffer msr s maxItems maxBytes =
     (case ses_buffers s of
        Some c \<Rightarrow>
          (if rc_array c \<noteq> ses_eventArray s \<or> rc_maxItems c \<noteq> maxItems \<or> rc_maxBytes c \<noteq> maxBytes
           then new_buffer msr (ses_eventBuffer s) (JNumber (JInt maxItems)) (JNumber (JInt maxBytes))
           else Inr \<lparr>buf_items = ses_eventBuffer s, buf_bytes = rc_bytes c,
                     buf_maxItems = rc_maxItems c, buf_maxBytes = rc_maxBytes c\<rparr>)
      | None \<Rightarrow>
          new_buffer msr (ses_eventBuffer s) (JNumber (JInt maxItems)) (JNumber (JInt maxBytes)))"

text \<open>The buffer shares its array with the session, so a mutation shows in both.\<close>

definition store_buffer :: "session \<Rightarrow> buffered_event buffer \<Rightarrow> session" where
  "store_buffer s b =
     s\<lparr>ses_eventBuffer := buf_items b,
       ses_buffers := Some \<lparr>rc_array = ses_eventArray s, rc_bytes = buf_bytes b,
                            rc_maxItems = buf_maxItems b, rc_maxBytes = buf_maxBytes b\<rparr>\<rparr>"

definition resetSessionMessageBuffers :: "session \<Rightarrow> session" where
  "resetSessionMessageBuffers s = s\<lparr>ses_buffers := None\<rparr>"

section \<open>Sequencing and de-duplication\<close>

definition isDuplicateClientMessage :: "session \<Rightarrow> string \<Rightarrow> bool" where
  "isDuplicateClientMessage s clientMsgId \<longleftrightarrow> clientMsgId \<in> ses_processedIdSet s"

definition rememberClientMessage :: "session \<Rightarrow> string \<Rightarrow> nat \<Rightarrow> session" where
  "rememberClientMessage s clientMsgId limit =
     (let ids = ses_processedIds s @ [clientMsgId];
          idSet = insert clientMsgId (ses_processedIdSet s)
      in if length ids > limit
         then (let overflow = length ids - limit; removed = take overflow ids
               in s\<lparr>ses_processedIds := drop overflow ids, ses_processedIdSet := idSet - set removed\<rparr>)
         else s\<lparr>ses_processedIds := ids, ses_processedIdSet := idSet\<rparr>)"

definition shouldBufferForReplay :: "json \<Rightarrow> bool" where
  "shouldBufferForReplay message \<longleftrightarrow>
     member message ''type'' \<noteq> JString ''session_init'' \<and>
     member message ''type'' \<noteq> JString ''history_snapshot'' \<and>
     member message ''type'' \<noteq> JString ''event_replay''"

definition isHistoryBackedEvent :: "json \<Rightarrow> bool" where
  "isHistoryBackedEvent message \<longleftrightarrow> member message ''type'' = JString ''agent_message''"

definition with_seq :: "json \<Rightarrow> int \<Rightarrow> json" where
  "with_seq message seq = JObject (om_set (obj_members message) ''seq'' (JNumber (JInt seq)))"

text \<open>\<open>sequenceEvent\<close>: the sequenced message, whether the buffer refused it, and the session.\<close>

definition sequenceEvent ::
  "(buffered_event \<Rightarrow> int) \<Rightarrow> session \<Rightarrow> json \<Rightarrow> int \<Rightarrow> int
     \<Rightarrow> buffer_error + json \<times> bool \<times> session" where
  "sequenceEvent msr s message limit maxBytes =
     (let seq = ses_nextEventSeq s;
          s1 = s\<lparr>ses_nextEventSeq := seq + 1\<rparr>;
          sequenced = with_seq message seq
      in if shouldBufferForReplay message
         then bind_result (replayEventBuffer msr s1 limit maxBytes) (\<lambda>b.
              bind_result (buffer_append msr b \<lparr>be_seq = seq, be_message = message\<rparr>) (\<lambda>(r, b').
                Inr (sequenced, \<not> ar_accepted r, store_buffer s1 b')))
         else Inr (sequenced, False, s1))"

section \<open>Publishing\<close>

definition hex_lower :: "char \<Rightarrow> bool" where
  "hex_lower c \<longleftrightarrow> is_digit c \<or> (97 \<le> (of_char c :: nat) \<and> (of_char c :: nat) \<le> 102)"

definition isRuntimeContextId :: "json \<Rightarrow> bool" where
  "isRuntimeContextId value \<longleftrightarrow>
     is_js_string value \<and> length (str_of value) = 32 \<and> (\<forall>c \<in> set (str_of value). hex_lower c)"

text \<open>\<open>serializeForBrowser\<close>: the envelope, or an exception when the socket has no context.\<close>

definition serializeForBrowser :: "socket_data \<Rightarrow> json \<Rightarrow> string \<Rightarrow> json option" where
  "serializeForBrowser d message eventId =
     (if sk_protocolVersion d \<noteq> 1 \<or> \<not> safe_int (sk_contextEpoch d) \<or> sk_contextEpoch d < 0 \<or>
         \<not> isRuntimeContextId (JString (sk_contextId d))
      then None
      else Some (JObject
        [(''protocolVersion'', JNumber (JInt 1)), (''contextEpoch'', JNumber (JInt (sk_contextEpoch d))),
         (''contextId'', JString (sk_contextId d)), (''eventId'', JString eventId),
         (''kind'', member message ''type''), (''payload'', message)]))"

definition safeSend :: "(nat \<Rightarrow> json \<Rightarrow> bool) \<Rightarrow> nat \<Rightarrow> socket_data \<Rightarrow> json \<Rightarrow> string \<Rightarrow> bool" where
  "safeSend socket_send socket d message eventId =
     (case serializeForBrowser d message eventId of
        None \<Rightarrow> False
      | Some envelope \<Rightarrow> socket_send socket envelope)"

text \<open>Every socket gets the sequenced message; a socket whose send fails leaves the session.\<close>

definition broadcastToBrowsers ::
  "(buffered_event \<Rightarrow> int) \<Rightarrow> (nat \<Rightarrow> json \<Rightarrow> bool) \<Rightarrow> session \<Rightarrow> json
     \<Rightarrow> int option \<Rightarrow> int option \<Rightarrow> buffer_error + json \<times> session" where
  "broadcastToBrowsers msr socket_send s message limit maxBytes =
     bind_result
       (sequenceEvent msr s message
          (case limit of None \<Rightarrow> EVENT_BUFFER_LIMIT | Some l \<Rightarrow> l)
          (case maxBytes of None \<Rightarrow> EVENT_BUFFER_MAX_BYTES | Some b \<Rightarrow> b))
       (\<lambda>(sequenced, refused, s1).
          Inr (sequenced,
               s1\<lparr>ses_sockets :=
                    filter (\<lambda>(k, d). safeSend socket_send k d sequenced
                              (''server-'' @ ses_id s1 @ ''-'' @ show_int (ses_nextEventSeq s)))
                      (ses_sockets s1)\<rparr>))"

section \<open>Subscription and acknowledgement\<close>

datatype history_reason = HistInitial | HistGap | HistRecovery

datatype outgoing =
    HistorySnapshot history_reason json
  | HistoryUnavailable
  | EventReplay "buffered_event list"
  | RunState string int json

definition sendHistory :: "(history_reason \<Rightarrow> json option) \<Rightarrow> history_reason \<Rightarrow> outgoing" where
  "sendHistory loadHistory reason =
     (case loadHistory reason of Some h \<Rightarrow> HistorySnapshot reason h | None \<Rightarrow> HistoryUnavailable)"

definition run_state_message :: "session \<Rightarrow> outgoing" where
  "run_state_message s = RunState (ses_runState s) (ses_generation s) (ses_usage s)"

definition missed_events ::
  "session \<Rightarrow> int \<Rightarrow> bool \<Rightarrow> (json \<Rightarrow> bool) \<Rightarrow> buffered_event list" where
  "missed_events s replayFrom historySent historyBacked =
     filter (\<lambda>e. be_seq e > replayFrom \<and> (\<not> historySent \<or> \<not> historyBacked (be_message e)))
       (ses_eventBuffer s)"

text \<open>The cursor the browser sent, normalised; a cursor from the future starts over.\<close>

definition cursor_ahead :: "session \<Rightarrow> int \<Rightarrow> bool" where
  "cursor_ahead s lastSeq \<longleftrightarrow> max 0 lastSeq > max 0 (ses_nextEventSeq s - 1)"

definition replay_from :: "session \<Rightarrow> int \<Rightarrow> int" where
  "replay_from s lastSeq = (if cursor_ahead s lastSeq then 0 else max 0 lastSeq)"

text \<open>
  \<open>handleSessionSubscribe\<close>. \<open>turn1\<close> and \<open>turn2\<close> are what the event loop does to the session while
  the handler awaits the first and the gap history; identity when nothing interferes.
\<close>

definition handleSessionSubscribe ::
  "(history_reason \<Rightarrow> json option) \<Rightarrow> (json \<Rightarrow> bool) \<Rightarrow> (session \<Rightarrow> session) \<Rightarrow> (session \<Rightarrow> session)
     \<Rightarrow> session \<Rightarrow> nat \<Rightarrow> int \<Rightarrow> outgoing list \<times> session" where
  "handleSessionSubscribe loadHistory historyBacked turn1 turn2 s socket lastSeq =
     (case om_get (ses_sockets s) socket of
        None \<Rightarrow> ([], s)
      | Some d \<Rightarrow>
          (let cursorAhead = cursor_ahead s lastSeq;
               replayFrom = replay_from s lastSeq;
               s0 = s\<lparr>ses_sockets := om_set (ses_sockets s) socket
                        (d\<lparr>sk_subscribed := True, sk_lastAckSeq := Some replayFrom\<rparr>)\<rparr>;
               sentHistory = (replayFrom = 0);
               out1 = (if sentHistory
                       then [sendHistory loadHistory (if cursorAhead then HistRecovery else HistInitial)]
                       else []);
               s1 = (if sentHistory then turn1 s0 else s0)
           in case ses_eventBuffer s1 of
                [] \<Rightarrow>
                  (if replayFrom > 0
                   then (out1 @ [sendHistory loadHistory HistRecovery, run_state_message (turn2 s1)], turn2 s1)
                   else (out1 @ [run_state_message s1], s1))
              | first # _ \<Rightarrow>
                  (let earliest = be_seq first;
                       hasGap = (replayFrom > 0 \<and> replayFrom < earliest - 1);
                       out2 = (if hasGap then [sendHistory loadHistory HistGap] else []);
                       s2 = (if hasGap then turn2 s1 else s1);
                       missed = missed_events s2 replayFrom (hasGap \<or> sentHistory) historyBacked
                   in (out1 @ out2 @ (if missed \<noteq> [] then [EventReplay missed] else [])
                         @ [run_state_message s2], s2))))"

definition handleSessionAck :: "session \<Rightarrow> nat \<Rightarrow> int \<Rightarrow> session" where
  "handleSessionAck s socket lastSeq =
     (let normalized = max 0 lastSeq;
          s1 = (case om_get (ses_sockets s) socket of
                  None \<Rightarrow> s
                | Some d \<Rightarrow>
                    s\<lparr>ses_sockets := om_set (ses_sockets s) socket
                        (d\<lparr>sk_lastAckSeq :=
                             Some (max (case sk_lastAckSeq d of None \<Rightarrow> 0 | Some a \<Rightarrow> a) normalized)\<rparr>)\<rparr>)
      in s1\<lparr>ses_lastAckSeq := max (ses_lastAckSeq s1) normalized\<rparr>)"


section \<open>What the buffer holds of the emitted events\<close>

text \<open>
  \<open>emit\<close> is the session after one broadcast, as far as sequencing goes; \<open>emit_all\<close> also keeps the
  log of all events ever sequenced, which the program does not have.
\<close>

definition emit :: "(buffered_event \<Rightarrow> int) \<Rightarrow> int \<Rightarrow> int \<Rightarrow> json \<Rightarrow> session \<Rightarrow> session" where
  "emit msr mi mb message s =
     (case sequenceEvent msr s message mi mb of Inl e \<Rightarrow> s | Inr (m, refused, s') \<Rightarrow> s')"

fun emit_all ::
  "(buffered_event \<Rightarrow> int) \<Rightarrow> int \<Rightarrow> int \<Rightarrow> json list \<Rightarrow> session \<times> buffered_event list
     \<Rightarrow> session \<times> buffered_event list" where
  "emit_all msr mi mb [] (s, log) = (s, log)"
| "emit_all msr mi mb (m # ms) (s, log) =
     emit_all msr mi mb ms
       (emit msr mi mb m s, log @ [\<lparr>be_seq = ses_nextEventSeq s, be_message = m\<rparr>])"

definition bufferable :: "(buffered_event \<Rightarrow> int) \<Rightarrow> int \<Rightarrow> buffered_event \<Rightarrow> bool" where
  "bufferable msr mb e \<longleftrightarrow> shouldBufferForReplay (be_message e) \<and> msr e \<le> mb"

definition replay_inv ::
  "(buffered_event \<Rightarrow> int) \<Rightarrow> int \<Rightarrow> int \<Rightarrow> session \<Rightarrow> buffered_event list \<Rightarrow> bool" where
  "replay_inv msr mi mb s log \<longleftrightarrow>
     sorted_wrt (<) (map be_seq log) \<and>
     (\<forall>e \<in> set log. 0 < be_seq e \<and> be_seq e < ses_nextEventSeq s) \<and>
     0 < ses_nextEventSeq s \<and>
     suffix (ses_eventBuffer s) (filter (bufferable msr mb) log) \<and>
     (filter (bufferable msr mb) log \<noteq> [] \<longrightarrow> ses_eventBuffer s \<noteq> []) \<and>
     (\<exists>b. replayEventBuffer msr s mi mb = Inr b \<and> buffer_good msr b \<and> buf_items b = ses_eventBuffer s \<and>
        buf_maxItems b = mi \<and> buf_maxBytes b = mb)"

lemma replayEventBuffer_seq [simp]:
  "replayEventBuffer msr (s\<lparr>ses_nextEventSeq := n\<rparr>) mi mb = replayEventBuffer msr s mi mb"
  by (cases "ses_buffers s") (simp_all add: replayEventBuffer_def)

lemma replayEventBuffer_store:
  "replayEventBuffer msr (store_buffer s b) (buf_maxItems b) (buf_maxBytes b) = Inr b"
  by (simp add: replayEventBuffer_def store_buffer_def)

lemma store_buffer_simps [simp]:
  "ses_nextEventSeq (store_buffer s b) = ses_nextEventSeq s"
  "ses_eventBuffer (store_buffer s b) = buf_items b"
  "ses_sockets (store_buffer s b) = ses_sockets s"
  by (simp_all add: store_buffer_def)

lemma emit_unbuffered:
  "\<not> shouldBufferForReplay m \<Longrightarrow> emit msr mi mb m s = s\<lparr>ses_nextEventSeq := ses_nextEventSeq s + 1\<rparr>"
  by (simp add: emit_def sequenceEvent_def Let_def)

lemma emit_buffered:
  assumes "shouldBufferForReplay m" and "replayEventBuffer msr s mi mb = Inr b" and "buffer_good msr b"
  shows "emit msr mi mb m s =
     store_buffer (s\<lparr>ses_nextEventSeq := ses_nextEventSeq s + 1\<rparr>)
       (snd (buffer_put msr \<lparr>be_seq = ses_nextEventSeq s, be_message = m\<rparr> b))"
proof -
  let ?e = "\<lparr>be_seq = ses_nextEventSeq s, be_message = m\<rparr>"
  have "0 \<le> msr ?e" and "safe_int (msr ?e)" using assms(3) by (auto simp: buffer_good_def)
  then obtain r b' where "buffer_append msr b ?e = Inr (r, b')"
    by (cases "buffer_append msr b ?e") (auto simp: buffer_append_def Let_def split: if_splits prod.splits)
  with assms show ?thesis
    by (simp add: emit_def sequenceEvent_def Let_def buffer_put_def)
qed

lemma emit_inv:
  assumes inv: "replay_inv msr mi mb s log"
  shows "replay_inv msr mi mb (emit msr mi mb m s)
    (log @ [\<lparr>be_seq = ses_nextEventSeq s, be_message = m\<rparr>])"
proof -
  let ?e = "\<lparr>be_seq = ses_nextEventSeq s, be_message = m\<rparr>"
  obtain b where b: "replayEventBuffer msr s mi mb = Inr b" "buffer_good msr b"
    "buf_items b = ses_eventBuffer s" "buf_maxItems b = mi" "buf_maxBytes b = mb"
    using inv by (auto simp: replay_inv_def)
  show ?thesis
  proof (cases "shouldBufferForReplay m")
    case False
    with inv show ?thesis
      by (auto simp: emit_unbuffered replay_inv_def sorted_wrt_append bufferable_def)
  next
    case True
    let ?b = "snd (buffer_put msr ?e b)"
    have em: "emit msr mi mb m s = store_buffer (s\<lparr>ses_nextEventSeq := ses_nextEventSeq s + 1\<rparr>) ?b"
      by (rule emit_buffered [OF True b(1,2)])
    have fits: "buffer_fits msr b ?e = bufferable msr mb ?e"
      using b True by (auto simp: buffer_fits_def bufferable_def buffer_good_def)
    have good: "buffer_good msr ?b" by (rule fifo.put_good [OF b(2)])
    have limits: "buf_maxItems ?b = mi" "buf_maxBytes ?b = mb"
      using b buffer_put_unfit [of msr b ?e] buffer_put_fits [OF b(2), of ?e]
      by (cases "buffer_fits msr b ?e"; force)+
    have ok: "replayEventBuffer msr (emit msr mi mb m s) mi mb = Inr ?b"
      unfolding em using replayEventBuffer_store limits by metis
    have suf: "suffix (buf_items ?b) (filter (bufferable msr mb) (log @ [?e])) \<and>
        (filter (bufferable msr mb) (log @ [?e]) \<noteq> [] \<longrightarrow> buf_items ?b \<noteq> [])"
    proof (cases "buffer_fits msr b ?e")
      case True
      then have "suffix (buf_items ?b) (buf_items b @ [?e])" and "buf_items ?b \<noteq> []"
        by (rule fifo.put_suffix [OF b(2)], rule fifo.put_newest [OF b(2)])
      moreover have "suffix (buf_items b @ [?e]) (filter (bufferable msr mb) log @ [?e])"
        using inv b(3) by (auto simp: replay_inv_def suffix_def)
      ultimately show ?thesis
        using True fits by (auto intro: suffix_order.trans)
    next
      case False
      then show ?thesis
        using buffer_put_unfit [OF False] fits inv b(3) by (auto simp: replay_inv_def)
    qed
    show ?thesis
      using inv ok good limits suf by (auto simp: replay_inv_def em sorted_wrt_append)
  qed
qed

lemma emit_all_inv:
  "replay_inv msr mi mb s log \<Longrightarrow> emit_all msr mi mb ms (s, log) = (s', log') \<Longrightarrow>
   replay_inv msr mi mb s' log'"
proof (induction ms arbitrary: s log)
  case (Cons m ms)
  from emit_inv [OF Cons.prems(1), of m] Cons.prems(2) show ?case
    by (auto intro: Cons.IH)
qed simp

text \<open>A session as \<open>WsBridge\<close> creates it: no events, the next sequence number is 1.\<close>

definition fresh_session :: "session \<Rightarrow> bool" where
  "fresh_session s \<longleftrightarrow> ses_nextEventSeq s = 1 \<and> ses_eventBuffer s = [] \<and> ses_buffers s = None"

lemma fresh_inv:
  assumes "fresh_session s" and "\<forall>e. 0 \<le> msr e \<and> safe_int (msr e)"
    and "1 \<le> mi" and "safe_int mi" and "1 \<le> mb" and "safe_int mb"
  shows "replay_inv msr mi mb s []"
proof -
  let ?b = "\<lparr>buf_items = [], buf_bytes = 0, buf_maxItems = mi, buf_maxBytes = mb\<rparr>"
  have "new_buffer msr [] (JNumber (JInt mi)) (JNumber (JInt mb)) = Inr ?b"
    using assms by (simp add: new_buffer_def positiveInteger_def trim_def recalculate_def)
  moreover have "buffer_good msr ?b"
    using assms by (simp add: buffer_good_def buffer_inv_def within_def)
  ultimately show ?thesis
    using assms by (simp add: replay_inv_def fresh_session_def replayEventBuffer_def)
qed

text \<open>The event numbers in the buffer identify the events: no earlier one is missing inside it.\<close>

lemma suffix_of_sorted_complete:
  assumes "suffix (x # ys) (zs :: buffered_event list)" and "sorted_wrt (<) (map be_seq zs)"
    and "e \<in> set zs" and "be_seq x \<le> be_seq e"
  shows "e \<in> set (x # ys)"
proof -
  from assms(1) obtain pre where zs: "zs = pre @ x # ys" by (auto simp: suffix_def)
  with assms(2) have "\<forall>p \<in> set pre. be_seq p < be_seq x" by (auto simp: sorted_wrt_append)
  with assms(3,4) zs show ?thesis by auto
qed

lemma filter_sorted_seq:
  "sorted_wrt (<) (map be_seq xs) \<Longrightarrow> sorted_wrt (<) (map be_seq (filter P xs))"
  by (simp add: sorted_wrt_map sorted_wrt_filter)

fun replay_part :: "outgoing \<Rightarrow> buffered_event list" where
  "replay_part (EventReplay es) = es"
| "replay_part _ = []"

fun is_history :: "outgoing \<Rightarrow> bool" where
  "is_history (HistorySnapshot r h) = True"
| "is_history HistoryUnavailable = True"
| "is_history _ = False"

definition replayed :: "outgoing list \<Rightarrow> buffered_event list" where
  "replayed out = concat (map replay_part out)"

definition history_sent :: "outgoing list \<Rightarrow> bool" where
  "history_sent out \<longleftrightarrow> (\<exists>x \<in> set out. is_history x)"

lemma replayed_simps [simp]:
  "replayed [] = []" "replayed (x # xs) = replay_part x @ replayed xs"
  "replayed (xs @ ys) = replayed xs @ replayed ys"
  "replay_part (sendHistory load r) = []" "replay_part (run_state_message s) = []"
  by (auto simp: replayed_def sendHistory_def run_state_message_def split: option.splits)

lemma history_sent_simps [simp]:
  "\<not> history_sent []" "history_sent (x # xs) \<longleftrightarrow> is_history x \<or> history_sent xs"
  "history_sent (xs @ ys) \<longleftrightarrow> history_sent xs \<or> history_sent ys"
  "is_history (sendHistory load r)"
  by (auto simp: history_sent_def sendHistory_def split: option.splits)

lemma replay_from_nonneg [simp]: "0 \<le> replay_from s lastSeq"
  by (simp add: replay_from_def)

lemma missed_events_sockets [simp]:
  "missed_events (s\<lparr>ses_sockets := x\<rparr>) f h b = missed_events s f h b"
  by (simp add: missed_events_def)

lemma subscribe_undisturbed:
  assumes "om_get (ses_sockets s) k = Some d" and "ses_eventBuffer s = first # rest"
  shows "replayed (fst (handleSessionSubscribe load backed id id s k lastSeq)) =
      missed_events s (replay_from s lastSeq)
        (replay_from s lastSeq = 0 \<or> replay_from s lastSeq < be_seq first - 1) backed"
    and "replay_from s lastSeq = 0 \<or> replay_from s lastSeq < be_seq first - 1 \<Longrightarrow>
      history_sent (fst (handleSessionSubscribe load backed id id s k lastSeq))"
proof -
  define f where "f = replay_from s lastSeq"
  have "0 \<le> f" by (simp add: f_def)
  then have gap: "(0 < f \<and> f < be_seq first - 1 \<or> f = 0) = (f = 0 \<or> f < be_seq first - 1)"
    by auto
  show "replayed (fst (handleSessionSubscribe load backed id id s k lastSeq)) =
      missed_events s (replay_from s lastSeq)
        (replay_from s lastSeq = 0 \<or> replay_from s lastSeq < be_seq first - 1) backed"
    unfolding f_def [symmetric] gap [symmetric]
    using assms by (simp add: handleSessionSubscribe_def Let_def f_def [symmetric])
  show "replay_from s lastSeq = 0 \<or> replay_from s lastSeq < be_seq first - 1 \<Longrightarrow>
      history_sent (fst (handleSessionSubscribe load backed id id s k lastSeq))"
    unfolding f_def [symmetric] gap [symmetric]
    using assms by (auto simp add: handleSessionSubscribe_def Let_def f_def [symmetric])
qed

text \<open>The remembered client message ids: a bounded window without repetition, mirrored by the set.\<close>

definition processed_inv :: "nat \<Rightarrow> session \<Rightarrow> bool" where
  "processed_inv limit s \<longleftrightarrow>
     distinct (ses_processedIds s) \<and> ses_processedIdSet s = set (ses_processedIds s) \<and>
     length (ses_processedIds s) \<le> limit"

section \<open>Properties\<close>


definition example_session :: session where
  "example_session =
     \<lparr>ses_id = ''s'', ses_sockets = [(0, \<lparr>sk_protocolVersion = 1, sk_contextEpoch = 0,
        sk_contextId = replicate 32 CHR ''a'', sk_subscribed = False, sk_lastAckSeq = None\<rparr>)],
      ses_nextEventSeq = 1, ses_eventArray = 0, ses_eventBuffer = [], ses_buffers = None,
      ses_lastAckSeq = 0, ses_processedIds = [], ses_processedIdSet = {}, ses_runState = ''ready'',
      ses_generation = 1, ses_usage = JUndefined\<rparr>"

definition example_messages :: "json list" where
  "example_messages =
     [JObject [(''type'', JString ''pi_queue'')], JObject [(''type'', JString ''error'')],
      JObject [(''type'', JString ''mcp_status'')]]"


text \<open>
  What the gap check does not see: an event larger than the byte budget is sequenced but never
  buffered, and its number leaves no trace. A browser that reconnects with the cursor before it
  gets neither the event nor a history snapshot, even when the event is an agent message that the
  history could supply.
\<close>

theorem oversized_event_skipped_without_history:
  "let big = JObject [(''type'', JString ''agent_message'')];
       small = JObject [(''type'', JString ''pi_queue'')];
       (s, log) = emit_all (\<lambda>e. if be_message e = big then 200 else 10) 600 100
         [small, big, small] (example_session, []);
       out = fst (handleSessionSubscribe (\<lambda>r. Some JNull) isHistoryBackedEvent id id s 0 1)
   in \<lparr>be_seq = 2, be_message = big\<rparr> \<in> set log \<and> shouldBufferForReplay big \<and>
      isHistoryBackedEvent big \<and> \<not> history_sent out \<and> map be_seq (replayed out) = [3]"
  by code_simp

text \<open>
  Acknowledgements and idempotence records are monotone and bounded: whatever cursors a browser
  acknowledges, the session's acknowledged sequence number never goes back; and remembering a
  client message id makes exactly that id a duplicate, keeps the remembered ids distinct, in step
  with the lookup set and within the limit.
\<close>

theorem remember_keeps_processed_ids:
  assumes "processed_inv limit s" and "\<not> isDuplicateClientMessage s i" and "1 \<le> limit"
  shows "processed_inv limit (rememberClientMessage s i limit) \<and>
    isDuplicateClientMessage (rememberClientMessage s i limit) i \<and>
    (\<forall>j. isDuplicateClientMessage (rememberClientMessage s i limit) j \<longrightarrow>
       j = i \<or> isDuplicateClientMessage s j) \<and>
    ses_lastAckSeq s \<le> ses_lastAckSeq (handleSessionAck s k n)"
proof -
  let ?ids = "ses_processedIds s @ [i]"
  have d: "distinct ?ids" and st: "insert i (ses_processedIdSet s) = set ?ids"
    using assms by (auto simp: processed_inv_def isDuplicateClientMessage_def)
  have len: "length ?ids \<le> Suc limit" using assms(1) by (simp add: processed_inv_def)
  have ack: "ses_lastAckSeq s \<le> ses_lastAckSeq (handleSessionAck s k n)"
    by (simp add: handleSessionAck_def Let_def split: option.splits)
  show ?thesis
  proof (cases "length ?ids > limit")
    case True
    then have over: "length ?ids - limit = 1" using len by simp
    have "set ?ids - set (take 1 ?ids) = set (drop 1 ?ids)"
      using d by (cases ?ids) auto
    moreover have "i \<in> set (drop 1 ?ids)"
      using True assms(3) by (cases "ses_processedIds s") auto
    moreover have "distinct (drop 1 ?ids)" using d by (rule distinct_drop)
    moreover have "rememberClientMessage s i limit =
        s\<lparr>ses_processedIds := drop 1 ?ids, ses_processedIdSet := set ?ids - set (take 1 ?ids)\<rparr>"
      using True over st by (simp add: rememberClientMessage_def Let_def)
    ultimately show ?thesis
      using ack len assms(1) in_set_dropD [of _ 1 ?ids]
      by (auto simp: processed_inv_def isDuplicateClientMessage_def)
  next
    case False
    then have "rememberClientMessage s i limit =
        s\<lparr>ses_processedIds := ?ids, ses_processedIdSet := set ?ids\<rparr>"
      using st by (simp add: rememberClientMessage_def Let_def)
    then show ?thesis
      using ack False d assms(1) by (auto simp: processed_inv_def isDuplicateClientMessage_def)
  qed
qed

theorem remember_keeps_processed_ids_witness:
  "isDuplicateClientMessage
     (rememberClientMessage (example_session\<lparr>ses_processedIds := [''a''], ses_processedIdSet := {''a''}\<rparr>) ''b'' 1) ''b''"
proof -
  let ?s = "example_session\<lparr>ses_processedIds := [''a''], ses_processedIdSet := {''a''}\<rparr>"
  have "processed_inv 1 ?s" and "\<not> isDuplicateClientMessage ?s ''b''" and "1 \<le> (1::nat)"
    by (simp_all add: processed_inv_def isDuplicateClientMessage_def)
  from remember_keeps_processed_ids [OF this, of 0 0] show ?thesis by blast
qed

end
