(* ===== verification/Leases.thy ===== *)
theory Leases
  imports Prelude
begin

text \<open>
  The contract shared by everything the server hands out to be given back once: resource leases
  (resource-governor.ts) and disk reservations (user-disk-quota.ts). Giving back marks the lease as
  spent, a spent lease is never live again, and giving back a spent lease does nothing. Clients may
  therefore give back the same lease from several clean-up paths.
\<close>

locale settle_once =
  fixes settle :: "'l \<Rightarrow> 's \<Rightarrow> 's"
    and spent :: "'l \<Rightarrow> 's \<Rightarrow> bool"
    and issued :: "'l \<Rightarrow> 's \<Rightarrow> bool"
  assumes settle_spent: "spent l s \<Longrightarrow> settle l s = s"
    and settle_marks: "issued l s \<Longrightarrow> spent l (settle l s)"
    and spent_stays: "spent l s \<Longrightarrow> spent l (settle m s)"
    and issued_stays: "issued l s \<Longrightarrow> issued l (settle m s)"
begin

definition settle_all :: "'l list \<Rightarrow> 's \<Rightarrow> 's" where
  "settle_all ls s = fold settle ls s"

lemma settle_twice: "issued l s \<Longrightarrow> settle l (settle l s) = settle l s"
  by (simp add: settle_spent settle_marks)

lemma spent_stays_all: "spent l s \<Longrightarrow> spent l (settle_all ms s)"
  by (induction ms arbitrary: s) (auto simp: settle_all_def spent_stays)

lemma issued_stays_all: "issued l s \<Longrightarrow> issued l (settle_all ms s)"
  by (induction ms arbitrary: s) (auto simp: settle_all_def issued_stays)

lemma settle_all_marks: "l \<in> set ls \<Longrightarrow> issued l s \<Longrightarrow> spent l (settle_all ls s)"
proof (induction ls arbitrary: s)
  case (Cons m ls)
  have "settle_all (m # ls) s = settle_all ls (settle m s)" by (simp add: settle_all_def)
  with Cons show ?case
    by (cases "l = m") (auto simp: spent_stays_all settle_marks issued_stays)
qed simp

text \<open>Giving back leases again, in any order and any number of times, changes nothing.\<close>

lemma settle_all_again:
  assumes "\<forall>l \<in> set ls. issued l s" and "set ms \<subseteq> set ls"
  shows "settle_all ms (settle_all ls s) = settle_all ls s"
proof -
  have "\<forall>l \<in> set ms. spent l (settle_all ls s)"
    using assms settle_all_marks by blast
  then show ?thesis
    by (induction ms) (auto simp: settle_all_def settle_spent)
qed

end

end
