(* ===== verification/Resource_Governor.thy ===== *)
theory Resource_Governor
  imports Leases
begin

text \<open>
  \<open>UserResourceGovernor\<close> (web/server/resource-governor.ts): the admission control of one user's
  concurrent sessions and managed processes. Owners are reference counted in two tables. A lease is
  a closure over a flag \<open>released\<close>; the model keeps the flags of all leases in a store, addressed by
  position, and a lease is the tree of the closures that \<open>reserve\<close>, \<open>combine\<close> and
  \<open>accountForExistingPiProcess\<close> build.

  The theorems are about every history of calls: the tables count exactly the live references, and
  once the debt of pre-existing processes is paid the number of owners is within the limits.
\<close>

section \<open>State and operations\<close>

datatype resource = SessionResource | ProcessResource

datatype managed_process_kind = Pi | PiTask

fun kind_name :: "managed_process_kind \<Rightarrow> string" where
  "kind_name Pi = ''pi''"
| "kind_name PiTask = ''pi-task''"

datatype governor_error =
    ResourceLimitError resource int
  | GovernorTypeError string

datatype lease =
    RefLease nat resource string
  | CombinedLease nat "lease list"
  | DebtLease nat lease

record governor =
  gov_sessions :: "(string, int) omap"
  gov_processes :: "(string, int) omap"
  gov_debt :: int
  gov_sessionLimit :: int
  gov_processLimit :: int
  gov_released :: "bool list"

record resource_snapshot =
  concurrentSessions :: int
  managedProcesses :: int
  sessionLimit :: int
  processLimit :: int

definition positiveInteger :: "json \<Rightarrow> string \<Rightarrow> governor_error + int" where
  "positiveInteger value label =
     (if \<not> is_safe_integer value \<or> number_of value < 1
      then Inl (GovernorTypeError (label @ '' must be a positive integer''))
      else Inr (number_of value))"

definition new_governor :: "json \<Rightarrow> json \<Rightarrow> governor_error + governor" where
  "new_governor maxSessions maxProcesses =
     bind_result (positiveInteger maxSessions ''maxConcurrentSessions'') (\<lambda>ms.
     bind_result (positiveInteger maxProcesses ''maxManagedProcesses'') (\<lambda>mp.
       Inr \<lparr>gov_sessions = [], gov_processes = [], gov_debt = 0,
            gov_sessionLimit = ms, gov_processLimit = mp, gov_released = []\<rparr>))"

fun table :: "resource \<Rightarrow> governor \<Rightarrow> (string, int) omap" where
  "table SessionResource g = gov_sessions g"
| "table ProcessResource g = gov_processes g"

fun set_table :: "resource \<Rightarrow> (string, int) omap \<Rightarrow> governor \<Rightarrow> governor" where
  "set_table SessionResource t g = g\<lparr>gov_sessions := t\<rparr>"
| "set_table ProcessResource t g = g\<lparr>gov_processes := t\<rparr>"

fun limit_of :: "resource \<Rightarrow> governor \<Rightarrow> int" where
  "limit_of SessionResource g = gov_sessionLimit g"
| "limit_of ProcessResource g = gov_processLimit g"

definition requireOwner :: "string \<Rightarrow> string \<Rightarrow> governor_error + string" where
  "requireOwner value label =
     (let normalized = js_trim value
      in if normalized = [] then Inl (GovernorTypeError (label @ '' must not be empty''))
         else Inr normalized)"

definition assertCapacity :: "resource \<Rightarrow> string \<Rightarrow> governor \<Rightarrow> governor_error + unit" where
  "assertCapacity r owner g =
     (if gov_debt g > 0 then Inl (ResourceLimitError r (limit_of r g))
      else if \<not> om_has (table r g) owner \<and> int (length (table r g)) \<ge> limit_of r g
      then Inl (ResourceLimitError r (limit_of r g))
      else Inr ())"

text \<open>A new closure allocates its flag, which starts as false.\<close>

definition new_flag :: "governor \<Rightarrow> nat \<times> governor" where
  "new_flag g = (length (gov_released g), g\<lparr>gov_released := gov_released g @ [False]\<rparr>)"

definition addReservationReference :: "resource \<Rightarrow> string \<Rightarrow> governor \<Rightarrow> lease \<times> governor" where
  "addReservationReference r owner g =
     (let references = (case om_get (table r g) owner of None \<Rightarrow> 0 | Some n \<Rightarrow> n) + 1;
          (flag, g') = new_flag (set_table r (om_set (table r g) owner references) g)
      in (RefLease flag r owner, g'))"

definition reserve :: "resource \<Rightarrow> string \<Rightarrow> governor \<Rightarrow> governor_error + lease \<times> governor" where
  "reserve r owner g =
     bind_result (assertCapacity r owner g) (\<lambda>_. Inr (addReservationReference r owner g))"

definition combine :: "lease list \<Rightarrow> governor \<Rightarrow> lease \<times> governor" where
  "combine leases g = (let (flag, g') = new_flag g in (CombinedLease flag leases, g'))"

text \<open>\<open>release\<close> of the three kinds of closures; a combined lease releases its parts last to first.\<close>

definition release_reference :: "resource \<Rightarrow> string \<Rightarrow> governor \<Rightarrow> governor" where
  "release_reference r owner g =
     (case om_get (table r g) owner of
        None \<Rightarrow> g
      | Some n \<Rightarrow>
          if n - 1 \<le> 0 then set_table r (om_delete (table r g) owner) g
          else set_table r (om_set (table r g) owner (n - 1)) g)"

definition mark :: "nat \<Rightarrow> governor \<Rightarrow> governor" where
  "mark f g = g\<lparr>gov_released := (gov_released g)[f := True]\<rparr>"

definition is_marked :: "nat \<Rightarrow> governor \<Rightarrow> bool" where
  "is_marked f g \<longleftrightarrow> f < length (gov_released g) \<and> gov_released g ! f"

fun release :: "lease \<Rightarrow> governor \<Rightarrow> governor" where
  "release (RefLease f r owner) g =
     (if is_marked f g then g else release_reference r owner (mark f g))"
| "release (CombinedLease f leases) g =
     (if is_marked f g then g else foldr release leases (mark f g))"
| "release (DebtLease f l) g =
     (if is_marked f g then g
      else (let g' = release l (mark f g) in g'\<lparr>gov_debt := gov_debt g' - 1\<rparr>))"

definition reserveSession :: "string \<Rightarrow> governor \<Rightarrow> governor_error + lease \<times> governor" where
  "reserveSession sessionId g =
     bind_result (requireOwner sessionId ''sessionId'') (\<lambda>owner. reserve SessionResource owner g)"

definition reserveManagedProcess ::
  "managed_process_kind \<Rightarrow> string \<Rightarrow> governor \<Rightarrow> governor_error + lease \<times> governor" where
  "reserveManagedProcess kind processId g =
     bind_result (requireOwner processId ''processId'') (\<lambda>owner.
       reserve ProcessResource (kind_name kind @ '':'' @ owner) g)"

text \<open>
  \<open>reservePiProcess\<close>. The third component of an error result is the state the throw leaves: the
  catch block gives the session lease back before it rethrows.
\<close>

definition reservePiProcess ::
  "string \<Rightarrow> string \<Rightarrow> governor \<Rightarrow> (governor_error \<times> governor) + lease \<times> governor" where
  "reservePiProcess sessionId processId g =
     (case requireOwner sessionId ''sessionId'' of Inl e \<Rightarrow> Inl (e, g) | Inr s \<Rightarrow>
     (case requireOwner processId ''processId'' of Inl e \<Rightarrow> Inl (e, g) | Inr p \<Rightarrow>
     (case assertCapacity SessionResource s g of Inl e \<Rightarrow> Inl (e, g) | Inr _ \<Rightarrow>
     (case assertCapacity ProcessResource (''pi:'' @ p) g of Inl e \<Rightarrow> Inl (e, g) | Inr _ \<Rightarrow>
     (case reserve SessionResource s g of Inl e \<Rightarrow> Inl (e, g) | Inr (sessionLease, g1) \<Rightarrow>
     (case reserve ProcessResource (''pi:'' @ p) g1 of
        Inl e \<Rightarrow> Inl (e, release sessionLease g1)
      | Inr (processLease, g2) \<Rightarrow> Inr (combine [sessionLease, processLease] g2)))))))"

definition accountForExistingPiProcess ::
  "string \<Rightarrow> string \<Rightarrow> governor \<Rightarrow> governor_error + lease \<times> governor" where
  "accountForExistingPiProcess sessionId processId g =
     bind_result (requireOwner sessionId ''sessionId'') (\<lambda>s.
     bind_result (requireOwner processId ''processId'') (\<lambda>p.
       let (sessionLease, g1) = addReservationReference SessionResource s g;
           (processLease, g2) = addReservationReference ProcessResource (''pi:'' @ p) g1;
           (resourceLease, g3) = combine [sessionLease, processLease] g2;
           (flag, g4) = new_flag (g3\<lparr>gov_debt := gov_debt g3 + 1\<rparr>)
       in Inr (DebtLease flag resourceLease, g4)))"

definition governor_snapshot :: "governor \<Rightarrow> resource_snapshot" where
  "governor_snapshot g =
     \<lparr>concurrentSessions = int (length (gov_sessions g)),
      managedProcesses = int (length (gov_processes g)),
      sessionLimit = gov_sessionLimit g, processLimit = gov_processLimit g\<rparr>"

section \<open>Histories of calls\<close>

text \<open>
  A history starts from a new governor and makes any calls in any order; \<open>L\<close> is the list of leases
  handed out so far. Any of them may be released at any time, any number of times.
\<close>

inductive history :: "governor \<Rightarrow> lease list \<Rightarrow> bool" where
  start: "new_governor ms mp = Inr g \<Longrightarrow> history g []"
| session: "history g L \<Longrightarrow> reserveSession s g = Inr (l, g') \<Longrightarrow> history g' (l # L)"
| managed: "history g L \<Longrightarrow> reserveManagedProcess k p g = Inr (l, g') \<Longrightarrow> history g' (l # L)"
| pi: "history g L \<Longrightarrow> reservePiProcess s p g = Inr (l, g') \<Longrightarrow> history g' (l # L)"
| pi_failed: "history g L \<Longrightarrow> reservePiProcess s p g = Inl (e, g') \<Longrightarrow> history g' L"
| existing: "history g L \<Longrightarrow> accountForExistingPiProcess s p g = Inr (l, g') \<Longrightarrow> history g' (l # L)"
| give_back: "history g L \<Longrightarrow> l \<in> set L \<Longrightarrow> history (release l g) L"

fun top_flag :: "lease \<Rightarrow> nat" where
  "top_flag (RefLease f _ _) = f"
| "top_flag (CombinedLease f _) = f"
| "top_flag (DebtLease f _) = f"

fun flags_of :: "lease \<Rightarrow> nat list" where
  "flags_of (RefLease f _ _) = [f]"
| "flags_of (CombinedLease f ls) = f # concat (map flags_of ls)"
| "flags_of (DebtLease f l) = f # flags_of l"

fun leaves :: "lease \<Rightarrow> (nat \<times> resource \<times> string) list" where
  "leaves (RefLease f r owner) = [(f, r, owner)]"
| "leaves (CombinedLease _ ls) = concat (map leaves ls)"
| "leaves (DebtLease _ l) = leaves l"

fun is_debt :: "lease \<Rightarrow> bool" where
  "is_debt (DebtLease _ _) = True"
| "is_debt _ = False"

text \<open>The references that are still held, and what the tables should say about them.\<close>

definition held :: "governor \<Rightarrow> (nat \<times> resource \<times> string) list \<Rightarrow> resource \<Rightarrow> string \<Rightarrow> nat" where
  "held g ls r owner =
     length (filter (\<lambda>(f, r', owner'). r' = r \<and> owner' = owner \<and> \<not> is_marked f g) ls)"

definition all_leaves :: "lease list \<Rightarrow> (nat \<times> resource \<times> string) list" where
  "all_leaves L = concat (map leaves L)"

definition all_flags :: "lease list \<Rightarrow> nat list" where
  "all_flags L = concat (map flags_of L)"

definition exact :: "governor \<Rightarrow> (nat \<times> resource \<times> string) list \<Rightarrow> bool" where
  "exact g ls \<longleftrightarrow>
     (\<forall>r. om_wf (table r g) \<and>
       (\<forall>owner. om_get (table r g) owner =
          (if held g ls r owner = 0 then None else Some (int (held g ls r owner)))))"

fun two_part :: "lease \<Rightarrow> bool" where
  "two_part (RefLease _ _ _) = True"
| "two_part (CombinedLease _ [RefLease _ _ _, RefLease _ _ _]) = True"
| "two_part (DebtLease _ (CombinedLease _ [RefLease _ _ _, RefLease _ _ _])) = True"
| "two_part _ = False"

definition uniform :: "governor \<Rightarrow> lease \<Rightarrow> bool" where
  "uniform g l \<longleftrightarrow> (\<forall>f \<in> set (flags_of l). is_marked f g = is_marked (top_flag l) g)"

definition live_debts :: "governor \<Rightarrow> lease list \<Rightarrow> nat" where
  "live_debts g L = length (filter (\<lambda>l. is_debt l \<and> \<not> is_marked (top_flag l) g) L)"

definition ledger :: "governor \<Rightarrow> lease list \<Rightarrow> bool" where
  "ledger g L \<longleftrightarrow>
     distinct (all_flags L) \<and> (\<forall>f \<in> set (all_flags L). f < length (gov_released g)) \<and>
     (\<forall>l \<in> set L. two_part l \<and> uniform g l) \<and>
     gov_debt g = int (live_debts g L) \<and> exact g (all_leaves L)"

text \<open>Owners admitted through the limits, as opposed to found running.\<close>

definition admitted :: "governor \<Rightarrow> lease list \<Rightarrow> resource \<Rightarrow> string set" where
  "admitted g L r =
     {owner. \<exists>l \<in> set L. \<not> is_debt l \<and> (\<exists>f. (f, r, owner) \<in> set (leaves l) \<and> \<not> is_marked f g)}"

definition capped :: "governor \<Rightarrow> lease list \<Rightarrow> bool" where
  "capped g L \<longleftrightarrow> (\<forall>r. int (card (admitted g L r)) \<le> limit_of r g)"

subsection \<open>Flags and tables\<close>

lemma table_set_table [simp]: "table r (set_table r' t g) = (if r = r' then t else table r g)"
  by (cases r; cases r') auto

lemma set_table_fields [simp]:
  "gov_released (set_table r t g) = gov_released g"
  "gov_debt (set_table r t g) = gov_debt g"
  "limit_of r' (set_table r t g) = limit_of r' g"
  "is_marked f (set_table r t g) = is_marked f g"
  by (cases r; cases r'; simp add: is_marked_def)+

lemma table_upd [simp]:
  "table r (g\<lparr>gov_released := fs\<rparr>) = table r g"
  "table r (g\<lparr>gov_debt := d\<rparr>) = table r g"
  "limit_of r (g\<lparr>gov_released := fs\<rparr>) = limit_of r g"
  "limit_of r (g\<lparr>gov_debt := d\<rparr>) = limit_of r g"
  by (cases r; simp)+

lemma mark_fields [simp]:
  "table r (mark f g) = table r g" "gov_debt (mark f g) = gov_debt g"
  "limit_of r (mark f g) = limit_of r g"
  "length (gov_released (mark f g)) = length (gov_released g)"
  by (simp_all add: mark_def)

lemma is_marked_mark [simp]:
  "is_marked f (mark h g) \<longleftrightarrow> is_marked f g \<or> f = h \<and> h < length (gov_released g)"
  by (cases "h < length (gov_released g)") (auto simp: is_marked_def mark_def nth_list_update)

lemma is_marked_debt [simp]: "is_marked f (g\<lparr>gov_debt := d\<rparr>) = is_marked f g"
  by (simp add: is_marked_def)

lemma release_reference_fields [simp]:
  "gov_debt (release_reference r owner g) = gov_debt g"
  "gov_released (release_reference r owner g) = gov_released g"
  "limit_of r' (release_reference r owner g) = limit_of r' g"
  "is_marked f (release_reference r owner g) = is_marked f g"
  by (auto simp: release_reference_def split: option.splits)

lemma table_release_reference:
  assumes "om_get (table r g) owner = Some (int (Suc m))"
  shows "table r0 (release_reference r owner g) =
    (if r0 \<noteq> r then table r0 g
     else if m = 0 then om_delete (table r g) owner else om_set (table r g) owner (int m))"
  using assms by (auto simp: release_reference_def)

lemma release_length [simp]: "length (gov_released (release l g)) = length (gov_released g)"
proof (induction l arbitrary: g)
  case (CombinedLease f ls)
  have "length (gov_released (foldr release ls h)) = length (gov_released h)" for h
    using CombinedLease by (induction ls) auto
  then show ?case by simp
qed (auto simp: Let_def)

lemma release_marked: "is_marked f g \<Longrightarrow> is_marked f (release l g)"
proof (induction l arbitrary: g)
  case (CombinedLease h ls)
  have "is_marked f g' \<Longrightarrow> is_marked f (foldr release ls g')" for g'
    using CombinedLease.IH by (induction ls) auto
  with CombinedLease.prems show ?case by simp
qed (auto simp: Let_def)

lemma release_marks_top:
  assumes "top_flag l < length (gov_released g)"
  shows "is_marked (top_flag l) (release l g)"
proof -
  have "is_marked f g' \<Longrightarrow> is_marked f (foldr release ls g')" for f ls g'
    by (induction ls) (auto simp: release_marked)
  with assms show ?thesis by (cases l) (auto simp: Let_def release_marked)
qed

lemma release_noop: "is_marked (top_flag l) g \<Longrightarrow> release l g = g"
  by (cases l) auto

lemma release_limit [simp]: "limit_of r (release l g) = limit_of r g"
proof (induction l arbitrary: g)
  case (CombinedLease f ls)
  have "limit_of r (foldr release ls h) = limit_of r h" for h
    using CombinedLease by (induction ls) auto
  then show ?case by simp
qed (auto simp: Let_def)

text \<open>A lease of the governor keeps the contract of things that are given back once.\<close>

interpretation gov: settle_once release "\<lambda>l g. is_marked (top_flag l) g"
  "\<lambda>l g. top_flag l < length (gov_released g)"
  by unfold_locales (auto simp: release_noop release_marks_top release_marked)

subsection \<open>The ledger is kept\<close>

lemma exact_cong:
  assumes "\<And>r. table r g' = table r g"
    and "\<And>f r owner. (f, r, owner) \<in> set ls \<Longrightarrow> is_marked f g' = is_marked f g"
  shows "exact g' ls = exact g ls"
proof -
  have "held g' ls r owner = held g ls r owner" for r owner
    unfolding held_def using assms(2)
    by (intro arg_cong [where f = length] filter_cong) auto
  then show ?thesis by (simp add: exact_def assms(1))
qed

lemma exact_release_reference:
  assumes "exact g ls" and "distinct (map fst ls)" and "(f, r, owner) \<in> set ls"
    and "\<not> is_marked f g" and "f < length (gov_released g)"
  shows "exact (release_reference r owner (mark f g)) ls"
proof -
  let ?g = "release_reference r owner (mark f g)"
  let ?P = "\<lambda>r0 o0 (f', r', o'). r' = r0 \<and> o' = o0 \<and> \<not> is_marked f' g"
  have unique: "(f, r', o') \<in> set ls \<Longrightarrow> r' = r \<and> o' = owner" for r' o'
    using assms(2,3) by (metis eq_key_imp_eq_value prod.inject)
  have here: "held g ls r owner = Suc (held ?g ls r owner)"
  proof -
    have "length (filter (?P r owner) ls)
      = Suc (length (filter (\<lambda>y. ?P r owner y \<and> fst y \<noteq> fst (f, r, owner)) ls))"
      using assms(2,3,4) by (intro length_filter_remove_key) auto
    moreover have "filter (\<lambda>y. ?P r owner y \<and> fst y \<noteq> fst (f, r, owner)) ls
      = filter (\<lambda>(f', r', o'). r' = r \<and> o' = owner \<and> \<not> is_marked f' ?g) ls"
      using assms(5) by (intro filter_cong) auto
    ultimately show ?thesis by (simp add: held_def)
  qed
  have else_same: "held ?g ls r0 o0 = held g ls r0 o0" if "(r0, o0) \<noteq> (r, owner)" for r0 o0
    unfolding held_def using that unique assms(5)
    by (intro arg_cong [where f = length] filter_cong) auto
  have get: "om_get (table r g) owner = Some (int (held g ls r owner))" and wf: "om_wf (table r g)"
    using assms(1) here by (auto simp: exact_def)
  have "table r0 ?g = (if r0 \<noteq> r then table r0 g
       else if held ?g ls r owner = 0 then om_delete (table r g) owner
       else om_set (table r g) owner (int (held ?g ls r owner)))" for r0
    using get unfolding here by (subst table_release_reference [where m = "held ?g ls r owner"]) auto
  then show ?thesis
    using assms(1) wf else_same unfolding exact_def by auto
qed

lemma leaves_flags: "f \<in> fst ` set (leaves l) \<Longrightarrow> f \<in> set (flags_of l)"
proof (induction l)
  case (CombinedLease h ls)
  then show ?case by (auto simp: image_iff)
qed auto

lemma leaves_subset: "(f, r, owner) \<in> set (leaves l) \<Longrightarrow> f \<in> set (flags_of l)"
  using leaves_flags by force

lemma all_leaves_subset: "(f, r, owner) \<in> set (all_leaves L) \<Longrightarrow> f \<in> set (all_flags L)"
  by (auto simp: all_leaves_def all_flags_def dest: leaves_subset)

lemma two_part_cases:
  assumes "two_part l"
  obtains (ref) f r owner where "l = RefLease f r owner"
  | (pair) f a r1 o1 b r2 o2 where "l = CombinedLease f [RefLease a r1 o1, RefLease b r2 o2]"
  | (debt) d f a r1 o1 b r2 o2
    where "l = DebtLease d (CombinedLease f [RefLease a r1 o1, RefLease b r2 o2])"
  using assms by (cases l rule: two_part.cases) auto

lemma distinct_leaf_flags:
  assumes "distinct (flags_of l)" and "two_part l"
  shows "distinct (map fst (leaves l))"
  using assms(2,1) by (cases rule: two_part_cases) auto

lemma distinct_all_leaf_flags:
  "distinct (all_flags L) \<Longrightarrow> \<forall>l \<in> set L. two_part l \<Longrightarrow> distinct (map fst (all_leaves L))"
proof (induction L)
  case (Cons l L)
  then have "distinct (map fst (leaves l))" "distinct (map fst (all_leaves L))"
    by (auto simp: all_flags_def distinct_leaf_flags)
  moreover have "fst ` set (leaves l) \<inter> fst ` set (all_leaves L) = {}"
    using Cons.prems(1) leaves_subset all_leaves_subset by (fastforce simp: all_flags_def)
  ultimately show ?case by (simp add: all_leaves_def)
qed (simp add: all_leaves_def)

lemma top_flag_in: "top_flag l \<in> set (flags_of l)"
  by (cases l) auto

lemma ledger_flag_less: "ledger g L \<Longrightarrow> l \<in> set L \<Longrightarrow> f \<in> set (flags_of l) \<Longrightarrow> f < length (gov_released g)"
  by (auto simp: ledger_def all_flags_def)

lemma distinct_flags_elim:
  assumes "distinct (all_flags L)" and "l \<in> set L" and "m \<in> set L" and "l \<noteq> m"
  shows "set (flags_of l) \<inter> set (flags_of m) = {}"
proof -
  obtain xs ys where "L = xs @ l # ys" using assms(2) by (metis split_list)
  with assms show ?thesis unfolding all_flags_def by fastforce
qed

text \<open>Releasing an unspent lease marks its flags and no others, and gives back its references.\<close>

lemma release_effect:
  assumes "two_part l" and "distinct (flags_of l)"
    and "\<forall>f \<in> set (flags_of l). f < length (gov_released g) \<and> \<not> is_marked f g"
  shows "is_marked h (release l g) \<longleftrightarrow> is_marked h g \<or> h \<in> set (flags_of l)"
    and "gov_debt (release l g) = gov_debt g - (if is_debt l then 1 else 0)"
  using assms(1)
  by (cases rule: two_part_cases; use assms(2,3) in \<open>auto simp: Let_def\<close>)+

lemma exact_mark:
  "exact g ls \<Longrightarrow> f \<notin> fst ` set ls \<Longrightarrow> exact (mark f g) ls"
  by (subst exact_cong [of _ g]) force+

lemma exact_release_pair:
  assumes "exact g ls" and "distinct (map fst ls)"
    and "(a, r1, o1) \<in> set ls" and "(b, r2, o2) \<in> set ls" and "a \<noteq> b"
    and "\<not> is_marked a g" and "\<not> is_marked b g"
    and "a < length (gov_released g)" and "b < length (gov_released g)"
    and "f \<notin> fst ` set ls"
  shows "exact (foldr release [RefLease a r1 o1, RefLease b r2 o2] (mark f g)) ls"
proof -
  let ?g = "release_reference r2 o2 (mark b (mark f g))"
  have ne: "f \<noteq> a" "f \<noteq> b" using assms(3,4,10) by force+
  have "exact (mark f g) ls"
    using assms(1,10) by (rule exact_mark)
  then have "exact ?g ls"
    using assms ne by (intro exact_release_reference) auto
  then have "exact (release_reference r1 o1 (mark a ?g)) ls"
    using assms ne by - (rule exact_release_reference; simp)
  with assms ne show ?thesis by simp
qed

lemma exact_release:
  assumes "exact g ls" and "distinct (map fst ls)" and "set (leaves l) \<subseteq> set ls"
    and "two_part l" and "distinct (flags_of l)"
    and flags: "\<forall>f \<in> set (flags_of l). f < length (gov_released g) \<and> \<not> is_marked f g"
    and own: "\<forall>f \<in> set (flags_of l). f \<in> fst ` set ls \<longrightarrow> f \<in> fst ` set (leaves l)"
  shows "exact (release l g) ls"
  using assms(4)
proof (cases rule: two_part_cases)
  case (ref f r owner)
  with assms show ?thesis by (auto intro: exact_release_reference)
next
  case (pair f a r1 o1 b r2 o2)
  with assms have "exact (foldr release [RefLease a r1 o1, RefLease b r2 o2] (mark f g)) ls"
    by (intro exact_release_pair) auto
  with pair flags show ?thesis by simp
next
  case (debt d f a r1 o1 b r2 o2)
  have "d \<notin> fst ` set ls" "f \<notin> fst ` set ls" "d \<noteq> f" "d \<noteq> a" "d \<noteq> b"
    using debt own assms(5) by auto
  then have "exact (foldr release [RefLease a r1 o1, RefLease b r2 o2] (mark f (mark d g))) ls"
    using assms debt by (intro exact_release_pair exact_mark) auto
  with debt flags \<open>d \<noteq> f\<close> have "exact (release (CombinedLease f [RefLease a r1 o1, RefLease b r2 o2]) (mark d g)) ls"
    by simp
  then show ?thesis
    using debt flags by (simp add: Let_def del: release.simps(2)) (subst exact_cong; simp)
qed

lemma distinct_tops: "distinct (all_flags L) \<Longrightarrow> distinct (map top_flag L)"
proof (induction L)
  case (Cons l L)
  have "top_flag l \<noteq> top_flag m" if "m \<in> set L" for m
  proof -
    have "set (flags_of l) \<inter> set (flags_of m) = {}"
      using Cons.prems that by (auto simp: all_flags_def)
    then show ?thesis using top_flag_in [of l] top_flag_in [of m] by auto
  qed
  with Cons show ?case by (auto simp: all_flags_def)
qed simp

lemma ledger_release:
  assumes inv: "ledger g L" and l: "l \<in> set L"
  shows "ledger (release l g) L"
proof (cases "is_marked (top_flag l) g")
  case True
  with inv show ?thesis by (simp add: release_noop)
next
  case False
  note D = inv [unfolded ledger_def]
  have fl: "\<forall>f \<in> set (flags_of l). f < length (gov_released g) \<and> \<not> is_marked f g"
    using False D l ledger_flag_less [OF inv l] by (auto simp: uniform_def)
  have two: "two_part l" and dl: "distinct (flags_of l)"
    using D l by (auto simp: all_flags_def distinct_concat_iff)
  note marked = release_effect(1) [OF two dl fl] and debt = release_effect(2) [OF two dl fl]
  have apart: "m \<in> set L \<Longrightarrow> m \<noteq> l \<Longrightarrow> set (flags_of m) \<inter> set (flags_of l) = {}" for m
    using D l distinct_flags_elim [of L m l] by auto
  have uni: "uniform (release l g) m" if "m \<in> set L" for m
  proof (cases "m = l")
    case False
    with apart [OF that] D that top_flag_in [of m] show ?thesis
      unfolding uniform_def marked by blast
  qed (simp add: uniform_def marked top_flag_in)
  have tops: "distinct (map top_flag L)"
    using D distinct_tops by blast
  have other: "is_marked (top_flag m) (release l g) \<longleftrightarrow> is_marked (top_flag m) g \<or> top_flag m = top_flag l"
    if "m \<in> set L" for m
  proof (cases "m = l")
    case False
    then have "top_flag m \<notin> set (flags_of l)"
      using apart [OF that] top_flag_in [of m] by auto
    with top_flag_in [of l] show ?thesis by (auto simp: marked)
  qed (simp add: marked top_flag_in)
  have "live_debts (release l g) L = length (filter (\<lambda>m. (is_debt m \<and> \<not> is_marked (top_flag m) g)
      \<and> top_flag m \<noteq> top_flag l) L)"
    unfolding live_debts_def using other by (intro arg_cong [where f = length] filter_cong) auto
  moreover have "is_debt l \<Longrightarrow> live_debts g L = Suc (length (filter (\<lambda>m. (is_debt m \<and> \<not> is_marked (top_flag m) g)
      \<and> top_flag m \<noteq> top_flag l) L))"
    unfolding live_debts_def using tops l False by (intro length_filter_remove_key) auto
  moreover have "\<not> is_debt l \<Longrightarrow> filter (\<lambda>m. (is_debt m \<and> \<not> is_marked (top_flag m) g)
      \<and> top_flag m \<noteq> top_flag l) L = filter (\<lambda>m. is_debt m \<and> \<not> is_marked (top_flag m) g) L"
    using tops l by (intro filter_cong refl) (metis distinct_map inj_onD)
  ultimately have debts: "gov_debt (release l g) = int (live_debts (release l g) L)"
    using D debt by (cases "is_debt l") (auto simp: live_debts_def)
  have "exact (release l g) (all_leaves L)"
  proof (rule exact_release)
    show "distinct (map fst (all_leaves L))" using D distinct_all_leaf_flags by blast
    show "set (leaves l) \<subseteq> set (all_leaves L)" using l by (auto simp: all_leaves_def)
    show "\<forall>f \<in> set (flags_of l). f \<in> fst ` set (all_leaves L) \<longrightarrow> f \<in> fst ` set (leaves l)"
    proof (intro ballI impI)
      fix f
      assume f: "f \<in> set (flags_of l)" and "f \<in> fst ` set (all_leaves L)"
      then obtain m where m: "m \<in> set L" "f \<in> fst ` set (leaves m)"
        by (auto simp: all_leaves_def)
      with f apart [of m] leaves_flags [of f m] have "m = l" by blast
      with m show "f \<in> fst ` set (leaves l)" by simp
    qed
  qed (use D two dl fl in auto)
  with D uni debts show ?thesis by (simp add: ledger_def)
qed

lemma new_flag_marked [simp]:
  "is_marked f (g\<lparr>gov_released := gov_released g @ [False]\<rparr>) = is_marked f g"
  by (auto simp: is_marked_def nth_append less_Suc_eq)

lemma fresh_flag: "ledger g L \<Longrightarrow> length (gov_released g) \<notin> set (all_flags L)"
  by (auto simp: ledger_def)

lemma unmarked_beyond: "\<not> is_marked (length (gov_released g)) g"
  by (simp add: is_marked_def)

lemma ledger_add_reference:
  assumes inv: "ledger g L" and add: "addReservationReference r owner g = (l, g')"
  shows "ledger g' (l # L)"
proof -
  let ?f = "length (gov_released g)"
  let ?n = "(case om_get (table r g) owner of None \<Rightarrow> 0 | Some n \<Rightarrow> n) + 1"
  note D = inv [unfolded ledger_def]
  have l: "l = RefLease ?f r owner"
    and g': "g' = (set_table r (om_set (table r g) owner ?n) g)\<lparr>gov_released := gov_released g @ [False]\<rparr>"
    using add by (auto simp: addReservationReference_def new_flag_def Let_def)
  have marked: "is_marked f g' = is_marked f g" for f
    using new_flag_marked [of f "set_table r (om_set (table r g) owner ?n) g"]
    by (simp add: g')
  have fields: "gov_released g' = gov_released g @ [False]" "gov_debt g' = gov_debt g"
    by (simp_all add: g')
  have held: "held g' (all_leaves (l # L)) r0 o0 = held g (all_leaves L) r0 o0
      + (if r0 = r \<and> o0 = owner then 1 else 0)" for r0 o0
    by (auto simp: held_def all_leaves_def l marked unmarked_beyond)
  have "?n = int (held g (all_leaves L) r owner) + 1"
    using D by (auto simp: exact_def split: option.splits)
  then have "exact g' (all_leaves (l # L))"
    using D unfolding exact_def held by (auto simp: g')
  moreover have "live_debts g' (l # L) = live_debts g L"
    by (simp add: live_debts_def marked l)
  ultimately show ?thesis
    using D fresh_flag [OF inv] unfolding ledger_def uniform_def marked fields
    by (auto simp: all_flags_def l less_Suc_eq)
qed

lemma ledger_combine:
  assumes inv: "ledger g (RefLease b r2 o2 # RefLease a r1 o1 # L)"
    and free: "\<not> is_marked a g" "\<not> is_marked b g"
    and comb: "combine [RefLease a r1 o1, RefLease b r2 o2] g = (l, g')"
  shows "ledger g' (l # L)"
proof -
  let ?f = "length (gov_released g)"
  note D = inv [unfolded ledger_def]
  have l: "l = CombinedLease ?f [RefLease a r1 o1, RefLease b r2 o2]"
    and g': "g' = g\<lparr>gov_released := gov_released g @ [False]\<rparr>"
    using comb by (auto simp: combine_def new_flag_def)
  have marked: "is_marked f g' = is_marked f g" for f by (simp add: g')
  have fields: "gov_released g' = gov_released g @ [False]" "gov_debt g' = gov_debt g"
    by (simp_all add: g')
  have held: "held g' (all_leaves (l # L)) r0 o0
      = held g (all_leaves (RefLease b r2 o2 # RefLease a r1 o1 # L)) r0 o0" for r0 o0
    by (simp add: held_def all_leaves_def l marked)
  have "exact g' (all_leaves (l # L))"
    using D unfolding exact_def held by (auto simp: g')
  moreover have "live_debts g' (l # L) = live_debts g (RefLease b r2 o2 # RefLease a r1 o1 # L)"
    by (simp add: live_debts_def marked l)
  ultimately show ?thesis
    using D fresh_flag [OF inv] free unmarked_beyond [of g]
    unfolding ledger_def uniform_def marked fields
    by (auto simp: all_flags_def l less_Suc_eq)
qed

lemma ledger_debt:
  assumes inv: "ledger g (c # L)" and c: "c = CombinedLease f [RefLease a r1 o1, RefLease b r2 o2]"
    and free: "\<not> is_marked f g"
    and new: "new_flag (g\<lparr>gov_debt := gov_debt g + 1\<rparr>) = (d, g')"
  shows "ledger g' (DebtLease d c # L)"
proof -
  note D = inv [unfolded ledger_def]
  have d: "d = length (gov_released g)"
    and g': "g' = g\<lparr>gov_debt := gov_debt g + 1, gov_released := gov_released g @ [False]\<rparr>"
    using new by (auto simp: new_flag_def)
  have marked: "is_marked h g' = is_marked h g" for h
    using new_flag_marked [of h "g\<lparr>gov_debt := gov_debt g + 1\<rparr>"] by (simp add: g')
  have fields: "gov_released g' = gov_released g @ [False]" "gov_debt g' = gov_debt g + 1"
    by (simp_all add: g')
  have "held g' ls r0 o0 = held g ls r0 o0" for ls r0 o0
    by (simp add: held_def marked)
  moreover have "all_leaves (DebtLease d c # L) = all_leaves (c # L)"
    by (simp add: all_leaves_def)
  ultimately have "exact g' (all_leaves (DebtLease d c # L))"
    using D by (auto simp: exact_def g')
  moreover have "live_debts g' (DebtLease d c # L) = Suc (live_debts g (c # L))"
    by (simp add: live_debts_def marked c d unmarked_beyond)
  ultimately show ?thesis
    using D fresh_flag [OF inv] free unmarked_beyond [of g]
    unfolding ledger_def uniform_def marked fields
    by (auto simp: all_flags_def c d less_Suc_eq)
qed

lemma addReservationReference_marked:
  assumes "addReservationReference r owner g = (l, g')"
  shows "l = RefLease (length (gov_released g)) r owner" and "is_marked f g' = is_marked f g"
    and "limit_of r0 g' = limit_of r0 g" and "gov_debt g' = gov_debt g"
    and "length (gov_released g') = Suc (length (gov_released g))"
  using assms new_flag_marked [of f "set_table r t g" for t]
  by (auto simp: addReservationReference_def new_flag_def Let_def)

lemma combine_marked:
  assumes "combine ls g = (l, g')"
  shows "l = CombinedLease (length (gov_released g)) ls" and "is_marked f g' = is_marked f g"
    and "limit_of r0 g' = limit_of r0 g" and "gov_debt g' = gov_debt g"
    and "length (gov_released g') = Suc (length (gov_released g))"
  using assms by (auto simp: combine_def new_flag_def)

text \<open>Two references taken one after the other and combined, as both two-slot operations do.\<close>

lemma ledger_two_slots:
  assumes inv: "ledger g L"
    and 1: "addReservationReference r1 o1 g = (l1, g1)"
    and 2: "addReservationReference r2 o2 g1 = (l2, g2)"
    and 3: "combine [l1, l2] g2 = (c, g3)"
  shows "ledger g3 (c # L)"
    and "c = CombinedLease (length (gov_released g) + 2)
      [RefLease (length (gov_released g)) r1 o1, RefLease (length (gov_released g) + 1) r2 o2]"
    and "is_marked f g3 = is_marked f g" and "limit_of r g3 = limit_of r g"
    and "gov_debt g3 = gov_debt g"
proof -
  let ?n = "length (gov_released g)"
  note M = addReservationReference_marked [OF 1] addReservationReference_marked [OF 2]
    combine_marked [OF 3]
  have l: "l1 = RefLease ?n r1 o1" "l2 = RefLease (?n + 1) r2 o2" by (simp_all add: M)
  show "c = CombinedLease (?n + 2) [RefLease ?n r1 o1, RefLease (?n + 1) r2 o2]"
    by (simp add: M(11) M(5) M(10) l)
  have "ledger g2 (l2 # l1 # L)"
    using ledger_add_reference [OF ledger_add_reference [OF inv 1] 2] .
  moreover have "\<not> is_marked ?n g2" "\<not> is_marked (?n + 1) g2"
    by (simp_all add: M is_marked_def [of _ g])
  ultimately show "ledger g3 (c # L)"
    using 3 unfolding l by (blast intro: ledger_combine)
  show "is_marked f g3 = is_marked f g" "limit_of r g3 = limit_of r g" "gov_debt g3 = gov_debt g"
    by (simp_all add: M)
qed

subsection \<open>The limits are kept\<close>

lemma finite_admitted: "finite (admitted g L r)"
proof (rule finite_subset)
  show "admitted g L r \<subseteq> (\<lambda>(f, r, owner). owner) ` set (all_leaves L)"
    by (force simp: admitted_def all_leaves_def)
qed simp

lemma held_pos: "0 < held g ls r owner \<longleftrightarrow> (\<exists>f. (f, r, owner) \<in> set ls \<and> \<not> is_marked f g)"
  by (auto simp: held_def filter_empty_conv)

lemma has_iff_held: "exact g ls \<Longrightarrow> om_has (table r g) owner \<longleftrightarrow> 0 < held g ls r owner"
  by (auto simp: exact_def om_has_get)

lemma table_keys_admitted:
  assumes inv: "ledger g L" and "gov_debt g \<le> 0"
  shows "set (map fst (table r g)) = admitted g L r"
proof -
  note D = inv [unfolded ledger_def]
  have paid: "is_marked (top_flag l) g" if "l \<in> set L" "is_debt l" for l
    using D assms(2) that by (auto simp: live_debts_def filter_empty_conv)
  have "om_has (table r g) owner \<longleftrightarrow> owner \<in> admitted g L r" for owner
  proof -
    have "om_has (table r g) owner \<longleftrightarrow>
        (\<exists>l \<in> set L. \<exists>f. (f, r, owner) \<in> set (leaves l) \<and> \<not> is_marked f g)"
    proof -
      have "om_has (table r g) owner \<longleftrightarrow> (\<exists>f. (f, r, owner) \<in> set (all_leaves L) \<and> \<not> is_marked f g)"
        using D has_iff_held held_pos by blast
      then show ?thesis unfolding all_leaves_def set_concat set_map by blast
    qed
    moreover have "\<not> is_debt l" if "l \<in> set L" "(f, r, owner) \<in> set (leaves l)" "\<not> is_marked f g" for l f
      using that paid [of l] D leaves_subset [of f r owner l] by (auto simp: uniform_def)
    ultimately show ?thesis by (auto simp: admitted_def)
  qed
  then show ?thesis by (auto simp: om_has_def)
qed

lemma table_length_admitted:
  assumes "ledger g L" and "gov_debt g \<le> 0"
  shows "length (table r g) = card (admitted g L r)"
proof -
  have "distinct (map fst (table r g))"
    using assms(1) by (simp add: ledger_def exact_def om_wf_def)
  then show ?thesis
    using table_keys_admitted [OF assms, of r] distinct_card [of "map fst (table r g)"] by simp
qed

lemma admitted_Cons:
  assumes "\<And>f. is_marked f g' = is_marked f g"
  shows "admitted g' (l # L) r = admitted g L r \<union>
    {owner. \<not> is_debt l \<and> (\<exists>f. (f, r, owner) \<in> set (leaves l) \<and> \<not> is_marked f g)}"
  by (auto simp: admitted_def assms)

lemma room_for_owner:
  assumes "ledger g L" and "capped g L" and "assertCapacity r owner g = Inr u"
  shows "int (card (insert owner (admitted g L r))) \<le> limit_of r g"
proof -
  have d: "gov_debt g \<le> 0"
    and room: "om_has (table r g) owner \<or> int (length (table r g)) < limit_of r g"
    using assms(3) by (auto simp: assertCapacity_def split: if_splits)
  show ?thesis
  proof (cases "om_has (table r g) owner")
    case True
    then have "insert owner (admitted g L r) = admitted g L r"
      using table_keys_admitted [OF assms(1) d, of r] by (auto simp: om_has_def)
    with assms(2) show ?thesis by (simp add: capped_def)
  next
    case False
    with room table_length_admitted [OF assms(1) d, of r] show ?thesis
      by (simp add: card_insert_if finite_admitted)
  qed
qed

lemma capped_reserve:
  assumes "ledger g L" and "capped g L" and "reserve r owner g = Inr (l, g')"
  shows "ledger g' (l # L) \<and> capped g' (l # L)"
proof
  have cap: "assertCapacity r owner g = Inr ()" and add: "addReservationReference r owner g = (l, g')"
    using assms(3) by (auto simp: reserve_def bind_result_Inr)
  show "ledger g' (l # L)" using assms(1) add by (rule ledger_add_reference)
  note M = addReservationReference_marked [OF add]
  have "admitted g' (l # L) r0 = (if r0 = r then insert owner (admitted g L r) else admitted g L r0)" for r0
    using unmarked_beyond [of g] by (subst admitted_Cons [OF M(2)]) (auto simp: M(1))
  with room_for_owner [OF assms(1,2) cap] assms(2) show "capped g' (l # L)"
    by (simp add: capped_def M(3))
qed

lemma assertCapacity_other:
  assumes "addReservationReference SessionResource s g = (l, g')"
  shows "assertCapacity ProcessResource p g' = assertCapacity ProcessResource p g"
  using assms
  by (auto simp: addReservationReference_def new_flag_def assertCapacity_def Let_def)

text \<open>
  The second check of the process slot inside \<open>reservePiProcess\<close> repeats a check that has just
  passed, so its catch block is never entered and a refused call leaves the governor as it was.
\<close>

lemma reservePiProcess_cases:
  obtains (refused) e where "reservePiProcess s p g = Inl (e, g)"
  | (granted) s' p' l1 g1 l2 g2 where
    "requireOwner s ''sessionId'' = Inr s'" "requireOwner p ''processId'' = Inr p'"
    "assertCapacity SessionResource s' g = Inr ()"
    "assertCapacity ProcessResource (''pi:'' @ p') g = Inr ()"
    "addReservationReference SessionResource s' g = (l1, g1)"
    "addReservationReference ProcessResource (''pi:'' @ p') g1 = (l2, g2)"
    "reservePiProcess s p g = Inr (combine [l1, l2] g2)"
proof (cases "\<exists>s' p'. requireOwner s ''sessionId'' = Inr s' \<and> requireOwner p ''processId'' = Inr p' \<and>
    assertCapacity SessionResource s' g = Inr () \<and>
    assertCapacity ProcessResource (''pi:'' @ p') g = Inr ()")
  case True
  then obtain s' p' where
    r: "requireOwner s ''sessionId'' = Inr s'" "requireOwner p ''processId'' = Inr p'"
      "assertCapacity SessionResource s' g = Inr ()"
      "assertCapacity ProcessResource (''pi:'' @ p') g = Inr ()" by blast
  obtain l1 g1 where 1: "addReservationReference SessionResource s' g = (l1, g1)" by force
  obtain l2 g2 where 2: "addReservationReference ProcessResource (''pi:'' @ p') g1 = (l2, g2)" by force
  have "assertCapacity ProcessResource (''pi:'' @ p') g1 = Inr ()"
    using assertCapacity_other [OF 1] r(4) by simp
  with r 1 2 have "reservePiProcess s p g = Inr (combine [l1, l2] g2)"
    by (simp add: reservePiProcess_def reserve_def)
  with r 1 2 show ?thesis by (rule granted)
next
  case False
  then have "\<exists>e. reservePiProcess s p g = Inl (e, g)"
    unfolding reservePiProcess_def
    by (cases "requireOwner s ''sessionId''"; cases "requireOwner p ''processId''";
        auto split: sum.split)
  with refused show ?thesis by blast
qed

lemma reservePiProcess_Inl: "reservePiProcess s p g = Inl (e, g') \<Longrightarrow> g' = g"
  by (cases s p g rule: reservePiProcess_cases) simp_all

lemma capped_pi:
  assumes inv: "ledger g L" "capped g L" and r: "reservePiProcess s p g = Inr (l, g')"
  shows "ledger g' (l # L) \<and> capped g' (l # L)"
proof -
  obtain s' p' l1 g1 l2 g2 where
    cs: "assertCapacity SessionResource s' g = Inr ()"
    and cp: "assertCapacity ProcessResource (''pi:'' @ p') g = Inr ()"
    and 1: "addReservationReference SessionResource s' g = (l1, g1)"
    and 2: "addReservationReference ProcessResource (''pi:'' @ p') g1 = (l2, g2)"
    and 3: "combine [l1, l2] g2 = (l, g')"
    using r by (cases s p g rule: reservePiProcess_cases) auto
  note T = ledger_two_slots [OF inv(1) 1 2 3]
  have "admitted g' (l # L) r = (if r = SessionResource then insert s' (admitted g L r)
      else insert (''pi:'' @ p') (admitted g L r))" for r
    by (subst admitted_Cons [OF T(3)]; cases r) (auto simp: T(2) is_marked_def)
  moreover have "int (card (insert s' (admitted g L SessionResource))) \<le> limit_of SessionResource g"
    and "int (card (insert (''pi:'' @ p') (admitted g L ProcessResource))) \<le> limit_of ProcessResource g"
    using room_for_owner [OF inv cs] room_for_owner [OF inv cp] by auto
  ultimately have "int (card (admitted g' (l # L) r)) \<le> limit_of r g'" for r
    by (cases r) (simp_all add: T(4) del: limit_of.simps)
  with T(1) show ?thesis by (simp add: capped_def)
qed

lemma capped_existing:
  assumes inv: "ledger g L" "capped g L" and r: "accountForExistingPiProcess s p g = Inr (l, g')"
  shows "ledger g' (l # L) \<and> capped g' (l # L)"
proof -
  obtain s' p' l1 g1 l2 g2 c g3 d where
    1: "addReservationReference SessionResource s' g = (l1, g1)"
    and 2: "addReservationReference ProcessResource (''pi:'' @ p') g1 = (l2, g2)"
    and 3: "combine [l1, l2] g2 = (c, g3)"
    and 4: "new_flag (g3\<lparr>gov_debt := gov_debt g3 + 1\<rparr>) = (d, g')" and l: "l = DebtLease d c"
  proof -
    from r obtain s' p' where
      q: "(let (sessionLease, g1) = addReservationReference SessionResource s' g;
           (processLease, g2) = addReservationReference ProcessResource (''pi:'' @ p') g1;
           (resourceLease, g3) = combine [sessionLease, processLease] g2;
           (flag, g4) = new_flag (g3\<lparr>gov_debt := gov_debt g3 + 1\<rparr>)
       in Inr (DebtLease flag resourceLease, g4)) = (Inr (l, g') :: governor_error + _)"
      unfolding accountForExistingPiProcess_def bind_result_Inr by blast
    obtain l1 g1 where 1: "addReservationReference SessionResource s' g = (l1, g1)" by force
    obtain l2 g2 where 2: "addReservationReference ProcessResource (''pi:'' @ p') g1 = (l2, g2)" by force
    obtain c g3 where 3: "combine [l1, l2] g2 = (c, g3)" by force
    obtain d g4 where 4: "new_flag (g3\<lparr>gov_debt := gov_debt g3 + 1\<rparr>) = (d, g4)" by force
    from q 4 have "g4 = g'" "l = DebtLease d c" by (simp_all add: 1 2 [simplified] 3)
    with 1 2 3 4 show ?thesis by (intro that) simp_all
  qed
  note T = ledger_two_slots [OF inv(1) 1 2 3]
  have "ledger g' (l # L)" unfolding l
  proof (rule ledger_debt [OF T(1) T(2) _ 4])
    show "\<not> is_marked (length (gov_released g) + 2) g3" unfolding T(3) by (simp add: is_marked_def)
  qed
  moreover have g': "g' = g3\<lparr>gov_debt := gov_debt g3 + 1, gov_released := gov_released g3 @ [False]\<rparr>"
    using 4 by (simp add: new_flag_def)
  have "is_marked f g' = is_marked f g" for f
    using new_flag_marked [of f "g3\<lparr>gov_debt := gov_debt g3 + 1\<rparr>"] T(3) [of f] by (simp add: g')
  then have "admitted g' (l # L) r = admitted g L r" for r
    by (subst admitted_Cons) (auto simp: l)
  moreover have "limit_of r g' = limit_of r g" for r
    using T(4) [of r] by (cases r) (simp_all add: g')
  ultimately show ?thesis using inv(2) by (simp add: capped_def)
qed

lemma capped_release: "capped g L \<Longrightarrow> capped (release l g) L"
proof -
  assume c: "capped g L"
  have "admitted (release l g) L r \<subseteq> admitted g L r" for r
    using release_marked by (fastforce simp: admitted_def)
  then have "card (admitted (release l g) L r) \<le> card (admitted g L r)" for r
    by (simp add: card_mono finite_admitted)
  then have "int (card (admitted (release l g) L r)) \<le> int (card (admitted g L r))" for r
    by simp
  with c show ?thesis unfolding capped_def release_limit using order_trans by blast
qed

lemma history_ledger: "history g L \<Longrightarrow> ledger g L \<and> capped g L"
proof (induction rule: history.induct)
  case (start ms mp g)
  then have "gov_sessions g = []" "gov_processes g = []" "gov_debt g = 0" "0 \<le> limit_of r g" for r
    by (cases r; auto simp: new_governor_def positiveInteger_def bind_result_Inr split: if_splits)+
  moreover then have "table r g = []" for r by (cases r) auto
  ultimately show ?case
    by (auto simp: ledger_def capped_def all_flags_def all_leaves_def exact_def held_def live_debts_def
        admitted_def)
next
  case (session g L s l g')
  then show ?case by (auto simp: reserveSession_def bind_result_Inr dest: capped_reserve)
next
  case (managed g L k p l g')
  then show ?case by (auto simp: reserveManagedProcess_def bind_result_Inr dest: capped_reserve)
qed (auto dest: reservePiProcess_Inl capped_pi capped_existing intro: capped_release ledger_release)

section \<open>Properties\<close>

text \<open>
  C5. In every history of calls, including repeated releases of the same lease, the tables hold
  exactly the owners with unreleased references and count those references, the debt counter is the
  number of unreleased debt leases, and whenever no debt is outstanding the numbers reported by
  \<open>snapshot\<close> are within the configured limits.
\<close>

theorem governor_accounts_exactly:
  assumes "history g L"
  shows "(\<forall>r owner. om_get (table r g) owner =
      (if held g (all_leaves L) r owner = 0 then None else Some (int (held g (all_leaves L) r owner))))
    \<and> gov_debt g = int (live_debts g L)
    \<and> (gov_debt g = 0 \<longrightarrow>
      concurrentSessions (governor_snapshot g) \<le> sessionLimit (governor_snapshot g) \<and>
      managedProcesses (governor_snapshot g) \<le> processLimit (governor_snapshot g))"
proof (intro conjI allI impI)
  have inv: "ledger g L" "capped g L" using history_ledger [OF assms] by auto
  then show "gov_debt g = int (live_debts g L)" and "om_get (table r g) owner =
      (if held g (all_leaves L) r owner = 0 then None else Some (int (held g (all_leaves L) r owner)))" for r owner
    by (auto simp: ledger_def exact_def)
  assume "gov_debt g = 0"
  then have "int (length (table r g)) \<le> limit_of r g" for r
    using table_length_admitted [OF inv(1)] inv(2) by (simp add: capped_def)
  from this [of SessionResource] this [of ProcessResource]
  show "concurrentSessions (governor_snapshot g) \<le> sessionLimit (governor_snapshot g)"
    "managedProcesses (governor_snapshot g) \<le> processLimit (governor_snapshot g)"
    by (simp_all add: governor_snapshot_def)
qed

text \<open>A history with one session reserved twice and released twice by the same lease.\<close>

definition sample_governor :: governor where
  "sample_governor = \<lparr>gov_sessions = [], gov_processes = [], gov_debt = 0,
     gov_sessionLimit = 1, gov_processLimit = 2, gov_released = []\<rparr>"

lemma sample_history: "history sample_governor []"
  by (rule history.start [of "JNumber (JInt 1)" "JNumber (JInt 2)"]) code_simp

definition sample_shared :: governor where
  "sample_shared = \<lparr>gov_sessions = [(''a'', 2)], gov_processes = [], gov_debt = 0,
     gov_sessionLimit = 1, gov_processLimit = 2, gov_released = [False, False]\<rparr>"

lemma sample_shared_history:
  "history sample_shared [RefLease 1 SessionResource ''a'', RefLease 0 SessionResource ''a'']"
proof -
  have "history (sample_governor\<lparr>gov_sessions := [(''a'', 1)], gov_released := [False]\<rparr>)
      [RefLease 0 SessionResource ''a'']"
    by (rule history.session [OF sample_history, of "''a ''"]) code_simp
  then show ?thesis by (rule history.session [where s = "''a''"]) code_simp
qed

definition sample_released :: governor where
  "sample_released = \<lparr>gov_sessions = [(''a'', 1)], gov_processes = [], gov_debt = 0,
     gov_sessionLimit = 1, gov_processLimit = 2, gov_released = [True, False]\<rparr>"

lemma sample_released_history:
  "history sample_released [RefLease 1 SessionResource ''a'', RefLease 0 SessionResource ''a'']"
proof -
  have "release (RefLease 0 SessionResource ''a'') (release (RefLease 0 SessionResource ''a'') sample_shared)
      = sample_released" by code_simp
  moreover have "history (release (RefLease 0 SessionResource ''a'')
      (release (RefLease 0 SessionResource ''a'') sample_shared))
      [RefLease 1 SessionResource ''a'', RefLease 0 SessionResource ''a'']"
    by (intro history.give_back sample_shared_history) simp_all
  ultimately show ?thesis by simp
qed

theorem governor_accounts_exactly_witness:
  "om_get (table SessionResource sample_released) ''a'' = Some 1 \<and>
   gov_debt sample_released = 0 \<and>
   concurrentSessions (governor_snapshot sample_released) \<le> 1"
proof -
  have 1: "held sample_released (all_leaves
      [RefLease 1 SessionResource ''a'', RefLease 0 SessionResource ''a'']) SessionResource ''a'' = 1"
    and 2: "live_debts sample_released
      [RefLease 1 SessionResource ''a'', RefLease 0 SessionResource ''a''] = 0"
    and 3: "sessionLimit (governor_snapshot sample_released) = 1" by code_simp+
  note P = governor_accounts_exactly [OF sample_released_history]
  from conjunct1 [OF P, rule_format, of SessionResource "''a''", unfolded 1]
  have "om_get (table SessionResource sample_released) ''a'' = Some 1" by simp
  moreover from conjunct1 [OF conjunct2 [OF P], unfolded 2]
  have "gov_debt sample_released = 0" by simp
  moreover from conjunct2 [OF conjunct2 [OF P], unfolded 3] calculation(2)
  have "concurrentSessions (governor_snapshot sample_released) \<le> 1" by simp
  ultimately show ?thesis by simp
qed

text \<open>
  Fail closed. While a lease for a process that was found running is unreleased, every normal
  reservation is refused whatever the limits are. A refused \<open>reservePiProcess\<close> never leaves one of its
  two slots reserved: it returns the state it was given.
\<close>

theorem debt_blocks_reservations:
  assumes "history g L" and "d \<in> set L" and "is_debt d" and "\<not> is_marked (top_flag d) g"
  shows "(\<exists>e. reserveSession s g = Inl e) \<and> (\<exists>e. reserveManagedProcess k p g = Inl e) \<and>
    (\<exists>e. reservePiProcess s p g = Inl (e, g))"
proof (intro conjI)
  have "0 < live_debts g L"
    using assms(2-4) by (auto simp: live_debts_def filter_empty_conv)
  then have "gov_debt g > 0"
    using history_ledger [OF assms(1)] by (simp add: ledger_def)
  then have closed: "assertCapacity r owner g = Inl (ResourceLimitError r (limit_of r g))" for r owner
    by (simp add: assertCapacity_def)
  show "\<exists>e. reserveSession s g = Inl e" "\<exists>e. reserveManagedProcess k p g = Inl e"
    by (auto simp: reserveSession_def reserveManagedProcess_def requireOwner_def reserve_def closed Let_def)
  show "\<exists>e. reservePiProcess s p g = Inl (e, g)"
    by (cases s p g rule: reservePiProcess_cases) (auto simp: closed)
qed

definition sample_debt :: "lease \<times> governor" where
  "sample_debt = (DebtLease 3 (CombinedLease 2
       [RefLease 0 SessionResource ''a'', RefLease 1 ProcessResource ''pi:p'']),
     \<lparr>gov_sessions = [(''a'', 1)], gov_processes = [(''pi:p'', 1)], gov_debt = 1,
      gov_sessionLimit = 1, gov_processLimit = 2, gov_released = [False, False, False, False]\<rparr>)"

lemma sample_debt_history: "history (snd sample_debt) [fst sample_debt]"
proof -
  have "accountForExistingPiProcess ''a'' ''p'' sample_governor = Inr (fst sample_debt, snd sample_debt)"
    by code_simp
  with sample_history show ?thesis by (rule history.existing)
qed

theorem debt_blocks_reservations_witness:
  "\<exists>e. reservePiProcess ''a'' ''q'' (snd sample_debt) = Inl (e, snd sample_debt)"
proof -
  have "is_debt (fst sample_debt)" "\<not> is_marked (top_flag (fst sample_debt)) (snd sample_debt)"
    by code_simp+
  from debt_blocks_reservations [OF sample_debt_history _ this, of "''a''" Pi "''q''"] show ?thesis by simp
qed

text \<open>
  Nothing leaks. From any reachable state, releasing the leases handed out, in any order and
  with any repetitions as long as each is released at least once, empties both tables and the debt;
  releasing any of them again changes nothing.
\<close>

theorem releasing_all_empties:
  assumes "history g L" and "set ms = set L" and "set ns \<subseteq> set L"
  shows "gov_sessions (fold release ms g) = [] \<and> gov_processes (fold release ms g) = [] \<and>
    gov_debt (fold release ms g) = 0 \<and> fold release ns (fold release ms g) = fold release ms g"
proof (intro conjI)
  let ?g = "fold release ms g"
  have run: "history (fold release xs g') L" if "history g' L" "set xs \<subseteq> set L" for xs g'
    using that by (induction xs arbitrary: g') (auto intro: history.give_back)
  then have hist: "history ?g L" using assms by simp
  have issued: "\<forall>l \<in> set L. top_flag l < length (gov_released g)"
    using history_ledger [OF assms(1)] ledger_flag_less top_flag_in by blast
  show "fold release ns ?g = ?g"
    using gov.settle_all_again [of ms g ns] issued assms(2,3) by (simp add: gov.settle_all_def)
  have "\<forall>l \<in> set L. is_marked (top_flag l) ?g"
    using gov.settle_all_marks [of _ ms g] issued assms(2) by (simp add: gov.settle_all_def)
  with history_ledger [OF hist] have marked: "\<forall>l \<in> set L. \<forall>f \<in> set (flags_of l). is_marked f ?g"
    by (auto simp: ledger_def uniform_def)
  have "held ?g (all_leaves L) r owner = 0" for r owner
    using marked held_pos [of ?g "all_leaves L"] leaves_subset by (fastforce simp: all_leaves_def)
  then have none: "om_get (table r ?g) owner = None" for r owner
    using history_ledger [OF hist] by (simp add: ledger_def exact_def)
  have "table r ?g = []" for r
  proof (cases "table r ?g")
    case (Cons p t)
    then have "om_get (table r ?g) (fst p) \<noteq> None" by (cases p) (simp add: om_get_def)
    with none show ?thesis by simp
  qed
  from this [of SessionResource] this [of ProcessResource]
  show "gov_sessions ?g = []" "gov_processes ?g = []" by simp_all
  have "live_debts ?g L = 0"
    using marked top_flag_in by (auto simp: live_debts_def filter_empty_conv)
  then show "gov_debt ?g = 0" using history_ledger [OF hist] by (simp add: ledger_def)
qed

theorem releasing_all_empties_witness:
  "gov_sessions (fold release [fst sample_debt, fst sample_debt] (snd sample_debt)) = [] \<and>
   gov_debt (fold release [fst sample_debt, fst sample_debt] (snd sample_debt)) = 0"
  using releasing_all_empties [OF sample_debt_history,
      of "[fst sample_debt, fst sample_debt]" "[]"] by simp

end
