(* ===== verification/Plan_Policy.thy ===== *)
theory Plan_Policy
  imports Prelude
begin

text \<open>
  The plan mode policy (web/server/pi-plan-policy.ts): the tiny shell that plan mode accepts, the
  allowlist of read-only commands and their options, and the decision for a tool call.

  The policy tables are JavaScript object literals that are read with a computed key, so a key of
  \<open>Object.prototype\<close> is found in every table: the value is an object without policy members (an
  empty policy) or, as the kind of an option value, something that is none of the three kinds. The
  model keeps this (\<open>prototype_keys\<close>, \<open>InheritedKind\<close>). Calling \<open>replaceAll\<close> on such a kind throws.

  The texts of the refusals are values of \<open>reason\<close>.
\<close>

section \<open>Policies\<close>

datatype option_kind = NonEmpty | NonNegativeInteger | PositiveInteger | InheritedKind

record command_policy =
  shortFlags :: "string option"
  shortValues :: "(string \<times> option_kind) list option"
  longFlags :: "string list option"
  longValues :: "(string \<times> option_kind) list option"
  minOperands :: "nat option"
  maxOperands :: "nat option"

datatype reason =
    OneCommandLine | BackslashEscaping | DynamicExpansion | ConditionalLists | EmptyPipelineCommand
  | UnclassifiedSyntax | AmbiguousQuoting
  | UnsafeOption string string
  | InvalidOptionValue string
  | OperandCount string
  | FindInteger string | FindType | FindValue string
  | UserSpaceReadPath | UserSpaceReadArguments | UserSpacePipeline | UserSpaceMetadataUnknown
  | UserSpaceMetadataNotListed string | UserSpaceAction | UserSpaceLiteral | UserSpacePiped
  | NotReadOnly string

text \<open>A decision, or the TypeError of calling a string method on an inherited value.\<close>

datatype decision = Allow "string list list option" | Refuse reason | Throws

definition prototype_keys :: "string list" where
  "prototype_keys =
     [''constructor'', ''__defineGetter__'', ''__defineSetter__'', ''hasOwnProperty'',
      ''__lookupGetter__'', ''__lookupSetter__'', ''isPrototypeOf'', ''propertyIsEnumerable'',
      ''toString'', ''valueOf'', ''__proto__'', ''toLocaleString'']"

text \<open>\<open>table[key]\<close> on an object literal: an own member, else an inherited one.\<close>

definition literal_lookup :: "(string \<times> 'a) list \<Rightarrow> 'a \<Rightarrow> string \<Rightarrow> 'a option" where
  "literal_lookup tbl inherited key =
     (case map_of tbl key of
        Some v \<Rightarrow> Some v
      | None \<Rightarrow> if key \<in> set prototype_keys then Some inherited else None)"

definition empty_policy :: command_policy where
  "empty_policy = \<lparr>shortFlags = None, shortValues = None, longFlags = None, longValues = None,
     minOperands = None, maxOperands = None\<rparr>"

definition pwd_policy :: command_policy where
  "pwd_policy =
     \<lparr>shortFlags = Some ''LP'',
      shortValues = None,
      longFlags = Some [''logical'', ''physical''],
      longValues = None,
      minOperands = None, maxOperands = Some 0\<rparr>"

definition ls_policy :: command_policy where
  "ls_policy =
     \<lparr>shortFlags = Some ''1AaCdfFghiLlnopqRrstux'',
      shortValues = None,
      longFlags = None,
      longValues = None,
      minOperands = None, maxOperands = None\<rparr>"

definition cat_policy :: command_policy where
  "cat_policy =
     \<lparr>shortFlags = Some ''AbEnstTuv'',
      shortValues = None,
      longFlags = Some [''number-nonblank'', ''show-ends'', ''number'', ''squeeze-blank'',
              ''show-tabs'', ''show-nonprinting'', ''show-all''],
      longValues = None,
      minOperands = None, maxOperands = None\<rparr>"

definition head_policy :: command_policy where
  "head_policy =
     \<lparr>shortFlags = Some ''qv'',
      shortValues = Some [(''c'', NonEmpty), (''n'', NonEmpty)],
      longFlags = Some [''quiet'', ''silent'', ''verbose''],
      longValues = Some [(''bytes'', NonEmpty), (''lines'', NonEmpty)],
      minOperands = None, maxOperands = None\<rparr>"

definition tail_policy :: command_policy where
  "tail_policy =
     \<lparr>shortFlags = Some ''qv'',
      shortValues = Some [(''c'', NonEmpty), (''n'', NonEmpty)],
      longFlags = Some [''quiet'', ''silent'', ''verbose''],
      longValues = Some [(''bytes'', NonEmpty), (''lines'', NonEmpty)],
      minOperands = None, maxOperands = None\<rparr>"

definition wc_policy :: command_policy where
  "wc_policy =
     \<lparr>shortFlags = Some ''cLlmw'',
      shortValues = None,
      longFlags = Some [''bytes'', ''chars'', ''lines'', ''max-line-length'', ''words''],
      longValues = None,
      minOperands = None, maxOperands = None\<rparr>"

definition stat_policy :: command_policy where
  "stat_policy =
     \<lparr>shortFlags = Some ''Lft'',
      shortValues = Some [(''c'', NonEmpty)],
      longFlags = Some [''dereference'', ''file-system'', ''terse''],
      longValues = Some [(''format'', NonEmpty), (''printf'', NonEmpty)],
      minOperands = Some 1, maxOperands = None\<rparr>"

definition file_policy :: command_policy where
  "file_policy =
     \<lparr>shortFlags = Some ''bikL'',
      shortValues = None,
      longFlags = Some [''brief'', ''keep-going'', ''mime'', ''dereference''],
      longValues = None,
      minOperands = Some 1, maxOperands = None\<rparr>"

definition du_policy :: command_policy where
  "du_policy =
     \<lparr>shortFlags = Some ''achkLmPsx'',
      shortValues = Some [(''d'', NonNegativeInteger)],
      longFlags = Some [''all'', ''total'', ''human-readable'', ''kilobytes'',
              ''dereference-command-line'', ''count-links'', ''megabytes'',
              ''no-dereference'', ''summarize'', ''one-file-system''],
      longValues = Some [(''max-depth'', NonNegativeInteger)],
      minOperands = None, maxOperands = None\<rparr>"

definition df_policy :: command_policy where
  "df_policy =
     \<lparr>shortFlags = Some ''ahHiklPT'',
      shortValues = None,
      longFlags = Some [''all'', ''human-readable'', ''si'', ''inodes'', ''kilobytes'', ''local'',
              ''portability'', ''print-type''],
      longValues = None,
      minOperands = None, maxOperands = None\<rparr>"

definition grep_policy :: command_policy where
  "grep_policy =
     \<lparr>shortFlags = Some ''EFGHhIiLlnoqRrsvVwxZz'',
      shortValues = Some [(''A'', NonNegativeInteger), (''B'', NonNegativeInteger),
              (''C'', NonNegativeInteger), (''e'', NonEmpty), (''f'', NonEmpty),
              (''m'', PositiveInteger)],
      longFlags = Some [''basic-regexp'', ''extended-regexp'', ''fixed-strings'', ''perl-regexp'',
              ''with-filename'', ''no-filename'', ''ignore-case'',
              ''files-with-matches'', ''files-without-match'', ''line-number'',
              ''only-matching'', ''quiet'', ''silent'', ''recursive'',
              ''dereference-recursive'', ''no-messages'', ''invert-match'',
              ''line-regexp'', ''word-regexp'', ''null'', ''null-data''],
      longValues = Some [(''after-context'', NonNegativeInteger),
              (''before-context'', NonNegativeInteger),
              (''context'', NonNegativeInteger), (''regexp'', NonEmpty),
              (''file'', NonEmpty), (''max-count'', PositiveInteger)],
      minOperands = Some 1, maxOperands = None\<rparr>"

definition rg_policy :: command_policy where
  "rg_policy =
     \<lparr>shortFlags = Some ''FHILlnNqsuUvwx'',
      shortValues = Some [(''A'', NonNegativeInteger), (''B'', NonNegativeInteger),
              (''C'', NonNegativeInteger), (''e'', NonEmpty), (''f'', NonEmpty),
              (''g'', NonEmpty), (''m'', PositiveInteger), (''t'', NonEmpty),
              (''T'', NonEmpty)],
      longFlags = Some [''files'', ''files-with-matches'', ''files-without-match'',
              ''fixed-strings'', ''hidden'', ''ignore-case'', ''invert-match'',
              ''line-number'', ''no-filename'', ''no-ignore'', ''no-messages'',
              ''only-matching'', ''quiet'', ''smart-case'', ''text'', ''trim'',
              ''unrestricted'', ''with-filename'', ''word-regexp''],
      longValues = Some [(''after-context'', NonNegativeInteger),
              (''before-context'', NonNegativeInteger),
              (''context'', NonNegativeInteger), (''regexp'', NonEmpty),
              (''file'', NonEmpty), (''glob'', NonEmpty),
              (''max-count'', PositiveInteger), (''type'', NonEmpty),
              (''type-not'', NonEmpty)],
      minOperands = None, maxOperands = None\<rparr>"

definition tree_policy :: command_policy where
  "tree_policy =
     \<lparr>shortFlags = Some ''adfhipsDF'',
      shortValues = Some [(''L'', NonNegativeInteger)],
      longFlags = Some [''dirsfirst'', ''noreport''],
      longValues = Some [(''charset'', NonEmpty), (''filelimit'', NonNegativeInteger)],
      minOperands = None, maxOperands = None\<rparr>"

definition sort_policy :: command_policy where
  "sort_policy =
     \<lparr>shortFlags = Some ''bdfghiMnrRsuVz'',
      shortValues = Some [(''k'', NonEmpty), (''t'', NonEmpty)],
      longFlags = Some [''dictionary-order'', ''general-numeric-sort'', ''human-numeric-sort'',
              ''ignore-case'', ''ignore-leading-blanks'', ''ignore-nonprinting'',
              ''month-sort'', ''numeric-sort'', ''random-sort'', ''reverse'',
              ''stable'', ''unique'', ''version-sort'', ''zero-terminated''],
      longValues = Some [(''field-separator'', NonEmpty), (''key'', NonEmpty)],
      minOperands = None, maxOperands = None\<rparr>"

definition uniq_policy :: command_policy where
  "uniq_policy =
     \<lparr>shortFlags = Some ''cdiuDz'',
      shortValues = Some [(''f'', NonNegativeInteger), (''s'', NonNegativeInteger),
              (''w'', PositiveInteger)],
      longFlags = Some [''count'', ''repeated'', ''all-repeated'', ''ignore-case'', ''unique'',
              ''zero-terminated''],
      longValues = Some [(''skip-fields'', NonNegativeInteger),
              (''skip-chars'', NonNegativeInteger), (''check-chars'', PositiveInteger)],
      minOperands = None, maxOperands = Some 1\<rparr>"

definition cut_policy :: command_policy where
  "cut_policy =
     \<lparr>shortFlags = Some ''nsz'',
      shortValues = Some [(''b'', NonEmpty), (''c'', NonEmpty), (''d'', NonEmpty), (''f'', NonEmpty)],
      longFlags = Some [''complement'', ''only-delimited'', ''zero-terminated''],
      longValues = Some [(''bytes'', NonEmpty), (''characters'', NonEmpty),
              (''delimiter'', NonEmpty), (''fields'', NonEmpty),
              (''output-delimiter'', NonEmpty)],
      minOperands = None, maxOperands = None\<rparr>"

definition tr_policy :: command_policy where
  "tr_policy =
     \<lparr>shortFlags = Some ''cCdst'',
      shortValues = None,
      longFlags = Some [''complement'', ''delete'', ''squeeze-repeats'', ''truncate-set1''],
      longValues = None,
      minOperands = Some 1, maxOperands = Some 2\<rparr>"

definition basename_policy :: command_policy where
  "basename_policy =
     \<lparr>shortFlags = Some ''az'',
      shortValues = Some [(''s'', NonEmpty)],
      longFlags = Some [''multiple'', ''zero''],
      longValues = Some [(''suffix'', NonEmpty)],
      minOperands = Some 1, maxOperands = None\<rparr>"

definition dirname_policy :: command_policy where
  "dirname_policy =
     \<lparr>shortFlags = Some ''z'',
      shortValues = None,
      longFlags = Some [''zero''],
      longValues = None,
      minOperands = Some 1, maxOperands = None\<rparr>"

definition realpath_policy :: command_policy where
  "realpath_policy =
     \<lparr>shortFlags = Some ''eLmPqsz'',
      shortValues = None,
      longFlags = Some [''canonicalize-existing'', ''canonicalize-missing'', ''logical'',
              ''physical'', ''quiet'', ''strip'', ''zero''],
      longValues = Some [(''relative-to'', NonEmpty), (''relative-base'', NonEmpty)],
      minOperands = Some 1, maxOperands = None\<rparr>"

definition readlink_policy :: command_policy where
  "readlink_policy =
     \<lparr>shortFlags = Some ''efmnqsvz'',
      shortValues = None,
      longFlags = Some [''canonicalize'', ''canonicalize-existing'', ''canonicalize-missing'',
              ''no-newline'', ''quiet'', ''silent'', ''verbose'', ''zero''],
      longValues = None,
      minOperands = Some 1, maxOperands = None\<rparr>"

definition READ_ONLY_COMMAND_POLICIES :: "(string \<times> command_policy) list" where
  "READ_ONLY_COMMAND_POLICIES =
     [(''pwd'', pwd_policy), (''ls'', ls_policy), (''cat'', cat_policy), (''head'', head_policy),
      (''tail'', tail_policy), (''wc'', wc_policy), (''stat'', stat_policy),
      (''file'', file_policy), (''du'', du_policy), (''df'', df_policy), (''grep'', grep_policy),
      (''rg'', rg_policy), (''tree'', tree_policy), (''sort'', sort_policy),
      (''uniq'', uniq_policy), (''cut'', cut_policy), (''tr'', tr_policy),
      (''basename'', basename_policy), (''dirname'', dirname_policy),
      (''realpath'', realpath_policy), (''readlink'', readlink_policy)]"

definition PLAN_NATIVE_TOOLS :: "string list" where
  "PLAN_NATIVE_TOOLS =
     [''read'', ''bash'', ''ask'', ''todo_write'', ''todo_read'', ''task'', ''propose_plan'',
      ''list_apps'', ''list_app_versions'']"

section \<open>Tokenising\<close>

definition single_quote :: char where
  "single_quote = char_of (39::nat)"

text \<open>Characters outside quotes that end the parse.\<close>

definition forbidden_char :: "char \<Rightarrow> bool" where
  "forbidden_char c \<longleftrightarrow> c \<in> set ''><;&`$(){}#!*?[]~''"

definition push_token :: "string list \<Rightarrow> string \<Rightarrow> string list" where
  "push_token cur token = (if length token > 0 then cur @ [token] else cur)"

text \<open>
  The loop over the characters: \<open>done\<close> and \<open>cur\<close> are \<open>commands\<close> without and with its last element,
  \<open>q\<close> is \<open>quote\<close>. The rest of the string gives the look-ahead \<open>command[index + 1]\<close>.
\<close>

fun tokenize_loop ::
  "string list list \<Rightarrow> string list \<Rightarrow> string \<Rightarrow> char option \<Rightarrow> string \<Rightarrow> decision" where
  "tokenize_loop done cur token q [] =
     (if q \<noteq> None then Refuse AmbiguousQuoting
      else if push_token cur token = [] then Refuse EmptyPipelineCommand
      else Allow (Some (done @ [push_token cur token])))"
| "tokenize_loop done cur token q (c # rest) =
     (if c = backslash then Refuse BackslashEscaping
      else
        (case q of
           Some qc \<Rightarrow>
             if c = qc then tokenize_loop done cur token None rest
             else if qc = quote_char \<and> (c = CHR ''$'' \<or> c = CHR ''`'') then Refuse DynamicExpansion
             else tokenize_loop done cur (token @ [c]) q rest
         | None \<Rightarrow>
             if c = single_quote \<or> c = quote_char then tokenize_loop done cur token (Some c) rest
             else if js_space c then tokenize_loop done (push_token cur token) [] None rest
             else if c = CHR ''|'' then
               (if rest \<noteq> [] \<and> hd rest = CHR ''|'' then Refuse ConditionalLists
                else if push_token cur token = [] then Refuse EmptyPipelineCommand
                else tokenize_loop (done @ [push_token cur token]) [] [] None rest)
             else if forbidden_char c then Refuse UnclassifiedSyntax
             else tokenize_loop done cur (token @ [c]) None rest))"

definition tokenizeReadOnlyShell :: "string \<Rightarrow> decision" where
  "tokenizeReadOnlyShell command =
     (if length (js_trim command) = 0 \<or> js_includes command nul \<or> js_includes command LF \<or>
         js_includes command CR then Refuse OneCommandLine
      else tokenize_loop [] [] [] None command)"

section \<open>Options\<close>

definition is_canonical_natural :: "string \<Rightarrow> bool" where
  "is_canonical_natural s \<longleftrightarrow>
     s = ''0'' \<or> s \<noteq> [] \<and> list_all is_digit s \<and> hd s \<noteq> CHR ''0''"

definition optionValueAllowed :: "string \<Rightarrow> option_kind \<Rightarrow> bool" where
  "optionValueAllowed v kind =
     (if kind = NonEmpty then length v > 0
      else
        (if kind = PositiveInteger then is_canonical_natural v \<and> v \<noteq> ''0'' else is_canonical_natural v) \<and>
        int (decimal_value v) \<le> max_safe_integer)"

text \<open>\<open>acceptValue\<close>: the number of further tokens it consumes, or the decision that ends the check.\<close>

definition acceptValue :: "string \<Rightarrow> option_kind \<Rightarrow> string option \<Rightarrow> string list \<Rightarrow> decision + nat" where
  "acceptValue opt kind inlineValue rest =
     (let v = (case inlineValue of Some s \<Rightarrow> Some s | None \<Rightarrow> (case rest of [] \<Rightarrow> None | t # _ \<Rightarrow> Some t));
          consumed = (if inlineValue = None then 1 else 0)
      in case v of
           Some s \<Rightarrow> if optionValueAllowed s kind then Inr consumed
                     else Inl (if kind = InheritedKind then Throws else Refuse (InvalidOptionValue opt))
         | None \<Rightarrow> Inl (if kind = InheritedKind then Throws else Refuse (InvalidOptionValue opt)))"

text \<open>The loop over the flags of a cluster such as \<open>-la\<close> or \<open>-n5\<close>.\<close>

fun cluster_loop :: "string \<Rightarrow> command_policy \<Rightarrow> string \<Rightarrow> string list \<Rightarrow> decision + nat" where
  "cluster_loop executable policy [] rest = Inr 0"
| "cluster_loop executable policy (flag # remainder) rest =
     (if (case shortFlags policy of None \<Rightarrow> False | Some fs \<Rightarrow> js_includes fs flag)
      then cluster_loop executable policy remainder rest
      else
        (case Option.bind (shortValues policy) (\<lambda>vs. literal_lookup vs InheritedKind [flag]) of
           None \<Rightarrow> Inl (Refuse (UnsafeOption executable (''-'' @ [flag])))
         | Some kind \<Rightarrow>
             acceptValue (''-'' @ [flag]) kind (if remainder = [] then None else Some remainder) rest))"

definition before_equals :: "string \<Rightarrow> string" where
  "before_equals s = takeWhile (\<lambda>c. c \<noteq> CHR ''='') s"

definition inline_value :: "string \<Rightarrow> string option" where
  "inline_value s = (if js_includes s (CHR ''='') then Some (tl (dropWhile (\<lambda>c. c \<noteq> CHR ''='') s)) else None)"

definition operand_count_ok :: "command_policy \<Rightarrow> nat \<Rightarrow> bool" where
  "operand_count_ok policy operands \<longleftrightarrow>
     \<not> (operands < (case minOperands policy of None \<Rightarrow> 0 | Some n \<Rightarrow> n) \<or>
        (case maxOperands policy of None \<Rightarrow> False | Some n \<Rightarrow> operands > n))"

text \<open>The loop over the arguments; \<open>operands\<close> and \<open>ended\<close> are the loop's variables.\<close>

function (sequential) options_loop ::
  "string \<Rightarrow> command_policy \<Rightarrow> nat \<Rightarrow> bool \<Rightarrow> string list \<Rightarrow> decision" where
  "options_loop executable policy operands ended [] =
     (if \<not> operand_count_ok policy operands then Refuse (OperandCount executable) else Allow None)"
| "options_loop executable policy operands ended (token # rest) =
     (if \<not> ended \<and> token = ''--'' then options_loop executable policy operands True rest
      else if ended \<or> token = ''-'' \<or> \<not> js_starts_with token ''-'' then
        options_loop executable policy (operands + 1) ended rest
      else if js_starts_with token ''--'' then
        (let name = before_equals (drop 2 token); inline = inline_value (drop 2 token) in
         if (case longFlags policy of None \<Rightarrow> False | Some fs \<Rightarrow> name \<in> set fs) then
           (if inline \<noteq> None then Refuse (UnsafeOption executable token)
            else options_loop executable policy operands ended rest)
         else
           (case Option.bind (longValues policy) (\<lambda>vs. literal_lookup vs InheritedKind name) of
              None \<Rightarrow> Refuse (UnsafeOption executable token)
            | Some kind \<Rightarrow>
                (case acceptValue (''--'' @ name) kind inline rest of
                   Inl d \<Rightarrow> d
                 | Inr n \<Rightarrow> options_loop executable policy operands ended (drop n rest))))
      else
        (case cluster_loop executable policy (drop 1 token) rest of
           Inl d \<Rightarrow> d
         | Inr n \<Rightarrow> options_loop executable policy operands ended (drop n rest)))"
  by pat_completeness auto
termination by (relation "measure (\<lambda>(e, p, n, b, args). length args)") auto

definition validatePolicyOptions :: "string \<Rightarrow> string list \<Rightarrow> command_policy \<Rightarrow> decision" where
  "validatePolicyOptions executable args policy = options_loop executable policy 0 False args"

section \<open>Commands with their own grammar\<close>

function (sequential) find_loop :: "bool \<Rightarrow> string list \<Rightarrow> decision" where
  "find_loop parsing [] = Allow None"
| "find_loop parsing (token # rest) =
     (if \<not> parsing \<and> \<not> js_starts_with token ''-'' then find_loop parsing rest
      else if token = ''-print'' \<or> token = ''-print0'' then find_loop True rest
      else if token = ''-maxdepth'' \<or> token = ''-mindepth'' then
        (case rest of
           [] \<Rightarrow> Refuse (FindInteger token)
         | v # rest' \<Rightarrow> if \<not> optionValueAllowed v NonNegativeInteger then Refuse (FindInteger token)
                       else find_loop True rest')
      else if token = ''-type'' then
        (case rest of
           [] \<Rightarrow> Refuse FindType
         | v # rest' \<Rightarrow> if v \<noteq> ''f'' \<and> v \<noteq> ''d'' \<and> v \<noteq> ''l'' then Refuse FindType else find_loop True rest')
      else if token = ''-name'' \<or> token = ''-iname'' \<or> token = ''-path'' \<or> token = ''-ipath'' then
        (case rest of
           [] \<Rightarrow> Refuse (FindValue token)
         | v # rest' \<Rightarrow> if v = [] then Refuse (FindValue token) else find_loop True rest')
      else Refuse (UnsafeOption ''find'' token))"
  by pat_completeness auto
termination by (relation "measure (\<lambda>(b, args). length args)") auto

definition validateFind :: "string list \<Rightarrow> decision" where
  "validateFind args = find_loop False args"

definition USER_SPACE_METADATA_POLICIES :: "(string \<times> command_policy) list" where
  "USER_SPACE_METADATA_POLICIES =
     [(''pwd'',
        \<lparr>shortFlags = None,
         shortValues = None,
         longFlags = None,
         longValues = None,
         minOperands = None, maxOperands = Some 0\<rparr>),
      (''ls'',
        \<lparr>shortFlags = Some ''1aAdFhlrRSt'',
         shortValues = None,
         longFlags = Some [''all'', ''almost-all'', ''directory'', ''classify'', ''human-readable'',
                 ''recursive'', ''reverse''],
         longValues = None,
         minOperands = None, maxOperands = None\<rparr>),
      (''stat'',
        \<lparr>shortFlags = None,
         shortValues = None,
         longFlags = None,
         longValues = None,
         minOperands = Some 1, maxOperands = None\<rparr>),
      (''file'',
        \<lparr>shortFlags = None,
         shortValues = None,
         longFlags = None,
         longValues = None,
         minOperands = Some 1, maxOperands = None\<rparr>),
      (''du'',
        \<lparr>shortFlags = None,
         shortValues = None,
         longFlags = None,
         longValues = None,
         minOperands = Some 1, maxOperands = None\<rparr>),
      (''tree'',
        \<lparr>shortFlags = Some ''adf'',
         shortValues = Some [(''L'', NonNegativeInteger)],
         longFlags = None,
         longValues = None,
         minOperands = None, maxOperands = None\<rparr>),
      (''readlink'',
        \<lparr>shortFlags = None,
         shortValues = None,
         longFlags = None,
         longValues = None,
         minOperands = Some 1, maxOperands = None\<rparr>),
      (''basename'',
        \<lparr>shortFlags = None,
         shortValues = None,
         longFlags = None,
         longValues = None,
         minOperands = Some 1, maxOperands = Some 1\<rparr>),
      (''dirname'',
        \<lparr>shortFlags = None,
         shortValues = None,
         longFlags = None,
         longValues = None,
         minOperands = Some 1, maxOperands = Some 1\<rparr>)]"

text \<open>The regular expression \<open>^[^/]+:/\<close>: the first slash stands after a colon that is not first.\<close>

definition has_scheme :: "string \<Rightarrow> bool" where
  "has_scheme s \<longleftrightarrow>
     (let head = takeWhile (\<lambda>c. c \<noteq> CHR ''/'') s
      in length head < length s \<and> length head \<ge> 2 \<and> last head = CHR '':'')"

definition isRootQualifiedUserSpacePath :: "string \<Rightarrow> bool" where
  "isRootQualifiedUserSpacePath v =
     (if v = [] \<or> js_starts_with v ''/'' \<or> js_starts_with v ''~'' \<or> js_starts_with v ''user-space:/'' \<or>
         js_includes v backslash \<or> has_scheme v then False
      else
        let parts = js_split (CHR ''/'') v
        in length parts \<ge> 2 \<and> list_all (\<lambda>part. length part > 0 \<and> part \<noteq> ''.'' \<and> part \<noteq> ''..'') parts)"

fun read_args_loop :: "string list \<Rightarrow> string list \<Rightarrow> decision" where
  "read_args_loop seen [] = Allow None"
| "read_args_loop seen [opt] = Refuse UserSpaceReadArguments"
| "read_args_loop seen (opt # v # rest) =
     (if (opt \<noteq> ''--offset'' \<and> opt \<noteq> ''--limit'') \<or> opt \<in> set seen \<or>
         \<not> optionValueAllowed v PositiveInteger then Refuse UserSpaceReadArguments
      else read_args_loop (seen @ [opt]) rest)"

definition validateUserSpaceRead :: "string list \<Rightarrow> decision" where
  "validateUserSpaceRead args =
     (case args of
        [] \<Rightarrow> Refuse UserSpaceReadPath
      | path # rest \<Rightarrow> if \<not> isRootQualifiedUserSpacePath path then Refuse UserSpaceReadPath
                        else read_args_loop [] rest)"

definition validateUserSpaceMetadata :: "string \<Rightarrow> decision" where
  "validateUserSpaceMetadata command =
     (case tokenizeReadOnlyShell command of
        Allow (Some commands) \<Rightarrow>
          if length commands \<noteq> 1 then Refuse UserSpacePipeline
          else
            (case hd commands of
               [] \<Rightarrow> Refuse UserSpaceMetadataUnknown
             | executable # args \<Rightarrow>
                 if executable = [] \<or> js_includes executable (CHR ''/'') \<or>
                    js_includes executable backslash \<or> executable = ''find'' then
                   (if executable = ''find'' then validateFind args else Refuse UserSpaceMetadataUnknown)
                 else
                   (case literal_lookup USER_SPACE_METADATA_POLICIES empty_policy executable of
                      Some policy \<Rightarrow> validatePolicyOptions executable args policy
                    | None \<Rightarrow> Refuse (UserSpaceMetadataNotListed executable)))
      | d \<Rightarrow> d)"

definition validateUserSpaceCommand :: "string list \<Rightarrow> decision" where
  "validateUserSpaceCommand tokens =
     (let action = (case drop 1 tokens of [] \<Rightarrow> None | a # _ \<Rightarrow> Some a); args = drop 2 tokens in
      if action = Some ''read'' then validateUserSpaceRead args
      else if action \<noteq> Some ''bash'' then Refuse UserSpaceAction
      else if length args = 1 \<and> hd args = ''--capabilities'' then Allow None
      else
        (case args of
           [flag, text] \<Rightarrow>
             if flag \<noteq> ''--command'' \<or> text = [] then Refuse UserSpaceLiteral
             else validateUserSpaceMetadata text
         | _ \<Rightarrow> Refuse UserSpaceLiteral))"

section \<open>Decisions\<close>

definition validateCommand :: "string list \<Rightarrow> decision" where
  "validateCommand tokens =
     (let executable = hd tokens in
      if js_includes executable (CHR ''/'') \<or> js_includes executable backslash \<or>
         js_includes executable (CHR ''='') then Refuse (NotReadOnly executable)
      else if executable = ''user-space'' then validateUserSpaceCommand tokens
      else if executable = ''find'' then validateFind (tl tokens)
      else
        (case literal_lookup READ_ONLY_COMMAND_POLICIES empty_policy executable of
           None \<Rightarrow> Refuse (NotReadOnly executable)
         | Some policy \<Rightarrow> validatePolicyOptions executable (tl tokens) policy))"

fun validate_all :: "string list list \<Rightarrow> decision option" where
  "validate_all [] = None"
| "validate_all (tokens # rest) =
     (case validateCommand tokens of Allow _ \<Rightarrow> validate_all rest | d \<Rightarrow> Some d)"

definition classifyPlanBash :: "string \<Rightarrow> decision" where
  "classifyPlanBash command =
     (case tokenizeReadOnlyShell command of
        Allow (Some commands) \<Rightarrow>
          if list_ex (\<lambda>tokens. tokens \<noteq> [] \<and> hd tokens = ''user-space'') commands \<and> length commands \<noteq> 1
          then Refuse UserSpacePiped
          else (case validate_all commands of Some d \<Rightarrow> d | None \<Rightarrow> Allow (Some commands))
      | d \<Rightarrow> d)"

datatype tool_reason =
    UnknownMode | DisabledInPlan string | McpNotReadOnly | ToolNotReadOnly | BashNotLiteral
  | BashReason reason

datatype tool_decision = ToolAllowed "(string \<times> json) list option" | Blocked tool_reason | ToolThrows

definition evaluatePiToolPolicy :: "string \<Rightarrow> string \<Rightarrow> json \<Rightarrow> json \<Rightarrow> tool_decision" where
  "evaluatePiToolPolicy mode toolName args mcpReadOnly =
     (if mode = ''agent'' then ToolAllowed None
      else if mode \<noteq> ''plan'' then Blocked UnknownMode
      else if toolName = ''write'' \<or> toolName = ''edit'' then Blocked (DisabledInPlan toolName)
      else if js_starts_with toolName ''mcp__'' then
        (if mcpReadOnly = JBool True then ToolAllowed None else Blocked McpNotReadOnly)
      else if toolName \<notin> set PLAN_NATIVE_TOOLS then Blocked ToolNotReadOnly
      else if toolName = ''task'' then ToolAllowed (Some [(''readOnly'', JBool True)])
      else if toolName = ''bash'' then
        (if \<not> is_js_string (member args ''command'') then Blocked BashNotLiteral
         else
           (case classifyPlanBash (str_of (member args ''command'')) of
              Allow _ \<Rightarrow> ToolAllowed None
            | Refuse r \<Rightarrow> Blocked (BashReason r)
            | Throws \<Rightarrow> ToolThrows))
      else ToolAllowed None)"

section \<open>What the shell makes of the text\<close>

text \<open>
  The reference for the tokeniser: the words of a pipeline as the POSIX shell sees them, for a text
  without escapes, expansions, redirections and control operators. Blanks are space and tab, and a
  pair of quotes starts a word even when nothing stands between them; \<open>w\<close> is None between words.
\<close>

definition shell_blank :: "char \<Rightarrow> bool" where
  "shell_blank c \<longleftrightarrow> of_char c \<in> {9, 32 :: nat}"

definition end_word :: "string list \<Rightarrow> string option \<Rightarrow> string list" where
  "end_word cur w = (case w of None \<Rightarrow> cur | Some t \<Rightarrow> cur @ [t])"

definition extend_word :: "string option \<Rightarrow> string \<Rightarrow> string option" where
  "extend_word w t = (case w of None \<Rightarrow> Some t | Some u \<Rightarrow> Some (u @ t))"

fun shell_words ::
  "string list list \<Rightarrow> string list \<Rightarrow> string option \<Rightarrow> char option \<Rightarrow> string \<Rightarrow> string list list option" where
  "shell_words done cur w None [] = Some (done @ [end_word cur w])"
| "shell_words done cur w (Some qc) [] = None"
| "shell_words done cur w (Some qc) (c # rest) =
     (if c = qc then shell_words done cur w None rest
      else if qc = quote_char \<and> (c = CHR ''$'' \<or> c = CHR ''`'' \<or> c = backslash) then None
      else shell_words done cur (extend_word w [c]) (Some qc) rest)"
| "shell_words done cur w None (c # rest) =
     (if c = single_quote \<or> c = quote_char then shell_words done cur (extend_word w []) (Some c) rest
      else if shell_blank c then shell_words done (end_word cur w) None None rest
      else if c = CHR ''|'' then shell_words (done @ [end_word cur w]) [] None None rest
      else if forbidden_char c \<or> c = backslash \<or> c = LF then None
      else shell_words done cur (extend_word w [c]) None rest)"

definition shell_pipeline :: "string \<Rightarrow> string list list option" where
  "shell_pipeline text = shell_words [] [] None None text"

text \<open>White space for JavaScript that is none for the shell: VT, FF and the no-break space.\<close>

definition unusual_space :: "char \<Rightarrow> bool" where
  "unusual_space c \<longleftrightarrow> of_char c \<in> {11, 12, 160 :: nat}"

definition word_text :: "string option \<Rightarrow> string" where
  "word_text w = (case w of None \<Rightarrow> [] | Some t \<Rightarrow> t)"

lemma filter_end_word:
  "filter (\<lambda>t. t \<noteq> []) (end_word cur w) = push_token (filter (\<lambda>t. t \<noteq> []) cur) (word_text w)"
  by (auto simp: end_word_def push_token_def word_text_def split: option.splits)

lemma word_text_extend [simp]: "word_text (extend_word w t) = word_text w @ t"
  by (auto simp: word_text_def extend_word_def split: option.splits)

lemma js_space_shell: "js_space c \<Longrightarrow> \<not> unusual_space c \<Longrightarrow> c \<noteq> LF \<Longrightarrow> c \<noteq> CR \<Longrightarrow> shell_blank c"
proof -
  assume a: "js_space c" "\<not> unusual_space c" "c \<noteq> LF" "c \<noteq> CR"
  have "(of_char c :: nat) \<noteq> 10" "(of_char c :: nat) \<noteq> 13"
    using a(3,4) by (metis LF_def char_of_char, metis CR_def char_of_char)
  with a(1,2) show ?thesis by (auto simp: js_space_def unusual_space_def shell_blank_def)
qed

lemma shell_blank_space: "shell_blank c \<Longrightarrow> js_space c"
  by (auto simp: shell_blank_def js_space_def)

lemma tokenize_loop_shell:
  assumes "tokenize_loop (map (filter (\<lambda>t. t \<noteq> [])) done) (filter (\<lambda>t. t \<noteq> []) cur) (word_text w) q s
      = Allow (Some cmds)"
    and "\<forall>c \<in> set s. \<not> unusual_space c \<and> c \<noteq> LF \<and> c \<noteq> CR"
  shows "\<exists>segs. shell_words done cur w q s = Some segs \<and> cmds = map (filter (\<lambda>t. t \<noteq> [])) segs"
  using assms
proof (induction s arbitrary: "done" cur w q)
  case Nil
  then show ?case by (cases q) (auto simp: filter_end_word split: if_splits)
next
  case (Cons c s)
  from Cons.prems have nb: "c \<noteq> backslash" by auto
  show ?case
  proof (cases q)
    case (Some qc)
    show ?thesis
    proof (cases "c = qc")
      case True
      with Cons Some nb show ?thesis by simp
    next
      case False
      with Cons.prems Some nb
      have "tokenize_loop (map (filter (\<lambda>t. t \<noteq> [])) done) (filter (\<lambda>t. t \<noteq> []) cur)
          (word_text (extend_word w [c])) (Some qc) s = Allow (Some cmds)"
        and ok: "\<not> (qc = quote_char \<and> (c = CHR ''$'' \<or> c = CHR ''`''))"
        by (auto split: if_splits)
      from Cons.IH [OF this(1)] Cons.prems(2) obtain segs where
        "shell_words done cur (extend_word w [c]) (Some qc) s = Some segs"
        "cmds = map (filter (\<lambda>t. t \<noteq> [])) segs" by auto
      with Some False ok nb show ?thesis by auto
    qed
  next
    case None
    note loop = Cons.prems(1) [unfolded None]
    consider (quote) "c = single_quote \<or> c = quote_char"
      | (blank) "js_space c" "\<not> (c = single_quote \<or> c = quote_char)"
      | (pipe) "c = CHR ''|''" "\<not> js_space c" "\<not> (c = single_quote \<or> c = quote_char)"
      | (plain) "c \<noteq> CHR ''|''" "\<not> js_space c" "\<not> (c = single_quote \<or> c = quote_char)" by blast
    then show ?thesis
    proof cases
      case quote
      with loop nb have "tokenize_loop (map (filter (\<lambda>t. t \<noteq> [])) done) (filter (\<lambda>t. t \<noteq> []) cur)
          (word_text (extend_word w [])) (Some c) s = Allow (Some cmds)" by simp
      from Cons.IH [OF this] Cons.prems(2) quote None show ?thesis by auto
    next
      case blank
      with loop nb have "tokenize_loop (map (filter (\<lambda>t. t \<noteq> [])) done)
          (filter (\<lambda>t. t \<noteq> []) (end_word cur w)) (word_text None) None s = Allow (Some cmds)"
        by (simp add: filter_end_word) (simp add: word_text_def)
      from Cons.IH [OF this] Cons.prems(2) blank None js_space_shell [of c] show ?thesis by auto
    next
      case pipe
      with loop nb have "tokenize_loop (map (filter (\<lambda>t. t \<noteq> [])) (done @ [end_word cur w]))
          (filter (\<lambda>t. t \<noteq> []) []) (word_text None) None s = Allow (Some cmds)"
        by (simp add: filter_end_word word_text_def split: if_splits)
      from Cons.IH [OF this] Cons.prems(2) pipe None shell_blank_space [of c] show ?thesis by auto
    next
      case plain
      with loop nb have "tokenize_loop (map (filter (\<lambda>t. t \<noteq> [])) done) (filter (\<lambda>t. t \<noteq> []) cur)
          (word_text (extend_word w [c])) None s = Allow (Some cmds)" and ok: "\<not> forbidden_char c"
        by (auto split: if_splits)
      from Cons.IH [OF this(1)] Cons.prems(2) plain None ok nb shell_blank_space [of c] show ?thesis by auto
    qed
  qed
qed

section \<open>What an accepted command is\<close>

lemma push_token_nonempty:
  "(\<forall>t \<in> set cur. t \<noteq> []) \<Longrightarrow> (\<forall>t \<in> set (push_token cur token). t \<noteq> [])"
  by (simp add: push_token_def)

definition words_ok :: "string list list \<Rightarrow> bool" where
  "words_ok cmds \<longleftrightarrow> (\<forall>ts \<in> set cmds. ts \<noteq> [] \<and> (\<forall>t \<in> set ts. t \<noteq> []))"

lemma tokenize_step:
  assumes "tokenize_loop done cur token q (c # s) = Allow r" and "words_ok done" and "\<forall>t \<in> set cur. t \<noteq> []"
  obtains done' cur' token' q' where "tokenize_loop done' cur' token' q' s = Allow r"
    "words_ok done'" "\<forall>t \<in> set cur'. t \<noteq> []" "c \<noteq> backslash"
proof -
  note loop = assms(1)
  have nb: "c \<noteq> backslash" using loop by auto
  show ?thesis
  proof (cases q)
    case (Some qc)
    then have "tokenize_loop done cur token None s = Allow r \<or>
        tokenize_loop done cur (token @ [c]) q s = Allow r"
      using loop nb by (simp split: if_splits)
    then show ?thesis using that assms(2,3) nb by blast
  next
    case None
    consider (quote) "c = single_quote \<or> c = quote_char"
      | (blank) "js_space c" "\<not> (c = single_quote \<or> c = quote_char)"
      | (pipe) "c = CHR ''|''" "\<not> js_space c" "\<not> (c = single_quote \<or> c = quote_char)"
      | (plain) "c \<noteq> CHR ''|''" "\<not> js_space c" "\<not> (c = single_quote \<or> c = quote_char)" by blast
    then show ?thesis
    proof cases
      case quote
      with loop nb None have "tokenize_loop done cur token (Some c) s = Allow r" by simp
      then show ?thesis using that assms(2,3) nb by blast
    next
      case blank
      with loop nb None have "tokenize_loop done (push_token cur token) [] None s = Allow r" by simp
      then show ?thesis using that assms(2) push_token_nonempty [OF assms(3)] nb by blast
    next
      case pipe
      with loop nb None have l: "tokenize_loop (done @ [push_token cur token]) [] [] None s = Allow r"
        and "push_token cur token \<noteq> []" by (simp_all split: if_splits)
      then have "words_ok (done @ [push_token cur token])"
        using assms(2) push_token_nonempty [OF assms(3)] by (auto simp: words_ok_def)
      then show ?thesis using that [OF l] nb by simp
    next
      case plain
      with loop nb None have "tokenize_loop done cur (token @ [c]) None s = Allow r"
        by (simp split: if_splits)
      then show ?thesis using that assms(2,3) nb by blast
    qed
  qed
qed

lemma tokenize_loop_shape:
  "tokenize_loop done cur token q s = Allow r \<Longrightarrow> words_ok done \<Longrightarrow> \<forall>t \<in> set cur. t \<noteq> [] \<Longrightarrow>
   (\<exists>cmds. r = Some cmds \<and> cmds \<noteq> [] \<and> words_ok cmds) \<and> backslash \<notin> set s"
proof (induction s arbitrary: "done" cur token q)
  case Nil
  then show ?case
    using push_token_nonempty [OF Nil.prems(3), of token] by (auto simp: words_ok_def split: if_splits)
next
  case (Cons c s)
  from Cons.prems obtain done' cur' token' q' where
    "tokenize_loop done' cur' token' q' s = Allow r" "words_ok done'" "\<forall>t \<in> set cur'. t \<noteq> []"
    and nb: "c \<noteq> backslash" by (rule tokenize_step)
  from Cons.IH [OF this(1-3)] nb show ?case by simp
qed

lemma tokenize_shape:
  assumes "tokenizeReadOnlyShell command = Allow r"
  shows "(\<exists>cmds. r = Some cmds \<and> cmds \<noteq> [] \<and> words_ok cmds) \<and>
    set command \<inter> {nul, LF, CR, backslash} = {}"
proof -
  have "tokenize_loop [] [] [] None command = Allow r" "set command \<inter> {nul, LF, CR} = {}"
    using assms by (auto simp: tokenizeReadOnlyShell_def js_includes_def split: if_splits)
  with tokenize_loop_shape [of "[]" "[]" "[]" None command r] show ?thesis
    by (auto simp: words_ok_def)
qed

subsection \<open>Reviewed options\<close>

text \<open>
  The grammar that the option check is meant to enforce: every argument is an operand, a listed flag,
  or a listed option with a value of its kind; \<open>n\<close> counts the operands.
\<close>

definition short_flag :: "command_policy \<Rightarrow> char \<Rightarrow> bool" where
  "short_flag p c \<longleftrightarrow> (\<exists>fs. shortFlags p = Some fs \<and> c \<in> set fs)"

definition long_flag :: "command_policy \<Rightarrow> string \<Rightarrow> bool" where
  "long_flag p name \<longleftrightarrow> (\<exists>fs. longFlags p = Some fs \<and> name \<in> set fs)"

definition short_kind :: "command_policy \<Rightarrow> char \<Rightarrow> option_kind \<Rightarrow> bool" where
  "short_kind p c kind \<longleftrightarrow> \<not> short_flag p c \<and>
     (\<exists>vs. shortValues p = Some vs \<and> literal_lookup vs InheritedKind [c] = Some kind)"

definition long_kind :: "command_policy \<Rightarrow> string \<Rightarrow> option_kind \<Rightarrow> bool" where
  "long_kind p name kind \<longleftrightarrow> \<not> long_flag p name \<and>
     (\<exists>vs. longValues p = Some vs \<and> literal_lookup vs InheritedKind name = Some kind)"

text \<open>A cluster of short flags, and how many of the following arguments it takes as a value.\<close>

inductive cluster :: "command_policy \<Rightarrow> string \<Rightarrow> string list \<Rightarrow> nat \<Rightarrow> bool" for p where
  no_flag: "cluster p [] rest 0"
| flag: "short_flag p f \<Longrightarrow> cluster p cl rest n \<Longrightarrow> cluster p (f # cl) rest n"
| inline: "short_kind p f kind \<Longrightarrow> v \<noteq> [] \<Longrightarrow> optionValueAllowed v kind \<Longrightarrow> cluster p (f # v) rest 0"
| next_argument: "short_kind p f kind \<Longrightarrow> optionValueAllowed v kind \<Longrightarrow> cluster p [f] (v # rest) 1"

inductive_simps cluster_Nil: "cluster p [] rest n"
inductive_simps cluster_Cons: "cluster p (f # cl) rest n"

inductive reviewed :: "command_policy \<Rightarrow> bool \<Rightarrow> string list \<Rightarrow> nat \<Rightarrow> bool" for p where
  nothing: "reviewed p e [] 0"
| end_of_options: "reviewed p True args n \<Longrightarrow> reviewed p False (''--'' # args) n"
| operand: "e \<or> t = ''-'' \<or> \<not> js_starts_with t ''-'' \<Longrightarrow> reviewed p e args n \<Longrightarrow>
    reviewed p e (t # args) (Suc n)"
| long_plain: "long_flag p name \<Longrightarrow> name \<noteq> [] \<Longrightarrow> CHR ''='' \<notin> set name \<Longrightarrow> reviewed p False args n \<Longrightarrow>
    reviewed p False ((''--'' @ name) # args) n"
| long_inline: "long_kind p name kind \<Longrightarrow> CHR ''='' \<notin> set name \<Longrightarrow> optionValueAllowed v kind \<Longrightarrow>
    reviewed p False args n \<Longrightarrow> reviewed p False ((''--'' @ name @ ''='' @ v) # args) n"
| long_next: "long_kind p name kind \<Longrightarrow> name \<noteq> [] \<Longrightarrow> CHR ''='' \<notin> set name \<Longrightarrow> optionValueAllowed v kind \<Longrightarrow>
    reviewed p False args n \<Longrightarrow> reviewed p False ((''--'' @ name) # v # args) n"
| short: "cl \<noteq> [] \<Longrightarrow> hd cl \<noteq> CHR ''-'' \<Longrightarrow> cluster p cl args m \<Longrightarrow> reviewed p False (drop m args) n \<Longrightarrow>
    reviewed p False ((''-'' @ cl) # args) n"

lemma acceptValue_Inr:
  "acceptValue opt kind inl rest = Inr n \<longleftrightarrow>
     (\<exists>v. inl = Some v \<and> optionValueAllowed v kind \<and> n = 0) \<or>
     (\<exists>v rest'. inl = None \<and> rest = v # rest' \<and> optionValueAllowed v kind \<and> n = 1)"
  by (cases inl; cases rest) (auto simp: acceptValue_def)

lemma acceptValue_not_Allow: "acceptValue opt kind inl rest \<noteq> Inl (Allow r)"
  by (auto simp: acceptValue_def Let_def split: option.splits if_splits)

lemma cluster_loop_not_Allow: "cluster_loop exe p cl rest \<noteq> Inl (Allow r)"
  by (induction exe p cl rest rule: cluster_loop.induct)
    (auto simp: acceptValue_not_Allow split: option.splits)

lemma cluster_loop_Inr: "cluster_loop exe p cl rest = Inr n \<longleftrightarrow> cluster p cl rest n"
proof (induction cl)
  case Nil
  show ?case by (auto simp: cluster_Nil)
next
  case (Cons f cl)
  show ?case
  proof (cases "short_flag p f")
    case True
    then have "(case shortFlags p of None \<Rightarrow> False | Some fs \<Rightarrow> js_includes fs f)"
      by (auto simp: short_flag_def js_includes_def)
    moreover have "\<not> short_kind p f kind" for kind using True by (simp add: short_kind_def)
    ultimately show ?thesis using True Cons.IH by (auto simp: cluster_Cons)
  next
    case False
    then have flag: "\<not> (case shortFlags p of None \<Rightarrow> False | Some fs \<Rightarrow> js_includes fs f)"
      by (auto simp: short_flag_def js_includes_def split: option.splits)
    have kind: "Option.bind (shortValues p) (\<lambda>vs. literal_lookup vs InheritedKind [f]) = Some kind \<longleftrightarrow>
        short_kind p f kind" for kind
      using False by (auto simp: short_kind_def bind_eq_Some_conv)
    show ?thesis
    proof (cases "Option.bind (shortValues p) (\<lambda>vs. literal_lookup vs InheritedKind [f])")
      case None
      then have "\<not> short_kind p f kind" for kind using kind [of kind] by simp
      with None flag False show ?thesis by (auto simp: cluster_Cons)
    next
      case (Some kind)
      then have "short_kind p f k \<longleftrightarrow> k = kind" for k using kind [of k] by auto
      with Some flag False show ?thesis
        by (cases cl) (auto simp: cluster_Cons acceptValue_Inr)
    qed
  qed
qed

lemma equals_absent [simp]:
  "CHR ''='' \<notin> set name \<Longrightarrow> before_equals name = name"
  "CHR ''='' \<notin> set name \<Longrightarrow> inline_value name = None"
  by (auto simp: before_equals_def inline_value_def js_includes_def takeWhile_eq_all_conv)

lemma equals_present [simp]:
  assumes "CHR ''='' \<notin> set name"
  shows "before_equals (name @ CHR ''='' # v) = name" "inline_value (name @ CHR ''='' # v) = Some v"
proof -
  have "takeWhile (\<lambda>c. c \<noteq> CHR ''='') name = name" "dropWhile (\<lambda>c. c \<noteq> CHR ''='') name = []"
    using assms by (auto simp: takeWhile_eq_all_conv)
  then show "before_equals (name @ CHR ''='' # v) = name" "inline_value (name @ CHR ''='' # v) = Some v"
    by (simp_all add: before_equals_def inline_value_def js_includes_def takeWhile_append dropWhile_append)
qed

lemma equals_split:
  "inline_value s = None \<and> before_equals s = s \<and> CHR ''='' \<notin> set s \<or>
   (\<exists>v. inline_value s = Some v \<and> s = before_equals s @ CHR ''='' # v \<and> CHR ''='' \<notin> set (before_equals s))"
proof (cases "CHR ''='' \<in> set s")
  case True
  then obtain name v where s: "s = name @ CHR ''='' # v" "CHR ''='' \<notin> set name"
    by (metis split_list_first)
  then show ?thesis by simp
qed simp

lemma starts_with_dash: "js_starts_with t ''-'' \<longleftrightarrow> (\<exists>u. t = CHR ''-'' # u)"
  by (cases t) (auto simp: js_starts_with_def)

lemma starts_with_dashes: "js_starts_with t ''--'' \<longleftrightarrow> (\<exists>u. t = CHR ''-'' # CHR ''-'' # u)"
  by (cases t; cases "tl t") (auto simp: js_starts_with_def)

lemma long_flag_case: "(case longFlags p of None \<Rightarrow> False | Some fs \<Rightarrow> name \<in> set fs) \<longleftrightarrow> long_flag p name"
  by (auto simp: long_flag_def split: option.splits)

lemma long_kind_bind:
  "\<not> long_flag p name \<Longrightarrow>
   Option.bind (longValues p) (\<lambda>vs. literal_lookup vs InheritedKind name) = Some kind \<longleftrightarrow> long_kind p name kind"
  by (auto simp: long_kind_def bind_eq_Some_conv)

text \<open>One long option of the loop.\<close>

definition long_step :: "string \<Rightarrow> command_policy \<Rightarrow> nat \<Rightarrow> string \<Rightarrow> string list \<Rightarrow> decision" where
  "long_step exe p k body rest =
     (let name = before_equals body; inline = inline_value body in
      if long_flag p name then
        (if inline \<noteq> None then Refuse (UnsafeOption exe (''--'' @ body)) else options_loop exe p k False rest)
      else
        (case Option.bind (longValues p) (\<lambda>vs. literal_lookup vs InheritedKind name) of
           None \<Rightarrow> Refuse (UnsafeOption exe (''--'' @ body))
         | Some kind \<Rightarrow>
             (case acceptValue (''--'' @ name) kind inline rest of
                Inl d \<Rightarrow> d
              | Inr n \<Rightarrow> options_loop exe p k False (drop n rest))))"

lemma options_loop_long:
  "body \<noteq> [] \<Longrightarrow> options_loop exe p k False ((''--'' @ body) # rest) = long_step exe p k body rest"
  by (simp add: long_step_def long_flag_case js_starts_with_def Let_def split: option.split)

lemma options_loop_cluster:
  "cl \<noteq> [] \<Longrightarrow> hd cl \<noteq> CHR ''-'' \<Longrightarrow> options_loop exe p k False ((''-'' @ cl) # rest) =
     (case cluster_loop exe p cl rest of Inl d \<Rightarrow> d | Inr n \<Rightarrow> options_loop exe p k False (drop n rest))"
  by (cases cl) (auto simp: js_starts_with_def)

lemma options_loop_operand:
  "e \<or> t = ''-'' \<or> \<not> js_starts_with t ''-'' \<Longrightarrow> options_loop exe p k e (t # rest) = options_loop exe p (k + 1) e rest"
  by (auto simp: js_starts_with_def)

declare options_loop.simps(2) [simp del]

lemma reviewed_complete:
  "reviewed p e args n \<Longrightarrow>
   options_loop exe p k e args =
     (if operand_count_ok p (k + n) then Allow None else Refuse (OperandCount exe))"
proof (induction arbitrary: k rule: reviewed.induct)
  case (end_of_options args n)
  then show ?case by (subst options_loop.simps(2)) simp
next
  case (operand e t args n)
  then show ?case by (simp add: options_loop_operand)
next
  case (long_plain name args n)
  then show ?case using options_loop_long [of name exe p k args] by (simp add: long_step_def)
next
  case (long_inline name kind v args n)
  then have "\<not> long_flag p name" by (simp add: long_kind_def)
  with long_inline show ?case
    using options_loop_long [of "name @ ''='' @ v" exe p k args] long_kind_bind [of p name kind]
    by (simp add: long_step_def acceptValue_def)
next
  case (long_next name kind v args n)
  then have "\<not> long_flag p name" by (simp add: long_kind_def)
  with long_next show ?case
    using options_loop_long [of name exe p k "v # args"] long_kind_bind [of p name kind]
    by (simp add: long_step_def acceptValue_def)
next
  case (short cl args m n)
  then show ?case
    using options_loop_cluster [of cl exe p k args] cluster_loop_Inr [of exe p cl args m] by simp
qed simp

lemma long_step_Allow:
  assumes "long_step exe p k body rest = Allow r"
  obtains (flag) "long_flag p body" "CHR ''='' \<notin> set body" "options_loop exe p k False rest = Allow r"
  | (inline) name kind v where "body = name @ ''='' @ v" "CHR ''='' \<notin> set name" "long_kind p name kind"
      "optionValueAllowed v kind" "options_loop exe p k False rest = Allow r"
  | (separate) kind v rest' where "rest = v # rest'" "CHR ''='' \<notin> set body" "long_kind p body kind"
      "optionValueAllowed v kind" "options_loop exe p k False rest' = Allow r"
proof (cases "long_flag p (before_equals body)")
  case True
  with assms have "inline_value body = None" "options_loop exe p k False rest = Allow r"
    by (auto simp: long_step_def Let_def split: if_splits)
  with True equals_split [of body] flag show ?thesis by auto
next
  case False
  with assms obtain kind where
    kind: "Option.bind (longValues p) (\<lambda>vs. literal_lookup vs InheritedKind (before_equals body)) = Some kind"
    by (auto simp: long_step_def Let_def split: option.splits)
  obtain n where n: "acceptValue (''--'' @ before_equals body) kind (inline_value body) rest = Inr n"
    and loop: "options_loop exe p k False (drop n rest) = Allow r"
    using assms False kind acceptValue_not_Allow
    by (auto simp: long_step_def Let_def split: sum.splits)
  have lk: "long_kind p (before_equals body) kind" using kind False long_kind_bind by blast
  from n consider (a) v where "inline_value body = Some v" "optionValueAllowed v kind" "n = 0"
    | (b) v rest' where "inline_value body = None" "rest = v # rest'" "optionValueAllowed v kind" "n = 1"
    unfolding acceptValue_Inr by blast
  then show ?thesis
  proof cases
    case a
    with equals_split [of body] have "body = before_equals body @ ''='' @ v" "CHR ''='' \<notin> set (before_equals body)"
      by auto
    with a lk loop inline show ?thesis by simp
  next
    case b
    with equals_split [of body] have "before_equals body = body" "CHR ''='' \<notin> set body" by auto
    with b lk loop separate show ?thesis by simp
  qed
qed

lemma reviewed_sound:
  "options_loop exe p k e args = Allow r \<Longrightarrow>
   r = None \<and> (\<exists>n. reviewed p e args n \<and> operand_count_ok p (k + n))"
proof (induction "length args" arbitrary: args k e rule: less_induct)
  case less
  show ?case
  proof (cases args)
    case Nil
    with less.prems show ?thesis
      by (auto split: if_splits intro: reviewed.nothing exI [of _ 0])
  next
    case (Cons t rest)
    have IH: "options_loop exe p k' e' args' = Allow r \<Longrightarrow> length args' \<le> length rest \<Longrightarrow>
        r = None \<and> (\<exists>n. reviewed p e' args' n \<and> operand_count_ok p (k' + n))" for k' e' args'
      using less.hyps [of args'] Cons by simp
    consider (ops) "e \<or> t = ''-'' \<or> \<not> js_starts_with t ''-''" | (dd) "\<not> e" "t = ''--''"
      | (long) body where "\<not> e" "t = ''--'' @ body" "body \<noteq> []"
      | (clu) cl where "\<not> e" "t = ''-'' @ cl" "cl \<noteq> []" "hd cl \<noteq> CHR ''-''"
    proof (cases "e \<or> t = ''-'' \<or> \<not> js_starts_with t ''-''")
      case False
      then obtain u where "t = CHR ''-'' # u" "u \<noteq> []" "\<not> e" by (auto simp: starts_with_dash)
      then show ?thesis using that(2-4) by (cases u; cases "hd u = CHR ''-''"; cases "tl u") auto
    qed (rule that(1))
    then show ?thesis
    proof cases
      case ops
      with less.prems Cons have "options_loop exe p (k + 1) e rest = Allow r"
        by (simp add: options_loop_operand)
      from IH [OF this] ops Cons show ?thesis using reviewed.operand [of e t p rest] by force
    next
      case dd
      with less.prems Cons have "options_loop exe p k True rest = Allow r"
        by (simp add: options_loop.simps(2))
      from IH [OF this] dd Cons show ?thesis using reviewed.end_of_options [of p rest] by force
    next
      case (long body)
      with less.prems Cons have "long_step exe p k body rest = Allow r"
        using options_loop_long by simp
      then show ?thesis
      proof (cases rule: long_step_Allow)
        case flag
        from IH [OF flag(3)] flag long Cons show ?thesis
          using reviewed.long_plain [of p body rest] by force
      next
        case (inline name kind v)
        from IH [OF inline(5)] inline long Cons show ?thesis
          using reviewed.long_inline [of p name kind v rest] by force
      next
        case (separate kind v rest')
        from IH [OF separate(5)] separate long Cons show ?thesis
          using reviewed.long_next [of p body kind v rest'] by force
      qed
    next
      case (clu cl)
      with less.prems Cons have "(case cluster_loop exe p cl rest of Inl d \<Rightarrow> d
          | Inr n \<Rightarrow> options_loop exe p k False (drop n rest)) = Allow r"
        using options_loop_cluster by simp
      then obtain m where m: "cluster p cl rest m" and l: "options_loop exe p k False (drop m rest) = Allow r"
        using cluster_loop_not_Allow [of exe p cl rest] cluster_loop_Inr
        by (auto split: sum.splits)
      from IH [OF l] m clu Cons show ?thesis
        using reviewed.short [of cl p rest m] by force
    qed
  qed
qed

lemma validatePolicyOptions_iff:
  "validatePolicyOptions exe args p = Allow r \<longleftrightarrow>
     r = None \<and> (\<exists>n. reviewed p False args n \<and> operand_count_ok p n)"
  using reviewed_sound [of exe p 0 False args r] reviewed_complete [of p False args _ exe 0]
  by (auto simp: validatePolicyOptions_def)

section \<open>Quoted words\<close>

definition quote_word :: "string \<Rightarrow> string" where
  "quote_word t = [single_quote] @ t @ [single_quote]"

definition render_pipeline :: "string list list \<Rightarrow> string" where
  "render_pipeline cmds = js_join '' | '' (map (\<lambda>ts. js_join '' '' (map quote_word ts)) cmds)"

definition quotable :: "string \<Rightarrow> bool" where
  "quotable t \<longleftrightarrow> t \<noteq> [] \<and> set t \<inter> {single_quote, backslash, nul, LF, CR} = {}"

lemma special_chars [simp]:
  "single_quote \<noteq> backslash" "single_quote \<noteq> quote_char" "quote_char \<noteq> single_quote"
  "CHR '' '' \<noteq> backslash" "CHR '' '' \<noteq> single_quote" "CHR '' '' \<noteq> quote_char"
  "CHR ''|'' \<noteq> backslash" "CHR ''|'' \<noteq> single_quote" "CHR ''|'' \<noteq> quote_char"
  "js_space (CHR '' '')" "\<not> js_space (CHR ''|'')" "\<not> js_space single_quote"
  by code_simp+

lemma tokenize_inside:
  "set t \<inter> {single_quote, backslash} = {} \<Longrightarrow>
   tokenize_loop done cur tok (Some single_quote) (t @ s) = tokenize_loop done cur (tok @ t) (Some single_quote) s"
  by (induction t arbitrary: tok) auto

lemma tokenize_quoted:
  "quotable t \<Longrightarrow> tokenize_loop done cur tok None (quote_word t @ s) = tokenize_loop done cur (tok @ t) None s"
  using tokenize_inside [of t "done" cur tok "single_quote # s"]
  by (auto simp: quote_word_def quotable_def)

lemma tokenize_words:
  "ts \<noteq> [] \<Longrightarrow> \<forall>t \<in> set ts. quotable t \<Longrightarrow>
   tokenize_loop done cur [] None (js_join '' '' (map quote_word ts) @ s) =
   tokenize_loop done (cur @ butlast ts) (last ts) None s"
proof (induction ts arbitrary: cur)
  case (Cons t ts)
  show ?case
  proof (cases ts)
    case Nil
    with Cons.prems show ?thesis using tokenize_quoted [of t "done" cur "[]"] by simp
  next
    case (Cons u us)
    have "js_join '' '' (map quote_word (t # ts)) @ s =
        quote_word t @ CHR '' '' # js_join '' '' (map quote_word ts) @ s" by (simp add: Cons)
    then have "tokenize_loop done cur [] None (js_join '' '' (map quote_word (t # ts)) @ s)
        = tokenize_loop done cur t None (CHR '' '' # js_join '' '' (map quote_word ts) @ s)"
      using Cons.prems(2) tokenize_quoted [of t "done" cur "[]"] by simp
    also have "\<dots> = tokenize_loop done (cur @ [t]) [] None (js_join '' '' (map quote_word ts) @ s)"
      using Cons.prems(2) by (simp add: push_token_def quotable_def)
    finally show ?thesis using Cons.IH [of "cur @ [t]"] Cons.prems Cons by simp
  qed
qed simp

lemma push_last: "ts \<noteq> [] \<Longrightarrow> \<forall>t \<in> set ts. quotable t \<Longrightarrow> push_token (butlast ts) (last ts) = ts"
  by (simp add: push_token_def quotable_def)

lemma tokenize_pipeline:
  "cmds \<noteq> [] \<Longrightarrow> \<forall>ts \<in> set cmds. ts \<noteq> [] \<and> (\<forall>t \<in> set ts. quotable t) \<Longrightarrow>
   tokenize_loop done [] [] None (render_pipeline cmds) = Allow (Some (done @ cmds))"
proof (induction cmds arbitrary: "done")
  case (Cons ts cmds)
  then have ts: "ts \<noteq> []" "\<forall>t \<in> set ts. quotable t" by auto
  show ?case
  proof (cases cmds)
    case Nil
    with tokenize_words [OF ts, of "done" "[]" "[]"] push_last [OF ts] ts show ?thesis
      by (simp add: render_pipeline_def)
  next
    case (Cons us cs)
    let ?r = "render_pipeline cmds"
    have r: "render_pipeline (ts # cmds) = js_join '' '' (map quote_word ts) @ '' | '' @ ?r"
      by (simp add: render_pipeline_def Cons)
    have "tokenize_loop done [] [] None (render_pipeline (ts # cmds))
        = tokenize_loop done (butlast ts) (last ts) None ('' | '' @ ?r)"
      unfolding r using tokenize_words [OF ts, of "done" "[]"] by simp
    also have "\<dots> = tokenize_loop done ts [] None (''| '' @ ?r)"
      using push_last [OF ts] by simp
    also have "\<dots> = tokenize_loop (done @ [ts]) [] [] None ('' '' @ ?r)"
      using ts by (simp add: push_token_def)
    also have "\<dots> = tokenize_loop (done @ [ts]) [] [] None ?r"
      by (simp add: push_token_def)
    finally show ?thesis using Cons.IH [of "done @ [ts]"] Cons.prems Cons by simp
  qed
qed simp

lemma render_chars:
  assumes "\<forall>ts \<in> set cmds. \<forall>t \<in> set ts. quotable t"
  shows "set (render_pipeline cmds) \<inter> {nul, LF, CR} = {}"
proof -
  have lit: "set '' | '' \<inter> {nul, LF, CR} = {}" "set '' '' \<inter> {nul, LF, CR} = {}"
    "single_quote \<notin> {nul, LF, CR}" by code_simp+
  have "set (quote_word t) \<inter> {nul, LF, CR} = {}" if "quotable t" for t
    using that lit(3) by (auto simp: quote_word_def quotable_def)
  then have "set (js_join '' '' (map quote_word ts)) \<inter> {nul, LF, CR} = {}" if "ts \<in> set cmds" for ts
    using js_join_chars [of "'' ''" "map quote_word ts"] lit(2) assms that by fastforce
  then show ?thesis
    using js_join_chars [of "'' | ''" "map (\<lambda>ts. js_join '' '' (map quote_word ts)) cmds"] lit(1)
    unfolding render_pipeline_def by fastforce
qed

lemma render_not_blank:
  assumes "cmds \<noteq> []" and "hd cmds \<noteq> []"
  shows "js_trim (render_pipeline cmds) \<noteq> []"
proof -
  obtain r where r: "render_pipeline cmds = single_quote # r"
    using assms by (cases cmds; cases "tl cmds"; cases "hd cmds"; cases "tl (hd cmds)")
      (auto simp: render_pipeline_def quote_word_def)
  have "\<exists>c \<in> set (rev (single_quote # r)). \<not> js_space c" by simp
  then have "dropWhile js_space (rev (single_quote # r)) \<noteq> []" by (simp only: dropWhile_eq_Nil_conv) blast
  with r show ?thesis by (simp add: js_trim_def)
qed

section \<open>Properties\<close>


text \<open>A text used by the witnesses below.\<close>

definition sample_pipeline :: string where
  "sample_pipeline = ''head -n5 '' @ [quote_char] @ ''a b'' @ [quote_char] @ '' | wc --lines''"


text \<open>
  The words that are checked are the words the shell will see, except for empty ones: on a text
  without vertical tab, form feed and no-break space, an accepted tokenisation is the pipeline of the
  shell with the empty words left out of each command.
\<close>

theorem plan_tokens_are_shell_words:
  assumes "tokenizeReadOnlyShell command = Allow (Some cmds)"
    and "\<forall>c \<in> set command. \<not> unusual_space c"
  shows "\<exists>segments. shell_pipeline command = Some segments \<and>
    cmds = map (filter (\<lambda>w. w \<noteq> [])) segments"
proof -
  have chars: "set command \<inter> {nul, LF, CR, backslash} = {}" using tokenize_shape [OF assms(1)] by blast
  have "tokenize_loop (map (filter (\<lambda>t. t \<noteq> [])) []) (filter (\<lambda>t. t \<noteq> []) []) (word_text None) None command
      = Allow (Some cmds)"
    using assms(1) by (auto simp: tokenizeReadOnlyShell_def word_text_def split: if_splits)
  from tokenize_loop_shell [OF this] assms(2) chars show ?thesis
    unfolding shell_pipeline_def by blast
qed

theorem plan_tokens_are_shell_words_witness:
  "\<exists>segments. shell_pipeline sample_pipeline = Some segments \<and>
     [[''head'', ''-n5'', ''a b''], [''wc'', ''--lines'']] = map (filter (\<lambda>w. w \<noteq> [])) segments"
proof -
  have "tokenizeReadOnlyShell sample_pipeline
      = Allow (Some [[''head'', ''-n5'', ''a b''], [''wc'', ''--lines'']])"
    and "\<forall>c \<in> set sample_pipeline. \<not> unusual_space c" by code_simp+
  then show ?thesis by (rule plan_tokens_are_shell_words)
qed

text \<open>
  The empty words matter: the tokeniser drops an empty quoted word, so the check takes the word
  after it for the value of the option before it. The text \<open>find . '!' -name '' -delete\<close> is accepted
  in plan mode, while the shell runs find with the expression \<open>! -name '' -delete\<close>.
\<close>

theorem plan_bash_accepts_hidden_delete:
  "let q = [single_quote];
       command = ''find . '' @ q @ ''!'' @ q @ '' -name '' @ q @ q @ '' -delete''
   in classifyPlanBash command = Allow (Some [[''find'', ''.'', ''!'', ''-name'', ''-delete'']]) \<and>
      evaluatePiToolPolicy ''plan'' ''bash'' (JObject [(''command'', JString command)]) JUndefined
        = ToolAllowed None \<and>
      shell_pipeline command = Some [[''find'', ''.'', ''!'', ''-name'', [], ''-delete'']] \<and>
      validateFind [''.'', ''!'', ''-delete''] \<noteq> Allow None"
  by code_simp

text \<open>
  Inherited keys pass the allowlist: a command called like a member of \<open>Object.prototype\<close> is
  accepted without being listed, such a name is accepted as a long option with a numeric value
  wherever a command lists options with values, and with another value the check throws instead of
  deciding.
\<close>

theorem plan_bash_inherited_keys:
  "list_all (\<lambda>k. map_of READ_ONLY_COMMAND_POLICIES k = None \<and>
      classifyPlanBash (k @ '' x'') = Allow (Some [[k, ''x''] ])) prototype_keys \<and>
   classifyPlanBash ''head --constructor=5 x'' = Allow (Some [[''head'', ''--constructor=5'', ''x'']]) \<and>
   classifyPlanBash ''head --constructor x'' = Throws"
  by code_simp

text \<open>
  Plan mode tools. In plan mode an allowed tool is a listed native tool or an MCP tool that is
  declared read-only; write and edit are never allowed; bash is allowed only with a command that
  \<open>classifyPlanBash\<close> accepts; and exactly the task tool has its arguments patched to read-only.
\<close>

theorem plan_mode_tools:
  assumes "evaluatePiToolPolicy ''plan'' toolName args mcpReadOnly = ToolAllowed patch"
  shows "toolName \<noteq> ''write'' \<and> toolName \<noteq> ''edit'' \<and>
    (toolName \<in> set PLAN_NATIVE_TOOLS \<or> js_starts_with toolName ''mcp__'' \<and> mcpReadOnly = JBool True) \<and>
    (toolName = ''bash'' \<longrightarrow> (\<exists>command cmds. member args ''command'' = JString command \<and>
        classifyPlanBash command = Allow cmds)) \<and>
    patch = (if toolName = ''task'' then Some [(''readOnly'', JBool True)] else None)"
proof -
  have "\<not> js_starts_with ''bash'' ''mcp__''" "\<not> js_starts_with ''task'' ''mcp__''" by code_simp+
  with assms show ?thesis
    by (cases "js_starts_with toolName ''mcp__''")
      (auto simp: evaluatePiToolPolicy_def is_js_string_iff split: if_splits decision.splits)
qed

theorem plan_mode_tools_witness:
  "\<exists>command cmds. member (JObject [(''command'', JString ''ls -la'')]) ''command'' = JString command \<and>
     classifyPlanBash command = Allow cmds"
proof -
  have "evaluatePiToolPolicy ''plan'' ''bash'' (JObject [(''command'', JString ''ls -la'')]) JUndefined
      = ToolAllowed None" by code_simp
  from plan_mode_tools [OF this] show ?thesis by blast
qed

text \<open>
  Round trip. A pipeline of non-empty words without single quote, backslash, NUL and line breaks,
  written with every word in single quotes, is tokenised back to the same words.
\<close>

theorem tokenize_render_round_trip:
  assumes "cmds \<noteq> []" and "\<forall>ts \<in> set cmds. ts \<noteq> [] \<and> (\<forall>t \<in> set ts. quotable t)"
  shows "tokenizeReadOnlyShell (render_pipeline cmds) = Allow (Some cmds)"
proof -
  have "set (render_pipeline cmds) \<inter> {nul, LF, CR} = {}" using assms(2) by (intro render_chars) auto
  moreover have "js_trim (render_pipeline cmds) \<noteq> []" using assms by (intro render_not_blank) auto
  ultimately show ?thesis
    using tokenize_pipeline [OF assms, of "[]"] by (auto simp: tokenizeReadOnlyShell_def js_includes_def)
qed

theorem tokenize_render_round_trip_witness:
  "tokenizeReadOnlyShell (render_pipeline [[''grep'', ''a|b > c''], [''wc'']])
     = Allow (Some [[''grep'', ''a|b > c''], [''wc'']])"
proof (rule tokenize_render_round_trip)
  show "\<forall>ts \<in> set [[''grep'', ''a|b > c''], [''wc'']]. ts \<noteq> [] \<and> (\<forall>t \<in> set ts. quotable t)"
    by code_simp
qed simp

end
