(* ===== verification/Browser_Ingest.thy ===== *)
theory Browser_Ingest
  imports Browser_Replay
begin

text \<open>
  Messages from the browser (web/server/ws-bridge-browser-ingest.ts): the validators of the product
  protocol, the envelope that binds a message to a runtime context, the size limits, and the
  removal of messages that were delivered twice.

  \<open>JSON.parse\<close> and the UTF-8 decoding of a binary frame are parameters. \<open>coerces_to v w\<close> is
  \<open>String(v) === w\<close> for a word \<open>w\<close> of letters and underscores, which is all the validators ask.
\<close>

section \<open>Constants and coercion\<close>

definition BROWSER_WS_MAX_MESSAGE_BYTES :: int where
  "BROWSER_WS_MAX_MESSAGE_BYTES = 1024 * 1024"

definition USER_MESSAGE_MAX_BYTES :: int where
  "USER_MESSAGE_MAX_BYTES = 256 * 1024"

definition MAX_ID_BYTES :: int where
  "MAX_ID_BYTES = 256"

definition MAX_NAME_BYTES :: int where
  "MAX_NAME_BYTES = 256"

definition THINKING_LEVELS :: "string list" where
  "THINKING_LEVELS = [''off'', ''minimal'', ''low'', ''medium'', ''high'', ''xhigh'', ''max'']"

definition MESSAGE_TYPES :: "string list" where
  "MESSAGE_TYPES =
     [''agent_message'', ''interaction_response'', ''session_subscribe'', ''session_ack'', ''abort'',
      ''retry'', ''compact'', ''set_model'', ''set_thinking_level'', ''set_mode'', ''mcp_get_status'',
      ''mcp_toggle'', ''mcp_reconnect'', ''end_session'', ''stop_task'', ''user_space_mount'',
      ''user_space_unmount'', ''user_space_mutation_authorize'', ''user_space_response'',
      ''user_space_status'', ''user_space_index_update'', ''onlyoffice_status'',
      ''onlyoffice_response'']"

definition IDEMPOTENT_BROWSER_MESSAGE_TYPES :: "string list" where
  "IDEMPOTENT_BROWSER_MESSAGE_TYPES =
     [''agent_message'', ''interaction_response'', ''abort'', ''retry'', ''compact'', ''set_model'',
      ''set_thinking_level'', ''set_mode'', ''mcp_get_status'', ''mcp_toggle'', ''mcp_reconnect'',
      ''end_session'', ''stop_task'', ''user_space_mount'', ''user_space_unmount'',
      ''user_space_status'', ''user_space_index_update'', ''onlyoffice_status'',
      ''onlyoffice_response'']"

text \<open>
  An array is coerced by joining its elements with commas, where null and undefined count as empty;
  an array of one string is coerced to that string.
\<close>

fun coerces_to :: "json \<Rightarrow> string \<Rightarrow> bool" where
  "coerces_to (JString s) w = (s = w)"
| "coerces_to JUndefined w = (w = ''undefined'')"
| "coerces_to JNull w = (w = ''null'')"
| "coerces_to (JBool b) w = (w = (if b then ''true'' else ''false''))"
| "coerces_to (JNumber JNaN) w = (w = ''NaN'')"
| "coerces_to (JNumber JInf) w = (w = ''Infinity'')"
| "coerces_to (JNumber _) w = False"
| "coerces_to (JArray []) w = (w = [])"
| "coerces_to (JArray [x]) w = (if x = JNull \<or> x = JUndefined then w = [] else coerces_to x w)"
| "coerces_to (JArray _) w = False"
| "coerces_to (JObject _) w = False"

definition coerces_into :: "json \<Rightarrow> string list \<Rightarrow> bool" where
  "coerces_into v ws \<longleftrightarrow> list_ex (coerces_to v) ws"

section \<open>Validators\<close>

definition validString :: "json \<Rightarrow> int \<Rightarrow> bool \<Rightarrow> bool" where
  "validString v maxBytes allowEmpty \<longleftrightarrow>
     is_js_string v \<and> \<not> js_includes (str_of v) nul \<and> (allowEmpty \<or> length (str_of v) > 0) \<and>
     int (utf8_length (str_of v)) \<le> maxBytes"

definition id_char :: "char \<Rightarrow> bool" where
  "id_char c \<longleftrightarrow> is_alnum c \<or> c \<in> set ''._:-''"

definition validId :: "json \<Rightarrow> bool" where
  "validId v \<longleftrightarrow>
     validString v MAX_ID_BYTES False \<and>
     (case str_of v of [] \<Rightarrow> False | c # cs \<Rightarrow> is_alnum c \<and> list_all id_char cs)"

definition validGeneration :: "json \<Rightarrow> bool" where
  "validGeneration v \<longleftrightarrow> is_safe_integer v \<and> number_of v \<ge> 0"

definition validFiniteTimestamp :: "json \<Rightarrow> bool" where
  "validFiniteTimestamp v \<longleftrightarrow> is_finite_number v \<and> number_of v \<ge> 0"

definition validClientMessageId :: "json \<Rightarrow> bool" where
  "validClientMessageId v \<longleftrightarrow> member v ''clientMsgId'' = JUndefined \<or> validId (member v ''clientMsgId'')"

definition validMessagePart :: "bool \<Rightarrow> json \<Rightarrow> bool" where
  "validMessagePart browserOriginated v =
     (if \<not> is_record v then False
      else if member v ''type'' = JString ''text'' then
        is_js_string (member v ''text'') \<and> int (utf8_length (str_of (member v ''text''))) \<le> USER_MESSAGE_MAX_BYTES
      else if \<not> browserOriginated \<and> member v ''type'' = JString ''thinking'' then
        is_js_string (member v ''thinking'')
      else
        member v ''type'' = JString ''image'' \<and> validString (member v ''mediaType'') 255 False \<and>
        is_js_string (member v ''data'') \<and>
        int (utf8_length (str_of (member v ''data''))) \<le> BROWSER_WS_MAX_MESSAGE_BYTES)"

definition text_bytes :: "json list \<Rightarrow> nat" where
  "text_bytes parts =
     foldl (\<lambda>total part. total + utf8_length (str_of (member part ''text''))) 0
       (filter (\<lambda>part. member part ''type'' = JString ''text'') parts)"

definition validAgentMessage :: "json \<Rightarrow> bool" where
  "validAgentMessage v =
     (if \<not> is_record v \<or> \<not> validId (member v ''id'') \<or> member v ''role'' \<noteq> JString ''user'' \<or>
         \<not> validFiniteTimestamp (member v ''timestamp'') \<or> \<not> is_js_array (member v ''content'') \<or>
         length (elems_of (member v ''content'')) = 0 \<or>
         \<not> list_all (validMessagePart True) (elems_of (member v ''content'')) then False
      else if member v ''displayContent'' \<noteq> JUndefined \<and>
              (\<not> is_js_array (member v ''displayContent'') \<or>
               \<not> list_all (validMessagePart True) (elems_of (member v ''displayContent''))) then False
      else int (text_bytes (elems_of (member v ''content'') @ elems_of (member v ''displayContent'')))
             \<le> USER_MESSAGE_MAX_BYTES)"

definition validModel :: "json \<Rightarrow> bool" where
  "validModel v \<longleftrightarrow>
     is_record v \<and> validString (member v ''key'') MAX_NAME_BYTES False \<and>
     validString (member v ''provider'') MAX_NAME_BYTES False \<and>
     validString (member v ''modelId'') MAX_NAME_BYTES False"

definition valid_answer :: "json \<Rightarrow> bool" where
  "valid_answer answer \<longleftrightarrow>
     is_record answer \<and> validId (member answer ''questionId'') \<and>
     is_js_array (member answer ''selectedOptionIds'') \<and>
     length (elems_of (member answer ''selectedOptionIds'')) \<le> 4 \<and>
     list_all validId (elems_of (member answer ''selectedOptionIds'')) \<and>
     (member answer ''freeText'' = JUndefined \<or>
      validString (member answer ''freeText'') USER_MESSAGE_MAX_BYTES True)"

definition validInteractionResponse :: "json \<Rightarrow> bool" where
  "validInteractionResponse v =
     (if \<not> validGeneration (member v ''generation'') \<or> \<not> validId (member v ''requestId'') \<or>
         \<not> coerces_into (member v ''kind'') [''ask'', ''propose_plan''] \<or>
         \<not> coerces_into (member v ''status'') [''submitted'', ''cancelled'', ''timed_out''] \<or>
         (member v ''timestamp'' \<noteq> JUndefined \<and> \<not> validFiniteTimestamp (member v ''timestamp'')) then False
      else if member v ''kind'' = JString ''ask'' then
        member v ''answers'' = JUndefined \<or>
        is_js_array (member v ''answers'') \<and> length (elems_of (member v ''answers'')) \<le> 4 \<and>
        list_all valid_answer (elems_of (member v ''answers''))
      else
        (member v ''decision'' = JUndefined \<or>
         coerces_into (member v ''decision'') [''execute'', ''continue_planning'', ''refine'']) \<and>
        (member v ''refinement'' = JUndefined \<or>
         validString (member v ''refinement'') USER_MESSAGE_MAX_BYTES True))"

definition valid_mount :: "json \<Rightarrow> bool" where
  "valid_mount mount \<longleftrightarrow>
     is_record mount \<and> validId (member mount ''mountId'') \<and> validString (member mount ''name'') 512 False \<and>
     validString (member mount ''rootName'') 512 False \<and>
     coerces_into (member mount ''status'') [''expected'', ''mounted'', ''offline''] \<and>
     coerces_into (member mount ''access'') [''readonly'', ''readwrite''] \<and>
     member mount ''includeHidden'' = JBool True"

definition validMounts :: "json \<Rightarrow> bool" where
  "validMounts v \<longleftrightarrow>
     v = JUndefined \<or> is_js_array v \<and> length (elems_of v) \<le> 16 \<and> list_all valid_mount (elems_of v)"

definition validOnlyOfficeStatus :: "json \<Rightarrow> bool" where
  "validOnlyOfficeStatus v \<longleftrightarrow>
     (member v ''document'' = JNull \<or> is_record (member v ''document'')) \<and>
     (member v ''client_msg_id'' = JUndefined \<or> validId (member v ''client_msg_id''))"

definition validOnlyOfficeResponse :: "json \<Rightarrow> bool" where
  "validOnlyOfficeResponse v \<longleftrightarrow>
     validId (member v ''request_id'') \<and> is_js_boolean (member v ''ok'') \<and>
     (member v ''error'' = JUndefined \<or> validString (member v ''error'') USER_MESSAGE_MAX_BYTES True) \<and>
     (member v ''client_msg_id'' = JUndefined \<or> validId (member v ''client_msg_id''))"

definition isOutgoingMessage :: "json \<Rightarrow> bool" where
  "isOutgoingMessage v =
     (if \<not> is_record v \<or> \<not> is_js_string (member v ''type'') \<or>
         str_of (member v ''type'') \<notin> set MESSAGE_TYPES \<or> \<not> validClientMessageId v then False
      else
        let t = str_of (member v ''type'') in
        if t = ''agent_message'' then
          validGeneration (member v ''generation'') \<and> validAgentMessage (member v ''message'') \<and>
          (member v ''clientMsgId'' = JUndefined \<or>
           member v ''clientMsgId'' = member (member v ''message'') ''id'')
        else if t = ''interaction_response'' then validInteractionResponse v
        else if t = ''session_subscribe'' \<or> t = ''session_ack'' then validGeneration (member v ''lastSeq'')
        else if t = ''abort'' then
          member v ''generation'' = JUndefined \<or> validGeneration (member v ''generation'')
        else if t = ''retry'' then member v ''messageId'' = JUndefined \<or> validId (member v ''messageId'')
        else if t = ''compact'' \<or> t = ''mcp_get_status'' then True
        else if t = ''set_model'' then validModel (member v ''model'')
        else if t = ''set_thinking_level'' then coerces_into (member v ''thinkingLevel'') THINKING_LEVELS
        else if t = ''set_mode'' then
          member v ''mode'' = JString ''agent'' \<or> member v ''mode'' = JString ''plan''
        else if t = ''mcp_toggle'' then
          validString (member v ''serverName'') MAX_NAME_BYTES False \<and> is_js_boolean (member v ''enabled'')
        else if t = ''mcp_reconnect'' then validString (member v ''serverName'') MAX_NAME_BYTES False
        else if t = ''end_session'' then
          member v ''reason'' = JUndefined \<or> validString (member v ''reason'') 4096 True
        else if t = ''stop_task'' then validId (member v ''taskId'')
        else if t = ''user_space_mount'' \<or> t = ''user_space_status'' then
          (member v ''user_space'' = JUndefined \<or> member v ''user_space'' = JNull \<or>
           is_record (member v ''user_space'')) \<and> validMounts (member v ''mounts'')
        else if t = ''user_space_unmount'' then validId (member v ''mountId'')
        else if t = ''user_space_mutation_authorize'' then validId (member v ''request_id'')
        else if t = ''user_space_response'' then
          validId (member v ''request_id'') \<and> is_js_boolean (member v ''ok'') \<and>
          (member v ''error'' = JUndefined \<or> validString (member v ''error'') USER_MESSAGE_MAX_BYTES True) \<and>
          (member v ''commit_lease'' = JUndefined \<or> validId (member v ''commit_lease'')) \<and>
          (member v ''runtime_epoch'' = JUndefined \<or> validId (member v ''runtime_epoch''))
        else if t = ''user_space_index_update'' then
          (member v ''mountId'' = JUndefined \<or> validId (member v ''mountId'')) \<and>
          is_safe_integer (member v ''fileCount'') \<and> number_of (member v ''fileCount'') \<ge> 0 \<and>
          validFiniteTimestamp (member v ''lastIndexedAt'')
        else if t = ''onlyoffice_status'' then validOnlyOfficeStatus v
        else if t = ''onlyoffice_response'' then validOnlyOfficeResponse v
        else False)"

section \<open>Envelopes and frames\<close>

record envelope_context =
  ctx_epoch :: int
  ctx_id :: string

definition WS_PROTOCOL_VERSION :: int where
  "WS_PROTOCOL_VERSION = 1"

definition unwrapEnvelope :: "json \<Rightarrow> envelope_context \<Rightarrow> json option" where
  "unwrapEnvelope v ctx =
     (if \<not> is_record v \<or> member v ''protocolVersion'' \<noteq> JNumber (JInt WS_PROTOCOL_VERSION) \<or>
         \<not> validId (member v ''eventId'') \<or> \<not> validGeneration (member v ''contextEpoch'') \<or>
         \<not> isRuntimeContextId (member v ''contextId'') \<or>
         member v ''contextEpoch'' \<noteq> JNumber (JInt (ctx_epoch ctx)) \<or>
         member v ''contextId'' \<noteq> JString (ctx_id ctx) \<or>
         \<not> is_js_string (member v ''kind'') \<or> \<not> isOutgoingMessage (member v ''payload'') \<or>
         member v ''kind'' \<noteq> member (member v ''payload'') ''type'' then None
      else Some (member v ''payload''))"

text \<open>A frame is text or bytes; each character of \<open>RawBytes\<close> is one byte.\<close>

datatype raw_frame = RawText string | RawBytes string

fun browserMessageByteLength :: "raw_frame \<Rightarrow> nat" where
  "browserMessageByteLength (RawText s) = utf8_length s"
| "browserMessageByteLength (RawBytes bs) = length bs"

definition isBrowserMessageWithinLimit :: "raw_frame \<Rightarrow> bool" where
  "isBrowserMessageWithinLimit raw \<longleftrightarrow> int (browserMessageByteLength raw) \<le> BROWSER_WS_MAX_MESSAGE_BYTES"

definition isUserMessageContentWithinLimit :: "string \<Rightarrow> bool" where
  "isUserMessageContentWithinLimit content \<longleftrightarrow> int (utf8_length content) \<le> USER_MESSAGE_MAX_BYTES"

fun frame_text :: "(string \<Rightarrow> string) \<Rightarrow> raw_frame \<Rightarrow> string" where
  "frame_text utf8_decode (RawText s) = s"
| "frame_text utf8_decode (RawBytes bs) = utf8_decode bs"

definition parseBrowserMessage ::
  "(string \<Rightarrow> json option) \<Rightarrow> (string \<Rightarrow> string) \<Rightarrow> raw_frame \<Rightarrow> envelope_context \<Rightarrow> json option" where
  "parseBrowserMessage json_parse utf8_decode raw ctx =
     (if \<not> isBrowserMessageWithinLimit raw then None
      else
        (case json_parse (frame_text utf8_decode raw) of
           None \<Rightarrow> None
         | Some v \<Rightarrow> unwrapEnvelope v ctx))"

section \<open>Messages delivered twice\<close>

definition clientMessageId :: "json \<Rightarrow> string option" where
  "clientMessageId message =
     (if is_js_string (member message ''clientMsgId'') then Some (str_of (member message ''clientMsgId''))
      else if is_js_string (member message ''client_msg_id'') then Some (str_of (member message ''client_msg_id''))
      else None)"

definition deduplicateBrowserMessage ::
  "json \<Rightarrow> string list \<Rightarrow> session \<Rightarrow> nat \<Rightarrow> bool \<times> session" where
  "deduplicateBrowserMessage message idempotentTypes s processedIdLimit =
     (case clientMessageId message of
        None \<Rightarrow> (False, s)
      | Some i \<Rightarrow>
          if str_of (member message ''type'') \<notin> set idempotentTypes \<or> i = [] then (False, s)
          else if isDuplicateClientMessage s i then (True, s)
          else (False, rememberClientMessage s i processedIdLimit))"

section \<open>The idempotence window\<close>

text \<open>
  What the removal of duplicates relies on: the identifiers remembered are the last ones accepted,
  as many as the limit allows.
\<close>

definition last_n :: "nat \<Rightarrow> 'a list \<Rightarrow> 'a list" where
  "last_n n xs = drop (length xs - n) xs"

lemma last_n_append_one: "last_n n (last_n n xs @ [x]) = last_n n (xs @ [x])"
proof (cases n)
  case (Suc m)
  then have "length xs - (length xs - n + m) + (length xs - n) = length xs - m" by arith
  with Suc show ?thesis by (simp add: last_n_def)
qed (simp add: last_n_def)

lemma length_last_n: "length (last_n n xs) \<le> n"
  by (simp add: last_n_def)

locale id_window =
  fixes window :: "'s \<Rightarrow> 'i list"
    and known :: "'s \<Rightarrow> 'i \<Rightarrow> bool"
    and remember :: "'s \<Rightarrow> 'i \<Rightarrow> 's"
    and valid :: "'s \<Rightarrow> bool"
    and limit :: nat
  assumes known_window: "valid s \<Longrightarrow> known s i \<longleftrightarrow> i \<in> set (window s)"
    and remember_window: "valid s \<Longrightarrow> \<not> known s i \<Longrightarrow> window (remember s i) = last_n limit (window s @ [i])"
    and remember_valid: "valid s \<Longrightarrow> \<not> known s i \<Longrightarrow> valid (remember s i)"
    and window_bound: "valid s \<Longrightarrow> last_n limit (window s) = window s"
begin

text \<open>The identifiers accepted, in order, when a sequence of identifiers is offered.\<close>

fun accepted :: "'s \<Rightarrow> 'i list \<Rightarrow> 'i list" where
  "accepted s [] = []"
| "accepted s (i # is) = (if known s i then accepted s is else i # accepted (remember s i) is)"

lemma accepted_window:
  "valid s \<Longrightarrow> window s = last_n limit hist \<Longrightarrow>
   accepted s is = pre @ i # post \<Longrightarrow> i \<notin> set (last_n limit (hist @ pre))"
proof (induction "is" arbitrary: s hist pre)
  case (Cons j js)
  show ?case
  proof (cases "known s j")
    case True
    with Cons show ?thesis by simp
  next
    case False
    note next_valid = remember_valid [OF Cons.prems(1) False]
    have w: "window (remember s j) = last_n limit (hist @ [j])"
      using remember_window [OF Cons.prems(1) False] Cons.prems(2) by (simp add: last_n_append_one)
    show ?thesis
    proof (cases pre)
      case Nil
      with False Cons.prems show ?thesis using known_window [OF Cons.prems(1), of j] by simp
    next
      case (Cons k pre')
      with False Cons.prems(3) have "k = j" "accepted (remember s j) js = pre' @ i # post" by auto
      from Cons.IH [OF next_valid w this(2)] Cons \<open>k = j\<close> show ?thesis by simp
    qed
  qed
qed simp

end

lemma remember_ids:
  assumes "processed_inv limit s" and "1 \<le> limit" and "\<not> isDuplicateClientMessage s i"
  shows "ses_processedIds (rememberClientMessage s i limit) = last_n limit (ses_processedIds s @ [i])"
    and "processed_inv limit (rememberClientMessage s i limit)"
proof -
  define xs where "xs = ses_processedIds s @ [i]"
  have d: "distinct xs" and st: "insert i (ses_processedIdSet s) = set xs"
    using assms by (auto simp: processed_inv_def isDuplicateClientMessage_def xs_def)
  have rem: "rememberClientMessage s i limit =
      (if length xs > limit
       then s\<lparr>ses_processedIds := drop (length xs - limit) xs,
              ses_processedIdSet := set xs - set (take (length xs - limit) xs)\<rparr>
       else s\<lparr>ses_processedIds := xs, ses_processedIdSet := set xs\<rparr>)"
    by (simp only: rememberClientMessage_def Let_def xs_def [symmetric] st)
  then show "ses_processedIds (rememberClientMessage s i limit) = last_n limit (ses_processedIds s @ [i])"
    unfolding xs_def [symmetric] by (simp add: last_n_def)
  have "set xs - set (take k xs) = set (drop k xs)" for k
  proof -
    have "distinct (take k xs @ drop k xs)" using d by (simp only: append_take_drop_id)
    then have "set (take k xs) \<inter> set (drop k xs) = {}" by (simp only: distinct_append)
    moreover have "set (take k xs) \<union> set (drop k xs) = set xs" by (metis append_take_drop_id set_append)
    ultimately show ?thesis by blast
  qed
  with rem d show "processed_inv limit (rememberClientMessage s i limit)"
    by (auto simp: processed_inv_def distinct_drop)
qed

text \<open>The session's window with the limit of at least one that the bridge configures.\<close>

interpretation replay_window: id_window ses_processedIds isDuplicateClientMessage
  "\<lambda>s i. rememberClientMessage s i (Suc n)" "processed_inv (Suc n)" "Suc n" for n
proof unfold_locales
  fix s :: session and i :: string
  assume inv: "processed_inv (Suc n) s"
  show "isDuplicateClientMessage s i \<longleftrightarrow> i \<in> set (ses_processedIds s)"
    using inv by (simp add: isDuplicateClientMessage_def processed_inv_def)
  show "last_n (Suc n) (ses_processedIds s) = ses_processedIds s"
    using inv by (simp add: processed_inv_def last_n_def)
  assume "\<not> isDuplicateClientMessage s i"
  with inv show "ses_processedIds (rememberClientMessage s i (Suc n)) = last_n (Suc n) (ses_processedIds s @ [i])"
    and "processed_inv (Suc n) (rememberClientMessage s i (Suc n))"
    by (simp_all add: remember_ids)
qed

text \<open>The messages let through, in order, when a sequence of messages arrives.\<close>

fun let_through :: "session \<Rightarrow> nat \<Rightarrow> json list \<Rightarrow> json list" where
  "let_through s limit [] = []"
| "let_through s limit (m # ms) =
     (let (duplicate, s') = deduplicateBrowserMessage m IDEMPOTENT_BROWSER_MESSAGE_TYPES s limit
      in if duplicate then let_through s' limit ms else m # let_through s' limit ms)"

definition dedup_id :: "json \<Rightarrow> string option" where
  "dedup_id m = (case clientMessageId m of
      Some i \<Rightarrow> if str_of (member m ''type'') \<in> set IDEMPOTENT_BROWSER_MESSAGE_TYPES \<and> i \<noteq> [] then Some i else None
    | None \<Rightarrow> None)"

lemma deduplicate_cases:
  "deduplicateBrowserMessage m IDEMPOTENT_BROWSER_MESSAGE_TYPES s limit =
     (case dedup_id m of
        None \<Rightarrow> (False, s)
      | Some i \<Rightarrow> if isDuplicateClientMessage s i then (True, s) else (False, rememberClientMessage s i limit))"
  by (auto simp: deduplicateBrowserMessage_def dedup_id_def split: option.splits)

definition dedup_ids :: "json list \<Rightarrow> string list" where
  "dedup_ids ms = List.map_filter dedup_id ms"

lemma let_through_accepted:
  "dedup_ids (let_through s (Suc n) ms) = replay_window.accepted n s (dedup_ids ms)"
proof (induction ms arbitrary: s)
  case (Cons m ms)
  then show ?case
    by (cases "dedup_id m") (auto simp: deduplicate_cases dedup_ids_def map_filter_simps)
qed (simp add: dedup_ids_def map_filter_simps)

section \<open>Properties\<close>

lemma text_bytes_sum:
  "text_bytes parts = sum_list (map (\<lambda>p. utf8_length (str_of (member p ''text'')))
     (filter (\<lambda>p. member p ''type'' = JString ''text'') parts))"
proof -
  have "foldl (\<lambda>total p. total + (f p :: nat)) a xs = a + sum_list (map f xs)" for f a and xs :: "json list"
    by (induction xs arbitrary: a) auto
  then show ?thesis by (simp add: text_bytes_def)
qed

text \<open>
  C37. At most once. Offer any sequence of browser messages to a session whose window is in order, with
  a window of \<open>n + 1\<close> identifiers. A message that carries an identifier and has an idempotent type is
  let through only if its identifier is not among the last \<open>n + 1\<close> identifiers let through before it
  (those remembered at the start included).
\<close>

theorem browser_messages_at_most_once:
  assumes "processed_inv (Suc n) s"
    and "dedup_ids (let_through s (Suc n) ms) = before @ i # after"
  shows "i \<notin> set (last_n (Suc n) (ses_processedIds s @ before))"
proof -
  have "replay_window.accepted n s (dedup_ids ms) = before @ i # after"
    using assms(2) by (simp add: let_through_accepted)
  moreover have "ses_processedIds s = last_n (Suc n) (ses_processedIds s)"
    using assms(1) by (simp add: processed_inv_def last_n_def)
  ultimately show ?thesis using replay_window.accepted_window [OF assms(1)] by blast
qed

definition sample_retry :: "string \<Rightarrow> json" where
  "sample_retry i = JObject [(''type'', JString ''retry''), (''clientMsgId'', JString i)]"

theorem browser_messages_at_most_once_witness:
  "dedup_ids (let_through (example_session\<lparr>ses_processedIds := [], ses_processedIdSet := {}\<rparr>) (Suc 1)
     [sample_retry ''a'', sample_retry ''b'', sample_retry ''a'']) = [''a'', ''b''] \<and>
   ''b'' \<notin> set (last_n (Suc 1) ([] @ [''a'']))"
proof -
  let ?s = "example_session\<lparr>ses_processedIds := [], ses_processedIdSet := {}\<rparr>"
  let ?ms = "[sample_retry ''a'', sample_retry ''b'', sample_retry ''a'']"
  have i: "dedup_id (sample_retry ''a'') = Some ''a''" "dedup_id (sample_retry ''b'') = Some ''b''"
    by code_simp+
  have inv: "processed_inv (Suc 1) ?s" by (simp add: processed_inv_def)
  have run: "dedup_ids (let_through ?s (Suc 1) ?ms) = [''a''] @ ''b'' # []"
    by (simp add: deduplicate_cases i dedup_ids_def map_filter_simps isDuplicateClientMessage_def
        rememberClientMessage_def)
  from browser_messages_at_most_once [OF inv run] run show ?thesis by simp
qed

text \<open>
  Only bounded, bound messages get in. A frame that is parsed to a message is within the frame
  limit; its envelope carries the protocol version, the epoch and the context identifier of the
  connection and the type of the message; and an agent message has a user's role, at least one part,
  only text and image parts, and at most \<open>USER_MESSAGE_MAX_BYTES\<close> bytes of text over all its parts.
\<close>

theorem parsed_browser_message_is_bounded:
  assumes "parseBrowserMessage json_parse utf8_decode raw ctx = Some m"
  shows "int (browserMessageByteLength raw) \<le> BROWSER_WS_MAX_MESSAGE_BYTES \<and>
    (\<exists>v. json_parse (frame_text utf8_decode raw) = Some v \<and>
       member v ''protocolVersion'' = JNumber (JInt 1) \<and>
       member v ''contextEpoch'' = JNumber (JInt (ctx_epoch ctx)) \<and>
       member v ''contextId'' = JString (ctx_id ctx) \<and>
       member v ''kind'' = member m ''type'' \<and> str_of (member m ''type'') \<in> set MESSAGE_TYPES) \<and>
    (member m ''type'' = JString ''agent_message'' \<longrightarrow>
      (let message = member m ''message'';
           parts = elems_of (member message ''content'') @ elems_of (member message ''displayContent'')
       in member message ''role'' = JString ''user'' \<and> parts \<noteq> [] \<and>
          (\<forall>p \<in> set parts. member p ''type'' = JString ''text'' \<or> member p ''type'' = JString ''image'') \<and>
          int (sum_list (map (\<lambda>p. utf8_length (str_of (member p ''text'')))
            (filter (\<lambda>p. member p ''type'' = JString ''text'') parts))) \<le> USER_MESSAGE_MAX_BYTES))"
proof -
  obtain v where v: "json_parse (frame_text utf8_decode raw) = Some v" "unwrapEnvelope v ctx = Some m"
    and limit: "int (browserMessageByteLength raw) \<le> BROWSER_WS_MAX_MESSAGE_BYTES"
    using assms by (auto simp: parseBrowserMessage_def isBrowserMessageWithinLimit_def
        split: if_splits option.splits)
  have env: "m = member v ''payload''" "member v ''protocolVersion'' = JNumber (JInt 1)"
    "member v ''contextEpoch'' = JNumber (JInt (ctx_epoch ctx))"
    "member v ''contextId'' = JString (ctx_id ctx)" "member v ''kind'' = member m ''type''"
    "isOutgoingMessage m"
    using v(2) by (auto simp: unwrapEnvelope_def WS_PROTOCOL_VERSION_def split: if_splits)
  have t: "str_of (member m ''type'') \<in> set MESSAGE_TYPES"
    using env(6) by (auto simp: isOutgoingMessage_def simp del: Let_def split: if_splits)
  have part: "validMessagePart True p \<Longrightarrow>
      member p ''type'' = JString ''text'' \<or> member p ''type'' = JString ''image''" for p
    by (auto simp: validMessagePart_def split: if_splits)
  have agent: "validAgentMessage (member m ''message'')" if "member m ''type'' = JString ''agent_message''"
    using env(6) that by (auto simp: isOutgoingMessage_def split: if_splits)
  have bounded: "let parts = elems_of (member x ''content'') @ elems_of (member x ''displayContent'')
       in member x ''role'' = JString ''user'' \<and> parts \<noteq> [] \<and>
          (\<forall>p \<in> set parts. member p ''type'' = JString ''text'' \<or> member p ''type'' = JString ''image'') \<and>
          int (text_bytes parts) \<le> USER_MESSAGE_MAX_BYTES" if "validAgentMessage x" for x
    using that part
    by (cases "member x ''displayContent'' = JUndefined")
      (auto simp: validAgentMessage_def list_all_iff Let_def split: if_splits)
  show ?thesis
    using v(1) env(2-5) t limit bounded [OF agent, unfolded text_bytes_sum Let_def] unfolding Let_def by blast
qed

definition sample_message :: json where
  "sample_message = JObject [(''type'', JString ''agent_message''), (''generation'', JNumber (JInt 1)),
     (''message'', JObject [(''id'', JString ''m1''), (''role'', JString ''user''),
        (''timestamp'', JNumber (JInt 5)),
        (''content'', JArray [JObject [(''type'', JString ''text''), (''text'', JString ''hello'')]])])]"

definition sample_context :: envelope_context where
  "sample_context = \<lparr>ctx_epoch = 3, ctx_id = replicate 32 (CHR ''a'')\<rparr>"

definition sample_envelope :: json where
  "sample_envelope = JObject [(''protocolVersion'', JNumber (JInt 1)), (''eventId'', JString ''e1''),
     (''contextEpoch'', JNumber (JInt 3)), (''contextId'', JString (replicate 32 (CHR ''a''))),
     (''kind'', JString ''agent_message''), (''payload'', sample_message)]"

theorem parsed_browser_message_is_bounded_witness:
  "int (sum_list (map (\<lambda>p. utf8_length (str_of (member p ''text'')))
     (filter (\<lambda>p. member p ''type'' = JString ''text'')
       (elems_of (member (member sample_message ''message'') ''content'') @
        elems_of (member (member sample_message ''message'') ''displayContent''))))) \<le> USER_MESSAGE_MAX_BYTES"
proof -
  have p: "parseBrowserMessage (\<lambda>_. Some sample_envelope) (\<lambda>s. s) (RawText ''x'') sample_context = Some sample_message"
    and t: "member sample_message ''type'' = JString ''agent_message''" by code_simp+
  from parsed_browser_message_is_bounded [OF p] t show ?thesis by (simp only: Let_def)
qed

text \<open>
  Coercion weakens the validators: where they compare \<open>String(value)\<close>, an array of one string
  passes as that string. A thinking level may be an array, and an interaction response of the kind
  \<open>["ask"]\<close> skips the check of its answers, which the kind \<open>"ask"\<close> does not pass.
\<close>

theorem coerced_values_pass_validation:
  "let response = (\<lambda>kind. JObject [(''type'', JString ''interaction_response''),
         (''generation'', JNumber (JInt 0)), (''requestId'', JString ''r''), (''kind'', kind),
         (''status'', JString ''submitted''), (''answers'', JString ''anything'')])
   in isOutgoingMessage (JObject [(''type'', JString ''set_thinking_level''),
         (''thinkingLevel'', JArray [JString ''high''])]) \<and>
      isOutgoingMessage (response (JArray [JString ''ask''])) \<and>
      \<not> isOutgoingMessage (response (JString ''ask''))"
  by code_simp

end
