(* ===== verification/App_Manifest.thy ===== *)
theory App_Manifest
  imports Prelude
begin

text \<open>
  The application manifest \<open>piwork.app.json\<close> (web/server/app-manifest.ts): parsing of untrusted JSON
  into the declared type, the uniqueness rules over its resources, and the analysis that decides
  whether an app may run as a temporary preview.

  An absent \<open>resources\<close> member and an absent or empty list are not distinguished by any reader of
  the manifest; both are the empty list here. The fields that can only hold one literal (version,
  runtime, storage, state, workersDev) are left out of the records. Error messages are values that
  carry the path they name.
\<close>

section \<open>Types\<close>

datatype resource_mode = CreateMode | AdoptMode

record kv_resource =
  kv_key :: string
  kv_binding :: string
  kv_mode :: resource_mode
  kv_namespaceId :: "string option"

record d1_resource =
  d1_key :: string
  d1_binding :: string
  d1_mode :: resource_mode
  d1_databaseId :: "string option"

record r2_resource =
  r2_key :: string
  r2_binding :: string
  r2_mode :: resource_mode
  r2_bucketName :: "string option"
  r2_jurisdiction :: "string option"

record durable_resource =
  do_binding :: string
  do_className :: string

record app_manifest =
  mf_kv :: "kv_resource list"
  mf_d1 :: "d1_resource list"
  mf_r2 :: "r2_resource list"
  mf_durableObjects :: "durable_resource list"
  mf_requestedCustomDomain :: "string option"

record binding_manifest =
  bm_kv :: "kv_resource list"
  bm_d1 :: "d1_resource list"
  bm_r2 :: "r2_resource list"
  bm_durableObjects :: "durable_resource list"
  bm_requestedCustomDomain :: "string option"
  bm_hasStatefulResources :: bool
  bm_temporaryEligible :: bool
  bm_sensitive :: bool

datatype manifest_error =
    MustBeObject string
  | UnsupportedField string string
  | InvalidField string
  | InvalidMode string
  | TooManyItems string nat
  | ExternalOnlyForAdopt string
  | InvalidVersion | InvalidRuntime
  | InvalidJurisdiction string
  | InvalidStorage string | InvalidState string
  | WorkersDevRequired | InvalidCustomDomain
  | DuplicateBinding | ReservedBinding | DuplicateKey string | DuplicateClassName
  | TemporaryUnavailable "string list"
  | NotJson

section \<open>Patterns\<close>

definition ident_start :: "char \<Rightarrow> bool" where
  "ident_start c \<longleftrightarrow> is_upper c \<or> is_lower c \<or> c = CHR ''_'' \<or> c = CHR ''$''"

definition IDENTIFIER_PATTERN :: "string \<Rightarrow> bool" where
  "IDENTIFIER_PATTERN s \<longleftrightarrow>
     (case s of [] \<Rightarrow> False
      | c # cs \<Rightarrow> ident_start c \<and> length cs \<le> 127 \<and> list_all (\<lambda>x. ident_start x \<or> is_digit x) cs)"

definition LOGICAL_KEY_PATTERN :: "string \<Rightarrow> bool" where
  "LOGICAL_KEY_PATTERN s \<longleftrightarrow>
     (case s of [] \<Rightarrow> False
      | c # cs \<Rightarrow> is_lower c \<and> length cs \<le> 63 \<and>
          list_all (\<lambda>x. is_lower x \<or> is_digit x \<or> x = CHR ''_'' \<or> x = CHR ''-'') cs)"

definition EXTERNAL_ID_PATTERN :: "string \<Rightarrow> bool" where
  "EXTERNAL_ID_PATTERN s \<longleftrightarrow>
     16 \<le> length s \<and> length s \<le> 128 \<and> list_all (\<lambda>x. is_alnum x \<or> x = CHR ''_'' \<or> x = CHR ''-'') s"

definition host_char :: "char \<Rightarrow> bool" where
  "host_char c \<longleftrightarrow> is_lower c \<or> is_digit c"

definition BUCKET_PATTERN :: "string \<Rightarrow> bool" where
  "BUCKET_PATTERN s \<longleftrightarrow>
     (length s = 1 \<or> 3 \<le> length s \<and> length s \<le> 63) \<and> host_char (hd s) \<and> host_char (last s) \<and>
     list_all (\<lambda>x. host_char x \<or> x = CHR ''-'') s"

section \<open>Readers\<close>

text \<open>\<open>object\<close>: the value itself, or the error.\<close>

definition as_object :: "json \<Rightarrow> string \<Rightarrow> manifest_error + json" where
  "as_object v path = (if \<not> is_record v then Inl (MustBeObject path) else Inr v)"

definition onlyKeys :: "json \<Rightarrow> string list \<Rightarrow> string \<Rightarrow> manifest_error + unit" where
  "onlyKeys v allowed path =
     (case filter (\<lambda>k. k \<notin> set allowed) (object_keys v) of
        [] \<Rightarrow> Inr ()
      | k # _ \<Rightarrow> Inl (UnsupportedField path k))"

definition stringField ::
  "json \<Rightarrow> string \<Rightarrow> (string \<Rightarrow> bool) \<Rightarrow> (string \<Rightarrow> string) \<Rightarrow> manifest_error + string" where
  "stringField v path pattern normalise =
     (if \<not> is_js_string v then Inl (InvalidField path)
      else
        let normalized = normalise (js_trim (str_of v))
        in if \<not> pattern normalized then Inl (InvalidField path) else Inr normalized)"

definition resourceMode :: "json \<Rightarrow> string \<Rightarrow> manifest_error + resource_mode" where
  "resourceMode v path =
     (if v = JString ''create'' then Inr CreateMode
      else if v = JString ''adopt'' then Inr AdoptMode
      else Inl (InvalidMode path))"

definition item_path :: "string \<Rightarrow> nat \<Rightarrow> string" where
  "item_path path index = path @ ''['' @ show_nat index @ '']''"

definition resourceArray ::
  "json \<Rightarrow> string \<Rightarrow> nat \<Rightarrow> (json \<Rightarrow> string \<Rightarrow> manifest_error + 'a) \<Rightarrow> manifest_error + 'a list" where
  "resourceArray v path maximum parse =
     (if v = JUndefined then Inr []
      else if \<not> is_js_array v \<or> length (elems_of v) > maximum then Inl (TooManyItems path maximum)
      else map_result
        (\<lambda>(index, item). bind_result (as_object item (item_path path index))
           (\<lambda>entry. parse entry (item_path path index)))
        (enumerate 0 (elems_of v)))"

record parsed_resource =
  pr_key :: string
  pr_binding :: string
  pr_mode :: resource_mode
  pr_external :: "string option"

definition createOrAdopt ::
  "json \<Rightarrow> string \<Rightarrow> string \<Rightarrow> (string \<Rightarrow> bool) \<Rightarrow> manifest_error + parsed_resource" where
  "createOrAdopt v path externalField externalPattern =
     bind_result (stringField (member v ''key'') (path @ ''.key'') LOGICAL_KEY_PATTERN js_lower) (\<lambda>key.
     bind_result (stringField (member v ''binding'') (path @ ''.binding'') IDENTIFIER_PATTERN (\<lambda>s. s)) (\<lambda>binding.
     bind_result (resourceMode (member v ''mode'') (path @ ''.mode'')) (\<lambda>mode.
       let rawExternal = member v externalField in
       if mode = AdoptMode then
         bind_result (stringField rawExternal (path @ ''.'' @ externalField) externalPattern (\<lambda>s. s)) (\<lambda>external.
           Inr \<lparr>pr_key = key, pr_binding = binding, pr_mode = mode, pr_external = Some external\<rparr>)
       else if rawExternal \<noteq> JUndefined then Inl (ExternalOnlyForAdopt (path @ ''.'' @ externalField))
       else Inr \<lparr>pr_key = key, pr_binding = binding, pr_mode = mode, pr_external = None\<rparr>)))"

definition ipv4_octet :: "string \<Rightarrow> bool" where
  "ipv4_octet s \<longleftrightarrow>
     s \<noteq> [] \<and> length s \<le> 3 \<and> list_all is_digit s \<and> (length s = 1 \<or> hd s \<noteq> CHR ''0'') \<and> decimal_value s \<le> 255"

text \<open>
  \<open>isIP\<close> of node:net is only asked whether its result is not 0. Texts of IPv6 addresses contain a
  colon, which the check of the labels refuses anyway, so IPv4 is what matters.
\<close>

definition is_ipv4 :: "string \<Rightarrow> bool" where
  "is_ipv4 s \<longleftrightarrow> (let parts = js_split (CHR ''.'') s in length parts = 4 \<and> list_all ipv4_octet parts)"

definition valid_label :: "string \<Rightarrow> bool" where
  "valid_label label \<longleftrightarrow>
     label \<noteq> [] \<and> length label \<le> 63 \<and> host_char (hd label) \<and> host_char (last label) \<and>
     list_all (\<lambda>x. host_char x \<or> x = CHR ''-'') label"

definition strip_final_dot :: "string \<Rightarrow> string" where
  "strip_final_dot s = (if s \<noteq> [] \<and> last s = CHR ''.'' then butlast s else s)"

definition normalizeHostname :: "string \<Rightarrow> string option" where
  "normalizeHostname v =
     (let hostname = strip_final_dot (js_lower (js_trim v)) in
      if hostname = [] \<or> js_includes hostname (CHR ''*'') \<or> hostname = ''localhost'' \<or> is_ipv4 hostname \<or>
         length hostname > 253 \<or> \<not> js_includes hostname (CHR ''.'') \<or>
         list_ex (\<lambda>label. \<not> valid_label label) (js_split (CHR ''.'') hostname)
      then None else Some hostname)"

section \<open>Analysis\<close>

definition stateful :: "app_manifest \<Rightarrow> bool" where
  "stateful m \<longleftrightarrow>
     length (mf_kv m) > 0 \<or> length (mf_d1 m) > 0 \<or> length (mf_r2 m) > 0 \<or> length (mf_durableObjects m) > 0"

definition has_domain :: "app_manifest \<Rightarrow> bool" where
  "has_domain m \<longleftrightarrow> (case mf_requestedCustomDomain m of None \<Rightarrow> False | Some d \<Rightarrow> d \<noteq> [])"

definition analyzeTemporaryAppCapabilities :: "app_manifest \<Rightarrow> bool \<times> string list" where
  "analyzeTemporaryAppCapabilities m =
     (let reasons = (if stateful m then [''stateful_resources_require_byoc''] else []) @
                    (if has_domain m then [''custom_domain_requires_byoc''] else [])
      in (length reasons = 0, reasons))"

definition assertTemporaryAppEligible :: "app_manifest \<Rightarrow> manifest_error + unit" where
  "assertTemporaryAppEligible m =
     (let (eligible, reasons) = analyzeTemporaryAppCapabilities m
      in if \<not> eligible then Inl (TemporaryUnavailable reasons) else Inr ())"

definition materializeAppBindingManifest :: "app_manifest \<Rightarrow> binding_manifest" where
  "materializeAppBindingManifest m =
     (let total = length (mf_kv m) + length (mf_d1 m) + length (mf_r2 m) + length (mf_durableObjects m)
      in \<lparr>bm_kv = mf_kv m, bm_d1 = mf_d1 m, bm_r2 = mf_r2 m, bm_durableObjects = mf_durableObjects m,
          bm_requestedCustomDomain = mf_requestedCustomDomain m,
          bm_hasStatefulResources = total > 0,
          bm_temporaryEligible = fst (analyzeTemporaryAppCapabilities m),
          bm_sensitive = (total > 0 \<or> has_domain m)\<rparr>)"

definition binding_names :: "binding_manifest \<Rightarrow> string list" where
  "binding_names b =
     map kv_binding (bm_kv b) @ map d1_binding (bm_d1 b) @ map r2_binding (bm_r2 b) @
     map do_binding (bm_durableObjects b)"

definition assertUniqueResources :: "binding_manifest \<Rightarrow> manifest_error + unit" where
  "assertUniqueResources b =
     (let bindingNames = binding_names b in
      if card (set bindingNames) \<noteq> length bindingNames then Inl DuplicateBinding
      else if list_ex (\<lambda>name. name = ''PIWORK_WRAPPER_CONFIG'' \<or> name = ''ASSETS'') bindingNames
      then Inl ReservedBinding
      else if card (set (map kv_key (bm_kv b))) \<noteq> length (bm_kv b) then Inl (DuplicateKey ''kv'')
      else if card (set (map d1_key (bm_d1 b))) \<noteq> length (bm_d1 b) then Inl (DuplicateKey ''d1'')
      else if card (set (map r2_key (bm_r2 b))) \<noteq> length (bm_r2 b) then Inl (DuplicateKey ''r2'')
      else if card (set (map do_className (bm_durableObjects b))) \<noteq> length (bm_durableObjects b)
      then Inl DuplicateClassName
      else Inr ())"

section \<open>Parsing\<close>

definition parse_kv :: "json \<Rightarrow> string \<Rightarrow> manifest_error + kv_resource" where
  "parse_kv entry path =
     bind_result (onlyKeys entry [''key'', ''binding'', ''mode'', ''namespaceId''] path) (\<lambda>_.
     bind_result (createOrAdopt entry path ''namespaceId'' EXTERNAL_ID_PATTERN) (\<lambda>p.
       Inr \<lparr>kv_key = pr_key p, kv_binding = pr_binding p, kv_mode = pr_mode p,
            kv_namespaceId = pr_external p\<rparr>))"

definition parse_d1 :: "json \<Rightarrow> string \<Rightarrow> manifest_error + d1_resource" where
  "parse_d1 entry path =
     bind_result (onlyKeys entry [''key'', ''binding'', ''mode'', ''databaseId''] path) (\<lambda>_.
     bind_result (createOrAdopt entry path ''databaseId'' EXTERNAL_ID_PATTERN) (\<lambda>p.
       Inr \<lparr>d1_key = pr_key p, d1_binding = pr_binding p, d1_mode = pr_mode p,
            d1_databaseId = pr_external p\<rparr>))"

definition parse_jurisdiction :: "json \<Rightarrow> string \<Rightarrow> manifest_error + string option" where
  "parse_jurisdiction v path =
     (if v = JUndefined then Inr None
      else
        let normalized = (if is_js_string v then js_lower (js_trim (str_of v)) else [])
        in if normalized \<noteq> ''default'' \<and> normalized \<noteq> ''eu'' \<and> normalized \<noteq> ''fedramp''
           then Inl (InvalidJurisdiction path) else Inr (Some normalized))"

definition parse_r2 :: "json \<Rightarrow> string \<Rightarrow> manifest_error + r2_resource" where
  "parse_r2 entry path =
     bind_result (onlyKeys entry [''key'', ''binding'', ''mode'', ''bucketName'', ''jurisdiction''] path) (\<lambda>_.
     bind_result (createOrAdopt entry path ''bucketName'' BUCKET_PATTERN) (\<lambda>p.
     bind_result (parse_jurisdiction (member entry ''jurisdiction'') path) (\<lambda>j.
       Inr \<lparr>r2_key = pr_key p, r2_binding = pr_binding p, r2_mode = pr_mode p,
            r2_bucketName = pr_external p, r2_jurisdiction = j\<rparr>)))"

definition parse_durable :: "json \<Rightarrow> string \<Rightarrow> manifest_error + durable_resource" where
  "parse_durable entry path =
     bind_result (onlyKeys entry [''binding'', ''className'', ''storage'', ''state''] path) (\<lambda>_.
     if member entry ''storage'' \<noteq> JString ''sqlite'' then Inl (InvalidStorage path)
     else if member entry ''state'' \<noteq> JString ''created'' then Inl (InvalidState path)
     else
       bind_result (stringField (member entry ''binding'') (path @ ''.binding'') IDENTIFIER_PATTERN (\<lambda>s. s)) (\<lambda>b.
       bind_result (stringField (member entry ''className'') (path @ ''.className'') IDENTIFIER_PATTERN (\<lambda>s. s)) (\<lambda>c.
         Inr \<lparr>do_binding = b, do_className = c\<rparr>)))"

definition parse_domain :: "json \<Rightarrow> manifest_error + string option" where
  "parse_domain v =
     (if v = JUndefined then Inr None
      else
        (case (if is_js_string v then normalizeHostname (str_of v) else None) of
           None \<Rightarrow> Inl InvalidCustomDomain
         | Some d \<Rightarrow> if d = [] then Inl InvalidCustomDomain else Inr (Some d)))"

definition parsePiworkAppManifest :: "json \<Rightarrow> manifest_error + app_manifest" where
  "parsePiworkAppManifest v =
     bind_result (as_object v ''piwork.app.json'') (\<lambda>root.
     bind_result (onlyKeys root [''version'', ''runtime'', ''resources'', ''exposure''] ''piwork.app.json'') (\<lambda>_.
     if member root ''version'' \<noteq> JNumber (JInt 1) then Inl InvalidVersion
     else if member root ''runtime'' \<noteq> JString ''cloudflare-workers'' then Inl InvalidRuntime
     else
       bind_result (if member root ''resources'' = JUndefined then Inr (JObject [])
                    else as_object (member root ''resources'') ''resources'') (\<lambda>resources.
       bind_result (onlyKeys resources [''kv'', ''d1'', ''r2'', ''durableObjects''] ''resources'') (\<lambda>_.
       bind_result (resourceArray (member resources ''kv'') ''resources.kv'' 16 parse_kv) (\<lambda>kv.
       bind_result (resourceArray (member resources ''d1'') ''resources.d1'' 8 parse_d1) (\<lambda>d1.
       bind_result (resourceArray (member resources ''r2'') ''resources.r2'' 8 parse_r2) (\<lambda>r2.
       bind_result (resourceArray (member resources ''durableObjects'') ''resources.durableObjects'' 16
                      parse_durable) (\<lambda>durableObjects.
       bind_result (as_object (member root ''exposure'') ''exposure'') (\<lambda>exposure.
       bind_result (onlyKeys exposure [''workersDev'', ''requestedCustomDomain''] ''exposure'') (\<lambda>_.
       if member exposure ''workersDev'' \<noteq> JBool True then Inl WorkersDevRequired
       else
         bind_result (parse_domain (member exposure ''requestedCustomDomain'')) (\<lambda>domain.
           let manifest = \<lparr>mf_kv = kv, mf_d1 = d1, mf_r2 = r2, mf_durableObjects = durableObjects,
                           mf_requestedCustomDomain = domain\<rparr>
           in bind_result (assertUniqueResources (materializeAppBindingManifest manifest)) (\<lambda>_.
                Inr manifest))))))))))))"

definition parsePiworkAppManifestText ::
  "(string \<Rightarrow> json option) \<Rightarrow> string \<Rightarrow> manifest_error + app_manifest" where
  "parsePiworkAppManifestText json_parse text =
     (case json_parse text of None \<Rightarrow> Inl NotJson | Some v \<Rightarrow> parsePiworkAppManifest v)"

section \<open>Well-formed manifests and their text\<close>

definition resource_ok :: "string \<Rightarrow> string \<Rightarrow> resource_mode \<Rightarrow> string option \<Rightarrow> (string \<Rightarrow> bool) \<Rightarrow> bool" where
  "resource_ok key binding mode ext pattern \<longleftrightarrow>
     LOGICAL_KEY_PATTERN key \<and> IDENTIFIER_PATTERN binding \<and> (mode = AdoptMode \<longleftrightarrow> ext \<noteq> None) \<and>
     (\<forall>e. ext = Some e \<longrightarrow> pattern e)"

definition kv_ok :: "kv_resource \<Rightarrow> bool" where
  "kv_ok r \<longleftrightarrow> resource_ok (kv_key r) (kv_binding r) (kv_mode r) (kv_namespaceId r) EXTERNAL_ID_PATTERN"

definition d1_ok :: "d1_resource \<Rightarrow> bool" where
  "d1_ok r \<longleftrightarrow> resource_ok (d1_key r) (d1_binding r) (d1_mode r) (d1_databaseId r) EXTERNAL_ID_PATTERN"

definition r2_ok :: "r2_resource \<Rightarrow> bool" where
  "r2_ok r \<longleftrightarrow> resource_ok (r2_key r) (r2_binding r) (r2_mode r) (r2_bucketName r) BUCKET_PATTERN \<and>
     r2_jurisdiction r \<in> {None, Some ''default'', Some ''eu'', Some ''fedramp''}"

definition durable_ok :: "durable_resource \<Rightarrow> bool" where
  "durable_ok r \<longleftrightarrow> IDENTIFIER_PATTERN (do_binding r) \<and> IDENTIFIER_PATTERN (do_className r)"

definition hostname_ok :: "string \<Rightarrow> bool" where
  "hostname_ok h \<longleftrightarrow> length h \<le> 253 \<and> CHR ''.'' \<in> set h \<and> \<not> is_ipv4 h \<and>
     list_all valid_label (js_split (CHR ''.'') h)"

definition unique_ok :: "app_manifest \<Rightarrow> bool" where
  "unique_ok m \<longleftrightarrow>
     (let names = map kv_binding (mf_kv m) @ map d1_binding (mf_d1 m) @ map r2_binding (mf_r2 m) @
        map do_binding (mf_durableObjects m)
      in distinct names \<and> ''PIWORK_WRAPPER_CONFIG'' \<notin> set names \<and> ''ASSETS'' \<notin> set names) \<and>
     distinct (map kv_key (mf_kv m)) \<and> distinct (map d1_key (mf_d1 m)) \<and> distinct (map r2_key (mf_r2 m)) \<and>
     distinct (map do_className (mf_durableObjects m))"

definition manifest_ok :: "app_manifest \<Rightarrow> bool" where
  "manifest_ok m \<longleftrightarrow>
     length (mf_kv m) \<le> 16 \<and> length (mf_d1 m) \<le> 8 \<and> length (mf_r2 m) \<le> 8 \<and>
     length (mf_durableObjects m) \<le> 16 \<and>
     list_all kv_ok (mf_kv m) \<and> list_all d1_ok (mf_d1 m) \<and> list_all r2_ok (mf_r2 m) \<and>
     list_all durable_ok (mf_durableObjects m) \<and>
     (\<forall>d. mf_requestedCustomDomain m = Some d \<longrightarrow> hostname_ok d) \<and> unique_ok m"

fun mode_json :: "resource_mode \<Rightarrow> json" where
  "mode_json CreateMode = JString ''create''"
| "mode_json AdoptMode = JString ''adopt''"

definition opt_member :: "string \<Rightarrow> string option \<Rightarrow> (string \<times> json) list" where
  "opt_member k x = (case x of None \<Rightarrow> [] | Some s \<Rightarrow> [(k, JString s)])"

definition kv_json :: "kv_resource \<Rightarrow> json" where
  "kv_json r = JObject ([(''key'', JString (kv_key r)), (''binding'', JString (kv_binding r)),
     (''mode'', mode_json (kv_mode r))] @ opt_member ''namespaceId'' (kv_namespaceId r))"

definition d1_json :: "d1_resource \<Rightarrow> json" where
  "d1_json r = JObject ([(''key'', JString (d1_key r)), (''binding'', JString (d1_binding r)),
     (''mode'', mode_json (d1_mode r))] @ opt_member ''databaseId'' (d1_databaseId r))"

definition r2_json :: "r2_resource \<Rightarrow> json" where
  "r2_json r = JObject ([(''key'', JString (r2_key r)), (''binding'', JString (r2_binding r)),
     (''mode'', mode_json (r2_mode r))] @ opt_member ''bucketName'' (r2_bucketName r) @
     opt_member ''jurisdiction'' (r2_jurisdiction r))"

definition durable_json :: "durable_resource \<Rightarrow> json" where
  "durable_json r = JObject [(''binding'', JString (do_binding r)), (''className'', JString (do_className r)),
     (''storage'', JString ''sqlite''), (''state'', JString ''created'')]"

definition list_member :: "string \<Rightarrow> ('a \<Rightarrow> json) \<Rightarrow> 'a list \<Rightarrow> (string \<times> json) list" where
  "list_member k f xs = (if xs = [] then [] else [(k, JArray (map f xs))])"

definition resources_json :: "app_manifest \<Rightarrow> json" where
  "resources_json m = JObject (list_member ''kv'' kv_json (mf_kv m) @ list_member ''d1'' d1_json (mf_d1 m) @
     list_member ''r2'' r2_json (mf_r2 m) @ list_member ''durableObjects'' durable_json (mf_durableObjects m))"

text \<open>The JSON value of the object that \<open>parsePiworkAppManifest\<close> returns.\<close>

definition manifest_json :: "app_manifest \<Rightarrow> json" where
  "manifest_json m = JObject ([(''version'', JNumber (JInt 1)), (''runtime'', JString ''cloudflare-workers'')] @
     (if stateful m then [(''resources'', resources_json m)] else []) @
     [(''exposure'', JObject ((''workersDev'', JBool True) #
        opt_member ''requestedCustomDomain'' (mf_requestedCustomDomain m)))])"

section \<open>Strings that normalisation keeps\<close>

lemma js_trim_no_space: "list_all (\<lambda>c. \<not> js_space c) s \<Longrightarrow> js_trim s = s"
proof -
  assume a: "list_all (\<lambda>c. \<not> js_space c) s"
  then have "dropWhile js_space s = s" "dropWhile js_space (rev s) = rev s"
    by (auto simp: list_all_iff dropWhile_eq_self_iff hd_rev)
  then show ?thesis by (simp add: js_trim_def)
qed

lemma plain_not_space: "is_alnum c \<or> c = CHR ''_'' \<or> c = CHR ''$'' \<or> c = CHR ''-'' \<or> c = CHR ''.'' \<Longrightarrow> \<not> js_space c"
  by (auto simp: js_space_def is_alnum_def is_digit_def is_upper_def is_lower_def)

lemma lower_fixed: "is_lower c \<or> is_digit c \<or> c = CHR ''_'' \<or> c = CHR ''-'' \<or> c = CHR ''.'' \<Longrightarrow> lower_char c = c"
  by (auto simp: lower_char_def is_lower_def is_digit_def Let_def)

lemma identifier_trim [simp]: "IDENTIFIER_PATTERN s \<Longrightarrow> js_trim s = s"
  using plain_not_space
  by (intro js_trim_no_space)
    (auto simp: IDENTIFIER_PATTERN_def ident_start_def is_alnum_def list_all_iff split: list.splits)

lemma logical_key_fixed [simp]: "LOGICAL_KEY_PATTERN s \<Longrightarrow> js_lower (js_trim s) = s"
proof -
  assume k: "LOGICAL_KEY_PATTERN s"
  have c: "is_lower c \<or> is_digit c \<or> c = CHR ''_'' \<or> c = CHR ''-''" if "c \<in> set s" for c
    using k that by (auto simp: LOGICAL_KEY_PATTERN_def list_all_iff split: list.splits)
  then have "list_all (\<lambda>c. \<not> js_space c) s"
    using plain_not_space by (auto simp: list_all_iff is_alnum_def)
  moreover have "js_lower s = s" using c lower_fixed by (auto simp: js_lower_def intro!: map_idI)
  ultimately show ?thesis by (simp add: js_trim_no_space)
qed

lemma external_trim [simp]: "EXTERNAL_ID_PATTERN s \<Longrightarrow> js_trim s = s" "BUCKET_PATTERN s \<Longrightarrow> js_trim s = s"
  using plain_not_space
  by (intro js_trim_no_space; auto simp: EXTERNAL_ID_PATTERN_def BUCKET_PATTERN_def host_char_def is_alnum_def
      list_all_iff)+

lemma split_final_separator:
  "h \<noteq> [] \<Longrightarrow> last h = c \<Longrightarrow> \<exists>p ps. js_split c h = p # ps \<and> ps \<noteq> [] \<and> last ps = []"
proof (induction h)
  case (Cons x xs)
  show ?case
  proof (cases xs)
    case Nil
    with Cons.prems show ?thesis by simp
  next
    case (Cons y ys)
    with Cons.IH Cons.prems obtain p ps where "js_split c xs = p # ps" "ps \<noteq> []" "last ps = []" by auto
    then show ?thesis by simp
  qed
qed simp

lemma hostname_chars:
  assumes "list_all valid_label (js_split (CHR ''.'') h)" and "c \<in> set h"
  shows "host_char c \<or> c = CHR ''-'' \<or> c = CHR ''.''"
proof -
  have "c \<in> set (js_join [CHR ''.''] (js_split (CHR ''.'') h))" using assms(2) by (simp add: js_join_split)
  then consider "c = CHR ''.''" | p where "p \<in> set (js_split (CHR ''.'') h)" "c \<in> set p"
    using js_join_chars [of "[CHR ''.'']" "js_split (CHR ''.'') h"] by auto
  then show ?thesis using assms(1) by cases (auto simp: list_all_iff valid_label_def)
qed

lemma hostname_fixed:
  assumes "hostname_ok h"
  shows "normalizeHostname h = Some h" and "h \<noteq> []"
proof -
  have l: "list_all valid_label (js_split (CHR ''.'') h)" and dot: "CHR ''.'' \<in> set h"
    using assms by (simp_all add: hostname_ok_def)
  note ch = hostname_chars [OF l]
  show ne: "h \<noteq> []" using dot by auto
  have "list_all (\<lambda>c. \<not> js_space c) h"
    using ch plain_not_space unfolding list_all_iff host_char_def is_alnum_def by blast
  then have trim: "js_trim h = h" by (rule js_trim_no_space)
  have low: "js_lower h = h"
    unfolding js_lower_def by (rule map_idI) (use ch lower_fixed in \<open>auto simp: host_char_def\<close>)
  have "last h \<noteq> CHR ''.''"
  proof
    assume "last h = CHR ''.''"
    from split_final_separator [OF ne this] obtain p ps where
      "js_split (CHR ''.'') h = p # ps" "ps \<noteq> []" "last ps = []" by blast
    then have "[] \<in> set (js_split (CHR ''.'') h)" by (metis last_in_set list.set_intros(2))
    with l show False by (auto simp: list_all_iff valid_label_def)
  qed
  then have strip: "strip_final_dot h = h" by (simp add: strip_final_dot_def)
  have star: "\<not> js_includes h (CHR ''*'')"
  proof
    assume "js_includes h (CHR ''*'')"
    then have "host_char (CHR ''*'') \<or> CHR ''*'' = CHR ''-'' \<or> CHR ''*'' = CHR ''.''"
      using ch by (simp only: js_includes_def)
    then show False by (simp add: host_char_def is_lower_def is_digit_def)
  qed
  have "h \<noteq> ''localhost''" using dot by auto
  with assms ne star show "normalizeHostname h = Some h"
    by (auto simp: normalizeHostname_def trim low strip hostname_ok_def js_includes_def list_all_iff
        list_ex_iff)
qed

lemma normalizeHostname_ok: "normalizeHostname s = Some d \<Longrightarrow> hostname_ok d"
  by (auto simp: normalizeHostname_def hostname_ok_def Let_def js_includes_def list_all_iff list_ex_iff
      split: if_splits)

section \<open>Parsed manifests are well-formed\<close>

lemma stringField_Inr: "stringField v path pattern f = Inr x \<Longrightarrow> pattern x"
  by (auto simp: stringField_def Let_def split: if_splits)

lemma createOrAdopt_ok:
  assumes "createOrAdopt v path field pattern = Inr p"
  shows "resource_ok (pr_key p) (pr_binding p) (pr_mode p) (pr_external p) pattern"
  using assms
  by (auto simp: createOrAdopt_def bind_result_Inr Let_def resource_ok_def resourceMode_def
      dest: stringField_Inr split: if_splits)

lemma parse_kv_ok: "parse_kv e path = Inr r \<Longrightarrow> kv_ok r"
  by (auto simp: parse_kv_def bind_result_Inr kv_ok_def dest: createOrAdopt_ok)

lemma parse_d1_ok: "parse_d1 e path = Inr r \<Longrightarrow> d1_ok r"
  by (auto simp: parse_d1_def bind_result_Inr d1_ok_def dest: createOrAdopt_ok)

lemma parse_r2_ok: "parse_r2 e path = Inr r \<Longrightarrow> r2_ok r"
  by (auto simp: parse_r2_def bind_result_Inr r2_ok_def parse_jurisdiction_def Let_def
      dest: createOrAdopt_ok split: if_splits)

lemma parse_durable_ok: "parse_durable e path = Inr r \<Longrightarrow> durable_ok r"
  by (auto simp: parse_durable_def bind_result_Inr durable_ok_def dest: stringField_Inr split: if_splits)

lemma resourceArray_ok:
  assumes "resourceArray v path k parse = Inr xs" and "\<And>e p x. parse e p = Inr x \<Longrightarrow> P x"
  shows "length xs \<le> k \<and> list_all P xs"
proof (cases "v = JUndefined")
  case False
  let ?f = "\<lambda>(index, item). bind_result (as_object item (item_path path index))
      (\<lambda>entry. parse entry (item_path path index))"
  from assms(1) False have m: "map_result ?f (enumerate 0 (elems_of v)) = Inr xs" "length (elems_of v) \<le> k"
    by (auto simp: resourceArray_def split: if_splits)
  have "\<forall>x \<in> set xs. P x"
    using m(1) by (rule map_result_all) (auto simp: bind_result_Inr intro: assms(2))
  with m map_result_length [OF m(1)] show ?thesis by (simp add: list_all_iff)
qed (use assms in \<open>simp add: resourceArray_def\<close>)

lemma assertUnique_iff:
  "assertUniqueResources (materializeAppBindingManifest m) = Inr u \<longleftrightarrow> unique_ok m"
proof -
  have cd: "card (set xs) = length xs \<longleftrightarrow> distinct xs" for xs :: "string list"
    using card_distinct distinct_card by blast
  have cd_map: "card (set (map f xs)) = length xs \<longleftrightarrow> distinct (map f xs)" for f :: "'a \<Rightarrow> string" and xs
    using cd [of "map f xs"] by simp
  define names where "names = map kv_binding (mf_kv m) @ map d1_binding (mf_d1 m) @
    map r2_binding (mf_r2 m) @ map do_binding (mf_durableObjects m)"
  have "binding_names (materializeAppBindingManifest m) = names"
    by (simp add: binding_names_def materializeAppBindingManifest_def Let_def names_def)
  moreover have "bm_kv (materializeAppBindingManifest m) = mf_kv m"
    "bm_d1 (materializeAppBindingManifest m) = mf_d1 m" "bm_r2 (materializeAppBindingManifest m) = mf_r2 m"
    "bm_durableObjects (materializeAppBindingManifest m) = mf_durableObjects m"
    by (simp_all add: materializeAppBindingManifest_def Let_def)
  ultimately show ?thesis
    unfolding assertUniqueResources_def unique_ok_def Let_def names_def [symmetric]
    by (auto simp: cd cd_map list_ex_iff simp del: distinct_map set_map)
qed

lemma parse_domain_ok: "parse_domain v = Inr x \<Longrightarrow> (\<forall>d. x = Some d \<longrightarrow> hostname_ok d)"
  by (auto simp: parse_domain_def split: if_splits option.splits dest: normalizeHostname_ok)

section \<open>Well-formed manifests are parsed back\<close>

lemma stringField_fixed:
  "pattern s \<Longrightarrow> f (js_trim s) = s \<Longrightarrow> stringField (JString s) path pattern f = Inr s"
  by (simp add: stringField_def)

lemma resourceMode_json [simp]: "resourceMode (mode_json m) path = Inr m"
  by (cases m) (simp_all add: resourceMode_def)

lemma createOrAdopt_json:
  assumes "resource_ok key binding mode ext pattern"
    and "member v ''key'' = JString key" and "member v ''binding'' = JString binding"
    and "member v ''mode'' = mode_json mode"
    and "member v field = (case ext of None \<Rightarrow> JUndefined | Some e \<Rightarrow> JString e)"
    and "\<And>e. pattern e \<Longrightarrow> js_trim e = e"
  shows "createOrAdopt v path field pattern =
    Inr \<lparr>pr_key = key, pr_binding = binding, pr_mode = mode, pr_external = ext\<rparr>"
  using assms
  by (cases ext; cases mode)
    (auto simp: createOrAdopt_def resource_ok_def stringField_fixed resourceMode_def Let_def)

lemma onlyKeys_Inr: "onlyKeys v allowed path = Inr () \<longleftrightarrow> set (object_keys v) \<subseteq> set allowed"
proof -
  have "filter (\<lambda>k. k \<notin> set allowed) ks = [] \<longleftrightarrow> set ks \<subseteq> set allowed" for ks
    by (auto simp: filter_empty_conv)
  from this [of "object_keys v"] show ?thesis
    by (auto simp: onlyKeys_def split: list.splits)
qed

lemma member_Cons: "member (JObject ((k', x) # ms)) k = (if k = k' then x else member (JObject ms) k)"
  by (simp add: member_def)

lemma member_append:
  "member (JObject (ms @ ns)) k = (if k \<in> fst ` set ms then member (JObject ms) k else member (JObject ns) k)"
  by (auto simp: member_def map_add_def map_of_eq_None_iff split: option.splits
      dest: map_of_SomeD) (force dest: map_of_SomeD)+

lemma member_Nil [simp]: "member (JObject []) k = JUndefined"
  by (simp add: member_def)

lemma member_opt [simp]:
  "member (JObject (opt_member k x)) k' = (if k' = k then (case x of None \<Rightarrow> JUndefined | Some s \<Rightarrow> JString s) else JUndefined)"
  by (auto simp: opt_member_def member_Cons split: option.splits)

lemma keys_opt [simp]: "fst ` set (opt_member k x) = (if x = None then {} else {k})"
  by (auto simp: opt_member_def split: option.splits)

lemma parse_kv_json: "kv_ok r \<Longrightarrow> parse_kv (kv_json r) path = Inr r"
proof -
  assume ok: "kv_ok r"
  have k: "onlyKeys (kv_json r) [''key'', ''binding'', ''mode'', ''namespaceId''] path = Inr ()"
    by (auto simp: onlyKeys_Inr kv_json_def object_keys_def)
  have "createOrAdopt (kv_json r) path ''namespaceId'' EXTERNAL_ID_PATTERN =
      Inr \<lparr>pr_key = kv_key r, pr_binding = kv_binding r, pr_mode = kv_mode r, pr_external = kv_namespaceId r\<rparr>"
    using ok by (intro createOrAdopt_json) (auto simp: kv_ok_def kv_json_def member_Cons)
  with k show ?thesis by (simp add: parse_kv_def)
qed

lemma parse_d1_json: "d1_ok r \<Longrightarrow> parse_d1 (d1_json r) path = Inr r"
proof -
  assume ok: "d1_ok r"
  have k: "onlyKeys (d1_json r) [''key'', ''binding'', ''mode'', ''databaseId''] path = Inr ()"
    by (auto simp: onlyKeys_Inr d1_json_def object_keys_def)
  have "createOrAdopt (d1_json r) path ''databaseId'' EXTERNAL_ID_PATTERN =
      Inr \<lparr>pr_key = d1_key r, pr_binding = d1_binding r, pr_mode = d1_mode r, pr_external = d1_databaseId r\<rparr>"
    using ok by (intro createOrAdopt_json) (auto simp: d1_ok_def d1_json_def member_Cons)
  with k show ?thesis by (simp add: parse_d1_def)
qed

lemma parse_jurisdiction_json:
  "j \<in> {None, Some ''default'', Some ''eu'', Some ''fedramp''} \<Longrightarrow>
   parse_jurisdiction (case j of None \<Rightarrow> JUndefined | Some s \<Rightarrow> JString s) path = Inr j"
proof -
  have "js_lower (js_trim ''default'') = ''default''" "js_lower (js_trim ''eu'') = ''eu''"
    "js_lower (js_trim ''fedramp'') = ''fedramp''" by code_simp+
  moreover assume "j \<in> {None, Some ''default'', Some ''eu'', Some ''fedramp''}"
  ultimately show ?thesis by (auto simp: parse_jurisdiction_def)
qed

lemma parse_r2_json: "r2_ok r \<Longrightarrow> parse_r2 (r2_json r) path = Inr r"
proof -
  assume ok: "r2_ok r"
  have k: "onlyKeys (r2_json r) [''key'', ''binding'', ''mode'', ''bucketName'', ''jurisdiction''] path = Inr ()"
    by (auto simp: onlyKeys_Inr r2_json_def object_keys_def image_Un)
  have "createOrAdopt (r2_json r) path ''bucketName'' BUCKET_PATTERN =
      Inr \<lparr>pr_key = r2_key r, pr_binding = r2_binding r, pr_mode = r2_mode r, pr_external = r2_bucketName r\<rparr>"
    using ok by (intro createOrAdopt_json) (auto simp: r2_ok_def r2_json_def member_Cons member_append)
  moreover have "member (r2_json r) ''jurisdiction'' = (case r2_jurisdiction r of None \<Rightarrow> JUndefined | Some s \<Rightarrow> JString s)"
    by (auto simp: r2_json_def member_Cons member_append)
  moreover have "parse_jurisdiction (case r2_jurisdiction r of None \<Rightarrow> JUndefined | Some s \<Rightarrow> JString s) path = Inr (r2_jurisdiction r)"
    using ok by (intro parse_jurisdiction_json) (simp add: r2_ok_def)
  ultimately show ?thesis using k by (simp add: parse_r2_def)
qed

lemma parse_durable_json: "durable_ok r \<Longrightarrow> parse_durable (durable_json r) path = Inr r"
proof -
  assume ok: "durable_ok r"
  have k: "onlyKeys (durable_json r) [''binding'', ''className'', ''storage'', ''state''] path = Inr ()"
    by (auto simp: onlyKeys_Inr durable_json_def object_keys_def)
  have "member (durable_json r) ''storage'' = JString ''sqlite''" "member (durable_json r) ''state'' = JString ''created''"
    "member (durable_json r) ''binding'' = JString (do_binding r)"
    "member (durable_json r) ''className'' = JString (do_className r)"
    by (simp_all add: durable_json_def member_Cons)
  with k ok show ?thesis by (simp add: parse_durable_def durable_ok_def stringField_fixed)
qed

lemma resourceArray_json:
  assumes "length xs \<le> k" and "\<And>x p. x \<in> set xs \<Longrightarrow> parse (f x) p = Inr x" and "\<And>x. is_record (f x)"
  shows "resourceArray (if xs = [] then JUndefined else JArray (map f xs)) path k parse = Inr xs"
proof (cases "xs = []")
  case False
  let ?g = "\<lambda>(index, item). bind_result (as_object item (item_path path index))
      (\<lambda>entry. parse entry (item_path path index))"
  have "map_result ?g (enumerate n (map f ys)) = Inr ys" if "set ys \<subseteq> set xs" for n ys
    using that
  proof (induction ys arbitrary: n)
    case (Cons y ys)
    then show ?case using assms(2,3) by (simp add: as_object_def)
  qed simp
  from this [of xs 0] False assms(1) show ?thesis by (simp add: resourceArray_def)
qed (simp add: resourceArray_def)

lemma resources_members:
  "member (resources_json m) ''kv'' = (if mf_kv m = [] then JUndefined else JArray (map kv_json (mf_kv m)))"
  "member (resources_json m) ''d1'' = (if mf_d1 m = [] then JUndefined else JArray (map d1_json (mf_d1 m)))"
  "member (resources_json m) ''r2'' = (if mf_r2 m = [] then JUndefined else JArray (map r2_json (mf_r2 m)))"
  "member (resources_json m) ''durableObjects'' =
     (if mf_durableObjects m = [] then JUndefined else JArray (map durable_json (mf_durableObjects m)))"
  by (simp_all add: resources_json_def list_member_def member_append member_Cons)

lemma resources_keys: "set (object_keys (resources_json m)) \<subseteq> set [''kv'', ''d1'', ''r2'', ''durableObjects'']"
  by (auto simp: resources_json_def list_member_def object_keys_def)

lemma parse_exposure_json:
  assumes "\<forall>d. x = Some d \<longrightarrow> hostname_ok d"
  shows "parse_domain (case x of None \<Rightarrow> JUndefined | Some s \<Rightarrow> JString s) = Inr x"
  using assms hostname_fixed by (cases x) (auto simp: parse_domain_def)

lemma if_Inl: "(if c then Inl e else r) = Inr x \<longleftrightarrow> \<not> c \<and> r = Inr x"
  by simp

lemma parsed_manifest_ok:
  assumes "parsePiworkAppManifest v = Inr m"
  shows "manifest_ok m"
proof -
  obtain rs where
    kv: "resourceArray (member rs ''kv'') ''resources.kv'' 16 parse_kv = Inr (mf_kv m)"
    and d1: "resourceArray (member rs ''d1'') ''resources.d1'' 8 parse_d1 = Inr (mf_d1 m)"
    and r2: "resourceArray (member rs ''r2'') ''resources.r2'' 8 parse_r2 = Inr (mf_r2 m)"
    and dob: "resourceArray (member rs ''durableObjects'') ''resources.durableObjects'' 16 parse_durable
        = Inr (mf_durableObjects m)"
    and dom: "\<exists>x. parse_domain x = Inr (mf_requestedCustomDomain m)"
    and u: "assertUniqueResources (materializeAppBindingManifest m) = Inr ()"
  proof -
    from assms [unfolded parsePiworkAppManifest_def Let_def bind_result_Inr if_Inl]
    obtain rs kv d1 r2 dob x dom where
      q: "resourceArray (member rs ''kv'') ''resources.kv'' 16 parse_kv = Inr kv"
      "resourceArray (member rs ''d1'') ''resources.d1'' 8 parse_d1 = Inr d1"
      "resourceArray (member rs ''r2'') ''resources.r2'' 8 parse_r2 = Inr r2"
      "resourceArray (member rs ''durableObjects'') ''resources.durableObjects'' 16 parse_durable = Inr dob"
      "parse_domain x = Inr dom"
      and r: "\<exists>u. assertUniqueResources (materializeAppBindingManifest
          \<lparr>mf_kv = kv, mf_d1 = d1, mf_r2 = r2, mf_durableObjects = dob, mf_requestedCustomDomain = dom\<rparr>) = Inr u \<and>
        (Inr \<lparr>mf_kv = kv, mf_d1 = d1, mf_r2 = r2, mf_durableObjects = dob, mf_requestedCustomDomain = dom\<rparr>
          :: manifest_error + app_manifest) = Inr m"
      by (elim exE conjE) (rule that; assumption | blast)
    from r have "m = \<lparr>mf_kv = kv, mf_d1 = d1, mf_r2 = r2, mf_durableObjects = dob, mf_requestedCustomDomain = dom\<rparr>"
      by auto
    with q r show thesis by (intro that [of rs]) auto
  qed
  have "length (mf_kv m) \<le> 16 \<and> list_all kv_ok (mf_kv m)"
    using kv parse_kv_ok by (rule resourceArray_ok)
  moreover have "length (mf_d1 m) \<le> 8 \<and> list_all d1_ok (mf_d1 m)"
    using d1 parse_d1_ok by (rule resourceArray_ok)
  moreover have "length (mf_r2 m) \<le> 8 \<and> list_all r2_ok (mf_r2 m)"
    using r2 parse_r2_ok by (rule resourceArray_ok)
  moreover have "length (mf_durableObjects m) \<le> 16 \<and> list_all durable_ok (mf_durableObjects m)"
    using dob parse_durable_ok by (rule resourceArray_ok)
  ultimately show ?thesis
    using dom parse_domain_ok u [unfolded assertUnique_iff] unfolding manifest_ok_def by blast
qed

lemma empty_resources: "\<not> stateful m \<Longrightarrow> resources_json m = JObject []"
  by (simp add: stateful_def resources_json_def list_member_def)

lemma manifest_members:
  "member (manifest_json m) ''version'' = JNumber (JInt 1)"
  "member (manifest_json m) ''runtime'' = JString ''cloudflare-workers''"
  "member (manifest_json m) ''resources'' = (if stateful m then resources_json m else JUndefined)"
  "member (manifest_json m) ''exposure'' = JObject ((''workersDev'', JBool True) #
     opt_member ''requestedCustomDomain'' (mf_requestedCustomDomain m))"
  by (simp_all add: manifest_json_def member_Cons)

lemma manifest_round_trip:
  assumes "manifest_ok m"
  shows "parsePiworkAppManifest (manifest_json m) = Inr m"
proof -
  let ?x = "JObject ((''workersDev'', JBool True) #
     opt_member ''requestedCustomDomain'' (mf_requestedCustomDomain m))"
  have root: "onlyKeys (manifest_json m) [''version'', ''runtime'', ''resources'', ''exposure''] ''piwork.app.json'' = Inr ()"
    by (auto simp: onlyKeys_Inr manifest_json_def object_keys_def)
  have res: "onlyKeys (resources_json m) [''kv'', ''d1'', ''r2'', ''durableObjects''] ''resources'' = Inr ()"
    using resources_keys by (simp only: onlyKeys_Inr)
  have expo: "onlyKeys ?x [''workersDev'', ''requestedCustomDomain''] ''exposure'' = Inr ()"
    by (auto simp: onlyKeys_Inr object_keys_def)
  have get: "(if member (manifest_json m) ''resources'' = JUndefined then Inr (JObject [])
       else as_object (member (manifest_json m) ''resources'') ''resources'') = Inr (resources_json m)"
    using empty_resources [of m] by (simp add: manifest_members) (simp add: as_object_def resources_json_def)
  note D = assms [unfolded manifest_ok_def]
  have kv: "resourceArray (member (resources_json m) ''kv'') ''resources.kv'' 16 parse_kv = Inr (mf_kv m)"
    unfolding resources_members using D
    by (intro resourceArray_json parse_kv_json) (auto simp: list_all_iff kv_json_def)
  have d1: "resourceArray (member (resources_json m) ''d1'') ''resources.d1'' 8 parse_d1 = Inr (mf_d1 m)"
    unfolding resources_members using D
    by (intro resourceArray_json parse_d1_json) (auto simp: list_all_iff d1_json_def)
  have r2: "resourceArray (member (resources_json m) ''r2'') ''resources.r2'' 8 parse_r2 = Inr (mf_r2 m)"
    unfolding resources_members using D
    by (intro resourceArray_json parse_r2_json) (auto simp: list_all_iff r2_json_def)
  have dob: "resourceArray (member (resources_json m) ''durableObjects'') ''resources.durableObjects'' 16
      parse_durable = Inr (mf_durableObjects m)"
    unfolding resources_members using D
    by (intro resourceArray_json parse_durable_json) (auto simp: list_all_iff durable_json_def)
  have dom: "parse_domain (member ?x ''requestedCustomDomain'') = Inr (mf_requestedCustomDomain m)"
    using D parse_exposure_json by (simp add: member_Cons)
  have uniq: "assertUniqueResources (materializeAppBindingManifest m) = Inr ()"
    using D by (simp only: assertUnique_iff)
  have rec: "as_object (manifest_json m) ''piwork.app.json'' = Inr (manifest_json m)"
    "as_object ?x ''exposure'' = Inr ?x" "member ?x ''workersDev'' = JBool True"
    by (simp_all add: as_object_def manifest_json_def member_Cons)
  have eta: "\<lparr>mf_kv = mf_kv m, mf_d1 = mf_d1 m, mf_r2 = mf_r2 m, mf_durableObjects = mf_durableObjects m,
      mf_requestedCustomDomain = mf_requestedCustomDomain m\<rparr> = m" by (cases m) simp
  show ?thesis
    unfolding parsePiworkAppManifest_def rec bind_result.simps root get res kv d1 r2 dob Let_def
      manifest_members(4) expo dom
    by (simp add: manifest_members eta uniq)
qed

section \<open>Properties\<close>

text \<open>
  A manifest that parses is well-formed: no more resources of a kind than allowed; keys, binding
  names, class names and external identifiers match their patterns; an external identifier is present
  exactly when the resource is adopted; binding names are unique over all kinds and not reserved;
  keys are unique per kind and class names unique; a custom domain is a lower-case host name with at
  least two valid labels that is not an IPv4 address.
\<close>

theorem parsed_manifest_is_well_formed:
  assumes "parsePiworkAppManifest v = Inr m"
  shows "manifest_ok m"
  using assms by (rule parsed_manifest_ok)

definition sample_manifest :: json where
  "sample_manifest = JObject [(''version'', JNumber (JInt 1)), (''runtime'', JString ''cloudflare-workers''),
     (''resources'', JObject [(''kv'', JArray [JObject [(''key'', JString '' Cache''), (''binding'', JString ''CACHE''),
        (''mode'', JString ''create'')]])]),
     (''exposure'', JObject [(''workersDev'', JBool True), (''requestedCustomDomain'', JString ''App.Example.org.'')])]"

definition sample_parsed :: app_manifest where
  "sample_parsed = \<lparr>mf_kv = [\<lparr>kv_key = ''cache'', kv_binding = ''CACHE'', kv_mode = CreateMode, kv_namespaceId = None\<rparr>],
     mf_d1 = [], mf_r2 = [], mf_durableObjects = [], mf_requestedCustomDomain = Some ''app.example.org''\<rparr>"

lemma sample_parses: "parsePiworkAppManifest sample_manifest = Inr sample_parsed"
  by code_simp

theorem parsed_manifest_is_well_formed_witness: "manifest_ok sample_parsed"
  by (rule parsed_manifest_is_well_formed [OF sample_parses])

text \<open>
  C39. Round trip. The JSON value of a parsed manifest parses to the same manifest: normalisation of
  keys, host names and jurisdictions is idempotent and nothing that was accepted is refused later.
\<close>

theorem parsed_manifest_round_trip:
  assumes "parsePiworkAppManifest v = Inr m"
  shows "parsePiworkAppManifest (manifest_json m) = Inr m"
  using parsed_manifest_ok [OF assms] by (rule manifest_round_trip)

theorem parsed_manifest_round_trip_witness:
  "parsePiworkAppManifest (manifest_json sample_parsed) = Inr sample_parsed"
  by (rule parsed_manifest_round_trip [OF sample_parses])

text \<open>
  A parsed app may run as a temporary preview exactly when it declares no resources and no custom
  domain; that is when its binding manifest says so, and when it is not marked as sensitive.
\<close>

theorem temporary_preview_iff_stateless:
  assumes "parsePiworkAppManifest v = Inr m"
  shows "(assertTemporaryAppEligible m = Inr () \<longleftrightarrow> \<not> stateful m \<and> mf_requestedCustomDomain m = None) \<and>
    bm_temporaryEligible (materializeAppBindingManifest m) = (assertTemporaryAppEligible m = Inr ()) \<and>
    bm_sensitive (materializeAppBindingManifest m) = (assertTemporaryAppEligible m \<noteq> Inr ()) \<and>
    bm_hasStatefulResources (materializeAppBindingManifest m) = stateful m"
proof -
  have "has_domain m \<longleftrightarrow> mf_requestedCustomDomain m \<noteq> None"
    using parsed_manifest_ok [OF assms] hostname_fixed(2)
    by (auto simp: has_domain_def manifest_ok_def split: option.splits)
  then show ?thesis
    by (auto simp: assertTemporaryAppEligible_def analyzeTemporaryAppCapabilities_def
        materializeAppBindingManifest_def stateful_def Let_def)
qed

theorem temporary_preview_iff_stateless_witness:
  "assertTemporaryAppEligible sample_parsed \<noteq> Inr () \<and> bm_sensitive (materializeAppBindingManifest sample_parsed)"
proof -
  have "stateful sample_parsed" by code_simp
  with temporary_preview_iff_stateless [OF sample_parses] show ?thesis by simp
qed

end
