(* ===== verification/Rpc_Contract.thy ===== *)
theory Rpc_Contract
  imports Prelude
begin

text \<open>
  The boundary contract of the Pi child process (web/server/pi-rpc-contract.ts): type guards on
  parsed JSON values for commands, extension UI responses, responses, UI requests and events, and
  the parsing and serialisation functions around them.

  The closed TypeScript unions \<open>PiRpcCommand\<close>, \<open>PiExtensionUiResponse\<close> and \<open>PiExtensionUiRequest\<close> are
  datatypes here; the theorems say that the guards accept exactly the objects that represent a
  value of these types, that the classes of output are disjoint, and that a serialised input is one
  line. \<open>JSON.stringify\<close> is modelled up to the text of a number, which is a parameter; \<open>JSON.parse\<close> is
  a parameter of \<open>parsePiRpcOutputJson\<close>.
\<close>

section \<open>Guards on values\<close>

definition PI_THINKING_LEVELS :: "string list" where
  "PI_THINKING_LEVELS = [''off'', ''minimal'', ''low'', ''medium'', ''high'', ''xhigh'', ''max'']"

datatype contract_error_code = InvalidCommand | InvalidInput | InvalidOutput | InvalidJson

definition isNonEmptyString :: "json \<Rightarrow> bool" where [shape_defs]:
  "isNonEmptyString v \<longleftrightarrow> is_js_string v \<and> length (str_of v) > 0 \<and> \<not> js_includes (str_of v) nul"

definition isNonNegativeInteger :: "json \<Rightarrow> bool" where [shape_defs]:
  "isNonNegativeInteger v \<longleftrightarrow> is_safe_integer v \<and> number_of v \<ge> 0"

definition isOptionalNonEmptyString :: "json \<Rightarrow> bool" where [shape_defs]:
  "isOptionalNonEmptyString v \<longleftrightarrow> v = JUndefined \<or> isNonEmptyString v"

definition hasOnlyKeys :: "json \<Rightarrow> string list \<Rightarrow> bool" where
  "hasOnlyKeys v allowed \<longleftrightarrow> list_all (\<lambda>k. k \<in> set allowed) (object_keys v)"

definition hasValidOptionalId :: "json \<Rightarrow> bool" where [shape_defs]:
  "hasValidOptionalId v \<longleftrightarrow> member v ''id'' = JUndefined \<or> isNonEmptyString (member v ''id'')"

definition isThinkingLevel :: "json \<Rightarrow> bool" where [shape_defs]:
  "isThinkingLevel v \<longleftrightarrow> is_js_string v \<and> str_of v \<in> set PI_THINKING_LEVELS"

definition isStringArray :: "json \<Rightarrow> bool" where [shape_defs]:
  "isStringArray v \<longleftrightarrow> is_js_array v \<and> list_all is_js_string (elems_of v)"

definition isRecordArray :: "json \<Rightarrow> bool" where [shape_defs]:
  "isRecordArray v \<longleftrightarrow> is_js_array v \<and> list_all is_record (elems_of v)"

definition isImage :: "json \<Rightarrow> bool" where
  "isImage v \<longleftrightarrow>
     is_record v \<and> hasOnlyKeys v [''type'', ''data'', ''mimeType''] \<and>
     member v ''type'' = JString ''image'' \<and>
     isNonEmptyString (member v ''data'') \<and> isNonEmptyString (member v ''mimeType'')"

definition isPiModel :: "json \<Rightarrow> bool" where
  "isPiModel v \<longleftrightarrow>
     is_record v \<and> isNonEmptyString (member v ''provider'') \<and> isNonEmptyString (member v ''id'')"

definition is_queue_mode :: "json \<Rightarrow> bool" where [shape_defs]:
  "is_queue_mode v \<longleftrightarrow> v = JString ''all'' \<or> v = JString ''one-at-a-time''"

definition isPiRpcSessionState :: "json \<Rightarrow> bool" where
  "isPiRpcSessionState v \<longleftrightarrow>
     is_record v \<and>
     hasOnlyKeys v [''model'', ''thinkingLevel'', ''isStreaming'', ''isCompacting'', ''steeringMode'',
       ''followUpMode'', ''sessionFile'', ''sessionId'', ''sessionName'', ''autoCompactionEnabled'',
       ''messageCount'', ''pendingMessageCount''] \<and>
     (member v ''model'' = JUndefined \<or> isPiModel (member v ''model'')) \<and>
     isThinkingLevel (member v ''thinkingLevel'') \<and>
     is_js_boolean (member v ''isStreaming'') \<and>
     is_js_boolean (member v ''isCompacting'') \<and>
     is_queue_mode (member v ''steeringMode'') \<and>
     is_queue_mode (member v ''followUpMode'') \<and>
     isOptionalNonEmptyString (member v ''sessionFile'') \<and>
     isNonEmptyString (member v ''sessionId'') \<and>
     isOptionalNonEmptyString (member v ''sessionName'') \<and>
     is_js_boolean (member v ''autoCompactionEnabled'') \<and>
     isNonNegativeInteger (member v ''messageCount'') \<and>
     isNonNegativeInteger (member v ''pendingMessageCount'')"

section \<open>Commands\<close>

definition NO_ARGUMENT_COMMANDS :: "string list" where
  "NO_ARGUMENT_COMMANDS =
     [''abort'', ''get_state'', ''cycle_model'', ''get_available_models'', ''cycle_thinking_level'',
      ''get_available_thinking_levels'', ''abort_retry'', ''abort_bash'', ''get_session_stats'',
      ''clone'', ''get_fork_messages'', ''get_tree'', ''get_last_assistant_text'', ''get_messages'',
      ''get_commands'']"

definition is_optional_images :: "json \<Rightarrow> bool" where
  "is_optional_images v \<longleftrightarrow> v = JUndefined \<or> is_js_array v \<and> list_all isImage (elems_of v)"

text \<open>The switch over the commands that take arguments; \<open>only\<close> allows keys besides id and type.\<close>

definition isPiRpcCommand :: "json \<Rightarrow> bool" where
  "isPiRpcCommand v =
     (if \<not> is_record v \<or> \<not> isNonEmptyString (member v ''type'') \<or> \<not> hasValidOptionalId v then False
      else
        let t = str_of (member v ''type''); only = (\<lambda>ks. hasOnlyKeys v ([''id'', ''type''] @ ks)) in
        if t \<in> set NO_ARGUMENT_COMMANDS then only []
        else if t = ''prompt'' then
          only [''message'', ''images'', ''streamingBehavior''] \<and>
          is_js_string (member v ''message'') \<and> is_optional_images (member v ''images'') \<and>
          (member v ''streamingBehavior'' = JUndefined \<or>
           member v ''streamingBehavior'' = JString ''steer'' \<or>
           member v ''streamingBehavior'' = JString ''followUp'')
        else if t = ''steer'' \<or> t = ''follow_up'' then
          only [''message'', ''images''] \<and>
          is_js_string (member v ''message'') \<and> is_optional_images (member v ''images'')
        else if t = ''new_session'' then
          only [''parentSession''] \<and> isOptionalNonEmptyString (member v ''parentSession'')
        else if t = ''set_model'' then
          only [''provider'', ''modelId''] \<and>
          isNonEmptyString (member v ''provider'') \<and> isNonEmptyString (member v ''modelId'')
        else if t = ''set_thinking_level'' then
          only [''level''] \<and> isThinkingLevel (member v ''level'')
        else if t = ''set_steering_mode'' \<or> t = ''set_follow_up_mode'' then
          only [''mode''] \<and> is_queue_mode (member v ''mode'')
        else if t = ''compact'' then
          only [''customInstructions''] \<and>
          (member v ''customInstructions'' = JUndefined \<or> is_js_string (member v ''customInstructions''))
        else if t = ''set_auto_compaction'' \<or> t = ''set_auto_retry'' then
          only [''enabled''] \<and> is_js_boolean (member v ''enabled'')
        else if t = ''bash'' then
          only [''command'', ''excludeFromContext''] \<and>
          is_js_string (member v ''command'') \<and>
          (member v ''excludeFromContext'' = JUndefined \<or> is_js_boolean (member v ''excludeFromContext''))
        else if t = ''export_html'' then
          only [''outputPath''] \<and> isOptionalNonEmptyString (member v ''outputPath'')
        else if t = ''switch_session'' then
          only [''sessionPath''] \<and> isNonEmptyString (member v ''sessionPath'')
        else if t = ''fork'' then only [''entryId''] \<and> isNonEmptyString (member v ''entryId'')
        else if t = ''get_entries'' then
          only [''since''] \<and> isOptionalNonEmptyString (member v ''since'')
        else if t = ''set_session_name'' then
          only [''name''] \<and> isNonEmptyString (member v ''name'')
        else False)"

definition parsePiRpcCommand :: "json \<Rightarrow> contract_error_code + json" where
  "parsePiRpcCommand v = (if \<not> isPiRpcCommand v then Inl InvalidCommand else Inr v)"

definition isPiExtensionUiResponse :: "json \<Rightarrow> bool" where
  "isPiExtensionUiResponse v =
     (if \<not> is_record v \<or> member v ''type'' \<noteq> JString ''extension_ui_response'' \<or>
         \<not> isNonEmptyString (member v ''id'') then False
      else if hasOnlyKeys v [''type'', ''id'', ''value''] \<and> is_js_string (member v ''value'') then True
      else if hasOnlyKeys v [''type'', ''id'', ''confirmed''] \<and> is_js_boolean (member v ''confirmed'')
      then True
      else hasOnlyKeys v [''type'', ''id'', ''cancelled''] \<and> member v ''cancelled'' = JBool True)"

section \<open>Responses\<close>

definition NO_DATA_SUCCESS_COMMANDS :: "string list" where
  "NO_DATA_SUCCESS_COMMANDS =
     [''prompt'', ''steer'', ''follow_up'', ''abort'', ''set_thinking_level'', ''set_steering_mode'',
      ''set_follow_up_mode'', ''set_auto_compaction'', ''set_auto_retry'', ''abort_retry'',
      ''abort_bash'', ''set_session_name'']"

definition is_leaf_id :: "json \<Rightarrow> bool" where
  "is_leaf_id v \<longleftrightarrow> v = JNull \<or> isNonEmptyString v"

definition is_fork_message :: "json \<Rightarrow> bool" where
  "is_fork_message m \<longleftrightarrow>
     is_record m \<and> hasOnlyKeys m [''entryId'', ''text''] \<and>
     isNonEmptyString (member m ''entryId'') \<and> is_js_string (member m ''text'')"

definition hasValidSuccessData :: "string \<Rightarrow> json \<Rightarrow> bool" where
  "hasValidSuccessData command data =
     (if command \<in> set NO_DATA_SUCCESS_COMMANDS then data = JUndefined
      else if command = ''get_state'' then isPiRpcSessionState data
      else if command = ''get_available_models'' then
        is_record data \<and> hasOnlyKeys data [''models''] \<and>
        is_js_array (member data ''models'') \<and> list_all isPiModel (elems_of (member data ''models''))
      else if command = ''get_available_thinking_levels'' then
        is_record data \<and> hasOnlyKeys data [''levels''] \<and>
        is_js_array (member data ''levels'') \<and> list_all isThinkingLevel (elems_of (member data ''levels''))
      else if command = ''get_entries'' then
        is_record data \<and> hasOnlyKeys data [''entries'', ''leafId''] \<and>
        isRecordArray (member data ''entries'') \<and> is_leaf_id (member data ''leafId'')
      else if command = ''get_messages'' then
        is_record data \<and> hasOnlyKeys data [''messages''] \<and> isRecordArray (member data ''messages'')
      else if command = ''get_commands'' then
        is_record data \<and> hasOnlyKeys data [''commands''] \<and> isRecordArray (member data ''commands'')
      else if command = ''get_last_assistant_text'' then
        is_record data \<and> hasOnlyKeys data [''text''] \<and>
        (member data ''text'' = JNull \<or> is_js_string (member data ''text''))
      else if command = ''get_fork_messages'' then
        is_record data \<and> hasOnlyKeys data [''messages''] \<and>
        is_js_array (member data ''messages'') \<and>
        list_all is_fork_message (elems_of (member data ''messages''))
      else if command = ''new_session'' \<or> command = ''switch_session'' \<or> command = ''clone'' then
        is_record data \<and> hasOnlyKeys data [''cancelled''] \<and> is_js_boolean (member data ''cancelled'')
      else if command = ''fork'' then
        is_record data \<and> hasOnlyKeys data [''text'', ''cancelled''] \<and>
        is_js_string (member data ''text'') \<and> is_js_boolean (member data ''cancelled'')
      else if command = ''cycle_model'' then
        data = JNull \<or>
        is_record data \<and> hasOnlyKeys data [''model'', ''thinkingLevel'', ''isScoped''] \<and>
        isPiModel (member data ''model'') \<and> isThinkingLevel (member data ''thinkingLevel'') \<and>
        is_js_boolean (member data ''isScoped'')
      else if command = ''cycle_thinking_level'' then
        data = JNull \<or>
        is_record data \<and> hasOnlyKeys data [''level''] \<and> isThinkingLevel (member data ''level'')
      else if command = ''set_model'' then isPiModel data
      else if command = ''export_html'' then
        is_record data \<and> hasOnlyKeys data [''path''] \<and> isNonEmptyString (member data ''path'')
      else if command = ''get_tree'' then
        is_record data \<and> hasOnlyKeys data [''tree'', ''leafId''] \<and>
        is_js_array (member data ''tree'') \<and> is_leaf_id (member data ''leafId'')
      else if command = ''compact'' \<or> command = ''bash'' \<or> command = ''get_session_stats'' then
        is_record data
      else False)"

definition ARGUMENT_COMMANDS :: "string list" where
  "ARGUMENT_COMMANDS =
     [''prompt'', ''steer'', ''follow_up'', ''new_session'', ''set_model'', ''set_thinking_level'',
      ''set_steering_mode'', ''set_follow_up_mode'', ''compact'', ''set_auto_compaction'',
      ''set_auto_retry'', ''bash'', ''export_html'', ''switch_session'', ''fork'', ''get_entries'',
      ''set_session_name'']"

definition isPiRpcResponse :: "json \<Rightarrow> bool" where
  "isPiRpcResponse v =
     (if \<not> is_record v \<or> member v ''type'' \<noteq> JString ''response'' \<or> \<not> hasValidOptionalId v \<or>
         \<not> isNonEmptyString (member v ''command'') \<or> \<not> is_js_boolean (member v ''success'') then False
      else if member v ''success'' = JBool False then
        hasOnlyKeys v [''id'', ''type'', ''command'', ''success'', ''error''] \<and>
        is_js_string (member v ''error'')
      else if \<not> isPiRpcCommand (JObject [(''type'', member v ''command'')]) \<and>
              str_of (member v ''command'') \<notin> set ARGUMENT_COMMANDS then False
      else hasOnlyKeys v [''id'', ''type'', ''command'', ''success'', ''data''] \<and>
           hasValidSuccessData (str_of (member v ''command''))
             (if ''data'' \<in> set (object_keys v) then member v ''data'' else JUndefined))"

section \<open>Events\<close>

definition SIMPLE_EVENT_TYPES :: "string list" where
  "SIMPLE_EVENT_TYPES = [''agent_start'', ''agent_settled'', ''turn_start'']"

definition is_compaction_reason :: "json \<Rightarrow> bool" where [shape_defs]:
  "is_compaction_reason v \<longleftrightarrow>
     v = JString ''manual'' \<or> v = JString ''threshold'' \<or> v = JString ''overflow''"

definition isPiRpcEvent :: "json \<Rightarrow> bool" where
  "isPiRpcEvent v =
     (if \<not> is_record v \<or> \<not> isNonEmptyString (member v ''type'') then False
      else
        let t = str_of (member v ''type'') in
        if t \<in> set SIMPLE_EVENT_TYPES then hasOnlyKeys v [''type'']
        else if t = ''agent_end'' then
          is_js_array (member v ''messages'') \<and> is_js_boolean (member v ''willRetry'')
        else if t = ''turn_end'' then
          is_record (member v ''message'') \<and> is_js_array (member v ''toolResults'')
        else if t = ''message_start'' \<or> t = ''message_end'' then is_record (member v ''message'')
        else if t = ''message_update'' then
          is_record (member v ''message'') \<and> is_record (member v ''assistantMessageEvent'') \<and>
          isNonEmptyString (member (member v ''assistantMessageEvent'') ''type'')
        else if t = ''bash_execution_update'' then
          (member v ''id'' = JUndefined \<or> isNonEmptyString (member v ''id'')) \<and>
          is_js_string (member v ''delta'')
        else if t = ''tool_execution_start'' then
          isNonEmptyString (member v ''toolCallId'') \<and> isNonEmptyString (member v ''toolName'') \<and>
          is_record (member v ''args'')
        else if t = ''tool_execution_update'' then
          isNonEmptyString (member v ''toolCallId'') \<and> isNonEmptyString (member v ''toolName'') \<and>
          is_record (member v ''args'') \<and> is_record (member v ''partialResult'')
        else if t = ''tool_execution_end'' then
          isNonEmptyString (member v ''toolCallId'') \<and> isNonEmptyString (member v ''toolName'') \<and>
          is_record (member v ''result'') \<and> is_js_boolean (member v ''isError'')
        else if t = ''queue_update'' then
          isStringArray (member v ''steering'') \<and> isStringArray (member v ''followUp'')
        else if t = ''compaction_start'' then is_compaction_reason (member v ''reason'')
        else if t = ''entry_appended'' then is_record (member v ''entry'')
        else if t = ''session_info_changed'' then
          member v ''name'' = JUndefined \<or> is_js_string (member v ''name'')
        else if t = ''thinking_level_changed'' then isThinkingLevel (member v ''level'')
        else if t = ''compaction_end'' then
          is_compaction_reason (member v ''reason'') \<and>
          (member v ''result'' = JUndefined \<or> is_record (member v ''result'')) \<and>
          is_js_boolean (member v ''aborted'') \<and> is_js_boolean (member v ''willRetry'') \<and>
          (member v ''errorMessage'' = JUndefined \<or> is_js_string (member v ''errorMessage''))
        else if t = ''auto_retry_start'' \<or> t = ''summarization_retry_scheduled'' then
          isNonNegativeInteger (member v ''attempt'') \<and> isNonNegativeInteger (member v ''maxAttempts'') \<and>
          isNonNegativeInteger (member v ''delayMs'') \<and> is_js_string (member v ''errorMessage'')
        else if t = ''auto_retry_end'' then
          is_js_boolean (member v ''success'') \<and> isNonNegativeInteger (member v ''attempt'') \<and>
          (member v ''finalError'' = JUndefined \<or> is_js_string (member v ''finalError''))
        else if t = ''summarization_retry_attempt_start'' then
          member v ''source'' = JString ''branchSummary'' \<or>
          member v ''source'' = JString ''compaction'' \<and> is_compaction_reason (member v ''reason'')
        else if t = ''summarization_retry_finished'' then True
        else if t = ''extension_error'' then
          isNonEmptyString (member v ''extensionPath'') \<and> isNonEmptyString (member v ''event'') \<and>
          is_js_string (member v ''error'')
        else False)"

section \<open>Extension UI requests\<close>

definition EXTENSION_UI_METHODS :: "string list" where
  "EXTENSION_UI_METHODS =
     [''select'', ''confirm'', ''input'', ''editor'', ''notify'', ''setStatus'', ''setWidget'',
      ''setTitle'', ''set_editor_text'']"

definition isOptionalTimeout :: "json \<Rightarrow> bool" where
  "isOptionalTimeout v \<longleftrightarrow> v = JUndefined \<or> is_safe_integer v \<and> number_of v > 0"

definition is_optional_string :: "json \<Rightarrow> bool" where [shape_defs]:
  "is_optional_string v \<longleftrightarrow> v = JUndefined \<or> is_js_string v"

definition isPiExtensionUiRequest :: "json \<Rightarrow> bool" where
  "isPiExtensionUiRequest v =
     (if \<not> is_record v \<or> member v ''type'' \<noteq> JString ''extension_ui_request'' \<or>
         \<not> isNonEmptyString (member v ''id'') \<or> \<not> is_js_string (member v ''method'') \<or>
         str_of (member v ''method'') \<notin> set EXTENSION_UI_METHODS then False
      else
        let m = str_of (member v ''method''); only = (\<lambda>ks. hasOnlyKeys v ([''type'', ''id'', ''method''] @ ks)) in
        if m = ''select'' then
          only [''title'', ''options'', ''timeout''] \<and> is_js_string (member v ''title'') \<and>
          isStringArray (member v ''options'') \<and> isOptionalTimeout (member v ''timeout'')
        else if m = ''confirm'' then
          only [''title'', ''message'', ''timeout''] \<and> is_js_string (member v ''title'') \<and>
          is_js_string (member v ''message'') \<and> isOptionalTimeout (member v ''timeout'')
        else if m = ''input'' then
          only [''title'', ''placeholder'', ''timeout''] \<and> is_js_string (member v ''title'') \<and>
          is_optional_string (member v ''placeholder'') \<and> isOptionalTimeout (member v ''timeout'')
        else if m = ''editor'' then
          only [''title'', ''prefill''] \<and> is_js_string (member v ''title'') \<and>
          is_optional_string (member v ''prefill'')
        else if m = ''notify'' then
          only [''message'', ''notifyType''] \<and> is_js_string (member v ''message'') \<and>
          (member v ''notifyType'' = JUndefined \<or> member v ''notifyType'' = JString ''info'' \<or>
           member v ''notifyType'' = JString ''warning'' \<or> member v ''notifyType'' = JString ''error'')
        else if m = ''setStatus'' then
          only [''statusKey'', ''statusText''] \<and> isNonEmptyString (member v ''statusKey'') \<and>
          is_optional_string (member v ''statusText'')
        else if m = ''setWidget'' then
          only [''widgetKey'', ''widgetLines'', ''widgetPlacement''] \<and>
          isNonEmptyString (member v ''widgetKey'') \<and>
          (member v ''widgetLines'' = JUndefined \<or> isStringArray (member v ''widgetLines'')) \<and>
          (member v ''widgetPlacement'' = JUndefined \<or>
           member v ''widgetPlacement'' = JString ''aboveEditor'' \<or>
           member v ''widgetPlacement'' = JString ''belowEditor'')
        else if m = ''setTitle'' then only [''title''] \<and> is_js_string (member v ''title'')
        else if m = ''set_editor_text'' then only [''text''] \<and> is_js_string (member v ''text'')
        else False)"

section \<open>Output and input\<close>

definition isPiRpcOutput :: "json \<Rightarrow> bool" where
  "isPiRpcOutput v \<longleftrightarrow> isPiRpcResponse v \<or> isPiExtensionUiRequest v \<or> isPiRpcEvent v"

definition parsePiRpcOutput :: "json \<Rightarrow> contract_error_code + json" where
  "parsePiRpcOutput v = (if \<not> isPiRpcOutput v then Inl InvalidOutput else Inr v)"

text \<open>\<open>json_parse\<close> is \<open>JSON.parse\<close>; None stands for the SyntaxError it throws.\<close>

definition parsePiRpcOutputJson ::
  "(string \<Rightarrow> json option) \<Rightarrow> string \<Rightarrow> contract_error_code + json" where
  "parsePiRpcOutputJson json_parse line =
     (case json_parse line of None \<Rightarrow> Inl InvalidJson | Some v \<Rightarrow> parsePiRpcOutput v)"

definition serializePiRpcInput ::
  "(js_number \<Rightarrow> string) \<Rightarrow> json \<Rightarrow> contract_error_code + string" where
  "serializePiRpcInput number_text input =
     (if \<not> isPiRpcCommand input \<and> \<not> isPiExtensionUiResponse input then Inl InvalidInput
      else Inr (json_stringify number_text input @ [LF]))"

section \<open>The declared types\<close>

text \<open>
  A value of a declared object type is described by its fields: for each key a predicate on the
  member, which may be undefined for an optional key. \<open>describes\<close> says that a JSON value is a
  record with no other keys whose members satisfy the predicates.
\<close>

type_synonym fields = "(string \<times> (json \<Rightarrow> bool)) list"

definition describes :: "json \<Rightarrow> fields \<Rightarrow> bool" where
  "describes v fs \<longleftrightarrow> is_record v \<and> hasOnlyKeys v (map fst fs) \<and> list_all (\<lambda>(k, P). P (member v k)) fs"

definition text_field :: "string \<Rightarrow> json \<Rightarrow> bool" where
  "text_field s v \<longleftrightarrow> v = JString s"

definition name_field :: "string \<Rightarrow> json \<Rightarrow> bool" where
  "name_field s v \<longleftrightarrow> v = JString s \<and> s \<noteq> [] \<and> nul \<notin> set s"

fun optional :: "('a \<Rightarrow> json \<Rightarrow> bool) \<Rightarrow> 'a option \<Rightarrow> json \<Rightarrow> bool" where
  "optional F None v = (v = JUndefined)"
| "optional F (Some x) v = (v \<noteq> JUndefined \<and> F x v)"

definition flag_field :: "bool \<Rightarrow> json \<Rightarrow> bool" where
  "flag_field b v \<longleftrightarrow> v = JBool b"

definition count_field :: "int \<Rightarrow> json \<Rightarrow> bool" where
  "count_field n v \<longleftrightarrow> v = JNumber (JInt n) \<and> 0 < n \<and> safe_int n"

definition list_field :: "('a \<Rightarrow> json \<Rightarrow> bool) \<Rightarrow> 'a list \<Rightarrow> json \<Rightarrow> bool" where
  "list_field F xs v \<longleftrightarrow> (case v of JArray ys \<Rightarrow> list_all2 F xs ys | _ \<Rightarrow> False)"

text \<open>Literal types: the member is the name of one of the listed literals.\<close>

definition literal_field :: "('a \<Rightarrow> string) \<Rightarrow> 'a \<Rightarrow> json \<Rightarrow> bool" where
  "literal_field name x v \<longleftrightarrow> v = JString (name x)"

datatype thinking_level = Off | Minimal | Low | Medium | High | Xhigh | Max

fun level_name :: "thinking_level \<Rightarrow> string" where
  "level_name Off = ''off''" | "level_name Minimal = ''minimal''" | "level_name Low = ''low''"
| "level_name Medium = ''medium''" | "level_name High = ''high''" | "level_name Xhigh = ''xhigh''"
| "level_name Max = ''max''"

datatype queue_mode = All | OneAtATime

fun mode_name :: "queue_mode \<Rightarrow> string" where
  "mode_name All = ''all''" | "mode_name OneAtATime = ''one-at-a-time''"

datatype streaming_behavior = SteerBehavior | FollowUpBehavior

fun behavior_name :: "streaming_behavior \<Rightarrow> string" where
  "behavior_name SteerBehavior = ''steer''" | "behavior_name FollowUpBehavior = ''followUp''"

datatype pi_image = PiImage (image_data: string) (image_mimeType: string)

fun image_field :: "pi_image \<Rightarrow> json \<Rightarrow> bool" where
  "image_field (PiImage d m) v =
     describes v [(''type'', text_field ''image''), (''data'', name_field d), (''mimeType'', name_field m)]"

datatype plain_command =
    Abort | GetState | CycleModel | GetAvailableModels | CycleThinkingLevel
  | GetAvailableThinkingLevels | AbortRetry | AbortBash | GetSessionStats | Clone
  | GetForkMessages | GetTree | GetLastAssistantText | GetMessages | GetCommands

fun plain_name :: "plain_command \<Rightarrow> string" where
  "plain_name Abort = ''abort''"
| "plain_name GetState = ''get_state''"
| "plain_name CycleModel = ''cycle_model''"
| "plain_name GetAvailableModels = ''get_available_models''"
| "plain_name CycleThinkingLevel = ''cycle_thinking_level''"
| "plain_name GetAvailableThinkingLevels = ''get_available_thinking_levels''"
| "plain_name AbortRetry = ''abort_retry''"
| "plain_name AbortBash = ''abort_bash''"
| "plain_name GetSessionStats = ''get_session_stats''"
| "plain_name Clone = ''clone''"
| "plain_name GetForkMessages = ''get_fork_messages''"
| "plain_name GetTree = ''get_tree''"
| "plain_name GetLastAssistantText = ''get_last_assistant_text''"
| "plain_name GetMessages = ''get_messages''"
| "plain_name GetCommands = ''get_commands''"

datatype pi_command =
    Plain plain_command
  | Prompt string "pi_image list option" "streaming_behavior option"
  | Steer string "pi_image list option"
  | FollowUp string "pi_image list option"
  | NewSession "string option"
  | SetModel string string
  | SetThinkingLevel thinking_level
  | SetSteeringMode queue_mode
  | SetFollowUpMode queue_mode
  | Compact "string option"
  | SetAutoCompaction bool
  | SetAutoRetry bool
  | Bash string "bool option"
  | ExportHtml "string option"
  | SwitchSession string
  | Fork string
  | GetEntries "string option"
  | SetSessionName string

fun command_fields :: "pi_command \<Rightarrow> string \<times> fields" where
  "command_fields (Plain p) = (plain_name p, [])"
| "command_fields (Prompt m imgs b) = (''prompt'', [(''message'', text_field m),
     (''images'', optional (list_field image_field) imgs),
     (''streamingBehavior'', optional (literal_field behavior_name) b)])"
| "command_fields (Steer m imgs) = (''steer'', [(''message'', text_field m),
     (''images'', optional (list_field image_field) imgs)])"
| "command_fields (FollowUp m imgs) = (''follow_up'', [(''message'', text_field m),
     (''images'', optional (list_field image_field) imgs)])"
| "command_fields (NewSession p) = (''new_session'', [(''parentSession'', optional name_field p)])"
| "command_fields (SetModel p m) = (''set_model'', [(''provider'', name_field p), (''modelId'', name_field m)])"
| "command_fields (SetThinkingLevel l) = (''set_thinking_level'', [(''level'', literal_field level_name l)])"
| "command_fields (SetSteeringMode m) = (''set_steering_mode'', [(''mode'', literal_field mode_name m)])"
| "command_fields (SetFollowUpMode m) = (''set_follow_up_mode'', [(''mode'', literal_field mode_name m)])"
| "command_fields (Compact i) = (''compact'', [(''customInstructions'', optional text_field i)])"
| "command_fields (SetAutoCompaction b) = (''set_auto_compaction'', [(''enabled'', flag_field b)])"
| "command_fields (SetAutoRetry b) = (''set_auto_retry'', [(''enabled'', flag_field b)])"
| "command_fields (Bash c x) = (''bash'', [(''command'', text_field c), (''excludeFromContext'', optional flag_field x)])"
| "command_fields (ExportHtml p) = (''export_html'', [(''outputPath'', optional name_field p)])"
| "command_fields (SwitchSession p) = (''switch_session'', [(''sessionPath'', name_field p)])"
| "command_fields (Fork e) = (''fork'', [(''entryId'', name_field e)])"
| "command_fields (GetEntries s) = (''get_entries'', [(''since'', optional name_field s)])"
| "command_fields (SetSessionName n) = (''set_session_name'', [(''name'', name_field n)])"

definition is_command :: "json \<Rightarrow> string option \<Rightarrow> pi_command \<Rightarrow> bool" where
  "is_command v i c \<longleftrightarrow>
     describes v ((''id'', optional name_field i) # (''type'', text_field (fst (command_fields c)))
       # snd (command_fields c))"

text \<open>Each guard on a member is the existence of a value of the declared type.\<close>

lemma isNonEmptyString_iff: "isNonEmptyString v \<longleftrightarrow> (\<exists>s. name_field s v)"
  by (cases v) (auto simp: isNonEmptyString_def name_field_def js_includes_def)

lemma is_js_string_field: "is_js_string v \<longleftrightarrow> (\<exists>s. text_field s v)"
  by (cases v) (auto simp: text_field_def)

lemma is_js_boolean_field: "is_js_boolean v \<longleftrightarrow> (\<exists>b. flag_field b v)"
  by (cases v) (auto simp: flag_field_def)

lemma ex_option: "(\<exists>x. P x) \<longleftrightarrow> P None \<or> (\<exists>y. P (Some y))"
  by (metis option.exhaust)

lemma optional_iff:
  assumes "\<And>v. G v \<longleftrightarrow> (\<exists>x. F x v)" and "\<not> G JUndefined"
  shows "v = JUndefined \<or> G v \<longleftrightarrow> (\<exists>x. optional F x v)"
  using assms by (auto simp: ex_option)

lemma isOptionalNonEmptyString_iff: "isOptionalNonEmptyString v \<longleftrightarrow> (\<exists>s. optional name_field s v)"
  unfolding isOptionalNonEmptyString_def
  by (rule optional_iff) (simp_all add: isNonEmptyString_iff name_field_def)

lemma is_thinking_field: "isThinkingLevel v \<longleftrightarrow> (\<exists>l. literal_field level_name l v)"
proof -
  have "(\<exists>l. P l) \<longleftrightarrow> P Off \<or> P Minimal \<or> P Low \<or> P Medium \<or> P High \<or> P Xhigh \<or> P Max" for P
    by (metis thinking_level.exhaust)
  then show ?thesis
    by (cases v) (auto simp: isThinkingLevel_def literal_field_def PI_THINKING_LEVELS_def)
qed

lemma is_queue_mode_field: "is_queue_mode v \<longleftrightarrow> (\<exists>m. literal_field mode_name m v)"
proof -
  have "(\<exists>m. P m) \<longleftrightarrow> P All \<or> P OneAtATime" for P by (metis queue_mode.exhaust)
  then show ?thesis by (simp add: is_queue_mode_def literal_field_def)
qed

lemma list_field_iff:
  assumes "\<And>v. G v \<longleftrightarrow> (\<exists>x. F x v)"
  shows "is_js_array v \<and> list_all G (elems_of v) \<longleftrightarrow> (\<exists>xs. list_field F xs v)"
proof (cases v)
  case (JArray ys)
  have "list_all G zs \<longleftrightarrow> (\<exists>xs. list_all2 F xs zs)" for zs
    by (induction zs) (simp_all add: assms [symmetric] list_all2_Cons2)
  with JArray show ?thesis by (simp add: list_field_def)
qed (simp_all add: list_field_def)

lemma isImage_iff: "isImage v \<longleftrightarrow> (\<exists>i. image_field i v)"
proof -
  have "(\<exists>i. P i) \<longleftrightarrow> (\<exists>d m. P (PiImage d m))" for P by (metis pi_image.exhaust)
  then show ?thesis
    by (auto simp: isImage_def describes_def text_field_def isNonEmptyString_iff)
qed

lemma is_optional_images_iff: "is_optional_images v \<longleftrightarrow> (\<exists>i. optional (list_field image_field) i v)"
proof -
  have "is_optional_images v \<longleftrightarrow> v = JUndefined \<or> (is_js_array v \<and> list_all isImage (elems_of v))"
    by (simp add: is_optional_images_def)
  also have "\<dots> \<longleftrightarrow> (\<exists>i. optional (list_field image_field) i v)"
    by (rule optional_iff) (rule list_field_iff [OF isImage_iff], simp)
  finally show ?thesis .
qed

lemma is_behavior_field:
  "v = JUndefined \<or> v = JString ''steer'' \<or> v = JString ''followUp'' \<longleftrightarrow>
   (\<exists>b. optional (literal_field behavior_name) b v)"
proof -
  have "(\<exists>b. P b) \<longleftrightarrow> P SteerBehavior \<or> P FollowUpBehavior" for P by (metis streaming_behavior.exhaust)
  then show ?thesis by (auto simp: ex_option literal_field_def)
qed

lemma is_optional_string_iff: "v = JUndefined \<or> is_js_string v \<longleftrightarrow> (\<exists>s. optional text_field s v)"
  by (rule optional_iff) (simp_all add: is_js_string_field text_field_def)

lemma is_optional_boolean_iff: "v = JUndefined \<or> is_js_boolean v \<longleftrightarrow> (\<exists>s. optional flag_field s v)"
  by (rule optional_iff) (simp_all add: is_js_boolean_field flag_field_def)

lemma hasValidOptionalId_iff: "hasValidOptionalId v \<longleftrightarrow> (\<exists>i. optional name_field i (member v ''id''))"
  using isOptionalNonEmptyString_iff by (simp add: hasValidOptionalId_def isOptionalNonEmptyString_def)

lemmas field_iffs = isNonEmptyString_iff is_js_string_field is_js_boolean_field
  isOptionalNonEmptyString_iff is_thinking_field is_queue_mode_field is_optional_images_iff
  is_behavior_field is_optional_string_iff is_optional_boolean_iff

lemma ex_plain:
  "(\<exists>p. P p) \<longleftrightarrow> P Abort \<or> P GetState \<or> P CycleModel \<or> P GetAvailableModels \<or> P CycleThinkingLevel
     \<or> P GetAvailableThinkingLevels \<or> P AbortRetry \<or> P AbortBash \<or> P GetSessionStats \<or> P Clone
     \<or> P GetForkMessages \<or> P GetTree \<or> P GetLastAssistantText \<or> P GetMessages \<or> P GetCommands"
  (is "?l = ?r")
proof
  assume ?l
  then obtain p where "P p" ..
  then show ?r by (cases p) simp_all
qed blast

lemma plain_names: "(\<exists>p. t = plain_name p) \<longleftrightarrow> t \<in> set NO_ARGUMENT_COMMANDS"
  unfolding ex_plain NO_ARGUMENT_COMMANDS_def by simp

lemma ex_command:
  "(\<exists>c. P c) \<longleftrightarrow> (\<exists>p. P (Plain p)) \<or> (\<exists>m i b. P (Prompt m i b)) \<or> (\<exists>m i. P (Steer m i))
     \<or> (\<exists>m i. P (FollowUp m i)) \<or> (\<exists>p. P (NewSession p)) \<or> (\<exists>p m. P (SetModel p m))
     \<or> (\<exists>l. P (SetThinkingLevel l)) \<or> (\<exists>m. P (SetSteeringMode m)) \<or> (\<exists>m. P (SetFollowUpMode m))
     \<or> (\<exists>i. P (Compact i)) \<or> (\<exists>b. P (SetAutoCompaction b)) \<or> (\<exists>b. P (SetAutoRetry b))
     \<or> (\<exists>c x. P (Bash c x)) \<or> (\<exists>p. P (ExportHtml p)) \<or> (\<exists>p. P (SwitchSession p))
     \<or> (\<exists>e. P (Fork e)) \<or> (\<exists>s. P (GetEntries s)) \<or> (\<exists>n. P (SetSessionName n))"
  (is "?l = ?r")
proof
  assume ?l
  then obtain c where c: "P c" ..
  from pi_command.nchotomy [rule_format, of c] show ?r
    by (elim disj_forward; elim exE; use c in \<open>fast intro: exI\<close>)
qed (elim disjE exE; erule exI)

text \<open>What the fields of a command of type \<open>t\<close> say about \<open>v\<close>.\<close>

definition args_described :: "json \<Rightarrow> string \<Rightarrow> pi_command \<Rightarrow> bool" where
  "args_described v t c \<longleftrightarrow> t = fst (command_fields c) \<and>
     hasOnlyKeys v ([''id'', ''type''] @ map fst (snd (command_fields c))) \<and>
     list_all (\<lambda>(k, P). P (member v k)) (snd (command_fields c))"

lemma is_command_iff:
  "is_command v i c \<longleftrightarrow> is_record v \<and> optional name_field i (member v ''id'') \<and>
     (\<exists>t. member v ''type'' = JString t \<and> args_described v t c)"
  by (auto simp: is_command_def describes_def args_described_def text_field_def)

text \<open>The declared union, member by member, with the guards in place of the field types.\<close>

lemma args_plain:
  "(\<exists>p. args_described v t (Plain p)) \<longleftrightarrow>
     t \<in> set NO_ARGUMENT_COMMANDS \<and> hasOnlyKeys v ([''id'', ''type''] @ [])"
  using plain_names [of t] by (simp add: args_described_def)

lemma args_variants:
  "(\<exists>m i b. args_described v t (Prompt m i b)) \<longleftrightarrow>
     t = ''prompt'' \<and> hasOnlyKeys v ([''id'', ''type''] @ [''message'', ''images'', ''streamingBehavior'']) \<and> is_js_string (member v ''message'') \<and> is_optional_images (member v ''images'') \<and>
      (member v ''streamingBehavior'' = JUndefined \<or>
       member v ''streamingBehavior'' = JString ''steer'' \<or>
       member v ''streamingBehavior'' = JString ''followUp'')"
  "(\<exists>m i. args_described v t (Steer m i)) \<longleftrightarrow>
     t = ''steer'' \<and> hasOnlyKeys v ([''id'', ''type''] @ [''message'', ''images'']) \<and> is_js_string (member v ''message'') \<and> is_optional_images (member v ''images'')"
  "(\<exists>m i. args_described v t (FollowUp m i)) \<longleftrightarrow>
     t = ''follow_up'' \<and> hasOnlyKeys v ([''id'', ''type''] @ [''message'', ''images'']) \<and> is_js_string (member v ''message'') \<and> is_optional_images (member v ''images'')"
  "(\<exists>p. args_described v t (NewSession p)) \<longleftrightarrow>
     t = ''new_session'' \<and> hasOnlyKeys v ([''id'', ''type''] @ [''parentSession'']) \<and> isOptionalNonEmptyString (member v ''parentSession'')"
  "(\<exists>p m. args_described v t (SetModel p m)) \<longleftrightarrow>
     t = ''set_model'' \<and> hasOnlyKeys v ([''id'', ''type''] @ [''provider'', ''modelId'']) \<and> isNonEmptyString (member v ''provider'') \<and> isNonEmptyString (member v ''modelId'')"
  "(\<exists>l. args_described v t (SetThinkingLevel l)) \<longleftrightarrow>
     t = ''set_thinking_level'' \<and> hasOnlyKeys v ([''id'', ''type''] @ [''level'']) \<and> isThinkingLevel (member v ''level'')"
  "(\<exists>m. args_described v t (SetSteeringMode m)) \<longleftrightarrow>
     t = ''set_steering_mode'' \<and> hasOnlyKeys v ([''id'', ''type''] @ [''mode'']) \<and> is_queue_mode (member v ''mode'')"
  "(\<exists>m. args_described v t (SetFollowUpMode m)) \<longleftrightarrow>
     t = ''set_follow_up_mode'' \<and> hasOnlyKeys v ([''id'', ''type''] @ [''mode'']) \<and> is_queue_mode (member v ''mode'')"
  "(\<exists>i. args_described v t (Compact i)) \<longleftrightarrow>
     t = ''compact'' \<and> hasOnlyKeys v ([''id'', ''type''] @ [''customInstructions'']) \<and> (member v ''customInstructions'' = JUndefined \<or> is_js_string (member v ''customInstructions''))"
  "(\<exists>b. args_described v t (SetAutoCompaction b)) \<longleftrightarrow>
     t = ''set_auto_compaction'' \<and> hasOnlyKeys v ([''id'', ''type''] @ [''enabled'']) \<and> is_js_boolean (member v ''enabled'')"
  "(\<exists>b. args_described v t (SetAutoRetry b)) \<longleftrightarrow>
     t = ''set_auto_retry'' \<and> hasOnlyKeys v ([''id'', ''type''] @ [''enabled'']) \<and> is_js_boolean (member v ''enabled'')"
  "(\<exists>c x. args_described v t (Bash c x)) \<longleftrightarrow>
     t = ''bash'' \<and> hasOnlyKeys v ([''id'', ''type''] @ [''command'', ''excludeFromContext'']) \<and> is_js_string (member v ''command'') \<and>
      (member v ''excludeFromContext'' = JUndefined \<or> is_js_boolean (member v ''excludeFromContext''))"
  "(\<exists>p. args_described v t (ExportHtml p)) \<longleftrightarrow>
     t = ''export_html'' \<and> hasOnlyKeys v ([''id'', ''type''] @ [''outputPath'']) \<and> isOptionalNonEmptyString (member v ''outputPath'')"
  "(\<exists>p. args_described v t (SwitchSession p)) \<longleftrightarrow>
     t = ''switch_session'' \<and> hasOnlyKeys v ([''id'', ''type''] @ [''sessionPath'']) \<and> isNonEmptyString (member v ''sessionPath'')"
  "(\<exists>e. args_described v t (Fork e)) \<longleftrightarrow>
     t = ''fork'' \<and> hasOnlyKeys v ([''id'', ''type''] @ [''entryId'']) \<and> isNonEmptyString (member v ''entryId'')"
  "(\<exists>s. args_described v t (GetEntries s)) \<longleftrightarrow>
     t = ''get_entries'' \<and> hasOnlyKeys v ([''id'', ''type''] @ [''since'']) \<and> isOptionalNonEmptyString (member v ''since'')"
  "(\<exists>n. args_described v t (SetSessionName n)) \<longleftrightarrow>
     t = ''set_session_name'' \<and> hasOnlyKeys v ([''id'', ''type''] @ [''name'']) \<and> isNonEmptyString (member v ''name'')"
  unfolding is_optional_string_iff is_optional_boolean_iff is_behavior_field
  unfolding field_iffs by (simp_all add: args_described_def)

text \<open>The switch of \<open>isPiRpcCommand\<close> as a disjunction over the types.\<close>

lemma command_switch:
  "(if t \<in> set NO_ARGUMENT_COMMANDS then a0 else if t = ''prompt'' then a1
    else if t = ''steer'' \<or> t = ''follow_up'' then a2 else if t = ''new_session'' then a3
    else if t = ''set_model'' then a4 else if t = ''set_thinking_level'' then a5
    else if t = ''set_steering_mode'' \<or> t = ''set_follow_up_mode'' then a6
    else if t = ''compact'' then a7
    else if t = ''set_auto_compaction'' \<or> t = ''set_auto_retry'' then a8
    else if t = ''bash'' then a9 else if t = ''export_html'' then a10
    else if t = ''switch_session'' then a11 else if t = ''fork'' then a12
    else if t = ''get_entries'' then a13 else if t = ''set_session_name'' then a14 else False) \<longleftrightarrow>
   (t \<in> set NO_ARGUMENT_COMMANDS \<and> a0) \<or> (t = ''prompt'' \<and> a1) \<or> (t = ''steer'' \<and> a2) \<or>
   (t = ''follow_up'' \<and> a2) \<or> (t = ''new_session'' \<and> a3) \<or> (t = ''set_model'' \<and> a4) \<or>
   (t = ''set_thinking_level'' \<and> a5) \<or> (t = ''set_steering_mode'' \<and> a6) \<or>
   (t = ''set_follow_up_mode'' \<and> a6) \<or> (t = ''compact'' \<and> a7) \<or>
   (t = ''set_auto_compaction'' \<and> a8) \<or> (t = ''set_auto_retry'' \<and> a8) \<or> (t = ''bash'' \<and> a9) \<or>
   (t = ''export_html'' \<and> a10) \<or> (t = ''switch_session'' \<and> a11) \<or> (t = ''fork'' \<and> a12) \<or>
   (t = ''get_entries'' \<and> a13) \<or> (t = ''set_session_name'' \<and> a14)"
proof (cases "t \<in> set NO_ARGUMENT_COMMANDS")
  case True
  then have "t \<notin> set ARGUMENT_COMMANDS"
    unfolding NO_ARGUMENT_COMMANDS_def ARGUMENT_COMMANDS_def by auto
  with True show ?thesis by (simp add: ARGUMENT_COMMANDS_def)
next
  case False
  then show ?thesis by (simp split del: if_split) (auto)
qed

lemma isPiRpcCommand_iff_args:
  assumes "member v ''type'' = JString t" and "is_record v" and "hasValidOptionalId v"
  shows "isPiRpcCommand v \<longleftrightarrow> isNonEmptyString (JString t) \<and> (\<exists>c. args_described v t c)"
  unfolding ex_command args_plain args_variants isPiRpcCommand_def Let_def
  by (simp only: assms str_of.simps command_switch) simp

lemma plain_name_ok: "isNonEmptyString (JString (plain_name p))"
  by (cases p; simp only: plain_name.simps; code_simp)

lemma command_type_ok: "isNonEmptyString (JString (fst (command_fields c)))"
  by (cases c; simp only: command_fields.simps fst_conv plain_name_ok; code_simp)

section \<open>UI responses and requests as declared\<close>

datatype ui_answer = Value string | Confirmed bool | Cancelled

fun answer_fields :: "ui_answer \<Rightarrow> fields" where
  "answer_fields (Value s) = [(''value'', text_field s)]"
| "answer_fields (Confirmed b) = [(''confirmed'', flag_field b)]"
| "answer_fields Cancelled = [(''cancelled'', flag_field True)]"

definition is_ui_response :: "json \<Rightarrow> string \<Rightarrow> ui_answer \<Rightarrow> bool" where
  "is_ui_response v i a \<longleftrightarrow>
     describes v ([(''type'', text_field ''extension_ui_response''), (''id'', name_field i)] @ answer_fields a)"

datatype notify_type = Info | Warning | Error

fun notify_name :: "notify_type \<Rightarrow> string" where
  "notify_name Info = ''info''" | "notify_name Warning = ''warning''" | "notify_name Error = ''error''"

datatype widget_placement = AboveEditor | BelowEditor

fun placement_name :: "widget_placement \<Rightarrow> string" where
  "placement_name AboveEditor = ''aboveEditor''" | "placement_name BelowEditor = ''belowEditor''"

datatype ui_request =
    Select string "string list" "int option"
  | Confirm string string "int option"
  | Input string "string option" "int option"
  | Editor string "string option"
  | Notify string "notify_type option"
  | SetStatus string "string option"
  | SetWidget string "string list option" "widget_placement option"
  | SetTitle string
  | SetEditorText string

fun request_fields :: "ui_request \<Rightarrow> string \<times> fields" where
  "request_fields (Select t os n) = (''select'', [(''title'', text_field t),
     (''options'', list_field text_field os), (''timeout'', optional count_field n)])"
| "request_fields (Confirm t m n) = (''confirm'', [(''title'', text_field t),
     (''message'', text_field m), (''timeout'', optional count_field n)])"
| "request_fields (Input t p n) = (''input'', [(''title'', text_field t),
     (''placeholder'', optional text_field p), (''timeout'', optional count_field n)])"
| "request_fields (Editor t p) = (''editor'', [(''title'', text_field t), (''prefill'', optional text_field p)])"
| "request_fields (Notify m k) = (''notify'', [(''message'', text_field m),
     (''notifyType'', optional (literal_field notify_name) k)])"
| "request_fields (SetStatus k t) = (''setStatus'', [(''statusKey'', name_field k),
     (''statusText'', optional text_field t)])"
| "request_fields (SetWidget k ls p) = (''setWidget'', [(''widgetKey'', name_field k),
     (''widgetLines'', optional (list_field text_field) ls),
     (''widgetPlacement'', optional (literal_field placement_name) p)])"
| "request_fields (SetTitle t) = (''setTitle'', [(''title'', text_field t)])"
| "request_fields (SetEditorText t) = (''set_editor_text'', [(''text'', text_field t)])"

definition is_ui_request :: "json \<Rightarrow> string \<Rightarrow> ui_request \<Rightarrow> bool" where
  "is_ui_request v i q \<longleftrightarrow>
     describes v ([(''type'', text_field ''extension_ui_request''), (''id'', name_field i),
       (''method'', text_field (fst (request_fields q)))] @ snd (request_fields q))"

definition request_described :: "json \<Rightarrow> string \<Rightarrow> ui_request \<Rightarrow> bool" where
  "request_described v t q \<longleftrightarrow> t = fst (request_fields q) \<and>
     hasOnlyKeys v ([''type'', ''id'', ''method''] @ map fst (snd (request_fields q))) \<and>
     list_all (\<lambda>(k, P). P (member v k)) (snd (request_fields q))"

lemma is_ui_request_iff:
  "is_ui_request v i q \<longleftrightarrow> is_record v \<and> member v ''type'' = JString ''extension_ui_request'' \<and>
     name_field i (member v ''id'') \<and> (\<exists>m. member v ''method'' = JString m \<and> request_described v m q)"
  by (auto simp: is_ui_request_def describes_def request_described_def text_field_def)

lemma is_timeout_field: "isOptionalTimeout v \<longleftrightarrow> (\<exists>n. optional count_field n v)"
proof -
  have "is_safe_integer w \<and> number_of w > 0 \<longleftrightarrow> (\<exists>n. count_field n w)" for w
    by (auto simp: is_safe_integer_iff count_field_def)
  then show ?thesis unfolding isOptionalTimeout_def by (intro optional_iff) simp_all
qed

lemma isStringArray_field: "isStringArray v \<longleftrightarrow> (\<exists>xs. list_field text_field xs v)"
  unfolding isStringArray_def by (rule list_field_iff [OF is_js_string_field])

lemma is_notify_field:
  "v = JUndefined \<or> v = JString ''info'' \<or> v = JString ''warning'' \<or> v = JString ''error'' \<longleftrightarrow>
   (\<exists>b. optional (literal_field notify_name) b v)"
proof -
  have "(\<exists>b. P b) \<longleftrightarrow> P Info \<or> P Warning \<or> P Error" for P by (metis notify_type.exhaust)
  then show ?thesis by (auto simp: ex_option literal_field_def)
qed

lemma is_placement_field:
  "v = JUndefined \<or> v = JString ''aboveEditor'' \<or> v = JString ''belowEditor'' \<longleftrightarrow>
   (\<exists>b. optional (literal_field placement_name) b v)"
proof -
  have "(\<exists>b. P b) \<longleftrightarrow> P AboveEditor \<or> P BelowEditor" for P by (metis widget_placement.exhaust)
  then show ?thesis by (auto simp: ex_option literal_field_def)
qed

lemma is_lines_field: "v = JUndefined \<or> isStringArray v \<longleftrightarrow> (\<exists>l. optional (list_field text_field) l v)"
  by (rule optional_iff) (simp_all add: isStringArray_field list_field_def)

lemma ex_request:
  "(\<exists>q. P q) \<longleftrightarrow> (\<exists>t os n. P (Select t os n)) \<or> (\<exists>t m n. P (Confirm t m n)) \<or> (\<exists>t p n. P (Input t p n))
     \<or> (\<exists>t p. P (Editor t p)) \<or> (\<exists>m k. P (Notify m k)) \<or> (\<exists>k t. P (SetStatus k t))
     \<or> (\<exists>k l p. P (SetWidget k l p)) \<or> (\<exists>t. P (SetTitle t)) \<or> (\<exists>t. P (SetEditorText t))"
  (is "?l = ?r")
proof
  assume ?l
  then obtain q where q: "P q" ..
  from ui_request.nchotomy [rule_format, of q] show ?r
    by (elim disj_forward; elim exE; use q in \<open>fast intro: exI\<close>)
qed (elim disjE exE; erule exI)

lemma request_variants:
  "(\<exists>t os n. request_described v m (Select t os n)) \<longleftrightarrow> m = ''select'' \<and>
     hasOnlyKeys v ([''type'', ''id'', ''method''] @ [''title'', ''options'', ''timeout'']) \<and>
     is_js_string (member v ''title'') \<and> isStringArray (member v ''options'') \<and>
     isOptionalTimeout (member v ''timeout'')"
  "(\<exists>t m' n. request_described v m (Confirm t m' n)) \<longleftrightarrow> m = ''confirm'' \<and>
     hasOnlyKeys v ([''type'', ''id'', ''method''] @ [''title'', ''message'', ''timeout'']) \<and>
     is_js_string (member v ''title'') \<and> is_js_string (member v ''message'') \<and>
     isOptionalTimeout (member v ''timeout'')"
  "(\<exists>t p n. request_described v m (Input t p n)) \<longleftrightarrow> m = ''input'' \<and>
     hasOnlyKeys v ([''type'', ''id'', ''method''] @ [''title'', ''placeholder'', ''timeout'']) \<and>
     is_js_string (member v ''title'') \<and> is_optional_string (member v ''placeholder'') \<and>
     isOptionalTimeout (member v ''timeout'')"
  "(\<exists>t p. request_described v m (Editor t p)) \<longleftrightarrow> m = ''editor'' \<and>
     hasOnlyKeys v ([''type'', ''id'', ''method''] @ [''title'', ''prefill'']) \<and>
     is_js_string (member v ''title'') \<and> is_optional_string (member v ''prefill'')"
  "(\<exists>t k. request_described v m (Notify t k)) \<longleftrightarrow> m = ''notify'' \<and>
     hasOnlyKeys v ([''type'', ''id'', ''method''] @ [''message'', ''notifyType'']) \<and>
     is_js_string (member v ''message'') \<and>
     (member v ''notifyType'' = JUndefined \<or> member v ''notifyType'' = JString ''info'' \<or>
      member v ''notifyType'' = JString ''warning'' \<or> member v ''notifyType'' = JString ''error'')"
  "(\<exists>k t. request_described v m (SetStatus k t)) \<longleftrightarrow> m = ''setStatus'' \<and>
     hasOnlyKeys v ([''type'', ''id'', ''method''] @ [''statusKey'', ''statusText'']) \<and>
     isNonEmptyString (member v ''statusKey'') \<and> is_optional_string (member v ''statusText'')"
  "(\<exists>k l p. request_described v m (SetWidget k l p)) \<longleftrightarrow> m = ''setWidget'' \<and>
     hasOnlyKeys v ([''type'', ''id'', ''method''] @ [''widgetKey'', ''widgetLines'', ''widgetPlacement'']) \<and>
     isNonEmptyString (member v ''widgetKey'') \<and>
     (member v ''widgetLines'' = JUndefined \<or> isStringArray (member v ''widgetLines'')) \<and>
     (member v ''widgetPlacement'' = JUndefined \<or>
      member v ''widgetPlacement'' = JString ''aboveEditor'' \<or>
      member v ''widgetPlacement'' = JString ''belowEditor'')"
  "(\<exists>t. request_described v m (SetTitle t)) \<longleftrightarrow> m = ''setTitle'' \<and>
     hasOnlyKeys v ([''type'', ''id'', ''method''] @ [''title'']) \<and> is_js_string (member v ''title'')"
  "(\<exists>t. request_described v m (SetEditorText t)) \<longleftrightarrow> m = ''set_editor_text'' \<and>
     hasOnlyKeys v ([''type'', ''id'', ''method''] @ [''text'']) \<and> is_js_string (member v ''text'')"
  unfolding is_notify_field is_placement_field is_lines_field is_optional_string_def is_optional_string_iff
  unfolding is_timeout_field isStringArray_field field_iffs
  by (simp_all add: request_described_def)

lemma request_switch:
  "(if m = ''select'' then a0 else if m = ''confirm'' then a1 else if m = ''input'' then a2
    else if m = ''editor'' then a3 else if m = ''notify'' then a4 else if m = ''setStatus'' then a5
    else if m = ''setWidget'' then a6 else if m = ''setTitle'' then a7
    else if m = ''set_editor_text'' then a8 else False) \<longleftrightarrow>
   (m = ''select'' \<and> a0) \<or> (m = ''confirm'' \<and> a1) \<or> (m = ''input'' \<and> a2) \<or> (m = ''editor'' \<and> a3) \<or>
   (m = ''notify'' \<and> a4) \<or> (m = ''setStatus'' \<and> a5) \<or> (m = ''setWidget'' \<and> a6) \<or>
   (m = ''setTitle'' \<and> a7) \<or> (m = ''set_editor_text'' \<and> a8)"
  by auto

lemma request_method_listed: "fst (request_fields q) \<in> set EXTENSION_UI_METHODS"
  by (cases q) (simp_all add: EXTENSION_UI_METHODS_def)

lemma isPiExtensionUiRequest_iff_described:
  assumes "member v ''method'' = JString m" and "is_record v"
    and "member v ''type'' = JString ''extension_ui_request''" and "isNonEmptyString (member v ''id'')"
    and "m \<in> set EXTENSION_UI_METHODS"
  shows "isPiExtensionUiRequest v \<longleftrightarrow> (\<exists>q. request_described v m q)"
  unfolding ex_request request_variants isPiExtensionUiRequest_def Let_def
  by (simp only: assms str_of.simps is_js_string.simps request_switch) (simp add: assms)

section \<open>Event types\<close>

definition event_types :: "string list" where
  "event_types = SIMPLE_EVENT_TYPES @
     [''agent_end'', ''turn_end'', ''message_start'', ''message_end'', ''message_update'',
      ''bash_execution_update'', ''tool_execution_start'', ''tool_execution_update'',
      ''tool_execution_end'', ''queue_update'', ''compaction_start'', ''entry_appended'',
      ''session_info_changed'', ''thinking_level_changed'', ''compaction_end'', ''auto_retry_start'',
      ''summarization_retry_scheduled'', ''auto_retry_end'', ''summarization_retry_attempt_start'',
      ''summarization_retry_finished'', ''extension_error'']"

lemma isPiRpcEvent_type:
  assumes "isPiRpcEvent v"
  shows "is_record v \<and> (\<exists>t. member v ''type'' = JString t \<and> t \<in> set event_types)"
proof -
  have rec: "is_record v" and ne: "isNonEmptyString (member v ''type'')"
    using assms by (auto simp: isPiRpcEvent_def split: if_splits)
  from ne obtain t where t: "member v ''type'' = JString t"
    by (auto simp: isNonEmptyString_iff name_field_def)
  have "t \<in> set event_types"
  proof (rule ccontr)
    assume "t \<notin> set event_types"
    then have "t \<notin> set SIMPLE_EVENT_TYPES" and
      "t \<noteq> ''agent_end''" "t \<noteq> ''turn_end''" "t \<noteq> ''message_start''" "t \<noteq> ''message_end''"
      "t \<noteq> ''message_update''" "t \<noteq> ''bash_execution_update''" "t \<noteq> ''tool_execution_start''"
      "t \<noteq> ''tool_execution_update''" "t \<noteq> ''tool_execution_end''" "t \<noteq> ''queue_update''"
      "t \<noteq> ''compaction_start''" "t \<noteq> ''entry_appended''" "t \<noteq> ''session_info_changed''"
      "t \<noteq> ''thinking_level_changed''" "t \<noteq> ''compaction_end''" "t \<noteq> ''auto_retry_start''"
      "t \<noteq> ''summarization_retry_scheduled''" "t \<noteq> ''auto_retry_end''"
      "t \<noteq> ''summarization_retry_attempt_start''" "t \<noteq> ''summarization_retry_finished''"
      "t \<noteq> ''extension_error''"
      by (simp_all add: event_types_def)
    with assms rec ne t show False by (simp add: isPiRpcEvent_def)
  qed
  with rec t show ?thesis by blast
qed

lemma response_type: "isPiRpcResponse v \<Longrightarrow> is_record v \<and> member v ''type'' = JString ''response''"
  by (auto simp: isPiRpcResponse_def split: if_splits)

lemma ui_request_type:
  "isPiExtensionUiRequest v \<Longrightarrow> is_record v \<and> member v ''type'' = JString ''extension_ui_request''"
  by (auto simp: isPiExtensionUiRequest_def split: if_splits)

lemma other_types_no_event:
  "''response'' \<notin> set event_types" "''extension_ui_request'' \<notin> set event_types"
  by code_simp+

lemma bare_command:
  assumes "isNonEmptyString w"
  shows "isPiRpcCommand (JObject [(''type'', w)]) \<Longrightarrow>
    str_of w \<in> set (NO_ARGUMENT_COMMANDS @ ARGUMENT_COMMANDS)"
proof -
  let ?v = "JObject [(''type'', w)]"
  assume c: "isPiRpcCommand ?v"
  from assms obtain t where w: "w = JString t" by (auto simp: isNonEmptyString_iff name_field_def)
  have m: "member ?v ''type'' = JString t" "hasValidOptionalId ?v" "is_record ?v"
    by (simp_all add: w member_def hasValidOptionalId_def)
  obtain c where "args_described ?v t c"
    using c isPiRpcCommand_iff_args [OF m(1) m(3) m(2)] by blast
  then have t: "t = fst (command_fields c)" by (simp add: args_described_def)
  have "fst (command_fields c) \<in> set (NO_ARGUMENT_COMMANDS @ ARGUMENT_COMMANDS)"
  proof (cases c)
    case (Plain p)
    then show ?thesis using plain_names [of "plain_name p"] by auto
  qed (simp_all add: ARGUMENT_COMMANDS_def)
  with t w show ?thesis by simp
qed

section \<open>Properties\<close>


text \<open>
  C28. The guards for the extension dialogue accept exactly the declared unions: \<open>PiExtensionUiRequest\<close>
  for what the child sends and \<open>PiExtensionUiResponse\<close> for what the server answers.
\<close>

theorem extension_ui_guards_are_declared_types:
  "(isPiExtensionUiRequest v \<longleftrightarrow> (\<exists>i q. is_ui_request v i q)) \<and>
   (isPiExtensionUiResponse v \<longleftrightarrow> (\<exists>i a. is_ui_response v i a))"
proof
  show "isPiExtensionUiRequest v \<longleftrightarrow> (\<exists>i q. is_ui_request v i q)"
  proof (cases "\<exists>m. member v ''method'' = JString m \<and> is_record v \<and>
      member v ''type'' = JString ''extension_ui_request'' \<and> isNonEmptyString (member v ''id'') \<and>
      m \<in> set EXTENSION_UI_METHODS")
    case True
    then obtain m where m: "member v ''method'' = JString m" "is_record v"
      "member v ''type'' = JString ''extension_ui_request''" "isNonEmptyString (member v ''id'')"
      "m \<in> set EXTENSION_UI_METHODS" by blast
    show ?thesis
      unfolding isPiExtensionUiRequest_iff_described [OF m] is_ui_request_iff
      using m(1-4) by (simp add: isNonEmptyString_iff)
  next
    case False
    then have "\<not> isPiExtensionUiRequest v"
      by (auto simp: isPiExtensionUiRequest_def is_js_string_iff simp del: Let_def split: if_splits)
    moreover have "\<not> is_ui_request v i q" for i q
      using False request_method_listed [of q]
      by (auto simp: is_ui_request_iff isNonEmptyString_iff request_described_def)
    ultimately show ?thesis by blast
  qed
next
  have "(\<exists>a. P a) \<longleftrightarrow> (\<exists>s. P (Value s)) \<or> (\<exists>b. P (Confirmed b)) \<or> P Cancelled" for P
    by (metis ui_answer.exhaust)
  then show "isPiExtensionUiResponse v \<longleftrightarrow> (\<exists>i a. is_ui_response v i a)"
    unfolding isPiExtensionUiResponse_def is_ui_response_def describes_def
    by (auto simp: isNonEmptyString_iff is_js_string_field is_js_boolean_field text_field_def flag_field_def)
qed

text \<open>
  The classes of output are disjoint, so the dispatch by class is unambiguous: no value is at once
  a response, an extension UI request and an event; and no input is at once a command and a UI
  response. A successful response names a declared command.
\<close>

theorem rpc_classes_disjoint:
  "\<not> (isPiRpcResponse v \<and> isPiExtensionUiRequest v) \<and> \<not> (isPiRpcResponse v \<and> isPiRpcEvent v) \<and>
   \<not> (isPiExtensionUiRequest v \<and> isPiRpcEvent v) \<and>
   \<not> (isPiRpcCommand v \<and> isPiExtensionUiResponse v) \<and>
   (isPiRpcResponse v \<and> member v ''success'' = JBool True \<longrightarrow>
      str_of (member v ''command'') \<in> set (NO_ARGUMENT_COMMANDS @ ARGUMENT_COMMANDS))"
proof (intro conjI notI impI; (elim conjE)?)
  assume "isPiRpcResponse v" "isPiExtensionUiRequest v"
  then show False using response_type ui_request_type by fastforce
next
  assume "isPiRpcResponse v" "isPiRpcEvent v"
  then show False using response_type isPiRpcEvent_type other_types_no_event by fastforce
next
  assume "isPiExtensionUiRequest v" "isPiRpcEvent v"
  then show False using ui_request_type isPiRpcEvent_type other_types_no_event by fastforce
next
  assume c: "isPiRpcCommand v" and "isPiExtensionUiResponse v"
  then have t: "member v ''type'' = JString ''extension_ui_response''" "is_record v"
    by (auto simp: isPiExtensionUiResponse_def split: if_splits)
  from c t show False
    by (simp add: isPiRpcCommand_def NO_ARGUMENT_COMMANDS_def split: if_splits)
next
  assume r: "isPiRpcResponse v" and ok: "member v ''success'' = JBool True"
  then have ne: "isNonEmptyString (member v ''command'')" by (auto simp: isPiRpcResponse_def split: if_splits)
  show "str_of (member v ''command'') \<in> set (NO_ARGUMENT_COMMANDS @ ARGUMENT_COMMANDS)"
    using r ok bare_command [OF ne] by (auto simp: isPiRpcResponse_def split: if_splits)
qed

theorem rpc_classes_disjoint_witness:
  "str_of (JString ''abort'') \<in> set (NO_ARGUMENT_COMMANDS @ ARGUMENT_COMMANDS)"
proof -
  let ?v = "JObject [(''type'', JString ''response''), (''command'', JString ''abort''), (''success'', JBool True)]"
  have "isPiRpcResponse ?v" "member ?v ''success'' = JBool True" "member ?v ''command'' = JString ''abort''"
    by code_simp+
  with rpc_classes_disjoint [of ?v] show ?thesis by auto
qed

text \<open>
  One frame per input. If the text of a number has no line feed, a serialised command or UI
  response is a non-empty line followed by the only line feed of the text; any other value is refused.
\<close>

theorem serializePiRpcInput_one_frame:
  assumes "\<And>n. LF \<notin> set (number_text n)"
  shows "case serializePiRpcInput number_text v of
      Inl e \<Rightarrow> e = InvalidInput \<and> (\<nexists>i c. is_command v i c) \<and> (\<nexists>i a. is_ui_response v i a)
    | Inr s \<Rightarrow> (\<exists>frame. s = frame @ [LF] \<and> frame \<noteq> [] \<and> LF \<notin> set frame)"
proof -
  have cmd: "is_command v i c \<Longrightarrow> isPiRpcCommand v" for i c
  proof -
    assume c: "is_command v i c"
    then obtain t where t: "is_record v" "optional name_field i (member v ''id'')"
      "member v ''type'' = JString t" "args_described v t c" by (auto simp: is_command_iff)
    then have "hasValidOptionalId v" by (auto simp: hasValidOptionalId_iff)
    with t command_type_ok [of c] show ?thesis
      by (auto simp: isPiRpcCommand_iff_args [OF t(3,1)] args_described_def)
  qed
  have rsp: "is_ui_response v i a \<Longrightarrow> isPiExtensionUiResponse v" for i a
    by (cases a) (auto simp: is_ui_response_def describes_def isPiExtensionUiResponse_def text_field_def
        flag_field_def isNonEmptyString_iff)
  have "is_record v" if "isPiRpcCommand v \<or> isPiExtensionUiResponse v"
    using that by (auto simp: isPiRpcCommand_def isPiExtensionUiResponse_def split: if_splits)
  then show ?thesis
    using json_stringify_no_LF [OF assms] cmd rsp
    by (auto simp: serializePiRpcInput_def split: sum.splits)
qed

theorem serializePiRpcInput_one_frame_witness:
  "\<exists>frame. serializePiRpcInput (\<lambda>_. ''0'') (JObject [(''type'', JString ''steer''), (''message'', JString [LF])])
     = Inr (frame @ [LF]) \<and> LF \<notin> set frame"
proof -
  let ?v = "JObject [(''type'', JString ''steer''), (''message'', JString [LF])]"
  have h: "\<And>n :: js_number. LF \<notin> set ''0''" by code_simp
  have r: "serializePiRpcInput (\<lambda>_. ''0'') ?v
      = Inr (json_stringify (\<lambda>_. ''0'') ?v @ [LF])" by code_simp
  from serializePiRpcInput_one_frame [where number_text = "\<lambda>_. ''0''" and v = ?v, OF h]
  show ?thesis unfolding r by auto
qed

end
