(* ===== verification/Frame_Decoder.thy ===== *)
theory Frame_Decoder
  imports Prelude "HOL-Library.Word"
begin

text \<open>
  \<open>StrictLfJsonlDecoder\<close> (web/server/pi-rpc-transport.ts): the byte-level decoder that cuts the output
  of a child process, or of the runtime socket, into LF-terminated frames. Bytes are 8-bit words;
  the fatal UTF-8 decoder (\<open>TextDecoder\<close>) is a parameter, where None stands for its exception.

  The locale \<open>chunked_stream\<close> is what the users of a decoder rely on: how the stream was cut into
  chunks does not matter. The decoder is an interpretation of it.
\<close>

section \<open>Chunked streams\<close>

locale chunked_stream =
  fixes feed :: "'s \<Rightarrow> 'b list \<Rightarrow> ('e + 'l list) \<times> 's"
    and good :: "'s \<Rightarrow> bool"
  assumes feed_nothing: "good s \<Longrightarrow> feed s [] = (Inr [], s)"
    and feed_good: "good s \<Longrightarrow> feed s xs = (Inr ls, s') \<Longrightarrow> good s'"
    and feed_append_ok: "good s \<Longrightarrow> feed s xs = (Inr ls, s') \<Longrightarrow>
      feed s (xs @ ys) = (case feed s' ys of (Inl e, s'') \<Rightarrow> (Inl e, s'') | (Inr ms, s'') \<Rightarrow> (Inr (ls @ ms), s''))"
    and feed_append_error: "good s \<Longrightarrow> feed s xs = (Inl e, s') \<Longrightarrow> \<exists>e' s''. feed s (xs @ ys) = (Inl e', s'')"
begin

fun feed_all :: "'s \<Rightarrow> 'b list list \<Rightarrow> ('e + 'l list) \<times> 's" where
  "feed_all s [] = (Inr [], s)"
| "feed_all s (xs # xss) =
     (case feed s xs of
        (Inl e, s') \<Rightarrow> (Inl e, s')
      | (Inr ls, s') \<Rightarrow>
          (case feed_all s' xss of (Inl e, s'') \<Rightarrow> (Inl e, s'') | (Inr ms, s'') \<Rightarrow> (Inr (ls @ ms), s'')))"

lemma feed_all_concat_ok:
  "good s \<Longrightarrow> feed_all s xss = (Inr ls, s') \<Longrightarrow> feed s (concat xss) = (Inr ls, s')"
proof (induction xss arbitrary: s ls)
  case Nil
  then show ?case by (simp add: feed_nothing)
next
  case (Cons xs xss)
  then obtain ks t ms where f: "feed s xs = (Inr ks, t)" and r: "feed_all t xss = (Inr ms, s')"
    and ls: "ls = ks @ ms"
    by (auto split: prod.splits sum.splits)
  from Cons.IH [OF feed_good [OF Cons.prems(1) f] r] feed_append_ok [OF Cons.prems(1) f, of "concat xss"]
  show ?case by (simp add: ls)
qed

lemma feed_all_concat_error:
  "good s \<Longrightarrow> feed_all s xss = (Inl e, s') \<Longrightarrow> \<exists>e' s''. feed s (concat xss) = (Inl e', s'')"
proof (induction xss arbitrary: s)
  case (Cons xs xss)
  show ?case
  proof (cases "feed s xs")
    case (Pair r t)
    show ?thesis
    proof (cases r)
      case (Inl e1)
      with Pair feed_append_error [OF Cons.prems(1), of xs e1 t "concat xss"] show ?thesis by simp
    next
      case (Inr ks)
      with Pair Cons.prems(2) have r: "feed_all t xss = (Inl e, s')"
        by (auto split: prod.splits sum.splits)
      have "good t" using feed_good [OF Cons.prems(1)] Pair Inr by blast
      from Cons.IH [OF this r] obtain e' s'' where "feed t (concat xss) = (Inl e', s'')" by blast
      with feed_append_ok [OF Cons.prems(1), of xs ks t "concat xss"] Pair Inr show ?thesis by simp
    qed
  qed
qed simp

text \<open>A stream is accepted with the same frames and the same rest however it was cut.\<close>

lemma feed_all_iff_feed:
  assumes "good s"
  shows "feed_all s xss = (Inr ls, s') \<longleftrightarrow> feed s (concat xss) = (Inr ls, s')"
proof
  assume whole: "feed s (concat xss) = (Inr ls, s')"
  obtain r t where r: "feed_all s xss = (r, t)" by force
  show "feed_all s xss = (Inr ls, s')"
  proof (cases r)
    case (Inl e)
    with feed_all_concat_error [OF assms, of xss e t] r whole show ?thesis by auto
  next
    case (Inr ms)
    with feed_all_concat_ok [OF assms, of xss ms t] r whole show ?thesis by simp
  qed
qed (rule feed_all_concat_ok [OF assms])

end

section \<open>The decoder\<close>

type_synonym byte = "8 word"

datatype frame_error = FrameTooLarge | IncompleteFrame | InvalidFrame | InvalidUtf8

record decoder =
  dec_buffered :: "byte list"
  dec_ended :: bool
  dec_maxFrameBytes :: int

definition LF_byte :: byte where
  "LF_byte = 0x0A"

definition CR_byte :: byte where
  "CR_byte = 0x0D"

definition new_decoder :: "json \<Rightarrow> decoder option" where
  "new_decoder maxFrameBytes =
     (if \<not> is_safe_integer maxFrameBytes \<or> number_of maxFrameBytes < 1 then None
      else Some \<lparr>dec_buffered = [], dec_ended = False, dec_maxFrameBytes = number_of maxFrameBytes\<rparr>)"

definition before_LF :: "byte list \<Rightarrow> byte list" where
  "before_LF bs = takeWhile (\<lambda>b. b \<noteq> LF_byte) bs"

definition after_LF :: "byte list \<Rightarrow> byte list" where
  "after_LF bs = tl (dropWhile (\<lambda>b. b \<noteq> LF_byte) bs)"

text \<open>The loop of \<open>push\<close>: the outcome and what is left in the buffer, also when it throws.\<close>

function frames_loop ::
  "(byte list \<Rightarrow> string option) \<Rightarrow> int \<Rightarrow> byte list \<Rightarrow> (frame_error + string list) \<times> byte list" where
  "frames_loop decodeUtf8 maxFrameBytes buffered =
     (if LF_byte \<notin> set buffered then (Inr [], buffered)
      else
        let frame = before_LF buffered; rest = after_LF buffered in
        if int (length frame) > maxFrameBytes then (Inl FrameTooLarge, buffered)
        else if length frame > 0 \<and> last frame = CR_byte then (Inl InvalidFrame, rest)
        else if length frame = 0 then (Inl InvalidFrame, rest)
        else
          (case decodeUtf8 frame of
             None \<Rightarrow> (Inl InvalidUtf8, rest)
           | Some line \<Rightarrow>
               (case frames_loop decodeUtf8 maxFrameBytes rest of
                  (Inl e, left) \<Rightarrow> (Inl e, left)
                | (Inr lines, left) \<Rightarrow> (Inr (line # lines), left))))"
  by pat_completeness auto
termination
proof (relation "measure (\<lambda>(d, m, bs). length bs)", goal_cases)
  case (2 decodeUtf8 m bs)
  then have "dropWhile (\<lambda>b. b \<noteq> LF_byte) bs \<noteq> []" by (simp add: dropWhile_eq_Nil_conv)
  then have "length (after_LF bs) < length (dropWhile (\<lambda>b. b \<noteq> LF_byte) bs)"
    unfolding after_LF_def by (cases "dropWhile (\<lambda>b. b \<noteq> LF_byte) bs") auto
  also have "\<dots> \<le> length bs" by (rule length_dropWhile_le)
  finally show ?case using 2 by simp
qed simp

declare frames_loop.simps [simp del]

definition decoder_push ::
  "(byte list \<Rightarrow> string option) \<Rightarrow> decoder \<Rightarrow> byte list \<Rightarrow> (frame_error + string list) \<times> decoder" where
  "decoder_push decodeUtf8 d chunk =
     (if dec_ended d then (Inl InvalidFrame, d)
      else if length chunk = 0 then (Inr [], d)
      else
        (case frames_loop decodeUtf8 (dec_maxFrameBytes d) (dec_buffered d @ chunk) of
           (Inl e, left) \<Rightarrow> (Inl e, d\<lparr>dec_buffered := left\<rparr>)
         | (Inr lines, left) \<Rightarrow>
             if int (length left) > dec_maxFrameBytes d
             then (Inl FrameTooLarge, d\<lparr>dec_buffered := left\<rparr>)
             else (Inr lines, d\<lparr>dec_buffered := left\<rparr>)))"

definition decoder_end :: "decoder \<Rightarrow> (frame_error + unit) \<times> decoder" where
  "decoder_end d =
     (if dec_ended d then (Inr (), d)
      else if length (dec_buffered d) \<noteq> 0 then (Inl IncompleteFrame, d\<lparr>dec_ended := True\<rparr>)
      else (Inr (), d\<lparr>dec_ended := True\<rparr>))"

definition bufferedBytes :: "decoder \<Rightarrow> nat" where
  "bufferedBytes d = length (dec_buffered d)"

section \<open>The loop against a reference\<close>

text \<open>
  A buffer without LF is the rest of a stream; otherwise it is a frame, an LF and a shorter buffer.
\<close>

lemma LF_split: "LF_byte \<in> set bs \<Longrightarrow> bs = before_LF bs @ LF_byte # after_LF bs"
proof -
  assume a: "LF_byte \<in> set bs"
  then have ne: "dropWhile (\<lambda>b. b \<noteq> LF_byte) bs \<noteq> []" by (simp add: dropWhile_eq_Nil_conv)
  then have "hd (dropWhile (\<lambda>b. b \<noteq> LF_byte) bs) = LF_byte" using hd_dropWhile [OF ne] by simp
  with ne have "dropWhile (\<lambda>b. b \<noteq> LF_byte) bs = LF_byte # after_LF bs"
    by (metis after_LF_def list.collapse)
  then show ?thesis by (metis before_LF_def takeWhile_dropWhile_id)
qed

lemma no_LF_before: "LF_byte \<notin> set (before_LF bs)"
  by (auto simp: before_LF_def dest: set_takeWhileD)

lemma split_at_LF [simp]:
  assumes "LF_byte \<notin> set frame"
  shows "before_LF (frame @ LF_byte # rest) = frame" "after_LF (frame @ LF_byte # rest) = rest"
proof -
  have "takeWhile (\<lambda>b. b \<noteq> LF_byte) frame = frame" "dropWhile (\<lambda>b. b \<noteq> LF_byte) frame = []"
    using assms by (auto simp: takeWhile_eq_all_conv)
  then show "before_LF (frame @ LF_byte # rest) = frame" "after_LF (frame @ LF_byte # rest) = rest"
    by (simp_all add: before_LF_def after_LF_def takeWhile_append dropWhile_append)
qed

definition frame_line :: "(byte list \<Rightarrow> string option) \<Rightarrow> int \<Rightarrow> byte list \<Rightarrow> frame_error + string" where
  "frame_line dec m frame =
     (if int (length frame) > m then Inl FrameTooLarge
      else if frame = [] \<or> last frame = CR_byte then Inl InvalidFrame
      else (case dec frame of None \<Rightarrow> Inl InvalidUtf8 | Some line \<Rightarrow> Inr line))"

lemma frames_loop_rest [simp]: "LF_byte \<notin> set bs \<Longrightarrow> frames_loop dec m bs = (Inr [], bs)"
  by (simp add: frames_loop.simps)

lemma frames_loop_frame:
  assumes "LF_byte \<notin> set frame"
  shows "(\<forall>line. frame_line dec m frame = Inr line \<longrightarrow> frames_loop dec m (frame @ LF_byte # rest) =
      (case frames_loop dec m rest of (Inl e, left) \<Rightarrow> (Inl e, left) | (Inr ls, left) \<Rightarrow> (Inr (line # ls), left)))
    \<and> (\<forall>e. frame_line dec m frame = Inl e \<longrightarrow> (\<exists>left. frames_loop dec m (frame @ LF_byte # rest) = (Inl e, left)))"
proof -
  have step: "frames_loop dec m (frame @ LF_byte # rest) =
      (if int (length frame) > m then (Inl FrameTooLarge, frame @ LF_byte # rest)
       else if length frame > 0 \<and> last frame = CR_byte then (Inl InvalidFrame, rest)
       else if length frame = 0 then (Inl InvalidFrame, rest)
       else (case dec frame of None \<Rightarrow> (Inl InvalidUtf8, rest)
         | Some line \<Rightarrow> (case frames_loop dec m rest of
             (Inl e, left) \<Rightarrow> (Inl e, left) | (Inr ls, left) \<Rightarrow> (Inr (line # ls), left))))"
    by (subst frames_loop.simps) (simp add: assms Let_def)
  show ?thesis
    unfolding step frame_line_def by (cases "dec frame") auto
qed

lemma frames_loop_cases:
  obtains (rest) "LF_byte \<notin> set bs"
  | (frame) frame more where "bs = frame @ LF_byte # more" "LF_byte \<notin> set frame" "length more < length bs"
proof (cases "LF_byte \<in> set bs")
  case True
  have "length bs = length (before_LF bs) + Suc (length (after_LF bs))"
    using arg_cong [OF LF_split [OF True], of length] by simp
  then show ?thesis
    using LF_split [OF True] no_LF_before by (intro frame) auto
qed (rule rest)

lemma frames_loop_left: "frames_loop dec m bs = (Inr ls, left) \<Longrightarrow> LF_byte \<notin> set left"
proof (induction "length bs" arbitrary: bs ls rule: less_induct)
  case less
  show ?case
  proof (cases bs rule: frames_loop_cases)
    case rest
    with less.prems show ?thesis by simp
  next
    case (frame f more)
    show ?thesis
    proof (cases "frame_line dec m f")
      case (Inl e)
      with frames_loop_frame [OF frame(2), of dec m more] frame less.prems show ?thesis by auto
    next
      case (Inr line)
      with frames_loop_frame [OF frame(2), of dec m more] frame less.prems obtain ks where
        "frames_loop dec m more = (Inr ks, left)" by (auto split: prod.splits sum.splits)
      with less.hyps frame(3) show ?thesis by blast
    qed
  qed
qed

lemma frames_loop_append:
  "frames_loop dec m bs = (Inr ls, left) \<Longrightarrow> frames_loop dec m (bs @ cs) =
     (case frames_loop dec m (left @ cs) of (Inl e, l) \<Rightarrow> (Inl e, l) | (Inr ms, l) \<Rightarrow> (Inr (ls @ ms), l))"
proof (induction "length bs" arbitrary: bs ls rule: less_induct)
  case less
  show ?case
  proof (cases bs rule: frames_loop_cases)
    case rest
    with less.prems show ?thesis by (auto split: prod.splits sum.splits)
  next
    case (frame f more)
    show ?thesis
    proof (cases "frame_line dec m f")
      case (Inl e)
      with frames_loop_frame [OF frame(2), of dec m more] frame less.prems show ?thesis by auto
    next
      case (Inr line)
      with frames_loop_frame [OF frame(2), of dec m more] frame less.prems obtain ks where
        r: "frames_loop dec m more = (Inr ks, left)" and ls: "ls = line # ks"
        by (auto split: prod.splits sum.splits)
      from less.hyps [OF frame(3) r] frames_loop_frame [OF frame(2), of dec m "more @ cs"] Inr
      show ?thesis by (auto simp: frame(1) ls split: prod.splits sum.splits)
    qed
  qed
qed

lemma frames_loop_append_error:
  "frames_loop dec m bs = (Inl e, left) \<Longrightarrow> \<exists>left'. frames_loop dec m (bs @ cs) = (Inl e, left')"
proof (induction "length bs" arbitrary: bs rule: less_induct)
  case less
  show ?case
  proof (cases bs rule: frames_loop_cases)
    case rest
    with less.prems show ?thesis by simp
  next
    case (frame f more)
    show ?thesis
    proof (cases "frame_line dec m f")
      case (Inl e')
      with frames_loop_frame [OF frame(2), of dec m more] frame less.prems have "e' = e" by auto
      with Inl frames_loop_frame [OF frame(2), of dec m "more @ cs"] frame(1) show ?thesis by auto
    next
      case (Inr line)
      with frames_loop_frame [OF frame(2), of dec m more] frame less.prems
      have r: "frames_loop dec m more = (Inl e, left)" by (auto split: prod.splits sum.splits)
      from less.hyps [OF frame(3) r] frames_loop_frame [OF frame(2), of dec m "more @ cs"] Inr frame(1)
      show ?thesis by auto
    qed
  qed
qed

text \<open>A rest that is already too long stays too long: its first frame is refused.\<close>

lemma frames_loop_long_rest:
  assumes "LF_byte \<notin> set left" and "int (length left) > m"
  shows "(\<exists>e l. frames_loop dec m (left @ cs) = (Inl e, l)) \<or>
    (frames_loop dec m (left @ cs) = (Inr [], left @ cs) \<and> int (length (left @ cs)) > m)"
proof (cases "LF_byte \<in> set cs")
  case True
  from LF_split [OF this] have cs: "cs = before_LF cs @ LF_byte # after_LF cs" .
  have n: "LF_byte \<notin> set (left @ before_LF cs)" using assms(1) no_LF_before by auto
  have "frame_line dec m (left @ before_LF cs) = Inl FrameTooLarge"
    using assms(2) by (simp add: frame_line_def)
  with frames_loop_frame [OF n, of dec m "after_LF cs"] cs show ?thesis by (metis append.assoc)
next
  case False
  with assms show ?thesis by simp
qed

section \<open>The decoder as a chunked stream\<close>

definition decoder_ok :: "decoder \<Rightarrow> bool" where
  "decoder_ok d \<longleftrightarrow> \<not> dec_ended d \<and> LF_byte \<notin> set (dec_buffered d) \<and>
     int (length (dec_buffered d)) \<le> dec_maxFrameBytes d"

lemma decoder_push_nonempty:
  "decoder_ok d \<Longrightarrow> chunk \<noteq> [] \<Longrightarrow> decoder_push dec d chunk =
     (case frames_loop dec (dec_maxFrameBytes d) (dec_buffered d @ chunk) of
        (Inl e, left) \<Rightarrow> (Inl e, d\<lparr>dec_buffered := left\<rparr>)
      | (Inr lines, left) \<Rightarrow>
          if int (length left) > dec_maxFrameBytes d then (Inl FrameTooLarge, d\<lparr>dec_buffered := left\<rparr>)
          else (Inr lines, d\<lparr>dec_buffered := left\<rparr>))"
  by (simp add: decoder_push_def decoder_ok_def)

lemma decoder_push_any:
  assumes "decoder_ok d"
  shows "decoder_push dec d chunk =
     (case frames_loop dec (dec_maxFrameBytes d) (dec_buffered d @ chunk) of
        (Inl e, left) \<Rightarrow> (Inl e, d\<lparr>dec_buffered := left\<rparr>)
      | (Inr lines, left) \<Rightarrow>
          if int (length left) > dec_maxFrameBytes d then (Inl FrameTooLarge, d\<lparr>dec_buffered := left\<rparr>)
          else (Inr lines, d\<lparr>dec_buffered := left\<rparr>))"
  using assms decoder_push_nonempty [OF assms, of chunk]
  by (cases "chunk = []") (simp_all add: decoder_push_def decoder_ok_def)

interpretation decoder_stream: chunked_stream "decoder_push dec" decoder_ok for dec
proof unfold_locales
  fix d :: decoder
  assume ok: "decoder_ok d"
  then have noLF: "LF_byte \<notin> set (dec_buffered d)" and len: "int (length (dec_buffered d)) \<le> dec_maxFrameBytes d"
    by (simp_all add: decoder_ok_def)
  show "decoder_push dec d [] = (Inr [], d)" using ok by (simp add: decoder_push_def decoder_ok_def)
  fix xs ls d'
  {
    assume "decoder_push dec d xs = (Inr ls, d')"
    then obtain left where loop: "frames_loop dec (dec_maxFrameBytes d) (dec_buffered d @ xs) = (Inr ls, left)"
      and left: "\<not> int (length left) > dec_maxFrameBytes d" and d': "d' = d\<lparr>dec_buffered := left\<rparr>"
      unfolding decoder_push_any [OF ok] by (auto split: prod.splits sum.splits if_splits)
    show ok': "decoder_ok d'"
      using ok left frames_loop_left [OF loop] by (simp add: decoder_ok_def d')
    fix ys
    show "decoder_push dec d (xs @ ys) =
        (case decoder_push dec d' ys of (Inl e, d'') \<Rightarrow> (Inl e, d'') | (Inr ms, d'') \<Rightarrow> (Inr (ls @ ms), d''))"
      unfolding decoder_push_any [OF ok] decoder_push_any [OF ok']
      using frames_loop_append [OF loop, of ys] by (auto simp: d' split: prod.splits sum.splits)
  }
  fix e ys
  assume "decoder_push dec d xs = (Inl e, d')"
  then consider (loop) left where "frames_loop dec (dec_maxFrameBytes d) (dec_buffered d @ xs) = (Inl e, left)"
    | (long) ls left where "frames_loop dec (dec_maxFrameBytes d) (dec_buffered d @ xs) = (Inr ls, left)"
        "int (length left) > dec_maxFrameBytes d"
    unfolding decoder_push_any [OF ok] by (auto split: prod.splits sum.splits if_splits)
  then show "\<exists>e' d''. decoder_push dec d (xs @ ys) = (Inl e', d'')"
  proof cases
    case loop
    from frames_loop_append_error [OF loop, of ys] show ?thesis
      unfolding decoder_push_any [OF ok] by auto
  next
    case long
    from frames_loop_long_rest [OF frames_loop_left [OF long(1)] long(2), of dec ys]
      frames_loop_append [OF long(1), of ys]
    show ?thesis unfolding decoder_push_any [OF ok] by auto
  qed
qed

section \<open>Properties\<close>

text \<open>
  C8. Fragmentation and coalescing do not matter. Feeding a stream to a decoder chunk by chunk, for
  any cutting into chunks, succeeds with certain lines and a certain rest exactly when feeding it as
  one chunk does; and what stays buffered is within the frame limit and contains no LF.
\<close>

theorem decoder_chunking_irrelevant:
  assumes "decoder_ok d"
  shows "(decoder_stream.feed_all dec d chunks = (Inr lines, d') \<longleftrightarrow>
      decoder_push dec d (concat chunks) = (Inr lines, d')) \<and>
    (decoder_push dec d (concat chunks) = (Inr lines, d') \<longrightarrow>
      int (bufferedBytes d') \<le> dec_maxFrameBytes d' \<and> LF_byte \<notin> set (dec_buffered d'))"
proof (intro conjI impI)
  show "decoder_stream.feed_all dec d chunks = (Inr lines, d') \<longleftrightarrow>
      decoder_push dec d (concat chunks) = (Inr lines, d')"
    using assms by (rule decoder_stream.feed_all_iff_feed)
  assume "decoder_push dec d (concat chunks) = (Inr lines, d')"
  from decoder_stream.feed_good [OF assms this]
  show "int (bufferedBytes d') \<le> dec_maxFrameBytes d'" "LF_byte \<notin> set (dec_buffered d')"
    by (simp_all add: decoder_ok_def bufferedBytes_def)
qed

definition fresh_decoder :: "int \<Rightarrow> decoder" where
  "fresh_decoder m = \<lparr>dec_buffered = [], dec_ended = False, dec_maxFrameBytes = m\<rparr>"

theorem decoder_chunking_irrelevant_witness:
  "decoder_stream.feed_all (\<lambda>bs. Some (replicate (length bs) (CHR ''x''))) (fresh_decoder 4)
     [[1, 2], [3, 10, 4], [5]] = (Inr [''xxx''], (fresh_decoder 4)\<lparr>dec_buffered := [4, 5]\<rparr>)"
proof -
  have ok: "decoder_ok (fresh_decoder 4)" by (simp add: decoder_ok_def fresh_decoder_def)
  have n: "LF_byte \<notin> set [1, 2, 3]" "LF_byte \<notin> set [4, 5 :: byte]" by (simp_all add: LF_byte_def)
  have "frames_loop (\<lambda>bs. Some (replicate (length bs) (CHR ''x''))) 4 ([1, 2, 3] @ LF_byte # [4, 5])
      = (Inr [''xxx''], [4, 5])"
    using frames_loop_frame [OF n(1), of "\<lambda>bs. Some (replicate (length bs) (CHR ''x''))" 4 "[4, 5]"]
      frames_loop_rest [OF n(2), of "\<lambda>bs. Some (replicate (length bs) (CHR ''x''))" 4]
    by (simp add: frame_line_def CR_byte_def numeral_3_eq_3)
  then have "decoder_push (\<lambda>bs. Some (replicate (length bs) (CHR ''x''))) (fresh_decoder 4)
      (concat [[1, 2], [3, 10, 4], [5]]) = (Inr [''xxx''], (fresh_decoder 4)\<lparr>dec_buffered := [4, 5]\<rparr>)"
    unfolding decoder_push_any [OF ok] by (simp add: fresh_decoder_def LF_byte_def)
  with decoder_chunking_irrelevant [OF ok] show ?thesis by blast
qed

text \<open>
  C38. Frames survive the wire. Frames that are non-empty, within the limit, free of LF, not ending in
  CR and valid UTF-8, each followed by LF, come out of the decoder as exactly their texts, in order
  and with nothing left over, for any cutting of the stream into chunks; the stream may then end.
\<close>

theorem frames_round_trip:
  assumes "\<forall>f \<in> set frames. f \<noteq> [] \<and> LF_byte \<notin> set f \<and> last f \<noteq> CR_byte \<and> int (length f) \<le> m \<and> dec f \<noteq> None"
    and "concat chunks = concat (map (\<lambda>f. f @ [LF_byte]) frames)" and "0 \<le> m"
  shows "decoder_stream.feed_all dec (fresh_decoder m) chunks = (Inr (map (\<lambda>f. the (dec f)) frames), fresh_decoder m)
    \<and> fst (decoder_end (fresh_decoder m)) = Inr ()"
proof -
  have ok: "decoder_ok (fresh_decoder m)" using assms(3) by (simp add: decoder_ok_def fresh_decoder_def)
  have "frames_loop dec m (concat (map (\<lambda>f. f @ [LF_byte]) fs)) = (Inr (map (\<lambda>f. the (dec f)) fs), [])"
    if "set fs \<subseteq> set frames" for fs
    using that
  proof (induction fs)
    case (Cons f fs)
    then have f: "f \<noteq> []" "LF_byte \<notin> set f" "last f \<noteq> CR_byte" "int (length f) \<le> m" "dec f \<noteq> None"
      using assms(1) by auto
    then have "frame_line dec m f = Inr (the (dec f))" by (auto simp: frame_line_def)
    with frames_loop_frame [OF f(2), of dec m] Cons show ?case by simp
  qed simp
  from this [of frames]
  have "decoder_push dec (fresh_decoder m) (concat chunks) = (Inr (map (\<lambda>f. the (dec f)) frames), fresh_decoder m)"
    unfolding decoder_push_any [OF ok] assms(2) using assms(3) by (simp add: fresh_decoder_def)
  then have "decoder_stream.feed_all dec (fresh_decoder m) chunks
      = (Inr (map (\<lambda>f. the (dec f)) frames), fresh_decoder m)"
    by (simp only: decoder_stream.feed_all_iff_feed [OF ok])
  then show ?thesis by (simp add: decoder_end_def fresh_decoder_def)
qed

theorem frames_round_trip_witness:
  "decoder_stream.feed_all (\<lambda>bs. Some (replicate (length bs) (CHR ''x''))) (fresh_decoder 4)
     [[1, 2, LF_byte, 3], [LF_byte]] = (Inr [''xx'', ''x''], fresh_decoder 4)"
proof -
  have "\<forall>f \<in> set [[1, 2], [3 :: byte]]. f \<noteq> [] \<and> LF_byte \<notin> set f \<and> last f \<noteq> CR_byte \<and> int (length f) \<le> 4 \<and>
      (\<lambda>bs. Some (replicate (length bs) (CHR ''x''))) f \<noteq> None"
    by (simp add: LF_byte_def CR_byte_def)
  from frames_round_trip [OF this, of "[[1, 2, LF_byte, 3], [LF_byte]]"] show ?thesis
    by (simp add: numeral_2_eq_2)
qed

end
