(* ===== verification/Rpc_Transport.thy ===== *)
theory Rpc_Transport
  imports Rpc_Contract Frame_Decoder
begin

text \<open>
  \<open>PiRpcTransport\<close> (web/server/pi-rpc-transport.ts): the transport that owns the standard streams of one
  child process generation. The state is a record; every listener, timer, abort signal, caller and
  write callback is an event, and \<open>transport_step\<close> gives the outputs and the next state.

  Promises are numbers. The closures of a request (its timer, its abort listener, the handler of a
  failed write) are kept as data in \<open>tr_timers\<close>, \<open>tr_listeners\<close>, \<open>tr_queue\<close>, \<open>tr_writing\<close> and
  \<open>tr_scheduled\<close> with the identifier and promise they captured. A rejected write runs its handler
  later (a microtask), as the event \<open>RunCatch\<close>. Whether the process generation is current is an
  input of each event that asks. \<open>JSON.parse\<close>, the fatal UTF-8 decoder and the text of numbers are
  parameters, in the record \<open>environment\<close>. The callbacks of the owner are outputs: they do not call the
  transport back before they return. The observer calls and the redaction of diagnostics
  are left out; text of the standard error stream arrives decoded.
\<close>

section \<open>State\<close>

datatype transport_code =
    FrameFailure frame_error
  | Aborted | ChildError | ChildExit | Closed | ProtocolError | RequestTimeout | StaleGeneration
  | StdoutEof | WriteFailed

datatype failure = TransportFailure transport_code | ContractFailure contract_error_code

record environment =
  env_parse :: "string \<Rightarrow> json option"
  env_decode :: "byte list \<Rightarrow> string option"
  env_number :: "js_number \<Rightarrow> string"

record pending_request =
  pr_command :: string
  pr_promise :: nat
  pr_signal :: bool

record abort_listener =
  al_id :: string
  al_command :: string
  al_abortRemote :: bool

datatype write_owner = ForRequest string nat | ForInput nat

record write_op =
  op_text :: string
  op_owner :: write_owner

record transport =
  tr_generation :: int
  tr_requestTimeoutMs :: int
  tr_maxFrameBytes :: int
  tr_maxStderrBytes :: nat
  tr_decoder :: decoder
  tr_pending :: "(string, pending_request) omap"
  tr_requestCounter :: nat
  tr_queue :: "write_op list"
  tr_writing :: "write_op option"
  tr_scheduled :: "(write_owner \<times> failure) list"
  tr_closedError :: "transport_code option"
  tr_promises :: nat
  tr_timers :: "(nat, string) omap"
  tr_listeners :: "(nat, abort_listener) omap"
  tr_stderrPrefix :: string
  tr_stderrBytes :: nat
  tr_stderrTruncated :: bool

datatype emission =
    RequestIssued nat string
  | Resolved nat json
  | Rejected nat failure
  | RequestThrew transport_code
  | RequestTypeError
  | UncaughtThrow transport_code
  | InputSent nat
  | InputRejected nat failure
  | Wrote string write_owner
  | Notified json
  | LateResponse json
  | ProtocolErrorReported transport_code
  | LifecycleExit
  | LifecycleClosed transport_code
  | ClosedResolved transport_code

section \<open>Closing\<close>

definition cleanupPending :: "pending_request \<Rightarrow> transport \<Rightarrow> transport" where
  "cleanupPending p t =
     t\<lparr>tr_timers := om_delete (tr_timers t) (pr_promise p),
       tr_listeners := (if pr_signal p then om_delete (tr_listeners t) (pr_promise p) else tr_listeners t)\<rparr>"

definition finish :: "transport_code \<Rightarrow> transport \<Rightarrow> emission list \<times> transport" where
  "finish code t =
     (if tr_closedError t \<noteq> None then ([], t)
      else
        (map (\<lambda>(_, p). Rejected (pr_promise p) (TransportFailure code)) (tr_pending t) @
           [ClosedResolved code, LifecycleClosed code],
         (fold (\<lambda>(_, p). cleanupPending p) (tr_pending t) (t\<lparr>tr_closedError := Some code\<rparr>))\<lparr>tr_pending := []\<rparr>))"

definition closed_code :: "transport \<Rightarrow> transport_code" where
  "closed_code t = (case tr_closedError t of Some c \<Rightarrow> c | None \<Rightarrow> Closed)"

definition failProtocol :: "transport_code \<Rightarrow> transport \<Rightarrow> emission list \<times> transport" where
  "failProtocol code t =
     (let (outs, t') = finish code t in (outs @ [ProtocolErrorReported (closed_code t')], t'))"

text \<open>\<open>assertUsable\<close>: the error it throws, if any.\<close>

definition assertUsable :: "bool \<Rightarrow> transport \<Rightarrow> transport_code option \<times> emission list \<times> transport" where
  "assertUsable current t =
     (if tr_closedError t \<noteq> None then (Some (closed_code t), [], t)
      else if \<not> current then
        (let (outs, t') = finish StaleGeneration t in (Some (closed_code t'), outs, t'))
      else (None, [], t))"

section \<open>Input from the child\<close>

definition handleLine :: "environment \<Rightarrow> string \<Rightarrow> transport \<Rightarrow> emission list \<times> transport" where
  "handleLine env line t =
     (case parsePiRpcOutputJson (env_parse env) line of
        Inl _ \<Rightarrow> failProtocol ProtocolError t
      | Inr out \<Rightarrow>
          if \<not> isPiRpcResponse out then ([Notified out], t)
          else if member out ''id'' = JUndefined \<or> str_of (member out ''id'') = [] then
            failProtocol ProtocolError t
          else
            (case om_get (tr_pending t) (str_of (member out ''id'')) of
               None \<Rightarrow> ([LateResponse out], t)
             | Some p \<Rightarrow>
                 if pr_command p \<noteq> str_of (member out ''command'') then failProtocol ProtocolError t
                 else
                   ([Resolved (pr_promise p) out],
                    cleanupPending p
                      (t\<lparr>tr_pending := om_delete (tr_pending t) (str_of (member out ''id''))\<rparr>))))"

fun handle_lines :: "environment \<Rightarrow> string list \<Rightarrow> transport \<Rightarrow> emission list \<times> transport" where
  "handle_lines env [] t = ([], t)"
| "handle_lines env (line # lines) t =
     (if tr_closedError t \<noteq> None then ([], t)
      else
        let (outs, t1) = handleLine env line t; (outs', t2) = handle_lines env lines t1
        in (outs @ outs', t2))"

definition handleStdoutData :: "environment \<Rightarrow> bool \<Rightarrow> byte list \<Rightarrow> transport \<Rightarrow> emission list \<times> transport" where
  "handleStdoutData env current chunk t =
     (if tr_closedError t \<noteq> None then ([], t)
      else if \<not> current then finish StaleGeneration t
      else
        (case decoder_push (env_decode env) (tr_decoder t) chunk of
           (Inl e, d) \<Rightarrow> failProtocol (FrameFailure e) (t\<lparr>tr_decoder := d\<rparr>)
         | (Inr lines, d) \<Rightarrow> handle_lines env lines (t\<lparr>tr_decoder := d\<rparr>)))"

definition handleStdoutEnd :: "transport \<Rightarrow> emission list \<times> transport" where
  "handleStdoutEnd t =
     (if tr_closedError t \<noteq> None then ([], t)
      else
        (case decoder_end (tr_decoder t) of
           (Inl e, d) \<Rightarrow> failProtocol (FrameFailure e) (t\<lparr>tr_decoder := d\<rparr>)
         | (Inr _, d) \<Rightarrow> finish StdoutEof (t\<lparr>tr_decoder := d\<rparr>)))"

text \<open>
  The remaining stream and process listeners. \<open>finish\<close> detaches them all, so on a closed
  transport they are not called.
\<close>

definition handleChildExit :: "transport \<Rightarrow> emission list \<times> transport" where
  "handleChildExit t =
     (if tr_closedError t \<noteq> None then ([], t)
      else let (outs, t') = finish ChildExit t in (LifecycleExit # outs, t'))"

section \<open>Diagnostics\<close>

text \<open>UTF-8 of the code units below 256, and the prefix of a text within a byte budget.\<close>

definition utf8_bytes :: "char \<Rightarrow> byte list" where
  "utf8_bytes c =
     (let n = (of_char c :: nat)
      in if n < 128 then [of_nat n] else [of_nat (192 + n div 64), of_nat (128 + n mod 64)])"

definition utf8_encode :: "string \<Rightarrow> byte list" where
  "utf8_encode s = concat (map utf8_bytes s)"

fun utf8_decode :: "byte list \<Rightarrow> string" where
  "utf8_decode [] = []"
| "utf8_decode [b] = [char_of (unat b)]"
| "utf8_decode (b # b' # bs) =
     (if unat b < 128 then char_of (unat b) # utf8_decode (b' # bs)
      else char_of ((unat b - 192) * 64 + (unat b' - 128)) # utf8_decode bs)"

fun back_to_boundary :: "byte list \<Rightarrow> nat \<Rightarrow> nat" where
  "back_to_boundary encoded 0 = 0"
| "back_to_boundary encoded (Suc e) =
     (if 128 \<le> unat (encoded ! Suc e) \<and> unat (encoded ! Suc e) < 192
      then back_to_boundary encoded e else Suc e)"

definition truncateUtf8Prefix :: "string \<Rightarrow> nat \<Rightarrow> string" where
  "truncateUtf8Prefix text maxBytes =
     (let encoded = utf8_encode text
      in if length encoded \<le> maxBytes then text
         else utf8_decode (take (back_to_boundary encoded maxBytes) encoded))"

definition handleStderrData :: "string \<Rightarrow> transport \<Rightarrow> transport" where
  "handleStderrData decoded t =
     (if tr_stderrBytes t \<ge> tr_maxStderrBytes t then t\<lparr>tr_stderrTruncated := True\<rparr>
      else
        let remaining = tr_maxStderrBytes t - tr_stderrBytes t;
            prefix = truncateUtf8Prefix decoded remaining;
            t' = t\<lparr>tr_stderrPrefix := tr_stderrPrefix t @ prefix,
                    tr_stderrBytes := utf8_length (tr_stderrPrefix t @ prefix)\<rparr>
        in if utf8_length decoded > utf8_length prefix then t'\<lparr>tr_stderrTruncated := True\<rparr> else t')"

definition handleStderrEnd :: "string \<Rightarrow> transport \<Rightarrow> transport" where
  "handleStderrEnd tail t =
     (if tr_stderrBytes t \<ge> tr_maxStderrBytes t then t
      else
        let remaining = tr_maxStderrBytes t - tr_stderrBytes t;
            prefix = truncateUtf8Prefix tail remaining;
            t' = t\<lparr>tr_stderrPrefix := tr_stderrPrefix t @ prefix,
                    tr_stderrBytes := utf8_length (tr_stderrPrefix t @ prefix)\<rparr>
        in if utf8_length tail > utf8_length prefix then t'\<lparr>tr_stderrTruncated := True\<rparr> else t')"

section \<open>Output to the child\<close>

definition request_id_text :: "int \<Rightarrow> nat \<Rightarrow> string" where
  "request_id_text generation n = ''pi-'' @ show_int generation @ ''-'' @ show_nat n"

definition nextRequestId :: "transport \<Rightarrow> string \<times> transport" where
  "nextRequestId t =
     (request_id_text (tr_generation t) (tr_requestCounter t + 1),
      t\<lparr>tr_requestCounter := tr_requestCounter t + 1\<rparr>)"

definition enqueueWrite :: "environment \<Rightarrow> json \<Rightarrow> write_owner \<Rightarrow> transport \<Rightarrow> transport" where
  "enqueueWrite env input owner t =
     (case serializePiRpcInput (env_number env) input of
        Inl e \<Rightarrow> t\<lparr>tr_scheduled := tr_scheduled t @ [(owner, ContractFailure e)]\<rparr>
      | Inr serialized \<Rightarrow>
          if int (utf8_length serialized) - 1 > tr_maxFrameBytes t then
            t\<lparr>tr_scheduled := tr_scheduled t @ [(owner, TransportFailure (FrameFailure FrameTooLarge))]\<rparr>
          else t\<lparr>tr_queue := tr_queue t @ [\<lparr>op_text = serialized, op_owner = owner\<rparr>]\<rparr>)"

fun shouldWrite :: "transport \<Rightarrow> write_owner \<Rightarrow> bool" where
  "shouldWrite t (ForRequest i pid) =
     (case om_get (tr_pending t) i of Some p \<Rightarrow> pr_promise p = pid | None \<Rightarrow> False)"
| "shouldWrite t (ForInput pid) = True"

text \<open>The next queued operation starts once the one before has settled.\<close>

definition startWrite :: "bool \<Rightarrow> bool \<Rightarrow> transport \<Rightarrow> emission list \<times> transport" where
  "startWrite current writable t =
     (if tr_writing t \<noteq> None then ([], t)
      else
        (case tr_queue t of
           [] \<Rightarrow> ([], t)
         | op # queue \<Rightarrow>
             (case assertUsable current (t\<lparr>tr_queue := queue\<rparr>) of
                (Some code, outs, t') \<Rightarrow>
                  (outs, t'\<lparr>tr_scheduled := tr_scheduled t' @ [(op_owner op, TransportFailure code)]\<rparr>)
              | (None, outs, t') \<Rightarrow>
                  if \<not> shouldWrite t' (op_owner op) then
                    (outs @ (case op_owner op of ForInput pid \<Rightarrow> [InputSent pid] | _ \<Rightarrow> []), t')
                  else if \<not> writable then
                    (let (outs', t'') = finish WriteFailed t'
                     in (outs @ outs', t''\<lparr>tr_scheduled := tr_scheduled t'' @
                           [(op_owner op, TransportFailure (closed_code t''))]\<rparr>))
                  else (outs @ [Wrote (op_text op) (op_owner op)], t'\<lparr>tr_writing := Some op\<rparr>))))"

definition settleWrite :: "bool \<Rightarrow> transport \<Rightarrow> emission list \<times> transport" where
  "settleWrite ok t =
     (case tr_writing t of
        None \<Rightarrow> ([], t)
      | Some op \<Rightarrow>
          if ok then
            ((case op_owner op of ForInput pid \<Rightarrow> [InputSent pid] | _ \<Rightarrow> []), t\<lparr>tr_writing := None\<rparr>)
          else
            (let (outs, t') = finish WriteFailed (t\<lparr>tr_writing := None\<rparr>)
             in (outs, t'\<lparr>tr_scheduled := tr_scheduled t' @
                   [(op_owner op, TransportFailure (closed_code t'))]\<rparr>)))"

text \<open>The handler of a rejected write.\<close>

definition runCatch :: "transport \<Rightarrow> emission list \<times> transport" where
  "runCatch t =
     (case tr_scheduled t of
        [] \<Rightarrow> ([], t)
      | (ForInput pid, f) # rest \<Rightarrow> ([InputRejected pid f], t\<lparr>tr_scheduled := rest\<rparr>)
      | (ForRequest i pid, f) # rest \<Rightarrow>
          if \<not> om_has (tr_pending t) i then ([], t\<lparr>tr_scheduled := rest\<rparr>)
          else
            ([Rejected pid f],
             t\<lparr>tr_scheduled := rest, tr_pending := om_delete (tr_pending t) i,
               tr_timers := om_delete (tr_timers t) pid, tr_listeners := om_delete (tr_listeners t) pid\<rparr>))"

section \<open>Requests\<close>

definition with_id :: "json \<Rightarrow> string \<Rightarrow> json" where
  "with_id command i = JObject (om_set (obj_members command) ''id'' (JString i))"

definition own_id :: "json \<Rightarrow> string option" where
  "own_id command = (case member command ''id'' of JString i \<Rightarrow> Some i | _ \<Rightarrow> None)"

text \<open>\<open>positiveInteger_or\<close>: None is the \<open>TypeError\<close>.\<close>

definition positiveInteger_or :: "json \<Rightarrow> int \<Rightarrow> int option" where
  "positiveInteger_or v fallback =
     (let resolved = (if v = JUndefined \<or> v = JNull then JNumber (JInt fallback) else v)
      in if \<not> is_safe_integer resolved \<or> number_of resolved < 1 then None else Some (number_of resolved))"

text \<open>
  The part of \<open>request\<close> before the promise executor. The result is the identifier and the promise
  of a request to be registered, or None when the call throws or is rejected at once.
\<close>

definition request_prologue ::
  "bool \<Rightarrow> json \<Rightarrow> json \<Rightarrow> transport \<Rightarrow> (string \<times> nat) option \<times> emission list \<times> transport" where
  "request_prologue current command timeoutMs t =
     (case assertUsable current t of
        (Some code, outs, t') \<Rightarrow> (None, outs @ [RequestThrew code], t')
      | (None, outs, t') \<Rightarrow>
          (let (i, t1) = (case own_id command of Some i \<Rightarrow> (i, t') | None \<Rightarrow> nextRequestId t') in
           if om_has (tr_pending t1) i then
             (None, outs @ [Rejected (tr_promises t1) (TransportFailure ProtocolError)],
              t1\<lparr>tr_promises := tr_promises t1 + 1\<rparr>)
           else if positiveInteger_or timeoutMs (tr_requestTimeoutMs t1) = None then
             (None, outs @ [RequestTypeError], t1)
           else (Some (i, tr_promises t1), outs @ [RequestIssued (tr_promises t1) i], t1)))"

definition register_request ::
  "string \<Rightarrow> nat \<Rightarrow> json \<Rightarrow> bool \<Rightarrow> bool \<Rightarrow> transport \<Rightarrow> transport" where
  "register_request i pid command hasSignal abortRemote t =
     t\<lparr>tr_promises := tr_promises t + 1,
       tr_timers := om_set (tr_timers t) pid i,
       tr_pending := om_set (tr_pending t) i
         \<lparr>pr_command = str_of (member command ''type''), pr_promise = pid, pr_signal = hasSignal\<rparr>,
       tr_listeners := (if hasSignal then om_set (tr_listeners t) pid
           \<lparr>al_id = i, al_command = str_of (member command ''type''), al_abortRemote = abortRemote\<rparr>
         else tr_listeners t)\<rparr>"

text \<open>A request without signal, as every remote abort is.\<close>

definition request_unsignalled ::
  "environment \<Rightarrow> bool \<Rightarrow> json \<Rightarrow> json \<Rightarrow> transport \<Rightarrow> emission list \<times> transport" where
  "request_unsignalled env current command timeoutMs t =
     (case request_prologue current command timeoutMs t of
        (None, outs, t') \<Rightarrow> (outs, t')
      | (Some (i, pid), outs, t') \<Rightarrow>
          (outs, enqueueWrite env (with_id command i) (ForRequest i pid)
             (register_request i pid command False False t')))"

definition abort_command :: json where
  "abort_command = JObject [(''type'', JString ''abort'')]"

text \<open>
  \<open>onAbort\<close> of the request with promise \<open>pid\<close>. When the nested \<open>request\<close> throws, nothing catches it:
  \<open>.catch\<close> is only attached to a promise that is returned.
\<close>

definition onAbort ::
  "environment \<Rightarrow> bool \<Rightarrow> nat \<Rightarrow> abort_listener \<Rightarrow> transport \<Rightarrow> emission list \<times> transport" where
  "onAbort env current pid l t =
     (if \<not> om_has (tr_pending t) (al_id l) then ([], t)
      else
        let t1 = t\<lparr>tr_pending := om_delete (tr_pending t) (al_id l),
                   tr_timers := om_delete (tr_timers t) pid, tr_listeners := om_delete (tr_listeners t) pid\<rparr>;
            rejected = Rejected pid (TransportFailure Aborted)
        in if al_abortRemote l \<and> al_command l \<noteq> ''abort'' then
             (let (outs, t2) = request_unsignalled env current abort_command JUndefined t1
              in (rejected # map (\<lambda>x. case x of RequestThrew c \<Rightarrow> UncaughtThrow c | y \<Rightarrow> y) outs, t2))
           else ([rejected], t1))"

text \<open>A signal is absent, attached, or already aborted when the request is made.\<close>

datatype signal_state = NoSignal | SignalPending | SignalAborted

definition request ::
  "environment \<Rightarrow> bool \<Rightarrow> json \<Rightarrow> json \<Rightarrow> signal_state \<Rightarrow> bool \<Rightarrow> transport \<Rightarrow> emission list \<times> transport" where
  "request env current command timeoutMs signal abortRemote t =
     (case request_prologue current command timeoutMs t of
        (None, outs, t') \<Rightarrow> (outs, t')
      | (Some (i, pid), outs, t') \<Rightarrow>
          let t1 = register_request i pid command (signal \<noteq> NoSignal) abortRemote t' in
          if signal = SignalAborted then
            (let (outs', t2) = onAbort env current pid
                 \<lparr>al_id = i, al_command = str_of (member command ''type''), al_abortRemote = abortRemote\<rparr> t1
             in (outs @ outs', t2))
          else (outs, enqueueWrite env (with_id command i) (ForRequest i pid) t1))"

definition sendInput :: "environment \<Rightarrow> json \<Rightarrow> transport \<Rightarrow> emission list \<times> transport" where
  "sendInput env input t =
     ([], enqueueWrite env input (ForInput (tr_promises t)) (t\<lparr>tr_promises := tr_promises t + 1\<rparr>))"

definition timer_fires :: "nat \<Rightarrow> transport \<Rightarrow> emission list \<times> transport" where
  "timer_fires pid t =
     (case om_get (tr_timers t) pid of
        None \<Rightarrow> ([], t)
      | Some i \<Rightarrow>
          (let t1 = t\<lparr>tr_timers := om_delete (tr_timers t) pid\<rparr> in
           case om_get (tr_pending t1) i of
             None \<Rightarrow> ([], t1)
           | Some p \<Rightarrow>
               ([Rejected pid (TransportFailure RequestTimeout)],
                cleanupPending p (t1\<lparr>tr_pending := om_delete (tr_pending t1) i\<rparr>))))"

definition signal_fires :: "environment \<Rightarrow> bool \<Rightarrow> nat \<Rightarrow> transport \<Rightarrow> emission list \<times> transport" where
  "signal_fires env current pid t =
     (case om_get (tr_listeners t) pid of
        None \<Rightarrow> ([], t)
      | Some l \<Rightarrow> onAbort env current pid l (t\<lparr>tr_listeners := om_delete (tr_listeners t) pid\<rparr>))"

section \<open>The transport as a state machine\<close>

datatype event =
    StdoutData bool "byte list"
  | StdoutEnd | StdoutError | StdinError | StdinClose
  | StderrData string | StderrEnd string
  | ProcessExit | ProcessError
  | InvalidateGeneration | Dispose
  | Request bool json json signal_state bool
  | SendInput json
  | TimerFires nat
  | SignalFires bool nat
  | StartWrite bool bool
  | SettleWrite bool
  | RunCatch

fun transport_step :: "environment \<Rightarrow> event \<Rightarrow> transport \<Rightarrow> emission list \<times> transport" where
  "transport_step env (StdoutData current chunk) t = handleStdoutData env current chunk t"
| "transport_step env StdoutEnd t = handleStdoutEnd t"
| "transport_step env StdoutError t = finish Closed t"
| "transport_step env StdinError t = finish WriteFailed t"
| "transport_step env StdinClose t = (if tr_closedError t = None then finish WriteFailed t else ([], t))"
| "transport_step env (StderrData s) t =
     ([], if tr_closedError t = None then handleStderrData s t else t)"
| "transport_step env (StderrEnd s) t = ([], if tr_closedError t = None then handleStderrEnd s t else t)"
| "transport_step env ProcessExit t = handleChildExit t"
| "transport_step env ProcessError t = finish ChildError t"
| "transport_step env InvalidateGeneration t = finish StaleGeneration t"
| "transport_step env Dispose t = finish Closed t"
| "transport_step env (Request current command timeoutMs signal abortRemote) t =
     request env current command timeoutMs signal abortRemote t"
| "transport_step env (SendInput input) t = sendInput env input t"
| "transport_step env (TimerFires pid) t = timer_fires pid t"
| "transport_step env (SignalFires current pid) t = signal_fires env current pid t"
| "transport_step env (StartWrite current writable) t = startWrite current writable t"
| "transport_step env (SettleWrite ok) t = settleWrite ok t"
| "transport_step env RunCatch t = runCatch t"

fun transport_run :: "environment \<Rightarrow> event list \<Rightarrow> transport \<Rightarrow> emission list \<times> transport" where
  "transport_run env [] t = ([], t)"
| "transport_run env (e # es) t =
     (let (outs, t1) = transport_step env e t; (outs', t2) = transport_run env es t1 in (outs @ outs', t2))"

definition DEFAULT_REQUEST_TIMEOUT_MS :: int where
  "DEFAULT_REQUEST_TIMEOUT_MS = 30000"

definition DEFAULT_MAX_FRAME_BYTES :: int where
  "DEFAULT_MAX_FRAME_BYTES = 8 * 1024 * 1024"

definition DEFAULT_MAX_STDERR_BYTES :: int where
  "DEFAULT_MAX_STDERR_BYTES = 64 * 1024"

text \<open>The options of the constructor that it validates; None is the \<open>TypeError\<close>.\<close>

record transport_options =
  opt_sessionId :: string
  opt_generation :: json
  opt_requestTimeoutMs :: json
  opt_maxFrameBytes :: json
  opt_maxStderrBytes :: json

definition new_transport :: "transport_options \<Rightarrow> transport option" where
  "new_transport options =
     (if opt_sessionId options = [] then None
      else if \<not> is_safe_integer (opt_generation options) \<or> number_of (opt_generation options) < 0 then None
      else
        case positiveInteger_or (opt_requestTimeoutMs options) DEFAULT_REQUEST_TIMEOUT_MS of
          None \<Rightarrow> None
        | Some requestTimeoutMs \<Rightarrow>
        (case positiveInteger_or (opt_maxFrameBytes options) DEFAULT_MAX_FRAME_BYTES of
          None \<Rightarrow> None
        | Some maxFrameBytes \<Rightarrow>
        (case positiveInteger_or (opt_maxStderrBytes options) DEFAULT_MAX_STDERR_BYTES of
          None \<Rightarrow> None
        | Some maxStderrBytes \<Rightarrow>
            Some
             \<lparr>tr_generation = number_of (opt_generation options), tr_requestTimeoutMs = requestTimeoutMs,
              tr_maxFrameBytes = maxFrameBytes, tr_maxStderrBytes = nat maxStderrBytes,
              tr_decoder = \<lparr>dec_buffered = [], dec_ended = False, dec_maxFrameBytes = maxFrameBytes\<rparr>,
              tr_pending = [], tr_requestCounter = 0, tr_queue = [], tr_writing = None, tr_scheduled = [],
              tr_closedError = None, tr_promises = 0, tr_timers = [], tr_listeners = [],
              tr_stderrPrefix = [], tr_stderrBytes = 0, tr_stderrTruncated = False\<rparr>)))"

end
