(* ===== verification/Transport_Settlement.thy ===== *)
theory Transport_Settlement
  imports Rpc_Transport "HOL-Library.Multiset"
begin

text \<open>
  What a caller of \<open>PiRpcTransport\<close> may rely on: every request that was issued is settled exactly once
  or still pending with its timer armed, only by its own response, and a closed transport is silent.
  The accounting is a conservation law of each step, on multisets of promises.
\<close>

section \<open>Accounting\<close>

fun issued_by :: "emission \<Rightarrow> nat multiset" where
  "issued_by (RequestIssued pid i) = {#pid#}"
| "issued_by x = {#}"

fun settled_by :: "emission \<Rightarrow> nat multiset" where
  "settled_by (Resolved pid v) = {#pid#}"
| "settled_by (Rejected pid f) = {#pid#}"
| "settled_by x = {#}"

definition issued :: "emission list \<Rightarrow> nat multiset" where
  "issued outs = sum_list (map issued_by outs)"

definition settled :: "emission list \<Rightarrow> nat multiset" where
  "settled outs = sum_list (map settled_by outs)"

definition live :: "transport \<Rightarrow> nat multiset" where
  "live t = mset (map (\<lambda>(_, p). pr_promise p) (tr_pending t))"

lemma issued_simps [simp]:
  "issued [] = {#}" "issued (x # xs) = issued_by x + issued xs" "issued (xs @ ys) = issued xs + issued ys"
  by (simp_all add: issued_def)

lemma settled_simps [simp]:
  "settled [] = {#}" "settled (x # xs) = settled_by x + settled xs"
  "settled (xs @ ys) = settled xs + settled ys"
  by (simp_all add: settled_def)

text \<open>Who a request belongs to, and the identifiers that have been handed out.\<close>

definition owns :: "transport \<Rightarrow> string \<Rightarrow> nat \<Rightarrow> bool" where
  "owns t i pid \<longleftrightarrow> (\<exists>p. om_get (tr_pending t) i = Some p \<and> pr_promise p = pid)"

definition known :: "transport \<Rightarrow> string \<Rightarrow> bool" where
  "known t i \<longleftrightarrow> (\<exists>n \<le> tr_requestCounter t. i = request_id_text (tr_generation t) n)"

definition owners :: "transport \<Rightarrow> write_owner set" where
  "owners t = op_owner ` set (tr_queue t) \<union> op_owner ` set_option (tr_writing t) \<union> fst ` set (tr_scheduled t)"

definition consistent :: "transport \<Rightarrow> bool" where
  "consistent t \<longleftrightarrow>
     om_wf (tr_pending t) \<and>
     (\<forall>i pid. owns t i pid \<longrightarrow> known t i \<and> pid < tr_promises t) \<and>
     (\<forall>pid i. om_get (tr_timers t) pid = Some i \<longleftrightarrow> owns t i pid) \<and>
     (\<forall>pid l. om_get (tr_listeners t) pid = Some l \<longrightarrow>
        (\<exists>p. om_get (tr_pending t) (al_id l) = Some p \<and> pr_promise p = pid \<and> pr_signal p)) \<and>
     (\<forall>i pid. ForRequest i pid \<in> owners t \<longrightarrow> known t i \<and> (om_has (tr_pending t) i \<longrightarrow> owns t i pid)) \<and>
     (tr_closedError t \<noteq> None \<longrightarrow> tr_pending t = [])"

text \<open>A step, with its outputs, that keeps the accounts.\<close>

definition accounted :: "transport \<Rightarrow> emission list \<times> transport \<Rightarrow> bool" where
  "accounted t r \<longleftrightarrow>
     consistent (snd r) \<and>
     issued (fst r) + live t = settled (fst r) + live (snd r) \<and>
     tr_promises t \<le> tr_promises (snd r) \<and>
     (\<forall>pid. count (issued (fst r)) pid \<le>
        (if tr_promises t \<le> pid \<and> pid < tr_promises (snd r) then 1 else 0))"

lemma accounted_refl [simp]: "consistent t \<Longrightarrow> accounted t ([], t)"
  by (simp add: accounted_def)

lemma accounted_trans:
  assumes "accounted t (outs, t1)" and "accounted t1 (outs', t2)"
  shows "accounted t (outs @ outs', t2)"
proof -
  have a: "issued outs + live t = settled outs + live t1" "tr_promises t \<le> tr_promises t1"
    and b: "issued outs' + live t1 = settled outs' + live t2" "tr_promises t1 \<le> tr_promises t2"
    and c: "consistent t2"
    and d: "\<And>pid. count (issued outs) pid \<le> (if tr_promises t \<le> pid \<and> pid < tr_promises t1 then 1 else 0)"
    and e: "\<And>pid. count (issued outs') pid \<le> (if tr_promises t1 \<le> pid \<and> pid < tr_promises t2 then 1 else 0)"
    using assms by (simp_all add: accounted_def)
  have "issued outs + issued outs' + live t = issued outs' + (issued outs + live t)" by simp
  also have "\<dots> = settled outs + (issued outs' + live t1)" unfolding a(1) by simp
  also have "\<dots> = settled outs + settled outs' + live t2" unfolding b(1) by simp
  finally have "issued outs + issued outs' + live t = settled outs + settled outs' + live t2" .
  moreover have "count (issued outs + issued outs') pid \<le>
      (if tr_promises t \<le> pid \<and> pid < tr_promises t2 then 1 else 0)" for pid
    using d [of pid] e [of pid] a(2) b(2) by (auto split: if_splits)
  ultimately show ?thesis using a(2) b(2) c by (simp add: accounted_def)
qed

lemma live_delete:
  assumes "om_wf m" and "om_get m i = Some p"
  shows "mset (map (\<lambda>(_, p). pr_promise p) m) =
    {#pr_promise p#} + mset (map (\<lambda>(_, p). pr_promise p) (om_delete m i))"
  using assms
proof (induction m)
  case (Cons x m)
  obtain k v where x: "x = (k, v)" by (cases x)
  show ?case
  proof (cases "k = i")
    case True
    with Cons.prems x have "i \<notin> set (map fst m)" "v = p" by (auto simp: om_wf_def om_get_def)
    then have "om_delete m i = m"
      by (auto simp: om_delete_def filter_id_conv intro!: filter_True)
    with True x \<open>v = p\<close> show ?thesis by (simp add: om_delete_def)
  next
    case False
    with Cons x show ?thesis by (simp add: om_delete_def om_wf_def om_get_def)
  qed
qed (simp add: om_get_def)

lemma om_delete_Nil [simp]: "om_delete [] i = []"
  by (simp add: om_delete_def)

lemma live_set:
  "\<not> om_has m i \<Longrightarrow> mset (map (\<lambda>(_, p). pr_promise p) (om_set m i p)) =
    {#pr_promise p#} + mset (map (\<lambda>(_, p). pr_promise p) m)"
  by (induction m i p rule: om_set.induct) (auto simp: om_has_def)

section \<open>Removing a request\<close>

text \<open>Every path that settles one request removes its entry, its timer and its listener.\<close>

definition drop_request :: "string \<Rightarrow> nat \<Rightarrow> transport \<Rightarrow> transport" where
  "drop_request i pid t =
     t\<lparr>tr_pending := om_delete (tr_pending t) i, tr_timers := om_delete (tr_timers t) pid,
       tr_listeners := om_delete (tr_listeners t) pid\<rparr>"

lemma drop_request_fields [simp]:
  "tr_pending (drop_request i pid t) = om_delete (tr_pending t) i"
  "tr_timers (drop_request i pid t) = om_delete (tr_timers t) pid"
  "tr_listeners (drop_request i pid t) = om_delete (tr_listeners t) pid"
  "tr_closedError (drop_request i pid t) = tr_closedError t"
  "tr_promises (drop_request i pid t) = tr_promises t"
  "owners (drop_request i pid t) = owners t"
  "known (drop_request i pid t) = known t"
  by (simp_all add: drop_request_def owners_def known_def fun_eq_iff)

lemma owns_drop [simp]: "owns (drop_request i pid t) j q \<longleftrightarrow> j \<noteq> i \<and> owns t j q"
  by (auto simp: owns_def)

lemma consistent_drop:
  assumes "consistent t" and "owns t i pid"
  shows "consistent (drop_request i pid t)"
proof -
  have fn: "owns t j q \<Longrightarrow> owns t j q' \<Longrightarrow> q = q'" for j q q' by (auto simp: owns_def)
  have inj: "owns t j pid \<Longrightarrow> j = i" for j using assms by (metis consistent_def option.inject)
  show ?thesis
    unfolding consistent_def
  proof (intro conjI allI impI)
    fix q l assume "om_get (tr_listeners (drop_request i pid t)) q = Some l"
    then have "om_get (tr_listeners t) q = Some l" "q \<noteq> pid" by (auto split: if_splits)
    then obtain p where p: "om_get (tr_pending t) (al_id l) = Some p" "pr_promise p = q" "pr_signal p"
      using assms(1) unfolding consistent_def by blast
    with assms(2) \<open>q \<noteq> pid\<close> have "al_id l \<noteq> i" by (auto simp: owns_def)
    with p show "\<exists>p. om_get (tr_pending (drop_request i pid t)) (al_id l) = Some p \<and> pr_promise p = q \<and> pr_signal p"
      by simp
  next
    fix q j
    have "om_get (tr_timers t) q = Some j \<longleftrightarrow> owns t j q" using assms(1) by (simp add: consistent_def)
    moreover have "owns t j q \<Longrightarrow> q \<noteq> pid \<longleftrightarrow> j \<noteq> i" using inj fn [OF assms(2)] by blast
    ultimately show "om_get (tr_timers (drop_request i pid t)) q = Some j \<longleftrightarrow> owns (drop_request i pid t) j q"
      by auto
  qed (use assms in \<open>auto simp: consistent_def\<close>)
qed

lemma live_drop:
  assumes "consistent t" and "owns t i pid"
  shows "live t = {#pid#} + live (drop_request i pid t)"
  using assms by (auto simp: live_def owns_def consistent_def dest: live_delete)

lemma accounted_drop:
  assumes "consistent t" and "owns t i pid" and "issued_by x = {#}" and "settled_by x = {#pid#}"
  shows "accounted t ([x], drop_request i pid t)"
  using consistent_drop [OF assms(1,2)] live_drop [OF assms(1,2)] assms(3,4) by (simp add: accounted_def)

lemma cleanup_is_drop:
  assumes "consistent t" and "om_get (tr_pending t) i = Some p"
  shows "cleanupPending p (t\<lparr>tr_pending := om_delete (tr_pending t) i\<rparr>) = drop_request i (pr_promise p) t"
proof -
  have own: "owns t i (pr_promise p)" using assms(2) by (simp add: owns_def)
  have "om_delete (tr_listeners t) (pr_promise p) = tr_listeners t" if "\<not> pr_signal p"
  proof -
    have "om_get (tr_listeners t) (pr_promise p) = None"
    proof (rule ccontr)
      assume "om_get (tr_listeners t) (pr_promise p) \<noteq> None"
      then obtain l where "om_get (tr_listeners t) (pr_promise p) = Some l" by auto
      then obtain q where q: "om_get (tr_pending t) (al_id l) = Some q" "pr_promise q = pr_promise p" "pr_signal q"
        using assms(1) unfolding consistent_def by blast
      then have "owns t (al_id l) (pr_promise p)" by (simp add: owns_def)
      with own assms(1) have "al_id l = i" by (metis consistent_def option.inject)
      with q assms(2) that show False by simp
    qed
    then have "\<not> om_has (tr_listeners t) (pr_promise p)" by (simp add: om_has_get)
    then show ?thesis by (force simp: om_delete_def om_has_def intro!: filter_True)
  qed
  then show ?thesis by (simp add: cleanupPending_def drop_request_def)
qed

section \<open>Closing\<close>

lemma fold_cleanup_fields [simp]:
  "tr_pending (fold (\<lambda>(_, p). cleanupPending p) ps t) = tr_pending t"
  "tr_closedError (fold (\<lambda>(_, p). cleanupPending p) ps t) = tr_closedError t"
  "tr_promises (fold (\<lambda>(_, p). cleanupPending p) ps t) = tr_promises t"
  "tr_requestCounter (fold (\<lambda>(_, p). cleanupPending p) ps t) = tr_requestCounter t"
  "tr_generation (fold (\<lambda>(_, p). cleanupPending p) ps t) = tr_generation t"
  "tr_queue (fold (\<lambda>(_, p). cleanupPending p) ps t) = tr_queue t"
  "tr_writing (fold (\<lambda>(_, p). cleanupPending p) ps t) = tr_writing t"
  "tr_scheduled (fold (\<lambda>(_, p). cleanupPending p) ps t) = tr_scheduled t"
  by (induction ps arbitrary: t) (auto simp: cleanupPending_def)

lemma fold_cleanup_timers:
  "om_get (tr_timers (fold (\<lambda>(_, p). cleanupPending p) ps t)) pid =
     (if pid \<in> (pr_promise \<circ> snd) ` set ps then None else om_get (tr_timers t) pid)"
  by (induction ps arbitrary: t) (auto simp: cleanupPending_def)

lemma fold_cleanup_listeners:
  "om_get (tr_listeners (fold (\<lambda>(_, p). cleanupPending p) ps t)) pid =
     (if \<exists>p \<in> snd ` set ps. pr_promise p = pid \<and> pr_signal p then None else om_get (tr_listeners t) pid)"
  by (induction ps arbitrary: t) (auto simp: cleanupPending_def)

lemma om_get_in: "om_get m i = Some p \<Longrightarrow> p \<in> snd ` set m"
  by (force simp: om_get_def dest: map_of_SomeD)

lemma finish_closed [simp]: "tr_closedError t \<noteq> None \<Longrightarrow> finish code t = ([], t)"
  by (simp add: finish_def)

lemma finish_fields:
  "tr_promises (snd (finish code t)) = tr_promises t"
  "tr_closedError (snd (finish code t)) \<noteq> None"
  "owners (snd (finish code t)) = owners t"
  "known (snd (finish code t)) = known t"
  by (simp_all add: finish_def owners_def known_def fun_eq_iff)

lemma issued_rejected:
  "issued (map (\<lambda>(_, p). Rejected (pr_promise p) (TransportFailure code)) ps) = {#}"
  by (induction ps) auto

lemma issued_finish [simp]: "issued (fst (finish code t)) = {#}"
  by (simp add: finish_def issued_rejected)

lemma settled_rejected:
  "settled (map (\<lambda>(_, p). Rejected (pr_promise p) (TransportFailure code)) ps) =
     mset (map (\<lambda>(_, p). pr_promise p) ps)"
  by (induction ps) auto

lemma accounted_finish:
  assumes "consistent t"
  shows "accounted t (finish code t)"
proof (cases "tr_closedError t")
  case None
  let ?t = "snd (finish code t)"
  have pend: "tr_pending ?t = []" using None by (simp add: finish_def)
  have no_timer: "om_get (tr_timers ?t) pid = None" for pid
  proof (cases "om_get (tr_timers t) pid")
    case (Some i)
    with assms have "owns t i pid" by (simp add: consistent_def)
    then show ?thesis using None
      by (auto simp: finish_def fold_cleanup_timers owns_def dest: om_get_in)
  qed (use None in \<open>simp add: finish_def fold_cleanup_timers\<close>)
  have no_listener: "om_get (tr_listeners ?t) pid = None" for pid
  proof (cases "om_get (tr_listeners t) pid")
    case (Some l)
    with assms obtain p where "om_get (tr_pending t) (al_id l) = Some p" "pr_promise p = pid" "pr_signal p"
      unfolding consistent_def by blast
    then show ?thesis using None
      by (auto simp: finish_def fold_cleanup_listeners dest: om_get_in)
  qed (use None in \<open>simp add: finish_def fold_cleanup_listeners\<close>)
  have no_owner: "\<not> owns ?t i pid" for i pid by (simp add: owns_def pend)
  have "consistent ?t"
    using assms no_timer no_listener no_owner
    by (auto simp: consistent_def pend finish_fields om_has_def)
  moreover have "settled (fst (finish code t)) = live t" using None
    by (simp add: finish_def settled_rejected live_def)
  ultimately show ?thesis
    using issued_finish [of code t] by (simp add: accounted_def finish_fields live_def pend)
qed (use assms in simp)

lemma accounted_silent:
  assumes "accounted t (outs, t')" and "issued_by x = {#}" and "settled_by x = {#}"
  shows "accounted t (x # outs, t')" and "accounted t (outs @ [x], t')"
  using assms by (simp_all add: accounted_def)

lemma accounted_silent_only:
  "consistent t \<Longrightarrow> issued_by x = {#} \<Longrightarrow> settled_by x = {#} \<Longrightarrow> accounted t ([x], t)"
  using accounted_silent [OF accounted_refl] by simp

lemma accounted_failProtocol: "consistent t \<Longrightarrow> accounted t (failProtocol code t)"
  using accounted_silent(2) [of t "fst (finish code t)" "snd (finish code t)"] accounted_finish [of t code]
  by (simp add: failProtocol_def split_beta)

section \<open>Changes of the other fields\<close>

definition ok_owner :: "transport \<Rightarrow> write_owner \<Rightarrow> bool" where
  "ok_owner t w \<longleftrightarrow>
     (\<forall>i pid. w = ForRequest i pid \<longrightarrow> known t i \<and> (om_has (tr_pending t) i \<longrightarrow> owns t i pid))"

lemma ok_owner_ForInput [simp]: "ok_owner t (ForInput pid)"
  by (simp add: ok_owner_def)

lemma owners_ok: "consistent t \<Longrightarrow> w \<in> owners t \<Longrightarrow> ok_owner t w"
  by (auto simp: consistent_def ok_owner_def)

lemma owned_ok: "consistent t \<Longrightarrow> owns t i pid \<Longrightarrow> ok_owner t (ForRequest i pid)"
  by (auto simp: consistent_def ok_owner_def owns_def)

lemma ok_owner_closed:
  assumes "ok_owner t w" and "consistent t'" and "tr_closedError t' \<noteq> None" and "known t' = known t"
  shows "ok_owner t' w"
  using assms by (auto simp: ok_owner_def consistent_def om_has_def)

text \<open>Fields that play no part, more identifiers handed out, and new owners that are in order.\<close>

lemma accounted_update:
  assumes c: "consistent t"
    and eq: "tr_pending t' = tr_pending t" "tr_timers t' = tr_timers t" "tr_listeners t' = tr_listeners t"
      "tr_closedError t' = tr_closedError t" "tr_generation t' = tr_generation t"
    and ge: "tr_promises t \<le> tr_promises t'" "tr_requestCounter t \<le> tr_requestCounter t'"
    and ow: "\<And>w. w \<in> owners t' \<Longrightarrow> w \<in> owners t \<or> ok_owner t w"
  shows "accounted t ([], t')"
proof -
  have own: "owns t' = owns t" by (simp add: owns_def eq fun_eq_iff)
  have kn: "known t i \<Longrightarrow> known t' i" for i
    unfolding known_def eq(5) using ge(2) order_trans by blast
  have ok: "w \<in> owners t' \<Longrightarrow> ok_owner t w" for w using ow owners_ok [OF c] by blast
  have lt: "owns t i pid \<Longrightarrow> pid < tr_promises t'" for i pid
    using c ge(1) by (auto simp: consistent_def dest: order_less_le_trans)
  have "consistent t'"
    unfolding consistent_def own eq
  proof (intro conjI allI impI)
    fix i pid assume o: "ForRequest i pid \<in> owners t'"
    show "known t' i" using ok [OF o] kn by (simp add: ok_owner_def)
    show "owns t i pid" if "om_has (tr_pending t) i" using ok [OF o] that by (simp add: ok_owner_def)
  qed (use c kn lt in \<open>simp_all add: consistent_def\<close>)
  then show ?thesis using ge by (simp add: accounted_def live_def eq)
qed

lemma enqueueWrite_fields:
  "tr_pending (enqueueWrite env v w t) = tr_pending t" "tr_timers (enqueueWrite env v w t) = tr_timers t"
  "tr_listeners (enqueueWrite env v w t) = tr_listeners t"
  "tr_closedError (enqueueWrite env v w t) = tr_closedError t"
  "tr_generation (enqueueWrite env v w t) = tr_generation t"
  "tr_promises (enqueueWrite env v w t) = tr_promises t"
  "tr_requestCounter (enqueueWrite env v w t) = tr_requestCounter t"
  "owners (enqueueWrite env v w t) = insert w (owners t)"
  by (auto simp: enqueueWrite_def owners_def split: sum.splits)

lemma accounted_enqueueWrite:
  "consistent t \<Longrightarrow> ok_owner t w \<Longrightarrow> accounted t ([], enqueueWrite env v w t)"
  by (rule accounted_update) (auto simp: enqueueWrite_fields)

section \<open>Issuing a request\<close>

lemma request_id_text_inject [simp]: "request_id_text g m = request_id_text g n \<longleftrightarrow> m = n"
  by (simp add: request_id_text_def)

lemma fresh_id:
  assumes "consistent t"
  shows "\<not> known t (request_id_text (tr_generation t) (tr_requestCounter t + 1))"
    and "\<not> om_has (tr_pending t) (request_id_text (tr_generation t) (tr_requestCounter t + 1))"
proof -
  show k: "\<not> known t (request_id_text (tr_generation t) (tr_requestCounter t + 1))"
    by (auto simp: known_def)
  then show "\<not> om_has (tr_pending t) (request_id_text (tr_generation t) (tr_requestCounter t + 1))"
    using assms unfolding consistent_def om_has_get owns_def by blast
qed

lemma accounted_register:
  fixes command :: json and s a :: bool
  assumes c: "consistent t" and open_t: "tr_closedError t = None"
    and i: "i = request_id_text (tr_generation t) (tr_requestCounter t + 1)"
    and pid: "pid = tr_promises t"
  defines "t' \<equiv> register_request i pid command s a (t\<lparr>tr_requestCounter := tr_requestCounter t + 1\<rparr>)"
  shows "accounted t ([RequestIssued pid i], t')" and "owns t' i pid"
proof -
  have fresh: "\<not> known t i" "\<not> om_has (tr_pending t) i" using fresh_id [OF c] by (simp_all add: i)
  show own: "owns t' i pid" by (simp add: t'_def register_request_def owns_def)
  have owns': "owns t' j q \<longleftrightarrow> (if j = i then q = pid else owns t j q)" for j q
    by (auto simp: t'_def register_request_def owns_def)
  have kn: "known t j \<Longrightarrow> known t' j" for j
    by (auto simp: known_def t'_def register_request_def)
  have kni: "known t' i" by (auto simp: known_def t'_def register_request_def i)
  have prom: "tr_promises t' = Suc (tr_promises t)" by (simp add: t'_def register_request_def)
  have lt: "owns t j q \<Longrightarrow> q < tr_promises t" for j q using c by (simp add: consistent_def)
  have kno: "owns t j q \<Longrightarrow> known t j" for j q using c by (simp add: consistent_def)
  have ni: "\<not> owns t i q" for q using fresh(2) by (simp add: owns_def om_has_get)
  have "consistent t'"
    unfolding consistent_def
  proof (intro conjI allI impI)
    show "om_wf (tr_pending t')" using c by (simp add: t'_def register_request_def consistent_def)
  next
    fix j q assume "owns t' j q"
    then show "known t' j" "q < tr_promises t'"
      using kn kni lt [of j q] kno [of j q] by (auto simp: owns' prom pid less_Suc_eq split: if_splits)
  next
    fix q j
    have "om_get (tr_timers t) q = Some j \<longleftrightarrow> owns t j q" using c by (simp add: consistent_def)
    moreover have "om_get (tr_timers t') q = (if q = pid then Some i else om_get (tr_timers t) q)"
      by (simp add: t'_def register_request_def)
    ultimately show "om_get (tr_timers t') q = Some j \<longleftrightarrow> owns t' j q"
      using lt [of j q] ni [of q] by (auto simp: owns' pid)
  next
    fix q l assume l: "om_get (tr_listeners t') q = Some l"
    show "\<exists>p. om_get (tr_pending t') (al_id l) = Some p \<and> pr_promise p = q \<and> pr_signal p"
    proof (cases "q = pid \<and> s")
      case True
      then show ?thesis using l by (auto simp: t'_def register_request_def)
    next
      case False
      then have "om_get (tr_listeners t) q = Some l"
        using l by (auto simp: t'_def register_request_def split: if_splits)
      then obtain p where p: "om_get (tr_pending t) (al_id l) = Some p" "pr_promise p = q" "pr_signal p"
        using c unfolding consistent_def by blast
      then have "al_id l \<noteq> i" using fresh(2) by (auto simp: om_has_get)
      with p show ?thesis by (simp add: t'_def register_request_def)
    qed
  next
    fix j q assume "ForRequest j q \<in> owners t'"
    then have o: "ForRequest j q \<in> owners t" by (simp add: t'_def register_request_def owners_def)
    then have k: "known t j" "om_has (tr_pending t) j \<Longrightarrow> owns t j q" using c by (simp_all add: consistent_def)
    then show "known t' j" using kn by simp
    from k(1) fresh(1) have ji: "j \<noteq> i" by auto
    have "om_has (tr_pending t') j \<Longrightarrow> om_has (tr_pending t) j"
      using ji by (simp add: t'_def register_request_def)
    with ji k(2) show "owns t' j q" if "om_has (tr_pending t') j"
      using that by (simp add: owns')
  qed (use open_t in \<open>simp add: t'_def register_request_def\<close>)
  moreover have "live t' = {#pid#} + live t"
    using live_set [OF fresh(2)] by (simp add: live_def t'_def register_request_def)
  ultimately show "accounted t ([RequestIssued pid i], t')"
    by (simp add: accounted_def prom pid)
qed

text \<open>What \<open>assertUsable\<close> can do, and the part of \<open>request\<close> before the executor.\<close>

lemma assertUsable_cases:
  obtains (usable) "assertUsable current t = (None, [], t)" "tr_closedError t = None" "current"
  | (closed) "assertUsable current t = (Some (closed_code t), [], t)" "tr_closedError t \<noteq> None"
  | (stale) "assertUsable current t = (Some (closed_code (snd (finish StaleGeneration t))),
      finish StaleGeneration t)" "tr_closedError t = None" "\<not> current"
  by (auto simp: assertUsable_def split_beta)

lemma accounted_prologue:
  assumes c: "consistent t" and noid: "own_id command = None"
  shows "case request_prologue current command timeoutMs t of
      (None, r) \<Rightarrow> accounted t r
    | (Some (i, pid), outs, t') \<Rightarrow>
        accounted t (outs, register_request i pid command s a t') \<and>
        owns (register_request i pid command s a t') i pid \<and>
        tr_closedError (register_request i pid command s a t') = None"
proof (rule assertUsable_cases [of current t])
  assume u: "assertUsable current t = (None, [], t)" "tr_closedError t = None"
  have up: "accounted t ([], t\<lparr>tr_requestCounter := tr_requestCounter t + 1\<rparr>)"
    by (rule accounted_update [OF c]) (simp_all add: owners_def)
  show ?thesis
    using u accounted_register [OF c u(2) refl refl, of command s a] fresh_id(2) [OF c]
      accounted_silent(2) [OF up, of RequestTypeError]
    by (auto simp: request_prologue_def noid nextRequestId_def register_request_def)
next
  assume u: "assertUsable current t = (Some (closed_code t), [], t)"
  show ?thesis
    using u accounted_silent_only [OF c] by (simp add: request_prologue_def)
next
  assume u: "assertUsable current t = (Some (closed_code (snd (finish StaleGeneration t))), finish StaleGeneration t)"
  obtain outs t' where f: "finish StaleGeneration t = (outs, t')" by (cases "finish StaleGeneration t")
  show ?thesis
    using u accounted_silent(2) [of t outs t'] accounted_finish [OF c, of StaleGeneration]
    by (simp add: request_prologue_def f)
qed

lemma accounted_consistent: "accounted t (outs, t') \<Longrightarrow> consistent t'"
  by (simp add: accounted_def)

lemma accounted_registered_write:
  assumes "accounted t (outs, t')" and "owns t' i pid"
  shows "accounted t (outs, enqueueWrite env v (ForRequest i pid) t')"
  using accounted_trans [OF assms(1) accounted_enqueueWrite [OF accounted_consistent [OF assms(1)]
        owned_ok [OF accounted_consistent [OF assms(1)] assms(2)]]]
  by simp

lemma accounted_request_unsignalled:
  assumes "consistent t" and "own_id command = None"
  shows "accounted t (request_unsignalled env current command timeoutMs t)"
  using accounted_prologue [OF assms, where current = current and timeoutMs = timeoutMs and s = False and a = False]
  by (auto simp: request_unsignalled_def intro: accounted_registered_write split: prod.splits option.splits)

section \<open>The events\<close>

lemma own_id_abort [simp]: "own_id abort_command = None"
  by (simp add: own_id_def abort_command_def member_def)

lemma throws_issue_nothing:
  "issued (map (\<lambda>x. case x of RequestThrew c \<Rightarrow> UncaughtThrow c | y \<Rightarrow> y) outs) = issued outs"
  "settled (map (\<lambda>x. case x of RequestThrew c \<Rightarrow> UncaughtThrow c | y \<Rightarrow> y) outs) = settled outs"
  by (induction outs) (auto split: emission.splits)

lemma onAbort_owned:
  "om_has (tr_pending t) (al_id l) \<Longrightarrow>
   onAbort env current pid l t =
     (if al_abortRemote l \<and> al_command l \<noteq> ''abort'' then
        (let (outs, t2) = request_unsignalled env current abort_command JUndefined (drop_request (al_id l) pid t)
         in (Rejected pid (TransportFailure Aborted) #
             map (\<lambda>x. case x of RequestThrew c \<Rightarrow> UncaughtThrow c | y \<Rightarrow> y) outs, t2))
      else ([Rejected pid (TransportFailure Aborted)], drop_request (al_id l) pid t))"
  by (simp add: onAbort_def drop_request_def Let_def)

lemma accounted_onAbort:
  assumes "consistent t" and "owns t (al_id l) pid"
  shows "accounted t (onAbort env current pid l t)"
proof -
  let ?t = "drop_request (al_id l) pid t"
  have has: "om_has (tr_pending t) (al_id l)" using assms(2) by (auto simp: owns_def om_has_get)
  have rej: "accounted t ([Rejected pid (TransportFailure Aborted)], ?t)"
    by (rule accounted_drop [OF assms]) simp_all
  obtain outs t2 where r: "request_unsignalled env current abort_command JUndefined ?t = (outs, t2)"
    by (cases "request_unsignalled env current abort_command JUndefined ?t")
  have "accounted ?t (outs, t2)"
    using accounted_request_unsignalled [OF accounted_consistent [OF rej] own_id_abort, of env current JUndefined]
    by (simp add: r)
  then have "accounted ?t (map (\<lambda>x. case x of RequestThrew c \<Rightarrow> UncaughtThrow c | y \<Rightarrow> y) outs, t2)"
    by (simp add: accounted_def throws_issue_nothing)
  from accounted_trans [OF rej this] rej show ?thesis
    by (simp add: onAbort_owned [OF has] r)
qed

lemma accounted_request:
  assumes "consistent t" and "own_id command = None"
  shows "accounted t (request env current command timeoutMs signal abortRemote t)"
proof (cases "request_prologue current command timeoutMs t")
  case (fields res outs t')
  show ?thesis
  proof (cases res)
    case None
    with fields accounted_prologue [OF assms, where current = current and timeoutMs = timeoutMs] show ?thesis
      by (simp add: request_def)
  next
    case (Some ip)
    obtain i pid where ip: "ip = (i, pid)" by (cases ip)
    let ?t1 = "register_request i pid command (signal \<noteq> NoSignal) abortRemote t'"
    let ?l = "\<lparr>al_id = i, al_command = str_of (member command ''type''), al_abortRemote = abortRemote\<rparr>"
    have a: "accounted t (outs, ?t1)" "owns ?t1 i pid"
      using accounted_prologue [OF assms, where current = current and timeoutMs = timeoutMs and s = "signal \<noteq> NoSignal" and a = abortRemote]
      by (simp_all add: fields Some ip)
    have "accounted ?t1 (onAbort env current pid ?l ?t1)"
      by (rule accounted_onAbort [OF accounted_consistent [OF a(1)]]) (simp add: a(2))
    with accounted_trans [OF a(1)] have "accounted t (let (outs', t2) = onAbort env current pid ?l ?t1 in (outs @ outs', t2))"
      by (cases "onAbort env current pid ?l ?t1") simp
    with accounted_registered_write [OF a] show ?thesis
      by (cases signal) (simp_all add: request_def fields Some ip Let_def)
  qed
qed

lemma accounted_handleLine: "consistent t \<Longrightarrow> accounted t (handleLine env line t)"
proof -
  assume c: "consistent t"
  have resolve: "accounted t ([Resolved (pr_promise p) v], cleanupPending p (t\<lparr>tr_pending := om_delete (tr_pending t) i\<rparr>))"
    if p: "om_get (tr_pending t) i = Some p" for i p v
    using accounted_drop [OF c, of i "pr_promise p" "Resolved (pr_promise p) v"] p
    by (simp add: cleanup_is_drop [OF c p] owns_def)
  show ?thesis
    by (auto simp: handleLine_def intro!: accounted_failProtocol [OF c] accounted_silent_only [OF c] resolve
        split: sum.split option.split)
qed

lemma accounted_handle_lines: "consistent t \<Longrightarrow> accounted t (handle_lines env lines t)"
proof (induction lines arbitrary: t)
  case (Cons line lines)
  obtain outs t1 where l: "handleLine env line t = (outs, t1)" by (cases "handleLine env line t")
  with accounted_handleLine [OF Cons.prems, of env line] have a: "accounted t (outs, t1)" by simp
  obtain outs' t2 where r: "handle_lines env lines t1 = (outs', t2)" by (cases "handle_lines env lines t1")
  with Cons.IH [OF accounted_consistent [OF a]] accounted_trans [OF a, of outs' t2] Cons.prems
  show ?case by (simp add: l)
qed simp

lemma accounted_same:
  assumes "consistent t" and "accounted t ([], t')" and "accounted t' r"
  shows "accounted t r"
  using accounted_trans [OF assms(2), of "fst r" "snd r"] assms(3) by simp

lemma accounted_decoder: "consistent t \<Longrightarrow> accounted t ([], t\<lparr>tr_decoder := d\<rparr>)"
  by (rule accounted_update) (simp_all add: owners_def)

lemma accounted_stdout:
  assumes c: "consistent t"
  shows "accounted t (handleStdoutData env current chunk t)" and "accounted t (handleStdoutEnd t)"
proof -
  have d: "accounted t r" if "accounted (t\<lparr>tr_decoder := d\<rparr>) r" for d r
    by (rule accounted_same [OF c accounted_decoder [OF c] that])
  note cd = accounted_consistent [OF accounted_decoder [OF c]]
  show "accounted t (handleStdoutData env current chunk t)"
    by (auto simp: handleStdoutData_def c intro!: accounted_finish d [OF accounted_failProtocol [OF cd]]
        d [OF accounted_handle_lines [OF cd]] split: prod.split sum.split)
  show "accounted t (handleStdoutEnd t)"
    by (auto simp: handleStdoutEnd_def c intro!: d [OF accounted_finish [OF cd]] d [OF accounted_failProtocol [OF cd]]
        split: prod.split sum.split)
qed

lemma stderr_fields:
  "handleStderrData s t = t\<lparr>tr_stderrPrefix := a, tr_stderrBytes := b, tr_stderrTruncated := e\<rparr> \<Longrightarrow>
     consistent t \<Longrightarrow> accounted t ([], handleStderrData s t)"
  "handleStderrEnd s t = t\<lparr>tr_stderrPrefix := a, tr_stderrBytes := b, tr_stderrTruncated := e\<rparr> \<Longrightarrow>
     consistent t \<Longrightarrow> accounted t ([], handleStderrEnd s t)"
  by (rule accounted_update; simp add: owners_def)+

lemma stderr_writes:
  "\<exists>a b e. handleStderrData s t = t\<lparr>tr_stderrPrefix := a, tr_stderrBytes := b, tr_stderrTruncated := e\<rparr>"
  "\<exists>a b e. handleStderrEnd s t = t\<lparr>tr_stderrPrefix := a, tr_stderrBytes := b, tr_stderrTruncated := e\<rparr>"
  by (cases t; auto simp: handleStderrData_def handleStderrEnd_def Let_def)+

lemma accounted_stderr:
  assumes c: "consistent t"
  shows "accounted t ([], handleStderrData s t)" and "accounted t ([], handleStderrEnd s t)"
  using stderr_writes [of s t] stderr_fields [OF _ c, of s] by blast+

lemma accounted_handleChildExit: "consistent t \<Longrightarrow> accounted t (handleChildExit t)"
  using accounted_silent(1) [of t "fst (finish ChildExit t)" "snd (finish ChildExit t)" LifecycleExit]
    accounted_finish [of t ChildExit]
  by (simp add: handleChildExit_def split_beta)

lemma accounted_sendInput:
  assumes c: "consistent t"
  shows "accounted t (sendInput env v t)"
proof -
  let ?t = "t\<lparr>tr_promises := tr_promises t + 1\<rparr>"
  have a: "accounted t ([], ?t)" by (rule accounted_update [OF c]) (simp_all add: owners_def)
  show ?thesis
    unfolding sendInput_def
    by (rule accounted_same [OF c a accounted_enqueueWrite]) (use accounted_consistent [OF a] in simp_all)
qed

lemma om_delete_idem [simp]: "om_delete (om_delete m k) k = om_delete m k"
  by (simp add: om_delete_def)

lemma accounted_timer:
  assumes c: "consistent t"
  shows "accounted t (timer_fires pid t)"
proof (cases "om_get (tr_timers t) pid")
  case (Some i)
  then have own: "owns t i pid" using c by (simp add: consistent_def)
  then obtain p where p: "om_get (tr_pending t) i = Some p" "pr_promise p = pid" by (auto simp: owns_def)
  have "cleanupPending p (t\<lparr>tr_timers := om_delete (tr_timers t) pid, tr_pending := om_delete (tr_pending t) i\<rparr>)
      = drop_request i pid t"
    using cleanup_is_drop [OF c p(1)] p(2)
    by (cases "pr_signal p") (simp_all add: cleanupPending_def drop_request_def)
  with Some p show ?thesis
    using accounted_drop [OF c own, of "Rejected pid (TransportFailure RequestTimeout)"]
    by (simp add: timer_fires_def Let_def)
qed (simp add: timer_fires_def c)

lemma accounted_signal:
  assumes c: "consistent t"
  shows "accounted t (signal_fires env current pid t)"
proof (cases "om_get (tr_listeners t) pid")
  case (Some l)
  then obtain p where p: "om_get (tr_pending t) (al_id l) = Some p" "pr_promise p = pid"
    using c unfolding consistent_def by blast
  then have own: "owns t (al_id l) pid" by (simp add: owns_def)
  have "onAbort env current pid l (t\<lparr>tr_listeners := om_delete (tr_listeners t) pid\<rparr>) = onAbort env current pid l t"
    using p(1) by (simp add: onAbort_def Let_def om_has_get)
  with Some accounted_onAbort [OF c own] show ?thesis by (simp add: signal_fires_def)
qed (simp add: signal_fires_def c)

lemma accounted_runCatch:
  assumes c: "consistent t"
  shows "accounted t (runCatch t)"
proof (cases "tr_scheduled t")
  case (Cons x rest)
  obtain w f where x: "x = (w, f)" by (cases x)
  let ?t = "t\<lparr>tr_scheduled := rest\<rparr>"
  have w: "w \<in> owners t" by (simp add: owners_def Cons x)
  have a: "accounted t ([], ?t)"
    by (rule accounted_update [OF c]) (auto simp: owners_def Cons)
  show ?thesis
  proof (cases w)
    case (ForInput pid)
    then show ?thesis using Cons x accounted_silent [OF a, of "InputRejected pid f"] by (simp add: runCatch_def)
  next
    case (ForRequest i pid)
    show ?thesis
    proof (cases "om_has (tr_pending t) i")
      case True
      with w ForRequest c have "owns t i pid" by (auto simp: consistent_def)
      then have "owns ?t i pid" by (simp add: owns_def)
      from accounted_drop [OF accounted_consistent [OF a] this, of "Rejected pid f"]
      have "accounted ?t ([Rejected pid f], drop_request i pid ?t)" by simp
      from accounted_same [OF c a this] show ?thesis
        using Cons x ForRequest True by (simp add: runCatch_def drop_request_def)
    qed (use Cons x ForRequest a in \<open>simp add: runCatch_def\<close>)
  qed
qed (simp add: runCatch_def c)

text \<open>A write that fails closes the transport; its owner is then scheduled to be told.\<close>

lemma accounted_failed_write:
  assumes c: "consistent t" and ok: "ok_owner t w" and a: "accounted t (outs, t')"
    and closed: "tr_closedError t' \<noteq> None" and k: "known t' = known t"
  shows "accounted t (outs, t'\<lparr>tr_scheduled := tr_scheduled t' @ [(w, f)]\<rparr>)"
proof -
  have "ok_owner t' w" by (rule ok_owner_closed [OF ok accounted_consistent [OF a] closed k])
  then have "accounted t' ([], t'\<lparr>tr_scheduled := tr_scheduled t' @ [(w, f)]\<rparr>)"
    by (intro accounted_update [OF accounted_consistent [OF a]]) (auto simp: owners_def)
  with accounted_trans [OF a this] show ?thesis by simp
qed

lemma accounted_settleWrite:
  assumes c: "consistent t"
  shows "accounted t (settleWrite ok t)"
proof (cases "tr_writing t")
  case (Some op)
  let ?t = "t\<lparr>tr_writing := None\<rparr>"
  have a: "accounted t ([], ?t)" by (rule accounted_update [OF c]) (auto simp: owners_def)
  have "ok_owner t (op_owner op)" by (rule owners_ok [OF c]) (simp add: owners_def Some)
  then have okk: "ok_owner ?t (op_owner op)" by (simp add: ok_owner_def owns_def known_def)
  obtain outs t' where f: "finish WriteFailed ?t = (outs, t')" by (cases "finish WriteFailed ?t")
  have "accounted ?t (outs, t'\<lparr>tr_scheduled := tr_scheduled t' @ [(op_owner op, e)]\<rparr>)" for e
    using accounted_failed_write [OF accounted_consistent [OF a] okk, of outs t']
      accounted_finish [OF accounted_consistent [OF a], of WriteFailed] finish_fields [of WriteFailed ?t]
    by (simp add: f)
  from accounted_same [OF c a this] a accounted_silent [OF a] show ?thesis
    by (auto simp: settleWrite_def Some f split: write_owner.split)
qed (simp add: settleWrite_def c)

lemma accounted_startWrite:
  assumes c: "consistent t"
  shows "accounted t (startWrite current writable t)"
proof (cases "tr_writing t = None \<and> tr_queue t \<noteq> []")
  case True
  then obtain op queue where q: "tr_queue t = op # queue" and nw: "tr_writing t = None" by (cases "tr_queue t") auto
  let ?t = "t\<lparr>tr_queue := queue\<rparr>"
  have a: "accounted t ([], ?t)" by (rule accounted_update [OF c]) (auto simp: owners_def q)
  note ct = accounted_consistent [OF a]
  have okt: "ok_owner t (op_owner op)" by (rule owners_ok [OF c]) (simp add: owners_def q)
  then have okk: "ok_owner ?t (op_owner op)" by (simp add: ok_owner_def owns_def known_def)
  have failed: "accounted t (fst (finish code ?t), snd (finish code ?t)
      \<lparr>tr_scheduled := tr_scheduled (snd (finish code ?t)) @ [(op_owner op, e)]\<rparr>)" for code e
    using accounted_same [OF c a accounted_failed_write [OF ct okk, of "fst (finish code ?t)" "snd (finish code ?t)"]]
      accounted_finish [OF ct, of code] finish_fields [of code ?t] by simp
  have wrote: "accounted t ([], ?t\<lparr>tr_writing := Some op\<rparr>)"
    by (rule accounted_update [OF c]) (auto simp: owners_def q nw)
  show ?thesis
  proof (rule assertUsable_cases [of current ?t])
    assume "assertUsable current ?t = (None, [], ?t)"
    with failed [of WriteFailed] accounted_silent [OF a] accounted_silent [OF wrote] a show ?thesis
      by (auto simp: startWrite_def q nw split_beta split: write_owner.split)
  next
    assume u: "assertUsable current ?t = (Some (closed_code ?t), [], ?t)" "tr_closedError ?t \<noteq> None"
    with failed [of Closed] show ?thesis by (simp add: startWrite_def q nw)
  next
    assume "assertUsable current ?t = (Some (closed_code (snd (finish StaleGeneration ?t))), finish StaleGeneration ?t)"
    with failed [of StaleGeneration] show ?thesis
      by (cases "finish StaleGeneration ?t") (simp add: startWrite_def q nw)
  qed
qed (auto simp: startWrite_def c split: list.split)

text \<open>The events of a caller that leaves the choice of identifiers to the transport.\<close>

fun generated_id :: "event \<Rightarrow> bool" where
  "generated_id (Request current command timeoutMs signal abortRemote) \<longleftrightarrow> own_id command = None"
| "generated_id e \<longleftrightarrow> True"

lemma accounted_step:
  assumes "consistent t" and "generated_id e"
  shows "accounted t (transport_step env e t)"
  using assms
  by (cases e)
    (simp_all add: accounted_stdout accounted_finish accounted_stderr accounted_handleChildExit
      accounted_request accounted_sendInput accounted_timer accounted_signal accounted_startWrite
      accounted_settleWrite accounted_runCatch)

lemma accounted_run:
  "consistent t \<Longrightarrow> \<forall>e \<in> set es. generated_id e \<Longrightarrow> accounted t (transport_run env es t)"
proof (induction es arbitrary: t)
  case (Cons e es)
  obtain outs t1 where s: "transport_step env e t = (outs, t1)" by (cases "transport_step env e t")
  with accounted_step [OF Cons.prems(1), of e env] Cons.prems(2) have a: "accounted t (outs, t1)" by simp
  obtain outs' t2 where r: "transport_run env es t1 = (outs', t2)" by (cases "transport_run env es t1")
  with Cons.IH [OF accounted_consistent [OF a]] Cons.prems(2) accounted_trans [OF a, of outs' t2]
  show ?case by (simp add: s)
qed simp

lemma consistent_new: "new_transport options = Some t \<Longrightarrow> consistent t \<and> live t = {#} \<and> tr_promises t = 0"
  by (auto simp: new_transport_def consistent_def owns_def owners_def live_def split: if_splits option.splits)

section \<open>What a caller may rely on\<close>


definition sample_options :: transport_options where
  "sample_options = \<lparr>opt_sessionId = ''s'', opt_generation = JNumber (JInt 1), opt_requestTimeoutMs = JUndefined,
     opt_maxFrameBytes = JNumber (JInt 100), opt_maxStderrBytes = JNumber (JInt 4)\<rparr>"

definition sample_response :: json where
  "sample_response = JObject [(''type'', JString ''response''), (''id'', JString ''pi-1-1''),
     (''command'', JString ''abort''), (''success'', JBool True)]"

definition sample_env :: environment where
  "sample_env = \<lparr>env_parse = (\<lambda>_. Some sample_response), env_decode = (\<lambda>_. Some ''r''), env_number = (\<lambda>_. ''0'')\<rparr>"

definition sample_events :: "event list" where
  "sample_events = [Request True abort_command JUndefined SignalPending True,
     Request True abort_command JUndefined NoSignal False, StartWrite True True, SettleWrite True,
     StdoutData True [114, 10], Dispose, StartWrite True True, RunCatch]"


section \<open>Responses\<close>

lemma cleanup_pending [simp]: "tr_pending (cleanupPending p t) = tr_pending t"
  by (simp add: cleanupPending_def)

lemma finish_shrinks: "om_get (tr_pending (snd (finish code t))) i = Some p \<Longrightarrow> om_get (tr_pending t) i = Some p"
  by (auto simp: finish_def split: if_splits)

lemma finish_resolves_nothing [simp]: "Resolved pid v \<notin> set (fst (finish code t))"
  by (auto simp: finish_def)

definition answers :: "environment \<Rightarrow> json \<Rightarrow> transport \<Rightarrow> nat \<Rightarrow> bool" where
  "answers env v t pid \<longleftrightarrow>
     (\<exists>line. env_parse env line = Some v) \<and> isPiRpcOutput v \<and> isPiRpcResponse v \<and>
     (\<exists>i p. om_get (tr_pending t) i = Some p \<and> pr_promise p = pid \<and>
        str_of (member v ''id'') = i \<and> str_of (member v ''command'') = pr_command p)"

lemma failProtocol_shrinks:
  "om_get (tr_pending (snd (failProtocol code t))) i = Some p \<Longrightarrow> om_get (tr_pending t) i = Some p"
  "Resolved pid v \<notin> set (fst (failProtocol code t))"
  using finish_shrinks [of code t i p] finish_resolves_nothing [of pid v code t]
  by (auto simp: failProtocol_def split_beta)

lemma handleLine_cases:
  obtains (failed) "handleLine env line t = failProtocol ProtocolError t"
  | (notified) v where "handleLine env line t = ([Notified v], t)"
  | (late) v where "handleLine env line t = ([LateResponse v], t)"
  | (resolved) v p where "env_parse env line = Some v" "isPiRpcOutput v" "isPiRpcResponse v"
      "om_get (tr_pending t) (str_of (member v ''id'')) = Some p" "pr_command p = str_of (member v ''command'')"
      "handleLine env line t = ([Resolved (pr_promise p) v],
         cleanupPending p (t\<lparr>tr_pending := om_delete (tr_pending t) (str_of (member v ''id''))\<rparr>))"
proof (cases "parsePiRpcOutputJson (env_parse env) line")
  case (Inl e)
  then show ?thesis by (intro failed) (simp add: handleLine_def)
next
  case (Inr v)
  then have v: "env_parse env line = Some v" "isPiRpcOutput v"
    by (simp_all add: parsePiRpcOutputJson_def parsePiRpcOutput_def split: option.splits if_splits)
  consider (n) "\<not> isPiRpcResponse v"
    | (u) "isPiRpcResponse v" "member v ''id'' = JUndefined \<or> str_of (member v ''id'') = []"
    | (l) "isPiRpcResponse v" "\<not> (member v ''id'' = JUndefined \<or> str_of (member v ''id'') = [])"
        "om_get (tr_pending t) (str_of (member v ''id'')) = None"
    | (p) p where "isPiRpcResponse v" "\<not> (member v ''id'' = JUndefined \<or> str_of (member v ''id'') = [])"
        "om_get (tr_pending t) (str_of (member v ''id'')) = Some p"
    by (cases "om_get (tr_pending t) (str_of (member v ''id''))") blast+
  then show ?thesis
  proof cases
    case n
    with Inr show ?thesis by (intro notified [of v]) (simp add: handleLine_def)
  next
    case u
    with Inr show ?thesis by (intro failed) (simp add: handleLine_def)
  next
    case l
    with Inr show ?thesis by (intro late [of v]) (simp add: handleLine_def)
  next
    case (p p)
    show ?thesis
    proof (cases "pr_command p = str_of (member v ''command'')")
      case True
      with Inr p show ?thesis by (intro resolved [OF v p(1,3) True]) (simp add: handleLine_def)
    next
      case False
      with Inr p show ?thesis by (intro failed) (simp add: handleLine_def)
    qed
  qed
qed

lemma handleLine_shrinks:
  assumes "om_get (tr_pending (snd (handleLine env line t))) i = Some p"
  shows "om_get (tr_pending t) i = Some p"
  using assms by (cases rule: handleLine_cases [of env line t])
    (auto dest: failProtocol_shrinks(1) split: if_splits)

lemma handleLine_resolves:
  assumes "Resolved pid v \<in> set (fst (handleLine env line t))"
  shows "answers env v t pid"
  using assms by (cases rule: handleLine_cases [of env line t])
    (auto simp: failProtocol_shrinks(2) answers_def)

lemma answers_mono:
  "answers env v t' pid \<Longrightarrow> (\<And>i p. om_get (tr_pending t') i = Some p \<Longrightarrow> om_get (tr_pending t) i = Some p) \<Longrightarrow>
   answers env v t pid"
  unfolding answers_def by blast

lemma handle_lines_resolves:
  "Resolved pid v \<in> set (fst (handle_lines env lines t)) \<Longrightarrow> answers env v t pid"
proof (induction lines arbitrary: t)
  case (Cons line lines)
  let ?t = "snd (handleLine env line t)"
  from Cons.prems consider "Resolved pid v \<in> set (fst (handleLine env line t))"
    | "Resolved pid v \<in> set (fst (handle_lines env lines ?t))"
    by (auto simp: split_beta split: if_splits)
  then show ?case
  proof cases
    case 1
    then show ?thesis by (rule handleLine_resolves)
  next
    case 2
    from answers_mono [OF Cons.IH [OF this]] handleLine_shrinks show ?thesis by blast
  qed
qed simp

lemma prologue_resolves_nothing:
  "Resolved pid v \<notin> set (fst (snd (request_prologue current command timeoutMs t)))"
  by (rule assertUsable_cases [of current t])
    (auto simp: request_prologue_def split_beta Let_def split: option.split)

lemma request_unsignalled_resolves_nothing:
  "Resolved pid v \<notin> set (fst (request_unsignalled env current command timeoutMs t))"
  using prologue_resolves_nothing [of pid v current command timeoutMs t]
  by (auto simp: request_unsignalled_def split: prod.splits option.splits)

lemma onAbort_resolves_nothing: "Resolved pid v \<notin> set (fst (onAbort env current q l t))"
proof (cases "om_has (tr_pending t) (al_id l)")
  case True
  show ?thesis
    using request_unsignalled_resolves_nothing [of pid v env current abort_command JUndefined "drop_request (al_id l) q t"]
    by (auto simp: onAbort_owned [OF True] split_beta split: emission.splits)
qed (simp add: onAbort_def)

lemma request_resolves_nothing:
  "Resolved pid v \<notin> set (fst (request env current command timeoutMs signal abortRemote t))"
  using prologue_resolves_nothing [of pid v current command timeoutMs t] onAbort_resolves_nothing [of pid v]
  by (auto simp: request_def Let_def split_beta split: prod.splits option.splits)

lemma writes_resolve_nothing:
  "Resolved pid v \<notin> set (fst (startWrite current writable t))"
  "Resolved pid v \<notin> set (fst (settleWrite ok t))"
  "Resolved pid v \<notin> set (fst (runCatch t))"
  by (auto simp: startWrite_def settleWrite_def runCatch_def assertUsable_def split_beta Let_def
      split: list.split option.split write_owner.split)

text \<open>
  A request is resolved only by its own response: if a step resolves a promise with a value, the
  step is the arrival of output while the generation is current, the value was parsed from a line,
  has the shape of a response of the contract, and its identifier and command are those of the
  pending entry that holds this promise. Nothing else (timers, signals, writes, exits) resolves.
\<close>

theorem resolved_only_by_own_response:
  assumes "Resolved pid v \<in> set (fst (transport_step env e t))"
  shows "(\<exists>chunk. e = StdoutData True chunk) \<and> tr_closedError t = None \<and> answers env v t pid"
proof (cases e)
  case (StdoutData current chunk)
  have lines: "answers env v t pid" if "Resolved pid v \<in> set (fst (handle_lines env ls (t\<lparr>tr_decoder := d\<rparr>)))" for ls d
    using handle_lines_resolves [OF that] by (simp add: answers_def)
  from assms StdoutData show ?thesis
    by (auto simp: handleStdoutData_def failProtocol_shrinks(2) dest: lines split: if_splits prod.splits sum.splits)
qed (use assms in \<open>auto simp: handleStdoutEnd_def handleChildExit_def sendInput_def timer_fires_def signal_fires_def
    failProtocol_shrinks(2) request_resolves_nothing writes_resolve_nothing onAbort_resolves_nothing Let_def
    split_beta split: if_splits option.splits sum.splits prod.splits\<close>)

theorem resolved_only_by_own_response_witness:
  "\<exists>p. om_get [(''pi-1-1'', \<lparr>pr_command = ''abort'', pr_promise = 7, pr_signal = False\<rparr>)]
      (str_of (member sample_response ''id'')) = Some p \<and>
    pr_promise p = 7 \<and> pr_command p = str_of (member sample_response ''command'')"
proof -
  let ?t = "the (new_transport sample_options)\<lparr>tr_pending :=
    [(''pi-1-1'', \<lparr>pr_command = ''abort'', pr_promise = 7, pr_signal = False\<rparr>)]\<rparr>"
  have "list_ex (\<lambda>x. x = Resolved 7 sample_response)
      (fst (transport_step sample_env (StdoutData True [114, 10]) ?t))" by code_simp
  then have "Resolved 7 sample_response \<in> set (fst (transport_step sample_env (StdoutData True [114, 10]) ?t))"
    by (simp add: list_ex_iff)
  from resolved_only_by_own_response [OF this] show ?thesis by (auto simp: answers_def)
qed

section \<open>A closed transport\<close>

definition drained :: "transport \<Rightarrow> bool" where
  "drained t \<longleftrightarrow> (tr_closedError t \<noteq> None \<longrightarrow> tr_pending t = [])"

lemma drained_finish: "drained t \<Longrightarrow> drained (snd (finish code t))"
  by (auto simp: drained_def finish_def)

lemma drained_failProtocol: "drained t \<Longrightarrow> drained (snd (failProtocol code t))"
  using drained_finish by (simp add: failProtocol_def split_beta)

lemma drained_open: "tr_closedError t = None \<Longrightarrow> drained t"
  by (simp add: drained_def)

lemma drained_update:
  "drained t \<Longrightarrow> tr_pending t' = tr_pending t \<Longrightarrow> tr_closedError t' = tr_closedError t \<Longrightarrow> drained t'"
  by (simp add: drained_def)

lemma drained_handleLine:
  assumes "drained t"
  shows "drained (snd (handleLine env line t))"
  by (cases rule: handleLine_cases [of env line t])
    (use assms drained_failProtocol in \<open>auto simp: drained_def cleanupPending_def om_delete_def\<close>)

lemma drained_handle_lines: "drained t \<Longrightarrow> drained (snd (handle_lines env lines t))"
  by (induction lines arbitrary: t) (auto simp: split_beta drained_handleLine)

lemma prologue_drained:
  assumes "drained t"
  shows "case request_prologue current command timeoutMs t of
      (None, _, t') \<Rightarrow> drained t' | (Some _, _, t') \<Rightarrow> tr_closedError t' = None"
  by (rule assertUsable_cases [of current t])
    (use assms drained_finish [OF assms, of StaleGeneration] in
      \<open>auto simp: request_prologue_def nextRequestId_def Let_def split_beta drained_def split: option.split\<close>)

lemma register_open [simp]: "tr_closedError (register_request i pid command s a t) = tr_closedError t"
  by (simp add: register_request_def)

lemma drained_request_unsignalled:
  assumes "drained t"
  shows "drained (snd (request_unsignalled env current command timeoutMs t))"
  using prologue_drained [OF assms, of current command timeoutMs]
  by (auto simp: request_unsignalled_def enqueueWrite_fields intro!: drained_open split: prod.splits option.splits)

lemma drained_onAbort:
  assumes "drained t"
  shows "drained (snd (onAbort env current pid l t))"
proof (cases "om_has (tr_pending t) (al_id l)")
  case True
  have "drained (drop_request (al_id l) pid t)" using assms by (auto simp: drained_def)
  with drained_request_unsignalled show ?thesis by (auto simp: onAbort_owned [OF True] split_beta)
qed (use assms in \<open>simp add: onAbort_def\<close>)

lemma drained_request:
  assumes "drained t"
  shows "drained (snd (request env current command timeoutMs signal abortRemote t))"
  using prologue_drained [OF assms, of current command timeoutMs]
  by (auto simp: request_def Let_def enqueueWrite_fields split_beta intro!: drained_open drained_onAbort
      split: prod.splits option.splits)

lemma drained_writes:
  assumes "drained t"
  shows "drained (snd (startWrite current writable t))" "drained (snd (settleWrite ok t))" "drained (snd (runCatch t))"
proof -
  have up: "drained (t\<lparr>tr_queue := q\<rparr>)" "drained (t\<lparr>tr_writing := w\<rparr>)" for q w
    using assms by (simp_all add: drained_def)
  note f = drained_finish [OF up(1)] drained_finish [OF up(2)]
  show "drained (snd (startWrite current writable t))"
    using assms f by (auto simp: startWrite_def assertUsable_def drained_def split_beta Let_def
      split: list.split option.split)
  show "drained (snd (settleWrite ok t))"
    using assms f by (auto simp: settleWrite_def drained_def split_beta split: option.split)
  show "drained (snd (runCatch t))"
    using assms by (auto simp: runCatch_def drained_def split: list.split write_owner.split)
qed

lemma drained_step:
  assumes "drained t"
  shows "drained (snd (transport_step env e t))"
proof -
  have up: "drained (t\<lparr>tr_decoder := d\<rparr>)" for d using assms by (simp add: drained_def)
  have stderr: "drained (handleStderrData s t)" "drained (handleStderrEnd s t)" for s
    using stderr_writes [of s t] assms by (auto simp: drained_def)
  have input: "drained (enqueueWrite env v w (t\<lparr>tr_promises := q\<rparr>))" for v w q
    using assms by (simp add: drained_def enqueueWrite_fields)
  have closures: "drained (t\<lparr>tr_timers := m\<rparr>)" "drained (t\<lparr>tr_listeners := k\<rparr>)"
    "drained (cleanupPending p (t\<lparr>tr_timers := m, tr_pending := om_delete (tr_pending t) i\<rparr>))" for m k p i
    using assms by (auto simp: drained_def cleanupPending_def)
  show ?thesis
    by (cases e) (auto simp: assms drained_finish drained_request drained_onAbort drained_writes stderr
      handleStdoutData_def handleStdoutEnd_def handleChildExit_def sendInput_def timer_fires_def signal_fires_def
      split_beta Let_def intro!: drained_failProtocol drained_handle_lines drained_finish up drained_onAbort input closures
      split: prod.split sum.split option.split)
qed

lemma drained_run: "drained t \<Longrightarrow> drained (snd (transport_run env es t))"
  by (induction es arbitrary: t) (auto simp: split_beta drained_step)

fun after_close :: "transport_code \<Rightarrow> emission \<Rightarrow> bool" where
  "after_close c (RequestThrew c') \<longleftrightarrow> c' = c"
| "after_close c (InputSent pid) \<longleftrightarrow> True"
| "after_close c (InputRejected pid f) \<longleftrightarrow> True"
| "after_close c x \<longleftrightarrow> False"

lemma closed_step:
  assumes "tr_closedError t = Some c" and "tr_pending t = []"
  shows "tr_closedError (snd (transport_step env e t)) = Some c \<and> list_all (after_close c) (fst (transport_step env e t))"
proof -
  have u: "assertUsable current t' = (Some c, [], t')" if "tr_closedError t' = Some c" for current t'
    using that by (simp add: assertUsable_def closed_code_def)
  have f: "finish code t' = ([], t')" if "tr_closedError t' = Some c" for code t'
    using that by (simp add: finish_def)
  show ?thesis
    by (cases e) (auto simp: assms f u handleStdoutData_def handleStdoutEnd_def handleChildExit_def request_def
      request_prologue_def sendInput_def timer_fires_def signal_fires_def onAbort_def startWrite_def settleWrite_def
      runCatch_def om_has_def enqueueWrite_fields Let_def
      split: option.split list.split write_owner.split)
qed

lemma closed_run:
  "tr_closedError t = Some c \<Longrightarrow> drained t \<Longrightarrow>
   tr_closedError (snd (transport_run env es t)) = Some c \<and> list_all (after_close c) (fst (transport_run env es t))"
proof (induction es arbitrary: t)
  case (Cons e es)
  let ?t = "snd (transport_step env e t)"
  have "tr_pending t = []" using Cons.prems by (simp add: drained_def)
  note step = closed_step [OF Cons.prems(1) this, of env e]
  with Cons.IH [of ?t] drained_step [OF Cons.prems(2), of env e] show ?case by (simp add: split_beta)
qed simp

text \<open>
  A closed transport is silent. Once a run has closed the transport with a code, whatever happens
  afterwards the transport stays closed with the same code, and all it still does is to throw that
  code at new requests and to settle inputs that were sent: no notification, no response, no write
  to the child, no second report of the closing.
\<close>

theorem closed_transport_is_silent:
  assumes "new_transport options = Some t0"
    and "transport_run env es t0 = (outs, t)"
    and "tr_closedError t = Some c"
    and "transport_run env es' t = (outs', t')"
  shows "tr_closedError t' = Some c \<and> (\<forall>x \<in> set outs'. after_close c x)"
proof -
  have "drained t0" using assms(1) by (auto simp: new_transport_def drained_def split: if_splits option.splits)
  from drained_run [OF this, of env es] have "drained t" by (simp add: assms(2))
  from closed_run [OF assms(3) this, of env es'] show ?thesis by (simp add: assms(4) list_all_iff)
qed

theorem closed_transport_is_silent_witness:
  "list_all (after_close Closed) (fst (transport_run sample_env
     [Request True abort_command JUndefined NoSignal False, StdoutData True [114, 10], RunCatch]
     (snd (transport_run sample_env sample_events (the (new_transport sample_options))))))"
proof -
  have n: "new_transport sample_options = Some (the (new_transport sample_options))" by code_simp
  have c: "tr_closedError (snd (transport_run sample_env sample_events (the (new_transport sample_options)))) = Some Closed"
    by code_simp
  show ?thesis
    unfolding list_all_iff
    by (rule closed_transport_is_silent [OF n surjective_pairing c surjective_pairing, THEN conjunct2])
qed

text \<open>
  A remote abort can escape. When the abort signal of a pending request fires after its process
  generation has gone stale, and the request asked for a remote abort, the listener calls
  \<open>request\<close>, which throws before it returns a promise, so the \<open>catch\<close> that is attached to its result does
  not apply: the error leaves the listener, after all pending requests have been rejected.
\<close>

theorem stale_remote_abort_escapes:
  assumes "tr_closedError t = None"
    and "om_get (tr_listeners t) pid = Some l" and "om_has (tr_pending t) (al_id l)"
    and "al_abortRemote l" and "al_command l \<noteq> ''abort''"
  shows "UncaughtThrow StaleGeneration \<in> set (fst (transport_step env (SignalFires False pid) t)) \<and>
    tr_closedError (snd (transport_step env (SignalFires False pid) t)) = Some StaleGeneration"
proof -
  let ?t = "t\<lparr>tr_listeners := om_delete (tr_listeners t) pid\<rparr>"
  let ?d = "drop_request (al_id l) pid ?t"
  have has: "om_has (tr_pending ?t) (al_id l)" using assms(3) by simp
  have c: "tr_closedError (snd (finish StaleGeneration ?d)) = Some StaleGeneration"
    using assms(1) by (simp add: finish_def)
  have "request_unsignalled env False abort_command JUndefined ?d =
     (fst (finish StaleGeneration ?d) @ [RequestThrew StaleGeneration], snd (finish StaleGeneration ?d))"
    using assms(1) c
    by (simp add: request_unsignalled_def request_prologue_def assertUsable_def split_beta closed_code_def)
  with assms c show ?thesis by (simp add: signal_fires_def onAbort_owned [OF has])
qed

definition sample_stale :: transport where
  "sample_stale = snd (transport_step sample_env
     (Request True (JObject [(''type'', JString ''get_state'')]) JUndefined SignalPending True)
     (the (new_transport sample_options)))"

theorem stale_remote_abort_escapes_witness:
  "UncaughtThrow StaleGeneration \<in> set (fst (transport_step sample_env (SignalFires False 0) sample_stale))"
proof -
  have h: "tr_closedError sample_stale = None"
    "om_get (tr_listeners sample_stale) 0 =
       Some \<lparr>al_id = ''pi-1-1'', al_command = ''get_state'', al_abortRemote = True\<rparr>"
    "om_has (tr_pending sample_stale) ''pi-1-1''" by code_simp+
  show ?thesis using stale_remote_abort_escapes [OF h(1,2)] h(3) by simp
qed

end
