(* ===== verification/Transport_Diagnostics.thy ===== *)
theory Transport_Diagnostics
  imports Rpc_Transport "HOL-Library.Sublist"
begin

text \<open>
  The captured standard error of a child process (web/server/pi-rpc-transport.ts): the cut of a text
  to a byte budget, which works on the UTF-8 bytes and steps back over continuation bytes, is the
  longest prefix that fits; the capture stays within its budget, and is complete as long as the
  truncation flag is not set.
\<close>

section \<open>Cutting UTF-8\<close>

lemma of_char_less [simp]: "(of_char c :: nat) < 256"
  by (metis of_char_of char_of_mod_256 mod_less_divisor of_nat_numeral nat_of_char_less_256)

lemma length_utf8_bytes: "length (utf8_bytes c) = utf8_width c"
  by (simp add: utf8_bytes_def utf8_width_def Let_def)

lemma length_utf8_encode: "length (utf8_encode s) = utf8_length s"
  by (induction s) (simp_all add: utf8_encode_def utf8_length_def length_utf8_bytes)

lemma utf8_encode_append: "utf8_encode (s @ t) = utf8_encode s @ utf8_encode t"
  by (simp add: utf8_encode_def)

lemma utf8_decode_char: "utf8_decode (utf8_bytes c @ bs) = c # utf8_decode bs"
proof (cases "(of_char c :: nat) < 128")
  case True
  then show ?thesis by (cases bs) (simp_all add: utf8_bytes_def Let_def unat_of_nat)
next
  case False
  let ?n = "of_char c :: nat"
  have n: "?n < 256" by simp
  then have "?n div 64 < 4" by (simp add: less_mult_imp_div_less)
  then have "192 + ?n div 64 < 256" "128 + ?n mod 64 < 256" by auto
  then have u: "unat (of_nat (192 + ?n div 64) :: byte) = 192 + ?n div 64"
    "unat (of_nat (128 + ?n mod 64) :: byte) = 128 + ?n mod 64"
    by (simp_all add: unat_of_nat del: of_nat_add)
  have "?n div 64 * 64 + ?n mod 64 = ?n" by simp
  then have "char_of (?n div 64 * 64 + ?n mod 64) = c" by (metis char_of_char)
  with False u show ?thesis by (simp add: utf8_bytes_def Let_def del: of_nat_add)
qed

lemma utf8_decode_encode [simp]: "utf8_decode (utf8_encode s) = s"
proof (induction s)
  case (Cons c s)
  then show ?case using utf8_decode_char [of c "utf8_encode s"] by (simp add: utf8_encode_def)
qed (simp add: utf8_encode_def)

definition continuation :: "byte \<Rightarrow> bool" where
  "continuation b \<longleftrightarrow> 128 \<le> unat b \<and> unat b < 192"

lemma utf8_bytes_shape:
  obtains b where "utf8_bytes c = [b]" "\<not> continuation b"
  | b b' where "utf8_bytes c = [b, b']" "\<not> continuation b" "continuation b'"
proof (cases "(of_char c :: nat) < 128")
  case True
  then show ?thesis
    by (intro that(1) [of "of_nat (of_char c)"]) (simp_all add: utf8_bytes_def continuation_def unat_of_nat)
next
  case False
  let ?n = "of_char c :: nat"
  have n: "?n < 256" by simp
  then have "?n div 64 < 4" by (simp add: less_mult_imp_div_less)
  then have "192 + ?n div 64 < 256" "128 + ?n mod 64 < 256" by auto
  then have u: "unat (of_nat (192 + ?n div 64) :: byte) = 192 + ?n div 64"
    "unat (of_nat (128 + ?n mod 64) :: byte) = 128 + ?n mod 64"
    by (simp_all add: unat_of_nat del: of_nat_add)
  have b: "\<not> continuation (of_nat (192 + ?n div 64))" unfolding continuation_def u by simp
  have b': "continuation (of_nat (128 + ?n mod 64))" unfolding continuation_def u by simp
  have "utf8_bytes c = [of_nat (192 + ?n div 64), of_nat (128 + ?n mod 64)]"
    unfolding utf8_bytes_def Let_def using False by (simp only: if_False)
  from that(2) [OF this b b'] show ?thesis .
qed

lemma back_to_boundary_Suc:
  "back_to_boundary encoded (Suc e) =
     (if continuation (encoded ! Suc e) then back_to_boundary encoded e else Suc e)"
  by (simp add: continuation_def)

lemma back_to_boundary_lead: "\<not> continuation (encoded ! e) \<Longrightarrow> back_to_boundary encoded e = e"
  by (cases e) (auto simp: continuation_def)

lemma back_to_boundary_char:
  assumes "utf8_length s \<le> e" and "e < utf8_length (s @ [c])"
  shows "back_to_boundary (utf8_encode (s @ c # r)) e = utf8_length s"
proof -
  let ?b = "utf8_length s" and ?enc = "utf8_encode (s @ c # r)"
  have enc: "?enc = utf8_encode s @ utf8_bytes c @ utf8_encode r" by (simp add: utf8_encode_def)
  have nth: "?enc ! (?b + k) = utf8_bytes c ! k" if "k < utf8_width c" for k
    using that by (simp add: enc nth_append length_utf8_encode length_utf8_bytes)
  have e: "e < ?b + utf8_width c" using assms(2) by (simp add: utf8_length_def)
  show ?thesis
  proof (cases c rule: utf8_bytes_shape)
    case (1 b)
    then have "utf8_width c = 1" using length_utf8_bytes [of c] by simp
    with e assms(1) have "e = ?b" by linarith
    then show ?thesis using nth [of 0] 1 \<open>utf8_width c = 1\<close> back_to_boundary_lead [of ?enc ?b] by simp
  next
    case (2 b b')
    then have w: "utf8_width c = 2" using length_utf8_bytes [of c] by simp
    with e assms(1) have "e = ?b \<or> e = Suc ?b" by linarith
    moreover have "back_to_boundary ?enc ?b = ?b"
      by (rule back_to_boundary_lead) (use nth [of 0] w 2 in simp)
    moreover have "continuation (?enc ! Suc ?b)" using nth [of 1] w 2 by simp
    ultimately show ?thesis 
      by (auto simp only: back_to_boundary_Suc if_True)
  qed
qed

lemma split_at_budget:
  "n < utf8_length s \<Longrightarrow> \<exists>p c r. s = p @ c # r \<and> utf8_length p \<le> n \<and> n < utf8_length (p @ [c])"
proof (induction s arbitrary: n)
  case (Cons c s)
  show ?case
  proof (cases "n < utf8_width c")
    case True
    then show ?thesis by (intro exI [of _ "[]"] exI [of _ c] exI [of _ s]) (simp add: utf8_length_def)
  next
    case False
    with Cons.prems have "n - utf8_width c < utf8_length s" by (simp add: utf8_length_def)
    from Cons.IH [OF this] obtain p d r where "s = p @ d # r" "utf8_length p \<le> n - utf8_width c"
      "n - utf8_width c < utf8_length (p @ [d])" by blast
    with False show ?thesis
      by (intro exI [of _ "c # p"] exI [of _ d] exI [of _ r]) (auto simp: utf8_length_def)
  qed
qed (simp add: utf8_length_def)

lemma truncateUtf8Prefix_cases:
  obtains (fits) "utf8_length s \<le> n" "truncateUtf8Prefix s n = s"
  | (cut) p c r where "s = p @ c # r" "utf8_length p \<le> n" "n < utf8_length (p @ [c])"
      "truncateUtf8Prefix s n = p"
proof (cases "utf8_length s \<le> n")
  case True
  then show ?thesis by (intro fits) (simp_all add: truncateUtf8Prefix_def length_utf8_encode)
next
  case False
  then obtain p c r where t: "s = p @ c # r" "utf8_length p \<le> n" "n < utf8_length (p @ [c])"
    using split_at_budget [of n s] by auto
  have "take (utf8_length p) (utf8_encode s) = utf8_encode p"
    by (simp add: t(1) utf8_encode_append length_utf8_encode)
  with False back_to_boundary_char [OF t(2,3), of r] have "truncateUtf8Prefix s n = p"
    by (simp add: truncateUtf8Prefix_def length_utf8_encode t(1) Let_def)
  with t show ?thesis by (rule cut)
qed

text \<open>
  The cut of a text to a byte budget, done on the encoded bytes, is a prefix of the text, needs at
  most the budget, and every other prefix of the text within the budget is a prefix of it; in
  particular no character is split.
\<close>

theorem truncateUtf8Prefix_longest:
  "prefix (truncateUtf8Prefix s n) s \<and> utf8_length (truncateUtf8Prefix s n) \<le> n \<and>
   (\<forall>q. prefix q s \<longrightarrow> utf8_length q \<le> n \<longrightarrow> prefix q (truncateUtf8Prefix s n))"
proof (cases rule: truncateUtf8Prefix_cases [of s n])
  case (cut p c r)
  have "prefix q p" if q: "prefix q s" "utf8_length q \<le> n" for q
  proof (rule ccontr)
    assume "\<not> prefix q p"
    with q(1) have "prefix (p @ [c]) q" unfolding cut(1)
      by (metis append_Cons append_Nil append_assoc prefixI prefix_order.eq_iff prefix_same_cases prefix_snoc)
    then have "utf8_length (p @ [c]) \<le> utf8_length q" by (auto simp: prefix_def utf8_length_def)
    with q(2) cut(3) show False by simp
  qed
  with cut show ?thesis by (auto intro: prefixI)
qed simp

theorem truncateUtf8Prefix_longest_witness:
  "prefix ''ab'' (truncateUtf8Prefix (''ab'' @ [CHR 0xE9] @ ''c'') 3)"
proof -
  have "prefix ''ab'' (''ab'' @ [CHR 0xE9] @ ''c'')" "utf8_length ''ab'' \<le> 3" by simp code_simp
  with truncateUtf8Prefix_longest [of "''ab'' @ [CHR 0xE9] @ ''c''" 3] show ?thesis by blast
qed

section \<open>The capture\<close>

definition capture_ok :: "transport \<Rightarrow> bool" where
  "capture_ok t \<longleftrightarrow> tr_stderrBytes t = utf8_length (tr_stderrPrefix t) \<and> tr_stderrBytes t \<le> tr_maxStderrBytes t"

lemma truncate_within: "utf8_length (truncateUtf8Prefix s n) \<le> n"
  by (cases rule: truncateUtf8Prefix_cases [of s n]) simp_all

lemma truncate_complete: "utf8_length s \<le> utf8_length (truncateUtf8Prefix s n) \<Longrightarrow> truncateUtf8Prefix s n = s"
  by (cases rule: truncateUtf8Prefix_cases [of s n]) (auto simp: utf8_length_def utf8_width_def split: if_splits)

lemma handleStderr_ok:
  assumes "capture_ok t"
  shows "capture_ok (handleStderrData s t)" and "capture_ok (handleStderrEnd s t)"
proof -
  have room: "utf8_length (truncateUtf8Prefix s (tr_maxStderrBytes t - tr_stderrBytes t)) \<le>
      tr_maxStderrBytes t - tr_stderrBytes t" by (rule truncate_within)
  show "capture_ok (handleStderrData s t)"
    using assms room by (auto simp: capture_ok_def handleStderrData_def Let_def)
  show "capture_ok (handleStderrEnd s t)"
    using assms room by (auto simp: capture_ok_def handleStderrEnd_def Let_def)
qed

lemma handleStderrData_limit [simp]: "tr_maxStderrBytes (handleStderrData s t) = tr_maxStderrBytes t"
  by (simp add: handleStderrData_def Let_def)

lemma handleStderrEnd_limit [simp]: "tr_maxStderrBytes (handleStderrEnd s t) = tr_maxStderrBytes t"
  by (simp add: handleStderrEnd_def Let_def)

lemma handleStderrData_complete:
  "\<not> tr_stderrTruncated (handleStderrData s t) \<Longrightarrow>
   \<not> tr_stderrTruncated t \<and> tr_stderrPrefix (handleStderrData s t) = tr_stderrPrefix t @ s"
  using truncate_complete [of s "tr_maxStderrBytes t - tr_stderrBytes t"]
  by (auto simp: handleStderrData_def Let_def split: if_splits)

lemma fold_stderr:
  "capture_ok t \<Longrightarrow> capture_ok (fold handleStderrData chunks t) \<and>
   tr_maxStderrBytes (fold handleStderrData chunks t) = tr_maxStderrBytes t \<and>
   (\<not> tr_stderrTruncated (fold handleStderrData chunks t) \<longrightarrow>
      \<not> tr_stderrTruncated t \<and> tr_stderrPrefix (fold handleStderrData chunks t) = tr_stderrPrefix t @ concat chunks)"
proof (induction chunks arbitrary: t)
  case (Cons s chunks)
  from Cons.IH [OF handleStderr_ok(1) [OF Cons.prems, of s]] handleStderrData_complete [of s t]
  show ?case by auto
qed simp

text \<open>
  The captured standard error stays within its budget: after any chunks and the end of the stream
  the byte count is that of the stored text and at most the configured limit; and as long as the
  truncation flag is not set the stored text is everything that the child has written.
\<close>

theorem stderr_capture_is_bounded:
  assumes "new_transport options = Some t0"
  shows "let t = fold handleStderrData chunks t0; t' = handleStderrEnd tail t in
     tr_stderrBytes t = utf8_length (tr_stderrPrefix t) \<and> tr_stderrBytes t \<le> tr_maxStderrBytes t0 \<and>
     tr_stderrBytes t' = utf8_length (tr_stderrPrefix t') \<and> tr_stderrBytes t' \<le> tr_maxStderrBytes t0 \<and>
     (\<not> tr_stderrTruncated t \<longrightarrow> tr_stderrPrefix t = concat chunks)"
proof -
  have "capture_ok t0 \<and> tr_stderrPrefix t0 = []" using assms
    by (auto simp: new_transport_def capture_ok_def utf8_length_def split: if_splits option.splits)
  with fold_stderr [of t0 chunks] handleStderr_ok(2) [of "fold handleStderrData chunks t0" tail]
  show ?thesis by (auto simp: Let_def capture_ok_def)
qed

definition small_capture :: transport_options where
  "small_capture = \<lparr>opt_sessionId = ''s'', opt_generation = JNumber (JInt 0), opt_requestTimeoutMs = JNull,
     opt_maxFrameBytes = JNumber (JInt 100), opt_maxStderrBytes = JNumber (JInt 4)\<rparr>"

theorem stderr_capture_is_bounded_witness:
  "tr_stderrPrefix (fold handleStderrData [''ab'', ''cd''] (the (new_transport small_capture))) = ''abcd''"
proof -
  have n: "new_transport small_capture = Some (the (new_transport small_capture))" by code_simp
  have u: "\<not> tr_stderrTruncated (fold handleStderrData [''ab'', ''cd''] (the (new_transport small_capture)))"
    by code_simp
  from stderr_capture_is_bounded [OF n, of "[''ab'', ''cd'']" "[]"] u show ?thesis by (simp add: Let_def)
qed

text \<open>
  What is stored after a truncation is not a prefix of the output: when a character did not fit, a
  later and shorter one is still appended, so the stored text has a gap.
\<close>

theorem stderr_capture_has_gaps:
  "tr_stderrPrefix (fold handleStderrData [''abc'' @ [CHR 0xE9], ''x''] (the (new_transport small_capture))) = ''abcx''"
  by code_simp

end
