(* ===== verification/Transport_Api.thy ===== *)
theory Transport_Api
  imports Rpc_Transport
begin

text \<open>
  The typed methods of \<open>PiRpcTransport\<close> (web/server/pi-rpc-transport.ts): each builds one command of the
  contract, awaits its response and returns its data. The methods are the constructors of
  \<open>api_call\<close>; options of the request do not matter here. Arguments that TypeScript allows to be
  undefined are JSON values. The message text of \<open>PiRpcRemoteError\<close>, which is redacted, is left out.
\<close>

datatype api_call =
    Prompt string json json
  | Steer string
  | FollowUp string
  | Abort
  | GetState
  | GetAvailableModels
  | SetModel string string
  | SetThinkingLevel string
  | GetAvailableThinkingLevels
  | Compact json
  | SetAutoRetry bool
  | Retry
  | AbortRetry
  | GetEntries json
  | ReplayHistory json
  | GetMessages
  | GetCommands
  | GetSessionStats

function api_command :: "api_call \<Rightarrow> json" where
  "api_command (Prompt message images streamingBehavior) =
     JObject [(''type'', JString ''prompt''), (''message'', JString message), (''images'', images),
       (''streamingBehavior'', streamingBehavior)]"
| "api_command (Steer message) = JObject [(''type'', JString ''steer''), (''message'', JString message)]"
| "api_command (FollowUp message) = JObject [(''type'', JString ''follow_up''), (''message'', JString message)]"
| "api_command Abort = JObject [(''type'', JString ''abort'')]"
| "api_command GetState = JObject [(''type'', JString ''get_state'')]"
| "api_command GetAvailableModels = JObject [(''type'', JString ''get_available_models'')]"
| "api_command (SetModel provider modelId) =
     JObject [(''type'', JString ''set_model''), (''provider'', JString provider), (''modelId'', JString modelId)]"
| "api_command (SetThinkingLevel level) =
     JObject [(''type'', JString ''set_thinking_level''), (''level'', JString level)]"
| "api_command GetAvailableThinkingLevels = JObject [(''type'', JString ''get_available_thinking_levels'')]"
| "api_command (Compact customInstructions) =
     JObject [(''type'', JString ''compact''), (''customInstructions'', customInstructions)]"
| "api_command (SetAutoRetry enabled) =
     JObject [(''type'', JString ''set_auto_retry''), (''enabled'', JBool enabled)]"
| "api_command Retry = api_command (SetAutoRetry True)"
| "api_command AbortRetry = JObject [(''type'', JString ''abort_retry'')]"
| "api_command (GetEntries since) = JObject [(''type'', JString ''get_entries''), (''since'', since)]"
| "api_command (ReplayHistory since) = api_command (GetEntries since)"
| "api_command GetMessages = JObject [(''type'', JString ''get_messages'')]"
| "api_command GetCommands = JObject [(''type'', JString ''get_commands'')]"
| "api_command GetSessionStats = JObject [(''type'', JString ''get_session_stats'')]"
  by pat_completeness auto

text \<open>Two methods call another one; the measure ranks them above it.\<close>

termination
  by (relation "measure (\<lambda>c. case c of Retry \<Rightarrow> 1 | ReplayHistory since \<Rightarrow> 1 | _ \<Rightarrow> 0)") simp_all

text \<open>\<open>successData\<close>: the failure names the command; the text of the error is left out.\<close>

definition successData :: "json \<Rightarrow> json \<Rightarrow> string + json" where
  "successData command response =
     (if member response ''success'' \<noteq> JBool True then Inl (str_of (member command ''type''))
      else Inr (member response ''data''))"

text \<open>What a method returns of the data.\<close>

fun api_result :: "api_call \<Rightarrow> json \<Rightarrow> json" where
  "api_result GetAvailableModels data = member data ''models''"
| "api_result GetAvailableThinkingLevels data = member data ''levels''"
| "api_result GetMessages data = member data ''messages''"
| "api_result GetCommands data = member data ''commands''"
| "api_result _ data = data"

definition api_outcome :: "api_call \<Rightarrow> json \<Rightarrow> string + json" where
  "api_outcome c response = bind_result (successData (api_command c) response) (\<lambda>data. Inr (api_result c data))"

section \<open>Arguments and results\<close>

lemma nul_char: "nul = CHR 0x00"
  by code_simp

fun good_arguments :: "api_call \<Rightarrow> bool" where
  "good_arguments (Prompt message images streamingBehavior) \<longleftrightarrow>
     is_optional_images images \<and>
     streamingBehavior \<in> {JUndefined, JString ''steer'', JString ''followUp''}"
| "good_arguments (SetModel provider modelId) \<longleftrightarrow>
     isNonEmptyString (JString provider) \<and> isNonEmptyString (JString modelId)"
| "good_arguments (SetThinkingLevel level) \<longleftrightarrow> level \<in> set PI_THINKING_LEVELS"
| "good_arguments (Compact customInstructions) \<longleftrightarrow> customInstructions = JUndefined \<or> is_js_string customInstructions"
| "good_arguments (GetEntries since) \<longleftrightarrow> isOptionalNonEmptyString since"
| "good_arguments (ReplayHistory since) \<longleftrightarrow> isOptionalNonEmptyString since"
| "good_arguments c \<longleftrightarrow> True"

fun good_result :: "api_call \<Rightarrow> json \<Rightarrow> bool" where
  "good_result GetState v \<longleftrightarrow> isPiRpcSessionState v"
| "good_result GetAvailableModels v \<longleftrightarrow> is_js_array v \<and> list_all isPiModel (elems_of v)"
| "good_result (SetModel provider modelId) v \<longleftrightarrow> isPiModel v"
| "good_result GetAvailableThinkingLevels v \<longleftrightarrow> is_js_array v \<and> list_all isThinkingLevel (elems_of v)"
| "good_result (Compact customInstructions) v \<longleftrightarrow> is_record v"
| "good_result (GetEntries since) v \<longleftrightarrow>
     is_record v \<and> isRecordArray (member v ''entries'') \<and> is_leaf_id (member v ''leafId'')"
| "good_result (ReplayHistory since) v \<longleftrightarrow>
     is_record v \<and> isRecordArray (member v ''entries'') \<and> is_leaf_id (member v ''leafId'')"
| "good_result GetMessages v \<longleftrightarrow> isRecordArray v"
| "good_result GetCommands v \<longleftrightarrow> isRecordArray v"
| "good_result GetSessionStats v \<longleftrightarrow> is_record v"
| "good_result c v \<longleftrightarrow> v = JUndefined"

text \<open>
  The typed methods send valid commands: with a valid identifier, the command that a method sends is
  accepted by the guard of the contract, and so is written to the child, exactly when the arguments
  are as the contract declares them (a model name, for instance, may not be empty).
\<close>

theorem api_commands_are_valid:
  assumes "isNonEmptyString (JString i)"
  shows "isPiRpcCommand (with_id (api_command c) i) \<longleftrightarrow> good_arguments c"
  using assms
  by (cases c) (simp_all add: isPiRpcCommand_def with_id_def member_def hasOnlyKeys_def object_keys_def
      hasValidOptionalId_def NO_ARGUMENT_COMMANDS_def isNonEmptyString_def is_optional_images_def js_includes_def nul_char
      isThinkingLevel_def isOptionalNonEmptyString_def)

theorem api_commands_are_valid_witness:
  "isPiRpcCommand (with_id (api_command (Prompt ''hi'' JUndefined (JString ''steer''))) ''pi-1-1'')"
proof -
  have i: "isNonEmptyString (JString ''pi-1-1'')" by code_simp
  have g: "good_arguments (Prompt ''hi'' JUndefined (JString ''steer''))" by code_simp
  from api_commands_are_valid [OF i, of "Prompt ''hi'' JUndefined (JString ''steer'')"] g show ?thesis by simp
qed

text \<open>
  C40. The typed methods return what they declare: a response of the contract to the command of a method
  either fails with that command or yields a result of the declared type of the method (a session
  state, a list of models, nothing, ...).
\<close>

theorem api_results_are_typed:
  assumes "isPiRpcResponse v" and "member v ''command'' = member (api_command c) ''type''"
  shows "case api_outcome c v of
      Inl command \<Rightarrow> member v ''success'' = JBool False \<and> JString command = member v ''command''
    | Inr r \<Rightarrow> member v ''success'' = JBool True \<and> good_result c r"
proof -
  have b: "is_js_boolean (member v ''success'')" using assms(1) by (simp add: isPiRpcResponse_def split: if_splits)
  have t: "\<exists>s. member (api_command c) ''type'' = JString s" by (cases c) (simp_all add: member_def)
  have data: "(if ''data'' \<in> set (object_keys v) then member v ''data'' else JUndefined) = member v ''data''"
    using member_in_keys [of v "''data''"] by (cases "member v ''data'' = JUndefined") auto
  show ?thesis
  proof (cases "member v ''success'' = JBool True")
    case True
    then have "hasValidSuccessData (str_of (member v ''command'')) (member v ''data'')"
      using assms(1) by (simp add: isPiRpcResponse_def data split: if_splits)
    then have "good_result c (api_result c (member v ''data''))"
      unfolding assms(2)
      by (cases c) (simp_all add: member_def [of "JObject m" for m] hasValidSuccessData_def NO_DATA_SUCCESS_COMMANDS_def)
    with True show ?thesis by (simp add: api_outcome_def successData_def)
  next
    case False
    with b have "member v ''success'' = JBool False" by (auto simp: is_js_boolean_iff)
    with False t show ?thesis by (auto simp: api_outcome_def successData_def assms(2))
  qed
qed

theorem api_results_are_typed_witness:
  "isRecordArray (JArray [JObject []]) \<and>
   api_outcome GetMessages (JObject [(''type'', JString ''response''), (''command'', JString ''get_messages''),
     (''success'', JBool True), (''data'', JObject [(''messages'', JArray [JObject []])])]) = Inr (JArray [JObject []])"
proof -
  let ?v = "JObject [(''type'', JString ''response''), (''command'', JString ''get_messages''),
     (''success'', JBool True), (''data'', JObject [(''messages'', JArray [JObject []])])]"
  have r: "isPiRpcResponse ?v" by code_simp
  have c: "member ?v ''command'' = member (api_command GetMessages) ''type''" by code_simp
  have o: "api_outcome GetMessages ?v = Inr (JArray [JObject []])" by code_simp
  from api_results_are_typed [OF r c] show ?thesis unfolding o by simp
qed

end
