(* ===== verification/Disk_Scan.thy ===== *)
theory Disk_Scan
  imports Prelude
begin

text \<open>
  The walk over a tenant root (\<open>scanPath\<close> of web/server/user-disk-quota.ts): symbolic links are not
  followed, and files and directories that are met again under another name are not counted again.

  A \<open>view\<close> is what the walk sees of a path: the answers of \<open>lstat\<close> and \<open>readdir\<close>, one level after the
  other. Inodes are the pairs of device and inode number. The flag of a directory says whether the second
  \<open>lstat\<close>, after the enumeration, still finds the same directory.
\<close>

type_synonym inode = "int \<times> int"

datatype view =
    Missing
  | StatError
  | SymbolicLink
  | RegularFile inode int
  | OtherKind
  | Directory inode listing bool
and listing =
    Vanished
  | ReadError
  | Entries "view list"

datatype io_error = LstatFailed | ReaddirFailed

record seen =
  seenFiles :: "inode list"
  seenDirectories :: "inode list"

fun scanPath :: "view \<Rightarrow> seen \<Rightarrow> io_error + (int \<times> seen)"
  and scanEntries :: "view list \<Rightarrow> seen \<Rightarrow> io_error + (int \<times> seen)" where
  "scanPath Missing s = Inr (0, s)"
| "scanPath StatError s = Inl LstatFailed"
| "scanPath SymbolicLink s = Inr (0, s)"
| "scanPath (RegularFile key bytes) s =
     (if key \<in> set (seenFiles s) then Inr (0, s)
      else Inr (bytes, s\<lparr>seenFiles := key # seenFiles s\<rparr>))"
| "scanPath OtherKind s = Inr (0, s)"
| "scanPath (Directory key listing same) s =
     (if key \<in> set (seenDirectories s) then Inr (0, s)
      else
        case listing of
          Vanished \<Rightarrow> Inr (0, s)
        | ReadError \<Rightarrow> Inl ReaddirFailed
        | Entries entries \<Rightarrow>
            if \<not> same then Inr (0, s)
            else scanEntries entries (s\<lparr>seenDirectories := key # seenDirectories s\<rparr>))"
| "scanEntries [] s = Inr (0, s)"
| "scanEntries (v # vs) s =
     bind_result (scanPath v s) (\<lambda>(bytes, s'). bind_result (scanEntries vs s') (\<lambda>(rest, s''). Inr (bytes + rest, s'')))"

text \<open>The loop of \<open>reconcileFresh\<close> over the roots.\<close>

definition scan_roots :: "view list \<Rightarrow> io_error + int" where
  "scan_roots roots = bind_result (scanEntries roots \<lparr>seenFiles = [], seenDirectories = []\<rparr>) (\<lambda>(bytes, _). Inr bytes)"

section \<open>What there is to count\<close>

text \<open>The regular files of a view, wherever they are met, and its directories.\<close>

fun files :: "view \<Rightarrow> inode set" and files_of :: "view list \<Rightarrow> inode set" where
  "files (RegularFile key bytes) = {key}"
| "files (Directory key listing same) =
     (case listing of Entries vs \<Rightarrow> if same then files_of vs else {} | _ \<Rightarrow> {})"
| "files v = {}"
| "files_of [] = {}"
| "files_of (v # vs) = files v \<union> files_of vs"

text \<open>
  A view is faithful to a file system when a file has the size of its inode, a directory the entries
  of its inode, and no directory lies below itself.
\<close>

fun faithful :: "(inode \<Rightarrow> int) \<Rightarrow> (inode \<Rightarrow> view list) \<Rightarrow> view \<Rightarrow> bool"
  and faithful_all :: "(inode \<Rightarrow> int) \<Rightarrow> (inode \<Rightarrow> view list) \<Rightarrow> view list \<Rightarrow> bool" where
  "faithful size_of entries_of (RegularFile key bytes) \<longleftrightarrow> bytes = size_of key"
| "faithful size_of entries_of (Directory key listing same) \<longleftrightarrow>
     (case listing of
        Entries vs \<Rightarrow> same \<and> vs = entries_of key \<and> faithful_all size_of entries_of vs
      | Vanished \<Rightarrow> False | ReadError \<Rightarrow> False)"
| "faithful size_of entries_of StatError \<longleftrightarrow> False"
| "faithful size_of entries_of v \<longleftrightarrow> True"
| "faithful_all size_of entries_of [] \<longleftrightarrow> True"
| "faithful_all size_of entries_of (v # vs) \<longleftrightarrow>
     faithful size_of entries_of v \<and> faithful_all size_of entries_of vs"

fun dirs :: "view \<Rightarrow> inode set" and dirs_of :: "view list \<Rightarrow> inode set" where
  "dirs (Directory key listing same) =
     insert key (case listing of Entries vs \<Rightarrow> dirs_of vs | _ \<Rightarrow> {})"
| "dirs v = {}"
| "dirs_of [] = {}"
| "dirs_of (v # vs) = dirs v \<union> dirs_of vs"

text \<open>A faithful directory is not below itself: its view would have to contain itself.\<close>

lemma dirs_smaller:
  "faithful size_of entries_of v \<Longrightarrow> key \<in> dirs v \<Longrightarrow> size_list size (entries_of key) < size v"
  "faithful_all size_of entries_of vs \<Longrightarrow> key \<in> dirs_of vs \<Longrightarrow> size_list size (entries_of key) < size_list size vs"
proof (induction v and vs rule: dirs_dirs_of.induct)
  case (1 k listing same)
  then show ?case by (cases listing) auto
qed auto


lemma files_below:
  "faithful size_of entries_of v \<Longrightarrow> key \<in> dirs v \<Longrightarrow> files_of (entries_of key) \<subseteq> files v"
  "faithful_all size_of entries_of vs \<Longrightarrow> key \<in> dirs_of vs \<Longrightarrow> files_of (entries_of key) \<subseteq> files_of vs"
proof (induction v and vs rule: dirs_dirs_of.induct)
  case (1 k listing same)
  then show ?case by (cases listing) auto
qed auto

lemma finite_files [simp]: "finite (files v)" "finite (files_of vs)"
proof (induction v and vs rule: files_files_of.induct)
  case (2 key listing same)
  then show ?case by (cases listing) auto
qed auto

text \<open>Directories that were met before have all their files counted.\<close>

definition covered :: "(inode \<Rightarrow> view list) \<Rightarrow> inode set \<Rightarrow> seen \<Rightarrow> bool" where
  "covered entries_of ds s \<longleftrightarrow>
     (\<forall>d \<in> ds. d \<in> set (seenDirectories s) \<longrightarrow> files_of (entries_of d) \<subseteq> set (seenFiles s))"

definition counts :: "(inode \<Rightarrow> int) \<Rightarrow> inode set \<Rightarrow> inode set \<Rightarrow> seen \<Rightarrow> io_error + (int \<times> seen) \<Rightarrow> bool" where
  "counts size_of fs ds s r \<longleftrightarrow>
     (\<exists>n s'. r = Inr (n, s') \<and> n = sum size_of (fs - set (seenFiles s)) \<and>
        set (seenFiles s') = set (seenFiles s) \<union> fs \<and> set (seenDirectories s') \<subseteq> set (seenDirectories s) \<union> ds)"

lemma counts_nothing: "fs \<subseteq> set (seenFiles s) \<Longrightarrow> counts size_of fs ds s (Inr (0, s))"
  by (auto simp: counts_def Diff_eq_empty_iff [THEN iffD2])

lemma sum_split:
  fixes f :: "inode \<Rightarrow> int"
  assumes "finite A" and "finite B"
  shows "sum f (A - S) + sum f (B - (S \<union> A)) = sum f ((A \<union> B) - S)"
proof -
  have "(A \<union> B) - S = (A - S) \<union> (B - (S \<union> A))" by blast
  moreover have "(A - S) \<inter> (B - (S \<union> A)) = {}" by blast
  ultimately show ?thesis using assms by (simp add: sum.union_disjoint)
qed

lemma counts_sequence:
  assumes "counts size_of fs ds s (scanPath v s)" and "finite fs" "finite gs"
    and "\<And>n s'. scanPath v s = Inr (n, s') \<Longrightarrow> counts size_of gs es s' (scanEntries vs s')"
  shows "counts size_of (fs \<union> gs) (ds \<union> es) s (scanEntries (v # vs) s)"
proof -
  from assms(1) obtain n s' where p: "scanPath v s = Inr (n, s')" "n = sum size_of (fs - set (seenFiles s))"
    "set (seenFiles s') = set (seenFiles s) \<union> fs" "set (seenDirectories s') \<subseteq> set (seenDirectories s) \<union> ds"
    by (auto simp: counts_def)
  from assms(4) [OF p(1)] obtain m s'' where q: "scanEntries vs s' = Inr (m, s'')"
    "m = sum size_of (gs - set (seenFiles s'))" "set (seenFiles s'') = set (seenFiles s') \<union> gs"
    "set (seenDirectories s'') \<subseteq> set (seenDirectories s') \<union> es"
    by (auto simp: counts_def)
  have "n + m = sum size_of ((fs \<union> gs) - set (seenFiles s))"
    using sum_split [OF assms(2,3), of size_of "set (seenFiles s)"] by (simp add: p q)
  with p q show ?thesis by (auto simp: counts_def)
qed

lemma scan_counts:
  "faithful size_of entries_of v \<Longrightarrow> covered entries_of (dirs v) s \<Longrightarrow>
     counts size_of (files v) (dirs v) s (scanPath v s)"
  "faithful_all size_of entries_of vs \<Longrightarrow> covered entries_of (dirs_of vs) s \<Longrightarrow>
     counts size_of (files_of vs) (dirs_of vs) s (scanEntries vs s)"
proof (induction v s and vs s rule: scanPath_scanEntries.induct)
  case (6 key listing same s)
  then obtain vs where l: "listing = Entries vs" "same" "vs = entries_of key" "faithful_all size_of entries_of vs"
    by (cases listing) auto
  show ?case
  proof (cases "key \<in> set (seenDirectories s)")
    case True
    with 6(3) l have "files_of vs \<subseteq> set (seenFiles s)" by (auto simp: covered_def)
    with True l show ?thesis by (simp add: counts_nothing)
  next
    case False
    let ?s = "s\<lparr>seenDirectories := key # seenDirectories s\<rparr>"
    have "key \<notin> dirs_of vs" using dirs_smaller(2) [OF l(4), of key] l(3) by auto
    with 6(3) l have "covered entries_of (dirs_of vs) ?s" by (auto simp: covered_def)
    from 6(1) [OF False l(1) _ l(4) this] l(2) have "counts size_of (files_of vs) (dirs_of vs) ?s (scanEntries vs ?s)"
      by simp
    with False l show ?thesis by (auto simp: counts_def)
  qed
next
  case (8 v vs s)
  have v: "counts size_of (files v) (dirs v) s (scanPath v s)"
    using 8 by (auto simp: covered_def)
  have "counts size_of (files_of vs) (dirs_of vs) s' (scanEntries vs s')" if p: "scanPath v s = Inr (n, s')" for n s'
  proof (rule "8.IH"(2))
    show "faithful_all size_of entries_of vs" using 8 by simp
    have s': "set (seenFiles s') = set (seenFiles s) \<union> files v"
      "set (seenDirectories s') \<subseteq> set (seenDirectories s) \<union> dirs v" using v p by (auto simp: counts_def)
    show "covered entries_of (dirs_of vs) s'"
      unfolding covered_def
    proof (intro ballI impI)
      fix d assume d: "d \<in> dirs_of vs" "d \<in> set (seenDirectories s')"
      then consider "d \<in> set (seenDirectories s)" | "d \<in> dirs v" using s'(2) by blast
      then show "files_of (entries_of d) \<subseteq> set (seenFiles s')"
      proof cases
        case 1
        with 8(4) d(1) have "files_of (entries_of d) \<subseteq> set (seenFiles s)" by (auto simp: covered_def)
        then show ?thesis using s'(1) by blast
      next
        case 2
        with 8(3) files_below(1) [of size_of entries_of v d] s'(1) show ?thesis by auto
      qed
    qed
  qed
  from counts_sequence [OF v _ _ this] show ?case by simp
qed (auto simp: counts_def insert_absorb insert_Diff_if)

text \<open>
  The walk over the roots counts every regular file exactly once: on views that are faithful to a
  file system it ends without an error, and the number of bytes is the sum of the sizes over the
  set of inodes found below the roots, however many hard links, repeated roots and nested roots
  lead to them.
\<close>

theorem scan_counts_each_file_once:
  assumes "faithful_all size_of entries_of roots"
  shows "scan_roots roots = Inr (sum size_of (files_of roots))"
  using scan_counts(2) [OF assms, of "\<lparr>seenFiles = [], seenDirectories = []\<rparr>"]
  by (auto simp: covered_def counts_def scan_roots_def)

theorem scan_counts_each_file_once_witness:
  "scan_roots [Directory (1, 1) (Entries [RegularFile (1, 2) 10, RegularFile (1, 3) 5]) True, SymbolicLink,
     RegularFile (1, 3) 5, Directory (1, 1) (Entries [RegularFile (1, 2) 10, RegularFile (1, 3) 5]) True] = Inr 15"
proof -
  let ?e = "[RegularFile (1, 2) 10, RegularFile (1, 3) 5]"
  let ?r = "[Directory (1, 1) (Entries ?e) True, SymbolicLink, RegularFile (1, 3) 5, Directory (1, 1) (Entries ?e) True]"
  let ?size = "(\<lambda>k. if k = (1, 2) then 10 else 5) :: inode \<Rightarrow> int"
  have "faithful_all ?size (\<lambda>_. ?e) ?r" by simp
  moreover have "files_of ?r = {(1, 2), (1, 3)}" by auto
  ultimately have "scan_roots ?r = Inr (sum ?size {(1, 2), (1, 3)})" using scan_counts_each_file_once by metis
  then show ?thesis by simp
qed

end
