(* ===== verification/Disk_Quota.thy ===== *)
theory Disk_Quota
  imports Leases Disk_Scan
begin

text \<open>
  \<open>UserDiskQuota\<close> (web/server/user-disk-quota.ts): admission of writes and launches against a cached disk
  usage that is reconciled with the file system in the background.

  The closures of a reservation are an entry of \<open>q_reservations\<close>, addressed by its position. A
  reconciliation spans events: \<open>reconcile\<close> starts the walk (the versions it captured are \<open>q_scan\<close>) and
  \<open>scan_finished\<close> is the end of the walk, which publishes its result or starts the walk again; other
  calls may come in between. The clock is an argument. \<open>resolve\<close> of node:path is a parameter of
  \<open>addRoot\<close> and \<open>removeRoot\<close>.
\<close>

section \<open>State\<close>

definition DEFAULT_USER_DISK_MONITOR_INTERVAL_MS :: int where
  "DEFAULT_USER_DISK_MONITOR_INTERVAL_MS = 30000"

definition DEFAULT_USER_DISK_CACHE_TTL_MS :: int where
  "DEFAULT_USER_DISK_CACHE_TTL_MS = DEFAULT_USER_DISK_MONITOR_INTERVAL_MS * 2"

datatype unavailable = Uninitialized | Stale

datatype quota_error = DiskQuotaExceeded int int int | DiskQuotaStateUnavailable unavailable | QuotaTypeError

record usage_snapshot =
  usedBytes :: int
  reservedBytes :: int
  maxBytes :: int
  availableBytes :: int
  scannedAt :: int

record reservation =
  rsv_bytes :: int
  rsv_settled :: bool

record scan_start =
  sc_rootVersion :: nat
  sc_writesAtStart :: nat
  sc_roots :: "string list"

record quota =
  q_roots :: "string list"
  q_maxBytes :: int
  q_reservedHeadroomBytes :: int
  q_cacheTtlMs :: int
  q_cachedUsage :: "(int \<times> int) option"
  q_pendingReservationBytes :: int
  q_invalidatedUsageFloorBytes :: int
  q_rootVersion :: nat
  q_writeVersion :: nat
  q_scan :: "scan_start option"
  q_reservations :: "reservation list"

definition nonNegativeSafeInteger :: "json \<Rightarrow> quota_error + int" where
  "nonNegativeSafeInteger v =
     (if \<not> is_safe_integer v \<or> number_of v < 0 then Inl QuotaTypeError else Inr (number_of v))"

definition new_quota :: "json \<Rightarrow> json \<Rightarrow> json \<Rightarrow> quota_error + quota" where
  "new_quota limit headroom cacheTtlMs =
     bind_result (nonNegativeSafeInteger limit) (\<lambda>m.
     bind_result (nonNegativeSafeInteger headroom) (\<lambda>h.
       if m < 1 \<or> h \<ge> m then Inl QuotaTypeError
       else bind_result
         (nonNegativeSafeInteger
            (if cacheTtlMs = JUndefined \<or> cacheTtlMs = JNull then JNumber (JInt DEFAULT_USER_DISK_CACHE_TTL_MS)
             else cacheTtlMs)) (\<lambda>ttl.
         Inr \<lparr>q_roots = [], q_maxBytes = m, q_reservedHeadroomBytes = h, q_cacheTtlMs = ttl, q_cachedUsage = None,
              q_pendingReservationBytes = 0, q_invalidatedUsageFloorBytes = 0, q_rootVersion = 0,
              q_writeVersion = 0, q_scan = None, q_reservations = []\<rparr>)))"

section \<open>Roots\<close>

definition invalidate :: "quota \<Rightarrow> quota" where
  "invalidate q =
     (case q_cachedUsage q of
        Some (bytes, _) \<Rightarrow>
          q\<lparr>q_invalidatedUsageFloorBytes := max (q_invalidatedUsageFloorBytes q) bytes, q_cachedUsage := None\<rparr>
      | None \<Rightarrow> q)"

definition addRoot :: "(string \<Rightarrow> string) \<Rightarrow> string \<Rightarrow> quota \<Rightarrow> quota" where
  "addRoot resolve path q =
     (let normalized = resolve path in
      if normalized \<in> set (q_roots q) then q
      else invalidate (q\<lparr>q_roots := q_roots q @ [normalized], q_rootVersion := q_rootVersion q + 1\<rparr>))"

definition removeRoot :: "(string \<Rightarrow> string) \<Rightarrow> string \<Rightarrow> quota \<Rightarrow> quota" where
  "removeRoot resolve path q =
     (if resolve path \<in> set (q_roots q)
      then invalidate (q\<lparr>q_roots := filter (\<lambda>r. r \<noteq> resolve path) (q_roots q), q_rootVersion := q_rootVersion q + 1\<rparr>)
      else q)"

section \<open>Admission\<close>

definition requireCachedUsage :: "int \<Rightarrow> quota \<Rightarrow> quota_error + (int \<times> int)" where
  "requireCachedUsage now q =
     (case q_cachedUsage q of
        None \<Rightarrow> Inl (DiskQuotaStateUnavailable Uninitialized)
      | Some cached \<Rightarrow>
          if now - snd cached > q_cacheTtlMs q then Inl (DiskQuotaStateUnavailable Stale) else Inr cached)"

definition snapshotFrom :: "quota \<Rightarrow> int \<Rightarrow> int \<Rightarrow> usage_snapshot" where
  "snapshotFrom q used at =
     \<lparr>usedBytes = used, reservedBytes = q_pendingReservationBytes q, maxBytes = q_maxBytes q,
      availableBytes = max 0 (q_maxBytes q - used - q_pendingReservationBytes q), scannedAt = at\<rparr>"

definition snapshot :: "int \<Rightarrow> quota \<Rightarrow> quota_error + usage_snapshot" where
  "snapshot now q = bind_result (requireCachedUsage now q) (\<lambda>(bytes, at). Inr (snapshotFrom q bytes at))"

definition assertLaunchAllowed :: "int \<Rightarrow> quota \<Rightarrow> quota_error + usage_snapshot" where
  "assertLaunchAllowed now q =
     bind_result (snapshot now q) (\<lambda>s.
       if usedBytes s + reservedBytes s > q_maxBytes q - q_reservedHeadroomBytes q
       then Inl (DiskQuotaExceeded (usedBytes s + reservedBytes s) (q_reservedHeadroomBytes q) (q_maxBytes q))
       else Inr s)"

definition isOverQuota :: "usage_snapshot \<Rightarrow> bool" where
  "isOverQuota s \<longleftrightarrow> usedBytes s + reservedBytes s > maxBytes s"

text \<open>\<open>reserve\<close>: the position of the new reservation.\<close>

definition reserve :: "json \<Rightarrow> int \<Rightarrow> quota \<Rightarrow> (quota_error + nat) \<times> quota" where
  "reserve bytes now q =
     (case nonNegativeSafeInteger bytes of
        Inl e \<Rightarrow> (Inl e, q)
      | Inr requested \<Rightarrow>
          (case requireCachedUsage now q of
             Inl e \<Rightarrow> (Inl e, q)
           | Inr (used, _) \<Rightarrow>
               if used + q_pendingReservationBytes q + requested > q_maxBytes q
               then (Inl (DiskQuotaExceeded (used + q_pendingReservationBytes q) requested (q_maxBytes q)), q)
               else
                 (Inr (length (q_reservations q)),
                  q\<lparr>q_pendingReservationBytes := q_pendingReservationBytes q + requested,
                    q_reservations := q_reservations q @ [\<lparr>rsv_bytes = requested, rsv_settled = False\<rparr>]\<rparr>)))"

definition settle :: "nat \<times> bool \<Rightarrow> quota \<Rightarrow> quota" where
  "settle rc q =
     (let r = fst rc; committed = snd rc in
      if r \<ge> length (q_reservations q) \<or> rsv_settled (q_reservations q ! r) then q
      else
        let requested = rsv_bytes (q_reservations q ! r);
            q1 = q\<lparr>q_reservations := (q_reservations q)[r := \<lparr>rsv_bytes = requested, rsv_settled = True\<rparr>],
                   q_pendingReservationBytes := max 0 (q_pendingReservationBytes q - requested)\<rparr>
        in if committed then
             (case q_cachedUsage q1 of
                Some (bytes, at) \<Rightarrow> q1\<lparr>q_cachedUsage := Some (bytes + requested, at), q_writeVersion := q_writeVersion q1 + 1\<rparr>
              | None \<Rightarrow> q1\<lparr>q_invalidatedUsageFloorBytes := q_invalidatedUsageFloorBytes q1 + requested,
                           q_writeVersion := q_writeVersion q1 + 1\<rparr>)
           else q1)"

text \<open>
  \<open>withDiskReservation\<close> and its synchronous counterpart, for an operation that may change the state of
  the quota and may fail: the reservation is committed in both cases.
\<close>

datatype 'e managed_error = Refused quota_error | OperationFailed 'e

definition withDiskReservation ::
  "json \<Rightarrow> int \<Rightarrow> (quota \<Rightarrow> ('e + 'a) \<times> quota) \<Rightarrow> quota \<Rightarrow> ('e managed_error + 'a) \<times> quota" where
  "withDiskReservation bytes now operation q =
     (case reserve bytes now q of
        (Inl e, q1) \<Rightarrow> (Inl (Refused e), q1)
      | (Inr r, q1) \<Rightarrow>
          (case operation q1 of
             (Inr result, q2) \<Rightarrow> (Inr result, settle (r, True) q2)
           | (Inl error, q2) \<Rightarrow> (Inl (OperationFailed error), settle (r, True) q2)))"

section \<open>Reconciliation\<close>

definition begin_walk :: "quota \<Rightarrow> quota" where
  "begin_walk q =
     q\<lparr>q_scan := Some \<lparr>sc_rootVersion = q_rootVersion q, sc_writesAtStart = q_writeVersion q, sc_roots = q_roots q\<rparr>\<rparr>"

definition reconcile :: "quota \<Rightarrow> quota" where
  "reconcile q = (if q_scan q \<noteq> None then q else begin_walk q)"

definition scan_finished :: "io_error + int \<Rightarrow> int \<Rightarrow> quota \<Rightarrow> usage_snapshot option \<times> quota" where
  "scan_finished result now q =
     (case q_scan q of
        None \<Rightarrow> (None, q)
      | Some sc \<Rightarrow>
          (case result of
             Inl _ \<Rightarrow> (None, q\<lparr>q_scan := None\<rparr>)
           | Inr walked \<Rightarrow>
               if sc_rootVersion sc \<noteq> q_rootVersion q then (None, begin_walk q)
               else
                 let written = sc_writesAtStart sc \<noteq> q_writeVersion q;
                     used1 = (case q_cachedUsage q of
                                Some (bytes, _) \<Rightarrow> if written then max walked bytes else walked
                              | None \<Rightarrow> walked);
                     used = (if written then max used1 (q_invalidatedUsageFloorBytes q) else used1)
                 in (Some (snapshotFrom q used now),
                     q\<lparr>q_cachedUsage := Some (used, now), q_invalidatedUsageFloorBytes := 0, q_scan := None\<rparr>)))"

section \<open>Monitoring\<close>

text \<open>
  A monitor: whether it was stopped, and whether a check is in flight. \<open>check_finished\<close> is the
  continuation of \<open>checkNow\<close>; its result says whether \<open>onOverQuota\<close> is called.
\<close>

record monitor =
  mon_stopped :: bool
  mon_checkInFlight :: bool

definition startMonitoring :: "json \<Rightarrow> quota \<Rightarrow> quota_error + (monitor \<times> quota)" where
  "startMonitoring intervalMs q =
     bind_result (nonNegativeSafeInteger intervalMs) (\<lambda>i.
       if i < 1 then Inl QuotaTypeError
       else Inr (\<lparr>mon_stopped = False, mon_checkInFlight = True\<rparr>, reconcile q))"

definition checkNow :: "monitor \<Rightarrow> quota \<Rightarrow> monitor \<times> quota" where
  "checkNow m q = (if mon_checkInFlight m then (m, q) else (m\<lparr>mon_checkInFlight := True\<rparr>, reconcile q))"

definition check_finished :: "usage_snapshot option \<Rightarrow> monitor \<Rightarrow> bool \<times> monitor" where
  "check_finished result m =
     ((case result of Some s \<Rightarrow> \<not> mon_stopped m \<and> isOverQuota s | None \<Rightarrow> False),
      m\<lparr>mon_checkInFlight := False\<rparr>)"

definition stopMonitor :: "monitor \<Rightarrow> monitor" where
  "stopMonitor m = m\<lparr>mon_stopped := True\<rparr>"

section \<open>Reservations are settled once\<close>

lemma settle_again: "r < length (q_reservations q) \<Longrightarrow> rsv_settled (q_reservations q ! r) \<Longrightarrow> settle (r, c) q = q"
  by (simp add: settle_def)

lemma length_settle [simp]: "length (q_reservations (settle rc q)) = length (q_reservations q)"
  by (simp add: settle_def Let_def split: option.split)

lemma settled_nth:
  "r < length (q_reservations q) \<Longrightarrow>
   rsv_settled (q_reservations (settle rc q) ! r) \<longleftrightarrow> r = fst rc \<or> rsv_settled (q_reservations q ! r)"
  by (auto simp: settle_def Let_def nth_list_update split: option.split)

interpretation disk_reservation: settle_once settle
  "\<lambda>rc q. fst rc < length (q_reservations q) \<and> rsv_settled (q_reservations q ! fst rc)"
  "\<lambda>rc q. fst rc < length (q_reservations q)"
proof
  fix rc :: "nat \<times> bool" and q :: quota
  show "fst rc < length (q_reservations q) \<and> rsv_settled (q_reservations q ! fst rc) \<Longrightarrow> settle rc q = q"
    by (cases rc) (simp add: settle_again)
qed (simp_all add: settled_nth)

text \<open>Clean-up paths may settle the same reservations again, as committed or as released.\<close>

lemma settle_reservations_again:
  assumes "\<forall>rc \<in> set rcs. fst rc < length (q_reservations q)" and "set again \<subseteq> set rcs"
  shows "fold settle again (fold settle rcs q) = fold settle rcs q"
  using disk_reservation.settle_all_again [OF assms] by (simp add: disk_reservation.settle_all_def)

section \<open>The disk\<close>

text \<open>
  A world is a quota beside the disk it guards. \<open>w_settled\<close> is the number of bytes under the roots
  that do not belong to an open reservation, \<open>w_written\<close> what has been written so far under each
  open reservation, and \<open>w_low\<close> the lowest value of \<open>w_settled\<close> since the walk has begun: a walk sees
  at least the files that are there and unchanged all the time.
\<close>

record world =
  w_quota :: quota
  w_settled :: int
  w_written :: "nat \<Rightarrow> int"
  w_low :: int

definition open_reservation :: "quota \<Rightarrow> nat \<Rightarrow> bool" where
  "open_reservation q r \<longleftrightarrow> r < length (q_reservations q) \<and> \<not> rsv_settled (q_reservations q ! r)"

definition disk_usage :: "world \<Rightarrow> int" where
  "disk_usage w = w_settled w + (\<Sum>r < length (q_reservations (w_quota w)). w_written w r)"

text \<open>
  All writes are reserved: the steps of the callers, of the disk and of the reconciliation. The flag
  says whether roots may still be added once the quota is in use.
\<close>

inductive managed :: "bool \<Rightarrow> quota \<Rightarrow> int \<Rightarrow> world \<Rightarrow> bool" for new_roots q0 base where
  start: "managed new_roots q0 base \<lparr>w_quota = q0, w_settled = base, w_written = (\<lambda>_. 0), w_low = 0\<rparr>"
| reserve: "managed new_roots q0 base w \<Longrightarrow> reserve bytes now (w_quota w) = (Inr r, q) \<Longrightarrow>
    managed new_roots q0 base (w\<lparr>w_quota := q\<rparr>)"
| writing: "managed new_roots q0 base w \<Longrightarrow> open_reservation (w_quota w) r \<Longrightarrow> 0 \<le> k \<Longrightarrow>
    w_written w r + k \<le> rsv_bytes (q_reservations (w_quota w) ! r) \<Longrightarrow>
    managed new_roots q0 base (w\<lparr>w_written := (w_written w)(r := w_written w r + k)\<rparr>)"
| delete: "managed new_roots q0 base w \<Longrightarrow> 0 \<le> k \<Longrightarrow> k \<le> w_settled w \<Longrightarrow>
    managed new_roots q0 base (w\<lparr>w_settled := w_settled w - k, w_low := min (w_low w) (w_settled w - k)\<rparr>)"
| commit: "managed new_roots q0 base w \<Longrightarrow> open_reservation (w_quota w) r \<Longrightarrow>
    managed new_roots q0 base (w\<lparr>w_quota := settle (r, True) (w_quota w), w_settled := w_settled w + w_written w r,
      w_written := (w_written w)(r := 0)\<rparr>)"
| release: "managed new_roots q0 base w \<Longrightarrow> open_reservation (w_quota w) r \<Longrightarrow> w_written w r = 0 \<Longrightarrow>
    managed new_roots q0 base (w\<lparr>w_quota := settle (r, False) (w_quota w)\<rparr>)"
| invalidate: "managed new_roots q0 base w \<Longrightarrow> managed new_roots q0 base (w\<lparr>w_quota := invalidate (w_quota w)\<rparr>)"
| add_root: "managed new_roots q0 base w \<Longrightarrow> new_roots \<Longrightarrow> 0 \<le> content \<Longrightarrow>
    resolve path \<notin> set (q_roots (w_quota w)) \<Longrightarrow>
    managed new_roots q0 base (w\<lparr>w_quota := addRoot resolve path (w_quota w), w_settled := w_settled w + content\<rparr>)"
| reconcile: "managed new_roots q0 base w \<Longrightarrow> q_scan (w_quota w) = None \<Longrightarrow>
    managed new_roots q0 base (w\<lparr>w_quota := reconcile (w_quota w), w_low := w_settled w\<rparr>)"
| walked: "managed new_roots q0 base w \<Longrightarrow> w_low w \<le> bytes \<Longrightarrow> scan_finished (Inr bytes) now (w_quota w) = (s, q) \<Longrightarrow>
    managed new_roots q0 base (w\<lparr>w_quota := q, w_low := (if q_scan q = None then w_low w else w_settled w)\<rparr>)"
| walk_failed: "managed new_roots q0 base w \<Longrightarrow> scan_finished (Inl e) now (w_quota w) = (s, q) \<Longrightarrow>
    managed new_roots q0 base (w\<lparr>w_quota := q\<rparr>)"

section \<open>The disk stays within the quota\<close>

definition open_bytes :: "reservation list \<Rightarrow> int" where
  "open_bytes rs = sum_list (map (\<lambda>r. if rsv_settled r then 0 else rsv_bytes r) rs)"

lemma open_bytes_append [simp]: "open_bytes (rs @ [r]) = open_bytes rs + (if rsv_settled r then 0 else rsv_bytes r)"
  by (simp add: open_bytes_def)

lemma open_bytes_settle:
  assumes "i < length rs" and "\<not> rsv_settled (rs ! i)"
  shows "open_bytes (rs[i := \<lparr>rsv_bytes = b, rsv_settled = True\<rparr>]) = open_bytes rs - rsv_bytes (rs ! i)"
  using assms
proof (induction rs arbitrary: i)
  case (Cons r rs)
  then show ?case by (cases i) (simp_all add: open_bytes_def)
qed simp

text \<open>The effect of settling an open reservation.\<close>

lemma settle_fields:
  assumes "open_reservation q r" and "q_pendingReservationBytes q = open_bytes (q_reservations q)"
    and "\<forall>x \<in> set (q_reservations q). 0 \<le> rsv_bytes x"
  defines "b \<equiv> rsv_bytes (q_reservations q ! r)"
  shows "q_reservations (settle (r, c) q) = (q_reservations q)[r := \<lparr>rsv_bytes = b, rsv_settled = True\<rparr>]"
    and "q_pendingReservationBytes (settle (r, c) q) = q_pendingReservationBytes q - b"
    and "q_cachedUsage (settle (r, c) q) = map_option (\<lambda>(u, at). (if c then u + b else u, at)) (q_cachedUsage q)"
    and "q_invalidatedUsageFloorBytes (settle (r, c) q) =
      (if c \<and> q_cachedUsage q = None then q_invalidatedUsageFloorBytes q + b else q_invalidatedUsageFloorBytes q)"
    and "q_writeVersion (settle (r, c) q) = (if c then q_writeVersion q + 1 else q_writeVersion q)"
    and "q_rootVersion (settle (r, c) q) = q_rootVersion q" "q_scan (settle (r, c) q) = q_scan q"
      "q_maxBytes (settle (r, c) q) = q_maxBytes q"
proof -
  have r: "r < length (q_reservations q)" "\<not> rsv_settled (q_reservations q ! r)"
    using assms(1) by (simp_all add: open_reservation_def)
  have "open_bytes ((q_reservations q)[r := \<lparr>rsv_bytes = b, rsv_settled = True\<rparr>]) = open_bytes (q_reservations q) - b"
    unfolding b_def by (rule open_bytes_settle [OF r])
  moreover have "0 \<le> open_bytes rs" if "\<forall>x \<in> set rs. 0 \<le> rsv_bytes x" for rs
    using that by (induction rs) (auto simp: open_bytes_def)
  ultimately have "0 \<le> q_pendingReservationBytes q - b"
    using assms(2,3) r by (metis b_def list_update_id nth_mem reservation.select_convs(1) set_update_subset_insert
        insert_iff subset_iff)
  then show "q_pendingReservationBytes (settle (r, c) q) = q_pendingReservationBytes q - b"
    using r by (simp add: settle_def Let_def b_def split: option.split)
qed (use assms(1) in \<open>auto simp: settle_def Let_def b_def open_reservation_def split: option.split\<close>)

definition write_limit :: "quota \<Rightarrow> nat \<Rightarrow> int" where
  "write_limit q r = (if open_reservation q r then rsv_bytes (q_reservations q ! r) else 0)"

lemma write_limit_simps [simp]:
  "open_reservation q r \<Longrightarrow> write_limit q r = rsv_bytes (q_reservations q ! r)"
  "\<not> open_reservation q r \<Longrightarrow> write_limit q r = 0"
  by (simp_all add: write_limit_def)

lemma write_limit_cong: "q_reservations q' = q_reservations q \<Longrightarrow> write_limit q' r = write_limit q r"
  by (simp add: write_limit_def open_reservation_def)

definition sound :: "int \<Rightarrow> world \<Rightarrow> bool" where
  "sound limit w \<longleftrightarrow>
     (let q = w_quota w in
      q_maxBytes q = limit \<and>
      q_pendingReservationBytes q = open_bytes (q_reservations q) \<and>
      (\<forall>x \<in> set (q_reservations q). 0 \<le> rsv_bytes x) \<and>
      (\<forall>r. 0 \<le> w_written w r \<and>
         w_written w r \<le> write_limit q r) \<and>
      (\<forall>b at. q_cachedUsage q = Some (b, at) \<longrightarrow> w_settled w \<le> b) \<and>
      (q_cachedUsage q = None \<longrightarrow> q_reservations q \<noteq> [] \<longrightarrow> w_settled w \<le> q_invalidatedUsageFloorBytes q) \<and>
      (q_writeVersion q > 0 \<longrightarrow> q_reservations q \<noteq> []) \<and>
      (\<forall>sc. q_scan q = Some sc \<longrightarrow> sc_rootVersion sc = q_rootVersion q \<and> sc_writesAtStart sc \<le> q_writeVersion q \<and>
         (sc_writesAtStart sc = q_writeVersion q \<longrightarrow> w_settled w \<le> w_low w)) \<and>
      w_settled w + q_pendingReservationBytes q \<le> limit)"

lemma sound_iff:
  "sound limit w \<longleftrightarrow>
     q_maxBytes (w_quota w) = limit \<and>
     q_pendingReservationBytes (w_quota w) = open_bytes (q_reservations (w_quota w)) \<and>
     (\<forall>x \<in> set (q_reservations (w_quota w)). 0 \<le> rsv_bytes x) \<and>
     (\<forall>r. 0 \<le> w_written w r \<and> w_written w r \<le> write_limit (w_quota w) r) \<and>
     (\<forall>b at. q_cachedUsage (w_quota w) = Some (b, at) \<longrightarrow> w_settled w \<le> b) \<and>
     (q_cachedUsage (w_quota w) = None \<longrightarrow> q_reservations (w_quota w) \<noteq> [] \<longrightarrow>
        w_settled w \<le> q_invalidatedUsageFloorBytes (w_quota w)) \<and>
     (q_writeVersion (w_quota w) > 0 \<longrightarrow> q_reservations (w_quota w) \<noteq> []) \<and>
     (\<forall>sc. q_scan (w_quota w) = Some sc \<longrightarrow>
        sc_rootVersion sc = q_rootVersion (w_quota w) \<and> sc_writesAtStart sc \<le> q_writeVersion (w_quota w) \<and>
        (sc_writesAtStart sc = q_writeVersion (w_quota w) \<longrightarrow> w_settled w \<le> w_low w)) \<and>
     w_settled w + q_pendingReservationBytes (w_quota w) \<le> limit"
  by (simp add: sound_def Let_def)

lemmas soundI = sound_iff [THEN iffD2, OF conjI, OF _ conjI, OF _ _ conjI, OF _ _ _ conjI, OF _ _ _ _ conjI,
    OF _ _ _ _ _ conjI, OF _ _ _ _ _ _ conjI, OF _ _ _ _ _ _ _ conjI]

lemma soundD:
  assumes "sound limit w"
  shows "q_maxBytes (w_quota w) = limit"
    and "q_pendingReservationBytes (w_quota w) = open_bytes (q_reservations (w_quota w))"
    and "\<forall>x \<in> set (q_reservations (w_quota w)). 0 \<le> rsv_bytes x"
    and "\<And>r. 0 \<le> w_written w r"
    and "\<And>r. w_written w r \<le> write_limit (w_quota w) r"
    and "\<And>b at. q_cachedUsage (w_quota w) = Some (b, at) \<Longrightarrow> w_settled w \<le> b"
    and "q_cachedUsage (w_quota w) = None \<Longrightarrow> q_reservations (w_quota w) \<noteq> [] \<Longrightarrow>
      w_settled w \<le> q_invalidatedUsageFloorBytes (w_quota w)"
    and "q_writeVersion (w_quota w) > 0 \<Longrightarrow> q_reservations (w_quota w) \<noteq> []"
    and "\<And>sc. q_scan (w_quota w) = Some sc \<Longrightarrow>
      sc_rootVersion sc = q_rootVersion (w_quota w) \<and> sc_writesAtStart sc \<le> q_writeVersion (w_quota w) \<and>
      (sc_writesAtStart sc = q_writeVersion (w_quota w) \<longrightarrow> w_settled w \<le> w_low w)"
    and "w_settled w + q_pendingReservationBytes (w_quota w) \<le> limit"
  using assms unfolding sound_iff by blast+

lemma sound_start:
  assumes "q_cachedUsage q = None" "q_reservations q = []" "q_pendingReservationBytes q = 0"
    "q_writeVersion q = 0" "q_scan q = None" "base \<le> q_maxBytes q"
  shows "sound (q_maxBytes q) \<lparr>w_quota = q, w_settled = base, w_written = (\<lambda>_. 0), w_low = 0\<rparr>"
  using assms by (simp add: sound_def Let_def open_bytes_def open_reservation_def)

lemma reserve_granted:
  assumes "reserve bytes now q = (Inr r, q')"
  obtains n u at where "0 \<le> n" "q_cachedUsage q = Some (u, at)"
    "u + q_pendingReservationBytes q + n \<le> q_maxBytes q" "r = length (q_reservations q)"
    "q' = q\<lparr>q_pendingReservationBytes := q_pendingReservationBytes q + n,
       q_reservations := q_reservations q @ [\<lparr>rsv_bytes = n, rsv_settled = False\<rparr>]\<rparr>"
proof -
  from assms obtain u at where "\<not> number_of bytes < 0" "q_cachedUsage q = Some (u, at)"
    "\<not> u + q_pendingReservationBytes q + number_of bytes > q_maxBytes q" "r = length (q_reservations q)"
    "q' = q\<lparr>q_pendingReservationBytes := q_pendingReservationBytes q + number_of bytes,
       q_reservations := q_reservations q @ [\<lparr>rsv_bytes = number_of bytes, rsv_settled = False\<rparr>]\<rparr>"
    by (auto simp: reserve_def nonNegativeSafeInteger_def requireCachedUsage_def
        split: sum.splits if_splits option.splits prod.splits)
  then show thesis by (intro that [of "number_of bytes" u at]) simp_all
qed

lemma open_reservation_append:
  "open_reservation (q\<lparr>q_pendingReservationBytes := p, q_reservations := q_reservations q @ [x]\<rparr>) r \<longleftrightarrow>
     open_reservation q r \<or> r = length (q_reservations q) \<and> \<not> rsv_settled x"
  by (auto simp: open_reservation_def nth_append)

lemma sound_reserve:
  assumes "sound limit w" and "reserve bytes now (w_quota w) = (Inr r, q)"
  shows "sound limit (w\<lparr>w_quota := q\<rparr>)"
proof -
  from reserve_granted [OF assms(2)] obtain n u at where n: "0 \<le> n" "q_cachedUsage (w_quota w) = Some (u, at)"
    "u + q_pendingReservationBytes (w_quota w) + n \<le> q_maxBytes (w_quota w)"
    and q: "q = (w_quota w)\<lparr>q_pendingReservationBytes := q_pendingReservationBytes (w_quota w) + n,
       q_reservations := q_reservations (w_quota w) @ [\<lparr>rsv_bytes = n, rsv_settled = False\<rparr>]\<rparr>" by metis
  have s: "w_settled w \<le> u" using soundD(6) [OF assms(1) n(2)] .
  have same: "q_cachedUsage q = q_cachedUsage (w_quota w)" "q_writeVersion q = q_writeVersion (w_quota w)"
    "q_scan q = q_scan (w_quota w)" "q_rootVersion q = q_rootVersion (w_quota w)" "q_maxBytes q = q_maxBytes (w_quota w)"
    "q_reservations q = q_reservations (w_quota w) @ [\<lparr>rsv_bytes = n, rsv_settled = False\<rparr>]"
    "q_pendingReservationBytes q = q_pendingReservationBytes (w_quota w) + n"
    by (simp_all add: q)
  have bnd: "w_written w r \<le> write_limit q r" for r
  proof (cases "r < length (q_reservations (w_quota w))")
    case True
    then have "write_limit q r = write_limit (w_quota w) r"
      by (simp add: write_limit_def open_reservation_def same nth_append)
    then show ?thesis using soundD(5) [OF assms(1), of r] by simp
  next
    case False
    then have "w_written w r \<le> 0" using soundD(5) [OF assms(1), of r] by (simp add: open_reservation_def)
    moreover have "0 \<le> write_limit q r" using n(1) False by (auto simp: write_limit_def open_reservation_def same nth_append)
    ultimately show ?thesis by simp
  qed
  show ?thesis
    using soundD [OF assms(1)] n s bnd by (intro soundI) (auto simp: same)
qed

lemma sound_write:
  assumes "sound limit w" and "open_reservation (w_quota w) r" and "0 \<le> k"
    and "w_written w r + k \<le> rsv_bytes (q_reservations (w_quota w) ! r)"
  shows "sound limit (w\<lparr>w_written := (w_written w)(r := w_written w r + k)\<rparr>)"
  by (rule soundI) (use soundD [OF assms(1)] assms(2-) in simp_all)

lemma sound_delete:
  assumes s: "sound limit w" and k: "0 \<le> k"
  shows "sound limit (w\<lparr>w_settled := w_settled w - k, w_low := min (w_low w) (w_settled w - k)\<rparr>)"
proof -
  have 1: "w_settled w - k \<le> b" if "q_cachedUsage (w_quota w) = Some (b, at)" for b at
    using soundD(6) [OF s that] k by simp
  have 2: "w_settled w - k \<le> q_invalidatedUsageFloorBytes (w_quota w)"
    if "q_cachedUsage (w_quota w) = None" "q_reservations (w_quota w) \<noteq> []"
    using soundD(7) [OF s that] k by simp
  have 3: "w_settled w - k \<le> min (w_low w) (w_settled w - k)"
    if "q_scan (w_quota w) = Some sc" "sc_writesAtStart sc = q_writeVersion (w_quota w)" for sc
    using soundD(9) [OF s that(1)] that(2) k by simp
  have 4: "w_settled w - k + q_pendingReservationBytes (w_quota w) \<le> limit" using soundD(10) [OF s] k by simp
  show ?thesis
    by (rule soundI) (use soundD(1-5,8,9) [OF s] 1 2 3 4 in simp_all)
qed

lemma open_reservation_settle:
  "r < length (q_reservations q) \<Longrightarrow> open_reservation (settle (r, c) q) x \<longleftrightarrow> x \<noteq> r \<and> open_reservation q x"
  by (cases "x < length (q_reservations q)") (auto simp: open_reservation_def settled_nth)

lemma sound_settle:
  assumes s: "sound limit w" and o: "open_reservation (w_quota w) r"
    and rel: "c \<or> w_written w r = 0"
  shows "sound limit (w\<lparr>w_quota := settle (r, c) (w_quota w), w_settled := w_settled w + w_written w r,
      w_written := (w_written w)(r := 0)\<rparr>)"
proof -
  let ?q = "w_quota w"
  let ?b = "rsv_bytes (q_reservations ?q ! r)"
  have pend: "q_pendingReservationBytes ?q = open_bytes (q_reservations ?q)"
    and nn: "\<forall>x \<in> set (q_reservations ?q). 0 \<le> rsv_bytes x" using s by (simp_all add: sound_def Let_def)
  note f = settle_fields [OF o pend nn]
  have r: "r < length (q_reservations ?q)" "\<not> rsv_settled (q_reservations ?q ! r)" using o by (simp_all add: open_reservation_def)
  have wr: "0 \<le> w_written w r" "w_written w r \<le> ?b" using soundD(4,5) [OF s, of r] o by simp_all
  have ob: "open_bytes (q_reservations (settle (r, c) ?q)) = open_bytes (q_reservations ?q) - ?b"
    unfolding f(1) by (rule open_bytes_settle [OF r])
  have bnd: "((w_written w)(r := 0)) x \<le> write_limit (settle (r, c) ?q) x" for x
    using soundD(5) [OF s, of x] by (cases "x = r") (auto simp: write_limit_def open_reservation_settle [OF r(1)] f(1))
  have ne: "q_reservations ?q \<noteq> []" "q_reservations (settle (r, c) ?q) \<noteq> []" using r by (auto simp: f(1))
  have "0 \<le> ?b" using wr by simp
  then have nn': "\<forall>x \<in> set (q_reservations (settle (r, c) ?q)). 0 \<le> rsv_bytes x"
    using nn set_update_subset_insert [of "q_reservations ?q" r] unfolding f(1) by fastforce
  show ?thesis
  proof (rule soundI)
    show "\<forall>b at. q_cachedUsage (w_quota (w\<lparr>w_quota := settle (r, c) ?q, w_settled := w_settled w + w_written w r,
        w_written := (w_written w)(r := 0)\<rparr>)) = Some (b, at) \<longrightarrow>
        w_settled (w\<lparr>w_quota := settle (r, c) ?q, w_settled := w_settled w + w_written w r,
        w_written := (w_written w)(r := 0)\<rparr>) \<le> b"
      using soundD(6) [OF s] rel wr by (force simp: f(3) split: if_splits)
  qed (use soundD [OF s] rel wr bnd ob ne nn' in \<open>auto simp: f(2-)\<close>)
qed

lemma sound_invalidate:
  assumes s: "sound limit w"
  shows "sound limit (w\<lparr>w_quota := invalidate (w_quota w)\<rparr>)"
proof (cases "q_cachedUsage (w_quota w)")
  case (Some c)
  obtain b at where c: "c = (b, at)" by (cases c)
  have op: "write_limit (invalidate (w_quota w)) r = write_limit (w_quota w) r" for r
    by (rule write_limit_cong) (simp add: invalidate_def Some c)
  have b: "w_settled w \<le> b" using soundD(6) [OF s] Some c by simp
  show ?thesis
    by (rule soundI) (use soundD [OF s] b op in \<open>simp_all add: invalidate_def Some c le_max_iff_disj\<close>)
qed (use s in \<open>simp add: invalidate_def\<close>)

lemma sound_reconcile:
  assumes s: "sound limit w"
  shows "sound limit (w\<lparr>w_quota := reconcile (w_quota w), w_low := w_settled w\<rparr>)"
proof -
  have op: "write_limit (reconcile (w_quota w)) r = write_limit (w_quota w) r" for r
    by (rule write_limit_cong) (simp add: reconcile_def begin_walk_def)
  show ?thesis
  proof (cases "q_scan (w_quota w)")
    case None
    then show ?thesis
      by (intro soundI) (use soundD(1-8,10) [OF s] op in \<open>simp_all add: reconcile_def begin_walk_def\<close>)
  next
    case (Some sc)
    then show ?thesis
      by (intro soundI) (use soundD [OF s] op in \<open>simp_all add: reconcile_def\<close>)
  qed
qed

lemma sound_walked:
  assumes s: "sound limit w" and low: "w_low w \<le> bytes"
    and f: "scan_finished (Inr bytes) now (w_quota w) = (snap, q)"
  shows "sound limit (w\<lparr>w_quota := q, w_low := l\<rparr>) \<or> q = w_quota w"
proof (cases "q_scan (w_quota w)")
  case (Some sc)
  have root: "sc_rootVersion sc = q_rootVersion (w_quota w)" and ver: "sc_writesAtStart sc \<le> q_writeVersion (w_quota w)"
    and un: "sc_writesAtStart sc = q_writeVersion (w_quota w) \<Longrightarrow> w_settled w \<le> w_low w"
    using soundD(9) [OF s Some] by simp_all
  obtain used where q: "q = (w_quota w)\<lparr>q_cachedUsage := Some (used, now), q_invalidatedUsageFloorBytes := 0, q_scan := None\<rparr>"
    and u: "w_settled w \<le> used"
  proof (cases "sc_writesAtStart sc = q_writeVersion (w_quota w)")
    case True
    then have "q = (w_quota w)\<lparr>q_cachedUsage := Some (bytes, now), q_invalidatedUsageFloorBytes := 0, q_scan := None\<rparr>"
      using f by (auto simp: scan_finished_def Some root Let_def split: option.splits)
    then show ?thesis using that un [OF True] low by force
  next
    case False
    then have ne: "q_reservations (w_quota w) \<noteq> []" using ver soundD(8) [OF s] by simp
    show ?thesis
    proof (cases "q_cachedUsage (w_quota w)")
      case None
      then have "q = (w_quota w)\<lparr>q_cachedUsage := Some (max bytes (q_invalidatedUsageFloorBytes (w_quota w)), now),
          q_invalidatedUsageFloorBytes := 0, q_scan := None\<rparr>"
        using f False by (auto simp: scan_finished_def Some root Let_def)
      then show ?thesis using that soundD(7) [OF s None ne] by force
    next
      case (Some c)
      obtain b at where c: "c = (b, at)" by (cases c)
      have "q = (w_quota w)\<lparr>q_cachedUsage := Some (max (max bytes b) (q_invalidatedUsageFloorBytes (w_quota w)), now),
          q_invalidatedUsageFloorBytes := 0, q_scan := None\<rparr>"
        using f False by (auto simp: scan_finished_def \<open>q_scan (w_quota w) = Some sc\<close> root Some c Let_def)
      then show ?thesis using that soundD(6) [OF s, of b at] Some c by force
    qed
  qed
  have op: "write_limit q r = write_limit (w_quota w) r" for r
    by (rule write_limit_cong) (simp add: q)
  have "sound limit (w\<lparr>w_quota := q, w_low := l\<rparr>)"
    by (intro soundI) (use soundD [OF s] u op in \<open>simp_all add: q\<close>)
  then show ?thesis ..
qed (use f in \<open>simp add: scan_finished_def\<close>)

lemma sound_walk_failed:
  assumes s: "sound limit w" and f: "scan_finished (Inl e) now (w_quota w) = (snap, q)"
  shows "sound limit (w\<lparr>w_quota := q\<rparr>)"
proof (cases "q_scan (w_quota w)")
  case (Some sc)
  then have q: "q = (w_quota w)\<lparr>q_scan := None\<rparr>" using f by (simp add: scan_finished_def)
  have op: "write_limit q r = write_limit (w_quota w) r" for r
    by (rule write_limit_cong) (simp add: q)
  show ?thesis
    by (intro soundI) (use soundD [OF s] op in \<open>simp_all add: q\<close>)
qed (use s f in \<open>auto simp: scan_finished_def\<close>)

lemma scan_finished_ends:
  assumes "scan_finished (Inr bytes) now q = (snap, q')"
    and "\<And>sc. q_scan q = Some sc \<Longrightarrow> sc_rootVersion sc = q_rootVersion q"
  shows "q_scan q' = None"
  using assms by (cases "q_scan q") (auto simp: scan_finished_def Let_def)

lemma managed_sound:
  assumes "managed False q0 base w"
    and "q_cachedUsage q0 = None" "q_reservations q0 = []" "q_pendingReservationBytes q0 = 0"
    "q_writeVersion q0 = 0" "q_scan q0 = None" "base \<le> q_maxBytes q0"
  shows "sound (q_maxBytes q0) w"
  using assms(1)
proof induction
  case start
  show ?case by (rule sound_start [OF assms(2-)])
next
  case (reserve w bytes now r q)
  then show ?case by (blast intro: sound_reserve)
next
  case (writing w r k)
  then show ?case by (blast intro: sound_write)
next
  case (delete w k)
  then show ?case by (blast intro: sound_delete)
next
  case (commit w r)
  then show ?case by (blast intro: sound_settle)
next
  case (release w r)
  from sound_settle [OF release.IH release.hyps(2), of False] release.hyps(3) show ?case
    by (simp add: fun_upd_idem)
next
  case (invalidate w)
  then show ?case by (blast intro: sound_invalidate)
next
  case (reconcile w)
  then show ?case by (blast intro: sound_reconcile)
next
  case (walked w bytes now s q)
  show ?case
  proof (cases "q = w_quota w")
    case True
    have "q_scan q = None"
      using scan_finished_ends [OF walked.hyps(3)] soundD(9) [OF walked.IH] by blast
    with True walked.IH show ?thesis by simp
  qed (use sound_walked [OF walked.IH walked.hyps(2,3)] in blast)
next
  case (walk_failed w e now s q)
  then show ?case by (blast intro: sound_walk_failed)
qed simp

lemma usage_le_reserved:
  assumes s: "sound limit w"
  shows "disk_usage w \<le> w_settled w + q_pendingReservationBytes (w_quota w)"
proof -
  let ?rs = "q_reservations (w_quota w)"
  have "(\<Sum>r < length ?rs. w_written w r) \<le> (\<Sum>r < length ?rs. write_limit (w_quota w) r)"
    using soundD(5) [OF s] by (intro sum_mono) simp
  also have "\<dots> = (\<Sum>r < length ?rs. if rsv_settled (?rs ! r) then 0 else rsv_bytes (?rs ! r))"
    by (intro sum.cong) (auto simp: write_limit_def open_reservation_def)
  also have "\<dots> = open_bytes ?rs"
    by (simp add: open_bytes_def sum_list_sum_nth atLeast0LessThan)
  finally show ?thesis using soundD(2) [OF s] by (simp add: disk_usage_def)
qed

lemma new_quota_fields:
  "new_quota limit headroom ttl = Inr q \<Longrightarrow>
     q_cachedUsage q = None \<and> q_reservations q = [] \<and> q_pendingReservationBytes q = 0 \<and> q_writeVersion q = 0 \<and>
     q_scan q = None"
  by (auto simp: new_quota_def bind_result_Inr split: if_splits)

lemma addRoot_fields:
  "q_cachedUsage q = None \<Longrightarrow> q_cachedUsage (addRoot resolve p q) = None"
  "q_reservations (addRoot resolve p q) = q_reservations q"
  "q_pendingReservationBytes (addRoot resolve p q) = q_pendingReservationBytes q"
  "q_writeVersion (addRoot resolve p q) = q_writeVersion q" "q_scan (addRoot resolve p q) = q_scan q"
  "q_maxBytes (addRoot resolve p q) = q_maxBytes q"
  by (auto simp: addRoot_def invalidate_def Let_def split: option.split)

lemma add_roots_fields:
  "q_cachedUsage q = None \<Longrightarrow> q_cachedUsage (fold (addRoot resolve) ps q) = None"
  "q_reservations (fold (addRoot resolve) ps q) = q_reservations q"
  "q_pendingReservationBytes (fold (addRoot resolve) ps q) = q_pendingReservationBytes q"
  "q_writeVersion (fold (addRoot resolve) ps q) = q_writeVersion q" "q_scan (fold (addRoot resolve) ps q) = q_scan q"
  "q_maxBytes (fold (addRoot resolve) ps q) = q_maxBytes q"
  by (induction ps arbitrary: q) (simp_all add: addRoot_fields)


definition fresh_quota :: quota where
  "fresh_quota = \<lparr>q_roots = [], q_maxBytes = 2000, q_reservedHeadroomBytes = 0, q_cacheTtlMs = 60000, q_cachedUsage = None,
     q_pendingReservationBytes = 0, q_invalidatedUsageFloorBytes = 0, q_rootVersion = 0, q_writeVersion = 0,
     q_scan = None, q_reservations = []\<rparr>"

definition scanned_quota :: quota where
  "scanned_quota = snd (scan_finished (Inr 100) 0 (reconcile (addRoot id ''/a'' fresh_quota)))"

definition reserved_quota :: quota where
  "reserved_quota = snd (reserve (JNumber (JInt 50)) 0 scanned_quota)"

text \<open>The world after a walk has found 100 bytes and 50 more have been reserved.\<close>

lemma reserved_managed:
  "managed any (addRoot id ''/a'' fresh_quota) 100
     \<lparr>w_quota = reserved_quota, w_settled = 100, w_written = (\<lambda>_. 0), w_low = 100\<rparr>"
proof -
  let ?q = "addRoot id ''/a'' fresh_quota"
  have "managed any ?q 100 (\<lparr>w_quota = ?q, w_settled = 100, w_written = (\<lambda>_. 0), w_low = 0\<rparr>
      \<lparr>w_quota := reconcile ?q, w_low := 100\<rparr>)"
    using managed.reconcile [OF managed.start, where ?new_roots = any and ?q0.0 = ?q and base = 100] by (simp add: addRoot_fields fresh_quota_def)
  then have "managed any ?q 100 \<lparr>w_quota = reconcile ?q, w_settled = 100, w_written = (\<lambda>_. 0), w_low = 100\<rparr>" by simp
  moreover have "q_scan scanned_quota = None" by code_simp
  ultimately have "managed any ?q 100 \<lparr>w_quota = scanned_quota, w_settled = 100, w_written = (\<lambda>_. 0), w_low = 100\<rparr>"
    using managed.walked [of any ?q 100 "\<lparr>w_quota = reconcile ?q, w_settled = 100, w_written = (\<lambda>_. 0), w_low = 100\<rparr>"
        100 0 "fst (scan_finished (Inr 100) 0 (reconcile ?q))" scanned_quota]
    by (simp add: scanned_quota_def)
  moreover have "reserve (JNumber (JInt 50)) 0 scanned_quota = (Inr 0, reserved_quota)"
  proof -
    have "fst (reserve (JNumber (JInt 50)) 0 scanned_quota) = Inr 0" by code_simp
    then show ?thesis by (simp add: reserved_quota_def prod_eq_iff)
  qed
  ultimately show ?thesis
    using managed.reserve [of any ?q 100 "\<lparr>w_quota = scanned_quota, w_settled = 100, w_written = (\<lambda>_. 0), w_low = 100\<rparr>"
        "JNumber (JInt 50)" 0 0 reserved_quota] by simp
qed


text \<open>
  The promise does not survive a new root. A root is added while a reservation is open; the
  cache is dropped and a walk begins. If the reserved write is committed during that walk, behind
  the point the walk has reached, the published usage is the larger of the walk and the old floor,
  and so does not contain the committed write: cached usage and pending reservations together are
  below the disk usage although every write was reserved.
\<close>

theorem new_root_undercounts_committed_write:
  "\<exists>w b at. managed True (addRoot id ''/a'' fresh_quota) 100 w \<and>
     q_cachedUsage (w_quota w) = Some (b, at) \<and> b + q_pendingReservationBytes (w_quota w) < disk_usage w"
proof -
  let ?q0 = "addRoot id ''/a'' fresh_quota"
  let ?q1 = "reconcile (addRoot id ''/b'' reserved_quota)"
  let ?q2 = "settle (0, True) ?q1"
  let ?q3 = "snd (scan_finished (Inr 1100) 0 ?q2)"
  let ?w0 = "\<lparr>w_quota = reserved_quota, w_settled = 100, w_written = (\<lambda>_. 0), w_low = 100\<rparr>"
  have r: "''/b'' \<notin> set (q_roots reserved_quota)" by code_simp
  have s: "q_scan (addRoot id ''/b'' reserved_quota) = None" by code_simp
  have o: "open_reservation ?q1 0" "rsv_bytes (q_reservations ?q1 ! 0) = 50" by code_simp+
  have 1: "managed True ?q0 100 \<lparr>w_quota = addRoot id ''/b'' reserved_quota, w_settled = 1100, w_written = (\<lambda>_. 0), w_low = 100\<rparr>"
    using managed.add_root [OF reserved_managed [of True], of 1000 id "''/b''"] r by simp
  have 2: "managed True ?q0 100 \<lparr>w_quota = ?q1, w_settled = 1100, w_written = (\<lambda>_. 0), w_low = 1100\<rparr>"
    using managed.reconcile [OF 1] s by simp
  have 3: "managed True ?q0 100 \<lparr>w_quota = ?q1, w_settled = 1100, w_written = (\<lambda>_. 0)(0 := 50), w_low = 1100\<rparr>"
    using managed.writing [OF 2, of 0 50] o by simp
  have 4: "managed True ?q0 100 \<lparr>w_quota = ?q2, w_settled = 1150, w_written = (\<lambda>_. 0), w_low = 1100\<rparr>"
    using managed.commit [OF 3, of 0] o by (simp add: fun_upd_idem)
  have s3: "q_scan ?q3 = None" by code_simp
  have 5: "managed True ?q0 100 \<lparr>w_quota = ?q3, w_settled = 1150, w_written = (\<lambda>_. 0), w_low = 1100\<rparr>"
    using managed.walked [OF 4, of 1100 0 "fst (scan_finished (Inr 1100) 0 ?q2)" ?q3] s3 by simp
  moreover have "q_cachedUsage ?q3 = Some (1100, 0)" "q_pendingReservationBytes ?q3 = 0" by code_simp+
  ultimately show ?thesis
    by (intro exI [of _ "\<lparr>w_quota = ?q3, w_settled = 1150, w_written = (\<lambda>_. 0), w_low = 1100\<rparr>"] exI [of _ 1100] exI [of _ 0])
      (simp add: disk_usage_def)
qed

end
