(* ===== verification/Outbox_Worker.thy ===== *)
theory Outbox_Worker
  imports Prelude "HOL-Library.List_Lexorder" "HOL-Library.Char_ord" "HOL-Library.Multiset"
begin

text \<open>
  The worker that recovers deployment operations from the durable outbox
  (web/server/apps-outbox-worker.ts): the check of a record, one poll over the claimed records, and the
  life cycle of the polling timer.

  The dependencies of the worker (claim, run, complete, retry, fail) are not part of it: a poll is
  given the claimed records and, in the record \<open>answers\<close>, how each call ends and when the abort signal
  is found raised; its result is the sequence of calls it makes.
\<close>

section \<open>Records\<close>

record outbox_record =
  ob_id :: string
  ob_appId :: json
  ob_tenantId :: json
  ob_operation :: json
  ob_payload :: json
  ob_appGeneration :: json

datatype outbox_error =
    UnsupportedOperation | PayloadNotObject | PayloadFields | InvalidField string | InvalidTarget
  | ByocRequiresConnection | TemporaryRequiresAccount | InvalidGeneration

record account_context =
  ac_tenantId :: string
  ac_userId :: string
  ac_membershipId :: string

record queued_deployment =
  qd_appId :: string
  qd_deploymentId :: string
  qd_appGeneration :: int
  qd_target :: string
  qd_connectionId :: "string option"
  qd_temporaryAccountId :: "string option"

definition strictString :: "json \<Rightarrow> string \<Rightarrow> outbox_error + string" where
  "strictString v field =
     (if \<not> is_js_string v \<or> length (str_of v) = 0 \<or> js_trim (str_of v) \<noteq> str_of v then Inl (InvalidField field)
      else Inr (str_of v))"

definition strictNullableString :: "json \<Rightarrow> string \<Rightarrow> outbox_error + string option" where
  "strictNullableString v field =
     (if v = JNull then Inr None else bind_result (strictString v field) (\<lambda>s. Inr (Some s)))"

definition expectedKeys :: "string list" where
  "expectedKeys = [''connectionId'', ''deploymentId'', ''membershipId'', ''target'', ''temporaryAccountId'', ''userId'']"

definition parseAppsDeploymentOutboxRecord ::
  "outbox_record \<Rightarrow> outbox_error + (account_context \<times> queued_deployment)" where
  "parseAppsDeploymentOutboxRecord r =
     (if ob_operation r \<noteq> JString ''deploy'' \<and> ob_operation r \<noteq> JString ''rollback'' then Inl UnsupportedOperation
      else if \<not> is_record (ob_payload r) then Inl PayloadNotObject
      else if sort (object_keys (ob_payload r)) \<noteq> expectedKeys then Inl PayloadFields
      else
        let payload = ob_payload r in
        bind_result (strictString (member payload ''userId'') ''userId'') (\<lambda>userId.
        bind_result (strictString (member payload ''membershipId'') ''membershipId'') (\<lambda>membershipId.
        bind_result (strictString (member payload ''deploymentId'') ''deploymentId'') (\<lambda>deploymentId.
        bind_result (strictNullableString (member payload ''connectionId'') ''connectionId'') (\<lambda>connectionId.
        bind_result (strictNullableString (member payload ''temporaryAccountId'') ''temporaryAccountId'')
          (\<lambda>temporaryAccountId.
          let target = member payload ''target'' in
          if target \<noteq> JString ''temporary'' \<and> target \<noteq> JString ''byoc'' then Inl InvalidTarget
          else if target = JString ''byoc'' \<and> (connectionId = None \<or> temporaryAccountId \<noteq> None)
          then Inl ByocRequiresConnection
          else if target = JString ''temporary'' \<and> (temporaryAccountId = None \<or> connectionId \<noteq> None)
          then Inl TemporaryRequiresAccount
          else if \<not> is_safe_integer (ob_appGeneration r) \<or> number_of (ob_appGeneration r) \<le> 0
          then Inl InvalidGeneration
          else
            bind_result (strictString (ob_tenantId r) ''tenantId'') (\<lambda>tenantId.
            bind_result (strictString (ob_appId r) ''appId'') (\<lambda>appId.
              Inr (\<lparr>ac_tenantId = tenantId, ac_userId = userId, ac_membershipId = membershipId\<rparr>,
                   \<lparr>qd_appId = appId, qd_deploymentId = deploymentId,
                    qd_appGeneration = number_of (ob_appGeneration r), qd_target = str_of target,
                    qd_connectionId = connectionId, qd_temporaryAccountId = temporaryAccountId\<rparr>)))))))))"

section \<open>One poll\<close>

record answers =
  an_aborted :: "nat \<Rightarrow> bool"
  an_run :: "nat \<Rightarrow> bool"
  an_complete :: "nat \<Rightarrow> bool"
  an_retry :: "nat \<Rightarrow> bool"
  an_fail :: "nat \<Rightarrow> bool"

datatype call =
    FailCall string
  | RunCall string account_context queued_deployment
  | CompleteCall string
  | RetryCall string
  | Report

definition settleRetry :: "answers \<Rightarrow> nat \<Rightarrow> string \<Rightarrow> call list" where
  "settleRetry a i rid = RetryCall rid # (if an_retry a i then [] else [Report])"

definition process :: "answers \<Rightarrow> nat \<Rightarrow> outbox_record \<Rightarrow> call list" where
  "process a i r =
     (case parseAppsDeploymentOutboxRecord r of
        Inl _ \<Rightarrow> FailCall (ob_id r) # (if an_fail a i then [] else [Report])
      | Inr (context, deployment) \<Rightarrow>
          RunCall (ob_id r) context deployment #
          (if an_run a i then
             CompleteCall (ob_id r) # (if an_complete a i then [] else settleRetry a i (ob_id r))
           else settleRetry a i (ob_id r)))"

fun release_rest :: "answers \<Rightarrow> nat \<Rightarrow> outbox_record list \<Rightarrow> call list" where
  "release_rest a i [] = []"
| "release_rest a i (r # rs) = settleRetry a i (ob_id r) @ release_rest a (Suc i) rs"

fun doPoll :: "answers \<Rightarrow> nat \<Rightarrow> outbox_record list \<Rightarrow> nat \<times> call list" where
  "doPoll a i [] = (0, [])"
| "doPoll a i (r # rs) =
     (if an_aborted a i then (0, release_rest a i (r # rs))
      else let (processed, calls) = doPoll a (Suc i) rs in (Suc processed, process a i r @ calls))"

section \<open>Life cycle\<close>

text \<open>
  Timeouts are numbers; \<open>wk_timers\<close> are those that may still fire and \<open>wk_timer\<close> is the one the worker
  remembers. \<open>wk_controller\<close> is the abort controller with its state, \<open>wk_poll\<close> whether a poll is in flight,
  \<open>wk_chained\<close> the number of timer callbacks that wait for it and \<open>wk_stopping\<close> that of pending \<open>stop\<close> calls.
\<close>

record worker =
  wk_started :: bool
  wk_timers :: "nat list"
  wk_timer :: "nat option"
  wk_next :: nat
  wk_controller :: "bool option"
  wk_poll :: bool
  wk_chained :: nat
  wk_stopping :: nat

definition new_worker :: worker where
  "new_worker = \<lparr>wk_started = False, wk_timers = [], wk_timer = None, wk_next = 0, wk_controller = None,
     wk_poll = False, wk_chained = 0, wk_stopping = 0\<rparr>"

definition schedule :: "worker \<Rightarrow> worker" where
  "schedule w =
     (if \<not> wk_started w then w
      else w\<lparr>wk_timers := wk_timers w @ [wk_next w], wk_timer := Some (wk_next w), wk_next := wk_next w + 1\<rparr>)"

definition start :: "worker \<Rightarrow> worker" where
  "start w = (if wk_started w then w else schedule (w\<lparr>wk_started := True, wk_controller := Some False\<rparr>))"

definition stop :: "worker \<Rightarrow> worker" where
  "stop w =
     (let w1 = w\<lparr>wk_started := False\<rparr>;
          w2 = (case wk_timer w1 of
                  Some t \<Rightarrow> w1\<lparr>wk_timers := filter (\<lambda>u. u \<noteq> t) (wk_timers w1), wk_timer := None\<rparr>
                | None \<Rightarrow> w1);
          w3 = w2\<lparr>wk_controller := map_option (\<lambda>_. True) (wk_controller w2)\<rparr>
      in if wk_poll w3 then w3\<lparr>wk_stopping := wk_stopping w3 + 1\<rparr> else w3\<lparr>wk_controller := None\<rparr>)"

definition pollOnce :: "worker \<Rightarrow> worker" where
  "pollOnce w = (if wk_poll w then w else w\<lparr>wk_poll := True\<rparr>)"

definition outbox_timer_fires :: "nat \<Rightarrow> worker \<Rightarrow> worker" where
  "outbox_timer_fires t w =
     (if t \<notin> set (wk_timers w) then w
      else let w1 = pollOnce (w\<lparr>wk_timers := filter (\<lambda>u. u \<noteq> t) (wk_timers w), wk_timer := None\<rparr>)
           in w1\<lparr>wk_chained := wk_chained w1 + 1\<rparr>)"

text \<open>The poll in flight settles: its callbacks schedule the next poll, pending stops return.\<close>

definition poll_settles :: "worker \<Rightarrow> worker" where
  "poll_settles w =
     (if \<not> wk_poll w then w
      else
        let w1 = (schedule ^^ wk_chained w) (w\<lparr>wk_poll := False, wk_chained := 0\<rparr>)
        in if wk_stopping w1 > 0 then w1\<lparr>wk_controller := None, wk_stopping := 0\<rparr> else w1)"

datatype outbox_event = StartCall | StopCall | PollOnceCall | TimeoutFires nat | PollSettles

fun outbox_step :: "outbox_event \<Rightarrow> worker \<Rightarrow> worker" where
  "outbox_step StartCall w = start w"
| "outbox_step StopCall w = stop w"
| "outbox_step PollOnceCall w = pollOnce w"
| "outbox_step (TimeoutFires t) w = outbox_timer_fires t w"
| "outbox_step PollSettles w = poll_settles w"

section \<open>Accepted records\<close>

text \<open>
  A record that the worker executes is an authentic deployment: a deploy or rollback whose payload has
  exactly the six expected fields, with trimmed non-empty identifiers and a positive
  generation, and for exactly one account, the connection if the target is byoc and the temporary
  account if it is temporary.
\<close>

theorem accepted_outbox_record:
  assumes "parseAppsDeploymentOutboxRecord r = Inr (context, d)"
  shows "(ob_operation r = JString ''deploy'' \<or> ob_operation r = JString ''rollback'') \<and>
    mset (object_keys (ob_payload r)) = mset expectedKeys \<and>
    (\<forall>s \<in> {ac_tenantId context, ac_userId context, ac_membershipId context, qd_appId d, qd_deploymentId d}.
       s \<noteq> [] \<and> js_trim s = s) \<and>
    0 < qd_appGeneration d \<and>
    (qd_target d = ''byoc'' \<and> qd_connectionId d \<noteq> None \<and> qd_temporaryAccountId d = None \<or>
     qd_target d = ''temporary'' \<and> qd_connectionId d = None \<and> qd_temporaryAccountId d \<noteq> None)"
proof -
  have keys: "sort (object_keys (ob_payload r)) = expectedKeys" and rec: "is_record (ob_payload r)"
    and op: "ob_operation r = JString ''deploy'' \<or> ob_operation r = JString ''rollback''"
    using assms by (auto simp: parseAppsDeploymentOutboxRecord_def split: if_splits)
  have str: "strictString v f = Inr s \<Longrightarrow> s \<noteq> [] \<and> js_trim s = s" for v f s
    by (auto simp: strictString_def split: if_splits)
  from keys have "mset (object_keys (ob_payload r)) = mset expectedKeys" by (metis mset_sort)
  with op assms rec keys show ?thesis
    by (auto simp: parseAppsDeploymentOutboxRecord_def bind_result_Inr Let_def dest!: str split: if_splits)
qed

definition sample_outbox :: "string \<Rightarrow> outbox_record" where
  "sample_outbox rid = \<lparr>ob_id = rid, ob_appId = JString ''app'', ob_tenantId = JString ''t'', ob_operation = JString ''deploy'',
     ob_payload = JObject [(''userId'', JString ''u''), (''membershipId'', JString ''m''), (''deploymentId'', JString ''d''),
       (''connectionId'', JString ''c''), (''temporaryAccountId'', JNull), (''target'', JString ''byoc'')],
     ob_appGeneration = JNumber (JInt 3)\<rparr>"

theorem accepted_outbox_record_witness:
  "\<exists>context d. parseAppsDeploymentOutboxRecord (sample_outbox ''x'') = Inr (context, d) \<and>
     qd_target d = ''byoc'' \<and> qd_connectionId d \<noteq> None \<and> qd_temporaryAccountId d = None"
proof -
  let ?c = "\<lparr>ac_tenantId = ''t'', ac_userId = ''u'', ac_membershipId = ''m''\<rparr>"
  let ?d = "\<lparr>qd_appId = ''app'', qd_deploymentId = ''d'', qd_appGeneration = 3, qd_target = ''byoc'',
      qd_connectionId = Some ''c'', qd_temporaryAccountId = None\<rparr>"
  have p: "parseAppsDeploymentOutboxRecord (sample_outbox ''x'') = Inr (?c, ?d)" by code_simp
  from accepted_outbox_record [OF p] p show ?thesis by simp
qed

section \<open>Every claimed record is settled\<close>

text \<open>The settling calls for one identifier.\<close>

fun settles :: "string \<Rightarrow> call \<Rightarrow> bool" where
  "settles rid (FailCall x) \<longleftrightarrow> x = rid"
| "settles rid (CompleteCall x) \<longleftrightarrow> x = rid"
| "settles rid (RetryCall x) \<longleftrightarrow> x = rid"
| "settles rid c \<longleftrightarrow> False"

fun runs :: "string \<Rightarrow> call \<Rightarrow> bool" where
  "runs rid (RunCall x context d) \<longleftrightarrow> x = rid"
| "runs rid c \<longleftrightarrow> False"

text \<open>What is expected of the record at position \<open>i\<close>.\<close>

definition stopped_before :: "answers \<Rightarrow> nat \<Rightarrow> bool" where
  "stopped_before a i \<longleftrightarrow> (\<exists>j \<le> i. an_aborted a j)"

definition executable :: "outbox_record \<Rightarrow> bool" where
  "executable r \<longleftrightarrow> (\<exists>p. parseAppsDeploymentOutboxRecord r = Inr p)"

definition expected_settlement :: "answers \<Rightarrow> nat \<Rightarrow> outbox_record \<Rightarrow> call list" where
  "expected_settlement a i r =
     (if stopped_before a i then [RetryCall (ob_id r)]
      else if \<not> executable r then [FailCall (ob_id r)]
      else if \<not> an_run a i then [RetryCall (ob_id r)]
      else if \<not> an_complete a i then [CompleteCall (ob_id r), RetryCall (ob_id r)]
      else [CompleteCall (ob_id r)])"

lemma settleRetry_filter [simp]:
  "filter (settles rid) (settleRetry a i x) = (if x = rid then [RetryCall rid] else [])"
  "filter (runs rid) (settleRetry a i x) = []"
  by (simp_all add: settleRetry_def)

lemma release_rest_filter:
  assumes "distinct (map ob_id rs)" and "k < length rs"
  shows "filter (settles (ob_id (rs ! k))) (release_rest a i rs) = [RetryCall (ob_id (rs ! k))]"
    and "filter (runs rid) (release_rest a i rs) = []"
proof -
  have other: "rid \<notin> ob_id ` set rs \<Longrightarrow> filter (settles rid) (release_rest a i rs) = []" for rid i rs
    by (induction rs arbitrary: i) auto
  show "filter (settles (ob_id (rs ! k))) (release_rest a i rs) = [RetryCall (ob_id (rs ! k))]"
    using assms
  proof (induction rs arbitrary: i k)
    case (Cons r rs)
    then show ?case by (cases k) (auto simp: other)
  qed simp
  show "filter (runs rid) (release_rest a i rs) = []" by (induction rs arbitrary: i) auto
qed

lemma process_filter:
  assumes "\<not> stopped_before a i"
  shows "filter (settles rid) (process a i r) = (if rid = ob_id r then expected_settlement a i r else [])"
    and "filter (runs rid) (process a i r) =
      (case parseAppsDeploymentOutboxRecord r of
         Inr (context, d) \<Rightarrow> if rid = ob_id r then [RunCall rid context d] else []
       | Inl _ \<Rightarrow> [])"
  using assms
  by (auto simp: process_def expected_settlement_def executable_def split: sum.split)

lemma doPoll_other:
  "rid \<notin> ob_id ` set rs \<Longrightarrow> filter (settles rid) (snd (doPoll a i rs)) = [] \<and> filter (runs rid) (snd (doPoll a i rs)) = []"
proof (induction rs arbitrary: i)
  case (Cons r rs)
  have "rid \<notin> ob_id ` set rs \<Longrightarrow> filter (settles rid) (release_rest a i rs) = []" for i rs
    by (induction rs arbitrary: i) auto
  moreover have "filter (runs rid) (release_rest a i rs) = []" for i rs by (induction rs arbitrary: i) auto
  moreover have "filter (settles rid) (process a i r) = [] \<and> filter (runs rid) (process a i r) = []"
    using Cons.prems by (auto simp: process_def split: sum.split)
  ultimately show ?case using Cons by (auto simp: split_beta)
qed simp

lemma doPoll_settles:
  assumes "distinct (map ob_id rs)" and "k < length rs" and "\<forall>j < i. \<not> an_aborted a j"
  shows "filter (settles (ob_id (rs ! k))) (snd (doPoll a i rs)) = expected_settlement a (i + k) (rs ! k) \<and>
    length (filter (runs (ob_id (rs ! k))) (snd (doPoll a i rs))) =
      (if \<not> stopped_before a (i + k) \<and> executable (rs ! k) then 1 else 0)"
  using assms
proof (induction rs arbitrary: i k)
  case (Cons r rs)
  show ?case
  proof (cases "an_aborted a i")
    case True
    then have "stopped_before a (i + k)" unfolding stopped_before_def using le_add1 by blast
    with True show ?thesis using release_rest_filter [OF Cons.prems(1,2)]
      by (simp add: expected_settlement_def del: release_rest.simps)
  next
    case False
    then have prev: "\<forall>j < Suc i. \<not> an_aborted a j" using Cons.prems(3) by (auto simp: less_Suc_eq)
    then have ns: "\<not> stopped_before a i" by (auto simp: stopped_before_def)
    show ?thesis
    proof (cases k)
      case 0
      have "ob_id r \<notin> ob_id ` set rs" using Cons.prems(1) by auto
      with 0 False ns doPoll_other [of "ob_id r" rs a "Suc i"] process_filter [OF ns, of _ r] show ?thesis
        by (auto simp: split_beta executable_def split: sum.splits)
    next
      case (Suc k')
      then have "rs ! k' \<in> set rs" using Cons.prems(2) by simp
      then have "ob_id (rs ! k') \<in> ob_id ` set rs" by (rule imageI)
      then have "ob_id (rs ! k') \<noteq> ob_id r" using Cons.prems(1) by auto
      with Suc False Cons.IH [of k' "Suc i"] Cons.prems(1,2) prev process_filter [OF ns, of "ob_id (rs ! k')" r]
      show ?thesis by (auto simp: split_beta split: sum.splits)
    qed
  qed
qed simp

text \<open>
  C28. A poll settles every record it has claimed: for each one it makes exactly the settling calls its
  fate demands. A record that is reached after the worker was stopped is only handed back; an
  unacceptable record is failed without being run; an acceptable one is run exactly once, and then
  completed, or handed back when the run failed, or both when completing failed.
\<close>

theorem poll_settles_every_record:
  assumes "distinct (map ob_id rs)" and "k < length rs"
  shows "filter (settles (ob_id (rs ! k))) (snd (doPoll a 0 rs)) = expected_settlement a k (rs ! k) \<and>
    length (filter (runs (ob_id (rs ! k))) (snd (doPoll a 0 rs))) =
      (if \<not> stopped_before a k \<and> executable (rs ! k) then 1 else 0)"
  using doPoll_settles [OF assms, of 0 a] by simp

theorem poll_settles_every_record_witness:
  "filter (settles ''y'') (snd (doPoll \<lparr>an_aborted = (\<lambda>i. i = 1), an_run = (\<lambda>_. True), an_complete = (\<lambda>_. True),
      an_retry = (\<lambda>_. True), an_fail = (\<lambda>_. True)\<rparr> 0 [sample_outbox ''x'', sample_outbox ''y''])) = [RetryCall ''y'']"
proof -
  let ?a = "\<lparr>an_aborted = (\<lambda>i. i = 1), an_run = (\<lambda>_. True), an_complete = (\<lambda>_. True),
      an_retry = (\<lambda>_. True), an_fail = (\<lambda>_. True)\<rparr>"
  have d: "distinct (map ob_id [sample_outbox ''x'', sample_outbox ''y''])"
    "1 < length [sample_outbox ''x'', sample_outbox ''y'']" by (simp_all add: sample_outbox_def)
  have s: "stopped_before ?a 1" by (auto simp: stopped_before_def)
  from poll_settles_every_record [OF d, of ?a] s show ?thesis
    by (simp add: expected_settlement_def sample_outbox_def)
qed

section \<open>Polling while started, silence after a stop\<close>

text \<open>Events in an order in which no start comes while a stop is still waiting for the poll.\<close>

fun orderly :: "worker \<Rightarrow> outbox_event list \<Rightarrow> bool" where
  "orderly w [] \<longleftrightarrow> True"
| "orderly w (e # es) \<longleftrightarrow> (e = StartCall \<longrightarrow> wk_stopping w = 0) \<and> orderly (outbox_step e w) es"

text \<open>A worker waits for its timeout, waits for the poll that a timeout has begun, or is stopped.\<close>

inductive well_timed :: "worker \<Rightarrow> bool" where
  waiting: "wk_started w \<Longrightarrow> wk_timer w = Some t \<Longrightarrow> wk_timers w = [t] \<Longrightarrow> wk_chained w = 0 \<Longrightarrow>
    wk_stopping w = 0 \<Longrightarrow> well_timed w"
| polling: "wk_started w \<Longrightarrow> wk_timer w = None \<Longrightarrow> wk_timers w = [] \<Longrightarrow> wk_chained w = 1 \<Longrightarrow>
    wk_poll w \<Longrightarrow> wk_stopping w = 0 \<Longrightarrow> well_timed w"
| stopped: "\<not> wk_started w \<Longrightarrow> wk_timer w = None \<Longrightarrow> wk_timers w = [] \<Longrightarrow> wk_chained w = 0 \<Longrightarrow>
    wk_poll w \<or> wk_stopping w = 0 \<Longrightarrow> well_timed w"
| stopping: "\<not> wk_started w \<Longrightarrow> wk_timer w = None \<Longrightarrow> wk_timers w = [] \<Longrightarrow> wk_chained w = 1 \<Longrightarrow>
    wk_poll w \<Longrightarrow> wk_stopping w > 0 \<Longrightarrow> well_timed w"

lemma well_timed_start: "well_timed w \<Longrightarrow> wk_stopping w = 0 \<Longrightarrow> well_timed (start w)"
  by (cases rule: well_timed.cases, assumption)
    (auto simp: start_def schedule_def intro: well_timed.intros well_timed.waiting)

lemma stop_fields:
  "wk_started (stop w) = False" "wk_timer (stop w) = None" "wk_poll (stop w) = wk_poll w"
  "wk_chained (stop w) = wk_chained w" "wk_stopping (stop w) = (if wk_poll w then wk_stopping w + 1 else wk_stopping w)"
  "wk_timers (stop w) = (case wk_timer w of Some t \<Rightarrow> filter (\<lambda>u. u \<noteq> t) (wk_timers w) | None \<Rightarrow> wk_timers w)"
  by (simp_all add: stop_def Let_def split: option.split)

lemma well_timed_stop:
  assumes "well_timed w"
  shows "well_timed (stop w)"
  using assms
proof cases
  case waiting
  then show ?thesis by (intro well_timed.stopped) (auto simp: stop_fields)
next
  case polling
  then show ?thesis by (intro well_timed.stopping) (auto simp: stop_fields)
next
  case stopped
  then show ?thesis by (intro well_timed.stopped) (auto simp: stop_fields)
next
  case stopping
  then show ?thesis by (intro well_timed.stopping) (auto simp: stop_fields)
qed

lemma well_timed_pollOnce: "well_timed w \<Longrightarrow> well_timed (pollOnce w)"
  by (cases rule: well_timed.cases, assumption) (auto simp: pollOnce_def intro: well_timed.intros)

lemma well_timed_timer:
  assumes "well_timed w"
  shows "well_timed (outbox_timer_fires t w)"
  using assms
proof cases
  case (waiting u)
  show ?thesis
  proof (cases "t = u")
    case True
    with waiting show ?thesis by (intro well_timed.polling) (auto simp: outbox_timer_fires_def pollOnce_def)
  next
    case False
    with waiting show ?thesis by (simp add: outbox_timer_fires_def well_timed.waiting)
  qed
qed (use assms in \<open>simp_all add: outbox_timer_fires_def\<close>)

lemma schedule_stopped: "\<not> wk_started w \<Longrightarrow> (schedule ^^ n) w = w"
  by (induction n) (simp_all add: schedule_def)

lemma well_timed_poll_settles:
  assumes "well_timed w"
  shows "well_timed (poll_settles w)"
  using assms
proof cases
  case (waiting t)
  then show ?thesis by (intro well_timed.waiting) (auto simp: poll_settles_def Let_def)
next
  case polling
  then show ?thesis by (intro well_timed.waiting) (auto simp: poll_settles_def schedule_def Let_def)
next
  case stopped
  then show ?thesis by (intro well_timed.stopped) (auto simp: poll_settles_def Let_def)
next
  case stopping
  then show ?thesis by (intro well_timed.stopped) (auto simp: poll_settles_def schedule_def Let_def)
qed

lemma well_timed_step:
  assumes "well_timed w" and "e = StartCall \<longrightarrow> wk_stopping w = 0"
  shows "well_timed (outbox_step e w)"
  using assms
  by (cases e) (simp_all add: well_timed_start well_timed_stop well_timed_pollOnce well_timed_timer well_timed_poll_settles)

lemma well_timed_chain:
  "well_timed w \<Longrightarrow>
   (wk_started w \<longrightarrow> length (wk_timers w) + wk_chained w = 1) \<and> (\<not> wk_started w \<longrightarrow> wk_timers w = [])"
  by (cases rule: well_timed.cases, assumption) simp_all

text \<open>
  The worker polls while it is started and is silent after a stop: in every orderly sequence of
  starts, stops, manual polls, timeouts and ends of polls, a started worker has exactly one timeout
  pending or one timer callback waiting for the poll in flight, so the chain of polls neither
  breaks nor doubles; and a stopped worker has no timeout that could still fire.
\<close>

theorem outbox_polling_single_chain:
  assumes "orderly new_worker es"
  shows "let w = fold outbox_step es new_worker in
    (wk_started w \<longrightarrow> length (wk_timers w) + wk_chained w = 1) \<and> (\<not> wk_started w \<longrightarrow> wk_timers w = [])"
proof -
  have "orderly w es \<Longrightarrow> well_timed w \<Longrightarrow> well_timed (fold outbox_step es w)" for w es
    by (induction es arbitrary: w) (auto simp: well_timed_step)
  moreover have "well_timed new_worker" by (rule well_timed.stopped) (simp_all add: new_worker_def)
  ultimately have "well_timed (fold outbox_step es new_worker)" using assms by blast
  then show ?thesis
    unfolding Let_def by (rule well_timed_chain)
qed

theorem outbox_polling_single_chain_witness:
  "wk_timers (fold outbox_step [StartCall, TimeoutFires 0, PollSettles, StopCall] new_worker) = []"
proof -
  have o: "orderly new_worker [StartCall, TimeoutFires 0, PollSettles, StopCall]" by code_simp
  have s: "\<not> wk_started (fold outbox_step [StartCall, TimeoutFires 0, PollSettles, StopCall] new_worker)" by code_simp
  from outbox_polling_single_chain [OF o] s show ?thesis unfolding Let_def by blast
qed

text \<open>
  A restart while a stop still waits for the poll in flight doubles the chain of polls: one of the
  two timeouts is forgotten, and the next stop leaves it pending.
\<close>

lemma restart_leaves_timer:
  "let w = fold outbox_step [StartCall, TimeoutFires 0, StopCall, StartCall, PollSettles, StopCall] new_worker
   in \<not> wk_started w \<and> wk_timers w = [1] \<and> wk_controller w = None"
  by code_simp

end
