(* ===== verification/Posix_Paths.thy ===== *)
theory Posix_Paths
  imports Prelude "HOL-Library.Sublist"
begin

text \<open>
  What the server uses of node:path on POSIX: \<open>resolve\<close>, \<open>relative\<close>, \<open>dirname\<close> and \<open>isAbsolute\<close>. A
  normal absolute path is the image \<open>abs_path cs\<close> of a list of good components, so that the path
  functions become functions on lists of components.
\<close>

section \<open>Components\<close>

definition slash :: char where
  "slash = CHR ''/''"

definition is_absolute :: "string \<Rightarrow> bool" where
  "is_absolute p \<longleftrightarrow> js_starts_with p [slash]"

text \<open>The segments of a path, with dots and empty segments removed and parent segments applied.\<close>

fun normalize :: "string list \<Rightarrow> string list \<Rightarrow> string list" where
  "normalize acc [] = acc"
| "normalize acc (c # cs) =
     (if c = [] \<or> c = ''.'' then normalize acc cs
      else if c = ''..'' then normalize (butlast acc) cs
      else normalize (acc @ [c]) cs)"

definition components :: "string \<Rightarrow> string list" where
  "components p = normalize [] (js_split slash p)"

definition abs_path :: "string list \<Rightarrow> string" where
  "abs_path cs = slash # js_join [slash] cs"

definition resolve_path :: "string \<Rightarrow> string \<Rightarrow> string" where
  "resolve_path cwd p =
     abs_path (normalize (if is_absolute p then [] else components cwd) (js_split slash p))"

definition dirname :: "string \<Rightarrow> string" where
  "dirname p = abs_path (butlast (components p))"

fun common_length :: "string list \<Rightarrow> string list \<Rightarrow> nat" where
  "common_length (a # as) (b # bs) = (if a = b then Suc (common_length as bs) else 0)"
| "common_length _ _ = 0"

definition relative_components :: "string list \<Rightarrow> string list \<Rightarrow> string list" where
  "relative_components from to =
     (let k = common_length from to in replicate (length from - k) ''..'' @ drop k to)"

definition relative_path :: "string \<Rightarrow> string \<Rightarrow> string \<Rightarrow> string" where
  "relative_path cwd from to =
     js_join [slash] (relative_components (components (resolve_path cwd from)) (components (resolve_path cwd to)))"

section \<open>Normal paths\<close>

definition good_component :: "string \<Rightarrow> bool" where
  "good_component c \<longleftrightarrow> c \<noteq> [] \<and> c \<noteq> ''.'' \<and> c \<noteq> ''..'' \<and> slash \<notin> set c"

definition good_components :: "string list \<Rightarrow> bool" where
  "good_components cs \<longleftrightarrow> list_all good_component cs"

lemma good_components_simps [simp]:
  "good_components []" "good_components (c # cs) \<longleftrightarrow> good_component c \<and> good_components cs"
  "good_components (as @ bs) \<longleftrightarrow> good_components as \<and> good_components bs"
  by (simp_all add: good_components_def)

lemma good_butlast: "good_components cs \<Longrightarrow> good_components (butlast cs)"
  by (auto simp: good_components_def list_all_iff dest: in_set_butlastD)

lemma normalize_good:
  "good_components acc \<Longrightarrow> list_all (\<lambda>c. slash \<notin> set c) cs \<Longrightarrow> good_components (normalize acc cs)"
  by (induction acc cs rule: normalize.induct) (auto simp: good_butlast good_component_def)

lemma normalize_good_id: "good_components cs \<Longrightarrow> normalize acc cs = acc @ cs"
  by (induction cs arbitrary: acc) (auto simp: good_component_def)

lemma split_no_slash: "list_all (\<lambda>c. slash \<notin> set c) (js_split slash p)"
  by (auto simp: list_all_iff dest: js_split_no_sep)

lemma components_good [simp]: "good_components (components p)"
  by (simp add: components_def normalize_good split_no_slash)

lemma js_split_no: "c \<notin> set p \<Longrightarrow> js_split c p = [p]"
  by (induction p) auto

lemma js_split_append: "c \<notin> set p \<Longrightarrow> js_split c (p @ c # q) = p # js_split c q"
  by (induction p) auto

lemma js_split_join: "cs \<noteq> [] \<Longrightarrow> list_all (\<lambda>p. c \<notin> set p) cs \<Longrightarrow> js_split c (js_join [c] cs) = cs"
  by (induction "[c]" cs rule: js_join.induct) (auto simp: js_split_no js_split_append)

lemma good_no_slash: "good_components cs \<Longrightarrow> list_all (\<lambda>p. slash \<notin> set p) cs"
  by (auto simp: good_components_def list_all_iff good_component_def)

lemma components_abs_path [simp]: "good_components cs \<Longrightarrow> components (abs_path cs) = cs"
proof (cases "cs = []")
  case False
  assume g: "good_components cs"
  from js_split_join [OF False good_no_slash [OF g]] show ?thesis
    using normalize_good_id [OF g, of "[]"] by (simp add: components_def abs_path_def)
qed (simp add: components_def abs_path_def)

lemma abs_path_inject: "good_components a \<Longrightarrow> good_components b \<Longrightarrow> abs_path a = abs_path b \<longleftrightarrow> a = b"
  by (metis components_abs_path)

text \<open>A normal path is the resolution of some path.\<close>

definition normal_path :: "string \<Rightarrow> bool" where
  "normal_path p \<longleftrightarrow> p = abs_path (components p)"

lemma normal_abs_path [simp]: "good_components cs \<Longrightarrow> normal_path (abs_path cs)"
  by (simp add: normal_path_def)

lemma resolve_good: "good_components (normalize (if is_absolute p then [] else components cwd) (js_split slash p))"
  by (rule normalize_good) (simp_all add: split_no_slash)

lemma normal_resolve [simp]: "normal_path (resolve_path cwd p)"
  unfolding resolve_path_def by (rule normal_abs_path [OF resolve_good])

lemma normal_dirname [simp]: "normal_path (dirname p)"
  by (simp add: dirname_def good_butlast)

lemma components_dirname [simp]: "components (dirname p) = butlast (components p)"
  by (simp add: dirname_def good_butlast)

lemma absolute_abs_path [simp]: "is_absolute (abs_path cs)"
  by (simp add: is_absolute_def abs_path_def js_starts_with_def)

lemma resolve_normal [simp]: "normal_path p \<Longrightarrow> resolve_path cwd p = p"
proof -
  assume p: "normal_path p"
  then have "is_absolute p" by (metis absolute_abs_path normal_path_def)
  then have "resolve_path cwd p = abs_path (components p)" by (simp add: resolve_path_def components_def)
  with p show ?thesis by (simp add: normal_path_def)
qed

section \<open>Relative paths\<close>

lemma common_length_le: "common_length a b \<le> length a" "common_length a b \<le> length b"
  by (induction a b rule: common_length.induct) auto

lemma common_length_append [simp]: "common_length a (a @ b) = length a"
  by (induction a) auto

lemma common_length_prefix: "common_length a b = length a \<longleftrightarrow> prefix a b"
  by (induction a b rule: common_length.induct) auto

lemma common_length_take: "take (common_length a b) a = take (common_length a b) b"
  by (induction a b rule: common_length.induct) auto

lemma relative_prefix: "relative_components a (a @ b) = b"
  by (simp add: relative_components_def)

lemma relative_outside:
  assumes "\<not> prefix a b"
  obtains ds where "relative_components a b = ''..'' # ds"
proof -
  have "common_length a b < length a"
    using assms common_length_le(1) [of a b] common_length_prefix [of a b] by linarith
  then obtain n where "length a - common_length a b = Suc n" by (metis Suc_diff_Suc)
  then show thesis by (intro that) (simp add: relative_components_def)
qed

text \<open>Going back: resolving a relative path from where it starts.\<close>

lemma normalize_parents:
  "length acc \<ge> n \<Longrightarrow> normalize acc (replicate n ''..'' @ cs) = normalize (take (length acc - n) acc) cs"
proof (induction n arbitrary: acc)
  case (Suc n)
  then have "length (butlast acc) \<ge> n" by simp
  from Suc.IH [OF this] Suc.prems show ?case
    by (simp add: butlast_conv_take min_def)
qed simp

lemma normalize_relative:
  assumes "good_components to"
  shows "normalize from (relative_components from to) = to"
proof -
  let ?k = "common_length from to"
  have "good_components (drop ?k to)" using assms
    by (auto simp: good_components_def list_all_iff dest: in_set_dropD)
  then have "normalize from (relative_components from to) = take ?k from @ drop ?k to"
    using normalize_parents [of "length from - ?k" "from" "drop ?k to"] common_length_le(1) [of "from" to]
    by (simp add: relative_components_def Let_def normalize_good_id)
  also have "\<dots> = take ?k to @ drop ?k to" unfolding common_length_take [of "from" to] ..
  finally show ?thesis by simp
qed

end
