(* ===== verification/Path_Policy.thy ===== *)
theory Path_Policy
  imports Posix_Paths
begin

text \<open>
  The path policy of the browser file system interface (web/server/path-policy.ts): which host paths
  a request may name. The working directory and the file system are the record \<open>host\<close>:
  \<open>host_realpath\<close> is \<open>realpathSync\<close>, None where it throws, and \<open>host_exists\<close> is \<open>existsSync\<close>. An exception
  that leaves a function is a left value.
\<close>

record host =
  host_cwd :: string
  host_exists :: "string \<Rightarrow> bool"
  host_realpath :: "string \<Rightarrow> string option"

datatype path_failure = RealpathThrew | ArgumentType

section \<open>Session identifiers\<close>

definition is_hex :: "char \<Rightarrow> bool" where
  "is_hex c \<longleftrightarrow> is_digit c \<or> of_char c \<in> {65..70 :: nat} \<or> of_char c \<in> {97..102 :: nat}"

text \<open>\<open>ENCODED_PATH_SYNTAX\<close>: a percent sign with two hexadecimal digits, anywhere.\<close>

fun ENCODED_PATH_SYNTAX :: "string \<Rightarrow> bool" where
  "ENCODED_PATH_SYNTAX (a # b # c # cs) \<longleftrightarrow>
     a = CHR ''%'' \<and> is_hex b \<and> is_hex c \<or> ENCODED_PATH_SYNTAX (b # c # cs)"
| "ENCODED_PATH_SYNTAX _ \<longleftrightarrow> False"

definition SESSION_ID_PATTERN :: "string \<Rightarrow> bool" where
  "SESSION_ID_PATTERN s \<longleftrightarrow>
     (case s of
        [] \<Rightarrow> False
      | c # cs \<Rightarrow> is_alnum c \<and> length cs \<le> 199 \<and> list_all (\<lambda>d. is_alnum d \<or> d = CHR ''_'' \<or> d = CHR ''-'') cs)"

definition backslash_char :: char where
  "backslash_char = char_of (92::nat)"

definition requireSessionId :: "json \<Rightarrow> string option" where
  "requireSessionId v =
     (let s = str_of v in
      if \<not> is_js_string v \<or> length s = 0 \<or> s \<noteq> js_trim s \<or> s = ''.'' \<or> s = ''..'' \<or>
         js_includes s slash \<or> js_includes s backslash_char \<or> js_includes s CHR '':'' \<or> js_includes s nul \<or>
         ENCODED_PATH_SYNTAX s \<or> \<not> SESSION_ID_PATTERN s
      then None else Some s)"

section \<open>Containment\<close>

definition isPathInside :: "host \<Rightarrow> string \<Rightarrow> string \<Rightarrow> bool" where
  "isPathInside h root candidate =
     (let rel = relative_path (host_cwd h) root candidate
      in rel = [] \<or> (\<not> js_starts_with rel ''..'' \<and> \<not> is_absolute rel))"

text \<open>\<open>split(/[\\/]+/).filter(Boolean)\<close>: at slashes and backslashes, without the empty parts.\<close>

definition path_words :: "string \<Rightarrow> string list" where
  "path_words s = filter (\<lambda>w. w \<noteq> []) (js_split slash (map (\<lambda>c. if c = backslash_char then slash else c) s))"

definition relativePathComponents :: "host \<Rightarrow> string \<Rightarrow> string \<Rightarrow> string list option" where
  "relativePathComponents h path root =
     (let absoluteRoot = resolve_path (host_cwd h) root; absolutePath = resolve_path (host_cwd h) path in
      if \<not> isPathInside h absoluteRoot absolutePath then None
      else Some (map js_lower (path_words (relative_path (host_cwd h) absoluteRoot absolutePath))))"

section \<open>Protected names\<close>

definition PROTECTED_RUNTIME_ROOT_SEGMENTS :: "string list" where
  "PROTECTED_RUNTIME_ROOT_SEGMENTS =
     [''.operations'', ''.quarantine'', ''pi-resources'', ''profile'', ''recordings'', ''user-space-checkouts'']"

definition PROTECTED_RUNTIME_FILES :: "string list" where
  "PROTECTED_RUNTIME_FILES = [''preferences.json'', ''profile.json'', ''session.json'', ''workspace-state.json'']"

definition PRIVATE_SESSION_SEGMENTS :: "string list" where
  "PRIVATE_SESSION_SEGMENTS =
     [''home'', ''tmp'', ''pi-config'', ''pi-sessions'', ''recordings'', ''user-space-checkouts'']"

definition isProtectedRuntimeFileComponent :: "string \<Rightarrow> bool" where
  "isProtectedRuntimeFileComponent component \<longleftrightarrow>
     list_ex (\<lambda>protectedName. component = protectedName \<or> js_starts_with component (protectedName @ ''.'') \<or>
        js_starts_with component (''.'' @ protectedName @ ''.'')) PROTECTED_RUNTIME_FILES"

definition containsProtectedSessionEntry :: "string list \<Rightarrow> nat \<Rightarrow> bool" where
  "containsProtectedSessionEntry cs sessionIndex =
     (if sessionIndex + 1 \<ge> length cs then False
      else
        let entry = cs ! (sessionIndex + 1)
        in entry \<in> set PROTECTED_RUNTIME_ROOT_SEGMENTS \<or> entry \<in> set PRIVATE_SESSION_SEGMENTS \<or>
           isProtectedRuntimeFileComponent entry)"

fun containsProtectedRelativePath :: "string list \<Rightarrow> bool" where
  "containsProtectedRelativePath [] = False"
| "containsProtectedRelativePath (first # rest) =
     (if first \<in> set PROTECTED_RUNTIME_ROOT_SEGMENTS \<or> isProtectedRuntimeFileComponent first then True
      else if first = ''sessions'' then
        (case rest of
           [] \<Rightarrow> False
         | registryEntry # _ \<Rightarrow>
             if registryEntry = ''.operations'' \<or> registryEntry = ''.quarantine'' \<or>
                isProtectedRuntimeFileComponent registryEntry then True
             else containsProtectedSessionEntry (first # rest) 1)
      else containsProtectedSessionEntry (first # rest) 0)"

section \<open>The file system\<close>

text \<open>\<open>nearestExistingPath\<close>: the loop goes up until a path exists or the parent is the path itself.\<close>

function nearestExistingPath :: "host \<Rightarrow> string \<Rightarrow> string" where
  "nearestExistingPath h cursor =
     (if host_exists h cursor then cursor
      else if dirname cursor = cursor then cursor
      else nearestExistingPath h (dirname cursor))"
  by pat_completeness auto

text \<open>A path that is not normal becomes normal by its first step up.\<close>

termination
proof (relation "measure (\<lambda>(h, p). length (components p) + (if normal_path p then 0 else 1))")
  fix h :: host and p :: string
  assume "dirname p \<noteq> p"
  then have "components p \<noteq> [] \<or> \<not> normal_path p"
    by (auto simp: dirname_def normal_path_def)
  then show "((h, dirname p), (h, p)) \<in> measure (\<lambda>(h, p). length (components p) + (if normal_path p then 0 else 1))"
    by auto
qed simp

declare nearestExistingPath.simps [simp del]

definition canonicalRoot :: "host \<Rightarrow> string \<Rightarrow> path_failure + string" where
  "canonicalRoot h path =
     (let absolute = resolve_path (host_cwd h) path in
      if host_exists h absolute
      then (case host_realpath h absolute of Some p \<Rightarrow> Inr p | None \<Rightarrow> Inl RealpathThrew)
      else Inr absolute)"

definition protected_below :: "host \<Rightarrow> string \<Rightarrow> string \<Rightarrow> bool" where
  "protected_below h path candidateRoot =
     (case relativePathComponents h path candidateRoot of
        Some cs \<Rightarrow> containsProtectedRelativePath cs
      | None \<Rightarrow> False)"

text \<open>The two candidates of a root are tried in order; a root whose canonical form throws ends the search.\<close>

fun containsProtectedRuntimePath :: "host \<Rightarrow> string \<Rightarrow> string list \<Rightarrow> path_failure + bool" where
  "containsProtectedRuntimePath h path [] = Inr False"
| "containsProtectedRuntimePath h path (root # roots) =
     bind_result (canonicalRoot h root) (\<lambda>canonical.
       if list_ex (protected_below h path) [resolve_path (host_cwd h) root, canonical]
       then Inr True else containsProtectedRuntimePath h path roots)"

definition isCanonicalPathInside :: "host \<Rightarrow> string \<Rightarrow> string \<Rightarrow> bool" where
  "isCanonicalPathInside h root candidate =
     (let absolute = resolve_path (host_cwd h) candidate; existing = nearestExistingPath h absolute in
      case host_realpath h existing of
        None \<Rightarrow> False
      | Some real \<Rightarrow>
          (case canonicalRoot h root of
             Inl _ \<Rightarrow> False
           | Inr canonical \<Rightarrow>
               isPathInside h canonical
                 (resolve_path (resolve_path (host_cwd h) real) (relative_path (host_cwd h) existing absolute))))"

definition canonical_candidate :: "host \<Rightarrow> string \<Rightarrow> string \<Rightarrow> string \<Rightarrow> string" where
  "canonical_candidate h real existing absolute =
     resolve_path (resolve_path (host_cwd h) real) (relative_path (host_cwd h) existing absolute)"

definition resolveScopedPath :: "host \<Rightarrow> json \<Rightarrow> string list \<Rightarrow> path_failure + string option" where
  "resolveScopedPath h rawPath allowedRoots =
     (if \<not> is_js_string rawPath \<or> length (str_of rawPath) = 0 \<or> js_includes (str_of rawPath) nul \<or>
         ENCODED_PATH_SYNTAX (str_of rawPath) then Inr None
      else
        let absolute = resolve_path (host_cwd h) (str_of rawPath) in
        bind_result (map_result (canonicalRoot h) allowedRoots) (\<lambda>canonicals.
          if \<not> list_ex (\<lambda>root. isPathInside h (resolve_path (host_cwd h) root) absolute) allowedRoots then Inr None
          else
            let existing = nearestExistingPath h absolute in
            if \<not> host_exists h existing then Inr None
            else
              (case host_realpath h existing of
                 None \<Rightarrow> Inr None
               | Some real \<Rightarrow>
                   if list_ex (\<lambda>canonical. isPathInside h canonical (canonical_candidate h real existing absolute)) canonicals
                   then Inr (Some absolute) else Inr None)))"

text \<open>The second half of \<open>resolveUnprotectedScopedPath\<close>: the path behind symbolic links.\<close>

definition unless_aliased :: "host \<Rightarrow> string \<Rightarrow> string list \<Rightarrow> string option" where
  "unless_aliased h path allowedRoots =
     (if path = [] then None
      else
        let existing = nearestExistingPath h path in
        (case host_realpath h existing of
           None \<Rightarrow> None
         | Some real \<Rightarrow>
             (case containsProtectedRuntimePath h (canonical_candidate h real existing path) allowedRoots of
                Inl _ \<Rightarrow> None
              | Inr hidden \<Rightarrow> if hidden then None else Some path)))"

definition resolveUnprotectedScopedPath :: "host \<Rightarrow> json \<Rightarrow> string list \<Rightarrow> path_failure + string option" where
  "resolveUnprotectedScopedPath h rawPath allowedRoots =
     (if \<not> is_js_string rawPath \<and> allowedRoots \<noteq> [] then Inl ArgumentType
      else bind_result (containsProtectedRuntimePath h (str_of rawPath) allowedRoots) (\<lambda>hidden.
        if hidden then Inr None
        else bind_result (resolveScopedPath h rawPath allowedRoots) (\<lambda>scoped.
          Inr (case scoped of None \<Rightarrow> None | Some path \<Rightarrow> unless_aliased h path allowedRoots))))"

section \<open>Session identifiers are one safe segment\<close>

lemma char_values: "backslash_char = CHR 0x5C" "nul = CHR 0x00" "slash = CHR 0x2F"
  by code_simp+

lemma session_char_safe:
  assumes "is_alnum c \<or> c = CHR ''_'' \<or> c = CHR ''-''"
  shows "c \<noteq> slash" "c \<noteq> backslash_char" "c \<noteq> CHR '':''" "c \<noteq> nul" "c \<noteq> CHR ''%''" "c \<noteq> CHR ''.''" "\<not> js_space c"
  using assms
  by (auto simp: is_alnum_def is_digit_def is_upper_def is_lower_def char_values js_space_def)

lemma encoded_needs_percent: "CHR ''%'' \<notin> set s \<Longrightarrow> \<not> ENCODED_PATH_SYNTAX s"
  by (induction s rule: ENCODED_PATH_SYNTAX.induct) auto

lemma trim_no_space: "\<forall>c \<in> set s. \<not> js_space c \<Longrightarrow> js_trim s = s"
proof -
  have d: "\<forall>c \<in> set s. \<not> js_space c \<Longrightarrow> dropWhile js_space s = s" for s by (cases s) auto
  assume "\<forall>c \<in> set s. \<not> js_space c"
  with d [of s] d [of "rev s"] show ?thesis by (simp add: js_trim_def)
qed

text \<open>
  A session identifier is accepted exactly when it matches the pattern: one to two hundred letters,
  digits, underscores and hyphens, not beginning with an underscore or hyphen. The other checks
  (surrounding blanks, dots, separators, drive letters, NUL, percent escapes) are implied, so an
  accepted identifier is a single path segment that no decoding can turn into something else.
\<close>

theorem session_id_iff_pattern:
  "requireSessionId v = Some s \<longleftrightarrow> v = JString s \<and> SESSION_ID_PATTERN s"
proof -
  have "requireSessionId (JString s) = Some s" if p: "SESSION_ID_PATTERN s"
  proof -
    from p have cs: "\<forall>c \<in> set s. is_alnum c \<or> c = CHR ''_'' \<or> c = CHR ''-''" and ne: "s \<noteq> []"
      by (auto simp: SESSION_ID_PATTERN_def list_all_iff split: list.splits)
    have safe: "slash \<notin> set s" "backslash_char \<notin> set s" "CHR '':'' \<notin> set s" "nul \<notin> set s" "CHR ''%'' \<notin> set s"
      "CHR ''.'' \<notin> set s"
      using cs session_char_safe(1) [of slash] session_char_safe(2) [of backslash_char]
        session_char_safe(3) [of "CHR '':''"] session_char_safe(4) [of nul] session_char_safe(5) [of "CHR ''%''"]
        session_char_safe(6) [of "CHR ''.''"] by auto
    have "js_trim s = s"
    proof (rule trim_no_space, rule ballI)
      fix c assume "c \<in> set s"
      with cs have "is_alnum c \<or> c = CHR ''_'' \<or> c = CHR ''-''" by blast
      then show "\<not> js_space c" by (rule session_char_safe(7))
    qed
    moreover have "s \<noteq> ''.''" "s \<noteq> ''..''" using safe(6) by auto
    moreover have "\<not> ENCODED_PATH_SYNTAX s" by (rule encoded_needs_percent [OF safe(5)])
    ultimately show ?thesis using p ne safe(1-4) unfolding requireSessionId_def js_includes_def Let_def
      by (simp del: ENCODED_PATH_SYNTAX.simps)
  qed
  moreover have "requireSessionId v = Some s \<Longrightarrow> v = JString s \<and> SESSION_ID_PATTERN s"
    by (auto simp: requireSessionId_def Let_def is_js_string_iff split: if_splits)
  ultimately show ?thesis by blast
qed

section \<open>Containment on components\<close>

definition comps :: "host \<Rightarrow> string \<Rightarrow> string list" where
  "comps h p = components (resolve_path (host_cwd h) p)"

lemma comps_good [simp]: "good_components (comps h p)"
  by (simp add: comps_def)

lemma resolve_comps: "resolve_path (host_cwd h) p = abs_path (comps h p)"
  using normal_resolve [of "host_cwd h" p] by (simp add: comps_def normal_path_def)

lemma comps_resolve [simp]: "comps h (resolve_path (host_cwd h) p) = comps h p"
  by (simp add: comps_def)

lemma comps_normal: "normal_path p \<Longrightarrow> comps h p = components p"
  by (simp add: comps_def)

lemma relative_comps:
  "relative_path (host_cwd h) a b = js_join [slash] (relative_components (comps h a) (comps h b))"
  by (simp add: relative_path_def comps_def)

lemma js_join_starts:
  assumes "good_components cs"
  shows "js_join [slash] cs = [] \<longleftrightarrow> cs = []"
    and "js_starts_with (js_join [slash] cs) ''..'' \<longleftrightarrow> cs \<noteq> [] \<and> js_starts_with (hd cs) ''..''"
    and "\<not> is_absolute (js_join [slash] cs)"
proof -
  have hd: "good_component c \<Longrightarrow> js_starts_with (c @ slash # r) ''..'' \<longleftrightarrow> js_starts_with c ''..''" for c r
    by (cases c; cases "tl c") (auto simp: js_starts_with_def good_component_def slash_def)
  show "js_join [slash] cs = [] \<longleftrightarrow> cs = []"
    using assms by (cases cs; cases "tl cs") (auto simp: good_component_def)
  show "js_starts_with (js_join [slash] cs) ''..'' \<longleftrightarrow> cs \<noteq> [] \<and> js_starts_with (hd cs) ''..''"
    using assms hd by (cases cs; cases "tl cs") (auto simp: js_starts_with_def)
  show "\<not> is_absolute (js_join [slash] cs)"
    using assms by (cases cs; cases "tl cs")
      (auto simp: is_absolute_def js_starts_with_def good_component_def take_Suc neq_Nil_conv)
qed

text \<open>
  Containment is a prefix of components: a candidate is inside a root exactly when, after resolving
  both against the working directory, the components of the root are a prefix of those of the candidate,
  and the first component below the root does not begin with two dots. In particular an
  accepted candidate never escapes by parent segments or by a sibling whose name extends the name of the root.
\<close>

theorem path_inside_iff:
  "isPathInside h root candidate \<longleftrightarrow>
     (\<exists>rest. comps h candidate = comps h root @ rest \<and> \<not> (rest \<noteq> [] \<and> js_starts_with (hd rest) ''..''))"
proof (cases "prefix (comps h root) (comps h candidate)")
  case True
  then obtain rest where r: "comps h candidate = comps h root @ rest" by (auto simp: prefix_def)
  then have "good_components rest" using comps_good [of h candidate] by simp
  from js_join_starts [OF this] r show ?thesis
    by (auto simp: isPathInside_def relative_comps relative_prefix Let_def)
next
  case False
  then obtain ds where "relative_components (comps h root) (comps h candidate) = ''..'' # ds"
    by (rule relative_outside)
  then have "\<not> isPathInside h root candidate"
    by (cases ds) (simp_all add: isPathInside_def relative_comps js_starts_with_def)
  with False show ?thesis by (auto simp: prefix_def)
qed

definition sample_host :: host where
  "sample_host = \<lparr>host_cwd = ''/'', host_exists = (\<lambda>p. p \<in> {''/u'', ''/u/link''}),
     host_realpath = (\<lambda>p. if p = ''/u'' then Some ''/u'' else if p = ''/u/link'' then Some ''/u/s1/home'' else None)\<rparr>"

lemma path_inside_example: "isPathInside sample_host ''/u'' ''/u/a/../b'' \<and> \<not> isPathInside sample_host ''/u'' ''/u2''"
  by code_simp

section \<open>Scoped paths\<close>

lemma nearest_prefix:
  "normal_path p \<Longrightarrow> \<exists>k. nearestExistingPath h p = abs_path (take k (components p))"
proof (induction h p rule: nearestExistingPath.induct)
  case (1 h cursor)
  have self: "cursor = abs_path (take (length (components cursor)) (components cursor))"
    using 1(2) by (simp add: normal_path_def)
  show ?case
  proof (cases "host_exists h cursor \<or> dirname cursor = cursor")
    case True
    then have "nearestExistingPath h cursor = cursor" by (auto simp: nearestExistingPath.simps [of h cursor])
    with self show ?thesis by metis
  next
    case False
    then have step: "nearestExistingPath h cursor = nearestExistingPath h (dirname cursor)"
      by (simp add: nearestExistingPath.simps [of h cursor])
    from 1(1) False obtain k where "nearestExistingPath h (dirname cursor) = abs_path (take k (butlast (components cursor)))"
      by auto
    then show ?thesis unfolding step by (metis butlast_conv_take take_take)
  qed
qed

lemma join_split_normalize: "good_components rest \<Longrightarrow> normalize acc (js_split slash (js_join [slash] rest)) = acc @ rest"
  by (cases "rest = []") (simp_all add: js_split_join good_no_slash normalize_good_id)

lemma canonical_candidate_components:
  assumes "good_components pre" and "good_components rest"
  shows "components (canonical_candidate h real (abs_path pre) (abs_path (pre @ rest))) = comps h real @ rest"
proof -
  have "relative_path (host_cwd h) (abs_path pre) (abs_path (pre @ rest)) = js_join [slash] rest"
    using assms by (simp add: relative_comps comps_normal relative_prefix)
  then show ?thesis
    using assms join_split_normalize [OF assms(2), of "comps h real"] js_join_starts(3) [OF assms(2)]
    by (simp add: canonical_candidate_def resolve_path_def [of "resolve_path (host_cwd h) real"] comps_def)
qed

text \<open>
  The existing part of a resolved path and what comes below it.
\<close>

lemma existing_split:
  fixes h :: host and raw :: string
  defines "p \<equiv> resolve_path (host_cwd h) raw"
  obtains pre rest where "components p = pre @ rest" "nearestExistingPath h p = abs_path pre"
    "\<And>real. components (canonical_candidate h real (nearestExistingPath h p) p) = comps h real @ rest"
proof -
  have n: "normal_path p" by (simp add: p_def)
  from nearest_prefix [OF n, of h] obtain k where k: "nearestExistingPath h p = abs_path (take k (components p))" ..
  have g: "good_components (take k (components p))" "good_components (drop k (components p))"
    using components_good [of p] by (auto simp: good_components_def list_all_iff dest: in_set_takeD in_set_dropD)
  have "p = abs_path (take k (components p) @ drop k (components p))" using n by (simp add: normal_path_def)
  with canonical_candidate_components [OF g, of h] k show thesis
    by (intro that [of "take k (components p)" "drop k (components p)"]) auto
qed

text \<open>
  A scoped path is confined. If \<open>resolveScopedPath\<close> returns a path, it is the resolution of a request
  without NUL and without percent escapes; its components extend those of an allowed root; and
  with its existing part replaced by its real path (every symbolic link followed), what is left of it
  extends the components of the canonical form of an allowed root. So neither parent
  segments nor a symbolic link on the way lead out of the roots.
\<close>

theorem scoped_path_confined:
  assumes "resolveScopedPath h rawPath roots = Inr (Some p)"
  shows "p = resolve_path (host_cwd h) (str_of rawPath) \<and> nul \<notin> set (str_of rawPath) \<and>
    \<not> ENCODED_PATH_SYNTAX (str_of rawPath) \<and>
    (\<exists>root \<in> set roots. prefix (comps h root) (components p)) \<and>
    (\<exists>pre rest real root canonical. components p = pre @ rest \<and> host_realpath h (abs_path pre) = Some real \<and>
       root \<in> set roots \<and> canonicalRoot h root = Inr canonical \<and> prefix (comps h canonical) (comps h real @ rest))"
proof -
  let ?p = "resolve_path (host_cwd h) (str_of rawPath)"
  let ?e = "nearestExistingPath h ?p"
  from assms obtain canonicals where p: "p = ?p" and clean: "nul \<notin> set (str_of rawPath)" "\<not> ENCODED_PATH_SYNTAX (str_of rawPath)"
    and cs: "map_result (canonicalRoot h) roots = Inr canonicals"
    and lex: "list_ex (\<lambda>root. isPathInside h (resolve_path (host_cwd h) root) ?p) roots"
    and real: "case host_realpath h ?e of None \<Rightarrow> False
      | Some real \<Rightarrow> list_ex (\<lambda>canonical. isPathInside h canonical (canonical_candidate h real ?e ?p)) canonicals"
    by (auto simp: resolveScopedPath_def Let_def js_includes_def bind_result_Inr split: if_splits option.splits)
  from lex obtain root where r: "root \<in> set roots" "isPathInside h (resolve_path (host_cwd h) root) ?p"
    by (auto simp: list_ex_iff)
  then have "prefix (comps h root) (components p)"
    by (auto simp: path_inside_iff p comps_def)
  moreover
  from real obtain rp canonical where rp: "host_realpath h ?e = Some rp" "canonical \<in> set canonicals"
    "isPathInside h canonical (canonical_candidate h rp ?e ?p)"
    by (auto simp: list_ex_iff split: option.splits)
  from rp(2) cs obtain root' where root': "root' \<in> set roots" "canonicalRoot h root' = Inr canonical"
  proof -
    from rp(2) obtain i where i: "i < length canonicals" "canonicals ! i = canonical" by (auto simp: in_set_conv_nth)
    from cs have "length roots = length canonicals" "\<forall>j < length roots. canonicalRoot h (roots ! j) = Inr (canonicals ! j)"
      by (simp_all add: map_result_Inr_iff list_all2_conv_all_nth)
    with i that [of "roots ! i"] show thesis by auto
  qed
  obtain pre rest where split: "components ?p = pre @ rest" "?e = abs_path pre"
    "\<And>real. components (canonical_candidate h real ?e ?p) = comps h real @ rest"
    using existing_split [of h "str_of rawPath"] by metis
  have "normal_path (canonical_candidate h rp ?e ?p)" by (simp add: canonical_candidate_def)
  with rp(3) split(3) have "prefix (comps h canonical) (comps h rp @ rest)"
    by (auto simp: path_inside_iff comps_normal)
  ultimately show ?thesis using p clean r(1) rp(1) root' split(1,2) by metis
qed

lemma scoped_path_shape:
  "resolveScopedPath h rawPath roots = Inr (Some p) \<Longrightarrow> p = resolve_path (host_cwd h) (str_of rawPath)"
  by (auto simp: resolveScopedPath_def Let_def bind_result_Inr split: if_splits option.splits)

theorem scoped_path_confined_witness:
  "\<exists>root \<in> set [''/u'']. prefix (comps sample_host root) (components ''/u/x'')"
proof -
  have "resolveScopedPath sample_host (JString ''/u/y/../x'') [''/u''] = Inr (Some ''/u/x'')" by code_simp
  from scoped_path_confined [OF this] show ?thesis by blast
qed

section \<open>Protected positions\<close>

definition authority :: "string \<Rightarrow> bool" where
  "authority entry \<longleftrightarrow> entry \<in> set PROTECTED_RUNTIME_ROOT_SEGMENTS \<or> isProtectedRuntimeFileComponent entry"

definition session_private :: "string \<Rightarrow> bool" where
  "session_private entry \<longleftrightarrow> authority entry \<or> entry \<in> set PRIVATE_SESSION_SEGMENTS"

text \<open>
  Where the private entries of the two layouts lie below a root: product state at the root, private
  entries of a session that is a child of the root or of the directory sessions, and the state of
  that directory itself.
\<close>

definition private_position :: "string list \<Rightarrow> bool" where
  "private_position cs \<longleftrightarrow>
     (\<exists>entry post. cs = entry # post \<and> authority entry) \<or>
     (\<exists>s entry post. cs = s # entry # post \<and> s \<noteq> ''sessions'' \<and> session_private entry) \<or>
     (\<exists>entry post. cs = ''sessions'' # entry # post \<and>
        (entry = ''.operations'' \<or> entry = ''.quarantine'' \<or> isProtectedRuntimeFileComponent entry)) \<or>
     (\<exists>s entry post. cs = ''sessions'' # s # entry # post \<and> session_private entry)"

lemma protected_iff_private: "containsProtectedRelativePath cs \<longleftrightarrow> private_position cs"
proof (cases cs)
  case (Cons first rest)
  show ?thesis
  proof (cases rest)
    case Nil
    then show ?thesis
      by (auto simp: Cons private_position_def containsProtectedSessionEntry_def authority_def)
  next
    case (Cons second rest')
    then show ?thesis
      by (cases rest')
        (auto simp: \<open>cs = first # rest\<close> private_position_def containsProtectedSessionEntry_def authority_def
          session_private_def)
  qed
qed (simp add: private_position_def)

lemma path_words_join:
  assumes "good_components cs" and "list_all (\<lambda>c. backslash_char \<notin> set c) cs"
  shows "path_words (js_join [slash] cs) = cs"
proof (cases "cs = []")
  case False
  have "backslash_char \<notin> set (js_join [slash] cs)"
    using js_join_chars [of "[slash]" cs] assms(2) by (auto simp: list_all_iff char_values)
  then have "map (\<lambda>c. if c = backslash_char then slash else c) (js_join [slash] cs) = js_join [slash] cs"
    by (intro map_idI) auto
  moreover have "filter (\<lambda>w. w \<noteq> []) cs = cs"
    using assms(1) by (auto simp: good_components_def list_all_iff good_component_def intro!: filter_True)
  ultimately show ?thesis
    by (simp add: path_words_def js_split_join [OF False good_no_slash [OF assms(1)]])
qed (simp add: path_words_def)

text \<open>What lies below a root without a leading double dot or backslashes is checked.\<close>

definition checked_rest :: "string list \<Rightarrow> bool" where
  "checked_rest rest \<longleftrightarrow>
     (rest = [] \<or> \<not> js_starts_with (hd rest) ''..'') \<and> list_all (\<lambda>c. backslash_char \<notin> set c) rest"

lemma relativePathComponents_rest:
  assumes "comps h path = comps h root @ rest" and "checked_rest rest"
  shows "relativePathComponents h path root = Some (map js_lower rest)"
proof -
  have "good_components rest" using comps_good [of h path] assms(1) by simp
  then have w: "path_words (js_join [slash] rest) = rest"
    using path_words_join assms(2) by (simp add: checked_rest_def)
  have "isPathInside h (resolve_path (host_cwd h) root) (resolve_path (host_cwd h) path)"
    using assms by (auto simp: path_inside_iff checked_rest_def)
  then show ?thesis
    using w assms(1) by (simp add: relativePathComponents_def relative_comps relative_prefix)
qed

lemma unprotected_roots:
  assumes "containsProtectedRuntimePath h path roots = Inr False" and "root \<in> set roots"
  shows "\<exists>canonical. canonicalRoot h root = Inr canonical \<and>
    (\<forall>base \<in> {root, canonical}. \<forall>rest. comps h path = comps h base @ rest \<longrightarrow> checked_rest rest \<longrightarrow>
       \<not> private_position (map js_lower rest))"
  using assms
proof (induction roots)
  case (Cons r roots)
  from Cons.prems(1) obtain canonical where c: "canonicalRoot h r = Inr canonical"
    and n: "\<not> protected_below h path (resolve_path (host_cwd h) r)" "\<not> protected_below h path canonical"
    and rest: "containsProtectedRuntimePath h path roots = Inr False"
    by (auto simp: bind_result_Inr split: if_splits)
  have "\<not> private_position (map js_lower rest)"
    if "base \<in> {r, canonical}" "comps h path = comps h base @ rest" "checked_rest rest" for base rest
  proof -
    let ?b = "if base = r then resolve_path (host_cwd h) r else canonical"
    have "comps h ?b = comps h base" using that(1) by auto
    with that(2,3) relativePathComponents_rest [of h path ?b rest]
    have "relativePathComponents h path ?b = Some (map js_lower rest)" by simp
    moreover have "?b = resolve_path (host_cwd h) r \<or> ?b = canonical" using that(1) by simp
    ultimately show ?thesis using n by (auto simp: protected_iff_private protected_below_def)
  qed
  with c Cons.IH [OF rest] Cons.prems(2) show ?case by auto
qed simp

lemma unless_aliased_same: "unless_aliased h path roots = Some p \<Longrightarrow> path = p"
  by (auto simp: unless_aliased_def Let_def split: if_splits option.splits sum.splits)



end
