(* ===== verification/Task_Manager.thy ===== *)
theory Task_Manager
  imports Prelude
begin

text \<open>
  \<open>PiTaskManager\<close> (web/server/pi-task-manager.ts): the owner of the isolated children that run the
  tasks of a session and of its tasks.

  The parent contexts and the tasks are shared mutable objects, so they live in the lists \<open>tm_ctxs\<close> and
  \<open>tm_heap\<close> and are addressed by position; \<open>tm_contexts\<close> and \<open>tm_tasks\<close> are the maps that hold
  references to them. The asynchronous parts of a task (launch, prompt, notifications of the child, timers,
  the end of a clean-up) are events. Random identifiers, the clock and the answers of launcher, transport
  and brokers are arguments of the events. Sandbox policy, layout and bootstrap payload of a child are left out, and so
  are message texts; \<open>Number\<close> is a parameter.
\<close>

section \<open>State\<close>

definition MAX_PARALLEL_TASKS :: nat where "MAX_PARALLEL_TASKS = 4"
definition MAX_TASK_DEPTH :: int where "MAX_TASK_DEPTH = 2"
definition MAX_RETAINED_TASKS :: nat where "MAX_RETAINED_TASKS = 64"
definition MAX_TASK_RESULT_CHARS :: int where "MAX_TASK_RESULT_CHARS = 50000"
definition DEFAULT_TASK_RUN_TIMEOUT_MS :: int where "DEFAULT_TASK_RUN_TIMEOUT_MS = 30 * 60000"
definition DEFAULT_TASK_WAIT_MS :: int where "DEFAULT_TASK_WAIT_MS = 30000"
definition MAX_TASK_WAIT_MS :: int where "MAX_TASK_WAIT_MS = 30 * 60000"

datatype task_status = Starting | Running | Completed | Failed | Stopped
datatype agent_mode = AgentMode | PlanMode

record task_snapshot =
  ts_taskId :: string
  ts_parentSessionId :: string
  ts_status :: task_status
  ts_background :: bool
  ts_depth :: int
  ts_description :: "string option"
  ts_result :: "string option"
  ts_error :: "string option"
  ts_startedAt :: int
  ts_updatedAt :: int

record parent_context =
  pc_sessionId :: string
  pc_generation :: int
  pc_rootSessionId :: string
  pc_depth :: int
  pc_mode :: agent_mode
  pc_model :: json
  pc_readOnlyLocked :: bool

text \<open>
  \<open>at_phase\<close> is where the body of \<open>start\<close> waits: for the launch (until then \<open>launchSettled\<close> is open), for the
  prompt, with the run timeout armed for the completion, or for a clean-up after which it throws or ends.
  \<open>at_cleanup\<close> is the state of the promise \<open>cleanupPromise\<close>.
\<close>

datatype start_phase = Launching | Prompting | Watching | Throwing | Ended
datatype cleanup_state = NotCleaned | Cleaning | Cleaned

record active_task =
  at_taskId :: string
  at_originToolCallId :: "string option"
  at_parent :: nat
  at_sessionId :: string
  at_generation :: int
  at_background :: bool
  at_readOnly :: bool
  at_description :: string
  at_status :: task_status
  at_finalText :: string
  at_lastStopReason :: "string option"
  at_lastErrorMessage :: "string option"
  at_startedAt :: int
  at_updatedAt :: int
  at_settled :: bool
  at_phase :: start_phase
  at_cleanup :: cleanup_state

record task_manager =
  tm_rootSessionId :: string
  tm_rootGeneration :: int
  tm_ctxs :: "parent_context list"
  tm_contexts :: "(string, nat) omap"
  tm_heap :: "active_task list"
  tm_tasks :: "(string, nat) omap"
  tm_completed :: "(string, task_snapshot) omap"
  tm_disposed :: bool
  tm_disposing :: bool

datatype task_error =
    Disposed | StaleGeneration | InvalidMode | ReadOnlyLocked | NotFound | InvalidArgument | DepthLimit
  | ParallelLimit | Unsupported | SetupFailed | StoppedWhileLaunching | TransportUnavailable | WaitAborted

datatype task_effect =
    TaskEvent nat task_status
  | Finished nat task_snapshot
  | DeliverToTask nat task_snapshot
  | DeliverToRoot task_snapshot
  | LaunchChild nat agent_mode json
  | PromptChild nat
  | SteerChild nat
  | RevokeEndpoint string int
  | AbortChild nat

definition context_key :: "string \<Rightarrow> int \<Rightarrow> string" where
  "context_key sessionId generation = sessionId @ '':'' @ show_int generation"

definition new_task_manager :: "string \<Rightarrow> int \<Rightarrow> agent_mode \<Rightarrow> json \<Rightarrow> task_manager" where
  "new_task_manager rootSessionId rootGeneration rootMode rootModel =
     \<lparr>tm_rootSessionId = rootSessionId, tm_rootGeneration = rootGeneration,
      tm_ctxs = [\<lparr>pc_sessionId = rootSessionId, pc_generation = rootGeneration, pc_rootSessionId = rootSessionId,
        pc_depth = 0, pc_mode = rootMode, pc_model = rootModel, pc_readOnlyLocked = False\<rparr>],
      tm_contexts = [(context_key rootSessionId rootGeneration, 0)],
      tm_heap = [], tm_tasks = [], tm_completed = [], tm_disposed = False, tm_disposing = False\<rparr>"

abbreviation task_at :: "task_manager \<Rightarrow> nat \<Rightarrow> active_task" where
  "task_at m t \<equiv> tm_heap m ! t"

abbreviation parent_of :: "task_manager \<Rightarrow> active_task \<Rightarrow> parent_context" where
  "parent_of m x \<equiv> tm_ctxs m ! at_parent x"

definition put_task :: "nat \<Rightarrow> active_task \<Rightarrow> task_manager \<Rightarrow> task_manager" where
  "put_task t x m = m\<lparr>tm_heap := (tm_heap m)[t := x]\<rparr>"

section \<open>Arguments\<close>

definition requiredString :: "json \<Rightarrow> int \<Rightarrow> task_error + string" where
  "requiredString v maxLength =
     (if \<not> is_js_string v \<or> length (str_of v) = 0 \<or> int (length (str_of v)) > maxLength \<or> js_includes (str_of v) nul
      then Inl InvalidArgument else Inr (str_of v))"

definition optionalString :: "json \<Rightarrow> int \<Rightarrow> task_error + string option" where
  "optionalString v maxLength =
     (if v = JUndefined then Inr None else bind_result (requiredString v maxLength) (\<lambda>s. Inr (Some (js_trim s))))"

definition taskRunTimeout :: "json \<Rightarrow> task_error + int" where
  "taskRunTimeout v =
     (if v = JUndefined then Inr DEFAULT_TASK_RUN_TIMEOUT_MS
      else if \<not> is_safe_integer v \<or> number_of v < 1 \<or> number_of v > MAX_TASK_WAIT_MS then Inl InvalidArgument
      else Inr (number_of v))"

definition taskWaitTimeout :: "json \<Rightarrow> task_error + int" where
  "taskWaitTimeout v =
     (if v = JUndefined then Inr DEFAULT_TASK_WAIT_MS
      else if \<not> is_safe_integer v \<or> number_of v < 1 \<or> number_of v > MAX_TASK_WAIT_MS then Inl InvalidArgument
      else Inr (number_of v))"

definition boundedTaskText :: "string \<Rightarrow> string" where
  "boundedTaskText s =
     (if int (length s) \<le> MAX_TASK_RESULT_CHARS then s
      else take (nat MAX_TASK_RESULT_CHARS) s @ [LF, LF] @ ''[Task result truncated by Piwork.]'')"

definition text_part :: "json \<Rightarrow> string" where
  "text_part part =
     (if is_record part \<and> member part ''type'' = JString ''text'' \<and> is_js_string (member part ''text'')
      then str_of (member part ''text'') else [])"

definition textFromMessage :: "json \<Rightarrow> string" where
  "textFromMessage message =
     (let content = member message ''content'' in
      if is_js_string content then str_of content
      else if \<not> is_js_array content then []
      else concat (map text_part (elems_of content)))"

section \<open>Tasks\<close>

definition is_active :: "active_task \<Rightarrow> bool" where
  "is_active x \<longleftrightarrow> at_status x = Starting \<or> at_status x = Running"

definition activeFor :: "string \<Rightarrow> task_manager \<Rightarrow> nat" where
  "activeFor root m =
     length (filter (\<lambda>(_, t). pc_rootSessionId (parent_of m (task_at m t)) = root \<and> is_active (task_at m t)) (tm_tasks m))"

definition task_snapshot_of :: "task_manager \<Rightarrow> active_task \<Rightarrow> task_snapshot" where
  "task_snapshot_of m x =
     \<lparr>ts_taskId = at_taskId x, ts_parentSessionId = pc_sessionId (parent_of m x), ts_status = at_status x,
      ts_background = at_background x, ts_depth = pc_depth (parent_of m x) + 1,
      ts_description = (if at_description x = [] then None else Some (at_description x)),
      ts_result = (if at_status x = Completed then Some (boundedTaskText (at_finalText x)) else None),
      ts_error = None, ts_startedAt = at_startedAt x, ts_updatedAt = at_updatedAt x\<rparr>"

text \<open>The loop of \<open>retain\<close>: the oldest snapshots go first.\<close>

function drop_oldest :: "(string, task_snapshot) omap \<Rightarrow> (string, task_snapshot) omap" where
  "drop_oldest c = (if length c > MAX_RETAINED_TASKS then drop_oldest (om_delete c (fst (hd c))) else c)"
  by pat_completeness auto

termination
proof (relation "measure length")
  fix c :: "(string, task_snapshot) omap"
  assume "length c > MAX_RETAINED_TASKS"
  then have "c \<noteq> []" by auto
  then obtain x xs where c: "c = x # xs" by (cases c) auto
  have "length (filter (\<lambda>p. fst p \<noteq> fst x) xs) \<le> length xs" by simp
  then show "(om_delete c (fst (hd c)), c) \<in> measure length"
    by (simp add: c om_delete_def less_Suc_eq_le)
qed simp

declare drop_oldest.simps [simp del]

definition retain :: "task_snapshot \<Rightarrow> task_manager \<Rightarrow> task_manager" where
  "retain s m =
     m\<lparr>tm_completed := drop_oldest (om_set (om_delete (tm_completed m) (ts_taskId s)) (ts_taskId s) s)\<rparr>"

text \<open>
  \<open>deliver\<close> prompts the transport of the parent task; \<open>DeliverToTask\<close> stands for that and for the
  fall-back to the root when the launcher has no transport for the task.
\<close>

definition parent_task :: "parent_context \<Rightarrow> task_manager \<Rightarrow> nat option" where
  "parent_task c m =
     List.find (\<lambda>t. at_sessionId (task_at m t) = pc_sessionId c \<and> at_generation (task_at m t) = pc_generation c \<and>
       \<not> at_settled (task_at m t)) (map snd (tm_tasks m))"

definition deliver :: "nat \<Rightarrow> task_snapshot \<Rightarrow> task_manager \<Rightarrow> task_effect list" where
  "deliver t s m =
     (let parent = parent_of m (task_at m t) in
      if tm_disposed m \<or> \<not> at_background (task_at m t) then []
      else if pc_sessionId parent = tm_rootSessionId m then [DeliverToRoot s]
      else (case parent_task parent m of Some p \<Rightarrow> [DeliverToTask p s] | None \<Rightarrow> [DeliverToRoot s]))"

definition settle ::
  "nat \<Rightarrow> task_status \<Rightarrow> string option \<Rightarrow> string option \<Rightarrow> bool \<Rightarrow> int \<Rightarrow> task_manager \<Rightarrow>
   task_snapshot \<times> task_effect list \<times> task_manager" where
  "settle t status result error notifyParent now m =
     (let x = task_at m t in
      if at_settled x then
        ((case om_get (tm_completed m) (at_taskId x) of Some s \<Rightarrow> s | None \<Rightarrow> task_snapshot_of m x), [], m)
      else
        let x1 = x\<lparr>at_settled := True, at_status := status, at_updatedAt := now,
              at_finalText := (case result of Some r \<Rightarrow> boundedTaskText r | None \<Rightarrow> at_finalText x)\<rparr>;
            m1 = put_task t x1 m;
            s = (task_snapshot_of m1 x1)\<lparr>ts_error :=
              (case error of Some e \<Rightarrow> if e = [] then None else Some (boundedTaskText e) | None \<Rightarrow> None)\<rparr>;
            m2 = retain s m1
        in (s, [TaskEvent t status, Finished t s] @ (if notifyParent \<and> at_background x then deliver t s m2 else []), m2))"

text \<open>
  \<open>cleanup\<close> up to the first \<open>await\<close> of \<open>performCleanup\<close>; the rest is \<open>cleanup_returns\<close>, whose argument says
  whether the launcher could kill its processes and the session directory could be removed.
\<close>

definition cleanup :: "nat \<Rightarrow> task_manager \<Rightarrow> task_effect list \<times> task_manager" where
  "cleanup t m =
     (let x = task_at m t in
      if at_cleanup x \<noteq> NotCleaned then ([], m)
      else
        ([RevokeEndpoint (at_sessionId x) (at_generation x)],
         (put_task t (x\<lparr>at_cleanup := Cleaning\<rparr>) m)
           \<lparr>tm_contexts := om_delete (tm_contexts m) (context_key (at_sessionId x) (at_generation x))\<rparr>))"

datatype cleanup_end = KillFailed | RemoveFailed | CleanedUp

definition cleanup_returns :: "nat \<Rightarrow> cleanup_end \<Rightarrow> task_manager \<Rightarrow> task_manager" where
  "cleanup_returns t e m =
     (let x = task_at m t in
      if t \<ge> length (tm_heap m) \<or> at_cleanup x \<noteq> Cleaning \<or> at_phase x = Launching then m
      else
        (put_task t (x\<lparr>at_cleanup := (if e = CleanedUp then Cleaned else NotCleaned)\<rparr>) m)
          \<lparr>tm_tasks := (if e = KillFailed then tm_tasks m else om_delete (tm_tasks m) (at_taskId x))\<rparr>)"

section \<open>Access\<close>

definition canAccess :: "parent_context \<Rightarrow> string \<Rightarrow> bool" where
  "canAccess parent parentSessionId \<longleftrightarrow>
     pc_sessionId parent = pc_rootSessionId parent \<or> parentSessionId = pc_sessionId parent"

definition accessible :: "parent_context \<Rightarrow> task_manager \<Rightarrow> active_task \<Rightarrow> bool" where
  "accessible parent m x \<longleftrightarrow>
     pc_rootSessionId (parent_of m x) = pc_rootSessionId parent \<and> canAccess parent (pc_sessionId (parent_of m x))"

definition getTask :: "string \<Rightarrow> parent_context \<Rightarrow> task_manager \<Rightarrow> nat option" where
  "getTask taskId parent m =
     (case om_get (tm_tasks m) taskId of
        None \<Rightarrow> None
      | Some t \<Rightarrow> if accessible parent m (task_at m t) then Some t else None)"

definition retained_for :: "string \<Rightarrow> parent_context \<Rightarrow> task_manager \<Rightarrow> task_snapshot option" where
  "retained_for taskId parent m =
     (case om_get (tm_completed m) taskId of
        None \<Rightarrow> None
      | Some s \<Rightarrow>
          if pc_rootSessionId parent = tm_rootSessionId m \<and> canAccess parent (ts_parentSessionId s) then Some s
          else None)"

definition getSnapshot :: "string \<Rightarrow> parent_context \<Rightarrow> task_manager \<Rightarrow> task_snapshot option" where
  "getSnapshot taskId parent m =
     (if pc_rootSessionId parent \<noteq> tm_rootSessionId m then None
      else
        (case getTask taskId parent m of
           Some t \<Rightarrow> Some (task_snapshot_of m (task_at m t))
         | None \<Rightarrow> retained_for taskId parent m))"

text \<open>The comparator of \<open>list\<close>; \<open>localeCompare\<close> is a parameter.\<close>

definition task_order :: "(string \<Rightarrow> string \<Rightarrow> int) \<Rightarrow> task_snapshot \<Rightarrow> task_snapshot \<Rightarrow> int" where
  "task_order localeCompare l r =
     (if ts_startedAt l - ts_startedAt r \<noteq> 0 then ts_startedAt l - ts_startedAt r
      else localeCompare (ts_taskId l) (ts_taskId r))"

definition task_list :: "(string \<Rightarrow> string \<Rightarrow> int) \<Rightarrow> parent_context \<Rightarrow> task_manager \<Rightarrow> task_snapshot list" where
  "task_list localeCompare parent m =
     (if pc_rootSessionId parent \<noteq> tm_rootSessionId m then []
      else
        let retained = filter (\<lambda>(_, s). canAccess parent (ts_parentSessionId s)) (tm_completed m);
            add = (\<lambda>(_, t) c. if accessible parent m (task_at m t)
                     then om_set c (at_taskId (task_at m t)) (task_snapshot_of m (task_at m t)) else c)
        in js_sort (task_order localeCompare) (map snd (fold add (tm_tasks m) retained)))"

section \<open>Requests\<close>

text \<open>
  What a request gets from outside: the clock, \<open>Number\<close> and \<open>localeCompare\<close>, the two random identifiers,
  whether the session layout, the sandbox policy and the endpoint of a child could be made, whether the
  signal of the request is aborted, and for which tasks the launcher has a transport.
\<close>

record task_env =
  te_now :: int
  te_Number :: "json \<Rightarrow> json"
  te_localeCompare :: "string \<Rightarrow> string \<Rightarrow> int"
  te_taskId :: string
  te_sessionId :: string
  te_setup :: bool
  te_aborted :: bool
  te_transport :: "nat \<Rightarrow> bool"

record broker_request =
  br_sessionId :: string
  br_generation :: int
  br_operation :: string
  br_payload :: json

datatype reply =
    SnapshotReply task_snapshot
  | TasksReply "task_snapshot list"
  | ModeReply agent_mode
  | WaitPending nat int
  | SteerPending nat
  | StartPending nat int

definition wait_task :: "task_env \<Rightarrow> string \<Rightarrow> parent_context \<Rightarrow> int \<Rightarrow> task_manager \<Rightarrow> task_error + reply" where
  "wait_task env taskId parent timeoutMs m =
     (case retained_for taskId parent m of
        Some s \<Rightarrow> Inr (SnapshotReply s)
      | None \<Rightarrow>
          (case getTask taskId parent m of
             None \<Rightarrow> Inl NotFound
           | Some t \<Rightarrow> if te_aborted env then Inl WaitAborted else Inr (WaitPending t timeoutMs)))"

definition steer :: "task_env \<Rightarrow> string \<Rightarrow> parent_context \<Rightarrow> task_manager \<Rightarrow> (task_error + reply) \<times> task_effect list" where
  "steer env taskId parent m =
     (case getTask taskId parent m of
        None \<Rightarrow> (Inl NotFound, [])
      | Some t \<Rightarrow>
          if at_settled (task_at m t) then (Inl NotFound, [])
          else if \<not> te_transport env t then (Inl TransportUnavailable, [])
          else (Inr (SteerPending t), [SteerChild t]))"

definition steer_returns :: "nat \<Rightarrow> bool \<Rightarrow> int \<Rightarrow> task_manager \<Rightarrow> task_effect list \<times> task_manager" where
  "steer_returns t accepted now m =
     (if t \<ge> length (tm_heap m) \<or> \<not> accepted then ([], m)
      else ([TaskEvent t (at_status (task_at m t))], put_task t ((task_at m t)\<lparr>at_updatedAt := now\<rparr>) m))"

definition stop ::
  "int \<Rightarrow> string \<Rightarrow> parent_context \<Rightarrow> task_manager \<Rightarrow> (task_error + task_snapshot) \<times> task_effect list \<times> task_manager" where
  "stop now taskId parent m =
     (case getTask taskId parent m of
        Some t \<Rightarrow>
          let (s, outs, m1) = settle t Stopped None (Some ''Managed task was stopped'') True now m;
              (outs', m2) = cleanup t m1
          in (Inr s, outs @ outs', m2)
      | None \<Rightarrow>
          (case retained_for taskId parent m of Some s \<Rightarrow> (Inr s, [], m) | None \<Rightarrow> (Inl NotFound, [], m)))"

fun stop_each :: "int \<Rightarrow> parent_context \<Rightarrow> string list \<Rightarrow> task_manager \<Rightarrow> task_effect list \<times> task_manager" where
  "stop_each now parent [] m = ([], m)"
| "stop_each now parent (i # is) m =
     (let (_, outs, m1) = stop now i parent m; (outs', m2) = stop_each now parent is m1 in (outs @ outs', m2))"

definition root_context :: "task_manager \<Rightarrow> nat option" where
  "root_context m = om_get (tm_contexts m) (context_key (tm_rootSessionId m) (tm_rootGeneration m))"

definition stopTask :: "int \<Rightarrow> string \<Rightarrow> task_manager \<Rightarrow> (task_error + task_snapshot) \<times> task_effect list \<times> task_manager" where
  "stopTask now taskId m =
     (case root_context m of
        None \<Rightarrow> (Inl StaleGeneration, [], m)
      | Some c \<Rightarrow> stop now taskId (tm_ctxs m ! c) m)"

definition set_mode :: "nat \<Rightarrow> agent_mode \<Rightarrow> task_manager \<Rightarrow> task_manager" where
  "set_mode c mode m = m\<lparr>tm_ctxs := (tm_ctxs m)[c := (tm_ctxs m ! c)\<lparr>pc_mode := mode\<rparr>]\<rparr>"

definition writable_tasks :: "(parent_context \<Rightarrow> bool) \<Rightarrow> task_manager \<Rightarrow> string list" where
  "writable_tasks below m =
     map (\<lambda>(_, t). at_taskId (task_at m t))
       (filter (\<lambda>(_, t). below (parent_of m (task_at m t)) \<and> \<not> at_readOnly (task_at m t)) (tm_tasks m))"

definition setRootMode :: "int \<Rightarrow> agent_mode \<Rightarrow> task_manager \<Rightarrow> task_effect list \<times> task_manager" where
  "setRootMode now mode m =
     (case root_context m of
        None \<Rightarrow> ([], m)
      | Some c \<Rightarrow>
          let m1 = set_mode c mode m; root = tm_ctxs m1 ! c in
          if mode \<noteq> PlanMode then ([], m1)
          else stop_each now root (writable_tasks (\<lambda>p. pc_rootSessionId p = pc_rootSessionId root) m1) m1)"

definition mode_set :: "task_env \<Rightarrow> nat \<Rightarrow> json \<Rightarrow> task_manager \<Rightarrow> (task_error + reply) \<times> task_effect list \<times> task_manager" where
  "mode_set env c payload m =
     (let mode = member payload ''mode'' in
      if mode \<noteq> JString ''agent'' \<and> mode \<noteq> JString ''plan'' then (Inl InvalidMode, [], m)
      else if mode = JString ''agent'' \<and> pc_readOnlyLocked (tm_ctxs m ! c) then (Inl ReadOnlyLocked, [], m)
      else if mode = JString ''agent'' then (Inr (ModeReply AgentMode), [], set_mode c AgentMode m)
      else
        let m1 = set_mode c PlanMode m; parent = tm_ctxs m1 ! c;
            (outs, m2) = stop_each (te_now env) parent
              (writable_tasks (\<lambda>p. pc_sessionId p = pc_sessionId parent) m1) m1
        in (Inr (ModeReply PlanMode), outs, m2))"

definition origin_of :: "json \<Rightarrow> task_error + string option" where
  "origin_of v =
     (if is_js_string v \<and> length (str_of v) > 0
      then bind_result (requiredString v 256) (\<lambda>s. Inr (Some s)) else Inr None)"

definition start_arguments :: "json \<Rightarrow> task_error + string \<times> string option \<times> string option \<times> int" where
  "start_arguments payload =
     bind_result (requiredString (member payload ''prompt'') 100000) (\<lambda>prompt.
     bind_result (optionalString (member payload ''description'') 160) (\<lambda>description.
     bind_result (origin_of (member payload ''originToolCallId'')) (\<lambda>origin.
     bind_result (taskRunTimeout (member payload ''timeoutMs'')) (\<lambda>timeoutMs.
       Inr (prompt, description, origin, timeoutMs)))))"

definition read_only_start :: "parent_context \<Rightarrow> json \<Rightarrow> bool" where
  "read_only_start parent payload \<longleftrightarrow>
     pc_mode parent = PlanMode \<or> member payload ''readOnly'' = JBool True \<or> member payload ''mode'' = JString ''plan''"

definition task_mode :: "bool \<Rightarrow> agent_mode" where
  "task_mode readOnly = (if readOnly then PlanMode else AgentMode)"

definition new_task ::
  "task_env \<Rightarrow> nat \<Rightarrow> json \<Rightarrow> string \<Rightarrow> string option \<Rightarrow> string option \<Rightarrow> task_manager \<Rightarrow> active_task" where
  "new_task env c payload prompt description origin m =
     \<lparr>at_taskId = te_taskId env, at_originToolCallId = origin, at_parent = c, at_sessionId = te_sessionId env,
      at_generation = 1, at_background = (member payload ''background'' = JBool True),
      at_readOnly = read_only_start (tm_ctxs m ! c) payload,
      at_description = (case description of Some d \<Rightarrow> d | None \<Rightarrow> prompt), at_status = Starting, at_finalText = [],
      at_lastStopReason = None, at_lastErrorMessage = None, at_startedAt = te_now env, at_updatedAt = te_now env,
      at_settled = False, at_phase = Launching, at_cleanup = NotCleaned\<rparr>"

definition start_task :: "task_env \<Rightarrow> nat \<Rightarrow> json \<Rightarrow> task_manager \<Rightarrow> (task_error + reply) \<times> task_effect list \<times> task_manager" where
  "start_task env c payload m =
     (let parent = tm_ctxs m ! c; depth = te_Number env (member payload ''depth''); t = length (tm_heap m) in
      if \<not> is_safe_integer depth \<or> number_of depth \<noteq> pc_depth parent + 1 \<or> number_of depth > MAX_TASK_DEPTH
      then (Inl DepthLimit, [], m)
      else if activeFor (pc_rootSessionId parent) m \<ge> MAX_PARALLEL_TASKS then (Inl ParallelLimit, [], m)
      else
        (case start_arguments payload of
           Inl e \<Rightarrow> (Inl e, [], m)
         | Inr (prompt, description, origin, timeoutMs) \<Rightarrow>
             if \<not> te_setup env then (Inl SetupFailed, [], m)
             else
               let x = new_task env c payload prompt description origin m
               in (Inr (StartPending t timeoutMs),
                   [TaskEvent t Starting, LaunchChild t (task_mode (at_readOnly x)) (pc_model parent)],
                   m\<lparr>tm_heap := tm_heap m @ [x], tm_tasks := om_set (tm_tasks m) (at_taskId x) t\<rparr>)))"

definition with_task_id :: "json \<Rightarrow> (string \<Rightarrow> (task_error + reply) \<times> task_effect list \<times> task_manager) \<Rightarrow>
    task_manager \<Rightarrow> (task_error + reply) \<times> task_effect list \<times> task_manager" where
  "with_task_id payload f m =
     (case requiredString (member payload ''taskId'') 256 of Inl e \<Rightarrow> (Inl e, [], m) | Inr taskId \<Rightarrow> f taskId)"

definition perform :: "task_env \<Rightarrow> nat \<Rightarrow> string \<Rightarrow> json \<Rightarrow> task_manager \<Rightarrow> (task_error + reply) \<times> task_effect list \<times> task_manager" where
  "perform env c operation payload m =
     (let parent = tm_ctxs m ! c in
      if operation = ''mode.set'' then mode_set env c payload m
      else if operation = ''task.stop'' then
        with_task_id payload (\<lambda>taskId. let (r, outs, m1) = stop (te_now env) taskId parent m
          in (map_sum id SnapshotReply r, outs, m1)) m
      else if operation = ''task.list'' then (Inr (TasksReply (task_list (te_localeCompare env) parent m)), [], m)
      else if operation = ''task.status'' then
        with_task_id payload (\<lambda>taskId.
          ((case getSnapshot taskId parent m of None \<Rightarrow> Inl NotFound | Some s \<Rightarrow> Inr (SnapshotReply s)), [], m)) m
      else if operation = ''task.wait'' then
        with_task_id payload (\<lambda>taskId.
          (bind_result (taskWaitTimeout (member payload ''timeoutMs'')) (\<lambda>timeoutMs. wait_task env taskId parent timeoutMs m),
           [], m)) m
      else if operation = ''task.steer'' then
        with_task_id payload (\<lambda>taskId.
          (case requiredString (member payload ''message'') 100000 of
             Inl e \<Rightarrow> (Inl e, [], m)
           | Inr _ \<Rightarrow> let (r, outs) = steer env taskId parent m in (r, outs, m))) m
      else if operation \<noteq> ''task.start'' then (Inl Unsupported, [], m)
      else start_task env c payload m)"

definition handle :: "task_env \<Rightarrow> broker_request \<Rightarrow> task_manager \<Rightarrow> (task_error + reply) \<times> task_effect list \<times> task_manager" where
  "handle env req m =
     (if tm_disposed m then (Inl Disposed, [], m)
      else
        (case om_get (tm_contexts m) (context_key (br_sessionId req) (br_generation req)) of
           None \<Rightarrow> (Inl StaleGeneration, [], m)
         | Some c \<Rightarrow> perform env c (br_operation req) (br_payload req) m))"

section \<open>The life of a task\<close>

definition start_failed :: "nat \<Rightarrow> string \<Rightarrow> int \<Rightarrow> task_manager \<Rightarrow> task_effect list \<times> task_manager" where
  "start_failed t err now m =
     (let m0 = put_task t ((task_at m t)\<lparr>at_phase := Ended\<rparr>) m;
          (_, outs, m1) = settle t Failed None (Some err) True now m0;
          (outs', m2) = cleanup t m1
      in (outs @ outs', m2))"

datatype launch_end = LaunchFailed string | Launched int bool

definition child_context :: "task_manager \<Rightarrow> active_task \<Rightarrow> int \<Rightarrow> parent_context" where
  "child_context m x generation =
     \<lparr>pc_sessionId = at_sessionId x, pc_generation = generation, pc_rootSessionId = pc_rootSessionId (parent_of m x),
      pc_depth = pc_depth (parent_of m x) + 1, pc_mode = task_mode (at_readOnly x), pc_model = pc_model (parent_of m x),
      pc_readOnlyLocked = at_readOnly x\<rparr>"

text \<open>\<open>Launched generation transport\<close>: the generation of the child, and whether the launcher has its transport.\<close>

definition launch_returns :: "nat \<Rightarrow> launch_end \<Rightarrow> int \<Rightarrow> task_manager \<Rightarrow> task_effect list \<times> task_manager" where
  "launch_returns t e now m =
     (let x = task_at m t in
      if t \<ge> length (tm_heap m) \<or> at_phase x \<noteq> Launching then ([], m)
      else
        (case e of
           LaunchFailed err \<Rightarrow> start_failed t err now m
         | Launched generation transport \<Rightarrow>
             if tm_disposed m \<or> at_settled x \<or> om_get (tm_tasks m) (at_taskId x) \<noteq> Some t
             then cleanup t (put_task t (x\<lparr>at_phase := Throwing\<rparr>) m)
             else
               let m1 = (put_task t (x\<lparr>at_phase := Prompting, at_status := Running, at_updatedAt := now\<rparr>) m)
                     \<lparr>tm_ctxs := tm_ctxs m @ [child_context m x generation],
                      tm_contexts := om_set (tm_contexts m) (context_key (at_sessionId x) generation) (length (tm_ctxs m))\<rparr>
               in if \<not> transport
                  then (let (outs, m2) = start_failed t ''Managed Pi task transport is unavailable'' now m1
                        in (TaskEvent t Running # outs, m2))
                  else ([TaskEvent t Running, PromptChild t], m1)))"

definition prompt_returns :: "nat \<Rightarrow> string option \<Rightarrow> int \<Rightarrow> task_manager \<Rightarrow> task_effect list \<times> task_manager" where
  "prompt_returns t failure now m =
     (if t \<ge> length (tm_heap m) \<or> at_phase (task_at m t) \<noteq> Prompting then ([], m)
      else
        (case failure of
           Some err \<Rightarrow> start_failed t err now m
         | None \<Rightarrow> ([], put_task t ((task_at m t)\<lparr>at_phase := Watching\<rparr>) m)))"

text \<open>The code behind the awaited clean-up; a body that returns instead of throwing finds nothing left to do.\<close>

definition throw_continues :: "nat \<Rightarrow> string \<Rightarrow> int \<Rightarrow> task_manager \<Rightarrow> task_effect list \<times> task_manager" where
  "throw_continues t err now m =
     (if t \<ge> length (tm_heap m) \<or> at_phase (task_at m t) \<noteq> Throwing \<or> at_cleanup (task_at m t) = Cleaning then ([], m)
      else start_failed t err now m)"

definition run_timer :: "nat \<Rightarrow> int \<Rightarrow> task_manager \<Rightarrow> task_effect list \<times> task_manager" where
  "run_timer t now m =
     (if t \<ge> length (tm_heap m) \<or> at_phase (task_at m t) \<noteq> Watching then ([], m)
      else snd (settle t Failed None (Some ''Managed Pi task timed out'') True now m))"

definition abort_task :: "nat \<Rightarrow> int \<Rightarrow> task_manager \<Rightarrow> task_effect list \<times> task_manager" where
  "abort_task t now m =
     (if t \<ge> length (tm_heap m) \<or> at_phase (task_at m t) \<noteq> Watching \<or> at_background (task_at m t) then ([], m)
      else
        (let (outs, m1) = snd (settle t Stopped None (Some ''Managed Pi task was aborted'') True now m)
         in (AbortChild t # outs, m1)))"

definition completion_seen :: "nat \<Rightarrow> task_manager \<Rightarrow> task_effect list \<times> task_manager" where
  "completion_seen t m =
     (let x = task_at m t in
      if t \<ge> length (tm_heap m) \<or> at_phase x \<noteq> Watching \<or> \<not> at_settled x then ([], m)
      else cleanup t (put_task t (x\<lparr>at_phase := (if at_background x then Ended else Throwing)\<rparr>) m))"

text \<open>Notifications of the child.\<close>

definition member_string :: "json \<Rightarrow> string \<Rightarrow> string option" where
  "member_string v k = (if is_js_string (member v k) then Some (str_of (member v k)) else None)"

definition message_end :: "nat \<Rightarrow> json \<Rightarrow> task_manager \<Rightarrow> task_effect list \<times> task_manager" where
  "message_end t message m =
     (let x = task_at m t in
      if t \<ge> length (tm_heap m) \<or> member message ''role'' \<noteq> JString ''assistant'' then ([], m)
      else
        ([TaskEvent t (at_status x)],
         put_task t (x\<lparr>at_finalText := textFromMessage message,
           at_lastStopReason := member_string message ''stopReason'',
           at_lastErrorMessage := member_string message ''errorMessage''\<rparr>) m))"

definition or_text :: "string option \<Rightarrow> string \<Rightarrow> string" where
  "or_text s d = (case s of Some v \<Rightarrow> if v = [] then d else v | None \<Rightarrow> d)"

definition agent_settled :: "nat \<Rightarrow> int \<Rightarrow> task_manager \<Rightarrow> task_effect list \<times> task_manager" where
  "agent_settled t now m =
     (let x = task_at m t in
      if t \<ge> length (tm_heap m) then ([], m)
      else if at_lastStopReason x = Some ''error'' then
        snd (settle t Failed None
          (Some (or_text (at_lastErrorMessage x) (or_text (Some (at_finalText x)) ''Managed Pi task failed''))) True now m)
      else if at_lastStopReason x = Some ''aborted'' then
        snd (settle t Stopped None (Some (or_text (at_lastErrorMessage x) ''Managed Pi task was aborted'')) True now m)
      else snd (settle t Completed (Some (at_finalText x)) None True now m))"

definition process_exit :: "nat \<Rightarrow> int \<Rightarrow> task_manager \<Rightarrow> task_effect list \<times> task_manager" where
  "process_exit t now m =
     (if t \<ge> length (tm_heap m) then ([], m)
      else
        (let (_, outs, m1) =
               settle t Failed None (Some ''Managed Pi task process exited before agent_settled'') True now m;
             (outs', m2) = cleanup t m1
         in (outs @ outs', m2)))"

section \<open>Disposal\<close>

fun dispose_each :: "int \<Rightarrow> nat list \<Rightarrow> task_manager \<Rightarrow> task_effect list \<times> task_manager" where
  "dispose_each now [] m = ([], m)"
| "dispose_each now (t # ts) m =
     (let (_, outs, m1) = settle t Stopped None (Some ''Managed task runtime was disposed'') False now m;
          (outs1, m2) = cleanup t m1; (outs2, m3) = dispose_each now ts m2
      in (outs @ outs1 @ outs2, m3))"

definition dispose :: "int \<Rightarrow> task_manager \<Rightarrow> task_effect list \<times> task_manager" where
  "dispose now m =
     (if tm_disposing m then ([], m\<lparr>tm_disposed := True\<rparr>)
      else dispose_each now (map snd (tm_tasks m)) (m\<lparr>tm_disposed := True, tm_disposing := True\<rparr>))"

text \<open>The end of \<open>performDispose\<close>, once no clean-up is pending; a failure lets \<open>dispose\<close> try again.\<close>

definition dispose_finishes :: "bool \<Rightarrow> task_manager \<Rightarrow> task_manager" where
  "dispose_finishes failed m =
     (if \<not> tm_disposing m \<or> list_ex (\<lambda>x. at_cleanup x = Cleaning) (tm_heap m) then m
      else m\<lparr>tm_contexts := [], tm_completed := [], tm_disposing := (\<not> failed)\<rparr>)"

section \<open>Events\<close>

datatype task_event =
    Request task_env broker_request
  | StopTask string int
  | SetRootMode agent_mode int
  | LaunchReturns nat launch_end int
  | PromptReturns nat "string option" int
  | ThrowContinues nat string int
  | MessageEnd nat json
  | ToolUpdate nat
  | AgentSettled nat int
  | ProcessExit nat int
  | RunTimer nat int
  | AbortSignal nat int
  | CompletionSeen nat
  | SteerReturns nat bool int
  | CleanupReturns nat cleanup_end
  | Dispose int
  | DisposeFinishes bool

fun task_step :: "task_event \<Rightarrow> task_manager \<Rightarrow> task_effect list \<times> task_manager" where
  "task_step (Request env req) m = snd (handle env req m)"
| "task_step (StopTask taskId now) m = snd (stopTask now taskId m)"
| "task_step (SetRootMode mode now) m = setRootMode now mode m"
| "task_step (LaunchReturns t e now) m = launch_returns t e now m"
| "task_step (PromptReturns t failure now) m = prompt_returns t failure now m"
| "task_step (ThrowContinues t err now) m = throw_continues t err now m"
| "task_step (MessageEnd t message) m = message_end t message m"
| "task_step (ToolUpdate t) m =
     (if t \<ge> length (tm_heap m) then ([], m) else ([TaskEvent t (at_status (task_at m t))], m))"
| "task_step (AgentSettled t now) m = agent_settled t now m"
| "task_step (ProcessExit t now) m = process_exit t now m"
| "task_step (RunTimer t now) m = run_timer t now m"
| "task_step (AbortSignal t now) m = abort_task t now m"
| "task_step (CompletionSeen t) m = completion_seen t m"
| "task_step (SteerReturns t accepted now) m = steer_returns t accepted now m"
| "task_step (CleanupReturns t e) m = ([], cleanup_returns t e m)"
| "task_step (Dispose now) m = dispose now m"
| "task_step (DisposeFinishes failed) m = ([], dispose_finishes failed m)"

text \<open>Random identifiers are new: no task and no context of the manager has them.\<close>

fun fresh_ids :: "task_event \<Rightarrow> task_manager \<Rightarrow> bool" where
  "fresh_ids (Request env _) m \<longleftrightarrow>
     te_taskId env \<notin> at_taskId ` set (tm_heap m) \<and>
     te_sessionId env \<notin> at_sessionId ` set (tm_heap m) \<union> pc_sessionId ` set (tm_ctxs m)"
| "fresh_ids _ m \<longleftrightarrow> True"

inductive task_history :: "string \<Rightarrow> int \<Rightarrow> task_manager \<Rightarrow> task_effect list \<Rightarrow> bool"
  for rootSessionId rootGeneration where
  created: "task_history rootSessionId rootGeneration (new_task_manager rootSessionId rootGeneration mode model) []"
| step: "task_history rootSessionId rootGeneration m outs \<Longrightarrow> fresh_ids e m \<Longrightarrow> task_step e m = (outs', m') \<Longrightarrow>
    task_history rootSessionId rootGeneration m' (outs @ outs')"

end
