(* ===== verification/Task_Lifecycle.thy ===== *)
theory Task_Lifecycle
  imports Task_Manager
begin

text \<open>
  What holds in every history of a task manager. Every event is a sequence of atomic moves (\<open>micro\<close>): a change
  of a task that leaves its identity and outcome alone, the settling of a task, the removal of a settled
  task, a change of mode, a new child context, a new task, and changes of the other maps. The invariant is
  checked once per move.
\<close>

section \<open>Keys of contexts\<close>

lemma digit_not_colon: "n < 10 \<Longrightarrow> char_of (48 + n :: nat) \<noteq> CHR '':''"
proof
  assume "n < 10" and "char_of (48 + n) = CHR '':''"
  then have "of_char (char_of (48 + n) :: char) = (58 :: nat)" by simp
  with \<open>n < 10\<close> show False by simp
qed

lemma show_nat_no_colon: "CHR '':'' \<notin> set (show_nat n)"
proof (induction n rule: show_nat.induct)
  case (1 n)
  have d: "char_of (48 + n mod 10) \<noteq> CHR '':''" by (rule digit_not_colon) simp
  show ?case
  proof (cases "n < 10")
    case True
    then show ?thesis using digit_not_colon [of n] by (subst show_nat.simps) simp
  next
    case False
    then show ?thesis using 1 d by (subst show_nat.simps) simp
  qed
qed

text \<open>The key determines the session: the generation is what follows the last colon.\<close>

lemma context_key_session:
  assumes "context_key s g = context_key s' g'"
  shows "s = s'"
proof -
  have no: "CHR '':'' \<notin> set (rev (show_int i))" for i
    using show_nat_no_colon by (simp add: show_int_def)
  have "dropWhile (\<lambda>c. c \<noteq> CHR '':'') (rev (context_key s g)) = CHR '':'' # rev s" for s g
  proof -
    have "rev (context_key s g) = rev (show_int g) @ CHR '':'' # rev s" by (simp add: context_key_def)
    moreover have "dropWhile (\<lambda>c. c \<noteq> CHR '':'') (rev (show_int g) @ CHR '':'' # rev s) = CHR '':'' # rev s"
      using no [of g] by (subst dropWhile_append2) auto
    ultimately show ?thesis by simp
  qed
  from this [of s g] this [of s' g'] assms show ?thesis by simp
qed

section \<open>Moves\<close>

definition same_task :: "active_task \<Rightarrow> active_task \<Rightarrow> bool" where
  "same_task x y \<longleftrightarrow> at_taskId y = at_taskId x \<and> at_parent y = at_parent x \<and> at_sessionId y = at_sessionId x \<and>
     at_readOnly y = at_readOnly x"

definition same_base :: "task_manager \<Rightarrow> task_manager \<Rightarrow> bool" where
  "same_base m m' \<longleftrightarrow> tm_rootSessionId m' = tm_rootSessionId m \<and> tm_rootGeneration m' = tm_rootGeneration m \<and>
     tm_ctxs m' = tm_ctxs m \<and> tm_heap m' = tm_heap m \<and> tm_tasks m' = tm_tasks m \<and>
     tm_disposed m' = tm_disposed m \<and> (tm_disposing m' \<longrightarrow> tm_disposing m) \<and> set (tm_contexts m') \<subseteq> set (tm_contexts m)"

inductive micro :: "task_manager \<Rightarrow> nat list \<Rightarrow> task_manager \<Rightarrow> bool" where
  change: "t < length (tm_heap m) \<Longrightarrow> same_task (task_at m t) x \<Longrightarrow> at_settled x = at_settled (task_at m t) \<Longrightarrow>
    is_active x = is_active (task_at m t) \<Longrightarrow> at_cleanup x = at_cleanup (task_at m t) \<or> at_settled x \<Longrightarrow>
    micro m [] (put_task t x m)"
| finish: "t < length (tm_heap m) \<Longrightarrow> same_task (task_at m t) x \<Longrightarrow> \<not> at_settled (task_at m t) \<Longrightarrow> at_settled x \<Longrightarrow>
    \<not> is_active x \<Longrightarrow> micro m [t] (put_task t x m)"
| other: "same_base m m' \<Longrightarrow> micro m [] m'"
| forget: "t < length (tm_heap m) \<Longrightarrow> at_settled (task_at m t) \<Longrightarrow>
    micro m [] (m\<lparr>tm_tasks := om_delete (tm_tasks m) (at_taskId (task_at m t))\<rparr>)"
| mode: "c < length (tm_ctxs m) \<Longrightarrow> (pc_readOnlyLocked (tm_ctxs m ! c) \<Longrightarrow> md = PlanMode) \<Longrightarrow> micro m [] (set_mode c md m)"
| child: "t < length (tm_heap m) \<Longrightarrow>
    micro m [] (m\<lparr>tm_ctxs := tm_ctxs m @ [child_context m (task_at m t) g],
      tm_contexts := om_set (tm_contexts m) (context_key (at_sessionId (task_at m t)) g) (length (tm_ctxs m))\<rparr>)"
| begun: "at_parent x < length (tm_ctxs m) \<Longrightarrow> pc_depth (parent_of m x) + 1 \<le> MAX_TASK_DEPTH \<Longrightarrow>
    activeFor (pc_rootSessionId (parent_of m x)) m < MAX_PARALLEL_TASKS \<Longrightarrow>
    (pc_mode (parent_of m x) = PlanMode \<Longrightarrow> at_readOnly x) \<Longrightarrow> at_taskId x \<notin> at_taskId ` set (tm_heap m) \<Longrightarrow>
    at_sessionId x \<notin> pc_sessionId ` set (tm_ctxs m) \<Longrightarrow> at_sessionId x \<notin> at_sessionId ` set (tm_heap m) \<Longrightarrow>
    \<not> at_settled x \<Longrightarrow> is_active x \<Longrightarrow> at_cleanup x = NotCleaned \<Longrightarrow> \<not> tm_disposed m \<Longrightarrow>
    micro m [] (m\<lparr>tm_heap := tm_heap m @ [x], tm_tasks := om_set (tm_tasks m) (at_taskId x) (length (tm_heap m))\<rparr>)"

inductive moves :: "task_manager \<Rightarrow> nat list \<Rightarrow> task_manager \<Rightarrow> bool" where
  none [simp]: "moves m [] m"
| more: "moves m fs m1 \<Longrightarrow> micro m1 gs m2 \<Longrightarrow> moves m (fs @ gs) m2"

lemma moves_trans: "moves m1 gs m2 \<Longrightarrow> moves m fs m1 \<Longrightarrow> moves m (fs @ gs) m2"
proof (induction arbitrary: m fs rule: moves.induct)
  case (more a gs b hs c)
  then show ?case using moves.more [of m "fs @ gs" b hs c] by simp
qed simp

lemma micro_moves: "micro m fs m' \<Longrightarrow> moves m fs m'"
  using moves.more [OF moves.none] by simp

fun finished_task :: "task_effect \<Rightarrow> nat list" where
  "finished_task (Finished t _) = [t]"
| "finished_task _ = []"

definition finished :: "task_effect list \<Rightarrow> nat list" where
  "finished outs = concat (map finished_task outs)"

lemma finished_simps [simp]:
  "finished [] = []" "finished (e # es) = finished_task e @ finished es" "finished (es @ fs) = finished es @ finished fs"
  by (simp_all add: finished_def)

lemma finished_deliver [simp]: "finished (deliver t s m) = []"
  by (simp add: deliver_def Let_def split: option.split)

section \<open>The operations are sequences of moves\<close>

abbreviation does :: "task_manager \<Rightarrow> task_effect list \<Rightarrow> task_manager \<Rightarrow> bool" where
  "does m outs m' \<equiv> moves m (finished outs) m'"

lemma does_append: "does m outs m1 \<Longrightarrow> does m1 outs' m2 \<Longrightarrow> does m (outs @ outs') m2"
  using moves_trans by simp

lemma put_task_heap [simp]:
  "tm_heap (put_task t x m) = (tm_heap m)[t := x]" "tm_ctxs (put_task t x m) = tm_ctxs m"
  "tm_tasks (put_task t x m) = tm_tasks m" "tm_contexts (put_task t x m) = tm_contexts m"
  "tm_rootSessionId (put_task t x m) = tm_rootSessionId m" "tm_rootGeneration (put_task t x m) = tm_rootGeneration m"
  "tm_completed (put_task t x m) = tm_completed m" "tm_disposed (put_task t x m) = tm_disposed m"
  "tm_disposing (put_task t x m) = tm_disposing m"
  by (simp_all add: put_task_def)

lemma retain_base [simp]:
  "tm_heap (retain s m) = tm_heap m" "tm_ctxs (retain s m) = tm_ctxs m" "tm_tasks (retain s m) = tm_tasks m"
  "tm_contexts (retain s m) = tm_contexts m" "tm_rootSessionId (retain s m) = tm_rootSessionId m"
  "tm_rootGeneration (retain s m) = tm_rootGeneration m" "tm_disposed (retain s m) = tm_disposed m"
  "tm_disposing (retain s m) = tm_disposing m"
  by (simp_all add: retain_def)

lemma set_mode_base [simp]:
  "tm_heap (set_mode c md m) = tm_heap m" "tm_tasks (set_mode c md m) = tm_tasks m"
  "length (tm_ctxs (set_mode c md m)) = length (tm_ctxs m)" "tm_contexts (set_mode c md m) = tm_contexts m"
  "tm_rootSessionId (set_mode c md m) = tm_rootSessionId m" "tm_rootGeneration (set_mode c md m) = tm_rootGeneration m"
  "tm_disposed (set_mode c md m) = tm_disposed m" "tm_disposing (set_mode c md m) = tm_disposing m"
  by (simp_all add: set_mode_def)

definition final :: "task_status \<Rightarrow> bool" where
  "final s \<longleftrightarrow> s \<noteq> Starting \<and> s \<noteq> Running"

text \<open>What every call of \<open>settle\<close> and \<open>cleanup\<close> in an operation does.\<close>

lemma settle_does:
  assumes "settle t status result err notify now m = (s, outs, m')" and t: "t < length (tm_heap m)" and f: "final status"
  shows "does m outs m'" "at_settled (task_at m' t)" "length (tm_heap m') = length (tm_heap m)"
    "tm_tasks m' = tm_tasks m" "tm_ctxs m' = tm_ctxs m" "tm_contexts m' = tm_contexts m"
    "tm_rootSessionId m' = tm_rootSessionId m" "at_parent (task_at m' t) = at_parent (task_at m t)"
proof -
  have "does m outs m' \<and> at_settled (task_at m' t) \<and> length (tm_heap m') = length (tm_heap m) \<and>
    tm_tasks m' = tm_tasks m \<and> tm_ctxs m' = tm_ctxs m \<and> tm_contexts m' = tm_contexts m \<and>
    tm_rootSessionId m' = tm_rootSessionId m \<and> at_parent (task_at m' t) = at_parent (task_at m t)"
  proof (cases "at_settled (task_at m t)")
    case True
    with assms(1) show ?thesis by (auto simp: settle_def Let_def)
  next
    case False
    define x where "x = (task_at m t)\<lparr>at_settled := True, at_status := status, at_updatedAt := now,
      at_finalText := (case result of Some r \<Rightarrow> boundedTaskText r | None \<Rightarrow> at_finalText (task_at m t))\<rparr>"
    have "micro m [t] (put_task t x m)"
      by (rule micro.finish) (use False t f in \<open>auto simp: x_def same_task_def is_active_def final_def\<close>)
    moreover have "micro (put_task t x m) [] (retain s (put_task t x m))" for s
      by (rule micro.other) (simp add: same_base_def)
    ultimately have "moves m [t] (retain s (put_task t x m))" for s
      using moves.more [OF micro_moves, of m "[t]" "put_task t x m" "[]"] by simp
    with assms(1) False t show ?thesis
      by (auto simp: settle_def Let_def x_def [symmetric]) (auto simp: x_def)
  qed
  then show "does m outs m'" "at_settled (task_at m' t)" "length (tm_heap m') = length (tm_heap m)"
    "tm_tasks m' = tm_tasks m" "tm_ctxs m' = tm_ctxs m" "tm_contexts m' = tm_contexts m"
    "tm_rootSessionId m' = tm_rootSessionId m" "at_parent (task_at m' t) = at_parent (task_at m t)"
    by simp_all
qed

lemma cleanup_does:
  assumes "cleanup t m = (outs, m')" and "t < length (tm_heap m)" and "at_settled (task_at m t)"
  shows "does m outs m'" "at_settled (task_at m' t)" "length (tm_heap m') = length (tm_heap m)"
    "tm_tasks m' = tm_tasks m" "tm_ctxs m' = tm_ctxs m" "tm_rootSessionId m' = tm_rootSessionId m"
proof -
  define x where "x = (task_at m t)\<lparr>at_cleanup := Cleaning\<rparr>"
  define k where "k = context_key (at_sessionId (task_at m t)) (at_generation (task_at m t))"
  have a: "micro m [] (put_task t x m)"
    by (rule micro.change) (use assms(2,3) in \<open>simp_all add: x_def same_task_def is_active_def\<close>)
  have "micro (put_task t x m) [] ((put_task t x m)\<lparr>tm_contexts := om_delete (tm_contexts (put_task t x m)) k\<rparr>)"
    by (rule micro.other) (auto simp: same_base_def om_delete_def)
  from moves.more [OF micro_moves [OF a] this]
  have "moves m [] ((put_task t x m)\<lparr>tm_contexts := om_delete (tm_contexts (put_task t x m)) k\<rparr>)" by simp
  with assms show "does m outs m'" "at_settled (task_at m' t)" "length (tm_heap m') = length (tm_heap m)"
    "tm_tasks m' = tm_tasks m" "tm_ctxs m' = tm_ctxs m" "tm_rootSessionId m' = tm_rootSessionId m"
    by (auto simp: cleanup_def Let_def x_def [symmetric] k_def [symmetric] split: if_splits)
      (auto simp: x_def)
qed

text \<open>Settled tasks stay settled and no task disappears from the heap.\<close>

lemma micro_settled:
  assumes "micro m fs m'"
  shows "length (tm_heap m) \<le> length (tm_heap m')" "tm_disposed m' = tm_disposed m"
    "tm_disposing m' \<Longrightarrow> tm_disposing m"
    "t < length (tm_heap m) \<Longrightarrow> at_settled (task_at m t) \<Longrightarrow> at_settled (task_at m' t)"
  using assms by (auto simp: same_base_def nth_append nth_list_update elim!: micro.cases)

lemma moves_settled:
  "moves m fs m' \<Longrightarrow> length (tm_heap m) \<le> length (tm_heap m') \<and> tm_disposed m' = tm_disposed m \<and>
     (tm_disposing m' \<longrightarrow> tm_disposing m) \<and> (t < length (tm_heap m) \<longrightarrow> at_settled (task_at m t) \<longrightarrow> at_settled (task_at m' t))"
proof (induction rule: moves.induct)
  case (more m fs m1 gs m2)
  then show ?case using micro_settled [OF more.hyps(2)] by (metis le_trans less_le_trans)
qed simp

section \<open>The invariant\<close>

definition task_ok :: "task_manager \<Rightarrow> nat \<Rightarrow> active_task \<Rightarrow> bool" where
  "task_ok m t x \<longleftrightarrow> at_parent x < length (tm_ctxs m) \<and> pc_depth (parent_of m x) + 1 \<le> MAX_TASK_DEPTH \<and>
     (at_settled x \<longleftrightarrow> \<not> is_active x) \<and> (at_cleanup x \<noteq> NotCleaned \<longrightarrow> at_settled x) \<and>
     (\<not> at_settled x \<longrightarrow> (at_taskId x, t) \<in> set (tm_tasks m)) \<and>
     (pc_readOnlyLocked (parent_of m x) \<longrightarrow> at_readOnly x)"

definition context_ok :: "task_manager \<Rightarrow> parent_context \<Rightarrow> bool" where
  "context_ok m c \<longleftrightarrow> pc_rootSessionId c = tm_rootSessionId m \<and> (pc_readOnlyLocked c \<longrightarrow> pc_mode c = PlanMode)"

definition maps_ok :: "task_manager \<Rightarrow> bool" where
  "maps_ok m \<longleftrightarrow> distinct (map at_taskId (tm_heap m)) \<and> om_wf (tm_tasks m) \<and>
     (\<forall>(i, t) \<in> set (tm_tasks m). t < length (tm_heap m) \<and> at_taskId (task_at m t) = i) \<and>
     (\<forall>(k, c) \<in> set (tm_contexts m). c < length (tm_ctxs m))"

definition root_ok :: "task_manager \<Rightarrow> bool" where
  "root_ok m \<longleftrightarrow> tm_ctxs m \<noteq> [] \<and> pc_sessionId (hd (tm_ctxs m)) = tm_rootSessionId m \<and>
     \<not> pc_readOnlyLocked (hd (tm_ctxs m)) \<and>
     (\<forall>x \<in> set (tm_heap m). at_sessionId x \<noteq> tm_rootSessionId m) \<and>
     (\<forall>c. (context_key (tm_rootSessionId m) (tm_rootGeneration m), c) \<in> set (tm_contexts m) \<longrightarrow> c = 0)"

definition running :: "task_manager \<Rightarrow> active_task list" where
  "running m = filter (\<lambda>x. \<not> at_settled x) (tm_heap m)"

definition tm_inv :: "task_manager \<Rightarrow> bool" where
  "tm_inv m \<longleftrightarrow> root_ok m \<and> maps_ok m \<and> (\<forall>c \<in> set (tm_ctxs m). context_ok m c) \<and>
     (\<forall>t < length (tm_heap m). task_ok m t (task_at m t)) \<and> length (running m) \<le> MAX_PARALLEL_TASKS"

lemma om_set_subset: "set (om_set m k v) \<subseteq> insert (k, v) (set m)"
  by (induction m k v rule: om_set.induct) auto

lemma om_set_keeps: "(k', v') \<in> set m \<Longrightarrow> k' \<noteq> k \<Longrightarrow> (k', v') \<in> set (om_set m k v)"
  by (induction m k v rule: om_set.induct) auto

lemma om_set_has: "(k, v) \<in> set (om_set m k v)"
  by (induction m k v rule: om_set.induct) auto

lemma om_delete_in: "(k', v') \<in> set (om_delete m k) \<longleftrightarrow> (k', v') \<in> set m \<and> k' \<noteq> k"
  by (auto simp: om_delete_def)

lemma map_taskId_update:
  "t < length h \<Longrightarrow> at_taskId x = at_taskId (h ! t) \<Longrightarrow> map at_taskId (h[t := x]) = map at_taskId h"
  by (simp add: map_update) (metis list_update_id map_update nth_map)

lemma task_ok_cong:
  assumes "at_parent x < length (tm_ctxs m) \<Longrightarrow> at_parent x < length (tm_ctxs m') \<and>
      pc_depth (parent_of m' x) = pc_depth (parent_of m x) \<and>
      pc_readOnlyLocked (parent_of m' x) = pc_readOnlyLocked (parent_of m x)"
    and "\<not> at_settled x \<Longrightarrow> (at_taskId x, t) \<in> set (tm_tasks m) \<Longrightarrow> (at_taskId x, t) \<in> set (tm_tasks m')"
    and "task_ok m t x"
  shows "task_ok m' t x"
  using assms by (simp add: task_ok_def) blast

lemma unsettled_are_counted:
  assumes "tm_inv m"
  shows "length (running m) \<le> activeFor (tm_rootSessionId m) m"
proof -
  let ?A = "filter (\<lambda>(_, t). pc_rootSessionId (parent_of m (task_at m t)) = tm_rootSessionId m \<and> is_active (task_at m t)) (tm_tasks m)"
  have "t \<in> set (map snd ?A)" if "t < length (tm_heap m)" "\<not> at_settled (task_at m t)" for t
  proof -
    from assms that have "task_ok m t (task_at m t)" by (simp add: tm_inv_def)
    moreover from this assms have "context_ok m (parent_of m (task_at m t))"
      by (auto simp: tm_inv_def task_ok_def)
    ultimately have "(at_taskId (task_at m t), t) \<in> set ?A"
      using that by (simp add: task_ok_def context_ok_def)
    then show ?thesis by force
  qed
  then have "{t. t < length (tm_heap m) \<and> \<not> at_settled (task_at m t)} \<subseteq> set (map snd ?A)" by blast
  then have "card {t. t < length (tm_heap m) \<and> \<not> at_settled (task_at m t)} \<le> card (set (map snd ?A))"
    by (rule card_mono [OF finite_set])
  also have "\<dots> \<le> length ?A" using card_length [of "map snd ?A"] by simp
  finally show ?thesis by (simp add: running_def activeFor_def length_filter_conv_card)
qed

lemma running_update:
  assumes "t < length (tm_heap m)" and "at_settled (task_at m t) \<longrightarrow> at_settled x"
  shows "length (running (put_task t x m)) \<le> length (running m)"
proof -
  have "{i. i < length (tm_heap m) \<and> \<not> at_settled ((tm_heap m)[t := x] ! i)}
      \<subseteq> {i. i < length (tm_heap m) \<and> \<not> at_settled (tm_heap m ! i)}"
    using assms by (auto simp: nth_list_update split: if_splits)
  then show ?thesis by (simp add: running_def length_filter_conv_card card_mono)
qed

lemma put_task_ok:
  assumes inv: "tm_inv m" and t: "t < length (tm_heap m)" and same: "same_task (task_at m t) x"
    and s: "at_settled (task_at m t) \<longrightarrow> at_settled x" "at_settled x \<longleftrightarrow> \<not> is_active x"
    and c: "at_cleanup x \<noteq> NotCleaned \<longrightarrow> at_settled x"
  shows "tm_inv (put_task t x m)"
  unfolding tm_inv_def
proof (intro conjI allI impI)
  have "at_sessionId x \<noteq> tm_rootSessionId m"
    using inv t same by (auto simp: tm_inv_def root_ok_def same_task_def)
  with inv show "root_ok (put_task t x m)"
    using set_update_subset_insert [of "tm_heap m" t x] by (auto simp: tm_inv_def root_ok_def)
  from inv t same show "maps_ok (put_task t x m)"
    by (auto simp: tm_inv_def maps_ok_def same_task_def map_taskId_update nth_list_update)
  from inv show "\<forall>c \<in> set (tm_ctxs (put_task t x m)). context_ok (put_task t x m) c"
    by (simp add: tm_inv_def context_ok_def)
  from running_update [OF t s(1)] inv show "length (running (put_task t x m)) \<le> MAX_PARALLEL_TASKS"
    by (simp add: tm_inv_def)
next
  fix u assume "u < length (tm_heap (put_task t x m))"
  then have u: "u < length (tm_heap m)" by simp
  with inv have ok: "task_ok m u (task_at m u)" by (simp add: tm_inv_def)
  show "task_ok (put_task t x m) u (task_at (put_task t x m) u)"
  proof (cases "u = t")
    case True
    with ok same s c t show ?thesis by (auto simp: task_ok_def same_task_def)
  next
    case False
    have "task_ok (put_task t x m) u (task_at m u)" by (rule task_ok_cong [OF _ _ ok]) simp_all
    with False show ?thesis by simp
  qed
qed

lemma micro_inv:
  assumes "micro m fs m'" and inv: "tm_inv m"
  shows "tm_inv m'"
  using assms(1)
proof cases
  case (change t x)
  then have "task_ok m t (task_at m t)" using inv by (simp add: tm_inv_def)
  then show ?thesis unfolding change(2)
    by (intro put_task_ok [OF inv change(3,4)]) (use change in \<open>auto simp: task_ok_def\<close>)
next
  case (finish t x)
  then show ?thesis using put_task_ok [OF inv finish(3,4)] by simp
next
  case other
  then show ?thesis using inv
    by (auto simp: same_base_def tm_inv_def root_ok_def maps_ok_def context_ok_def task_ok_def running_def)
next
  case (forget t)
  have dist: "distinct (map at_taskId (tm_heap m))" using inv by (simp add: tm_inv_def maps_ok_def)
  have "task_ok m' u (task_at m' u)" if "u < length (tm_heap m)" for u
  proof -
    have "at_taskId (task_at m u) \<noteq> at_taskId (task_at m t) \<or> u = t"
      using dist that forget by (metis length_map nth_eq_iff_index_eq nth_map)
    moreover have ok: "task_ok m u (task_at m u)" using inv that by (simp add: tm_inv_def)
    ultimately have "task_ok m' u (task_at m u)"
      by (intro task_ok_cong [OF _ _ ok]) (use forget in \<open>auto simp: om_delete_in\<close>)
    with forget show ?thesis by simp
  qed
  with inv forget show ?thesis
    by (auto simp: tm_inv_def root_ok_def maps_ok_def context_ok_def running_def om_delete_in)
next
  case (mode c md)
  have "task_ok m' u (task_at m' u)" if "u < length (tm_heap m)" for u
  proof -
    have ok: "task_ok m u (task_at m u)" using inv that by (simp add: tm_inv_def)
    have "task_ok m' u (task_at m u)"
      by (rule task_ok_cong [OF _ _ ok]) (use mode in \<open>simp_all add: set_mode_def nth_list_update\<close>)
    with mode show ?thesis by simp
  qed
  moreover have "context_ok m' d" if "d \<in> set (tm_ctxs m')" for d
  proof -
    from that mode have "d = (tm_ctxs m ! c)\<lparr>pc_mode := md\<rparr> \<or> d \<in> set (tm_ctxs m)"
      using set_update_subset_insert by (fastforce simp: set_mode_def)
    moreover have "context_ok m (tm_ctxs m ! c)" using inv mode by (simp add: tm_inv_def)
    ultimately show ?thesis using inv mode by (auto simp: tm_inv_def context_ok_def)
  qed
  moreover have "root_ok m'" using inv mode
    by (cases "tm_ctxs m"; cases c) (auto simp: tm_inv_def root_ok_def set_mode_def)
  ultimately show ?thesis using inv mode by (simp add: tm_inv_def maps_ok_def running_def)
next
  case (child t g)
  let ?x = "task_at m t"
  have x: "task_ok m t ?x" using inv child by (simp add: tm_inv_def)
  then have "context_ok m (parent_of m ?x)" using inv by (simp add: tm_inv_def task_ok_def)
  then have new: "context_ok m' (child_context m ?x g)"
    using child by (simp add: context_ok_def child_context_def task_mode_def)
  have "task_ok m' u (task_at m' u)" if "u < length (tm_heap m)" for u
  proof -
    have ok: "task_ok m u (task_at m u)" using inv that by (simp add: tm_inv_def)
    have "task_ok m' u (task_at m u)"
      by (rule task_ok_cong [OF _ _ ok]) (use child in \<open>simp_all add: nth_append\<close>)
    with child show ?thesis by simp
  qed
  moreover have "maps_ok m'"
    using inv child om_set_subset [of "tm_contexts m" "context_key (at_sessionId ?x) g" "length (tm_ctxs m)"]
    by (fastforce simp: tm_inv_def maps_ok_def)
  moreover have "root_ok m'"
  proof -
    have "at_sessionId ?x \<noteq> tm_rootSessionId m" using inv child by (auto simp: tm_inv_def root_ok_def)
    then have "context_key (at_sessionId ?x) g \<noteq> context_key (tm_rootSessionId m) (tm_rootGeneration m)"
      using context_key_session by blast
    then show ?thesis using inv child
      om_set_subset [of "tm_contexts m" "context_key (at_sessionId ?x) g" "length (tm_ctxs m)"]
      by (auto simp: tm_inv_def root_ok_def dest: subsetD)
  qed
  ultimately show ?thesis using inv child new
    by (auto simp: tm_inv_def context_ok_def running_def)
next
  case (begun x)
  let ?t = "length (tm_heap m)"
  have parent: "context_ok m (parent_of m x)" using inv begun by (simp add: tm_inv_def)
  have "task_ok m' u (task_at m' u)" if "u < length (tm_heap m')" for u
  proof (cases "u < ?t")
    case True
    then have ok: "task_ok m u (task_at m u)" using inv by (simp add: tm_inv_def)
    have "at_taskId (task_at m u) \<noteq> at_taskId x" using True begun by (metis image_eqI nth_mem)
    then have "task_ok m' u (task_at m u)"
      by (intro task_ok_cong [OF _ _ ok]) (use begun in \<open>simp_all add: om_set_keeps\<close>)
    with begun True show ?thesis by (simp add: nth_append)
  next
    case False
    with that begun have "u = ?t" by simp
    then show ?thesis using begun parent om_set_has by (auto simp: task_ok_def context_ok_def)
  qed
  moreover have "maps_ok m'"
  proof -
    have "maps_ok m" using inv by (simp add: tm_inv_def)
    then show ?thesis using begun om_set_subset [of "tm_tasks m" "at_taskId x" ?t]
      by (auto simp: maps_ok_def nth_append dest!: subsetD)
  qed
  moreover have "length (running m') \<le> MAX_PARALLEL_TASKS"
    using unsettled_are_counted [OF inv] begun parent by (simp add: running_def context_ok_def)
  moreover have "root_ok m'"
  proof -
    have "hd (tm_ctxs m) \<in> set (tm_ctxs m)" using inv by (simp add: tm_inv_def root_ok_def)
    then have "at_sessionId x \<noteq> tm_rootSessionId m" using inv begun by (metis image_eqI root_ok_def tm_inv_def)
    then show ?thesis using inv begun by (auto simp: tm_inv_def root_ok_def)
  qed
  ultimately show ?thesis using inv begun by (simp add: tm_inv_def context_ok_def)
qed

lemma moves_inv: "moves m fs m' \<Longrightarrow> tm_inv m \<Longrightarrow> tm_inv m'"
  by (induction rule: moves.induct) (auto intro: micro_inv)

text \<open>The tasks that the table names exist.\<close>

lemma tasks_in_heap:
  assumes "tm_inv m" and "om_get (tm_tasks m) i = Some t"
  shows "t < length (tm_heap m)" "at_taskId (task_at m t) = i"
  using assms by (auto simp: tm_inv_def maps_ok_def om_get_def dest!: map_of_SomeD)

lemma getTask_in_heap:
  assumes "tm_inv m" and "getTask i parent m = Some t"
  shows "t < length (tm_heap m)" "om_get (tm_tasks m) i = Some t" "accessible parent m (task_at m t)"
  using assms tasks_in_heap by (auto simp: getTask_def split: option.splits if_splits)

lemma final_statuses [simp]: "final Stopped" "final Failed" "final Completed"
  by (simp_all add: final_def)

lemma stop_does:
  assumes "stop now i parent m = (r, outs, m')" and inv: "tm_inv m"
  shows "does m outs m'" "tm_tasks m' = tm_tasks m" "tm_ctxs m' = tm_ctxs m" "length (tm_heap m') = length (tm_heap m)"
    "tm_rootSessionId m' = tm_rootSessionId m" "getTask i parent m = Some t \<Longrightarrow> at_settled (task_at m' t)"
proof -
  have "does m outs m' \<and> tm_tasks m' = tm_tasks m \<and> tm_ctxs m' = tm_ctxs m \<and> length (tm_heap m') = length (tm_heap m) \<and>
    tm_rootSessionId m' = tm_rootSessionId m \<and> (getTask i parent m = Some t \<longrightarrow> at_settled (task_at m' t))"
  proof (cases "getTask i parent m")
    case None
    with assms(1) show ?thesis by (auto simp: stop_def split: option.splits)
  next
    case (Some u)
    have u: "u < length (tm_heap m)" using getTask_in_heap(1) [OF inv Some] .
    obtain s o1 m1 where 1: "settle u Stopped None (Some ''Managed task was stopped'') True now m = (s, o1, m1)"
      by (metis prod_cases3)
    obtain o2 m2 where 2: "cleanup u m1 = (o2, m2)" by fastforce
    note S = settle_does [OF 1 u final_statuses(1)]
    have u1: "u < length (tm_heap m1)" using u S(3) by simp
    note C = cleanup_does [OF 2 u1 S(2)]
    have "does m (o1 @ o2) m2" using does_append [OF S(1) C(1)] .
    with assms(1) Some 1 2 S C show ?thesis by (auto simp: stop_def)
  qed
  then show "does m outs m'" "tm_tasks m' = tm_tasks m" "tm_ctxs m' = tm_ctxs m" "length (tm_heap m') = length (tm_heap m)"
    "tm_rootSessionId m' = tm_rootSessionId m" "getTask i parent m = Some t \<Longrightarrow> at_settled (task_at m' t)"
    by simp_all
qed

lemma stop_each_does:
  assumes "stop_each now parent is m = (outs, m')" and "tm_inv m"
  shows "does m outs m' \<and> tm_ctxs m' = tm_ctxs m \<and> length (tm_heap m') = length (tm_heap m)"
  using assms
proof (induction "is" arbitrary: m outs)
  case (Cons i "is")
  obtain r o1 m1 where 1: "stop now i parent m = (r, o1, m1)" by (metis prod_cases3)
  obtain o2 m2 where 2: "stop_each now parent is m1 = (o2, m2)" by fastforce
  note S = stop_does [OF 1 Cons.prems(2)]
  have inv1: "tm_inv m1" using moves_inv [OF S(1) Cons.prems(2)] .
  from Cons.IH [OF _ inv1] Cons.prems(1) 1 2 S show ?case
    by (auto intro: does_append)
qed auto

text \<open>Stopping a list of tasks that are all accessible settles each of them.\<close>

lemma stop_each_settles:
  assumes "stop_each now parent is m = (outs, m')" and "tm_inv m" and "i \<in> set is" and "om_get (tm_tasks m) i = Some t"
    and "pc_sessionId parent = pc_rootSessionId parent" and "pc_rootSessionId parent = tm_rootSessionId m"
  shows "at_settled (task_at m' t)"
  using assms
proof (induction "is" arbitrary: m outs)
  case (Cons j "is")
  obtain r o1 m1 where 1: "stop now j parent m = (r, o1, m1)" by (metis prod_cases3)
  obtain o2 m2 where 2: "stop_each now parent is m1 = (o2, m2)" by fastforce
  have m': "m' = m2" using Cons.prems(1) 1 2 by simp
  note S = stop_does [OF 1 Cons.prems(2)]
  have inv1: "tm_inv m1" using moves_inv [OF S(1) Cons.prems(2)] .
  have t: "t < length (tm_heap m)" using tasks_in_heap(1) [OF Cons.prems(2,4)] .
  show ?case
  proof (cases "i = j")
    case True
    have "task_ok m t (task_at m t)" using Cons.prems(2) t by (simp add: tm_inv_def)
    then have "context_ok m (parent_of m (task_at m t))" using Cons.prems(2) by (simp add: tm_inv_def task_ok_def)
    with True Cons.prems have "getTask j parent m = Some t"
      by (simp add: getTask_def accessible_def canAccess_def context_ok_def)
    from S(6) [OF this] t S(4) have "at_settled (task_at m1 t)" "t < length (tm_heap m1)" by simp_all
    moreover have "moves m1 (finished o2) m2" using stop_each_does [OF 2 inv1] by simp
    ultimately show ?thesis using moves_settled m' by blast
  next
    case False
    with Cons.prems have "i \<in> set is" by simp
    from Cons.IH [OF 2 [folded m'] inv1 this] Cons.prems S show ?thesis by simp
  qed
qed simp

section \<open>Every event is a sequence of moves\<close>

lemma set_mode_does:
  "c < length (tm_ctxs m) \<Longrightarrow> (pc_readOnlyLocked (tm_ctxs m ! c) \<Longrightarrow> md = PlanMode) \<Longrightarrow> does m [] (set_mode c md m)"
  using micro_moves [OF micro.mode] by simp

lemma context_in_range: "tm_inv m \<Longrightarrow> om_get (tm_contexts m) k = Some c \<Longrightarrow> c < length (tm_ctxs m)"
  by (auto simp: tm_inv_def maps_ok_def om_get_def dest!: map_of_SomeD)

lemma plan_and_stop_does:
  assumes "stop_each now parent is (set_mode c PlanMode m) = (outs, m')" and "c < length (tm_ctxs m)" and "tm_inv m"
  shows "does m outs m'"
proof -
  have d: "does m [] (set_mode c PlanMode m)" using assms(2) by (intro set_mode_does) simp_all
  have "tm_inv (set_mode c PlanMode m)" using moves_inv [OF d] assms(3) by simp
  then have "does (set_mode c PlanMode m) outs m'" using stop_each_does [OF assms(1)] by simp
  from does_append [OF d this] show ?thesis by simp
qed

lemma mode_set_does:
  assumes "mode_set env c payload m = (r, outs, m')" and "c < length (tm_ctxs m)" and "tm_inv m"
  shows "does m outs m'"
  using assms(1) plan_and_stop_does [OF _ assms(2,3)] set_mode_does [OF assms(2), of AgentMode]
  by (auto simp: mode_set_def Let_def split: if_splits prod.splits)

lemma setRootMode_does:
  assumes "setRootMode now md m = (outs, m')" and "tm_inv m"
  shows "does m outs m'"
proof (cases "root_context m")
  case None
  with assms(1) show ?thesis by (simp add: setRootMode_def)
next
  case (Some c)
  then have c: "c < length (tm_ctxs m)" using context_in_range [OF assms(2)] by (simp add: root_context_def)
  show ?thesis
  proof (cases "md = PlanMode")
    case True
    with assms(1) Some plan_and_stop_does [OF _ c assms(2)] show ?thesis by (auto simp: setRootMode_def Let_def)
  next
    case False
    have "c = 0" using Some assms(2) by (auto simp: root_context_def tm_inv_def root_ok_def om_get_def dest!: map_of_SomeD)
    then have "\<not> pc_readOnlyLocked (tm_ctxs m ! c)"
      using assms(2) by (cases "tm_ctxs m") (simp_all add: tm_inv_def root_ok_def)
    then have "does m [] (set_mode c md m)" using set_mode_does [OF c] by simp
    with assms(1) Some False show ?thesis by (auto simp: setRootMode_def Let_def)
  qed
qed

lemma start_task_does:
  assumes "start_task env c payload m = (r, outs, m')" and c: "c < length (tm_ctxs m)" and inv: "tm_inv m"
    and nd: "\<not> tm_disposed m" and fresh: "fresh_ids (Request env req) m"
  shows "does m outs m'"
proof (cases "m' = m \<and> outs = []")
  case False
  let ?parent = "tm_ctxs m ! c" and ?depth = "te_Number env (member payload ''depth'')"
  have d: "\<not> (\<not> is_safe_integer ?depth \<or> number_of ?depth \<noteq> pc_depth ?parent + 1 \<or> number_of ?depth > MAX_TASK_DEPTH)"
    by (rule notI) (use assms(1) False in \<open>simp add: start_task_def Let_def\<close>)
  have l: "\<not> activeFor (pc_rootSessionId ?parent) m \<ge> MAX_PARALLEL_TASKS"
    by (rule notI) (use assms(1) False d in \<open>simp add: start_task_def Let_def\<close>)
  obtain prompt description origin timeoutMs where args: "start_arguments payload = Inr (prompt, description, origin, timeoutMs)"
    using assms(1) False d l by (cases "start_arguments payload") (auto simp: start_task_def Let_def)
  have su: "te_setup env"
    by (rule ccontr) (use assms(1) False d l args in \<open>simp add: start_task_def Let_def\<close>)
  define x where x: "x = new_task env c payload prompt description origin m"
  from assms(1) d l args su
  have m': "m' = m\<lparr>tm_heap := tm_heap m @ [x], tm_tasks := om_set (tm_tasks m) (at_taskId x) (length (tm_heap m))\<rparr>"
    and o: "finished outs = []"
    by (auto simp: start_task_def Let_def x)
  have "micro m [] m'"
    unfolding m'
    by (rule micro.begun)
      (use d l c nd fresh in \<open>simp_all add: x new_task_def is_active_def read_only_start_def\<close>)
  then show ?thesis using o micro_moves by simp
qed simp

lemma handle_does:
  assumes "handle env req m = (r, outs, m')" and inv: "tm_inv m" and fresh: "fresh_ids (Request env req) m"
  shows "does m outs m'"
proof (cases "\<not> tm_disposed m \<and> (\<exists>c. om_get (tm_contexts m) (context_key (br_sessionId req) (br_generation req)) = Some c)")
  case True
  then obtain c where nd: "\<not> tm_disposed m"
    and get: "om_get (tm_contexts m) (context_key (br_sessionId req) (br_generation req)) = Some c" by blast
  have c: "c < length (tm_ctxs m)" using context_in_range [OF inv get] .
  have "perform env c (br_operation req) (br_payload req) m = (r, outs, m')"
    using assms(1) nd get by (simp add: handle_def)
  then show ?thesis
    using mode_set_does [OF _ c inv] start_task_does [OF _ c inv nd fresh] stop_does(1) [OF _ inv]
    by (auto simp: perform_def with_task_id_def steer_def Let_def split: if_splits sum.splits prod.splits option.splits)
qed (use assms(1) in \<open>auto simp: handle_def split: if_splits option.splits\<close>)

lemma stopTask_does:
  "stopTask now taskId m = (r, outs, m') \<Longrightarrow> tm_inv m \<Longrightarrow> does m outs m'"
  using stop_does(1) by (auto simp: stopTask_def split: option.splits)

text \<open>A change of the fields that neither identity nor outcome depend on.\<close>

lemma put_task_does:
  assumes "t < length (tm_heap m)" and "same_task (task_at m t) x" and "at_settled x = at_settled (task_at m t)"
    and "is_active x = is_active (task_at m t)" and "at_cleanup x = at_cleanup (task_at m t)"
  shows "does m [] (put_task t x m)"
  using micro_moves [OF micro.change [OF assms(1-4)]] assms(5) by simp

lemma start_failed_does:
  assumes "start_failed t err now m = (outs, m')" and t: "t < length (tm_heap m)"
  shows "does m outs m'"
proof -
  define m0 where "m0 = put_task t ((task_at m t)\<lparr>at_phase := Ended\<rparr>) m"
  have 0: "does m [] m0"
    unfolding m0_def by (rule put_task_does) (use t in \<open>simp_all add: same_task_def is_active_def\<close>)
  have t0: "t < length (tm_heap m0)" using t by (simp add: m0_def)
  obtain s o1 m1 where 1: "settle t Failed None (Some err) True now m0 = (s, o1, m1)" by (metis prod_cases3)
  note S = settle_does [OF 1 t0 final_statuses(2)]
  obtain o2 m2 where 2: "cleanup t m1 = (o2, m2)" by fastforce
  have "t < length (tm_heap m1)" using t0 S(3) by simp
  note C = cleanup_does [OF 2 this S(2)]
  from does_append [OF 0 does_append [OF S(1) C(1)]] assms(1) 1 2
  show ?thesis by (auto simp: start_failed_def Let_def m0_def [symmetric])
qed

definition disposal_ok :: "task_manager \<Rightarrow> bool" where
  "disposal_ok m \<longleftrightarrow> (tm_disposed m \<longrightarrow> (\<forall>x \<in> set (tm_heap m). at_settled x))"

lemma launch_returns_does:
  assumes "launch_returns t e now m = (outs, m')" and inv: "tm_inv m" and disp: "disposal_ok m"
  shows "does m outs m'"
proof (cases "t < length (tm_heap m) \<and> at_phase (task_at m t) = Launching")
  case True
  let ?x = "task_at m t"
  have t: "t < length (tm_heap m)" and phase: "at_phase ?x = Launching" using True by simp_all
  have ok: "task_ok m t ?x" using inv t by (simp add: tm_inv_def)
  show ?thesis
  proof (cases e)
    case (LaunchFailed err)
    with assms(1) t phase start_failed_does [OF _ t] show ?thesis by (simp add: launch_returns_def Let_def)
  next
    case (Launched g transport)
    show ?thesis
    proof (cases "tm_disposed m \<or> at_settled ?x \<or> om_get (tm_tasks m) (at_taskId ?x) \<noteq> Some t")
      case gone: True
      have "at_settled ?x"
      proof -
        have "(at_taskId ?x, t) \<in> set (tm_tasks m) \<Longrightarrow> om_get (tm_tasks m) (at_taskId ?x) = Some t"
          using inv by (simp add: tm_inv_def maps_ok_def om_wf_def om_get_def)
        then show ?thesis using gone ok disp t by (auto simp: task_ok_def disposal_ok_def)
      qed
      define m0 where "m0 = put_task t (?x\<lparr>at_phase := Throwing\<rparr>) m"
      have 0: "does m [] m0"
        unfolding m0_def by (rule put_task_does) (use t in \<open>simp_all add: same_task_def is_active_def\<close>)
      have "cleanup t m0 = (outs, m')"
        using assms(1) t phase Launched gone by (simp add: launch_returns_def Let_def m0_def)
      from cleanup_does(1) [OF this] \<open>at_settled ?x\<close> t have "does m0 outs m'" by (simp add: m0_def)
      from does_append [OF 0 this] show ?thesis by simp
    next
      case here: False
      define x1 where "x1 = ?x\<lparr>at_phase := Prompting, at_status := Running, at_updatedAt := now\<rparr>"
      define m0 where "m0 = put_task t x1 m"
      define m1 where "m1 = m0\<lparr>tm_ctxs := tm_ctxs m0 @ [child_context m0 (task_at m0 t) g],
        tm_contexts := om_set (tm_contexts m0) (context_key (at_sessionId (task_at m0 t)) g) (length (tm_ctxs m0))\<rparr>"
      have 0: "does m [] m0"
        unfolding m0_def
        by (rule put_task_does) (use t ok here in \<open>auto simp: x1_def same_task_def is_active_def task_ok_def\<close>)
      have t0: "t < length (tm_heap m0)" using t by (simp add: m0_def)
      have 1: "does m [] m1"
        using moves.more [OF 0 micro.child [OF t0]] by (simp add: m1_def)
      have t1: "t < length (tm_heap m1)" using t0 by (simp add: m1_def)
      have eq: "m1 = (put_task t x1 m)\<lparr>tm_ctxs := tm_ctxs m @ [child_context m ?x g],
          tm_contexts := om_set (tm_contexts m) (context_key (at_sessionId ?x) g) (length (tm_ctxs m))\<rparr>"
        using t by (simp add: m1_def m0_def x1_def child_context_def)
      show ?thesis
      proof (cases transport)
        case True
        with assms(1) t phase Launched here have "outs = [TaskEvent t Running, PromptChild t]" "m' = m1"
          by (simp_all add: launch_returns_def Let_def x1_def [symmetric] eq)
        with 1 show ?thesis by simp
      next
        case False
        obtain o2 m2 where 2: "start_failed t ''Managed Pi task transport is unavailable'' now m1 = (o2, m2)" by fastforce
        with assms(1) t phase Launched here False have "outs = TaskEvent t Running # o2" "m' = m2"
          by (simp_all add: launch_returns_def Let_def x1_def [symmetric] eq)
        with does_append [OF 1 start_failed_does [OF 2 t1]] show ?thesis by simp
      qed
    qed
  qed
qed (use assms(1) in \<open>auto simp: launch_returns_def Let_def\<close>)

lemma settle_event_does:
  "snd (settle t status result err notify now m) = (outs, m') \<Longrightarrow> t < length (tm_heap m) \<Longrightarrow> final status \<Longrightarrow> does m outs m'"
  using settle_does(1) by (metis prod.collapse)

lemma process_exit_does:
  assumes "process_exit t now m = (outs, m')"
  shows "does m outs m'"
proof (cases "t < length (tm_heap m)")
  case t: True
  obtain s o1 m1 where 1: "settle t Failed None (Some ''Managed Pi task process exited before agent_settled'') True now m = (s, o1, m1)"
    by (metis prod_cases3)
  note S = settle_does [OF 1 t final_statuses(2)]
  obtain o2 m2 where 2: "cleanup t m1 = (o2, m2)" by fastforce
  have "t < length (tm_heap m1)" using t S(3) by simp
  from does_append [OF S(1) cleanup_does(1) [OF 2 this S(2)]] assms t 1 2
  show ?thesis by (auto simp: process_exit_def)
qed (use assms in \<open>simp add: process_exit_def\<close>)

lemma completion_seen_does:
  assumes "completion_seen t m = (outs, m')"
  shows "does m outs m'"
proof (cases "t < length (tm_heap m) \<and> at_phase (task_at m t) = Watching \<and> at_settled (task_at m t)")
  case True
  let ?x = "task_at m t"
  define m0 where "m0 = put_task t (?x\<lparr>at_phase := (if at_background ?x then Ended else Throwing)\<rparr>) m"
  have 0: "does m [] m0"
    unfolding m0_def by (rule put_task_does) (use True in \<open>simp_all add: same_task_def is_active_def\<close>)
  have "cleanup t m0 = (outs, m')" using assms True by (simp add: completion_seen_def Let_def m0_def)
  from cleanup_does(1) [OF this] True have "does m0 outs m'" by (simp add: m0_def)
  from does_append [OF 0 this] show ?thesis by simp
qed (use assms in \<open>auto simp: completion_seen_def Let_def\<close>)

lemma cleanup_returns_does:
  assumes inv: "tm_inv m"
  shows "does m [] (cleanup_returns t e m)"
proof (cases "t \<ge> length (tm_heap m) \<or> at_cleanup (task_at m t) \<noteq> Cleaning \<or> at_phase (task_at m t) = Launching")
  case False
  let ?x = "task_at m t"
  have t: "t < length (tm_heap m)" and "at_cleanup ?x \<noteq> NotCleaned" using False by auto
  with inv have s: "at_settled ?x" by (auto simp: tm_inv_def task_ok_def)
  define m0 where "m0 = put_task t (?x\<lparr>at_cleanup := (if e = CleanedUp then Cleaned else NotCleaned)\<rparr>) m"
  have 0: "micro m [] m0"
    unfolding m0_def by (rule micro.change) (use t s in \<open>simp_all add: same_task_def is_active_def\<close>)
  have x: "t < length (tm_heap m0)" "at_settled (task_at m0 t)" "at_taskId (task_at m0 t) = at_taskId ?x"
    "tm_tasks m0 = tm_tasks m" using t s by (simp_all add: m0_def)
  have "micro m0 [] (m0\<lparr>tm_tasks := tm_tasks m0\<rparr>)" by (rule micro.other) (simp add: same_base_def)
  then have "micro m0 [] (m0\<lparr>tm_tasks := (if e = KillFailed then tm_tasks m0 else om_delete (tm_tasks m0) (at_taskId ?x))\<rparr>)"
    using micro.forget [OF x(1,2)] x(3) by (cases "e = KillFailed") simp_all
  moreover have "cleanup_returns t e m =
      m0\<lparr>tm_tasks := (if e = KillFailed then tm_tasks m0 else om_delete (tm_tasks m0) (at_taskId ?x))\<rparr>"
    using False by (simp add: cleanup_returns_def Let_def m0_def)
  ultimately show ?thesis using moves.more [OF micro_moves [OF 0]] by simp
qed (auto simp: cleanup_returns_def Let_def)

lemma or_else_does: "(\<not> c \<Longrightarrow> f = (outs, m') \<Longrightarrow> does m outs m') \<Longrightarrow> (if c then ([], m) else f) = (outs, m') \<Longrightarrow> does m outs m'"
  by (auto split: if_splits)

text \<open>Every event but the first disposal is a sequence of moves.\<close>

lemma step_does:
  assumes "task_step e m = (outs, m')" and inv: "tm_inv m" and disp: "disposal_ok m" and fresh: "fresh_ids e m"
    and "\<forall>now. e \<noteq> Dispose now"
  shows "does m outs m'"
proof (cases e)
  case (Request env req)
  then show ?thesis using assms(1) handle_does [OF _ inv] fresh by (metis prod.collapse task_step.simps(1))
next
  case (StopTask i now)
  then show ?thesis using assms(1) stopTask_does [OF _ inv] by (metis prod.collapse task_step.simps(2))
next
  case (SetRootMode md now)
  then show ?thesis using assms(1) setRootMode_does [OF _ inv] by simp
next
  case (LaunchReturns t l now)
  then show ?thesis using assms(1) launch_returns_does [OF _ inv disp] by simp
next
  case (PromptReturns t f now)
  then have "prompt_returns t f now m = (outs, m')" using assms(1) by simp
  then show ?thesis unfolding prompt_returns_def
  proof (rule or_else_does [rotated])
    assume "\<not> (length (tm_heap m) \<le> t \<or> at_phase (task_at m t) \<noteq> Prompting)"
      and r: "(case f of None \<Rightarrow> ([], put_task t ((task_at m t)\<lparr>at_phase := Watching\<rparr>) m)
        | Some err \<Rightarrow> start_failed t err now m) = (outs, m')"
    then have t: "t < length (tm_heap m)" by simp
    have "does m [] (put_task t ((task_at m t)\<lparr>at_phase := Watching\<rparr>) m)"
      by (rule put_task_does) (use t in \<open>simp_all add: same_task_def is_active_def\<close>)
    with r start_failed_does [OF _ t] show ?thesis by (auto split: option.splits)
  qed
next
  case (ThrowContinues t err now)
  then have "throw_continues t err now m = (outs, m')" using assms(1) by simp
  then show ?thesis unfolding throw_continues_def by (rule or_else_does [rotated]) (auto dest: start_failed_does)
next
  case (MessageEnd t msg)
  then have r: "message_end t msg m = (outs, m')" using assms(1) by simp
  let ?y = "(task_at m t)\<lparr>at_finalText := textFromMessage msg, at_lastStopReason := member_string msg ''stopReason'',
     at_lastErrorMessage := member_string msg ''errorMessage''\<rparr>"
  have "does m [] (put_task t ?y m)" if "t < length (tm_heap m)"
    by (rule put_task_does) (use that in \<open>simp_all add: same_task_def is_active_def\<close>)
  with r show ?thesis by (auto simp: message_end_def Let_def split: if_splits)
next
  case (ToolUpdate t)
  then show ?thesis using assms(1) by (auto split: if_splits)
next
  case (AgentSettled t now)
  then have "agent_settled t now m = (outs, m')" using assms(1) by simp
  then show ?thesis unfolding agent_settled_def Let_def
    by (rule or_else_does [rotated]) (auto dest: settle_event_does split: if_splits)
next
  case (ProcessExit t now)
  then show ?thesis using assms(1) process_exit_does by simp
next
  case (RunTimer t now)
  then have "run_timer t now m = (outs, m')" using assms(1) by simp
  then show ?thesis unfolding run_timer_def by (rule or_else_does [rotated]) (auto dest: settle_event_does)
next
  case (AbortSignal t now)
  then have "abort_task t now m = (outs, m')" using assms(1) by simp
  then show ?thesis unfolding abort_task_def
    by (rule or_else_does [rotated]) (auto dest: settle_event_does split: prod.splits)
next
  case (CompletionSeen t)
  then show ?thesis using assms(1) completion_seen_does by simp
next
  case (SteerReturns t ok now)
  then have r: "steer_returns t ok now m = (outs, m')" using assms(1) by simp
  have "does m [] (put_task t ((task_at m t)\<lparr>at_updatedAt := now\<rparr>) m)" if "t < length (tm_heap m)"
    by (rule put_task_does) (use that in \<open>simp_all add: same_task_def is_active_def\<close>)
  with r show ?thesis by (auto simp: steer_returns_def split: if_splits)
next
  case (CleanupReturns t c)
  then show ?thesis using assms(1) cleanup_returns_does [OF inv] by auto
next
  case (Dispose now)
  with assms(5) show ?thesis by simp
next
  case (DisposeFinishes failed)
  moreover have "micro m [] (dispose_finishes failed m)"
    by (rule micro.other) (auto simp: same_base_def dispose_finishes_def)
  ultimately show ?thesis using assms(1) micro_moves by auto
qed

section \<open>Disposal\<close>

lemma dispose_each_does:
  assumes "dispose_each now ts m = (outs, m')" and "\<forall>t \<in> set ts. t < length (tm_heap m)"
  shows "does m outs m' \<and> length (tm_heap m') = length (tm_heap m) \<and> (\<forall>t \<in> set ts. at_settled (task_at m' t))"
  using assms
proof (induction ts arbitrary: m outs m')
  case (Cons t ts)
  obtain s o1 m1 where 1: "settle t Stopped None (Some ''Managed task runtime was disposed'') False now m = (s, o1, m1)"
    by (metis prod_cases3)
  have t: "t < length (tm_heap m)" using Cons.prems(2) by simp
  note S = settle_does [OF 1 t final_statuses(1)]
  obtain o2 m2 where 2: "cleanup t m1 = (o2, m2)" by fastforce
  have t1: "t < length (tm_heap m1)" using t S(3) by simp
  note C = cleanup_does [OF 2 t1 S(2)]
  obtain o3 m3 where 3: "dispose_each now ts m2 = (o3, m3)" by fastforce
  have rest: "does m2 o3 m3 \<and> length (tm_heap m3) = length (tm_heap m2) \<and> (\<forall>t \<in> set ts. at_settled (task_at m3 t))"
    by (rule Cons.IH [OF 3]) (use Cons.prems(2) S(3) C(3) in simp)
  have "at_settled (task_at m3 t)" using rest C t1 moves_settled by fastforce
  moreover have "does m (o1 @ o2 @ o3) m3"
    using does_append [OF S(1) does_append [OF C(1)]] rest by blast
  ultimately show ?case using Cons.prems(1) 1 2 3 S C rest by auto
qed simp

lemma new_task_manager_inv: "tm_inv (new_task_manager s g md model)"
  by (simp add: new_task_manager_def tm_inv_def root_ok_def maps_ok_def context_ok_def running_def)

definition history_inv :: "task_manager \<Rightarrow> bool" where
  "history_inv m \<longleftrightarrow> tm_inv m \<and> disposal_ok m \<and> (tm_disposing m \<longrightarrow> tm_disposed m)"

lemma moves_disposal_ok:
  assumes "moves m fs m'" and "disposal_ok m"
  shows "disposal_ok m'"
  using assms
proof (induction rule: moves.induct)
  case (more m fs m1 gs m2)
  from more.hyps(2) more.IH [OF more.prems] show ?case
    by cases (auto simp: disposal_ok_def same_base_def all_set_conv_all_nth nth_list_update)
qed

lemma step_history_inv:
  assumes "task_step e m = (outs, m')" and inv: "history_inv m" and fresh: "fresh_ids e m"
  shows "history_inv m' \<and> (\<exists>m0. tm_heap m0 = tm_heap m \<and> tm_ctxs m0 = tm_ctxs m \<and> does m0 outs m')"
proof (cases "\<exists>now. e = Dispose now")
  case False
  then have d: "does m outs m'" using step_does [OF assms(1) _ _ fresh] inv by (simp add: history_inv_def)
  have "tm_disposing m' \<longrightarrow> tm_disposed m'" using moves_settled [OF d] inv by (auto simp: history_inv_def)
  with d moves_inv [OF d] moves_disposal_ok [OF d] inv show ?thesis by (auto simp: history_inv_def)
next
  case True
  then obtain now where e: "e = Dispose now" by blast
  show ?thesis
  proof (cases "tm_disposing m")
    case True
    with e assms(1) inv have "outs = []" "m' = m" by (auto simp: dispose_def history_inv_def)
    with inv show ?thesis by auto
  next
    case False
    define m0 where "m0 = m\<lparr>tm_disposed := True, tm_disposing := True\<rparr>"
    have "tm_inv m0 = tm_inv m"
      by (simp add: m0_def tm_inv_def root_ok_def maps_ok_def context_ok_def task_ok_def running_def)
    with inv have inv0: "tm_inv m0" by (simp add: history_inv_def)
    have r: "dispose_each now (map snd (tm_tasks m)) m0 = (outs, m')"
      using e assms(1) False by (simp add: dispose_def m0_def)
    have "\<forall>t \<in> set (map snd (tm_tasks m)). t < length (tm_heap m0)"
      using inv0 by (auto simp: tm_inv_def maps_ok_def m0_def)
    note D = dispose_each_does [OF r this]
    have inv': "tm_inv m'" using moves_inv D inv0 by blast
    have "at_settled (task_at m' t)" if t: "t < length (tm_heap m')" for t
    proof (cases "at_settled (task_at m0 t)")
      case True
      with D t show ?thesis using moves_settled by metis
    next
      case False
      have "task_ok m0 t (task_at m0 t)" using inv0 D t by (simp add: tm_inv_def)
      with False have "t \<in> set (map snd (tm_tasks m))" by (force simp: task_ok_def m0_def)
      with D show ?thesis by blast
    qed
    then have "disposal_ok m'" by (simp add: disposal_ok_def all_set_conv_all_nth)
    moreover have "tm_disposed m'" using D moves_settled [of m0 "finished outs" m'] by (auto simp: m0_def)
    moreover have "tm_heap m0 = tm_heap m" "tm_ctxs m0 = tm_ctxs m" by (simp_all add: m0_def)
    ultimately show ?thesis using inv' D unfolding history_inv_def by blast
  qed
qed

lemma task_history_inv: "task_history s g m outs \<Longrightarrow> history_inv m"
proof (induction rule: task_history.induct)
  case (created md model)
  then show ?case using new_task_manager_inv
    by (simp add: history_inv_def disposal_ok_def) (simp add: new_task_manager_def)
next
  case (step m outs e outs' m')
  then show ?case using step_history_inv by blast
qed

section \<open>Outcomes\<close>

definition outcomes :: "task_manager \<Rightarrow> nat \<Rightarrow> nat" where
  "outcomes m t = (if t < length (tm_heap m) \<and> at_settled (task_at m t) then 1 else 0)"

lemma micro_outcomes: "micro m fs m' \<Longrightarrow> outcomes m' t = outcomes m t + count_list fs t"
proof (induction rule: micro.cases)
  case (begun x m)
  then show ?case by (auto simp: outcomes_def nth_append less_Suc_eq)
qed (auto simp: outcomes_def same_base_def nth_list_update)

lemma moves_outcomes: "moves m fs m' \<Longrightarrow> outcomes m' t = outcomes m t + count_list fs t"
  by (induction rule: moves.induct) (auto simp: micro_outcomes count_list_append)

lemma history_outcomes: "task_history s g m outs \<Longrightarrow> count_list (finished outs) t = outcomes m t"
proof (induction rule: task_history.induct)
  case (created md model)
  then show ?case by (simp add: outcomes_def new_task_manager_def)
next
  case (step m outs e outs' m')
  obtain m0 where "tm_heap m0 = tm_heap m" "does m0 outs' m'"
    using step_history_inv [OF step.hyps(3) task_history_inv [OF step.hyps(1)] step.hyps(2)] by blast
  moreover have "outcomes m0 t = outcomes m t" using \<open>tm_heap m0 = tm_heap m\<close> by (simp add: outcomes_def)
  ultimately show ?case using moves_outcomes step.IH by (simp add: count_list_append)
qed

section \<open>Read-only descendants\<close>

definition sessions_ok :: "task_manager \<Rightarrow> bool" where
  "sessions_ok m \<longleftrightarrow> distinct (map at_sessionId (tm_heap m)) \<and>
     (\<forall>c \<in> set (tm_ctxs m). \<forall>x \<in> set (tm_heap m). pc_sessionId c = at_sessionId x \<longrightarrow> pc_readOnlyLocked c = at_readOnly x)"

lemma sessions_update:
  assumes "sessions_ok m" and "t < length (tm_heap m)" and "same_task (task_at m t) x"
  shows "sessions_ok (put_task t x m)"
proof -
  have "map at_sessionId ((tm_heap m)[t := x]) = map at_sessionId (tm_heap m)"
    using assms(2,3) by (simp add: map_update same_task_def) (metis list_update_id map_update nth_map)
  moreover have "\<exists>z \<in> set (tm_heap m). at_sessionId y = at_sessionId z \<and> at_readOnly y = at_readOnly z"
    if "y \<in> set ((tm_heap m)[t := x])" for y
  proof -
    have "y \<in> set (tm_heap m) \<or> y = x" using that set_update_subset_insert by fastforce
    moreover have "task_at m t \<in> set (tm_heap m)" using assms(2) by simp
    ultimately show ?thesis using assms(3) unfolding same_task_def by metis
  qed
  ultimately show ?thesis using assms(1) unfolding sessions_ok_def by (metis put_task_heap(1,2))
qed

lemma micro_sessions:
  assumes "micro m fs m'" and "sessions_ok m"
  shows "sessions_ok m'"
  using assms(1)
proof cases
  case (change t x)
  with sessions_update assms(2) show ?thesis by simp
next
  case (finish t x)
  with sessions_update assms(2) show ?thesis by simp
next
  case (mode c md)
  have "pc_sessionId d \<in> pc_sessionId ` set (tm_ctxs m) \<and> (\<exists>d' \<in> set (tm_ctxs m). pc_sessionId d = pc_sessionId d' \<and>
      pc_readOnlyLocked d = pc_readOnlyLocked d')" if "d \<in> set (tm_ctxs m')" for d
  proof -
    from that mode have "d = (tm_ctxs m ! c)\<lparr>pc_mode := md\<rparr> \<or> d \<in> set (tm_ctxs m)"
      using set_update_subset_insert by (fastforce simp: set_mode_def)
    moreover have "tm_ctxs m ! c \<in> set (tm_ctxs m)" using mode by simp
    ultimately show ?thesis by force
  qed
  with assms(2) mode show ?thesis by (fastforce simp: sessions_ok_def)
next
  case (child t g)
  have "x = task_at m t" if "x \<in> set (tm_heap m)" "at_sessionId x = at_sessionId (task_at m t)" for x
    using that child assms(2) by (auto simp: sessions_ok_def distinct_map inj_on_def)
  with assms(2) child show ?thesis by (auto simp: sessions_ok_def child_context_def)
next
  case (begun x)
  with assms(2) show ?thesis by (auto simp: sessions_ok_def image_iff)
qed (use assms(2) in \<open>auto simp: sessions_ok_def same_base_def\<close>)

lemma moves_sessions: "moves m fs m' \<Longrightarrow> sessions_ok m \<Longrightarrow> sessions_ok m'"
  by (induction rule: moves.induct) (auto intro: micro_sessions)

lemma history_sessions: "task_history s g m outs \<Longrightarrow> sessions_ok m"
proof (induction rule: task_history.induct)
  case (created md model)
  then show ?case by (simp add: sessions_ok_def new_task_manager_def)
next
  case (step m outs e outs' m')
  obtain m0 where m0: "tm_heap m0 = tm_heap m" "tm_ctxs m0 = tm_ctxs m" "does m0 outs' m'"
    using step_history_inv [OF step.hyps(3) task_history_inv [OF step.hyps(1)] step.hyps(2)] by blast
  then have "sessions_ok m0" using step.IH by (simp add: sessions_ok_def)
  with m0 moves_sessions show ?case by blast
qed

section \<open>Properties\<close>

text \<open>A start by the root, by hand: the arguments are those of a request.\<close>

definition sample_env :: "string \<Rightarrow> task_env" where
  "sample_env i = \<lparr>te_now = 10, te_Number = (\<lambda>v. v), te_localeCompare = (\<lambda>_ _. 0), te_taskId = i, te_sessionId = ''s'' @ i,
     te_setup = True, te_aborted = False, te_transport = (\<lambda>_. True)\<rparr>"

definition sample_request :: "bool \<Rightarrow> broker_request" where
  "sample_request readOnly = \<lparr>br_sessionId = ''root'', br_generation = 1, br_operation = ''task.start'',
     br_payload = JObject [(''depth'', JNumber (JInt 1)), (''prompt'', JString ''look''), (''readOnly'', JBool readOnly)]\<rparr>"

definition sample_root :: task_manager where
  "sample_root = new_task_manager ''root'' 1 AgentMode JNull"

definition sample_started :: "bool \<Rightarrow> task_manager" where
  "sample_started readOnly = snd (task_step (Request (sample_env ''a'') (sample_request readOnly)) sample_root)"

lemma sample_started_history:
  "task_history ''root'' 1 (sample_started readOnly)
     (fst (task_step (Request (sample_env ''a'') (sample_request readOnly)) sample_root))"
proof -
  have "fresh_ids (Request (sample_env ''a'') (sample_request readOnly)) sample_root"
    by (simp add: sample_env_def sample_root_def new_task_manager_def)
  from task_history.step [OF task_history.created this [unfolded sample_root_def] surjective_pairing]
  show ?thesis by (simp add: sample_started_def sample_root_def)
qed

definition sample_running :: task_manager where
  "sample_running = snd (task_step (LaunchReturns 0 (Launched 1 True) 11) (sample_started True))"

lemma sample_running_history: "\<exists>outs. task_history ''root'' 1 sample_running outs"
proof -
  have "fresh_ids (LaunchReturns 0 (Launched 1 True) 11) (sample_started True)" by simp
  from task_history.step [OF sample_started_history this surjective_pairing]
  show ?thesis unfolding sample_running_def by blast
qed

text \<open>
  C9. Whatever a session, its tasks and their children do, at most four tasks that are not settled exist at a
  time, no task is more than two levels below the root, and every task that is not settled can be found in the
  table of tasks, where disposal and a change to Plan mode look for it.\<close>

theorem tasks_within_limits:
  assumes "task_history rootSessionId rootGeneration m outs"
  shows "length (filter (\<lambda>x. \<not> at_settled x) (tm_heap m)) \<le> MAX_PARALLEL_TASKS \<and>
    (\<forall>x \<in> set (tm_heap m). ts_depth (task_snapshot_of m x) \<le> MAX_TASK_DEPTH \<and>
       (\<not> at_settled x \<longrightarrow> (\<exists>t. om_get (tm_tasks m) (at_taskId x) = Some t \<and> task_at m t = x)))"
proof (intro conjI ballI)
  have inv: "tm_inv m" using task_history_inv [OF assms] by (simp add: history_inv_def)
  then show "length (filter (\<lambda>x. \<not> at_settled x) (tm_heap m)) \<le> MAX_PARALLEL_TASKS" by (simp add: tm_inv_def running_def)
  fix x assume "x \<in> set (tm_heap m)"
  then obtain t where t: "t < length (tm_heap m)" "task_at m t = x" by (auto simp: in_set_conv_nth)
  with inv have ok: "task_ok m t x" by (auto simp: tm_inv_def)
  then show "ts_depth (task_snapshot_of m x) \<le> MAX_TASK_DEPTH" by (simp add: task_ok_def task_snapshot_of_def)
  have "om_wf (tm_tasks m)" using inv by (simp add: tm_inv_def maps_ok_def)
  with ok t show "\<not> at_settled x \<longrightarrow> (\<exists>t. om_get (tm_tasks m) (at_taskId x) = Some t \<and> task_at m t = x)"
    by (auto simp: task_ok_def om_wf_def om_get_def)
qed

lemma tasks_within_limits_witness:
  "length (filter (\<lambda>x. \<not> at_settled x) (tm_heap (sample_started False))) = 1 \<and>
   list_all (\<lambda>x. ts_depth (task_snapshot_of (sample_started False) x) = 1) (tm_heap (sample_started False)) \<and>
   length (filter (\<lambda>x. \<not> at_settled x) (tm_heap (sample_started False))) \<le> MAX_PARALLEL_TASKS"
proof -
  have "length (filter (\<lambda>x. \<not> at_settled x) (tm_heap (sample_started False))) = 1"
    "list_all (\<lambda>x. ts_depth (task_snapshot_of (sample_started False) x) = 1) (tm_heap (sample_started False))" by code_simp+
  with tasks_within_limits [OF sample_started_history [of False]] show ?thesis by blast
qed

text \<open>
  C29. A read-only task stays in Plan mode, and so do all its descendants: its context can never be switched to
  Agent mode, and every task started below it is read-only and runs in Plan mode.\<close>

theorem read_only_tasks_stay_in_plan_mode:
  assumes "task_history rootSessionId rootGeneration m outs" and "x \<in> set (tm_heap m)" and "at_readOnly x"
  shows "(\<forall>c \<in> set (tm_ctxs m). pc_sessionId c = at_sessionId x \<longrightarrow> pc_mode c = PlanMode) \<and>
    (\<forall>y \<in> set (tm_heap m). pc_sessionId (parent_of m y) = at_sessionId x \<longrightarrow> at_readOnly y)"
proof (intro conjI ballI impI)
  have inv: "tm_inv m" using task_history_inv [OF assms(1)] by (simp add: history_inv_def)
  have locked: "pc_readOnlyLocked c" if "c \<in> set (tm_ctxs m)" "pc_sessionId c = at_sessionId x" for c
    using history_sessions [OF assms(1)] that assms(2,3) by (auto simp: sessions_ok_def)
  fix c assume "c \<in> set (tm_ctxs m)" "pc_sessionId c = at_sessionId x"
  with locked inv show "pc_mode c = PlanMode" by (auto simp: tm_inv_def context_ok_def)
next
  have inv: "tm_inv m" using task_history_inv [OF assms(1)] by (simp add: history_inv_def)
  fix y assume y: "y \<in> set (tm_heap m)" "pc_sessionId (parent_of m y) = at_sessionId x"
  then obtain t where "task_ok m t y" using inv by (auto simp: tm_inv_def in_set_conv_nth)
  then have "parent_of m y \<in> set (tm_ctxs m)" "pc_readOnlyLocked (parent_of m y) \<longrightarrow> at_readOnly y"
    by (simp_all add: task_ok_def)
  with y(2) history_sessions [OF assms(1)] assms(2,3) show "at_readOnly y" by (auto simp: sessions_ok_def)
qed

lemma read_only_tasks_stay_in_plan_mode_witness:
  "map pc_mode (tm_ctxs sample_running) = [AgentMode, PlanMode] \<and> map at_readOnly (tm_heap sample_running) = [True] \<and>
   list_all (\<lambda>c. pc_sessionId c \<noteq> ''sa'' \<or> pc_mode c = PlanMode) (tm_ctxs sample_running)"
proof -
  have h: "hd (tm_heap sample_running) \<in> set (tm_heap sample_running)" "at_readOnly (hd (tm_heap sample_running))"
    "at_sessionId (hd (tm_heap sample_running)) = ''sa''" by code_simp+
  obtain outs where "task_history ''root'' 1 sample_running outs" using sample_running_history by blast
  from read_only_tasks_stay_in_plan_mode [OF this h(1,2)] h(3)
  have "list_all (\<lambda>c. pc_sessionId c \<noteq> ''sa'' \<or> pc_mode c = PlanMode) (tm_ctxs sample_running)"
    by (auto simp: list_all_iff)
  moreover have "map pc_mode (tm_ctxs sample_running) = [AgentMode, PlanMode]" "map at_readOnly (tm_heap sample_running) = [True]"
    by code_simp+
  ultimately show ?thesis by blast
qed

text \<open>
  Every task gets its outcome once: the completion of a task is resolved exactly when the task is settled, with
  whichever of completion, failure, exit, time-out, abort, stop and disposal comes first, and never again.\<close>

theorem tasks_finish_exactly_once:
  assumes "task_history rootSessionId rootGeneration m outs"
  shows "count_list (finished outs) t = (if t < length (tm_heap m) \<and> at_settled (task_at m t) then 1 else 0)"
  using history_outcomes [OF assms] by (simp add: outcomes_def)

definition sample_exited :: task_manager where
  "sample_exited = snd (task_step (ProcessExit 0 12) (sample_started False))"

lemma tasks_finish_exactly_once_witness:
  "\<exists>outs. task_history ''root'' 1 sample_exited outs \<and> at_settled (task_at sample_exited 0) \<and>
     count_list (finished outs) 0 = 1"
proof -
  have "fresh_ids (ProcessExit 0 12) (sample_started False)" by simp
  from task_history.step [OF sample_started_history this surjective_pairing]
  obtain outs where h: "task_history ''root'' 1 sample_exited outs" unfolding sample_exited_def by blast
  have "0 < length (tm_heap sample_exited) \<and> at_settled (task_at sample_exited 0)" by code_simp
  with tasks_finish_exactly_once [OF h, of 0] h show ?thesis by auto
qed

lemma micro_same: "micro m fs m' \<Longrightarrow> t < length (tm_heap m) \<Longrightarrow> same_task (task_at m t) (task_at m' t)"
  by (induction rule: micro.cases) (auto simp: same_task_def same_base_def nth_append nth_list_update)

lemma moves_same:
  "moves m fs m' \<Longrightarrow> t < length (tm_heap m) \<Longrightarrow> same_task (task_at m t) (task_at m' t)"
proof (induction rule: moves.induct)
  case (more m fs m1 gs m2)
  moreover have "t < length (tm_heap m1)" using moves_settled [OF more.hyps(1)] more.prems by force
  ultimately show ?case using micro_same [OF more.hyps(2)] by (auto simp: same_task_def)
qed (simp add: same_task_def)

text \<open>
  C11. Switching the session to Plan mode leaves no writable task: afterwards the root context is in Plan mode, and
  every task at any depth that is not settled is read-only.\<close>

theorem plan_mode_stops_writable_tasks:
  assumes "task_history rootSessionId rootGeneration m outs" and "root_context m = Some c"
    and "setRootMode now PlanMode m = (outs', m')"
  shows "pc_mode (tm_ctxs m' ! c) = PlanMode \<and> (\<forall>x \<in> set (tm_heap m'). \<not> at_settled x \<longrightarrow> at_readOnly x)"
proof (intro conjI ballI impI)
  have inv: "tm_inv m" using task_history_inv [OF assms(1)] by (simp add: history_inv_def)
  have c: "c < length (tm_ctxs m)" using context_in_range [OF inv] assms(2) by (simp add: root_context_def)
  have c0: "c = 0" using assms(2) inv by (auto simp: root_context_def tm_inv_def root_ok_def om_get_def dest!: map_of_SomeD)
  define m1 where "m1 = set_mode c PlanMode m"
  define root where "root = tm_ctxs m1 ! c"
  have inv1: "tm_inv m1" using micro_inv [OF micro.mode [OF c] inv] by (simp add: m1_def)
  have root: "pc_sessionId root = tm_rootSessionId m" "pc_rootSessionId root = tm_rootSessionId m" "pc_mode root = PlanMode"
    using inv c c0 by (cases "tm_ctxs m"; simp add: root_def m1_def set_mode_def tm_inv_def root_ok_def context_ok_def)+
  have r: "stop_each now root (writable_tasks (\<lambda>p. pc_rootSessionId p = pc_rootSessionId root) m1) m1 = (outs', m')"
    using assms(2,3) by (simp add: setRootMode_def Let_def m1_def root_def)
  have D: "tm_ctxs m' = tm_ctxs m1" "length (tm_heap m') = length (tm_heap m1)" using stop_each_does [OF r inv1] by simp_all
  show "pc_mode (tm_ctxs m' ! c) = PlanMode" using D root(3) by (simp add: root_def)
  fix x assume "x \<in> set (tm_heap m')" "\<not> at_settled x"
  then obtain t where t: "t < length (tm_heap m1)" "x = task_at m' t" using D by (auto simp: in_set_conv_nth)
  have open_task: "\<not> at_settled (task_at m1 t)"
    using moves_settled [OF conjunct1 [OF stop_each_does [OF r inv1]]] t \<open>\<not> at_settled x\<close> by blast
  have ok: "task_ok m1 t (task_at m1 t)" using inv1 t by (simp add: tm_inv_def)
  then have "(at_taskId (task_at m1 t), t) \<in> set (tm_tasks m1)" using open_task by (simp add: task_ok_def)
  moreover from this inv1 have get: "om_get (tm_tasks m1) (at_taskId (task_at m1 t)) = Some t"
    by (simp add: tm_inv_def maps_ok_def om_wf_def om_get_def)
  moreover have "context_ok m1 (parent_of m1 (task_at m1 t))" using inv1 ok by (simp add: tm_inv_def task_ok_def)
  ultimately have "at_taskId (task_at m1 t) \<in> set (writable_tasks (\<lambda>p. pc_rootSessionId p = pc_rootSessionId root) m1)"
    if "\<not> at_readOnly (task_at m1 t)"
    using that root by (force simp: writable_tasks_def context_ok_def m1_def)
  then have "at_readOnly (task_at m1 t)"
    using stop_each_settles [OF r inv1 _ get] root t \<open>\<not> at_settled x\<close> by (auto simp: m1_def)
  moreover have "same_task (task_at m1 t) (task_at m' t)"
    using moves_same stop_each_does [OF r inv1] t(1) by blast
  ultimately show "at_readOnly x" using t by (simp add: same_task_def)
qed

lemma plan_mode_stops_writable_tasks_witness:
  "\<not> at_readOnly (hd (tm_heap (sample_started False))) \<and> \<not> at_settled (hd (tm_heap (sample_started False))) \<and>
   pc_mode (tm_ctxs (snd (setRootMode 13 PlanMode (sample_started False))) ! 0) = PlanMode \<and>
   list_all (\<lambda>x. at_settled x \<or> at_readOnly x) (tm_heap (snd (setRootMode 13 PlanMode (sample_started False))))"
proof -
  have "root_context (sample_started False) = Some 0" "\<not> at_readOnly (hd (tm_heap (sample_started False)))"
    "\<not> at_settled (hd (tm_heap (sample_started False)))" by code_simp+
  with plan_mode_stops_writable_tasks [OF sample_started_history _ surjective_pairing, of False 0 13]
  show ?thesis unfolding list_all_iff by blast
qed

text \<open>What a request of another session than the root can see and stop.\<close>

lemma settled_snapshot_parent:
  "ts_parentSessionId (task_snapshot_of m x) = pc_sessionId (parent_of m x)"
  by (simp add: task_snapshot_of_def)

lemma mode_set_never_replies_snapshots:
  "mode_set env c payload m \<noteq> (Inr (SnapshotReply s), outs, m')" "start_task env c payload m \<noteq> (Inr (SnapshotReply s), outs, m')"
  by (auto simp: mode_set_def start_task_def Let_def split: if_splits sum.splits prod.splits)

lemma getSnapshot_accessible:
  "getSnapshot i parent m = Some s \<Longrightarrow> canAccess parent (ts_parentSessionId s)"
  "retained_for i parent m = Some s \<Longrightarrow> canAccess parent (ts_parentSessionId s)"
  by (auto simp: getSnapshot_def getTask_def accessible_def retained_for_def settled_snapshot_parent
      split: if_splits option.splits)

lemma task_list_accessible:
  assumes "s \<in> set (task_list lc parent m)"
  shows "canAccess parent (ts_parentSessionId s)"
proof -
  define add where "add = (\<lambda>(_ :: string, t) c. if accessible parent m (task_at m t)
    then om_set c (at_taskId (task_at m t)) (task_snapshot_of m (task_at m t)) else c)"
  have fold_ok: "\<forall>p \<in> set (fold add ts c). canAccess parent (ts_parentSessionId (snd p))"
    if "\<forall>p \<in> set c. canAccess parent (ts_parentSessionId (snd p))" for ts c
    using that
  proof (induction ts arbitrary: c)
    case (Cons p ts)
    have "\<forall>q \<in> set (add p c). canAccess parent (ts_parentSessionId (snd q))"
    proof (cases "accessible parent m (task_at m (snd p))")
      case True
      then have "canAccess parent (ts_parentSessionId (task_snapshot_of m (task_at m (snd p))))"
        by (simp add: accessible_def settled_snapshot_parent)
      with True Cons.prems show ?thesis
        using om_set_subset [of c "at_taskId (task_at m (snd p))" "task_snapshot_of m (task_at m (snd p))"]
        by (cases p) (auto simp: add_def dest!: subsetD)
    qed (use Cons.prems in \<open>cases p; simp add: add_def\<close>)
    with Cons.IH show ?case by simp
  qed simp
  have "pc_rootSessionId parent = tm_rootSessionId m"
    by (rule ccontr) (use assms in \<open>simp add: task_list_def\<close>)
  with assms have "s \<in> snd ` set (fold add (tm_tasks m)
      (filter (\<lambda>(_, s). canAccess parent (ts_parentSessionId s)) (tm_completed m)))"
    by (simp add: task_list_def Let_def add_def)
  moreover have "\<forall>p \<in> set (filter (\<lambda>(_, s). canAccess parent (ts_parentSessionId s)) (tm_completed m)).
      canAccess parent (ts_parentSessionId (snd p))" by auto
  from fold_ok [OF this] have "\<forall>p \<in> set (fold add (tm_tasks m)
      (filter (\<lambda>(_, s). canAccess parent (ts_parentSessionId s)) (tm_completed m))).
      canAccess parent (ts_parentSessionId (snd p))" .
  ultimately show ?thesis by auto
qed

lemma settle_effects:
  assumes "Finished u s' \<in> set outs" and "settle t st res err notify now m = (s, outs, m')"
  shows "u = t"
proof -
  have "u \<in> set (finished outs)" using assms(1) by (force simp: finished_def)
  with assms(2) show ?thesis by (auto simp: settle_def Let_def split: if_splits)
qed

lemma cleanup_effects: "cleanup t m = (outs, m') \<Longrightarrow> Finished u s \<notin> set outs"
  by (auto simp: cleanup_def Let_def split: if_splits)

lemma stop_effects:
  assumes "stop now i parent m = (r, outs, m')" and "Finished t s \<in> set outs"
  shows "accessible parent m (task_at m t)"
proof (cases "getTask i parent m")
  case None
  with assms show ?thesis by (auto simp: stop_def split: option.splits)
next
  case (Some u)
  obtain s1 o1 m1 where 1: "settle u Stopped None (Some ''Managed task was stopped'') True now m = (s1, o1, m1)"
    by (metis prod_cases3)
  obtain o2 m2 where 2: "cleanup u m1 = (o2, m2)" by fastforce
  from assms Some 1 2 have "Finished t s \<in> set o1" using cleanup_effects [OF 2] by (auto simp: stop_def)
  with settle_effects [OF _ 1] have "t = u" by blast
  with Some show ?thesis by (auto simp: getTask_def split: option.splits if_splits)
qed

lemma stop_each_effects:
  assumes "stop_each now parent is m = (outs, m')" and "tm_inv m" and "Finished t s \<in> set outs"
    and "t < length (tm_heap m)"
  shows "accessible parent m (task_at m t)"
  using assms
proof (induction "is" arbitrary: m outs)
  case (Cons i "is")
  obtain r o1 m1 where 1: "stop now i parent m = (r, o1, m1)" by (metis prod_cases3)
  obtain o2 m2 where 2: "stop_each now parent is m1 = (o2, m2)" by fastforce
  note S = stop_does [OF 1 Cons.prems(2)]
  show ?case
  proof (cases "Finished t s \<in> set o1")
    case True
    then show ?thesis using stop_effects [OF 1] by blast
  next
    case False
    with Cons.prems 1 2 S have "accessible parent m1 (task_at m1 t)"
      by (intro Cons.IH [of m1 o2]) (auto intro: moves_inv)
    then show ?thesis using moves_same [OF S(1) Cons.prems(4)] S(3) by (simp add: accessible_def same_task_def)
  qed
qed simp

lemma moves_root:
  "moves m fs m' \<Longrightarrow> tm_ctxs m \<noteq> [] \<Longrightarrow> tm_ctxs m' \<noteq> [] \<and> pc_sessionId (hd (tm_ctxs m')) = pc_sessionId (hd (tm_ctxs m))"
proof (induction rule: moves.induct)
  case (more m fs m1 gs m2)
  from more.hyps(2) more.IH [OF more.prems] show ?case
  proof cases
    case (mode c md)
    with more.IH [OF more.prems] show ?thesis by (cases "tm_ctxs m1"; cases c) (auto simp: set_mode_def)
  qed (auto simp: same_base_def)
qed simp

lemma history_root: "task_history s g m outs \<Longrightarrow> tm_rootSessionId m = s"
proof (induction rule: task_history.induct)
  case (step m outs e outs' m')
  obtain m0 where "tm_ctxs m0 = tm_ctxs m" "does m0 outs' m'"
    using step_history_inv [OF step.hyps(3) task_history_inv [OF step.hyps(1)] step.hyps(2)] by blast
  have "history_inv m" "history_inv m'"
    using step_history_inv [OF step.hyps(3) task_history_inv [OF step.hyps(1)] step.hyps(2)] task_history_inv [OF step.hyps(1)]
    by blast+
  moreover have "pc_sessionId (hd (tm_ctxs m')) = pc_sessionId (hd (tm_ctxs m0)) \<and> (tm_ctxs m0 \<noteq> [] \<longrightarrow> tm_ctxs m' \<noteq> [])"
    if "tm_ctxs m0 \<noteq> []"
    using moves_root [OF \<open>does m0 outs' m'\<close> that] by blast
  ultimately show ?case using step.IH \<open>tm_ctxs m0 = tm_ctxs m\<close> by (simp add: history_inv_def tm_inv_def root_ok_def)
qed (simp add: new_task_manager_def)

lemma perform_list:
  "perform env c op payload m = (r, outs, m') \<Longrightarrow> r = Inr (TasksReply ss) \<Longrightarrow> s \<in> set ss \<Longrightarrow>
   s \<in> set (task_list (te_localeCompare env) (tm_ctxs m ! c) m)"
  by (auto simp: perform_def with_task_id_def mode_set_def start_task_def wait_task_def steer_def Let_def
      bind_result_Inr map_sum_def
      split: if_splits sum.splits option.splits prod.splits)

lemma accessible_set_mode:
  assumes "c < length (tm_ctxs m)"
  shows "accessible (tm_ctxs (set_mode c md m) ! c) (set_mode c md m) x \<longleftrightarrow> accessible (tm_ctxs m ! c) m x"
proof -
  have "pc_sessionId (tm_ctxs (set_mode c md m) ! i) = pc_sessionId (tm_ctxs m ! i) \<and>
      pc_rootSessionId (tm_ctxs (set_mode c md m) ! i) = pc_rootSessionId (tm_ctxs m ! i)" for i
    using assms by (simp add: set_mode_def nth_list_update)
  then show ?thesis by (simp add: accessible_def canAccess_def)
qed

lemma mode_set_effects:
  assumes "mode_set env c payload m = (r, outs, m')" and inv: "tm_inv m" and c: "c < length (tm_ctxs m)"
    and f: "Finished t s \<in> set outs" "t < length (tm_heap m)"
  shows "accessible (tm_ctxs m ! c) m (task_at m t)"
proof -
  define m1 where "m1 = set_mode c PlanMode m"
  have inv1: "tm_inv m1" using micro_inv [OF micro.mode [OF c] inv] by (simp add: m1_def)
  obtain o2 m2 where r: "stop_each (te_now env) (tm_ctxs m1 ! c)
      (writable_tasks (\<lambda>p. pc_sessionId p = pc_sessionId (tm_ctxs m1 ! c)) m1) m1 = (o2, m2)" by fastforce
  with assms(1) f(1) have "outs = o2"
    by (auto simp: mode_set_def Let_def m1_def split: if_splits)
  with stop_each_effects [OF r inv1] f have "accessible (tm_ctxs m1 ! c) m1 (task_at m1 t)" by (simp add: m1_def)
  with accessible_set_mode [OF c] show ?thesis by (simp add: m1_def)
qed

lemma perform_finishes:
  assumes "perform env c op payload m = (r, outs, m')" and inv: "tm_inv m" and c: "c < length (tm_ctxs m)"
    and f: "Finished t s \<in> set outs \<and> t < length (tm_heap m)"
  shows "canAccess (tm_ctxs m ! c) (pc_sessionId (parent_of m (task_at m t)))"
proof -
  have "accessible (tm_ctxs m ! c) m (task_at m t)"
  proof (cases "op = ''mode.set''")
    case True
    with assms(1) have "mode_set env c payload m = (r, outs, m')" by (simp add: perform_def)
    from mode_set_effects [OF this inv c] f show ?thesis by blast
  next
    case False
    show ?thesis
    proof (cases "op = ''task.stop''")
      case True
      with assms(1) f obtain i r1 where "stop (te_now env) i (tm_ctxs m ! c) m = (r1, outs, m')"
        by (auto simp: perform_def with_task_id_def Let_def split: sum.splits prod.splits)
      from stop_effects [OF this] f show ?thesis by blast
    next
      case other: False
      with False assms(1) f show ?thesis
        by (auto simp: perform_def with_task_id_def steer_def start_task_def Let_def
            split: if_splits sum.splits option.splits prod.splits)
    qed
  qed
  then show ?thesis by (simp add: accessible_def)
qed

text \<open>
  A task can only look at and stop the tasks it has started itself: for a request of a context that is not the
  root, status and list return snapshots of its own tasks, and no other task is settled by the request.\<close>

theorem requests_reach_own_tasks:
  assumes "task_history rootSessionId rootGeneration m hist"
    and "om_get (tm_contexts m) (context_key (br_sessionId req) (br_generation req)) = Some c"
    and "pc_sessionId (tm_ctxs m ! c) \<noteq> rootSessionId"
    and "handle env req m = (r, outs, m')"
  shows "(\<forall>ss. r = Inr (TasksReply ss) \<longrightarrow> (\<forall>s \<in> set ss. ts_parentSessionId s = pc_sessionId (tm_ctxs m ! c))) \<and>
    (\<forall>s. br_operation req = ''task.status'' \<and> r = Inr (SnapshotReply s) \<longrightarrow>
       ts_parentSessionId s = pc_sessionId (tm_ctxs m ! c)) \<and>
    (\<forall>t s. Finished t s \<in> set outs \<and> t < length (tm_heap m) \<longrightarrow>
       pc_sessionId (parent_of m (task_at m t)) = pc_sessionId (tm_ctxs m ! c))"
proof -
  let ?p = "tm_ctxs m ! c"
  have inv: "tm_inv m" using task_history_inv [OF assms(1)] by (simp add: history_inv_def)
  have c: "c < length (tm_ctxs m)" using context_in_range [OF inv assms(2)] .
  have "tm_rootSessionId m = rootSessionId" using history_root [OF assms(1)] .
  then have not_root: "pc_sessionId ?p \<noteq> pc_rootSessionId ?p"
    using inv c assms(3) by (auto simp: tm_inv_def context_ok_def)
  then have own: "canAccess ?p i \<longleftrightarrow> i = pc_sessionId ?p" for i by (simp add: canAccess_def)
  show ?thesis
  proof (cases "tm_disposed m")
    case True
    with assms(4) show ?thesis by (auto simp: handle_def)
  next
    case False
    with assms(2,4) have r: "perform env c (br_operation req) (br_payload req) m = (r, outs, m')"
      by (simp add: handle_def)
    show ?thesis
    proof (intro conjI allI impI ballI)
      fix ss s assume "r = Inr (TasksReply ss)" "s \<in> set ss"
      with r have "s \<in> set (task_list (te_localeCompare env) ?p m)"
        by (rule perform_list)
      then show "ts_parentSessionId s = pc_sessionId ?p" using task_list_accessible own by blast
    next
      fix s assume "br_operation req = ''task.status'' \<and> r = Inr (SnapshotReply s)"
      with r have "\<exists>i. getSnapshot i ?p m = Some s"
        by (auto simp: perform_def with_task_id_def split: sum.splits option.splits)
      then show "ts_parentSessionId s = pc_sessionId ?p" using getSnapshot_accessible(1) own by blast
    next
      fix t s assume f: "Finished t s \<in> set outs \<and> t < length (tm_heap m)"
      then have "canAccess ?p (pc_sessionId (parent_of m (task_at m t)))"
        using perform_finishes [OF r inv c] by blast
      then show "pc_sessionId (parent_of m (task_at m t)) = pc_sessionId ?p" using own by simp
    qed
  qed
qed

definition sample_child_request :: "string \<Rightarrow> broker_request" where
  "sample_child_request operation = \<lparr>br_sessionId = ''sa'', br_generation = 1, br_operation = operation,
     br_payload = JObject [(''taskId'', JString ''a'')]\<rparr>"

lemma requests_reach_own_tasks_witness:
  "fst (handle (sample_env ''b'') (sample_child_request ''task.list'') sample_running) = Inr (TasksReply []) \<and>
   fst (handle (sample_env ''b'') (sample_child_request ''task.status'') sample_running) = Inl NotFound \<and>
   list_all (\<lambda>e. finished_task e \<noteq> [0]) (fst (snd (handle (sample_env ''b'') (sample_child_request ''task.stop'') sample_running)))"
proof -
  obtain outs where h: "task_history ''root'' 1 sample_running outs" using sample_running_history by blast
  obtain r o1 m1 where run: "handle (sample_env ''b'') (sample_child_request ''task.stop'') sample_running = (r, o1, m1)"
    by (metis prod_cases3)
  have get: "om_get (tm_contexts sample_running) (context_key (br_sessionId (sample_child_request ''task.stop''))
      (br_generation (sample_child_request ''task.stop''))) = Some 1"
    and s: "pc_sessionId (tm_ctxs sample_running ! 1) = ''sa''" "0 < length (tm_heap sample_running)"
      "pc_sessionId (parent_of sample_running (task_at sample_running 0)) = ''root''" by code_simp+
  have "Finished 0 snap \<notin> set o1" for snap
    using requests_reach_own_tasks [OF h get _ run] s by auto
  then have "list_all (\<lambda>e. finished_task e \<noteq> [0]) (fst (snd (handle (sample_env ''b'') (sample_child_request ''task.stop'') sample_running)))"
    using run by (auto simp: list_all_iff elim!: finished_task.elims)
  moreover have "fst (handle (sample_env ''b'') (sample_child_request ''task.list'') sample_running) = Inr (TasksReply [])"
    "fst (handle (sample_env ''b'') (sample_child_request ''task.status'') sample_running) = Inl NotFound" by code_simp+
  ultimately show ?thesis by blast
qed

end
