(* ===== verification/Model_Policy.thy ===== *)
theory Model_Policy
  imports Rpc_Contract
begin

text \<open>
  The model policy (web/server/pi-model-policy.ts): canonical model references, \<open>provider/model\<close> globs, the
  models an agent may use, and the short-lived cache around the probe that lists them.

  References and candidates come from a probe and are JSON values; globs are strings. The regular
  expression that \<open>globRegex\<close> builds is the list of its atoms, and \<open>matches_atoms\<close> is what the anchored
  expression matches. Credential and network checks of a model and \<open>localeCompare\<close> are parameters.
\<close>

section \<open>References\<close>

definition nonEmpty :: "json \<Rightarrow> bool" where
  "nonEmpty v \<longleftrightarrow> is_js_string v \<and> length (str_of v) > 0 \<and> \<not> js_includes (str_of v) nul"

definition space_or_control :: "char \<Rightarrow> bool" where
  "space_or_control c \<longleftrightarrow> js_space c \<or> (of_char c :: nat) \<le> 31 \<or> (of_char c :: nat) = 127"

definition canonicalKey :: "string \<Rightarrow> string \<Rightarrow> string" where
  "canonicalKey provider modelId = provider @ ''/'' @ modelId"

definition js_ends_with_char :: "string \<Rightarrow> char \<Rightarrow> bool" where
  "js_ends_with_char s c \<longleftrightarrow> s \<noteq> [] \<and> last s = c"

text \<open>\<open>validatePiModelRef\<close> returns without throwing.\<close>

definition validatePiModelRef :: "json \<Rightarrow> bool" where
  "validatePiModelRef model =
     (let provider = member model ''provider''; modelId = member model ''modelId''; key = member model ''key'' in
      \<not> (\<not> is_record model \<or>
         \<not> nonEmpty provider \<or> list_ex space_or_control (str_of provider) \<or> str_of provider \<noteq> js_trim (str_of provider) \<or>
         js_includes (str_of provider) (CHR ''/'') \<or>
         \<not> nonEmpty modelId \<or> list_ex space_or_control (str_of modelId) \<or> str_of modelId \<noteq> js_trim (str_of modelId) \<or>
         js_starts_with (str_of modelId) ''/'' \<or> js_ends_with_char (str_of modelId) (CHR ''/'') \<or>
         \<not> nonEmpty key \<or> list_ex space_or_control (str_of key) \<or> str_of key \<noteq> js_trim (str_of key) \<or>
         str_of key \<noteq> canonicalKey (str_of provider) (str_of modelId)))"

section \<open>Globs\<close>

definition glob_bad :: "char \<Rightarrow> bool" where
  "glob_bad c \<longleftrightarrow> space_or_control c \<or> c \<in> set ''[]{}()'' \<or> of_char c = (92 :: nat)"

definition separator_of :: "string \<Rightarrow> int" where
  "separator_of pattern =
     (if js_includes pattern (CHR ''/'') then int (length (takeWhile (\<lambda>c. c \<noteq> CHR ''/'') pattern)) else - 1)"

definition validatePiModelGlob :: "string \<Rightarrow> bool" where
  "validatePiModelGlob pattern =
     (\<not> (\<not> nonEmpty (JString pattern) \<or> separator_of pattern < 1 \<or> separator_of pattern = int (length pattern) - 1 \<or>
        list_ex glob_bad pattern))"

text \<open>The pieces of the expression: \<open>[^/]*\<close>, \<open>.*\<close>, \<open>[^/]\<close>, \<open>.\<close> and an escaped character.\<close>

datatype atom = SegStar | DotStar | SegOne | DotOne | Lit char

definition glob_atom :: "bool \<Rightarrow> char \<Rightarrow> atom" where
  "glob_atom inProvider c =
     (if c = CHR ''*'' then (if inProvider then SegStar else DotStar)
      else if c = CHR ''?'' then (if inProvider then SegOne else DotOne)
      else Lit c)"

definition globRegex :: "string \<Rightarrow> atom list" where
  "globRegex pattern =
     map (\<lambda>index. glob_atom (int index < separator_of pattern) (pattern ! index)) [0..<length pattern]"

definition dot_char :: "char \<Rightarrow> bool" where
  "dot_char c \<longleftrightarrow> c \<noteq> LF \<and> c \<noteq> CR"

fun atom_char :: "atom \<Rightarrow> char \<Rightarrow> bool" where
  "atom_char SegStar c = (c \<noteq> CHR ''/'')"
| "atom_char SegOne c = (c \<noteq> CHR ''/'')"
| "atom_char DotStar c = dot_char c"
| "atom_char DotOne c = dot_char c"
| "atom_char (Lit d) c = (c = d)"

definition repeated :: "atom \<Rightarrow> bool" where
  "repeated a \<longleftrightarrow> a = SegStar \<or> a = DotStar"

fun matches_atoms :: "atom list \<Rightarrow> string \<Rightarrow> bool" where
  "matches_atoms [] s = (s = [])"
| "matches_atoms (a # as) s =
     (if repeated a then matches_atoms as s \<or> (case s of [] \<Rightarrow> False | c # cs \<Rightarrow> atom_char a c \<and> matches_atoms (a # as) cs)
      else (case s of [] \<Rightarrow> False | c # cs \<Rightarrow> atom_char a c \<and> matches_atoms as cs))"

definition matchesPiModelGlob :: "json \<Rightarrow> string \<Rightarrow> bool option" where
  "matchesPiModelGlob model pattern =
     (if \<not> validatePiModelGlob pattern then None
      else Some (matches_atoms (globRegex pattern)
        (canonicalKey (str_of (member model ''provider'')) (str_of (member model ''modelId'')))))"

section \<open>The effective models\<close>

datatype model_policy_error = InvalidPolicy | InvalidModel

datatype credential = CredentialSet "string list" | CredentialCheck "json \<Rightarrow> bool"

definition allowedBy :: "json \<Rightarrow> string list \<Rightarrow> bool" where
  "allowedBy model patterns = list_ex (\<lambda>pattern. matchesPiModelGlob model pattern = Some True) patterns"

fun credentialAllows :: "credential \<Rightarrow> json \<Rightarrow> bool" where
  "credentialAllows (CredentialCheck f) model = f model"
| "credentialAllows (CredentialSet ks) model =
     (str_of (member model ''provider'') \<in> set ks \<or> str_of (member model ''key'') \<in> set ks \<or>
      canonicalKey (str_of (member model ''provider'')) ''*'' \<in> set ks)"

definition sameModel :: "json \<Rightarrow> json \<Rightarrow> bool" where
  "sameModel l r \<longleftrightarrow> member l ''key'' = member r ''key'' \<and> member l ''provider'' = member r ''provider'' \<and>
     member l ''modelId'' = member r ''modelId''"

record model_options =
  mo_platformAllowlist :: "string list"
  mo_agentAllowlist :: "string list"
  mo_defaultModel :: json
  mo_defaultThinkingLevel :: json
  mo_hasCredential :: credential
  mo_networkAllows :: "json \<Rightarrow> bool"

definition effective :: "model_options \<Rightarrow> json \<Rightarrow> bool" where
  "effective opts model \<longleftrightarrow>
     \<not> (\<not> allowedBy model (mo_platformAllowlist opts) \<or> \<not> allowedBy model (mo_agentAllowlist opts) \<or>
        \<not> credentialAllows (mo_hasCredential opts) model \<or> \<not> mo_networkAllows opts model)"

fun candidates_loop :: "model_options \<Rightarrow> string list \<Rightarrow> json list \<Rightarrow> model_policy_error + json list" where
  "candidates_loop opts seen [] = Inr []"
| "candidates_loop opts seen (c # cs) =
     (if \<not> validatePiModelRef c then Inl InvalidModel
      else if str_of (member c ''key'') \<in> set seen then Inl InvalidModel
      else bind_result (candidates_loop opts (str_of (member c ''key'') # seen) cs) (\<lambda>models.
        Inr (if effective opts c then c # models else models)))"

definition key_order :: "(string \<Rightarrow> string \<Rightarrow> int) \<Rightarrow> json \<Rightarrow> json \<Rightarrow> int" where
  "key_order localeCompare l r = localeCompare (str_of (member l ''key'')) (str_of (member r ''key''))"

definition resolvePiModelPolicy ::
  "(string \<Rightarrow> string \<Rightarrow> int) \<Rightarrow> model_options \<Rightarrow> json list \<Rightarrow> model_policy_error + json list \<times> json option" where
  "resolvePiModelPolicy localeCompare opts candidates =
     (if \<not> isThinkingLevel (mo_defaultThinkingLevel opts) then Inl InvalidPolicy
      else if list_ex (\<lambda>p. \<not> validatePiModelGlob p) (mo_platformAllowlist opts) then Inl InvalidPolicy
      else if list_ex (\<lambda>p. \<not> validatePiModelGlob p) (mo_agentAllowlist opts) then Inl InvalidPolicy
      else bind_result (candidates_loop opts [] candidates) (\<lambda>found.
        let models = js_sort (key_order localeCompare) found; d = mo_defaultModel opts in
        if d = JUndefined \<or> d = JNull then Inr (models, None)
        else if \<not> validatePiModelRef d then Inl InvalidModel
        else if \<not> list_ex (\<lambda>m. sameModel m d) models then Inl InvalidPolicy
        else Inr (models, Some d)))"

section \<open>The probe cache\<close>

text \<open>
  \<open>mc_cache\<close> has for an agent the time of expiry and the models, \<open>mc_pending\<close> the number of the probe in
  flight. A \<open>get\<close> is answered at once, joins the probe in flight or starts one; \<open>probe_returns\<close> is the end
  of a probe with what the callback returned, \<open>None\<close> for a rejection.
\<close>

record probe_cache =
  mc_ttlMs :: int
  mc_cache :: "(string, int \<times> json list) omap"
  mc_pending :: "(string, nat) omap"
  mc_next :: nat

definition new_probe_cache :: "json \<Rightarrow> probe_cache option" where
  "new_probe_cache ttlMs =
     (let ttl = (if ttlMs = JUndefined \<or> ttlMs = JNull then JNumber (JInt 15000) else ttlMs) in
      if \<not> is_safe_integer ttl \<or> number_of ttl < 1 \<or> number_of ttl > 60000 then None
      else Some \<lparr>mc_ttlMs = number_of ttl, mc_cache = [], mc_pending = [], mc_next = 0\<rparr>)"

datatype probe_answer = InvalidAgent | Cached "json list" | Joined nat | Probing nat

definition probe_get :: "json \<Rightarrow> int \<Rightarrow> probe_cache \<Rightarrow> probe_answer \<times> probe_cache" where
  "probe_get agentId now c =
     (let i = str_of agentId;
          start = (case om_get (mc_pending c) i of
              Some p \<Rightarrow> (Joined p, c)
            | None \<Rightarrow> (Probing (mc_next c), c\<lparr>mc_pending := om_set (mc_pending c) i (mc_next c), mc_next := Suc (mc_next c)\<rparr>)) in
      if \<not> nonEmpty agentId then (InvalidAgent, c)
      else
        (case om_get (mc_cache c) i of
           Some (expiresAt, models) \<Rightarrow> if expiresAt > now then (Cached models, c) else start
         | None \<Rightarrow> start))"

fun distinct_refs :: "string list \<Rightarrow> json list \<Rightarrow> bool" where
  "distinct_refs seen [] = True"
| "distinct_refs seen (m # ms) =
     (validatePiModelRef m \<and> str_of (member m ''key'') \<notin> set seen \<and> distinct_refs (str_of (member m ''key'') # seen) ms)"

definition probe_returns :: "string \<Rightarrow> json list option \<Rightarrow> int \<Rightarrow> probe_cache \<Rightarrow> json list option \<times> probe_cache" where
  "probe_returns agentId result now c =
     (if om_get (mc_pending c) agentId = None then (None, c)
      else
        let c1 = c\<lparr>mc_pending := om_delete (mc_pending c) agentId\<rparr> in
        (case result of
           None \<Rightarrow> (None, c1)
         | Some models \<Rightarrow>
             if \<not> distinct_refs [] models then (None, c1)
             else (Some models, c1\<lparr>mc_cache := om_set (mc_cache c1) agentId (now + mc_ttlMs c, models)\<rparr>)))"

definition probe_invalidate :: "string option \<Rightarrow> probe_cache \<Rightarrow> probe_cache" where
  "probe_invalidate agentId c =
     (case agentId of None \<Rightarrow> c\<lparr>mc_cache := []\<rparr> | Some i \<Rightarrow> c\<lparr>mc_cache := om_delete (mc_cache c) i\<rparr>)"

section \<open>Globs by parts\<close>

text \<open>The reference: a wildcard pattern on one part, \<open>*\<close> for any characters and \<open>?\<close> for one.\<close>

definition wild_piece :: "char \<Rightarrow> string \<Rightarrow> bool" where
  "wild_piece p u \<longleftrightarrow> p = CHR ''*'' \<or> (\<exists>c. u = [c] \<and> (p = CHR ''?'' \<or> p = c))"

fun wildcard :: "string \<Rightarrow> string \<Rightarrow> bool" where
  "wildcard [] s = (s = [])"
| "wildcard (p # ps) s = list_ex (\<lambda>k. wild_piece p (take k s) \<and> wildcard ps (drop k s)) [0..<Suc (length s)]"

definition piece :: "atom \<Rightarrow> string \<Rightarrow> bool" where
  "piece a u \<longleftrightarrow> (if repeated a then list_all (atom_char a) u else \<exists>c. u = [c] \<and> atom_char a c)"

lemma wildcard_Cons: "wildcard (p # ps) s \<longleftrightarrow> (\<exists>u v. s = u @ v \<and> wild_piece p u \<and> wildcard ps v)"
proof
  assume "wildcard (p # ps) s"
  then obtain k where "wild_piece p (take k s)" "wildcard ps (drop k s)"
    unfolding wildcard.simps list_ex_iff by blast
  then show "\<exists>u v. s = u @ v \<and> wild_piece p u \<and> wildcard ps v" by (metis append_take_drop_id)
next
  assume "\<exists>u v. s = u @ v \<and> wild_piece p u \<and> wildcard ps v"
  then obtain u v where "s = u @ v" "wild_piece p u" "wildcard ps v" by blast
  then have "wild_piece p (take (length u) s) \<and> wildcard ps (drop (length u) s)" "length u \<in> set [0..<Suc (length s)]"
    by simp_all
  then show "wildcard (p # ps) s" unfolding wildcard.simps list_ex_iff by blast
qed

lemma matches_Cons: "matches_atoms (a # as) s \<longleftrightarrow> (\<exists>u v. s = u @ v \<and> piece a u \<and> matches_atoms as v)"
proof (cases "repeated a")
  case True
  show ?thesis
  proof (induction s)
    case Nil
    with True show ?case by (simp add: piece_def)
  next
    case (Cons c cs)
    have "(\<exists>u v. c # cs = u @ v \<and> piece a u \<and> matches_atoms as v) \<longleftrightarrow>
        matches_atoms as (c # cs) \<or> atom_char a c \<and> (\<exists>u v. cs = u @ v \<and> piece a u \<and> matches_atoms as v)"
      (is "?L \<longleftrightarrow> ?R")
    proof
      assume ?L
      then obtain u v where uv: "c # cs = u @ v" "piece a u" "matches_atoms as v" by blast
      show ?R
      proof (cases u)
        case Nil
        with uv show ?thesis by simp
      next
        case (Cons d u')
        with uv True have "atom_char a c" "cs = u' @ v" "piece a u'" by (simp_all add: piece_def)
        with uv show ?thesis by blast
      qed
    next
      assume ?R
      moreover have "piece a []" using True by (simp add: piece_def)
      moreover have "piece a u \<Longrightarrow> atom_char a c \<Longrightarrow> piece a (c # u)" for u using True by (simp add: piece_def)
      ultimately show ?L by (metis append_Cons append_Nil)
    qed
    with Cons.IH True show ?case by simp
  qed
next
  case False
  then have "matches_atoms (a # as) s \<longleftrightarrow> (\<exists>c cs. s = c # cs \<and> atom_char a c \<and> matches_atoms as cs)"
    by (cases s) auto
  also have "\<dots> \<longleftrightarrow> (\<exists>u v. s = u @ v \<and> piece a u \<and> matches_atoms as v)"
  proof
    assume "\<exists>c cs. s = c # cs \<and> atom_char a c \<and> matches_atoms as cs"
    then obtain c cs where "s = c # cs" "atom_char a c" "matches_atoms as cs" by blast
    then show "\<exists>u v. s = u @ v \<and> piece a u \<and> matches_atoms as v"
      using False by (intro exI [of _ "[c]"] exI [of _ cs]) (simp add: piece_def)
  next
    assume "\<exists>u v. s = u @ v \<and> piece a u \<and> matches_atoms as v"
    then obtain u v where "s = u @ v" "piece a u" "matches_atoms as v" by blast
    then show "\<exists>c cs. s = c # cs \<and> atom_char a c \<and> matches_atoms as cs"
      using False by (auto simp: piece_def)
  qed
  finally show ?thesis .
qed

declare matches_atoms.simps(2) [simp del] wildcard.simps(2) [simp del]

lemma matches_append:
  "matches_atoms (as @ bs) s \<longleftrightarrow> (\<exists>u v. s = u @ v \<and> matches_atoms as u \<and> matches_atoms bs v)"
proof (induction as arbitrary: s)
  case (Cons a as)
  have "matches_atoms ((a # as) @ bs) s \<longleftrightarrow>
      (\<exists>x y z. s = x @ y @ z \<and> piece a x \<and> matches_atoms as y \<and> matches_atoms bs z)"
    by (simp add: matches_Cons Cons.IH) blast
  also have "\<dots> \<longleftrightarrow> (\<exists>u v. s = u @ v \<and> matches_atoms (a # as) u \<and> matches_atoms bs v)"
    by (simp add: matches_Cons) (metis append.assoc)
  finally show ?case .
qed simp

lemma provider_piece:
  assumes "p \<noteq> CHR ''/''"
  shows "piece (glob_atom True p) x \<longleftrightarrow> wild_piece p x \<and> CHR ''/'' \<notin> set x"
proof (cases "p = CHR ''*''")
  case True
  have "list_all (atom_char SegStar) x \<longleftrightarrow> CHR ''/'' \<notin> set x" by (induction x) auto
  with True show ?thesis by (simp add: glob_atom_def piece_def repeated_def wild_piece_def)
next
  case star: False
  show ?thesis
  proof (cases "p = CHR ''?''")
    case True
    then have "glob_atom True p = SegOne" by (simp add: glob_atom_def)
    then have "piece (glob_atom True p) x \<longleftrightarrow> (\<exists>c. x = [c] \<and> c \<noteq> CHR ''/'')" by (simp add: piece_def repeated_def)
    also have "\<dots> \<longleftrightarrow> wild_piece p x \<and> CHR ''/'' \<notin> set x" using True by (cases x) (auto simp: wild_piece_def)
    finally show ?thesis .
  next
    case False
    with star have "glob_atom True p = Lit p" by (simp add: glob_atom_def)
    then have "piece (glob_atom True p) x \<longleftrightarrow> x = [p]" by (simp add: piece_def repeated_def)
    also have "\<dots> \<longleftrightarrow> wild_piece p x \<and> CHR ''/'' \<notin> set x"
      using star False assms by (auto simp: wild_piece_def)
    finally show ?thesis .
  qed
qed

lemma provider_part:
  "CHR ''/'' \<notin> set ps \<Longrightarrow> matches_atoms (map (glob_atom True) ps) u \<longleftrightarrow> wildcard ps u \<and> CHR ''/'' \<notin> set u"
proof (induction ps arbitrary: u)
  case (Cons p ps)
  have "piece (glob_atom True p) x \<longleftrightarrow> wild_piece p x \<and> CHR ''/'' \<notin> set x" for x
    using Cons.prems by (intro provider_piece) auto
  moreover have "matches_atoms (map (glob_atom True) ps) y \<longleftrightarrow> wildcard ps y \<and> CHR ''/'' \<notin> set y" for y
    using Cons by simp
  ultimately have "matches_atoms (map (glob_atom True) (p # ps)) u \<longleftrightarrow>
      (\<exists>x y. u = x @ y \<and> (wild_piece p x \<and> CHR ''/'' \<notin> set x) \<and> (wildcard ps y \<and> CHR ''/'' \<notin> set y))"
    by (simp add: matches_Cons)
  also have "\<dots> \<longleftrightarrow> wildcard (p # ps) u \<and> CHR ''/'' \<notin> set u"
  proof
    assume "\<exists>x y. u = x @ y \<and> (wild_piece p x \<and> CHR ''/'' \<notin> set x) \<and> (wildcard ps y \<and> CHR ''/'' \<notin> set y)"
    then show "wildcard (p # ps) u \<and> CHR ''/'' \<notin> set u" unfolding wildcard_Cons by (elim exE) auto
  next
    assume a: "wildcard (p # ps) u \<and> CHR ''/'' \<notin> set u"
    then obtain x y where "u = x @ y" "wild_piece p x" "wildcard ps y" unfolding wildcard_Cons by blast
    with a show "\<exists>x y. u = x @ y \<and> (wild_piece p x \<and> CHR ''/'' \<notin> set x) \<and> (wildcard ps y \<and> CHR ''/'' \<notin> set y)"
      by (intro exI [of _ x] exI [of _ y]) simp
  qed
  finally show ?case .
qed auto

lemma model_part:
  "\<forall>c \<in> set v. dot_char c \<Longrightarrow> matches_atoms (map (glob_atom False) ps) v \<longleftrightarrow> wildcard ps v"
proof (induction ps arbitrary: v)
  case (Cons p ps)
  have piece: "piece (glob_atom False p) x \<longleftrightarrow> wild_piece p x" if "\<forall>c \<in> set x. dot_char c" for x
    using that by (auto simp: glob_atom_def piece_def repeated_def wild_piece_def list_all_iff)
  have "x @ y = v \<Longrightarrow> piece (glob_atom False p) x \<and> matches_atoms (map (glob_atom False) ps) y \<longleftrightarrow>
      wild_piece p x \<and> wildcard ps y" for x y
    using Cons.IH [of y] piece [of x] Cons.prems by auto
  then show ?case by (simp add: matches_Cons wildcard_Cons) metis
qed simp

text \<open>The atoms of a valid glob: those of its provider part, the slash, those of the rest.\<close>

lemma globRegex_parts:
  assumes "CHR ''/'' \<notin> set ps"
  shows "globRegex (ps @ CHR ''/'' # qs) = map (glob_atom True) ps @ Lit (CHR ''/'') # map (glob_atom False) qs"
proof -
  have sep: "separator_of (ps @ CHR ''/'' # qs) = int (length ps)"
    using assms by (subst separator_of_def) (simp add: js_includes_def, subst takeWhile_append2, auto)
  show ?thesis
  proof (rule nth_equalityI)
    fix i assume i: "i < length (globRegex (ps @ CHR ''/'' # qs))"
    have "globRegex (ps @ CHR ''/'' # qs) ! i = glob_atom (i < length ps) ((ps @ CHR ''/'' # qs) ! i)"
      using i sep by (simp add: globRegex_def nth_map del: upt.simps upt_Suc)
    moreover have "glob_atom False (CHR ''/'') = Lit (CHR ''/'')" by (simp add: glob_atom_def)
    moreover have "i < length ps + Suc (length qs)" using i by (simp add: globRegex_def)
    ultimately show "globRegex (ps @ CHR ''/'' # qs) ! i =
        (map (glob_atom True) ps @ Lit (CHR ''/'') # map (glob_atom False) qs) ! i"
      by (cases "i < length ps"; cases "i = length ps") (simp_all add: nth_append nth_Cons')
  qed (simp add: globRegex_def)
qed

lemma split_unique: "c \<notin> set u \<Longrightarrow> c \<notin> set p \<Longrightarrow> u @ c # w = p @ c # m \<longleftrightarrow> u = p \<and> w = m"
proof (induction u arbitrary: p)
  case Nil
  then show ?case by (cases p) auto
next
  case (Cons x u)
  then show ?case by (cases p) auto
qed

lemma split_at_separator:
  "js_includes s (CHR ''/'') \<Longrightarrow> \<exists>ps qs. s = ps @ CHR ''/'' # qs \<and> CHR ''/'' \<notin> set ps"
  unfolding js_includes_def using split_list_first [of "CHR ''/''" s] by blast

text \<open>What a valid reference is made of.\<close>

lemma valid_ref_parts:
  assumes "validatePiModelRef model"
  shows "CHR ''/'' \<notin> set (str_of (member model ''provider''))"
    "\<forall>c \<in> set (str_of (member model ''modelId'')). dot_char c"
    "str_of (member model ''key'') = canonicalKey (str_of (member model ''provider'')) (str_of (member model ''modelId''))"
proof -
  have dot: "\<not> space_or_control c \<Longrightarrow> dot_char c" for c
    by (auto simp: space_or_control_def dot_char_def LF_def CR_def)
  show "CHR ''/'' \<notin> set (str_of (member model ''provider''))"
    "\<forall>c \<in> set (str_of (member model ''modelId'')). dot_char c"
    "str_of (member model ''key'') = canonicalKey (str_of (member model ''provider'')) (str_of (member model ''modelId''))"
    using assms dot by (auto simp: validatePiModelRef_def Let_def js_includes_def list_ex_iff)
qed

text \<open>
  A glob decides a canonical model part by part: the text before its first slash is a wildcard pattern for the
  provider, the text after it one for the model, so no \<open>*\<close> or \<open>?\<close> of the provider part reaches into the
  model.\<close>

theorem model_globs_match_by_parts:
  assumes "validatePiModelRef model" and "validatePiModelGlob (ps @ CHR ''/'' # qs)" and "CHR ''/'' \<notin> set ps"
  shows "matchesPiModelGlob model (ps @ CHR ''/'' # qs) =
    Some (wildcard ps (str_of (member model ''provider'')) \<and> wildcard qs (str_of (member model ''modelId'')))"
proof -
  let ?p = "str_of (member model ''provider'')" and ?m = "str_of (member model ''modelId'')"
  note parts = valid_ref_parts [OF assms(1)]
  have "matches_atoms (globRegex (ps @ CHR ''/'' # qs)) (canonicalKey ?p ?m) \<longleftrightarrow>
      (\<exists>u v. ?p @ CHR ''/'' # ?m = u @ v \<and> (wildcard ps u \<and> CHR ''/'' \<notin> set u) \<and>
        (\<exists>w. v = CHR ''/'' # w \<and> matches_atoms (map (glob_atom False) qs) w))"
    unfolding globRegex_parts [OF assms(3)] matches_append provider_part [OF assms(3)] matches_Cons
    by (simp add: canonicalKey_def piece_def repeated_def)
  also have "\<dots> \<longleftrightarrow> wildcard ps ?p \<and> matches_atoms (map (glob_atom False) qs) ?m"
  proof
    assume "\<exists>u v. ?p @ CHR ''/'' # ?m = u @ v \<and> (wildcard ps u \<and> CHR ''/'' \<notin> set u) \<and>
        (\<exists>w. v = CHR ''/'' # w \<and> matches_atoms (map (glob_atom False) qs) w)"
    then obtain u w where "?p @ CHR ''/'' # ?m = u @ CHR ''/'' # w" "wildcard ps u" "CHR ''/'' \<notin> set u"
      "matches_atoms (map (glob_atom False) qs) w" by blast
    with parts(1) show "wildcard ps ?p \<and> matches_atoms (map (glob_atom False) qs) ?m"
      using split_unique [of "CHR ''/''" ?p u ?m w] by auto
  next
    assume "wildcard ps ?p \<and> matches_atoms (map (glob_atom False) qs) ?m"
    with parts(1) show "\<exists>u v. ?p @ CHR ''/'' # ?m = u @ v \<and> (wildcard ps u \<and> CHR ''/'' \<notin> set u) \<and>
        (\<exists>w. v = CHR ''/'' # w \<and> matches_atoms (map (glob_atom False) qs) w)" by blast
  qed
  also have "\<dots> \<longleftrightarrow> wildcard ps ?p \<and> wildcard qs ?m" using model_part [OF parts(2)] by simp
  finally show ?thesis using assms(2) by (simp add: matchesPiModelGlob_def)
qed

definition sample_model :: "string \<Rightarrow> string \<Rightarrow> json" where
  "sample_model p m = JObject [(''provider'', JString p), (''modelId'', JString m), (''key'', JString (canonicalKey p m))]"

lemma model_globs_match_by_parts_witness:
  "matchesPiModelGlob (sample_model ''open'' ''x/y1'') ''o*/x*?'' = Some True \<and>
   matchesPiModelGlob (sample_model ''open'' ''x/y1'') ''o*/y*'' = Some False"
proof -
  have v: "validatePiModelRef (sample_model ''open'' ''x/y1'')"
    "validatePiModelGlob (''o*'' @ CHR ''/'' # ''x*?'')" "validatePiModelGlob (''o*'' @ CHR ''/'' # ''y*'')" by code_simp+
  have w: "wildcard ''o*'' ''open''" "wildcard ''x*?'' ''x/y1''" "\<not> wildcard ''y*'' ''x/y1''" by code_simp+
  show ?thesis
    using model_globs_match_by_parts [OF v(1,2)] model_globs_match_by_parts [OF v(1,3)] w
    by (simp add: sample_model_def member_def)
qed

section \<open>Effective models\<close>

lemma candidates_loop_found:
  "candidates_loop opts seen cs = Inr models \<Longrightarrow>
     models = filter (effective opts) cs \<and> list_all validatePiModelRef cs \<and>
     distinct (map (\<lambda>c. str_of (member c ''key'')) cs) \<and> (\<lambda>c. str_of (member c ''key'')) ` set cs \<inter> set seen = {}"
proof (induction cs arbitrary: seen models)
  case (Cons c cs)
  from Cons.prems obtain ms where ok: "validatePiModelRef c" "str_of (member c ''key'') \<notin> set seen"
    and ms: "candidates_loop opts (str_of (member c ''key'') # seen) cs = Inr ms"
      "models = (if effective opts c then c # ms else ms)"
    by (auto simp: bind_result_Inr split: if_splits)
  from Cons.IH [OF ms(1)] ok ms(2) show ?case by auto
qed simp

text \<open>
  C27. The policy of an agent is deny by default: the effective models are exactly the candidates that a glob of
  the platform and a glob of the agent match and that credential and network checks admit, each once and under its
  canonical key, in order; a configured default is one of them.\<close>

theorem effective_models_pass_every_gate:
  assumes "resolvePiModelPolicy localeCompare opts candidates = Inr (models, d)"
  shows "set models = {m \<in> set candidates. allowedBy m (mo_platformAllowlist opts) \<and> allowedBy m (mo_agentAllowlist opts) \<and>
      credentialAllows (mo_hasCredential opts) m \<and> mo_networkAllows opts m} \<and>
    list_all validatePiModelRef models \<and> distinct (map (\<lambda>m. str_of (member m ''key'')) models) \<and>
    (\<forall>m. d = Some m \<longrightarrow> m = mo_defaultModel opts \<and> (\<exists>x \<in> set models. sameModel x m)) \<and>
    (mo_platformAllowlist opts = [] \<or> mo_agentAllowlist opts = [] \<longrightarrow> models = [])"
proof -
  from assms obtain found where found: "candidates_loop opts [] candidates = Inr found"
    and models: "models = js_sort (key_order localeCompare) found"
    and d: "d = None \<or> d = Some (mo_defaultModel opts) \<and> list_ex (\<lambda>m. sameModel m (mo_defaultModel opts)) models"
    by (auto simp: resolvePiModelPolicy_def bind_result_Inr Let_def split: if_splits)
  have "models = []" if "mo_platformAllowlist opts = [] \<or> mo_agentAllowlist opts = []"
  proof -
    have "set models = {}" using that models candidates_loop_found [OF found] by (auto simp: effective_def allowedBy_def)
    then show ?thesis by simp
  qed
  moreover have "distinct (map (\<lambda>m. str_of (member m ''key'')) (filter (effective opts) candidates))"
    using candidates_loop_found [OF found] by (simp add: distinct_map_filter)
  ultimately show ?thesis
    using candidates_loop_found [OF found] models d by (auto simp: effective_def list_all_iff list_ex_iff)
qed

definition sample_options :: model_options where
  "sample_options = \<lparr>mo_platformAllowlist = [''open*/*''], mo_agentAllowlist = [''*/x*''], mo_defaultModel = JUndefined,
     mo_defaultThinkingLevel = JString ''medium'', mo_hasCredential = CredentialSet [''open'', ''closed''],
     mo_networkAllows = (\<lambda>_. True)\<rparr>"

lemma effective_models_pass_every_gate_witness:
  "resolvePiModelPolicy (\<lambda>_ _. 0) sample_options [sample_model ''open'' ''x1'', sample_model ''open'' ''y1'', sample_model ''closed'' ''x1''] =
     Inr ([sample_model ''open'' ''x1''], None) \<and>
   list_all validatePiModelRef [sample_model ''open'' ''x1''] \<and> sample_model ''closed'' ''x1'' \<notin> set [sample_model ''open'' ''x1'']"
proof -
  have r: "resolvePiModelPolicy (\<lambda>_ _. 0) sample_options
      [sample_model ''open'' ''x1'', sample_model ''open'' ''y1'', sample_model ''closed'' ''x1''] =
     Inr ([sample_model ''open'' ''x1''], None)" by code_simp
  have "\<not> allowedBy (sample_model ''closed'' ''x1'') (mo_platformAllowlist sample_options)" by code_simp
  with effective_models_pass_every_gate [OF r] r show ?thesis by blast
qed

section \<open>Answers of the cache\<close>

text \<open>Calls of the cache in order; the log keeps the probes that returned: agent, time and models.\<close>

inductive probe_history :: "probe_cache \<Rightarrow> (string \<times> int \<times> json list) list \<Rightarrow> bool" where
  new: "new_probe_cache ttl = Some c \<Longrightarrow> probe_history c []"
| get: "probe_history c log \<Longrightarrow> probe_get agentId now c = (a, c') \<Longrightarrow> probe_history c' log"
| returned: "probe_history c log \<Longrightarrow> probe_returns i result now c = (a, c') \<Longrightarrow>
    probe_history c' (case result of None \<Rightarrow> log | Some models \<Rightarrow> (i, now, models) # log)"
| invalidate: "probe_history c log \<Longrightarrow> probe_history (probe_invalidate i c) log"

lemma distinct_refs_iff:
  "distinct_refs seen ms \<longleftrightarrow> list_all validatePiModelRef ms \<and> distinct (map (\<lambda>m. str_of (member m ''key'')) ms) \<and>
     (\<lambda>m. str_of (member m ''key'')) ` set ms \<inter> set seen = {}"
  by (induction ms arbitrary: seen) auto

definition entry_ok :: "probe_cache \<Rightarrow> (string \<times> int \<times> json list) list \<Rightarrow> bool" where
  "entry_ok c log \<longleftrightarrow> (\<forall>i e ms. om_get (mc_cache c) i = Some (e, ms) \<longrightarrow>
     (i, e - mc_ttlMs c, ms) \<in> set log \<and> distinct_refs [] ms)"

lemma probe_history_ok: "probe_history c log \<Longrightarrow> entry_ok c log \<and> 1 \<le> mc_ttlMs c \<and> mc_ttlMs c \<le> 60000"
proof (induction rule: probe_history.induct)
  case (new ttl c)
  then show ?case by (auto simp: new_probe_cache_def entry_ok_def Let_def split: if_splits)
next
  case (get c log agentId now a c')
  then have "mc_cache c' = mc_cache c" "mc_ttlMs c' = mc_ttlMs c"
    by (auto simp: probe_get_def Let_def split: if_splits option.splits)
  with get.IH show ?case by (simp add: entry_ok_def)
next
  case (returned c log i result now a c')
  show ?case
  proof (cases "om_get (mc_pending c) i = None \<or> result = None \<or> \<not> distinct_refs [] (the result)")
    case True
    with returned have "mc_cache c' = mc_cache c" "mc_ttlMs c' = mc_ttlMs c"
      by (auto simp: probe_returns_def Let_def split: if_splits option.splits)
    with returned.IH show ?thesis by (auto simp: entry_ok_def split: option.split)
  next
    case False
    then obtain ms where ms: "result = Some ms" "distinct_refs [] ms" by auto
    with False returned have "mc_cache c' = om_set (mc_cache c) i (now + mc_ttlMs c, ms)" "mc_ttlMs c' = mc_ttlMs c"
      by (auto simp: probe_returns_def Let_def)
    with returned.IH ms show ?thesis by (simp add: entry_ok_def)
  qed
next
  case (invalidate c log i)
  then show ?case by (auto simp: entry_ok_def probe_invalidate_def split: option.splits)
qed

text \<open>
  An answer from the cache is what a probe for the same agent returned less than the time to live ago, at most a
  minute, and its models are canonical and have distinct keys.\<close>

theorem cached_models_are_recent:
  assumes "probe_history c log" and "probe_get (JString agent) now c = (Cached models, c')"
  shows "(\<exists>t. (agent, t, models) \<in> set log \<and> now < t + mc_ttlMs c) \<and> mc_ttlMs c \<le> 60000 \<and>
    list_all validatePiModelRef models \<and> distinct (map (\<lambda>m. str_of (member m ''key'')) models)"
proof -
  have inv: "entry_ok c log" "mc_ttlMs c \<le> 60000" using probe_history_ok [OF assms(1)] by simp_all
  obtain e where e: "om_get (mc_cache c) agent = Some (e, models)" "now < e"
    using assms(2) by (auto simp: probe_get_def Let_def split: if_splits option.splits)
  with inv(1) have "(agent, e - mc_ttlMs c, models) \<in> set log" "distinct_refs [] models" by (auto simp: entry_ok_def)
  with e(2) inv(2) show ?thesis by (auto simp: distinct_refs_iff intro!: exI [of _ "e - mc_ttlMs c"])
qed

definition sample_probe :: probe_cache where
  "sample_probe = snd (probe_get (JString ''a'') 0 \<lparr>mc_ttlMs = 15000, mc_cache = [], mc_pending = [], mc_next = 0\<rparr>)"

lemma sample_probe_history: "probe_history sample_probe []"
proof -
  have "new_probe_cache JUndefined = Some \<lparr>mc_ttlMs = 15000, mc_cache = [], mc_pending = [], mc_next = 0\<rparr>"
    by (simp add: new_probe_cache_def safe_int_def max_safe_integer_def)
  from probe_history.get [OF probe_history.new [OF this] surjective_pairing]
  show ?thesis unfolding sample_probe_def .
qed

lemma cached_models_are_recent_witness:
  "\<exists>t. (''a'', t, [sample_model ''p'' ''m'']) \<in> set [(''a'', 5, [sample_model ''p'' ''m''])] \<and> 7 < t + (15000 :: int)"
proof -
  let ?c = "snd (probe_returns ''a'' (Some [sample_model ''p'' ''m'']) 5 sample_probe)"
  have h: "probe_history ?c [(''a'', 5, [sample_model ''p'' ''m''])]"
    using probe_history.returned [OF sample_probe_history surjective_pairing,
      where result = "Some [sample_model ''p'' ''m'']" and i = "''a''" and now = 5] by simp
  have "probe_get (JString ''a'') 7 ?c = (Cached [sample_model ''p'' ''m''], ?c)" "mc_ttlMs ?c = 15000" by code_simp+
  with cached_models_are_recent [OF h] show ?thesis by fastforce
qed

text \<open>
  A probe that was in flight when its agent was invalidated still fills the cache, so that the next request is
  answered with models from before the invalidation.\<close>

lemma invalidation_misses_probe_in_flight:
  "fst (probe_get (JString ''a'') 7 (snd (probe_returns ''a'' (Some [sample_model ''p'' ''m'']) 5
     (probe_invalidate (Some ''a'') sample_probe)))) = Cached [sample_model ''p'' ''m'']"
  by code_simp

end
