(* ===== verification/Srt_Policy.thy ===== *)
theory Srt_Policy
  imports Path_Policy
begin

text \<open>
  The sandbox policy of a session and of its tasks (web/server/srt-policy.ts, web/server/path-scope.ts):
  \<open>compileSrtPolicy\<close> builds the policy of a root session from its directories and domain layers,
  \<open>deriveTaskSrtPolicy\<close> rebuilds the policy of a task from the policy of its root.

  The host is a record: real paths (None where \<open>realpathSync\<close> throws), what \<open>lstatSync\<close> finds at a real path,
  existence, the platform and the entries of the root directory. \<open>SandboxRuntimeConfig\<close> belongs to a package; its
  members are those the module reads and writes. What the sandbox does with a policy is outside the model.
\<close>

section \<open>Host and policies\<close>

datatype file_kind = RegularFile | Directory | OtherFile

record srt_host =
  sh_cwd :: string
  sh_realpath :: "string \<Rightarrow> string option"
  sh_kind :: "string \<Rightarrow> file_kind option"
  sh_exists :: "string \<Rightarrow> bool"
  sh_platform :: string
  sh_rootEntries :: "string list"

datatype srt_error =
    NotAbsolute | PathThrows | EscapesRoot | NotRegular | NotDirectory | InvalidSocket | PrivateOverlap | ManagedOverlap
  | SharedOverlap | WrongWorkspace | NotFailClosed | NotGranted | SpansSession | WriteEscapes | RuntimeOverlapsTenants
  | RuntimeExposesPrivate | SocketInsideTenant

record domain_layer =
  dl_allowedDomains :: "string list"
  dl_deniedDomains :: "string list"

record fs_policy =
  fs_disabled :: bool
  fs_denyRead :: "string list"
  fs_allowRead :: "string list"
  fs_allowWrite :: "string list"
  fs_denyWrite :: "string list"
  fs_allowGitConfig :: "bool option"

record net_policy =
  net_allowedDomains :: "string list"
  net_deniedDomains :: "string list"
  net_allowUnixSockets :: "string list"
  net_allowAllUnixSockets :: bool
  net_allowLocalBinding :: bool
  net_parentProxy :: "json option"

text \<open>Absent lists are empty, absent flags false, as the module reads them; only \<open>allowGitConfig\<close> distinguishes.\<close>

record sandbox_policy =
  sp_filesystem :: "fs_policy option"
  sp_network :: "net_policy option"
  sp_enableWeakerNestedSandbox :: bool
  sp_enableWeakerNetworkIsolation :: bool
  sp_bwrapPath :: "string option"

section \<open>Paths\<close>

definition scope_inside :: "srt_host \<Rightarrow> string \<Rightarrow> string \<Rightarrow> bool" where
  "scope_inside h root candidate =
     (let rel = relative_path (sh_cwd h) root candidate
      in rel = [] \<or> (\<not> js_starts_with rel ''..'' \<and> \<not> js_includes rel (CHR '':'')))"

definition overlaps :: "srt_host \<Rightarrow> string \<Rightarrow> string \<Rightarrow> bool" where
  "overlaps h l r \<longleftrightarrow> scope_inside h l r \<or> scope_inside h r l"

definition real_of :: "srt_host \<Rightarrow> string \<Rightarrow> srt_error + string" where
  "real_of h path = (case sh_realpath h path of Some p \<Rightarrow> Inr p | None \<Rightarrow> Inl PathThrows)"

definition canonicalWithin :: "srt_host \<Rightarrow> string \<Rightarrow> string \<Rightarrow> srt_error + string" where
  "canonicalWithin h root path =
     (if \<not> is_absolute path then Inl NotAbsolute
      else
        bind_result (real_of h root) (\<lambda>canonicalRoot.
        bind_result (real_of h (resolve_path (sh_cwd h) path)) (\<lambda>canonical.
          if \<not> scope_inside h canonicalRoot canonical then Inl EscapesRoot else Inr canonical)))"

definition canonicalExisting :: "srt_host \<Rightarrow> string \<Rightarrow> srt_error + string" where
  "canonicalExisting h path =
     (if \<not> is_absolute path then Inl NotAbsolute
      else
        bind_result (real_of h (resolve_path (sh_cwd h) path)) (\<lambda>canonical.
          case sh_kind h canonical of
            None \<Rightarrow> Inl PathThrows
          | Some k \<Rightarrow> if k \<noteq> RegularFile \<and> k \<noteq> Directory then Inl NotRegular else Inr canonical))"

definition canonicalDirectory :: "srt_host \<Rightarrow> string \<Rightarrow> srt_error + string" where
  "canonicalDirectory h path =
     bind_result (canonicalExisting h path) (\<lambda>canonical.
       if sh_kind h canonical \<noteq> Some Directory then Inl NotDirectory else Inr canonical)"

definition join_path :: "string \<Rightarrow> string \<Rightarrow> string" where
  "join_path dir name = abs_path (components (dir @ ''/'' @ name))"

definition basename :: "string \<Rightarrow> string" where
  "basename p = (let ws = filter (\<lambda>w. w \<noteq> []) (js_split slash p) in if ws = [] then [] else last ws)"

definition canonicalSocketPath :: "srt_host \<Rightarrow> string \<Rightarrow> srt_error + string" where
  "canonicalSocketPath h path =
     (if \<not> is_absolute path \<or> js_includes path nul then Inl InvalidSocket
      else bind_result (real_of h (dirname (resolve_path (sh_cwd h) path))) (\<lambda>parent. Inr (join_path parent (basename path))))"

definition absolutePolicyPath :: "srt_host \<Rightarrow> string \<Rightarrow> srt_error + string" where
  "absolutePolicyPath h path =
     (if \<not> is_absolute path \<or> js_includes path nul then Inl NotAbsolute else Inr (resolve_path (sh_cwd h) path))"

definition js_unique :: "'a list \<Rightarrow> 'a list" where
  "js_unique xs = rev (remdups (rev xs))"

lemma js_unique_set [simp]: "set (js_unique xs) = set xs"
  by (simp add: js_unique_def)

section \<open>Roots of the host\<close>

definition hostPrivateReadRoots :: "srt_host \<Rightarrow> string list" where
  "hostPrivateReadRoots h =
     (if sh_platform h = ''darwin'' then
        [''/Users'', ''/Volumes'', ''/tmp'', ''/private/tmp'', ''/private/var/folders'', ''/usr/local'']
      else if sh_platform h = ''linux'' then
        [''/home'', ''/root'', ''/tmp'', ''/var/tmp'', ''/mnt'', ''/media'', ''/run/user'', ''/run/secrets'']
      else [])"

definition topLevelReadDenyPaths :: "srt_host \<Rightarrow> string list" where
  "topLevelReadDenyPaths h = map (join_path ''/'') (sh_rootEntries h)"

definition runtime_candidates :: "srt_host \<Rightarrow> string list" where
  "runtime_candidates h =
     (if sh_platform h = ''darwin'' then
        [''/bin'', ''/sbin'', ''/usr/bin'', ''/usr/lib'', ''/usr/libexec'', ''/usr/sbin'', ''/System/Library'',
         ''/Library/Apple/System/Library'', ''/private/etc/hosts'', ''/private/etc/resolv.conf'', ''/private/etc/passwd'',
         ''/private/etc/group'', ''/private/etc/localtime'', ''/private/etc/ssl'', ''/private/var/db/timezone/zoneinfo'',
         ''/dev/null'', ''/dev/random'', ''/dev/urandom'']
      else if sh_platform h = ''linux'' then
        [''/bin'', ''/lib'', ''/lib32'', ''/lib64'', ''/sbin'', ''/usr/bin'', ''/usr/lib'', ''/usr/lib64'', ''/usr/libexec'',
         ''/usr/sbin'', ''/usr/local/bin'', ''/usr/local/bun/bin'', ''/usr/share/ca-certificates'', ''/usr/share/zoneinfo'',
         ''/etc/ca-certificates'', ''/etc/ssl/certs'', ''/etc/pki/tls/certs'', ''/etc/hosts'', ''/etc/resolv.conf'',
         ''/etc/nsswitch.conf'', ''/etc/gai.conf'', ''/etc/passwd'', ''/etc/group'', ''/etc/localtime'', ''/etc/ld.so.cache'',
         ''/dev/null'', ''/dev/random'', ''/dev/urandom'', ''/proc'']
      else [])"

definition runtime_spellings :: "srt_host \<Rightarrow> string \<Rightarrow> srt_error + string list" where
  "runtime_spellings h path =
     bind_result (real_of h path) (\<lambda>canonical.
       Inr (if sh_platform h = ''linux'' \<and> canonical \<noteq> path then [path, canonical] else [canonical]))"

definition systemRuntimeReadPaths :: "srt_host \<Rightarrow> srt_error + string list" where
  "systemRuntimeReadPaths h =
     bind_result (map_result (runtime_spellings h) (filter (sh_exists h) (runtime_candidates h))) (\<lambda>ps.
       Inr (js_unique (concat ps)))"

section \<open>Domains\<close>

text \<open>\<open>normalizeDomain\<close>: one scheme prefix and one final slash are removed.\<close>

definition strip_scheme :: "string \<Rightarrow> string" where
  "strip_scheme s =
     (if js_starts_with s ''https://'' then drop 8 s else if js_starts_with s ''http://'' then drop 7 s else s)"

definition strip_slash :: "string \<Rightarrow> string" where
  "strip_slash s = (if s \<noteq> [] \<and> last s = slash then butlast s else s)"

definition normalizeDomain :: "string \<Rightarrow> string" where
  "normalizeDomain value = strip_slash (strip_scheme (js_lower (js_trim value)))"

definition layer_domains :: "domain_layer \<Rightarrow> string list" where
  "layer_domains layer = filter (\<lambda>d. d \<noteq> []) (map normalizeDomain (dl_allowedDomains layer))"

definition intersectAllowed :: "domain_layer list \<Rightarrow> string list" where
  "intersectAllowed layers =
     (case layers of
        [] \<Rightarrow> []
      | layer # rest \<Rightarrow>
          fold (\<lambda>next result. filter (\<lambda>domain. domain \<in> set (layer_domains next)) result) rest
            (js_unique (layer_domains layer)))"

section \<open>The policy of a task\<close>

record task_policy_input =
  ti_parent :: sandbox_policy
  ti_rootSessionRoot :: string
  ti_sharedWorkspaceDir :: string
  ti_sharedReadOnlyPaths :: "string list"
  ti_childSessionRoot :: string
  ti_childWritableDirs :: "string list"
  ti_childDeniedSessionDirs :: "string list"
  ti_readOnlyWorkspace :: bool

text \<open>\<open>some\<close> over the grants: a grant that is no absolute path throws when it is reached.\<close>

fun some_grant :: "(string \<Rightarrow> srt_error + string) \<Rightarrow> (string \<Rightarrow> bool) \<Rightarrow> string list \<Rightarrow> srt_error + bool" where
  "some_grant f P [] = Inr False"
| "some_grant f P (g # gs) = bind_result (f g) (\<lambda>p. if P p then Inr True else some_grant f P gs)"

definition policyGrantCovers :: "srt_host \<Rightarrow> string list \<Rightarrow> string \<Rightarrow> srt_error + bool" where
  "policyGrantCovers h grants candidate =
     some_grant (absolutePolicyPath h) (\<lambda>g. scope_inside h g candidate) grants"

fun outsideSessionGrants :: "srt_host \<Rightarrow> string list \<Rightarrow> string \<Rightarrow> srt_error + string list" where
  "outsideSessionGrants h [] sessionRoot = Inr []"
| "outsideSessionGrants h (path # paths) sessionRoot =
     bind_result (absolutePolicyPath h path) (\<lambda>canonical.
       if scope_inside h sessionRoot canonical then outsideSessionGrants h paths sessionRoot
       else if scope_inside h canonical sessionRoot then Inl SpansSession
       else bind_result (outsideSessionGrants h paths sessionRoot) (\<lambda>rest. Inr (canonical # rest)))"

definition outsideSessionRestrictions :: "srt_host \<Rightarrow> string list \<Rightarrow> string \<Rightarrow> string list" where
  "outsideSessionRestrictions h paths sessionRoot =
     filter (\<lambda>path. if \<not> is_absolute path then True else \<not> scope_inside h sessionRoot (resolve_path (sh_cwd h) path)) paths"

definition fail_closed :: "sandbox_policy \<Rightarrow> bool" where
  "fail_closed parent \<longleftrightarrow>
     \<not> (case (sp_filesystem parent, sp_network parent) of
          (Some fs, Some net) \<Rightarrow>
            fs_disabled fs \<or> fs_allowGitConfig fs \<noteq> Some False \<or> net_allowAllUnixSockets net \<or> net_allowLocalBinding net \<or>
            sp_enableWeakerNestedSandbox parent \<or> sp_enableWeakerNetworkIsolation parent
        | _ \<Rightarrow> True)"

fun shared_paths_granted :: "srt_host \<Rightarrow> fs_policy \<Rightarrow> string list \<Rightarrow> srt_error + unit" where
  "shared_paths_granted h fs [] = Inr ()"
| "shared_paths_granted h fs (sharedPath # rest) =
     bind_result (policyGrantCovers h (fs_allowRead fs) sharedPath) (\<lambda>covered.
       if \<not> covered then Inl NotGranted
       else bind_result (some_grant (absolutePolicyPath h) (\<lambda>g. overlaps h g sharedPath) (fs_allowWrite fs)) (\<lambda>writable.
         if writable then Inl SharedOverlap else shared_paths_granted h fs rest))"

fun writes_in_session :: "srt_host \<Rightarrow> string \<Rightarrow> string list \<Rightarrow> srt_error + unit" where
  "writes_in_session h root [] = Inr ()"
| "writes_in_session h root (path # paths) =
     bind_result (absolutePolicyPath h path) (\<lambda>canonical.
       if \<not> scope_inside h root canonical then Inl WriteEscapes else writes_in_session h root paths)"

definition shared_conflict :: "srt_host \<Rightarrow> string \<Rightarrow> string list \<Rightarrow> string list \<Rightarrow> string \<Rightarrow> bool" where
  "shared_conflict h workspace writable denied sharedPath \<longleftrightarrow>
     overlaps h workspace sharedPath \<or> list_ex (\<lambda>p. overlaps h p sharedPath) writable \<or> list_ex (\<lambda>p. overlaps h p sharedPath) denied"

text \<open>The returned literal, from what was checked.\<close>

definition task_policy ::
  "bool \<Rightarrow> string \<Rightarrow> string list \<Rightarrow> string list \<Rightarrow> string list \<Rightarrow> string list \<Rightarrow> string list \<Rightarrow> string list \<Rightarrow> net_policy \<Rightarrow> sandbox_policy" where
  "task_policy readOnly workspace shared writable denied externalRead denyRead denyWrite net =
     \<lparr>sp_filesystem = Some
        \<lparr>fs_disabled = False,
         fs_denyRead = js_unique (denyRead @ denied),
         fs_allowRead = js_unique (externalRead @ [workspace] @ shared @ writable),
         fs_allowWrite = js_unique (writable @ (if readOnly then [] else [workspace])),
         fs_denyWrite = js_unique (denyWrite @ denied @ (if readOnly then [workspace] else [])),
         fs_allowGitConfig = Some False\<rparr>,
      sp_network = Some (net\<lparr>net_allowAllUnixSockets := False, net_allowLocalBinding := False\<rparr>),
      sp_enableWeakerNestedSandbox = False, sp_enableWeakerNetworkIsolation = False, sp_bwrapPath = None\<rparr>"

text \<open>The checks against the policy of the parent.\<close>

definition from_parent ::
  "srt_host \<Rightarrow> task_policy_input \<Rightarrow> string \<Rightarrow> string \<Rightarrow> string list \<Rightarrow> string list \<Rightarrow> string list \<Rightarrow> fs_policy \<Rightarrow> net_policy \<Rightarrow>
   srt_error + sandbox_policy" where
  "from_parent h input root workspace writable denied shared fs net =
     bind_result (policyGrantCovers h (fs_allowRead fs) workspace) (\<lambda>readable.
     if \<not> readable then Inl NotGranted
     else bind_result (if ti_readOnlyWorkspace input then Inr True else policyGrantCovers h (fs_allowWrite fs) workspace) (\<lambda>writableWs.
     if \<not> writableWs then Inl NotGranted
     else bind_result (shared_paths_granted h fs shared) (\<lambda>_.
     bind_result (writes_in_session h root (fs_allowWrite fs)) (\<lambda>_.
     bind_result (outsideSessionGrants h (fs_allowRead fs) root) (\<lambda>externalRead.
       Inr (task_policy (ti_readOnlyWorkspace input) workspace shared writable denied externalRead
         (outsideSessionRestrictions h (fs_denyRead fs) root) (outsideSessionRestrictions h (fs_denyWrite fs) root) net))))))"

definition deriveTaskSrtPolicy :: "srt_host \<Rightarrow> task_policy_input \<Rightarrow> srt_error + sandbox_policy" where
  "deriveTaskSrtPolicy h input =
     bind_result (canonicalDirectory h (ti_rootSessionRoot input)) (\<lambda>root.
     bind_result (canonicalWithin h root (ti_sharedWorkspaceDir input)) (\<lambda>workspace.
     bind_result (canonicalWithin h root (ti_childSessionRoot input)) (\<lambda>child.
     bind_result (map_result (canonicalWithin h child) (ti_childWritableDirs input)) (\<lambda>writable.
     bind_result (map_result (canonicalWithin h child) (ti_childDeniedSessionDirs input)) (\<lambda>denied.
     bind_result (map_result (canonicalWithin h root) (ti_sharedReadOnlyPaths input)) (\<lambda>shared.
       if workspace \<noteq> join_path root ''workspace'' then Inl WrongWorkspace
       else if list_ex (\<lambda>privatePath. list_ex (\<lambda>p. overlaps h p privatePath) writable) denied then Inl PrivateOverlap
       else if list_ex (shared_conflict h workspace writable denied) shared then Inl SharedOverlap
       else if \<not> fail_closed (ti_parent input) then Inl NotFailClosed
       else
         (case (sp_filesystem (ti_parent input), sp_network (ti_parent input)) of
            (Some fs, Some net) \<Rightarrow> from_parent h input root workspace writable denied shared fs net
          | _ \<Rightarrow> Inl NotFailClosed)))))))"

section \<open>The policy of a session\<close>

record policy_input =
  pi_tenantsRoot :: string
  pi_tenantRoot :: string
  pi_sessionRoot :: string
  pi_writableDirs :: "string list"
  pi_deniedSessionDirs :: "string list"
  pi_managedReadPaths :: "string list"
  pi_knowledgeDirs :: "string list"
  pi_runtimeReadPaths :: "string list"
  pi_unixSocketPaths :: "string list"
  pi_requiredInternalDomains :: "string list"
  pi_domainLayers :: "domain_layer list"
  pi_composeNested :: bool

definition COMPOSE_NESTED_BWRAP_PATH :: string where
  "COMPOSE_NESTED_BWRAP_PATH = ''/usr/local/bin/piwork-bwrap''"

definition runtime_path :: "srt_host \<Rightarrow> string \<Rightarrow> string list \<Rightarrow> string \<Rightarrow> srt_error + string" where
  "runtime_path h tenantsRoot denied path =
     bind_result (canonicalExisting h path) (\<lambda>canonical.
       if sh_kind h canonical = Some Directory \<and> overlaps h canonical tenantsRoot then Inl RuntimeOverlapsTenants
       else if list_ex (\<lambda>privatePath. scope_inside h privatePath canonical) denied then Inl RuntimeExposesPrivate
       else Inr canonical)"

definition socket_path :: "srt_host \<Rightarrow> string \<Rightarrow> string \<Rightarrow> srt_error + string" where
  "socket_path h tenantRoot path =
     bind_result (canonicalSocketPath h path) (\<lambda>canonical.
       if scope_inside h tenantRoot canonical then Inl SocketInsideTenant else Inr canonical)"

definition denied_domains :: "policy_input \<Rightarrow> string list" where
  "denied_domains input = js_unique (concat (map (\<lambda>layer. map normalizeDomain (dl_deniedDomains layer)) (pi_domainLayers input)))"

definition allowed_domains :: "policy_input \<Rightarrow> string list" where
  "allowed_domains input =
     js_unique (filter (\<lambda>d. d \<notin> set (denied_domains input)) (intersectAllowed (pi_domainLayers input)) @
       map normalizeDomain (pi_requiredInternalDomains input))"

text \<open>\<open>sort\<close> without a comparator orders by code units.\<close>

definition code_unit_order :: "string \<Rightarrow> string \<Rightarrow> int" where
  "code_unit_order a b = (if a = b then 0 else if ord_class.lexordp_eq (map (of_char :: char \<Rightarrow> nat) a) (map of_char b) then - 1 else 1)"

definition session_policy ::
  "srt_host \<Rightarrow> policy_input \<Rightarrow> string \<Rightarrow> string list \<Rightarrow> string list \<Rightarrow> string list \<Rightarrow> string list \<Rightarrow> string list \<Rightarrow> string list \<Rightarrow> string list \<Rightarrow>
   sandbox_policy" where
  "session_policy h input tenantsRoot systemRead writable managed knowledge runtime denied sockets =
     \<lparr>sp_filesystem = Some
        \<lparr>fs_disabled = False,
         fs_denyRead = topLevelReadDenyPaths h @ hostPrivateReadRoots h @
           [tenantsRoot, ''/proc'', ''~/.ssh'', ''~/.aws'', ''~/.netrc'', ''~/.gnupg''] @ denied,
         fs_allowRead = js_unique (systemRead @ writable @ managed @ knowledge @ runtime),
         fs_allowWrite = js_unique writable,
         fs_denyWrite = js_unique (knowledge @ denied),
         fs_allowGitConfig = Some False\<rparr>,
      sp_network = Some
        \<lparr>net_allowedDomains = js_sort code_unit_order (allowed_domains input),
         net_deniedDomains = js_sort code_unit_order (denied_domains input),
         net_allowUnixSockets = js_unique sockets, net_allowAllUnixSockets = False, net_allowLocalBinding = False,
         net_parentProxy = None\<rparr>,
      sp_enableWeakerNestedSandbox = pi_composeNested input, sp_enableWeakerNetworkIsolation = False,
      sp_bwrapPath = (if pi_composeNested input then Some COMPOSE_NESTED_BWRAP_PATH else None)\<rparr>"

definition compileSrtPolicy :: "srt_host \<Rightarrow> policy_input \<Rightarrow> srt_error + sandbox_policy" where
  "compileSrtPolicy h input =
     bind_result (real_of h (pi_tenantsRoot input)) (\<lambda>tenantsRoot.
     bind_result (canonicalWithin h (pi_tenantsRoot input) (pi_tenantRoot input)) (\<lambda>tenantRoot.
     bind_result (canonicalWithin h tenantRoot (pi_sessionRoot input)) (\<lambda>sessionRoot.
     bind_result (map_result (canonicalWithin h sessionRoot) (pi_writableDirs input)) (\<lambda>writable.
     bind_result (map_result (canonicalWithin h sessionRoot) (pi_managedReadPaths input)) (\<lambda>managed.
     bind_result (map_result (canonicalWithin h tenantRoot) (pi_knowledgeDirs input)) (\<lambda>knowledge.
     bind_result (map_result (canonicalWithin h sessionRoot) (pi_deniedSessionDirs input)) (\<lambda>denied.
     bind_result (map_result (runtime_path h tenantsRoot denied) (pi_runtimeReadPaths input)) (\<lambda>runtime.
     bind_result (map_result (socket_path h tenantRoot) (pi_unixSocketPaths input)) (\<lambda>sockets.
       if list_ex (\<lambda>privatePath. list_ex (\<lambda>p. overlaps h p privatePath) writable) denied then Inl PrivateOverlap
       else if list_ex (\<lambda>m. list_ex (\<lambda>p. overlaps h p m) writable \<or> list_ex (\<lambda>p. overlaps h p m) denied) managed
       then Inl ManagedOverlap
       else bind_result (systemRuntimeReadPaths h) (\<lambda>systemRead.
         Inr (session_policy h input tenantsRoot systemRead writable managed knowledge runtime denied sockets)))))))))))"

section \<open>Containment\<close>

definition spath :: "srt_host \<Rightarrow> string \<Rightarrow> string list" where
  "spath h p = components (resolve_path (sh_cwd h) p)"

lemma spath_resolve [simp]: "spath h (resolve_path (sh_cwd h) p) = spath h p"
  by (simp add: spath_def)

text \<open>What is inside a root extends its components.\<close>

lemma scope_inside_prefix:
  assumes "scope_inside h root candidate"
  shows "prefix (spath h root) (spath h candidate)"
proof (rule ccontr)
  assume "\<not> prefix (spath h root) (spath h candidate)"
  then obtain ds where "relative_components (spath h root) (spath h candidate) = ''..'' # ds"
    by (rule relative_outside)
  then have "relative_path (sh_cwd h) root candidate = js_join [slash] (''..'' # ds)"
    by (simp add: relative_path_def spath_def)
  with assms show False
    by (cases ds) (simp_all add: scope_inside_def js_starts_with_def)
qed

text \<open>A path is inside the real path of a directory; a path is covered by a list of grants.\<close>

definition inside_real :: "srt_host \<Rightarrow> string \<Rightarrow> string \<Rightarrow> bool" where
  "inside_real h dir path \<longleftrightarrow>
     (\<exists>real. sh_realpath h (resolve_path (sh_cwd h) dir) = Some real \<and> prefix (spath h real) (spath h path))"

definition covered :: "srt_host \<Rightarrow> string list \<Rightarrow> string \<Rightarrow> bool" where
  "covered h grants path \<longleftrightarrow> (\<exists>g \<in> set grants. prefix (spath h g) (spath h path))"

definition idempotent_realpath :: "srt_host \<Rightarrow> bool" where
  "idempotent_realpath h \<longleftrightarrow> (\<forall>p r. sh_realpath h p = Some r \<longrightarrow> sh_realpath h r = Some r)"

lemma canonicalWithin_inside:
  assumes "canonicalWithin h root path = Inr c"
  shows "\<exists>real. sh_realpath h root = Some real \<and> prefix (spath h real) (spath h c) \<and> scope_inside h real c"
    "sh_realpath h (resolve_path (sh_cwd h) path) = Some c"
  using assms scope_inside_prefix
  by (auto simp: canonicalWithin_def real_of_def bind_result_Inr split: if_splits option.splits)

lemma canonicalWithin_all:
  assumes "map_result (canonicalWithin h root) paths = Inr cs" and "c \<in> set cs"
  shows "\<exists>real. sh_realpath h root = Some real \<and> prefix (spath h real) (spath h c) \<and> scope_inside h real c"
    "\<exists>p \<in> set paths. sh_realpath h (resolve_path (sh_cwd h) p) = Some c"
proof -
  obtain p where "p \<in> set paths" "canonicalWithin h root p = Inr c" using map_result_from [OF assms] by blast
  then show "\<exists>real. sh_realpath h root = Some real \<and> prefix (spath h real) (spath h c) \<and> scope_inside h real c"
    "\<exists>p \<in> set paths. sh_realpath h (resolve_path (sh_cwd h) p) = Some c"
    using canonicalWithin_inside by blast+
qed

lemma some_grant_True: "some_grant f P gs = Inr True \<Longrightarrow> \<exists>g \<in> set gs. \<exists>p. f g = Inr p \<and> P p"
  by (induction gs) (auto simp: bind_result_Inr split: if_splits)

lemma some_grant_False: "some_grant f P gs = Inr False \<Longrightarrow> \<forall>g \<in> set gs. \<exists>p. f g = Inr p \<and> \<not> P p"
  by (induction gs) (auto simp: bind_result_Inr split: if_splits)

lemma absolute_spath: "absolutePolicyPath h g = Inr p \<Longrightarrow> spath h p = spath h g"
  by (auto simp: absolutePolicyPath_def split: if_splits)

lemma policyGrantCovers_covered:
  assumes "policyGrantCovers h grants candidate = Inr True"
  shows "covered h grants candidate"
proof -
  from assms obtain g p where g: "g \<in> set grants" "absolutePolicyPath h g = Inr p" "scope_inside h p candidate"
    unfolding policyGrantCovers_def by (blast dest: some_grant_True)
  then have "prefix (spath h g) (spath h candidate)" using scope_inside_prefix absolute_spath by metis
  with g(1) show ?thesis unfolding covered_def by blast
qed

lemma outside_grants:
  "outsideSessionGrants h paths root = Inr gs \<Longrightarrow> g \<in> set gs \<Longrightarrow> covered h paths g \<and> \<not> overlaps h root g"
proof (induction paths arbitrary: gs)
  case (Cons path paths)
  from Cons.prems(1) obtain c where c: "absolutePolicyPath h path = Inr c" by (auto simp: bind_result_Inr)
  have self: "covered h (path # paths) c" using absolute_spath [OF c] by (auto simp: covered_def)
  have more: "covered h paths g \<Longrightarrow> covered h (path # paths) g" by (auto simp: covered_def)
  show ?case
  proof (cases "scope_inside h root c")
    case True
    with Cons c more show ?thesis by auto
  next
    case False
    with Cons.prems c obtain rest where "\<not> scope_inside h c root" "outsideSessionGrants h paths root = Inr rest" "gs = c # rest"
      by (auto simp: bind_result_Inr split: if_splits)
    with Cons.IH [of rest] Cons.prems(2) False self more show ?thesis by (auto simp: overlaps_def)
  qed
qed simp

lemma shared_granted:
  "shared_paths_granted h fs paths = Inr () \<Longrightarrow> p \<in> set paths \<Longrightarrow> covered h (fs_allowRead fs) p"
  by (induction paths) (auto simp: bind_result_Inr policyGrantCovers_covered split: if_splits)

text \<open>Everything the derivation has checked when it returns.\<close>

definition derivation ::
  "srt_host \<Rightarrow> task_policy_input \<Rightarrow> sandbox_policy \<Rightarrow> string \<Rightarrow> string \<Rightarrow> string \<Rightarrow> string list \<Rightarrow> string list \<Rightarrow> string list \<Rightarrow>
   fs_policy \<Rightarrow> net_policy \<Rightarrow> string list \<Rightarrow> bool" where
  "derivation h input p root workspace child writable denied shared fs net externalRead \<longleftrightarrow>
     canonicalDirectory h (ti_rootSessionRoot input) = Inr root \<and>
     canonicalWithin h root (ti_sharedWorkspaceDir input) = Inr workspace \<and>
     canonicalWithin h root (ti_childSessionRoot input) = Inr child \<and>
     map_result (canonicalWithin h child) (ti_childWritableDirs input) = Inr writable \<and>
     map_result (canonicalWithin h child) (ti_childDeniedSessionDirs input) = Inr denied \<and>
     map_result (canonicalWithin h root) (ti_sharedReadOnlyPaths input) = Inr shared \<and>
     workspace = join_path root ''workspace'' \<and>
     \<not> list_ex (\<lambda>privatePath. list_ex (\<lambda>p. overlaps h p privatePath) writable) denied \<and>
     sp_filesystem (ti_parent input) = Some fs \<and> sp_network (ti_parent input) = Some net \<and>
     policyGrantCovers h (fs_allowRead fs) workspace = Inr True \<and>
     (ti_readOnlyWorkspace input \<or> policyGrantCovers h (fs_allowWrite fs) workspace = Inr True) \<and>
     shared_paths_granted h fs shared = Inr () \<and>
     outsideSessionGrants h (fs_allowRead fs) root = Inr externalRead \<and>
     p = task_policy (ti_readOnlyWorkspace input) workspace shared writable denied externalRead
       (outsideSessionRestrictions h (fs_denyRead fs) root) (outsideSessionRestrictions h (fs_denyWrite fs) root) net"

lemma derive_cases:
  assumes "deriveTaskSrtPolicy h input = Inr p"
  obtains root workspace child writable denied shared fs net externalRead where
    "derivation h input p root workspace child writable denied shared fs net externalRead"
  using assms
  by (clarsimp simp: deriveTaskSrtPolicy_def from_parent_def derivation_def bind_result_Inr split: if_splits option.splits prod.splits)

lemma child_paths_inside:
  assumes "canonicalWithin h root dir = Inr child" and "map_result (canonicalWithin h child) dirs = Inr ps" and "p \<in> set ps"
    and "idempotent_realpath h"
  shows "inside_real h dir p"
proof -
  have "sh_realpath h (resolve_path (sh_cwd h) dir) = Some child" using canonicalWithin_inside(2) [OF assms(1)] .
  moreover from this have "sh_realpath h child = Some child" using assms(4) by (auto simp: idempotent_realpath_def)
  moreover obtain real where "sh_realpath h child = Some real" "prefix (spath h real) (spath h p)"
    using canonicalWithin_all(1) [OF assms(2,3)] by blast
  ultimately show ?thesis by (auto simp: inside_real_def)
qed

text \<open>
  C10. A task gets no authority that its root session does not have: every write grant of a derived policy is inside
  the session directory of the task or, for a writable task, the workspace that a write grant of the parent covers;
  every read grant is inside the directory of the task or covered by a read grant of the parent; the network
  policy is that of the parent with the two socket switches off, and no weakening switch is on. A read-only task can
  write inside its own directory only.\<close>

theorem derived_policy_within_parent:
  assumes "deriveTaskSrtPolicy h input = Inr p" and "idempotent_realpath h"
  shows "\<exists>fs net fs'. sp_filesystem (ti_parent input) = Some fs \<and> sp_network (ti_parent input) = Some net \<and>
    sp_filesystem p = Some fs' \<and>
    (\<forall>w \<in> set (fs_allowWrite fs'). inside_real h (ti_childSessionRoot input) w \<or>
       \<not> ti_readOnlyWorkspace input \<and> covered h (fs_allowWrite fs) w) \<and>
    (\<forall>r \<in> set (fs_allowRead fs'). inside_real h (ti_childSessionRoot input) r \<or> covered h (fs_allowRead fs) r) \<and>
    sp_network p = Some (net\<lparr>net_allowAllUnixSockets := False, net_allowLocalBinding := False\<rparr>) \<and>
    \<not> sp_enableWeakerNestedSandbox p \<and> \<not> sp_enableWeakerNetworkIsolation p"
proof -
  obtain root workspace child writable denied shared fs net externalRead where
    D: "derivation h input p root workspace child writable denied shared fs net externalRead"
    using derive_cases [OF assms(1)] .
  then have c: "canonicalWithin h root (ti_childSessionRoot input) = Inr child"
      "map_result (canonicalWithin h child) (ti_childWritableDirs input) = Inr writable"
    and par: "sp_filesystem (ti_parent input) = Some fs" "sp_network (ti_parent input) = Some net"
    and ws: "policyGrantCovers h (fs_allowRead fs) workspace = Inr True"
      "ti_readOnlyWorkspace input \<or> policyGrantCovers h (fs_allowWrite fs) workspace = Inr True"
    and sh: "shared_paths_granted h fs shared = Inr ()" and ex: "outsideSessionGrants h (fs_allowRead fs) root = Inr externalRead"
    and p: "p = task_policy (ti_readOnlyWorkspace input) workspace shared writable denied externalRead
       (outsideSessionRestrictions h (fs_denyRead fs) root) (outsideSessionRestrictions h (fs_denyWrite fs) root) net"
    unfolding derivation_def by blast+
  note own = child_paths_inside [OF c _ assms(2)]
  note cov = policyGrantCovers_covered
  show ?thesis
    using par own cov [OF ws(1)] ws(2) cov [of h "fs_allowWrite fs" workspace] shared_granted [OF sh] outside_grants [OF ex]
    by (intro exI [of _ fs] exI [of _ net] exI [of _ "the (sp_filesystem p)"]) (auto simp: p task_policy_def)
qed

text \<open>
  The private state of the root session stays hidden from its tasks: a read grant of a derived policy that overlaps
  the root session is the shared workspace, an approved shared resource or inside the directory of the task; the
  private directories of the task are denied for reading and writing and overlap no write grant inside it, and a
  read-only task is denied writing to the workspace.\<close>

theorem derived_policy_hides_session:
  assumes "deriveTaskSrtPolicy h input = Inr p" and "idempotent_realpath h"
  shows "\<exists>root workspace fs'. canonicalDirectory h (ti_rootSessionRoot input) = Inr root \<and>
    workspace = join_path root ''workspace'' \<and> sp_filesystem p = Some fs' \<and>
    (\<forall>r \<in> set (fs_allowRead fs'). overlaps h root r \<longrightarrow> r = workspace \<or> inside_real h (ti_childSessionRoot input) r \<or>
       (\<exists>s \<in> set (ti_sharedReadOnlyPaths input). sh_realpath h (resolve_path (sh_cwd h) s) = Some r)) \<and>
    (\<forall>d \<in> set (ti_childDeniedSessionDirs input). \<exists>real. sh_realpath h (resolve_path (sh_cwd h) d) = Some real \<and>
       real \<in> set (fs_denyRead fs') \<and> real \<in> set (fs_denyWrite fs') \<and>
       (\<forall>w \<in> set (fs_allowWrite fs'). w = workspace \<or> \<not> overlaps h w real)) \<and>
    (ti_readOnlyWorkspace input \<longrightarrow> workspace \<in> set (fs_denyWrite fs'))"
proof -
  obtain root workspace child writable denied shared fs net externalRead where
    D: "derivation h input p root workspace child writable denied shared fs net externalRead"
    using derive_cases [OF assms(1)] .
  then have r: "canonicalDirectory h (ti_rootSessionRoot input) = Inr root"
    and c: "canonicalWithin h root (ti_childSessionRoot input) = Inr child"
      "map_result (canonicalWithin h child) (ti_childWritableDirs input) = Inr writable"
    and den: "map_result (canonicalWithin h child) (ti_childDeniedSessionDirs input) = Inr denied"
    and sh: "map_result (canonicalWithin h root) (ti_sharedReadOnlyPaths input) = Inr shared"
    and ws: "workspace = join_path root ''workspace''"
    and no: "\<not> list_ex (\<lambda>privatePath. list_ex (\<lambda>p. overlaps h p privatePath) writable) denied"
    and ex: "outsideSessionGrants h (fs_allowRead fs) root = Inr externalRead"
    and p: "p = task_policy (ti_readOnlyWorkspace input) workspace shared writable denied externalRead
       (outsideSessionRestrictions h (fs_denyRead fs) root) (outsideSessionRestrictions h (fs_denyWrite fs) root) net"
    unfolding derivation_def by blast+
  let ?fs = "the (sp_filesystem p)"
  have fs: "set (fs_allowRead ?fs) = set externalRead \<union> {workspace} \<union> set shared \<union> set writable"
    "set (fs_allowWrite ?fs) \<subseteq> set writable \<union> {workspace}" "sp_filesystem p = Some ?fs"
    "set denied \<subseteq> set (fs_denyRead ?fs)" "set denied \<subseteq> set (fs_denyWrite ?fs)"
    "ti_readOnlyWorkspace input \<Longrightarrow> workspace \<in> set (fs_denyWrite ?fs)"
    by (auto simp: p task_policy_def)
  have denied: "\<exists>real \<in> set denied. sh_realpath h (resolve_path (sh_cwd h) d) = Some real"
    if d: "d \<in> set (ti_childDeniedSessionDirs input)" for d
  proof -
    obtain real where "real \<in> set denied" "canonicalWithin h child d = Inr real" using map_result_to [OF den d] by blast
    then show ?thesis using canonicalWithin_inside(2) by blast
  qed
  have reads: "\<forall>r \<in> set (fs_allowRead ?fs). overlaps h root r \<longrightarrow> r = workspace \<or> inside_real h (ti_childSessionRoot input) r \<or>
       (\<exists>s \<in> set (ti_sharedReadOnlyPaths input). sh_realpath h (resolve_path (sh_cwd h) s) = Some r)"
    using fs(1) outside_grants [OF ex] child_paths_inside [OF c _ assms(2)] canonicalWithin_all(2) [OF sh] by auto
  have dens: "\<forall>d \<in> set (ti_childDeniedSessionDirs input). \<exists>real. sh_realpath h (resolve_path (sh_cwd h) d) = Some real \<and>
       real \<in> set (fs_denyRead ?fs) \<and> real \<in> set (fs_denyWrite ?fs) \<and>
       (\<forall>w \<in> set (fs_allowWrite ?fs). w = workspace \<or> \<not> overlaps h w real)"
  proof
    fix d assume "d \<in> set (ti_childDeniedSessionDirs input)"
    then obtain real where "real \<in> set denied" "sh_realpath h (resolve_path (sh_cwd h) d) = Some real" using denied by blast
    with fs no show "\<exists>real. sh_realpath h (resolve_path (sh_cwd h) d) = Some real \<and>
       real \<in> set (fs_denyRead ?fs) \<and> real \<in> set (fs_denyWrite ?fs) \<and>
       (\<forall>w \<in> set (fs_allowWrite ?fs). w = workspace \<or> \<not> overlaps h w real)"
      by (fastforce simp: list_ex_iff)
  qed
  show ?thesis
    by (intro exI conjI impI) (rule r ws fs(3) reads dens fs(6) | assumption)+
qed

section \<open>The policy of a session\<close>

definition compiled ::
  "srt_host \<Rightarrow> policy_input \<Rightarrow> sandbox_policy \<Rightarrow> string \<Rightarrow> string \<Rightarrow> string \<Rightarrow> string list \<Rightarrow> string list \<Rightarrow> string list \<Rightarrow> string list \<Rightarrow>
   string list \<Rightarrow> string list \<Rightarrow> string list \<Rightarrow> bool" where
  "compiled h input p tenantsRoot tenantRoot sessionRoot writable managed knowledge denied runtime sockets systemRead \<longleftrightarrow>
     real_of h (pi_tenantsRoot input) = Inr tenantsRoot \<and>
     canonicalWithin h (pi_tenantsRoot input) (pi_tenantRoot input) = Inr tenantRoot \<and>
     canonicalWithin h tenantRoot (pi_sessionRoot input) = Inr sessionRoot \<and>
     map_result (canonicalWithin h sessionRoot) (pi_writableDirs input) = Inr writable \<and>
     map_result (canonicalWithin h sessionRoot) (pi_managedReadPaths input) = Inr managed \<and>
     map_result (canonicalWithin h tenantRoot) (pi_knowledgeDirs input) = Inr knowledge \<and>
     map_result (canonicalWithin h sessionRoot) (pi_deniedSessionDirs input) = Inr denied \<and>
     map_result (runtime_path h tenantsRoot denied) (pi_runtimeReadPaths input) = Inr runtime \<and>
     map_result (socket_path h tenantRoot) (pi_unixSocketPaths input) = Inr sockets \<and>
     \<not> list_ex (\<lambda>privatePath. list_ex (\<lambda>p. overlaps h p privatePath) writable) denied \<and>
     systemRuntimeReadPaths h = Inr systemRead \<and>
     p = session_policy h input tenantsRoot systemRead writable managed knowledge runtime denied sockets"

lemma compile_cases:
  assumes "compileSrtPolicy h input = Inr p"
  obtains tenantsRoot tenantRoot sessionRoot writable managed knowledge denied runtime sockets systemRead where
    "compiled h input p tenantsRoot tenantRoot sessionRoot writable managed knowledge denied runtime sockets systemRead"
  using assms
  by (clarsimp simp: compileSrtPolicy_def compiled_def bind_result_Inr split: if_splits)

lemma intersectAllowed_set:
  "set (intersectAllowed layers) = (if layers = [] then {} else (\<Inter>layer \<in> set layers. set (layer_domains layer)))"
proof (cases layers)
  case (Cons layer rest)
  have "set (fold (\<lambda>next result. filter (\<lambda>domain. domain \<in> set (layer_domains next)) result) rest acc) =
      set acc \<inter> (\<Inter>layer \<in> set rest. set (layer_domains layer))" for acc
    by (induction rest arbitrary: acc) auto
  with Cons show ?thesis by (simp add: intersectAllowed_def)
qed (simp add: intersectAllowed_def)

text \<open>
  A session can reach a domain only if every layer of the policy allows it and none denies it, apart from the
  internal domains the server requires; no layers allow nothing.\<close>

theorem session_domains_are_intersection:
  assumes "compileSrtPolicy h input = Inr p" and "sp_network p = Some net"
  shows "domain \<in> set (net_allowedDomains net) \<longleftrightarrow>
    domain \<in> normalizeDomain ` set (pi_requiredInternalDomains input) \<or>
    pi_domainLayers input \<noteq> [] \<and> domain \<noteq> [] \<and>
    (\<forall>layer \<in> set (pi_domainLayers input). domain \<in> normalizeDomain ` set (dl_allowedDomains layer) \<and>
       domain \<notin> normalizeDomain ` set (dl_deniedDomains layer))"
proof -
  obtain tenantsRoot tenantRoot sessionRoot writable managed knowledge denied runtime sockets systemRead where
    "compiled h input p tenantsRoot tenantRoot sessionRoot writable managed knowledge denied runtime sockets systemRead"
    using compile_cases [OF assms(1)] .
  then have "p = session_policy h input tenantsRoot systemRead writable managed knowledge runtime denied sockets"
    by (simp add: compiled_def)
  with assms(2) have n: "set (net_allowedDomains net) =
      (set (intersectAllowed (pi_domainLayers input)) - set (denied_domains input)) \<union>
      normalizeDomain ` set (pi_requiredInternalDomains input)"
    by (auto simp: session_policy_def allowed_domains_def)
  have d: "set (denied_domains input) = (\<Union>layer \<in> set (pi_domainLayers input). normalizeDomain ` set (dl_deniedDomains layer))"
    by (simp add: denied_domains_def)
  show ?thesis unfolding n intersectAllowed_set d by (cases "pi_domainLayers input") (auto simp: layer_domains_def)
qed

text \<open>
  C30. A compiled session policy confines writing to the session: every write grant is the real path of one of its
  working directories and inside the real session root; the private directories of the session are denied for reading
  and writing and overlap no write grant; every socket is outside the tenant; all switches are closed but for the
  nested mode of the deployment.\<close>

theorem session_policy_confines_writes:
  assumes "compileSrtPolicy h input = Inr p" and "idempotent_realpath h"
  shows "\<exists>fs net. sp_filesystem p = Some fs \<and> sp_network p = Some net \<and>
    (\<forall>w \<in> set (fs_allowWrite fs). inside_real h (pi_sessionRoot input) w \<and> inside_real h (pi_tenantRoot input) w) \<and>
    (\<forall>d \<in> set (pi_deniedSessionDirs input). \<exists>real. sh_realpath h (resolve_path (sh_cwd h) d) = Some real \<and>
       real \<in> set (fs_denyRead fs) \<and> real \<in> set (fs_denyWrite fs) \<and> (\<forall>w \<in> set (fs_allowWrite fs). \<not> overlaps h w real)) \<and>
    (\<forall>s \<in> set (net_allowUnixSockets net). \<exists>tenant. sh_realpath h (resolve_path (sh_cwd h) (pi_tenantRoot input)) = Some tenant \<and>
       \<not> scope_inside h tenant s) \<and>
    (fail_closed p \<longleftrightarrow> \<not> pi_composeNested input)"
proof -
  obtain tenantsRoot tenantRoot sessionRoot writable managed knowledge denied runtime sockets systemRead where
    C: "compiled h input p tenantsRoot tenantRoot sessionRoot writable managed knowledge denied runtime sockets systemRead"
    using compile_cases [OF assms(1)] .
  then have t: "canonicalWithin h (pi_tenantsRoot input) (pi_tenantRoot input) = Inr tenantRoot"
    and s: "canonicalWithin h tenantRoot (pi_sessionRoot input) = Inr sessionRoot"
    and w: "map_result (canonicalWithin h sessionRoot) (pi_writableDirs input) = Inr writable"
    and den: "map_result (canonicalWithin h sessionRoot) (pi_deniedSessionDirs input) = Inr denied"
    and sock: "map_result (socket_path h tenantRoot) (pi_unixSocketPaths input) = Inr sockets"
    and no: "\<not> list_ex (\<lambda>privatePath. list_ex (\<lambda>p. overlaps h p privatePath) writable) denied"
    and p: "p = session_policy h input tenantsRoot systemRead writable managed knowledge runtime denied sockets"
    unfolding compiled_def by blast+
  let ?fs = "the (sp_filesystem p)" and ?net = "the (sp_network p)"
  have fields: "sp_filesystem p = Some ?fs" "sp_network p = Some ?net" "set (fs_allowWrite ?fs) = set writable"
    "set denied \<subseteq> set (fs_denyRead ?fs)" "set denied \<subseteq> set (fs_denyWrite ?fs)" "set (net_allowUnixSockets ?net) = set sockets"
    "fail_closed p \<longleftrightarrow> \<not> pi_composeNested input"
    by (auto simp: p session_policy_def fail_closed_def)
  have tr: "sh_realpath h (resolve_path (sh_cwd h) (pi_tenantRoot input)) = Some tenantRoot" "sh_realpath h tenantRoot = Some tenantRoot"
    using canonicalWithin_inside(2) [OF t] assms(2) by (auto simp: idempotent_realpath_def)
  have writes: "inside_real h (pi_sessionRoot input) x \<and> inside_real h (pi_tenantRoot input) x" if x: "x \<in> set writable" for x
  proof -
    have in_s: "inside_real h (pi_sessionRoot input) x" using child_paths_inside [OF s w x assms(2)] .
    moreover have "prefix (spath h tenantRoot) (spath h sessionRoot)" using canonicalWithin_inside(1) [OF s] tr(2) by auto
    moreover have "sh_realpath h (resolve_path (sh_cwd h) (pi_sessionRoot input)) = Some sessionRoot" using canonicalWithin_inside(2) [OF s] .
    ultimately show ?thesis using tr(1) prefix_order.trans by (auto simp: inside_real_def)
  qed
  have dens: "\<exists>real. sh_realpath h (resolve_path (sh_cwd h) d) = Some real \<and>
       real \<in> set (fs_denyRead ?fs) \<and> real \<in> set (fs_denyWrite ?fs) \<and> (\<forall>w \<in> set (fs_allowWrite ?fs). \<not> overlaps h w real)"
    if d: "d \<in> set (pi_deniedSessionDirs input)" for d
  proof -
    obtain real where "real \<in> set denied" "canonicalWithin h sessionRoot d = Inr real" using map_result_to [OF den d] by blast
    with fields no canonicalWithin_inside(2) show ?thesis by (fastforce simp: list_ex_iff)
  qed
  have socks: "\<not> scope_inside h tenantRoot x" if "x \<in> set sockets" for x
    using map_result_from [OF sock that] by (auto simp: socket_path_def bind_result_Inr split: if_splits)
  show ?thesis
    using fields writes dens socks tr(1) by (intro exI [of _ ?fs] exI [of _ ?net]) auto
qed

section \<open>A session and its task\<close>

definition sample_srt_host :: srt_host where
  "sample_srt_host = \<lparr>sh_cwd = ''/'', sh_realpath = (\<lambda>p. Some (resolve_path ''/'' p)), sh_kind = (\<lambda>_. Some Directory),
     sh_exists = (\<lambda>p. p = ''/bin''), sh_platform = ''linux'', sh_rootEntries = [''bin'']\<rparr>"

definition sample_policy_input :: policy_input where
  "sample_policy_input = \<lparr>pi_tenantsRoot = ''/d'', pi_tenantRoot = ''/d/t'', pi_sessionRoot = ''/d/t/s'',
     pi_writableDirs = [''/d/t/s/workspace'', ''/d/t/s/home''], pi_deniedSessionDirs = [''/d/t/s/rec''],
     pi_managedReadPaths = [], pi_knowledgeDirs = [''/d/t/k''], pi_runtimeReadPaths = [''/opt/x''],
     pi_unixSocketPaths = [''/run/p.sock''], pi_requiredInternalDomains = [],
     pi_domainLayers = [\<lparr>dl_allowedDomains = [''https://A.org/'', ''b.org''], dl_deniedDomains = [''b.org'']\<rparr>],
     pi_composeNested = False\<rparr>"

definition sample_session_policy :: sandbox_policy where
  "sample_session_policy = (case compileSrtPolicy sample_srt_host sample_policy_input of Inr p \<Rightarrow> p | Inl _ \<Rightarrow> undefined)"

lemma sample_compiles: "compileSrtPolicy sample_srt_host sample_policy_input = Inr sample_session_policy"
proof -
  have "\<not> isl (compileSrtPolicy sample_srt_host sample_policy_input)" by code_simp
  then show ?thesis unfolding sample_session_policy_def by (cases "compileSrtPolicy sample_srt_host sample_policy_input") auto
qed

lemma sample_idempotent: "idempotent_realpath sample_srt_host"
  by (simp add: idempotent_realpath_def sample_srt_host_def)

definition sample_task_input :: "bool \<Rightarrow> task_policy_input" where
  "sample_task_input readOnly = \<lparr>ti_parent = sample_session_policy, ti_rootSessionRoot = ''/d/t/s'',
     ti_sharedWorkspaceDir = ''/d/t/s/workspace'', ti_sharedReadOnlyPaths = [], ti_childSessionRoot = ''/d/t/s/tmp/c'',
     ti_childWritableDirs = [''/d/t/s/tmp/c/home''], ti_childDeniedSessionDirs = [''/d/t/s/tmp/c/rec''],
     ti_readOnlyWorkspace = readOnly\<rparr>"

lemma sample_writes:
  "map_option fs_allowWrite (sp_filesystem sample_session_policy) = Some [''/d/t/s/workspace'', ''/d/t/s/home'']"
  by code_simp

lemma session_domains_are_intersection_witness:
  "map_option net_allowedDomains (sp_network sample_session_policy) = Some [''a.org''] \<and> ''b.org'' \<notin> set [''a.org'']"
proof -
  obtain net where net: "sp_network sample_session_policy = Some net" "net_allowedDomains net = [''a.org'']"
  proof -
    have "map_option net_allowedDomains (sp_network sample_session_policy) = Some [''a.org'']" by code_simp
    then show thesis using that by auto
  qed
  have "normalizeDomain ''b.org'' = ''b.org''" by code_simp
  then have "''b.org'' \<notin> set (net_allowedDomains net)"
    using session_domains_are_intersection [OF sample_compiles net(1), of "''b.org''"]
    by (simp add: sample_policy_input_def)
  with net show ?thesis by simp
qed

lemma session_policy_confines_writes_witness:
  "fail_closed sample_session_policy \<and>
   map_option fs_allowWrite (sp_filesystem sample_session_policy) = Some [''/d/t/s/workspace'', ''/d/t/s/home''] \<and>
   inside_real sample_srt_host ''/d/t/s'' ''/d/t/s/home''"
proof -
  obtain fs where fs: "sp_filesystem sample_session_policy = Some fs" "fs_allowWrite fs = [''/d/t/s/workspace'', ''/d/t/s/home'']"
    using sample_writes by auto
  have "pi_sessionRoot sample_policy_input = ''/d/t/s''" "\<not> pi_composeNested sample_policy_input"
    by (simp_all add: sample_policy_input_def)
  with session_policy_confines_writes [OF sample_compiles sample_idempotent] fs show ?thesis by auto
qed

definition sample_task_policy :: "bool \<Rightarrow> sandbox_policy" where
  "sample_task_policy readOnly =
     (case deriveTaskSrtPolicy sample_srt_host (sample_task_input readOnly) of Inr p \<Rightarrow> p | Inl _ \<Rightarrow> undefined)"

lemma sample_derives: "deriveTaskSrtPolicy sample_srt_host (sample_task_input readOnly) = Inr (sample_task_policy readOnly)"
proof -
  have "\<not> isl (deriveTaskSrtPolicy sample_srt_host (sample_task_input False))"
    "\<not> isl (deriveTaskSrtPolicy sample_srt_host (sample_task_input True))" by code_simp+
  then show ?thesis unfolding sample_task_policy_def
    by (cases readOnly; cases "deriveTaskSrtPolicy sample_srt_host (sample_task_input readOnly)") auto
qed

lemma derived_policy_within_parent_witness:
  "map_option fs_allowWrite (sp_filesystem (sample_task_policy True)) = Some [''/d/t/s/tmp/c/home''] \<and>
   map_option fs_allowWrite (sp_filesystem (sample_task_policy False)) = Some [''/d/t/s/tmp/c/home'', ''/d/t/s/workspace''] \<and>
   inside_real sample_srt_host ''/d/t/s/tmp/c'' ''/d/t/s/tmp/c/home''"
proof -
  have w: "map_option fs_allowWrite (sp_filesystem (sample_task_policy True)) = Some [''/d/t/s/tmp/c/home'']"
    "map_option fs_allowWrite (sp_filesystem (sample_task_policy False)) = Some [''/d/t/s/tmp/c/home'', ''/d/t/s/workspace'']"
    by code_simp+
  obtain fs where fs: "sp_filesystem (sample_task_policy True) = Some fs" "fs_allowWrite fs = [''/d/t/s/tmp/c/home'']"
    using w(1) by auto
  have "ti_childSessionRoot (sample_task_input True) = ''/d/t/s/tmp/c''" "ti_readOnlyWorkspace (sample_task_input True)"
    by (simp_all add: sample_task_input_def)
  with derived_policy_within_parent [OF sample_derives sample_idempotent, of True] fs
  have "inside_real sample_srt_host ''/d/t/s/tmp/c'' ''/d/t/s/tmp/c/home''" by auto
  with w show ?thesis by blast
qed

lemma derived_policy_hides_session_witness:
  "\<exists>fs. sp_filesystem (sample_task_policy True) = Some fs \<and> ''/d/t/s/workspace'' \<in> set (fs_denyWrite fs) \<and>
     ''/d/t/s/tmp/c/rec'' \<in> set (fs_denyRead fs) \<and> ''/d/t/s/home'' \<notin> set (fs_allowRead fs)"
proof -
  have r: "canonicalDirectory sample_srt_host (ti_rootSessionRoot (sample_task_input True)) = Inr ''/d/t/s''"
    "join_path ''/d/t/s'' ''workspace'' = ''/d/t/s/workspace''"
    "sh_realpath sample_srt_host (resolve_path (sh_cwd sample_srt_host) ''/d/t/s/tmp/c/rec'') = Some ''/d/t/s/tmp/c/rec''"
    "sh_realpath sample_srt_host (resolve_path (sh_cwd sample_srt_host) ''/d/t/s/tmp/c'') = Some ''/d/t/s/tmp/c''"
    "overlaps sample_srt_host ''/d/t/s'' ''/d/t/s/home''"
    "\<not> prefix (spath sample_srt_host ''/d/t/s/tmp/c'') (spath sample_srt_host ''/d/t/s/home'')" by code_simp+
  have i: "ti_childDeniedSessionDirs (sample_task_input True) = [''/d/t/s/tmp/c/rec'']" "ti_readOnlyWorkspace (sample_task_input True)"
    "ti_childSessionRoot (sample_task_input True) = ''/d/t/s/tmp/c''" "ti_sharedReadOnlyPaths (sample_task_input True) = []"
    by (simp_all add: sample_task_input_def)
  have "\<not> inside_real sample_srt_host ''/d/t/s/tmp/c'' ''/d/t/s/home''" using r(4,6) by (simp add: inside_real_def)
  with derived_policy_hides_session [OF sample_derives sample_idempotent, of True] r i show ?thesis by auto
qed

end
