(* ===== verification/Broker_Server.thy ===== *)
theory Broker_Server
  imports Rpc_Transport Task_Manager
begin

text \<open>
  The broker server (web/server/pi-broker-server.ts): one request per connection of a private socket,
  authenticated by a capability, bounded in number, answered by one result.

  A connection is addressed by its position in \<open>bs_conns\<close>. The decoder of frames is the one of the transport.
  \<open>TextDecoder\<close>, \<open>JSON.parse\<close>, the capability of a session and the length of a serialised frame are parameters.
  Creating, securing and unlinking the socket in the file system is left out.
\<close>

section \<open>Requests\<close>

definition nonEmptyText :: "json \<Rightarrow> bool" where
  "nonEmptyText v \<longleftrightarrow> is_js_string v \<and> length (str_of v) > 0 \<and> \<not> js_includes (str_of v) nul"

definition operation_pattern :: "string \<Rightarrow> bool" where
  "operation_pattern s \<longleftrightarrow> s \<noteq> [] \<and> list_all (\<lambda>c. is_alnum c \<or> c \<in> set ''_.-'') s"

record wire_request =
  wr_id :: string
  wr_capability :: string
  wr_request :: broker_request

definition parseRequest :: "json \<Rightarrow> wire_request option" where
  "parseRequest v =
     (if \<not> is_record v \<or> member v ''type'' \<noteq> JString ''pi_broker_request'' \<or> member v ''version'' \<noteq> JNumber (JInt 1) \<or>
         \<not> nonEmptyText (member v ''id'') \<or> \<not> nonEmptyText (member v ''sessionId'') \<or>
         \<not> is_safe_integer (member v ''generation'') \<or> number_of (member v ''generation'') < 0 \<or>
         \<not> nonEmptyText (member v ''capability'') \<or> \<not> nonEmptyText (member v ''operation'') \<or>
         \<not> operation_pattern (str_of (member v ''operation''))
      then None
      else Some \<lparr>wr_id = str_of (member v ''id''), wr_capability = str_of (member v ''capability''),
        wr_request = \<lparr>br_sessionId = str_of (member v ''sessionId''), br_generation = number_of (member v ''generation''),
          br_operation = str_of (member v ''operation''), br_payload = member v ''payload''\<rparr>\<rparr>)"

definition equalPiBrokerCapability :: "string \<Rightarrow> string \<Rightarrow> bool" where
  "equalPiBrokerCapability l r \<longleftrightarrow> length (utf8_encode l) = length (utf8_encode r) \<and> utf8_encode l = utf8_encode r"

section \<open>State\<close>

record connection =
  cn_decoder :: decoder
  cn_handled :: bool
  cn_open :: bool
  cn_ended :: bool
  cn_aborted :: bool
  cn_running :: "wire_request option"

record broker_server =
  bs_maxFrameBytes :: int
  bs_maxConcurrent :: nat
  bs_conns :: "connection list"
  bs_active :: nat
  bs_disposed :: bool

datatype refusal = InvalidRequest | RequestRejected | BrokerBusy | RequestAborted | OperationFailed

datatype broker_frame =
    ResultOk string json
  | ResultError string refusal
  | ProgressFrame string json

datatype broker_effect =
    Invoke nat wire_request
  | Send nat broker_frame
  | DestroySocket nat

record broker_env =
  bv_decode :: "byte list \<Rightarrow> string option"
  bv_parse :: "string \<Rightarrow> json option"
  bv_resolveCapability :: "string \<Rightarrow> int \<Rightarrow> string option"
  bv_frameBytes :: "broker_frame \<Rightarrow> nat option"

definition new_broker_server :: "json \<Rightarrow> json \<Rightarrow> broker_server option" where
  "new_broker_server maxFrameBytes maxConcurrent =
     (case (positiveInteger_or maxFrameBytes (8 * 1024 * 1024), positiveInteger_or maxConcurrent 16) of
        (Some f, Some c) \<Rightarrow>
          Some \<lparr>bs_maxFrameBytes = f, bs_maxConcurrent = nat c, bs_conns = [], bs_active = 0, bs_disposed = False\<rparr>
      | _ \<Rightarrow> None)"

abbreviation conn :: "broker_server \<Rightarrow> nat \<Rightarrow> connection" where
  "conn s c \<equiv> bs_conns s ! c"

definition put_conn :: "nat \<Rightarrow> connection \<Rightarrow> broker_server \<Rightarrow> broker_server" where
  "put_conn c x s = s\<lparr>bs_conns := (bs_conns s)[c := x]\<rparr>"

section \<open>Connections\<close>

definition accept :: "broker_server \<Rightarrow> broker_server" where
  "accept s =
     (if bs_disposed s then s
      else s\<lparr>bs_conns := bs_conns s @ [\<lparr>cn_decoder = fresh_decoder (bs_maxFrameBytes s), cn_handled = False, cn_open = True,
        cn_ended = False, cn_aborted = False, cn_running = None\<rparr>]\<rparr>)"

definition destroy :: "nat \<Rightarrow> broker_server \<Rightarrow> broker_effect list \<times> broker_server" where
  "destroy c s = ([DestroySocket c], put_conn c ((conn s c)\<lparr>cn_open := False\<rparr>) s)"

text \<open>A frame that cannot be serialised or is too large destroys the socket; a destroyed socket sends nothing, and a
  write after the final frame is an error of the stream, which destroys it.\<close>

definition write_frame :: "broker_env \<Rightarrow> nat \<Rightarrow> broker_frame \<Rightarrow> bool \<Rightarrow> broker_server \<Rightarrow> broker_effect list \<times> broker_server" where
  "write_frame env c frame is_final s =
     (case bv_frameBytes env frame of
        None \<Rightarrow> destroy c s
      | Some n \<Rightarrow>
          if int n > bs_maxFrameBytes s then destroy c s
          else if \<not> cn_open (conn s c) then ([], s)
          else if cn_ended (conn s c) then destroy c s
          else ([Send c frame], if is_final then put_conn c ((conn s c)\<lparr>cn_ended := True\<rparr>) s else s))"

definition execute :: "broker_env \<Rightarrow> nat \<Rightarrow> wire_request \<Rightarrow> broker_server \<Rightarrow> broker_effect list \<times> broker_server" where
  "execute env c r s =
     (let accepted = (case bv_resolveCapability env (br_sessionId (wr_request r)) (br_generation (wr_request r)) of
            None \<Rightarrow> False
          | Some expected \<Rightarrow> expected \<noteq> [] \<and> equalPiBrokerCapability expected (wr_capability r)) in
      if \<not> accepted then write_frame env c (ResultError (wr_id r) RequestRejected) True s
      else if bs_active s \<ge> bs_maxConcurrent s then write_frame env c (ResultError (wr_id r) BrokerBusy) True s
      else ([Invoke c r], (put_conn c ((conn s c)\<lparr>cn_running := Some r\<rparr>) s)\<lparr>bs_active := bs_active s + 1\<rparr>))"

definition handle_value :: "broker_env \<Rightarrow> nat \<Rightarrow> json \<Rightarrow> broker_server \<Rightarrow> broker_effect list \<times> broker_server" where
  "handle_value env c v s =
     (let s1 = put_conn c ((conn s c)\<lparr>cn_handled := True\<rparr>) s in
      case parseRequest v of
        None \<Rightarrow> write_frame env c (ResultError ''invalid'' InvalidRequest) True s1
      | Some r \<Rightarrow> execute env c r s1)"

definition socket_data_arrives :: "broker_env \<Rightarrow> nat \<Rightarrow> byte list \<Rightarrow> broker_server \<Rightarrow> broker_effect list \<times> broker_server" where
  "socket_data_arrives env c chunk s =
     (if c \<ge> length (bs_conns s) \<or> \<not> cn_open (conn s c) then ([], s)
      else if cn_handled (conn s c) then destroy c s
      else
        (case decoder_push (bv_decode env) (cn_decoder (conn s c)) chunk of
           (Inl _, d) \<Rightarrow> destroy c (put_conn c ((conn s c)\<lparr>cn_decoder := d\<rparr>) s)
         | (Inr lines, d) \<Rightarrow>
             let s1 = put_conn c ((conn s c)\<lparr>cn_decoder := d\<rparr>) s in
             if length lines = 0 then ([], s1)
             else if length lines \<noteq> 1 then destroy c s1
             else
               (case bv_parse env (hd lines) of
                  None \<Rightarrow> destroy c s1
                | Some v \<Rightarrow> handle_value env c v s1)))"

text \<open>The end of a handler: its value, or None when it rejected.\<close>

definition handler_returns :: "broker_env \<Rightarrow> nat \<Rightarrow> json option \<Rightarrow> broker_server \<Rightarrow> broker_effect list \<times> broker_server" where
  "handler_returns env c value s =
     (if c \<ge> length (bs_conns s) then ([], s)
      else
        (case cn_running (conn s c) of
           None \<Rightarrow> ([], s)
         | Some r \<Rightarrow>
             let s1 = (put_conn c ((conn s c)\<lparr>cn_running := None\<rparr>) s)\<lparr>bs_active := bs_active s - 1\<rparr> in
             write_frame env c
               (case value of
                  None \<Rightarrow> ResultError (wr_id r) OperationFailed
                | Some v \<Rightarrow> if cn_aborted (conn s c) then ResultError (wr_id r) RequestAborted else ResultOk (wr_id r) v)
               True s1))"

definition handler_progress :: "broker_env \<Rightarrow> nat \<Rightarrow> string \<Rightarrow> json \<Rightarrow> broker_server \<Rightarrow> broker_effect list \<times> broker_server" where
  "handler_progress env c i progress s =
     (if c \<ge> length (bs_conns s) \<or> cn_aborted (conn s c) \<or> \<not> cn_open (conn s c) then ([], s)
      else write_frame env c (ProgressFrame i progress) False s)"

text \<open>\<open>cleanup\<close> of a closed socket, the request timeout, and the idle timeout of the socket.\<close>

definition abort_controller :: "nat \<Rightarrow> broker_server \<Rightarrow> broker_server" where
  "abort_controller c s =
     (if c \<ge> length (bs_conns s) \<or> cn_running (conn s c) = None then s else put_conn c ((conn s c)\<lparr>cn_aborted := True\<rparr>) s)"

definition socket_closes :: "nat \<Rightarrow> broker_server \<Rightarrow> broker_server" where
  "socket_closes c s =
     (if c \<ge> length (bs_conns s) then s else put_conn c ((conn s c)\<lparr>cn_open := False, cn_aborted := True\<rparr>) s)"

definition socket_timeout :: "nat \<Rightarrow> broker_server \<Rightarrow> broker_effect list \<times> broker_server" where
  "socket_timeout c s = (if c \<ge> length (bs_conns s) then ([], s) else destroy c s)"

definition dispose_broker :: "broker_server \<Rightarrow> broker_effect list \<times> broker_server" where
  "dispose_broker s =
     (if bs_disposed s then ([], s)
      else (map DestroySocket (filter (\<lambda>c. cn_open (conn s c)) [0..<length (bs_conns s)]),
        s\<lparr>bs_disposed := True, bs_conns := map (\<lambda>x. x\<lparr>cn_open := False, cn_aborted := True\<rparr>) (bs_conns s)\<rparr>))"

section \<open>Events\<close>

datatype broker_event =
    Accept
  | Data nat "byte list"
  | HandlerReturns nat "json option"
  | HandlerProgress nat string json
  | RequestTimeout nat
  | SocketCloses nat
  | SocketTimeout nat
  | DisposeBroker

fun broker_step :: "broker_env \<Rightarrow> broker_event \<Rightarrow> broker_server \<Rightarrow> broker_effect list \<times> broker_server" where
  "broker_step env Accept s = ([], accept s)"
| "broker_step env (Data c chunk) s = socket_data_arrives env c chunk s"
| "broker_step env (HandlerReturns c v) s = handler_returns env c v s"
| "broker_step env (HandlerProgress c i p) s = handler_progress env c i p s"
| "broker_step env (RequestTimeout c) s = ([], abort_controller c s)"
| "broker_step env (SocketCloses c) s = ([], socket_closes c s)"
| "broker_step env (SocketTimeout c) s = socket_timeout c s"
| "broker_step env DisposeBroker s = dispose_broker s"

fun broker_run :: "broker_env \<Rightarrow> broker_event list \<Rightarrow> broker_server \<Rightarrow> broker_effect list \<times> broker_server" where
  "broker_run env [] s = ([], s)"
| "broker_run env (e # es) s =
     (let (outs, s1) = broker_step env e s; (outs', s2) = broker_run env es s1 in (outs @ outs', s2))"

section \<open>One invocation and one result\<close>

fun invokes :: "nat \<Rightarrow> broker_effect \<Rightarrow> bool" where
  "invokes c (Invoke d _) = (d = c)"
| "invokes c _ = False"

fun answers_conn :: "nat \<Rightarrow> broker_effect \<Rightarrow> bool" where
  "answers_conn c (Send d (ResultOk _ _)) = (d = c)"
| "answers_conn c (Send d (ResultError _ _)) = (d = c)"
| "answers_conn c _ = False"

definition invocations :: "broker_effect list \<Rightarrow> nat \<Rightarrow> nat" where
  "invocations outs c = length (filter (invokes c) outs)"

definition results :: "broker_effect list \<Rightarrow> nat \<Rightarrow> nat" where
  "results outs c = length (filter (answers_conn c) outs)"

lemma counts_simps [simp]:
  "invocations [] c = 0" "results [] c = 0"
  "invocations (e # es) c = (if invokes c e then 1 else 0) + invocations es c"
  "results (e # es) c = (if answers_conn c e then 1 else 0) + results es c"
  "invocations (es @ fs) c = invocations es c + invocations fs c" "results (es @ fs) c = results es c + results fs c"
  by (simp_all add: invocations_def results_def)

definition handled_bit :: "broker_server \<Rightarrow> nat \<Rightarrow> nat" where
  "handled_bit s c = (if c < length (bs_conns s) \<and> cn_handled (conn s c) then 1 else 0)"

definition ended_bit :: "broker_server \<Rightarrow> nat \<Rightarrow> nat" where
  "ended_bit s c = (if c < length (bs_conns s) \<and> cn_ended (conn s c) then 1 else 0)"

definition running_conns :: "broker_server \<Rightarrow> connection list" where
  "running_conns s = filter (\<lambda>x. cn_running x \<noteq> None) (bs_conns s)"

text \<open>
  Events only add: an invocation marks its connection handled, a result marks it ended, neither mark is lost, and
  what runs is counted.
\<close>

definition broker_inv :: "broker_server \<Rightarrow> bool" where
  "broker_inv s \<longleftrightarrow> bs_active s = length (running_conns s) \<and> bs_active s \<le> bs_maxConcurrent s \<and>
     (\<forall>x \<in> set (bs_conns s). cn_running x \<noteq> None \<longrightarrow> cn_handled x)"

definition adds :: "broker_server \<Rightarrow> broker_effect list \<Rightarrow> broker_server \<Rightarrow> bool" where
  "adds s outs s' \<longleftrightarrow> (\<forall>c. invocations outs c + handled_bit s c \<le> handled_bit s' c \<and> results outs c + ended_bit s c = ended_bit s' c) \<and>
     bs_maxConcurrent s' = bs_maxConcurrent s"

lemma adds_refl [simp]: "adds s [] s"
  by (simp add: adds_def)

lemma adds_trans:
  assumes "adds s outs s1" and "adds s1 outs' s2"
  shows "adds s (outs @ outs') s2"
  unfolding adds_def
proof (intro conjI allI)
  fix c
  from assms have "invocations outs c + handled_bit s c \<le> handled_bit s1 c" "invocations outs' c + handled_bit s1 c \<le> handled_bit s2 c"
    "results outs c + ended_bit s c = ended_bit s1 c" "results outs' c + ended_bit s1 c = ended_bit s2 c" by (simp_all add: adds_def)
  then show "invocations (outs @ outs') c + handled_bit s c \<le> handled_bit s2 c"
    "results (outs @ outs') c + ended_bit s c = ended_bit s2 c" by simp_all
qed (use assms in \<open>simp add: adds_def\<close>)

lemma put_conn_simps [simp]:
  "bs_conns (put_conn c x s) = (bs_conns s)[c := x]" "bs_active (put_conn c x s) = bs_active s"
  "bs_maxConcurrent (put_conn c x s) = bs_maxConcurrent s" "bs_maxFrameBytes (put_conn c x s) = bs_maxFrameBytes s"
  "bs_disposed (put_conn c x s) = bs_disposed s"
  by (simp_all add: put_conn_def)

text \<open>An update of a connection that keeps its request and its marks.\<close>

lemma put_inv:
  assumes "broker_inv s" and c: "c < length (bs_conns s)" and "cn_running x = cn_running (conn s c)"
    and "cn_handled (conn s c) \<longrightarrow> cn_handled x"
  shows "broker_inv (put_conn c x s)"
proof -
  have "{i. i < length (bs_conns s) \<and> cn_running ((bs_conns s)[c := x] ! i) \<noteq> None} =
      {i. i < length (bs_conns s) \<and> cn_running (bs_conns s ! i) \<noteq> None}"
    using assms by (auto simp: nth_list_update)
  then have "length (running_conns (put_conn c x s)) = length (running_conns s)"
    by (simp add: running_conns_def length_filter_conv_card)
  moreover have "cn_running x \<noteq> None \<longrightarrow> cn_handled x"
    using assms nth_mem [OF c] by (auto simp: broker_inv_def)
  then have "\<forall>y \<in> set ((bs_conns s)[c := x]). cn_running y \<noteq> None \<longrightarrow> cn_handled y"
    using assms(1) set_update_subset_insert [of "bs_conns s" c x] unfolding broker_inv_def by blast
  ultimately show ?thesis using assms(1) by (simp add: broker_inv_def)
qed

lemma put_quiet:
  assumes "c < length (bs_conns s)" and "cn_ended x = cn_ended (conn s c)" and "cn_handled (conn s c) \<longrightarrow> cn_handled x"
  shows "adds s [] (put_conn c x s)"
  using assms by (auto simp: adds_def handled_bit_def ended_bit_def nth_list_update)

definition fine :: "broker_server \<Rightarrow> broker_effect list \<Rightarrow> broker_server \<Rightarrow> bool" where
  "fine s outs s' \<longleftrightarrow> adds s outs s' \<and> broker_inv s' \<and> length (bs_conns s) \<le> length (bs_conns s')"

lemma fine_trans: "fine s outs s1 \<Longrightarrow> fine s1 outs' s2 \<Longrightarrow> fine s (outs @ outs') s2"
  using adds_trans by (auto simp: fine_def)

lemma destroy_fine:
  assumes "destroy c s = (outs, s')" and "broker_inv s" and "c < length (bs_conns s)"
  shows "fine s outs s'"
proof -
  have "fine s [] (put_conn c ((conn s c)\<lparr>cn_open := False\<rparr>) s)"
    using put_quiet [OF assms(3)] put_inv [OF assms(2,3)] by (simp add: fine_def)
  with assms(1) show ?thesis by (auto simp: destroy_def fine_def adds_def)
qed

lemma write_frame_fine:
  assumes "write_frame env c frame is_final s = (outs, s')" and "broker_inv s" and "c < length (bs_conns s)"
    and "is_final \<longleftrightarrow> (\<forall>i p. frame \<noteq> ProgressFrame i p)"
  shows "fine s outs s'"
proof (cases "outs = [Send c frame]")
  case True
  then have o: "\<not> cn_ended (conn s c)" "s' = (if is_final then put_conn c ((conn s c)\<lparr>cn_ended := True\<rparr>) s else s)"
    using assms(1) by (auto simp: write_frame_def destroy_def split: option.splits if_splits)
  have inv: "broker_inv (put_conn c ((conn s c)\<lparr>cn_ended := True\<rparr>) s)"
    by (rule put_inv [OF assms(2,3)]) simp_all
  have "results outs d + ended_bit s d = ended_bit s' d" "invocations outs d + handled_bit s d = handled_bit s' d" for d
    using True o assms(3,4) by (cases frame; auto simp: ended_bit_def handled_bit_def nth_list_update)+
  with inv o assms(2) show ?thesis by (auto simp: fine_def adds_def)
next
  case False
  with assms(1) have "destroy c s = (outs, s') \<or> outs = [] \<and> s' = s"
    by (auto simp: write_frame_def split: option.splits if_splits)
  with destroy_fine [OF _ assms(2,3)] assms(2) show ?thesis by (auto simp: fine_def)
qed

lemma quiet_fine:
  assumes "broker_inv s" and "c < length (bs_conns s)" and "cn_running x = cn_running (conn s c)"
    and "cn_ended x = cn_ended (conn s c)" and "cn_handled (conn s c) \<longrightarrow> cn_handled x"
  shows "fine s [] (put_conn c x s)"
  using put_quiet [OF assms(2,4,5)] put_inv [OF assms(1,2,3,5)] by (simp add: fine_def)

text \<open>The first request of a connection.\<close>

lemma handle_value_fine:
  assumes "handle_value env c v s = (outs, s')" and inv: "broker_inv s" and c: "c < length (bs_conns s)"
    and fresh: "\<not> cn_handled (conn s c)"
  shows "fine s outs s'"
proof -
  define s1 where "s1 = put_conn c ((conn s c)\<lparr>cn_handled := True\<rparr>) s"
  have 1: "fine s [] s1" unfolding s1_def by (rule quiet_fine [OF inv c]) simp_all
  then have inv1: "broker_inv s1" and c1: "c < length (bs_conns s1)" using c by (auto simp: fine_def)
  have wf: "write_frame env c (ResultError i r) True s1 = (outs, s') \<Longrightarrow> fine s outs s'" for i r
    using fine_trans [OF 1 write_frame_fine [OF _ inv1 c1, where is_final = True]] by auto
  have idle: "cn_running (conn s c) = None" using inv fresh c nth_mem by (force simp: broker_inv_def)
  have run: "fine s [Invoke c r] s'" if a: "bs_active s < bs_maxConcurrent s"
    and r: "s' = (put_conn c ((conn s1 c)\<lparr>cn_running := Some r\<rparr>) s1)\<lparr>bs_active := bs_active s1 + 1\<rparr>" for r
  proof -
    define y where "y = (conn s c)\<lparr>cn_handled := True, cn_running := Some r\<rparr>"
    have conns: "bs_conns s' = (bs_conns s)[c := y]" using r c by (simp add: s1_def y_def)
    have "{i. i < length (bs_conns s) \<and> cn_running ((bs_conns s)[c := y] ! i) \<noteq> None} =
        insert c {i. i < length (bs_conns s) \<and> cn_running (bs_conns s ! i) \<noteq> None}"
      using c by (auto simp: nth_list_update y_def)
    then have "length (running_conns s') = Suc (length (running_conns s))"
      using idle conns by (simp add: running_conns_def length_filter_conv_card)
    moreover have "\<forall>x \<in> set (bs_conns s'). cn_running x \<noteq> None \<longrightarrow> cn_handled x"
      using inv set_update_subset_insert [of "bs_conns s" c y] unfolding broker_inv_def conns by (auto simp: y_def)
    ultimately have "broker_inv s'" using inv a r by (simp add: broker_inv_def s1_def)
    moreover have "invocations [Invoke c r] d + handled_bit s d \<le> handled_bit s' d"
      "results [Invoke c r] d + ended_bit s d = ended_bit s' d" for d
      using fresh c by (auto simp: handled_bit_def ended_bit_def conns y_def nth_list_update)
    moreover have "bs_maxConcurrent s' = bs_maxConcurrent s" using r by (simp add: s1_def)
    ultimately show ?thesis by (simp add: fine_def adds_def conns)
  qed
  show ?thesis
  proof (cases "parseRequest v")
    case None
    with assms(1) wf show ?thesis by (simp add: handle_value_def s1_def)
  next
    case (Some r)
    with assms(1) have e: "execute env c r s1 = (outs, s')" by (simp add: handle_value_def s1_def)
    have a: "bs_active s1 = bs_active s" "bs_maxConcurrent s1 = bs_maxConcurrent s" by (simp_all add: s1_def)
    show ?thesis
      using e wf run [of r] a unfolding execute_def Let_def by (auto split: if_splits)
  qed
qed

lemma data_fine:
  assumes "socket_data_arrives env c chunk s = (outs, s')" and inv: "broker_inv s"
  shows "fine s outs s'"
proof (cases "c < length (bs_conns s) \<and> cn_open (conn s c)")
  case True
  then have c: "c < length (bs_conns s)" by simp
  show ?thesis
  proof (cases "cn_handled (conn s c)")
    case handled: True
    with assms True destroy_fine [OF _ inv c] show ?thesis by (simp add: socket_data_arrives_def)
  next
    case False
    obtain res d where push: "decoder_push (bv_decode env) (cn_decoder (conn s c)) chunk = (res, d)" by fastforce
    define s1 where "s1 = put_conn c ((conn s c)\<lparr>cn_decoder := d\<rparr>) s"
    have 1: "fine s [] s1" unfolding s1_def by (rule quiet_fine [OF inv c]) simp_all
    then have inv1: "broker_inv s1" and c1: "c < length (bs_conns s1)" using c by (auto simp: fine_def)
    have fresh1: "\<not> cn_handled (conn s1 c)" using False c by (simp add: s1_def)
    have d1: "destroy c s1 = (outs, s') \<Longrightarrow> fine s outs s'" using fine_trans [OF 1 destroy_fine [OF _ inv1 c1]] by simp
    have h1: "handle_value env c v s1 = (outs, s') \<Longrightarrow> fine s outs s'" for v
      using fine_trans [OF 1 handle_value_fine [OF _ inv1 c1 fresh1]] by simp
    from assms(1) True False push d1 h1 1 show ?thesis
      by (cases res) (auto simp: socket_data_arrives_def s1_def [symmetric] Let_def split: if_splits option.splits)
  qed
qed (use assms in \<open>auto simp: socket_data_arrives_def fine_def\<close>)

lemma handler_returns_fine:
  assumes "handler_returns env c value s = (outs, s')" and inv: "broker_inv s"
  shows "fine s outs s'"
proof (cases "c < length (bs_conns s) \<and> cn_running (conn s c) \<noteq> None")
  case True
  then obtain r where c: "c < length (bs_conns s)" and r: "cn_running (conn s c) = Some r" by auto
  define s1 where "s1 = (put_conn c ((conn s c)\<lparr>cn_running := None\<rparr>) s)\<lparr>bs_active := bs_active s - 1\<rparr>"
  define y where "y = (conn s c)\<lparr>cn_running := None\<rparr>"
  have conns: "bs_conns s1 = (bs_conns s)[c := y]" by (simp add: s1_def y_def)
  have "{i. i < length (bs_conns s) \<and> cn_running (bs_conns s ! i) \<noteq> None} =
      insert c {i. i < length (bs_conns s) \<and> cn_running ((bs_conns s)[c := y] ! i) \<noteq> None}"
    using c r by (auto simp: nth_list_update y_def)
  then have "length (running_conns s) = Suc (length (running_conns s1))"
    using c by (simp add: running_conns_def length_filter_conv_card conns y_def)
  moreover have "\<forall>x \<in> set (bs_conns s1). cn_running x \<noteq> None \<longrightarrow> cn_handled x"
    using inv set_update_subset_insert [of "bs_conns s" c y] unfolding broker_inv_def conns by (auto simp: y_def)
  moreover have "bs_active s1 = bs_active s - 1" "bs_maxConcurrent s1 = bs_maxConcurrent s" by (simp_all add: s1_def)
  ultimately have inv1: "broker_inv s1" using inv unfolding broker_inv_def by simp
  have "adds s [] s1" using c by (auto simp: adds_def handled_bit_def ended_bit_def s1_def nth_list_update)
  then have 1: "fine s [] s1" using inv1 by (simp add: fine_def conns)
  have c1: "c < length (bs_conns s1)" using c by (simp add: conns)
  from assms(1) c r have "write_frame env c (case value of None \<Rightarrow> ResultError (wr_id r) OperationFailed
      | Some v \<Rightarrow> if cn_aborted (conn s c) then ResultError (wr_id r) RequestAborted else ResultOk (wr_id r) v) True s1 = (outs, s')"
    by (simp add: handler_returns_def s1_def)
  from fine_trans [OF 1 write_frame_fine [OF this inv1 c1]] show ?thesis by (simp split: option.split)
next
  case False
  then have "outs = [] \<and> s' = s"
    using assms(1) by (cases "cn_running (conn s c)") (auto simp: handler_returns_def split: if_splits)
  with inv show ?thesis by (simp add: fine_def)
qed

lemma broker_step_fine:
  assumes "broker_step env e s = (outs, s')" and inv: "broker_inv s"
  shows "fine s outs s'"
proof (cases e)
  case Accept
  then have "outs = []" "s' = accept s" using assms by simp_all
  moreover have "fine s [] (accept s)"
  proof (cases "bs_disposed s")
    case False
    then show ?thesis using inv
      by (simp add: accept_def fine_def adds_def handled_bit_def ended_bit_def broker_inv_def running_conns_def nth_append)
  qed (use inv in \<open>simp add: accept_def fine_def\<close>)
  ultimately show ?thesis by simp
next
  case (Data c chunk)
  with assms data_fine show ?thesis by simp
next
  case (HandlerReturns c v)
  with assms handler_returns_fine show ?thesis by simp
next
  case (HandlerProgress c i v)
  with assms write_frame_fine [of env c "ProgressFrame i v" False s] show ?thesis
    by (auto simp: handler_progress_def fine_def split: if_splits)
next
  case (RequestTimeout c)
  with assms quiet_fine [OF inv, of c] show ?thesis by (auto simp: abort_controller_def fine_def split: if_splits)
next
  case (SocketCloses c)
  with assms quiet_fine [OF inv, of c] show ?thesis by (auto simp: socket_closes_def fine_def split: if_splits)
next
  case (SocketTimeout c)
  with assms destroy_fine [OF _ inv, of c] show ?thesis by (auto simp: socket_timeout_def fine_def split: if_splits)
next
  case DisposeBroker
  have "invocations (map DestroySocket cs) c = 0" "results (map DestroySocket cs) c = 0" for cs c
    by (induction cs) simp_all
  moreover have "length (filter (\<lambda>x. cn_running x \<noteq> None) (map (\<lambda>x. x\<lparr>cn_open := False, cn_aborted := True\<rparr>) xs)) =
      length (filter (\<lambda>x. cn_running x \<noteq> None) xs)" for xs :: "connection list"
    by (induction xs) auto
  moreover define s1 where "s1 = s\<lparr>bs_disposed := True, bs_conns := map (\<lambda>x. x\<lparr>cn_open := False, cn_aborted := True\<rparr>) (bs_conns s)\<rparr>"
  have "handled_bit s1 c = handled_bit s c" "ended_bit s1 c = ended_bit s c" for c
    by (auto simp: s1_def handled_bit_def ended_bit_def)
  moreover have "s' = s \<and> outs = [] \<or> s' = s1 \<and> outs = map DestroySocket (filter (\<lambda>c. cn_open (conn s c)) [0..<length (bs_conns s)])"
    using DisposeBroker assms(1) by (auto simp: dispose_broker_def s1_def split: if_splits)
  moreover have "bs_maxConcurrent s1 = bs_maxConcurrent s" "length (bs_conns s1) = length (bs_conns s)" "bs_active s1 = bs_active s"
    by (simp_all add: s1_def)
  moreover have "\<forall>x \<in> set (bs_conns s1). cn_running x \<noteq> None \<longrightarrow> cn_handled x"
    using inv by (auto simp: s1_def broker_inv_def)
  moreover have "length (running_conns s1) = length (running_conns s)" using calculation(3) by (simp add: running_conns_def s1_def)
  ultimately show ?thesis using inv by (auto simp: fine_def adds_def broker_inv_def)
qed


lemma broker_run_fine:
  assumes "broker_run env es s = (outs, s')" and "broker_inv s"
  shows "fine s outs s'"
  using assms
proof (induction es arbitrary: s outs)
  case (Cons e es)
  obtain o1 s1 where step: "broker_step env e s = (o1, s1)" by fastforce
  obtain o2 where rest: "broker_run env es s1 = (o2, s')" and outs: "outs = o1 @ o2"
    using Cons.prems(1) step by (auto split: prod.splits)
  have 1: "fine s o1 s1" by (rule broker_step_fine [OF step Cons.prems(2)])
  then have "fine s1 o2 s'" using Cons.IH [OF rest] by (simp add: fine_def)
  with 1 show ?case unfolding outs by (rule fine_trans)
qed (simp add: fine_def)

lemma new_broker_inv:
  assumes "new_broker_server f m = Some s"
  shows "broker_inv s" and "bs_conns s = []"
  using assms by (auto simp: new_broker_server_def broker_inv_def running_conns_def split: option.splits)

text \<open>
  C31. A broker runs at most the configured number of handlers, counts exactly those that run, and on one connection
  starts at most one handler and sends at most one result, whatever arrives on the socket and in whatever order handlers
  return, connections close and timers fire.
\<close>

theorem broker_answers_once:
  assumes "new_broker_server maxFrameBytes maxConcurrent = Some s0" and "broker_run env es s0 = (outs, s)"
  shows "bs_active s = length (running_conns s) \<and> bs_active s \<le> bs_maxConcurrent s0 \<and>
    (\<forall>c. invocations outs c \<le> 1 \<and> results outs c \<le> 1)"
proof -
  have "fine s0 outs s" by (rule broker_run_fine [OF assms(2) new_broker_inv(1) [OF assms(1)]])
  then have inv: "broker_inv s" and max: "bs_maxConcurrent s = bs_maxConcurrent s0"
    and a: "\<And>c. invocations outs c + handled_bit s0 c \<le> handled_bit s c" "\<And>c. results outs c + ended_bit s0 c = ended_bit s c"
    by (simp_all add: fine_def adds_def)
  have "invocations outs c \<le> 1 \<and> results outs c \<le> 1" for c
    using a [of c] by (auto simp: handled_bit_def ended_bit_def split: if_splits)
  with inv max show ?thesis by (simp add: broker_inv_def)
qed

section \<open>Only authenticated requests run\<close>

definition authenticated :: "broker_env \<Rightarrow> wire_request \<Rightarrow> bool" where
  "authenticated env r \<longleftrightarrow>
     (case bv_resolveCapability env (br_sessionId (wr_request r)) (br_generation (wr_request r)) of
        None \<Rightarrow> False
      | Some expected \<Rightarrow> expected \<noteq> [] \<and> utf8_encode expected = utf8_encode (wr_capability r)) \<and>
     0 \<le> br_generation (wr_request r) \<and> operation_pattern (br_operation (wr_request r)) \<and>
     wr_id r \<noteq> [] \<and> br_sessionId (wr_request r) \<noteq> [] \<and> nul \<notin> set (br_sessionId (wr_request r))"

definition authentic_effect :: "broker_env \<Rightarrow> broker_effect \<Rightarrow> bool" where
  "authentic_effect env e \<longleftrightarrow> (case e of Invoke _ r \<Rightarrow> authenticated env r | _ \<Rightarrow> True)"

lemma parsed_request_formed:
  assumes "parseRequest v = Some r"
  shows "0 \<le> br_generation (wr_request r)" and "operation_pattern (br_operation (wr_request r))"
    and "wr_id r \<noteq> []" and "br_sessionId (wr_request r) \<noteq> []" and "nul \<notin> set (br_sessionId (wr_request r))"
  using assms by (auto simp: parseRequest_def nonEmptyText_def js_includes_def split: if_splits)

lemma write_frame_authentic:
  "write_frame env c frame final_frame s = (outs, s') \<Longrightarrow> list_all (authentic_effect env) outs"
  by (auto simp: write_frame_def destroy_def authentic_effect_def split: option.splits if_splits)

lemma handle_value_authentic:
  assumes "handle_value env c v s = (outs, s')"
  shows "list_all (authentic_effect env) outs"
proof (cases "parseRequest v")
  case None
  with assms write_frame_authentic show ?thesis by (auto simp: handle_value_def Let_def)
next
  case (Some r)
  note formed = parsed_request_formed [OF Some]
  from assms Some write_frame_authentic formed show ?thesis
    by (auto simp: handle_value_def execute_def Let_def authentic_effect_def authenticated_def equalPiBrokerCapability_def
        split: if_splits option.splits)
qed

lemma broker_step_authentic:
  assumes "broker_step env e s = (outs, s')"
  shows "list_all (authentic_effect env) outs"
proof -
  have d: "list_all (authentic_effect env) (fst (destroy c x))" for c x by (simp add: destroy_def authentic_effect_def)
  have w: "list_all (authentic_effect env) (fst (write_frame env c f b x))" for c f b x
    using write_frame_authentic by (metis prod.collapse)
  have h: "list_all (authentic_effect env) (fst (handle_value env c v x))" for c v x
    using handle_value_authentic by (metis prod.collapse)
  have m: "list_all (authentic_effect env) (map DestroySocket cs)" for cs
    by (simp add: list_all_iff authentic_effect_def)
  have "list_all (authentic_effect env) (fst (broker_step env e s))"
    by (cases e)
      (simp_all add: socket_data_arrives_def handler_returns_def handler_progress_def socket_timeout_def dispose_broker_def
        Let_def d w h m split: option.split prod.split sum.split)
  with assms show ?thesis by simp
qed

text \<open>
  C12. A handler only runs for a request whose session and generation have a live capability with the bytes the request
  presents, with an identifier, a session without NUL, a non-negative generation and an operation of the allowed
  characters.
\<close>

theorem broker_runs_authenticated_requests:
  assumes "broker_run env es s = (outs, s')" and "Invoke c r \<in> set outs"
  shows "authenticated env r"
proof -
  have "list_all (authentic_effect env) outs" using assms(1)
  proof (induction es arbitrary: s outs)
    case (Cons e es)
    obtain o1 s1 where step: "broker_step env e s = (o1, s1)" by fastforce
    with Cons.prems obtain o2 where "broker_run env es s1 = (o2, s')" and "outs = o1 @ o2" by (auto split: prod.splits)
    with Cons.IH broker_step_authentic [OF step] show ?case by simp
  qed simp
  with assms(2) have "authentic_effect env (Invoke c r)" by (simp add: list_all_iff)
  then show ?thesis by (simp add: authentic_effect_def)
qed

definition sample_request :: wire_request where
  "sample_request = \<lparr>wr_id = ''1'', wr_capability = ''k'',
     wr_request = \<lparr>br_sessionId = ''s'', br_generation = 2, br_operation = ''native.read'', br_payload = JUndefined\<rparr>\<rparr>"

definition sample_env :: broker_env where
  "sample_env = \<lparr>bv_decode = (\<lambda>_. Some ''frame''),
     bv_parse = (\<lambda>_. Some (JObject [(''type'', JString ''pi_broker_request''), (''version'', JNumber (JInt 1)), (''id'', JString ''1''),
       (''sessionId'', JString ''s''), (''generation'', JNumber (JInt 2)), (''capability'', JString ''k''), (''operation'', JString ''native.read'')])),
     bv_resolveCapability = (\<lambda>sid g. if sid = ''s'' \<and> g = 2 then Some ''k'' else None), bv_frameBytes = (\<lambda>_. Some 10)\<rparr>"

definition sample_server :: broker_server where
  "sample_server = \<lparr>bs_maxFrameBytes = 64, bs_maxConcurrent = 1, bs_conns = [], bs_active = 0, bs_disposed = False\<rparr>"

lemma sample_run:
  "fst (broker_run sample_env [Accept, Accept, Data 0 [1, 10], Data 1 [1, 10], HandlerReturns 0 (Some JNull), SocketTimeout 1]
     sample_server) = [Invoke 0 sample_request, Send 1 (ResultError ''1'' BrokerBusy), Send 0 (ResultOk ''1'' JNull), DestroySocket 1]"
  by code_simp

theorem broker_answers_once_witness:
  "\<exists>outs s. broker_run sample_env [Accept, Accept, Data 0 [1, 10], Data 1 [1, 10], HandlerReturns 0 (Some JNull), SocketTimeout 1]
     sample_server = (outs, s) \<and> invocations outs 0 = 1 \<and> results outs 1 = 1 \<and> bs_active s \<le> 1 \<and> results outs 0 \<le> 1"
proof -
  obtain outs s where run: "broker_run sample_env [Accept, Accept, Data 0 [1, 10], Data 1 [1, 10], HandlerReturns 0 (Some JNull),
      SocketTimeout 1] sample_server = (outs, s)" by fastforce
  have new: "new_broker_server (JNumber (JInt 64)) (JNumber (JInt 1)) = Some sample_server" by code_simp
  have "outs = [Invoke 0 sample_request, Send 1 (ResultError ''1'' BrokerBusy), Send 0 (ResultOk ''1'' JNull), DestroySocket 1]"
    using sample_run run by simp
  with broker_answers_once [OF new run] run show ?thesis by (simp add: sample_server_def)
qed

theorem broker_runs_authenticated_requests_witness:
  "authenticated sample_env sample_request"
  using broker_runs_authenticated_requests [where env = sample_env and c = 0 and r = sample_request] sample_run
  by (metis list.set_intros(1) prod.collapse)

end
