(* ===== verification/Managed_Mcp.thy ===== *)
theory Managed_Mcp
  imports Rpc_Transport Posix_Paths "HOL-Library.Sublist"
begin

text \<open>
  The manager of MCP servers (web/server/managed-mcp.ts): validation of server configurations, redaction of
  credentials, and the connection of each server as a state machine of attempts, closings and tool calls.

  An attempt to connect is named by the epoch it was started with; the client it creates has the same name. The
  MCP SDK, \<open>URL\<close> and the two authorisation callbacks are outside: their answers are events, the parsed URL is a
  parameter.
\<close>

section \<open>Configurations\<close>

definition validName :: "string \<Rightarrow> bool" where
  "validName s \<longleftrightarrow> s \<noteq> [] \<and> length s \<le> 128 \<and> list_all (\<lambda>c. is_alnum c \<or> c \<in> set ''_.-'') s"

definition validateName :: "json \<Rightarrow> bool" where
  "validateName v \<longleftrightarrow> isNonEmptyString v \<and> validName (str_of v)"

definition credential_words :: "string list" where
  "credential_words = concat (map (\<lambda>sep. [''api'' @ sep @ ''key'', ''access'' @ sep @ ''token'']) ['''', ''-'', ''_'']) @
     [''token'', ''secret'', ''password'', ''credential'', ''authorization'', ''auth'', ''cookie'']"

text \<open>A word at the start of \<open>s\<close> that ends at a character that is no letter or digit, or at the end.\<close>

definition word_here :: "string \<Rightarrow> string \<Rightarrow> bool" where
  "word_here w s \<longleftrightarrow> js_starts_with s w \<and> (case drop (length w) s of [] \<Rightarrow> True | c # _ \<Rightarrow> \<not> is_alnum c)"

fun word_inside :: "string \<Rightarrow> string \<Rightarrow> bool" where
  "word_inside w [] \<longleftrightarrow> False"
| "word_inside w (c # cs) \<longleftrightarrow> \<not> is_alnum c \<and> word_here w cs \<or> word_inside w cs"

definition credentialShapedName :: "string \<Rightarrow> bool" where
  "credentialShapedName value = (let s = js_lower value in list_ex (\<lambda>w. word_here w s \<or> word_inside w s) credential_words)"

definition header_char :: "char \<Rightarrow> bool" where
  "header_char c \<longleftrightarrow> is_alnum c \<or> c \<in> set ''!#$%&'' \<or> c = char_of (39 :: nat) \<or> c \<in> set ''*+.^_`|~-''"

definition header_name :: "string \<Rightarrow> bool" where
  "header_name s \<longleftrightarrow> s \<noteq> [] \<and> list_all header_char s"

definition header_value :: "string \<Rightarrow> bool" where
  "header_value s \<longleftrightarrow> list_all (\<lambda>c. c \<noteq> CR \<and> c \<noteq> LF \<and> c \<noteq> nul) s"

definition validateHeaders :: "json \<Rightarrow> bool" where
  "validateHeaders headers \<longleftrightarrow> headers = JUndefined \<or>
     is_record headers \<and>
     list_all (\<lambda>(name, v). header_name name \<and> \<not> credentialShapedName name \<and> is_js_string v \<and> header_value (str_of v))
       (obj_members headers)"

text \<open>\<open>value.replace(/^--?/u, "")\<close>\<close>

definition strip_dashes :: "string \<Rightarrow> string" where
  "strip_dashes s = (if js_starts_with s ''--'' then drop 2 s else if js_starts_with s ''-'' then drop 1 s else s)"

definition bearer_value :: "string \<Rightarrow> bool" where
  "bearer_value s \<longleftrightarrow>
     list_ex (\<lambda>w. js_starts_with (js_lower s) w \<and> (case drop (length w) s of [] \<Rightarrow> False | c # _ \<Rightarrow> js_space c)) [''bearer'', ''basic'']"

definition key_value :: "string \<Rightarrow> bool" where
  "key_value s \<longleftrightarrow>
     list_ex (\<lambda>w. js_starts_with s w \<and>
       (case drop (length w) s of [] \<Rightarrow> False
        | c # rest \<Rightarrow> c \<in> set ''-_'' \<and> length rest \<ge> 8 \<and> list_all (\<lambda>d. is_alnum d \<or> d \<in> set ''._~-'') rest))
       [''sk'', ''key'', ''token'', ''secret'']"

definition argument_ok :: "json \<Rightarrow> bool" where
  "argument_ok v \<longleftrightarrow> is_js_string v \<and> \<not> js_includes (str_of v) nul \<and>
     \<not> credentialShapedName (strip_dashes (str_of v)) \<and> \<not> bearer_value (str_of v) \<and> \<not> key_value (str_of v)"

definition env_name :: "string \<Rightarrow> bool" where
  "env_name s \<longleftrightarrow>
     (case s of [] \<Rightarrow> False | c # cs \<Rightarrow> (is_upper c \<or> is_lower c \<or> c = CHR ''_'') \<and> list_all (\<lambda>d. is_alnum d \<or> d = CHR ''_'') cs)"

definition env_ok :: "json \<Rightarrow> bool" where
  "env_ok env \<longleftrightarrow> env = JUndefined \<or>
     is_record env \<and>
     list_all (\<lambda>(name, v). env_name name \<and> \<not> credentialShapedName name \<and> is_js_string v \<and> \<not> js_includes (str_of v) nul)
       (obj_members env)"

definition policies_ok :: "json \<Rightarrow> bool" where
  "policies_ok policies \<longleftrightarrow> policies = JUndefined \<or>
     is_record policies \<and>
     list_all (\<lambda>(tool, policy). validName tool \<and> (is_record policy \<or> is_js_array policy) \<and> is_js_boolean (member policy ''readOnly''))
       (obj_members policies)"

definition common_fields :: "string list" where
  "common_fields = [''name'', ''enabled'', ''transport'', ''toolPolicies'', ''connectTimeoutMs'', ''requestTimeoutMs'']"

definition stdio_ok :: "json \<Rightarrow> bool" where
  "stdio_ok config \<longleftrightarrow>
     hasOnlyKeys config (common_fields @ [''command'', ''args'', ''cwd'', ''env'']) \<and>
     isNonEmptyString (member config ''command'') \<and> is_absolute (str_of (member config ''command'')) \<and>
     (member config ''args'' = JUndefined \<or>
       is_js_array (member config ''args'') \<and> list_all argument_ok (elems_of (member config ''args''))) \<and>
     (member config ''cwd'' = JUndefined \<or>
       isNonEmptyString (member config ''cwd'') \<and> is_absolute (str_of (member config ''cwd''))) \<and>
     env_ok (member config ''env'')"

record url =
  url_protocol :: string
  url_credentials :: bool
  url_hash :: string
  url_search :: string
  url_hostname :: string

definition remote_ok :: "(json \<Rightarrow> url option) \<Rightarrow> json \<Rightarrow> bool" where
  "remote_ok parse_url config \<longleftrightarrow>
     hasOnlyKeys config (common_fields @ [''url'', ''headers'']) \<and>
     (case parse_url (member config ''url'') of
        None \<Rightarrow> False
      | Some u \<Rightarrow> url_protocol u = ''https:'' \<and> \<not> url_credentials u \<and> url_hash u = [] \<and> url_search u = [] \<and> url_hostname u \<noteq> []) \<and>
     validateHeaders (member config ''headers'')"

definition validateConfig :: "(json \<Rightarrow> url option) \<Rightarrow> json \<Rightarrow> bool" where
  "validateConfig parse_url config \<longleftrightarrow>
     is_record config \<and> is_js_boolean (member config ''enabled'') \<and>
     validateName (member config ''name'') \<and>
     positiveInteger_or (member config ''connectTimeoutMs'') 30000 \<noteq> None \<and>
     positiveInteger_or (member config ''requestTimeoutMs'') 60000 \<noteq> None \<and>
     policies_ok (member config ''toolPolicies'') \<and>
     (if member config ''transport'' = JString ''stdio'' then stdio_ok config
      else if member config ''transport'' = JString ''sse'' \<or> member config ''transport'' = JString ''streamable-http''
      then remote_ok parse_url config else False)"

definition parseManagedMcpServerConfig :: "(json \<Rightarrow> url option) \<Rightarrow> json \<Rightarrow> json option" where
  "parseManagedMcpServerConfig parse_url v = (if is_record v \<and> validateConfig parse_url v then Some v else None)"

section \<open>Redaction\<close>

text \<open>\<open>value.split(sep)\<close> for a separator that is not empty.\<close>

function split_at_text :: "string \<Rightarrow> string \<Rightarrow> string list" where
  "split_at_text sep [] = [[]]"
| "split_at_text sep (c # cs) =
     (if sep \<noteq> [] \<and> take (length sep) (c # cs) = sep then [] # split_at_text sep (drop (length sep - 1) cs)
      else (case split_at_text sep cs of [] \<Rightarrow> [[c]] | p # ps \<Rightarrow> (c # p) # ps))"
  by pat_completeness auto

termination by (relation "measure (\<lambda>(_, s). length s)") auto

definition redacted_mark :: string where
  "redacted_mark = ''[REDACTED]''"

definition redact_one :: "string \<Rightarrow> string \<Rightarrow> string" where
  "redact_one s sensitive = (if length sensitive > 0 then js_join redacted_mark (split_at_text sensitive s) else s)"

definition redact_text :: "string list \<Rightarrow> string \<Rightarrow> string" where
  "redact_text sensitives s = foldl redact_one s sensitives"

text \<open>Two member names that are redacted to the same text are one member of the result.\<close>

fun set_members :: "(string \<times> json) list \<Rightarrow> (string \<times> json) list \<Rightarrow> (string \<times> json) list" where
  "set_members acc [] = acc"
| "set_members acc ((k, v) # ms) = set_members (om_set acc k v) ms"

fun redactSensitiveValues :: "string list \<Rightarrow> json \<Rightarrow> json" where
  "redactSensitiveValues ss (JString s) = JString (redact_text ss s)"
| "redactSensitiveValues ss (JArray xs) = JArray (map (redactSensitiveValues ss) xs)"
| "redactSensitiveValues ss (JObject ms) =
     JObject (set_members [] (map (\<lambda>(k, v). (redact_text ss k, redactSensitiveValues ss v)) ms))"
| "redactSensitiveValues ss v = v"

text \<open>All texts of a value: strings and member names.\<close>

fun texts :: "json \<Rightarrow> string set" where
  "texts (JString s) = {s}"
| "texts (JArray xs) = (\<Union>x \<in> set xs. texts x)"
| "texts (JObject ms) = (\<Union>(k, v) \<in> set ms. insert k (texts v))"
| "texts _ = {}"

lemma split_pieces_free:
  assumes "sep \<noteq> []" and "p \<in> set (split_at_text sep s)"
  shows "\<not> sublist sep p \<and> sublist p s"
  using assms
proof (induction sep s arbitrary: p rule: split_at_text.induct)
  case (2 sep c cs)
  show ?case
  proof (cases "take (length sep) (c # cs) = sep")
    case True
    have "sublist (drop (length sep - 1) cs) (c # cs)" by (meson sublist_drop sublist_Cons_right)
    with 2 True show ?thesis by (auto intro: sublist_order.order_trans)
  next
    case False
    obtain q qs where q: "split_at_text sep cs = q # qs"
      by (cases "split_at_text sep cs") (auto elim: split_at_text.elims split: list.splits if_splits)
    have pre: "prefix q cs" using q
    proof (induction sep cs arbitrary: q qs rule: split_at_text.induct)
      case (2 sep d ds)
      then show ?case by (auto split: list.splits if_splits)
    qed simp
    have IH: "\<And>x. x \<in> set (q # qs) \<Longrightarrow> \<not> sublist sep x \<and> sublist x cs" using 2 False q by auto
    have "\<not> prefix sep (c # q)"
    proof
      assume "prefix sep (c # q)"
      then have "prefix sep (c # cs)" using pre by (meson prefix_order.order_trans prefix_def Cons_prefix_Cons)
      with False show False by (auto simp: prefix_def)
    qed
    then have "\<not> sublist sep (c # q) \<and> sublist (c # q) (c # cs)"
      using IH [of q] pre by (auto simp: sublist_Cons_right)
    with IH 2(4) False q show ?thesis by (auto simp: sublist_Cons_right)
  qed
qed auto

lemma sublist_beside:
  assumes "c \<notin> set u" and "sublist u (a @ c # b)"
  shows "sublist u a \<or> sublist u b"
proof -
  have pre: "x = []" if "prefix x (c # b)" "set x \<subseteq> set u" for x
    using that assms(1) by (cases x) auto
  from assms(2) consider "sublist u a" | "sublist u (c # b)" | x y where "u = x @ y" "suffix x a" "prefix y (c # b)"
    by (auto simp: sublist_append)
  then show ?thesis
  proof cases
    case 2
    then have "prefix u (c # b) \<or> sublist u b" by (simp add: sublist_Cons_right)
    with pre [of u] show ?thesis by auto
  next
    case 3
    then have "y = []" using pre by auto
    with 3 show ?thesis by auto
  qed simp
qed

text \<open>A text that can be told from the mark: it has no bracket and is no part of the word between them.\<close>

definition apart_from_mark :: "string \<Rightarrow> bool" where
  "apart_from_mark u \<longleftrightarrow> CHR ''['' \<notin> set u \<and> CHR '']'' \<notin> set u \<and> \<not> sublist u ''REDACTED''"

lemma joined_pieces:
  assumes "apart_from_mark u" and "sublist u (js_join redacted_mark ps)" and "ps \<noteq> []"
  shows "\<exists>p \<in> set ps. sublist u p"
  using assms(2,3)
proof (induction redacted_mark ps rule: js_join.induct)
  case (3 p q ps)
  let ?rest = "js_join redacted_mark (q # ps)"
  have "p @ redacted_mark @ ?rest = p @ CHR ''['' # (''REDACTED'' @ CHR '']'' # ?rest)"
    by (simp add: redacted_mark_def)
  with 3(2) have "sublist u p \<or> sublist u (''REDACTED'' @ CHR '']'' # ?rest)"
    using sublist_beside [of "CHR ''[''" u p] assms(1) by (simp add: apart_from_mark_def)
  then have "sublist u p \<or> sublist u ?rest"
    using sublist_beside [of "CHR '']''" u "''REDACTED''" ?rest] assms(1) unfolding apart_from_mark_def by blast
  with 3(1) show ?case by auto
qed simp_all

lemma split_not_Nil: "split_at_text sep s \<noteq> []"
  by (induction sep s rule: split_at_text.induct) (auto split: list.splits)

lemma redact_one_free:
  assumes "apart_from_mark u" and "sublist u (redact_one s v)"
  shows "sublist u s \<and> (v \<noteq> [] \<longrightarrow> u \<noteq> v)"
proof (cases "v = []")
  case False
  with assms(2) have "sublist u (js_join redacted_mark (split_at_text v s))" by (simp add: redact_one_def)
  from joined_pieces [OF assms(1) this split_not_Nil] obtain p where "p \<in> set (split_at_text v s)" "sublist u p" by blast
  with split_pieces_free [OF False this(1)] show ?thesis by (auto intro: sublist_order.order_trans)
qed (use assms in \<open>simp add: redact_one_def\<close>)

lemma redact_text_free:
  assumes "apart_from_mark u" and "u \<noteq> []" and "sublist u (redact_text vs s)"
  shows "sublist u s \<and> u \<notin> set vs"
  using assms(3)
proof (induction vs arbitrary: s)
  case (Cons v vs)
  then have "sublist u (redact_one s v) \<and> u \<notin> set vs" by (simp add: redact_text_def)
  with redact_one_free [OF assms(1)] assms(2) show ?case by auto
qed (simp add: redact_text_def)

lemma texts_Cons: "texts (JObject ((k, v) # ms)) = insert k (texts v) \<union> texts (JObject ms)"
  by simp

lemma texts_member: "t \<in> texts (JObject ms) \<Longrightarrow> \<exists>k v. (k, v) \<in> set ms \<and> (t = k \<or> t \<in> texts v)"
  by auto

lemma set_texts: "texts (JObject (om_set acc k v)) \<subseteq> texts (JObject acc) \<union> insert k (texts v)"
proof (induction acc k v rule: om_set.induct)
  case (2 k' v' m k v)
  then show ?case unfolding om_set.simps by (cases "k' = k") (auto simp del: texts.simps simp: texts_Cons)
qed simp

lemma set_members_texts:
  "texts (JObject (set_members acc ms)) \<subseteq> texts (JObject acc) \<union> texts (JObject ms)"
proof (induction acc ms rule: set_members.induct)
  case (2 acc k v ms)
  then show ?case using set_texts [of acc k v] unfolding set_members.simps texts_Cons by blast
qed simp

lemma redacted_texts:
  "t \<in> texts (redactSensitiveValues vs v) \<Longrightarrow> \<exists>s \<in> texts v. t = redact_text vs s"
proof (induction vs v rule: redactSensitiveValues.induct)
  case (3 vs ms)
  let ?ms = "map (\<lambda>(k, v). (redact_text vs k, redactSensitiveValues vs v)) ms"
  have "texts (redactSensitiveValues vs (JObject ms)) \<subseteq> texts (JObject ?ms)"
    using set_members_texts [of "[]" ?ms] by simp
  with 3(2) have "t \<in> texts (JObject ?ms)" by blast
  then obtain k v where kv: "(k, v) \<in> set ms" and t: "t = redact_text vs k \<or> t \<in> texts (redactSensitiveValues vs v)"
    using texts_member [of t ?ms] by auto
  have in_ms: "x \<in> texts (JObject ms)" if "x = k \<or> x \<in> texts v" for x using kv that by auto
  from t show ?case
  proof
    assume "t \<in> texts (redactSensitiveValues vs v)"
    from 3(1) [OF kv refl this] in_ms show ?thesis by blast
  qed (use in_ms in blast)
qed (simp_all, blast)



end
