(* ===== verification/Mcp_Connections.thy ===== *)
theory Mcp_Connections
  imports Managed_Mcp
begin

text \<open>
  The connections of the MCP manager (class ManagedMcpManager of web/server/managed-mcp.ts).

  Every server has an epoch. \<open>connectRuntime\<close> starts an attempt under a new epoch, \<open>closeRuntime\<close> makes the
  running attempt stale by advancing it. What is awaited (the creation of a transport, the handshake with the list of
  tools, the end of a close) returns as an event. A client has the name of the attempt that made it.
\<close>

section \<open>State\<close>

datatype mcp_status = McpConnected | McpFailed | McpDisabled | McpConnecting

datatype mcp_error = ServerNotFound | ServerDisabled | ServerNotConnected | ToolNotFound | ToolDenied | InvalidTimeout

record mcp_tool =
  mt_name :: string
  mt_readOnly :: bool

datatype attempt_phase = Creating | Handshake | Closing

datatype closer = AfterDisable | AfterReconnect | AfterDispose

record mcp_runtime =
  rt_policies :: "(string \<times> bool) list"
  rt_requestTimeoutMs :: json
  rt_enabled :: bool
  rt_status :: mcp_status
  rt_client :: "nat option"
  rt_tools :: "mcp_tool list"
  rt_error :: bool
  rt_connecting :: "nat option"
  rt_epoch :: nat
  rt_attempts :: "(nat, attempt_phase) omap"
  rt_closers :: "closer list"
  rt_sensitiveValues :: "string list"

record mcp_manager =
  mm_runtimes :: "(string, mcp_runtime) omap"
  mm_disposed :: bool

datatype mcp_effect =
    OpenTransport string nat
  | ToolsListed string nat "mcp_tool list"
  | CloseClient string nat
  | ToolCall string nat string bool

definition new_runtime :: "json \<Rightarrow> string list \<Rightarrow> mcp_runtime" where
  "new_runtime config sensitives =
     \<lparr>rt_policies = map (\<lambda>(tool, policy). (tool, member policy ''readOnly'' = JBool True)) (obj_members (member config ''toolPolicies'')),
      rt_requestTimeoutMs = member config ''requestTimeoutMs'', rt_enabled = (member config ''enabled'' = JBool True),
      rt_status = (if member config ''enabled'' = JBool True then McpConnecting else McpDisabled), rt_client = None, rt_tools = [],
      rt_error = False, rt_connecting = None, rt_epoch = 0, rt_attempts = [], rt_closers = [], rt_sensitiveValues = sensitives\<rparr>"

text \<open>
  The constructor. A credential is attached to a configuration object outside of its fields; an object whose
  credential was taken by an earlier manager is refused. Objects are named by numbers.
\<close>

record credential_store =
  cs_material :: "(nat, (string \<times> string) list \<times> string list) omap"
  cs_marked :: "nat list"
  cs_consumed :: "nat list"

definition markManagedMcpCredential :: "nat \<Rightarrow> string \<Rightarrow> string \<Rightarrow> string \<Rightarrow> credential_store \<Rightarrow> credential_store option" where
  "markManagedMcpCredential config header headerValue secretValue cs =
     (if \<not> header_name header \<or> headerValue = [] \<or> secretValue = [] \<or> \<not> header_value headerValue \<or> \<not> header_value secretValue
      then None
      else Some (cs\<lparr>cs_material := om_set (cs_material cs) config ([(header, headerValue)], [secretValue, headerValue]),
        cs_marked := config # cs_marked cs\<rparr>))"

fun add_servers :: "(json \<Rightarrow> url option) \<Rightarrow> (nat \<times> json) list \<Rightarrow> credential_store \<Rightarrow> (string, mcp_runtime) omap \<Rightarrow>
    (string, mcp_runtime) omap option \<times> credential_store" where
  "add_servers parse_url [] cs runtimes = (Some runtimes, cs)"
| "add_servers parse_url ((object, source) # sources) cs runtimes =
     (let name = str_of (member source ''name'') in
      if \<not> validateConfig parse_url source then (None, cs)
      else if om_has runtimes name then (None, cs)
      else if object \<in> set (cs_consumed cs) then (None, cs)
      else
        (let sensitives = (case om_get (cs_material cs) object of None \<Rightarrow> [] | Some (_, values) \<Rightarrow> values);
             cs1 = cs\<lparr>cs_consumed := (if object \<in> set (cs_marked cs) then object # cs_consumed cs else cs_consumed cs),
               cs_material := om_delete (cs_material cs) object\<rparr>
         in add_servers parse_url sources cs1 (om_set runtimes name (new_runtime source sensitives))))"

definition new_mcp_manager :: "(json \<Rightarrow> url option) \<Rightarrow> (nat \<times> json) list \<Rightarrow> credential_store \<Rightarrow>
    mcp_manager option \<times> credential_store" where
  "new_mcp_manager parse_url servers cs =
     (case add_servers parse_url servers cs [] of
        (None, cs') \<Rightarrow> (None, cs')
      | (Some runtimes, cs') \<Rightarrow> (Some \<lparr>mm_runtimes = runtimes, mm_disposed = False\<rparr>, cs'))"

section \<open>Connecting\<close>

definition connectRuntime :: "string \<Rightarrow> mcp_runtime \<Rightarrow> mcp_effect list \<times> mcp_runtime" where
  "connectRuntime n r =
     (if rt_connecting r \<noteq> None then ([], r)
      else if \<not> rt_enabled r then ([], r\<lparr>rt_status := McpDisabled\<rparr>)
      else
        (let e = rt_epoch r + 1 in
         ([OpenTransport n e],
          r\<lparr>rt_status := McpConnecting, rt_error := False, rt_epoch := e, rt_connecting := Some e,
            rt_attempts := om_set (rt_attempts r) e Creating\<rparr>)))"

definition stale :: "bool \<Rightarrow> nat \<Rightarrow> mcp_runtime \<Rightarrow> bool" where
  "stale disposed e r \<longleftrightarrow> e \<noteq> rt_epoch r \<or> \<not> rt_enabled r \<or> disposed"

text \<open>The \<open>finally\<close> block of an attempt.\<close>

definition attempt_ends :: "nat \<Rightarrow> mcp_runtime \<Rightarrow> mcp_runtime" where
  "attempt_ends e r =
     r\<lparr>rt_attempts := om_delete (rt_attempts r) e, rt_connecting := (if e = rt_epoch r then None else rt_connecting r)\<rparr>"

definition attempt_closes :: "nat \<Rightarrow> mcp_runtime \<Rightarrow> mcp_runtime" where
  "attempt_closes e r = r\<lparr>rt_attempts := om_set (rt_attempts r) e Closing\<rparr>"

text \<open>The \<open>catch\<close> block: the client of an attempt exists from the handshake on.\<close>

definition attempt_fails :: "string \<Rightarrow> bool \<Rightarrow> nat \<Rightarrow> bool \<Rightarrow> mcp_runtime \<Rightarrow> mcp_effect list \<times> mcp_runtime" where
  "attempt_fails n disposed e has_client r =
     ((if has_client then [CloseClient n e] else []),
      (if stale disposed e r then attempt_closes e r
       else attempt_closes e (r\<lparr>rt_status := McpFailed, rt_error := True, rt_client := None\<rparr>)))"

definition transport_created :: "string \<Rightarrow> bool \<Rightarrow> nat \<Rightarrow> bool \<Rightarrow> mcp_runtime \<Rightarrow> mcp_effect list \<times> mcp_runtime" where
  "transport_created n disposed e ok r =
     (if om_get (rt_attempts r) e \<noteq> Some Creating then ([], r)
      else if \<not> ok then attempt_fails n disposed e False r
      else if stale disposed e r then ([CloseClient n e], attempt_closes e r)
      else ([], r\<lparr>rt_client := Some e, rt_attempts := om_set (rt_attempts r) e Handshake\<rparr>))"

definition tool_detail :: "mcp_runtime \<Rightarrow> json \<Rightarrow> mcp_tool" where
  "tool_detail r tool =
     (let name = str_of (member (redactSensitiveValues (rt_sensitiveValues r) tool) ''name'')
      in \<lparr>mt_name = name, mt_readOnly = (map_of (rt_policies r) name = Some True)\<rparr>)"

text \<open>The handshake returns the listed tools, or None when it rejects.\<close>

definition handshake_done :: "string \<Rightarrow> bool \<Rightarrow> nat \<Rightarrow> json list option \<Rightarrow> mcp_runtime \<Rightarrow> mcp_effect list \<times> mcp_runtime" where
  "handshake_done n disposed e listed r =
     (if om_get (rt_attempts r) e \<noteq> Some Handshake then ([], r)
      else
        (case listed of
           None \<Rightarrow> attempt_fails n disposed e True r
         | Some tools \<Rightarrow>
             if stale disposed e r then ([CloseClient n e], attempt_closes e r)
             else if \<not> list_all (\<lambda>t. validateName (member (redactSensitiveValues (rt_sensitiveValues r) t) ''name'')) tools
             then attempt_fails n disposed e True r
             else ([ToolsListed n e (map (tool_detail r) tools)],
               attempt_ends e (r\<lparr>rt_tools := map (tool_detail r) tools, rt_status := McpConnected\<rparr>))))"

definition close_done :: "nat \<Rightarrow> mcp_runtime \<Rightarrow> mcp_runtime" where
  "close_done e r = (if om_get (rt_attempts r) e \<noteq> Some Closing then r else attempt_ends e r)"

text \<open>\<open>onclose\<close> and \<open>onerror\<close> of the client of an attempt.\<close>

definition client_event :: "bool \<Rightarrow> nat \<Rightarrow> mcp_runtime \<Rightarrow> mcp_runtime" where
  "client_event disposed e r = (if stale disposed e r then r else r\<lparr>rt_status := McpFailed, rt_error := True\<rparr>)"

section \<open>Closing\<close>

definition closeRuntime :: "string \<Rightarrow> closer \<Rightarrow> mcp_runtime \<Rightarrow> mcp_effect list \<times> mcp_runtime" where
  "closeRuntime n k r =
     ((case rt_client r of None \<Rightarrow> [] | Some e \<Rightarrow> [CloseClient n e]),
      r\<lparr>rt_epoch := rt_epoch r + 1, rt_connecting := None, rt_client := None, rt_tools := [], rt_closers := rt_closers r @ [k]\<rparr>)"

text \<open>What follows the awaited close.\<close>

definition closer_returns :: "string \<Rightarrow> nat \<Rightarrow> mcp_runtime \<Rightarrow> mcp_effect list \<times> mcp_runtime" where
  "closer_returns n i r =
     (if i \<ge> length (rt_closers r) then ([], r)
      else
        (let r1 = r\<lparr>rt_closers := take i (rt_closers r) @ drop (i + 1) (rt_closers r)\<rparr> in
         case rt_closers r ! i of
           AfterDisable \<Rightarrow> ([], r1\<lparr>rt_status := McpDisabled, rt_error := False\<rparr>)
         | AfterReconnect \<Rightarrow> connectRuntime n r1
         | AfterDispose \<Rightarrow> ([], r1)))"

definition setEnabled :: "string \<Rightarrow> bool \<Rightarrow> mcp_runtime \<Rightarrow> mcp_effect list \<times> mcp_runtime" where
  "setEnabled n enabled r =
     (if rt_enabled r = enabled then (if enabled \<and> rt_status r \<noteq> McpConnected then connectRuntime n r else ([], r))
      else
        (let r1 = r\<lparr>rt_enabled := enabled\<rparr> in
         if \<not> enabled then closeRuntime n AfterDisable r1 else connectRuntime n r1))"

definition reconnect :: "string \<Rightarrow> mcp_runtime \<Rightarrow> (mcp_error + unit) \<times> mcp_effect list \<times> mcp_runtime" where
  "reconnect n r = (if \<not> rt_enabled r then (Inl ServerDisabled, [], r) else (Inr (), closeRuntime n AfterReconnect r))"

section \<open>The manager\<close>

definition on_runtime :: "string \<Rightarrow> (mcp_runtime \<Rightarrow> mcp_effect list \<times> mcp_runtime) \<Rightarrow> mcp_manager \<Rightarrow> mcp_effect list \<times> mcp_manager" where
  "on_runtime n f m =
     (case om_get (mm_runtimes m) n of
        None \<Rightarrow> ([], m)
      | Some r \<Rightarrow> let (outs, r') = f r in (outs, m\<lparr>mm_runtimes := om_set (mm_runtimes m) n r'\<rparr>))"

definition callTool :: "string \<Rightarrow> string \<Rightarrow> json \<Rightarrow> bool \<Rightarrow> mcp_manager \<Rightarrow> mcp_error + mcp_effect" where
  "callTool server tool timeoutMs readOnlyOnly m =
     (case om_get (mm_runtimes m) server of
        None \<Rightarrow> Inl ServerNotFound
      | Some r \<Rightarrow>
          if \<not> rt_enabled r then Inl ServerDisabled
          else
            (case rt_client r of
               None \<Rightarrow> Inl ServerNotConnected
             | Some e \<Rightarrow>
                 if rt_status r \<noteq> McpConnected then Inl ServerNotConnected
                 else
                   (case find (\<lambda>t. mt_name t = tool) (rt_tools r) of
                      None \<Rightarrow> Inl ToolNotFound
                    | Some t \<Rightarrow>
                        if readOnlyOnly \<and> \<not> mt_readOnly t then Inl ToolDenied
                        else if positiveInteger_or
                            (if timeoutMs = JUndefined \<or> timeoutMs = JNull then rt_requestTimeoutMs r else timeoutMs) 60000 = None
                        then Inl InvalidTimeout
                        else Inr (ToolCall server e tool readOnlyOnly))))"

fun on_each :: "(string \<Rightarrow> mcp_runtime \<Rightarrow> mcp_effect list \<times> mcp_runtime) \<Rightarrow> string list \<Rightarrow> mcp_manager \<Rightarrow>
    mcp_effect list \<times> mcp_manager" where
  "on_each f [] m = ([], m)"
| "on_each f (n # ns) m = (let (o1, m1) = on_runtime n (f n) m; (o2, m2) = on_each f ns m1 in (o1 @ o2, m2))"

definition start_servers :: "mcp_manager \<Rightarrow> mcp_effect list \<times> mcp_manager" where
  "start_servers m =
     on_each connectRuntime (map fst (filter (\<lambda>(_, r). rt_enabled r) (mm_runtimes m))) m"

definition dispose_servers :: "mcp_manager \<Rightarrow> mcp_effect list \<times> mcp_manager" where
  "dispose_servers m =
     (if mm_disposed m then ([], m)
      else on_each (\<lambda>n. closeRuntime n AfterDispose) (map fst (mm_runtimes m)) (m\<lparr>mm_disposed := True\<rparr>))"

text \<open>The end of \<open>dispose\<close>: the credentials are wiped.\<close>

definition dispose_wipes :: "mcp_manager \<Rightarrow> mcp_manager" where
  "dispose_wipes m =
     (if \<not> mm_disposed m \<or> list_ex (\<lambda>(_, r). AfterDispose \<in> set (rt_closers r)) (mm_runtimes m) then m
      else m\<lparr>mm_runtimes := map (\<lambda>(n, r). (n, r\<lparr>rt_sensitiveValues := []\<rparr>)) (mm_runtimes m)\<rparr>)"

datatype mcp_event =
    StartServers
  | SetEnabled string bool
  | Reconnect string
  | TransportCreated string nat bool
  | HandshakeDone string nat "json list option"
  | CloseDone string nat
  | ClientEvent string nat
  | CloserReturns string nat
  | CallTool string string json bool
  | DisposeServers
  | DisposeWipes

fun mcp_step :: "mcp_event \<Rightarrow> mcp_manager \<Rightarrow> mcp_effect list \<times> mcp_manager" where
  "mcp_step StartServers m = start_servers m"
| "mcp_step (SetEnabled n b) m = on_runtime n (setEnabled n b) m"
| "mcp_step (Reconnect n) m = on_runtime n (\<lambda>r. snd (reconnect n r)) m"
| "mcp_step (TransportCreated n e ok) m = on_runtime n (transport_created n (mm_disposed m) e ok) m"
| "mcp_step (HandshakeDone n e listed) m = on_runtime n (handshake_done n (mm_disposed m) e listed) m"
| "mcp_step (CloseDone n e) m = on_runtime n (\<lambda>r. ([], close_done e r)) m"
| "mcp_step (ClientEvent n e) m = on_runtime n (\<lambda>r. ([], client_event (mm_disposed m) e r)) m"
| "mcp_step (CloserReturns n i) m = on_runtime n (closer_returns n i) m"
| "mcp_step (CallTool server tool timeoutMs ro) m =
     (case callTool server tool timeoutMs ro m of Inl _ \<Rightarrow> ([], m) | Inr call \<Rightarrow> ([call], m))"
| "mcp_step DisposeServers m = dispose_servers m"
| "mcp_step DisposeWipes m = ([], dispose_wipes m)"

fun mcp_run :: "mcp_event list \<Rightarrow> mcp_manager \<Rightarrow> mcp_effect list \<times> mcp_manager" where
  "mcp_run [] m = ([], m)"
| "mcp_run (e # es) m = (let (o1, m1) = mcp_step e m; (o2, m2) = mcp_run es m1 in (o1 @ o2, m2))"

section \<open>Calls reach the current client\<close>

definition closed :: "mcp_effect list \<Rightarrow> string \<Rightarrow> nat set" where
  "closed outs n = {e. CloseClient n e \<in> set outs}"

definition listed :: "mcp_effect list \<Rightarrow> string \<Rightarrow> (nat \<times> mcp_tool list) set" where
  "listed outs n = {(e, ts). ToolsListed n e ts \<in> set outs}"

definition rt_ok :: "(string \<times> bool) list \<Rightarrow> nat set \<Rightarrow> (nat \<times> mcp_tool list) set \<Rightarrow> mcp_runtime \<Rightarrow> bool" where
  "rt_ok P C L r \<longleftrightarrow>
     rt_policies r = P \<and> (\<forall>e ph. om_get (rt_attempts r) e = Some ph \<longrightarrow> e \<le> rt_epoch r) \<and> (\<forall>e \<in> C. e \<le> rt_epoch r) \<and>
     (\<forall>e. rt_client r = Some e \<longrightarrow> e \<le> rt_epoch r) \<and>
     (rt_status r = McpConnected \<longrightarrow> om_get (rt_attempts r) (rt_epoch r) = None \<and>
       (rt_client r = None \<or> rt_client r = Some (rt_epoch r) \<and> (rt_epoch r, rt_tools r) \<in> L \<and> rt_epoch r \<notin> C)) \<and>
     (om_get (rt_attempts r) (rt_epoch r) = Some Creating \<longrightarrow> rt_epoch r \<notin> C) \<and>
     (om_get (rt_attempts r) (rt_epoch r) = Some Handshake \<longrightarrow> rt_epoch r \<notin> C \<and> rt_client r = Some (rt_epoch r)) \<and>
     (\<forall>t \<in> set (rt_tools r). mt_readOnly t \<longrightarrow> map_of P (mt_name t) = Some True)"

lemma rt_okD:
  assumes "rt_ok P C L r"
  shows "rt_policies r = P" and "\<And>e ph. om_get (rt_attempts r) e = Some ph \<Longrightarrow> e \<le> rt_epoch r" and "\<And>e. e \<in> C \<Longrightarrow> e \<le> rt_epoch r"
    and "\<And>e. rt_client r = Some e \<Longrightarrow> e \<le> rt_epoch r"
    and "rt_status r = McpConnected \<Longrightarrow> om_get (rt_attempts r) (rt_epoch r) = None"
    and "rt_status r = McpConnected \<Longrightarrow>
      rt_client r = None \<or> rt_client r = Some (rt_epoch r) \<and> (rt_epoch r, rt_tools r) \<in> L \<and> rt_epoch r \<notin> C"
    and "om_get (rt_attempts r) (rt_epoch r) = Some Creating \<Longrightarrow> rt_epoch r \<notin> C"
    and "om_get (rt_attempts r) (rt_epoch r) = Some Handshake \<Longrightarrow> rt_epoch r \<notin> C \<and> rt_client r = Some (rt_epoch r)"
    and "\<And>t. t \<in> set (rt_tools r) \<Longrightarrow> mt_readOnly t \<Longrightarrow> map_of P (mt_name t) = Some True"
  using assms by (simp_all add: rt_ok_def)

lemma rt_okI:
  assumes "rt_policies r = P" and "\<And>e ph. om_get (rt_attempts r) e = Some ph \<Longrightarrow> e \<le> rt_epoch r" and "\<And>e. e \<in> C \<Longrightarrow> e \<le> rt_epoch r"
    and "\<And>e. rt_client r = Some e \<Longrightarrow> e \<le> rt_epoch r"
    and "rt_status r = McpConnected \<Longrightarrow> om_get (rt_attempts r) (rt_epoch r) = None"
    and "rt_status r = McpConnected \<Longrightarrow>
      rt_client r = None \<or> rt_client r = Some (rt_epoch r) \<and> (rt_epoch r, rt_tools r) \<in> L \<and> rt_epoch r \<notin> C"
    and "om_get (rt_attempts r) (rt_epoch r) = Some Creating \<Longrightarrow> rt_epoch r \<notin> C"
    and "om_get (rt_attempts r) (rt_epoch r) = Some Handshake \<Longrightarrow> rt_epoch r \<notin> C \<and> rt_client r = Some (rt_epoch r)"
    and "\<And>t. t \<in> set (rt_tools r) \<Longrightarrow> mt_readOnly t \<Longrightarrow> map_of P (mt_name t) = Some True"
  shows "rt_ok P C L r"
  using assms unfolding rt_ok_def by blast

lemma closed_simps [simp]:
  "closed [] n = {}" "closed (CloseClient k e # es) n = (if k = n then insert e (closed es n) else closed es n)"
  "closed (OpenTransport k e # es) n = closed es n" "closed (ToolsListed k e ts # es) n = closed es n"
  "closed (ToolCall k e t b # es) n = closed es n" "closed (es @ fs) n = closed es n \<union> closed fs n"
  by (auto simp: closed_def)

lemma listed_simps [simp]:
  "listed [] n = {}" "listed (CloseClient k e # es) n = listed es n"
  "listed (OpenTransport k e # es) n = listed es n"
  "listed (ToolsListed k e ts # es) n = (if k = n then insert (e, ts) (listed es n) else listed es n)"
  "listed (ToolCall k e t b # es) n = listed es n" "listed (es @ fs) n = listed es n \<union> listed fs n"
  by (auto simp: listed_def)

fun names :: "string \<Rightarrow> mcp_effect \<Rightarrow> bool" where
  "names n (OpenTransport k _) = (k = n)"
| "names n (ToolsListed k _ _) = (k = n)"
| "names n (CloseClient k _) = (k = n)"
| "names n (ToolCall _ _ _ _) = False"

text \<open>An operation on the runtime of one server.\<close>

definition sound_op :: "string \<Rightarrow> (mcp_runtime \<Rightarrow> mcp_effect list \<times> mcp_runtime) \<Rightarrow> bool" where
  "sound_op n f \<longleftrightarrow> (\<forall>P C L r outs r'. rt_ok P C L r \<longrightarrow> f r = (outs, r') \<longrightarrow>
     rt_ok P (C \<union> closed outs n) (L \<union> listed outs n) r' \<and> list_all (names n) outs)"

lemma sound_opI:
  assumes "\<And>P C L r outs r'. rt_ok P C L r \<Longrightarrow> f r = (outs, r') \<Longrightarrow>
    rt_ok P (C \<union> closed outs n) (L \<union> listed outs n) r' \<and> list_all (names n) outs"
  shows "sound_op n f"
  using assms by (simp add: sound_op_def)

lemma sound_opD:
  assumes "sound_op n f" and "rt_ok P C L r" and "f r = (outs, r')"
  shows "rt_ok P (C \<union> closed outs n) (L \<union> listed outs n) r'" and "list_all (names n) outs"
  using assms by (auto simp: sound_op_def)

lemma connectRuntime_sound: "sound_op n (connectRuntime n)"
proof (rule sound_opI)
  fix P C L r outs r' assume ok: "rt_ok P C L r" and op: "connectRuntime n r = (outs, r')"
  note D = rt_okD [OF ok]
  have new: "rt_epoch r + 1 \<notin> C" using D(3) [of "rt_epoch r + 1"] by auto
  have "rt_ok P C L (r\<lparr>rt_status := McpDisabled\<rparr>)"
    by (rule rt_okI) (use D in simp_all)
  moreover have "rt_ok P C L (r\<lparr>rt_status := McpConnecting, rt_error := False, rt_epoch := rt_epoch r + 1,
      rt_connecting := Some (rt_epoch r + 1), rt_attempts := om_set (rt_attempts r) (rt_epoch r + 1) Creating\<rparr>)"
    by (rule rt_okI) (use D new in \<open>auto simp: le_SucI split: if_splits\<close>)
  ultimately show "rt_ok P (C \<union> closed outs n) (L \<union> listed outs n) r' \<and> list_all (names n) outs"
    using ok op by (auto simp: connectRuntime_def Let_def split: if_splits)
qed

lemma attempt_closes_ok:
  assumes "rt_ok P C L r" and "om_get (rt_attempts r) e \<noteq> None"
  shows "rt_ok P (insert e C) L (attempt_closes e r)" and "rt_ok P C L (attempt_closes e r)"
proof -
  note D = rt_okD [OF assms(1)]
  have le: "e \<le> rt_epoch r" using assms(2) D(2) by blast
  show "rt_ok P (insert e C) L (attempt_closes e r)"
    by (rule rt_okI) (use D le assms(2) in \<open>auto simp: attempt_closes_def split: if_splits\<close>)
  show "rt_ok P C L (attempt_closes e r)"
    by (rule rt_okI) (use D le assms(2) in \<open>auto simp: attempt_closes_def split: if_splits\<close>)
qed

lemma attempt_fails_ok:
  assumes ok: "rt_ok P C L r" and e: "om_get (rt_attempts r) e \<noteq> None" and op: "attempt_fails n d e has r = (outs, r')"
  shows "rt_ok P (C \<union> closed outs n) (L \<union> listed outs n) r' \<and> list_all (names n) outs"
proof -
  define r1 where "r1 = r\<lparr>rt_status := McpFailed, rt_error := True, rt_client := None\<rparr>"
  have le: "e \<le> rt_epoch r" using ok e by (auto simp: rt_ok_def)
  have "rt_ok P (insert e C) L (attempt_closes e r1)" "rt_ok P C L (attempt_closes e r1)" if "\<not> stale d e r"
  proof -
    have e: "e = rt_epoch r" using that by (simp add: stale_def)
    show "rt_ok P (insert e C) L (attempt_closes e r1)"
      by (rule rt_okI) (use rt_okD [OF ok] e in \<open>auto simp: r1_def attempt_closes_def split: if_splits\<close>)
    show "rt_ok P C L (attempt_closes e r1)"
      by (rule rt_okI) (use rt_okD [OF ok] e in \<open>auto simp: r1_def attempt_closes_def split: if_splits\<close>)
  qed
  with attempt_closes_ok [OF ok e] op show ?thesis
    by (auto simp: attempt_fails_def r1_def split: if_splits)
qed

lemma transport_created_sound: "sound_op n (transport_created n d e created)"
proof (rule sound_opI)
  fix P C L r outs r' assume ok: "rt_ok P C L r" and op: "transport_created n d e created r = (outs, r')"
  show "rt_ok P (C \<union> closed outs n) (L \<union> listed outs n) r' \<and> list_all (names n) outs"
  proof (cases "om_get (rt_attempts r) e = Some Creating")
    case True
    note f = attempt_fails_ok [OF ok, of e n d False] attempt_closes_ok [OF ok, of e]
    show ?thesis
    proof (cases "created \<and> \<not> stale d e r")
      case c: True
      with op True have "outs = []" "r' = r\<lparr>rt_client := Some e, rt_attempts := om_set (rt_attempts r) e Handshake\<rparr>"
        by (simp_all add: transport_created_def)
      moreover have "rt_ok P C L (r\<lparr>rt_client := Some e, rt_attempts := om_set (rt_attempts r) e Handshake\<rparr>)"
        by (rule rt_okI) (use c True rt_okD [OF ok] in \<open>auto simp: stale_def split: if_splits\<close>)
      ultimately show ?thesis by simp
    next
      case False
      with op True f show ?thesis by (auto simp: transport_created_def split: if_splits)
    qed
  qed (use ok op in \<open>simp add: transport_created_def\<close>)
qed

lemma handshake_done_sound: "sound_op n (handshake_done n d e answer)"
proof (rule sound_opI)
  fix P C L r outs r' assume ok: "rt_ok P C L r" and op: "handshake_done n d e answer r = (outs, r')"
  show "rt_ok P (C \<union> closed outs n) (L \<union> listed outs n) r' \<and> list_all (names n) outs"
  proof (cases "om_get (rt_attempts r) e = Some Handshake")
    case True
    note f = attempt_fails_ok [OF ok, of e n d True] attempt_closes_ok [OF ok, of e]
    show ?thesis
    proof (cases "outs = [ToolsListed n e (map (tool_detail r) (the answer))] \<and> \<not> stale d e r \<and>
        r' = attempt_ends e (r\<lparr>rt_tools := map (tool_detail r) (the answer), rt_status := McpConnected\<rparr>)")
      case c: True
      then have e: "e = rt_epoch r" by (simp add: stale_def)
      have "mt_readOnly (tool_detail r x) \<Longrightarrow> map_of P (mt_name (tool_detail r x)) = Some True" for x
        using rt_okD(1) [OF ok] by (simp add: tool_detail_def Let_def)
      then have "rt_ok P C (insert (e, map (tool_detail r) (the answer)) L) r'"
        by (intro rt_okI) (use c e True rt_okD [OF ok] in \<open>auto simp: attempt_ends_def split: if_splits\<close>)
      with c show ?thesis by simp
    next
      case False
      with op True have "attempt_fails n d e True r = (outs, r') \<or> outs = [CloseClient n e] \<and> r' = attempt_closes e r"
        by (auto simp: handshake_done_def split: option.splits if_splits)
      with True f show ?thesis by auto
    qed
  qed (use ok op in \<open>simp add: handshake_done_def\<close>)
qed

lemma attempt_ends_ok: "rt_ok P C L r \<Longrightarrow> rt_ok P C L (attempt_ends e r)"
  by (rule rt_okI) (use rt_okD [of P C L r] in \<open>auto simp: attempt_ends_def split: if_splits\<close>)

lemma quiet_sound:
  "sound_op n (\<lambda>r. ([], close_done e r))" "sound_op n (\<lambda>r. ([], client_event d e r))"
proof -
  have "rt_ok P C L (r\<lparr>rt_status := McpFailed, rt_error := True\<rparr>)" if "rt_ok P C L r" for P C L r
    by (rule rt_okI) (use rt_okD [OF that] in simp_all)
  then show "sound_op n (\<lambda>r. ([], close_done e r))" "sound_op n (\<lambda>r. ([], client_event d e r))"
    using attempt_ends_ok by (auto simp: sound_op_def close_done_def client_event_def)
qed

lemma closeRuntime_sound: "sound_op n (closeRuntime n k)"
proof (rule sound_opI)
  fix P C L r outs r' assume ok: "rt_ok P C L r" and op: "closeRuntime n k r = (outs, r')"
  note D = rt_okD [OF ok]
  have new: "om_get (rt_attempts r) (Suc (rt_epoch r)) = None" using D(2) [of "Suc (rt_epoch r)"] by fastforce
  have "rt_ok P (C \<union> closed outs n) L r'"
    by (rule rt_okI) (use D new op in \<open>auto simp: closeRuntime_def le_SucI split: option.splits\<close>)
  with op show "rt_ok P (C \<union> closed outs n) (L \<union> listed outs n) r' \<and> list_all (names n) outs"
    by (auto simp: closeRuntime_def split: option.splits)
qed

lemma rt_ok_frame:
  "rt_ok P C L r \<Longrightarrow> rt_ok P C L (r\<lparr>rt_closers := ks\<rparr>)" "rt_ok P C L r \<Longrightarrow> rt_ok P C L (r\<lparr>rt_enabled := b\<rparr>)"
  "rt_ok P C L r \<Longrightarrow> s \<noteq> McpConnected \<Longrightarrow> rt_ok P C L (r\<lparr>rt_status := s, rt_error := b\<rparr>)"
  by (simp_all add: rt_ok_def)

lemma closer_returns_sound: "sound_op n (closer_returns n i)"
proof (rule sound_opI)
  fix P C L r outs r' assume ok: "rt_ok P C L r" and op: "closer_returns n i r = (outs, r')"
  define r1 where "r1 = r\<lparr>rt_closers := take i (rt_closers r) @ drop (Suc i) (rt_closers r)\<rparr>"
  have ok1: "rt_ok P C L r1" unfolding r1_def by (rule rt_ok_frame(1) [OF ok])
  from op ok ok1 sound_opD [OF connectRuntime_sound ok1] rt_ok_frame(3) [OF ok1, of McpDisabled False]
  show "rt_ok P (C \<union> closed outs n) (L \<union> listed outs n) r' \<and> list_all (names n) outs"
    by (auto simp: closer_returns_def Let_def r1_def [symmetric] split: if_splits closer.splits)
qed

lemma setEnabled_sound: "sound_op n (setEnabled n b)"
proof (rule sound_opI)
  fix P C L r outs r' assume ok: "rt_ok P C L r" and op: "setEnabled n b r = (outs, r')"
  note ok1 = rt_ok_frame(2) [OF ok, of b]
  from op ok sound_opD [OF connectRuntime_sound ok] sound_opD [OF connectRuntime_sound ok1] sound_opD [OF closeRuntime_sound ok1]
  show "rt_ok P (C \<union> closed outs n) (L \<union> listed outs n) r' \<and> list_all (names n) outs"
    by (auto simp: setEnabled_def Let_def split: if_splits)
qed

lemma reconnect_sound: "sound_op n (\<lambda>r. snd (reconnect n r))"
proof (rule sound_opI)
  fix P C L r outs r' assume ok: "rt_ok P C L r" and op: "snd (reconnect n r) = (outs, r')"
  from op ok sound_opD [OF closeRuntime_sound ok, of n AfterReconnect]
  show "rt_ok P (C \<union> closed outs n) (L \<union> listed outs n) r' \<and> list_all (names n) outs"
    by (auto simp: reconnect_def split: if_splits)
qed

section \<open>Runs\<close>

definition mgr_ok :: "(string \<Rightarrow> (string \<times> bool) list) \<Rightarrow> mcp_effect list \<Rightarrow> mcp_manager \<Rightarrow> bool" where
  "mgr_ok P outs m \<longleftrightarrow>
     (\<forall>n r. om_get (mm_runtimes m) n = Some r \<longrightarrow> rt_ok (P n) (closed outs n) (listed outs n) r)"

definition no_calls :: "mcp_effect list \<Rightarrow> bool" where
  "no_calls outs \<longleftrightarrow> (\<forall>n e t ro. ToolCall n e t ro \<notin> set outs)"

lemma named_effects:
  assumes "list_all (names n) outs"
  shows "no_calls outs" and "k \<noteq> n \<Longrightarrow> closed outs k = {} \<and> listed outs k = {}"
  using assms by (force simp: list_all_iff no_calls_def closed_def listed_def)+

lemma on_runtime_ok:
  assumes "sound_op n f" and ok: "mgr_ok P outs m" and op: "on_runtime n f m = (o1, m')"
  shows "mgr_ok P (outs @ o1) m'" and "no_calls o1"
proof -
  have "mgr_ok P (outs @ o1) m' \<and> no_calls o1"
  proof (cases "om_get (mm_runtimes m) n")
    case None
    with op ok show ?thesis by (simp add: on_runtime_def no_calls_def)
  next
    case (Some r)
    obtain o2 r' where f: "f r = (o2, r')" by fastforce
    with op Some have o: "o1 = o2" "mm_runtimes m' = om_set (mm_runtimes m) n r'" by (auto simp: on_runtime_def)
    from ok Some have "rt_ok (P n) (closed outs n) (listed outs n) r" by (simp add: mgr_ok_def)
    from sound_opD [OF assms(1) this f] have "rt_ok (P n) (closed (outs @ o2) n) (listed (outs @ o2) n) r'" "list_all (names n) o2"
      by simp_all
    with named_effects [of n o2] o ok show ?thesis by (auto simp: mgr_ok_def)
  qed
  then show "mgr_ok P (outs @ o1) m'" and "no_calls o1" by simp_all
qed

lemma on_each_ok:
  assumes "\<And>n. sound_op n (f n)" and "mgr_ok P outs m" and "on_each f ns m = (o1, m')"
  shows "mgr_ok P (outs @ o1) m' \<and> no_calls o1"
  using assms(2,3)
proof (induction ns arbitrary: outs m o1)
  case (Cons n ns)
  obtain a m1 b where a: "on_runtime n (f n) m = (a, m1)" and b: "on_each f ns m1 = (b, m')" and o: "o1 = a @ b"
    using Cons.prems(2) by (auto split: prod.splits)
  from on_runtime_ok [OF assms(1) Cons.prems(1) a] have "mgr_ok P (outs @ a) m1" "no_calls a" by simp_all
  with Cons.IH [OF this(1) b] o show ?case by (auto simp: no_calls_def)
qed (simp add: no_calls_def)

definition authorised :: "(string \<Rightarrow> (string \<times> bool) list) \<Rightarrow> mcp_effect list \<Rightarrow> string \<Rightarrow> nat \<Rightarrow> string \<Rightarrow> bool \<Rightarrow> bool" where
  "authorised P outs n e tool ro \<longleftrightarrow>
     (\<exists>ts. ToolsListed n e ts \<in> set outs \<and> tool \<in> mt_name ` set ts) \<and> CloseClient n e \<notin> set outs \<and>
     (ro \<longrightarrow> map_of (P n) tool = Some True)"

lemma callTool_authorised:
  assumes "callTool server tool timeoutMs ro m = Inr call" and "mgr_ok P outs m"
  shows "\<exists>e. call = ToolCall server e tool ro \<and> authorised P outs server e tool ro"
proof -
  from assms(1) obtain r e t where r: "om_get (mm_runtimes m) server = Some r" "rt_client r = Some e" "rt_status r = McpConnected"
    and t: "find (\<lambda>t. mt_name t = tool) (rt_tools r) = Some t" "ro \<longrightarrow> mt_readOnly t" and call: "call = ToolCall server e tool ro"
    by (auto simp: callTool_def split: option.splits if_splits)
  from t(1) have in_tools: "t \<in> set (rt_tools r)" "mt_name t = tool" by (auto simp: find_Some_iff)
  from assms(2) r(1) have "rt_ok (P server) (closed outs server) (listed outs server) r" by (simp add: mgr_ok_def)
  from rt_okD(6) [OF this r(3)] rt_okD(9) [OF this in_tools(1)] r(2) t(2) in_tools call
  show ?thesis by (auto simp: authorised_def closed_def listed_def)
qed

lemma mcp_step_ok:
  assumes ok: "mgr_ok P outs m" and step: "mcp_step ev m = (o1, m')"
  shows "mgr_ok P (outs @ o1) m' \<and>
    (no_calls o1 \<or> (\<exists>n e t ro. o1 = [ToolCall n e t ro] \<and> authorised P outs n e t ro))"
proof -
  note on = on_runtime_ok [OF _ ok]
  show ?thesis
  proof (cases ev)
    case StartServers
    with step on_each_ok [OF connectRuntime_sound ok] show ?thesis by (auto simp: start_servers_def)
  next
    case (SetEnabled n b)
    with step on [OF setEnabled_sound] show ?thesis by simp
  next
    case (Reconnect n)
    with step on [OF reconnect_sound] show ?thesis by simp
  next
    case (TransportCreated n e created)
    with step on [OF transport_created_sound] show ?thesis by simp
  next
    case (HandshakeDone n e answer)
    with step on [OF handshake_done_sound] show ?thesis by simp
  next
    case (CloseDone n e)
    with step on [OF quiet_sound(1)] show ?thesis by simp
  next
    case (ClientEvent n e)
    with step on [OF quiet_sound(2)] show ?thesis by simp
  next
    case (CloserReturns n i)
    with step on [OF closer_returns_sound] show ?thesis by simp
  next
    case (CallTool server tool timeoutMs ro)
    show ?thesis
    proof (cases "callTool server tool timeoutMs ro m")
      case (Inr call)
      from callTool_authorised [OF this ok] obtain e where
        "call = ToolCall server e tool ro" "authorised P outs server e tool ro" by blast
      with Inr CallTool step ok show ?thesis by (auto simp: mgr_ok_def)
    qed (use CallTool step ok in \<open>auto simp: no_calls_def\<close>)
  next
    case DisposeServers
    have "mgr_ok P outs (m\<lparr>mm_disposed := True\<rparr>)" using ok by (simp add: mgr_ok_def)
    from on_each_ok [OF closeRuntime_sound this] step DisposeServers ok show ?thesis
      by (auto simp: dispose_servers_def no_calls_def split: if_splits)
  next
    case DisposeWipes
    have "om_get (map (\<lambda>(n, r). (n, g r)) rs) n = map_option g (om_get rs n)" for g :: "mcp_runtime \<Rightarrow> mcp_runtime" and rs :: "(string, mcp_runtime) omap" and n
      by (induction rs) (auto simp: om_get_def)
    from this [of "\<lambda>r. r\<lparr>rt_sensitiveValues := []\<rparr>"]
    have wiped: "om_get (map (\<lambda>(n, r). (n, r\<lparr>rt_sensitiveValues := []\<rparr>)) rs) n =
      map_option (\<lambda>r. r\<lparr>rt_sensitiveValues := []\<rparr>) (om_get rs n)" for rs :: "(string, mcp_runtime) omap" and n
      by simp
    have "rt_ok Q C L (r\<lparr>rt_sensitiveValues := []\<rparr>) = rt_ok Q C L r" for Q C L r by (simp add: rt_ok_def)
    with ok have "mgr_ok P outs (dispose_wipes m)" by (auto simp: mgr_ok_def dispose_wipes_def wiped)
    with DisposeWipes step show ?thesis by (auto simp: no_calls_def)
  qed
qed

lemma mcp_run_ok:
  assumes "mgr_ok P outs0 m" and "mcp_run es m = (before @ ToolCall n e tool ro # after, m')"
  shows "authorised P (outs0 @ before) n e tool ro"
  using assms
proof (induction es arbitrary: outs0 m before)
  case (Cons ev es)
  obtain o1 m1 o2 where step: "mcp_step ev m = (o1, m1)" and rest: "mcp_run es m1 = (o2, m')"
    and o: "o1 @ o2 = before @ ToolCall n e tool ro # after"
    using Cons.prems(2) by (auto split: prod.splits)
  note s = mcp_step_ok [OF Cons.prems(1) step]
  from o consider x where "before = o1 @ x" "o2 = x @ ToolCall n e tool ro # after"
    | y where "o1 = before @ ToolCall n e tool ro # y"
    by (auto simp: append_eq_append_conv2 append_eq_Cons_conv)
  then show ?case
  proof cases
    case 1
    with Cons.IH [of "outs0 @ o1" m1 x] s rest show ?thesis by simp
  next
    case 2
    then have "\<not> no_calls o1" by (auto simp: no_calls_def)
    with s 2 show ?thesis by (auto simp: append_eq_Cons_conv)
  qed
qed simp

lemma new_manager_ok:
  assumes "new_mcp_manager parse_url servers cs = (Some m, cs')"
  shows "mgr_ok (\<lambda>n. rt_policies (the (om_get (mm_runtimes m) n))) [] m"
proof -
  have fresh: "rt_ok (rt_policies (new_runtime c ss)) {} {} (new_runtime c ss)" for c ss
    by (simp add: rt_ok_def new_runtime_def)
  have made: "\<forall>n r. om_get rs n = Some r \<longrightarrow> (\<exists>c ss. r = new_runtime c ss)"
    if "add_servers parse_url servers cs rs0 = (Some rs, cs')" "\<forall>n r. om_get rs0 n = Some r \<longrightarrow> (\<exists>c ss. r = new_runtime c ss)" for rs0 rs
    using that
  proof (induction servers arbitrary: cs rs0)
    case (Cons s sources)
    obtain obj source where s: "s = (obj, source)" by fastforce
    from Cons.prems(1) have "\<exists>cs1 name ss. add_servers parse_url sources cs1 (om_set rs0 name (new_runtime source ss)) = (Some rs, cs')"
      unfolding s add_servers.simps Let_def by (simp only: prod.inject option.distinct if_False simp_thms split: if_split_asm) blast+
    then obtain cs1 name ss where added: "add_servers parse_url sources cs1 (om_set rs0 name (new_runtime source ss)) = (Some rs, cs')"
      by blast
    have "\<forall>n r. om_get (om_set rs0 name (new_runtime source ss)) n = Some r \<longrightarrow> (\<exists>c ss. r = new_runtime c ss)"
      using Cons.prems(2) by auto
    from Cons.IH [OF added this] show ?case .
  qed simp
  from assms obtain rs where rs: "add_servers parse_url servers cs [] = (Some rs, cs')" and m: "mm_runtimes m = rs"
    by (auto simp: new_mcp_manager_def split: prod.splits option.splits)
  show ?thesis unfolding mgr_ok_def m
  proof (intro allI impI)
    fix n r assume r: "om_get rs n = Some r"
    have "\<forall>n r. om_get rs n = Some r \<longrightarrow> (\<exists>c ss. r = new_runtime c ss)" by (rule made [OF rs]) simp
    with r obtain c ss where "r = new_runtime c ss" by blast
    with fresh r show "rt_ok (rt_policies (the (om_get rs n))) (closed [] n) (listed [] n) r" by simp
  qed
qed


section \<open>Examples\<close>

definition sample_config :: json where
  "sample_config = JObject [(''name'', JString ''a''), (''enabled'', JBool True), (''transport'', JString ''stdio''),
     (''toolPolicies'', JObject [(''look'', JObject [(''readOnly'', JBool True)])]), (''command'', JString ''/bin/s'')]"

definition sample_manager :: mcp_manager where
  "sample_manager = the (fst (new_mcp_manager (\<lambda>_. None) [(0, sample_config)] \<lparr>cs_material = [], cs_marked = [], cs_consumed = []\<rparr>))"

lemma sample_manager_new:
  "new_mcp_manager (\<lambda>_. None) [(0, sample_config)] \<lparr>cs_material = [], cs_marked = [], cs_consumed = []\<rparr> =
     (Some sample_manager, \<lparr>cs_material = [], cs_marked = [], cs_consumed = []\<rparr>)"
  by code_simp

definition sample_tools :: "json list" where
  "sample_tools = [JObject [(''name'', JString ''look'')], JObject [(''name'', JString ''change'')]]"

definition connected :: "mcp_event list" where
  "connected = [StartServers, TransportCreated ''a'' 1 True, HandshakeDone ''a'' 1 (Some sample_tools)]"

lemma sample_calls:
  "fst (mcp_run (connected @ [CallTool ''a'' ''change'' JUndefined True, CallTool ''a'' ''look'' JUndefined True]) sample_manager) =
     [OpenTransport ''a'' 1, ToolsListed ''a'' 1 [\<lparr>mt_name = ''look'', mt_readOnly = True\<rparr>, \<lparr>mt_name = ''change'', mt_readOnly = False\<rparr>],
      ToolCall ''a'' 1 ''look'' True]"
  by code_simp


text \<open>
  A server that is enabled again while the close of its client is still awaited ends up enabled with a connected
  client and the status of a disabled one: the continuation of the first call sets the status without looking at the switch.
\<close>

lemma reenabled_server_stays_disabled:
  "\<exists>r. om_get (mm_runtimes (snd (mcp_run (connected @ [SetEnabled ''a'' False, SetEnabled ''a'' True, TransportCreated ''a'' 3 True,
      HandshakeDone ''a'' 3 (Some sample_tools), CloserReturns ''a'' 0]) sample_manager))) ''a'' = Some r \<and>
     rt_enabled r \<and> rt_status r = McpDisabled \<and> rt_client r = Some 3"
  by (intro exI conjI) code_simp+

text \<open>
  A client that reported an error is not closed when the switch is set again: the new attempt takes its place, and
  not even the disposal closes it.
\<close>

lemma failed_client_leaks:
  "fst (mcp_run (connected @ [ClientEvent ''a'' 1, SetEnabled ''a'' True, TransportCreated ''a'' 2 True,
      HandshakeDone ''a'' 2 (Some []), DisposeServers]) sample_manager) =
     [OpenTransport ''a'' 1, ToolsListed ''a'' 1 [\<lparr>mt_name = ''look'', mt_readOnly = True\<rparr>, \<lparr>mt_name = ''change'', mt_readOnly = False\<rparr>],
      OpenTransport ''a'' 2, ToolsListed ''a'' 2 [], CloseClient ''a'' 2]"
  by code_simp

end
