(* ===== verification/Runtime_Brokers.thy ===== *)
theory Runtime_Brokers
  imports Task_Lifecycle Mcp_Connections
begin

text \<open>
  The brokers of one Pi process generation (web/server/pi-runtime-brokers.ts): who may do what. Requests that the broker
  server has authenticated are dispatched to the MCP manager, the task manager, the native file helper and the
  apps, with the mode and the lock of the authority of the session they come from.

  Authorities are shared mutable objects: \<open>rb_objects\<close> holds them, \<open>rb_authorities\<close> maps keys to positions. The
  switch of a mode waits for the task manager before it is recorded; a pending switch is an entry of \<open>rb_modeChanges\<close>.
  The task manager and the MCP manager are those of Task_Manager and Mcp_Connections: the endpoints of children
  are issued and revoked by the effects of the former. Random capabilities are arguments of the events.
\<close>

section \<open>State\<close>

record broker_authority =
  au_capability :: string
  au_mode :: agent_mode
  au_readOnlyLocked :: bool
  au_root :: bool

record mode_change =
  mc_root :: bool
  mc_authority :: nat
  mc_mode :: agent_mode

record runtime_brokers =
  rb_sessionId :: string
  rb_generation :: int
  rb_activeMode :: agent_mode
  rb_objects :: "broker_authority list"
  rb_authorities :: "(string, nat) omap"
  rb_modeChanges :: "mode_change list"
  rb_mcp :: mcp_manager
  rb_hasTasks :: bool
  rb_hasNativeFile :: bool
  rb_hasApp :: bool
  rb_tasks :: task_manager
  rb_disposed :: bool

datatype rb_error =
    StaleAuthority | InvalidPayload | McpError mcp_error | PlanModeDenied | NativeUnavailable | InvalidRbMode | LockedReadOnly
  | TasksUnavailable | TaskError task_error | RootOnly | AppUnavailable | UnsupportedOperation

datatype rb_reply = McpPending | NativePending | ModePending nat | McpStatus | McpSwitched | TaskReply reply | AppPending

text \<open>What a request makes happen, with the session it came from.\<close>

datatype rb_effect =
    McpCalled string mcp_effect
  | McpManaged mcp_effect
  | NativeAction string json
  | AppAction string string json
  | TaskEffect task_effect

record rb_env =
  rv_capability :: string
  rv_task :: task_env

definition new_runtime_brokers :: "string \<Rightarrow> int \<Rightarrow> agent_mode \<Rightarrow> string \<Rightarrow> mcp_manager \<Rightarrow> bool \<Rightarrow> bool \<Rightarrow> bool \<Rightarrow> json \<Rightarrow>
    runtime_brokers" where
  "new_runtime_brokers sessionId generation mode capability mcp hasTasks hasNativeFile hasApp model =
     \<lparr>rb_sessionId = sessionId, rb_generation = generation, rb_activeMode = mode,
      rb_objects = [\<lparr>au_capability = capability, au_mode = mode, au_readOnlyLocked = False, au_root = True\<rparr>],
      rb_authorities = [(context_key sessionId generation, 0)], rb_modeChanges = [], rb_mcp = mcp, rb_hasTasks = hasTasks,
      rb_hasNativeFile = hasNativeFile, rb_hasApp = hasApp, rb_tasks = new_task_manager sessionId generation mode model,
      rb_disposed = False\<rparr>"

text \<open>What the broker server asks for every request.\<close>

definition resolveCapability :: "runtime_brokers \<Rightarrow> string \<Rightarrow> int \<Rightarrow> string option" where
  "resolveCapability rb sessionId generation =
     map_option (\<lambda>i. au_capability (rb_objects rb ! i)) (om_get (rb_authorities rb) (context_key sessionId generation))"

section \<open>Endpoints of children\<close>

definition issueChildEndpoint :: "string \<Rightarrow> int \<Rightarrow> agent_mode \<Rightarrow> bool \<Rightarrow> string \<Rightarrow> runtime_brokers \<Rightarrow> runtime_brokers" where
  "issueChildEndpoint sessionId generation mode readOnlyLocked capability rb =
     rb\<lparr>rb_objects := rb_objects rb @ [\<lparr>au_capability = capability, au_mode = mode, au_readOnlyLocked = readOnlyLocked, au_root = False\<rparr>],
        rb_authorities := om_set (rb_authorities rb) (context_key sessionId generation) (length (rb_objects rb))\<rparr>"

definition revokeChildEndpoint :: "string \<Rightarrow> int \<Rightarrow> runtime_brokers \<Rightarrow> runtime_brokers" where
  "revokeChildEndpoint sessionId generation rb =
     rb\<lparr>rb_authorities := om_delete (rb_authorities rb) (context_key sessionId generation)\<rparr>"

text \<open>The calls of the task manager: a start issues the endpoint of its child, a clean-up revokes it.\<close>

fun apply_task_effect :: "string \<Rightarrow> task_effect \<Rightarrow> runtime_brokers \<Rightarrow> runtime_brokers" where
  "apply_task_effect capability (LaunchChild t mode _) rb =
     (let x = task_at (rb_tasks rb) t in issueChildEndpoint (at_sessionId x) (at_generation x) mode (at_readOnly x) capability rb)"
| "apply_task_effect capability (RevokeEndpoint sessionId generation) rb = revokeChildEndpoint sessionId generation rb"
| "apply_task_effect capability _ rb = rb"

definition task_effects :: "string \<Rightarrow> task_effect list \<Rightarrow> runtime_brokers \<Rightarrow> runtime_brokers" where
  "task_effects capability outs rb = fold (apply_task_effect capability) outs rb"

definition handleTask :: "rb_env \<Rightarrow> broker_request \<Rightarrow> runtime_brokers \<Rightarrow> (task_error + reply) \<times> rb_effect list \<times> runtime_brokers" where
  "handleTask env req rb =
     (let (r, outs, m) = handle (rv_task env) req (rb_tasks rb)
      in (r, map TaskEffect outs, task_effects (rv_capability env) outs (rb\<lparr>rb_tasks := m\<rparr>)))"

section \<open>Requests\<close>

text \<open>The mode that counts for an authority, and whether it may only read.\<close>

definition effective_mode :: "runtime_brokers \<Rightarrow> broker_authority \<Rightarrow> agent_mode" where
  "effective_mode rb a = (if au_root a then rb_activeMode rb else au_mode a)"

definition reads_only :: "runtime_brokers \<Rightarrow> broker_authority \<Rightarrow> bool" where
  "reads_only rb a \<longleftrightarrow> effective_mode rb a = PlanMode \<or> au_readOnlyLocked a"

definition mcp_call :: "broker_request \<Rightarrow> broker_authority \<Rightarrow> runtime_brokers \<Rightarrow> (rb_error + rb_reply) \<times> rb_effect list \<times> runtime_brokers" where
  "mcp_call req a rb =
     (let payload = br_payload req; arguments = member payload ''arguments'' in
      if \<not> is_js_string (member payload ''server'') \<or> \<not> is_js_string (member payload ''tool'') \<or>
         arguments \<noteq> JUndefined \<and> \<not> is_record arguments
      then (Inl InvalidPayload, [], rb)
      else
        (case callTool (str_of (member payload ''server'')) (str_of (member payload ''tool'')) JUndefined (reads_only rb a) (rb_mcp rb) of
           Inl e \<Rightarrow> (Inl (McpError e), [], rb)
         | Inr call \<Rightarrow> (Inr McpPending, [McpCalled (br_sessionId req) call], rb)))"

definition native_file_action :: "broker_request \<Rightarrow> broker_authority \<Rightarrow> runtime_brokers \<Rightarrow> (rb_error + rb_reply) \<times> rb_effect list \<times> runtime_brokers" where
  "native_file_action req a rb =
     (if reads_only rb a then (Inl PlanModeDenied, [], rb)
      else if \<not> rb_hasNativeFile rb then (Inl NativeUnavailable, [], rb)
      else (Inr NativePending, [NativeAction (br_sessionId req) (br_payload req)], rb))"

definition mode_of :: "json \<Rightarrow> agent_mode" where
  "mode_of v = (if v = JString ''plan'' then PlanMode else AgentMode)"

text \<open>\<open>mode.set\<close> up to its \<open>await\<close>; the switch is recorded by \<open>mode_returns\<close>. The root asks the task manager through \<open>onModeChange\<close>.\<close>

definition pending_change :: "bool \<Rightarrow> nat \<Rightarrow> agent_mode \<Rightarrow> runtime_brokers \<Rightarrow> runtime_brokers" where
  "pending_change root i mode rb =
     rb\<lparr>rb_modeChanges := rb_modeChanges rb @ [\<lparr>mc_root = root, mc_authority = i, mc_mode = mode\<rparr>]\<rparr>"

definition mode_request :: "rb_env \<Rightarrow> broker_request \<Rightarrow> nat \<Rightarrow> runtime_brokers \<Rightarrow> (rb_error + rb_reply) \<times> rb_effect list \<times> runtime_brokers" where
  "mode_request env req i rb =
     (let v = member (br_payload req) ''mode''; n = length (rb_modeChanges rb) in
      if v \<noteq> JString ''agent'' \<and> v \<noteq> JString ''plan'' then (Inl InvalidRbMode, [], rb)
      else if br_sessionId req = rb_sessionId rb \<and> br_generation req = rb_generation rb then
        (let (outs, m) = (if rb_hasTasks rb then setRootMode (te_now (rv_task env)) (mode_of v) (rb_tasks rb) else ([], rb_tasks rb))
         in (Inr (ModePending n), map TaskEffect outs,
             pending_change True i (mode_of v) (task_effects (rv_capability env) outs (rb\<lparr>rb_tasks := m\<rparr>))))
      else if v = JString ''agent'' \<and> au_readOnlyLocked (rb_objects rb ! i) then (Inl LockedReadOnly, [], rb)
      else if \<not> rb_hasTasks rb then (Inl TasksUnavailable, [], rb)
      else
        (case handleTask env req rb of
           (Inl e, outs, rb') \<Rightarrow> (Inl (TaskError e), outs, rb')
         | (Inr _, outs, rb') \<Rightarrow> (Inr (ModePending n), outs, pending_change False i (mode_of v) rb')))"

definition mcp_toggle :: "broker_request \<Rightarrow> runtime_brokers \<Rightarrow> (rb_error + rb_reply) \<times> rb_effect list \<times> runtime_brokers" where
  "mcp_toggle req rb =
     (let server = member (br_payload req) ''server''; enabled = member (br_payload req) ''enabled'' in
      if \<not> is_js_string server \<or> \<not> is_js_boolean enabled then (Inl InvalidPayload, [], rb)
      else if om_get (mm_runtimes (rb_mcp rb)) (str_of server) = None then (Inl (McpError ServerNotFound), [], rb)
      else
        (let (outs, m) = mcp_step (SetEnabled (str_of server) (enabled = JBool True)) (rb_mcp rb)
         in (Inr McpSwitched, map McpManaged outs, rb\<lparr>rb_mcp := m\<rparr>)))"

definition mcp_reconnect :: "broker_request \<Rightarrow> runtime_brokers \<Rightarrow> (rb_error + rb_reply) \<times> rb_effect list \<times> runtime_brokers" where
  "mcp_reconnect req rb =
     (let server = member (br_payload req) ''server'' in
      if \<not> is_js_string server then (Inl InvalidPayload, [], rb)
      else
        (case om_get (mm_runtimes (rb_mcp rb)) (str_of server) of
           None \<Rightarrow> (Inl (McpError ServerNotFound), [], rb)
         | Some r \<Rightarrow>
             if \<not> rt_enabled r then (Inl (McpError ServerDisabled), [], rb)
             else
               (let (outs, m) = mcp_step (Reconnect (str_of server)) (rb_mcp rb)
                in (Inr McpSwitched, map McpManaged outs, rb\<lparr>rb_mcp := m\<rparr>))))"

definition task_operations :: "string list" where
  "task_operations = [''task.start'', ''task.stop'', ''task.list'', ''task.status'', ''task.wait'', ''task.steer'']"

definition task_request :: "rb_env \<Rightarrow> broker_request \<Rightarrow> runtime_brokers \<Rightarrow> (rb_error + rb_reply) \<times> rb_effect list \<times> runtime_brokers" where
  "task_request env req rb =
     (if \<not> rb_hasTasks rb then (Inl TasksUnavailable, [], rb)
      else (let (r, outs, rb') = handleTask env req rb in (map_sum TaskError TaskReply r, outs, rb')))"

definition app_request :: "broker_request \<Rightarrow> broker_authority \<Rightarrow> runtime_brokers \<Rightarrow> (rb_error + rb_reply) \<times> rb_effect list \<times> runtime_brokers" where
  "app_request req a rb =
     (let mutates = (br_operation req \<notin> {''app.list'', ''app.versions''}) in
      if mutates \<and> \<not> au_root a then (Inl RootOnly, [], rb)
      else if mutates \<and> (rb_activeMode rb = PlanMode \<or> au_readOnlyLocked a) then (Inl PlanModeDenied, [], rb)
      else if \<not> rb_hasApp rb then (Inl AppUnavailable, [], rb)
      else (Inr AppPending, [AppAction (br_sessionId req) (br_operation req) (br_payload req)], rb))"

definition broker_handle :: "rb_env \<Rightarrow> broker_request \<Rightarrow> runtime_brokers \<Rightarrow> (rb_error + rb_reply) \<times> rb_effect list \<times> runtime_brokers" where
  "broker_handle env req rb =
     (case om_get (rb_authorities rb) (context_key (br_sessionId req) (br_generation req)) of
        None \<Rightarrow> (Inl StaleAuthority, [], rb)
      | Some i \<Rightarrow>
          let a = rb_objects rb ! i; operation = br_operation req in
          if operation = ''mcp.call'' then mcp_call req a rb
          else if operation = ''native-file.action'' then native_file_action req a rb
          else if operation = ''mode.set'' then mode_request env req i rb
          else if operation = ''mcp.status'' then (Inr McpStatus, [], rb)
          else if operation = ''mcp.toggle'' then mcp_toggle req rb
          else if operation = ''mcp.reconnect'' then mcp_reconnect req rb
          else if operation \<in> set task_operations then task_request env req rb
          else if js_starts_with operation ''app.'' then app_request req a rb
          else (Inl UnsupportedOperation, [], rb))"

text \<open>What follows the awaited part of \<open>mode.set\<close>; a rejected wait records nothing.\<close>

definition mode_returns :: "nat \<Rightarrow> bool \<Rightarrow> runtime_brokers \<Rightarrow> runtime_brokers" where
  "mode_returns n ok rb =
     (if n \<ge> length (rb_modeChanges rb) then rb
      else
        (let c = rb_modeChanges rb ! n; i = mc_authority c;
             rb1 = rb\<lparr>rb_modeChanges := take n (rb_modeChanges rb) @ drop (Suc n) (rb_modeChanges rb)\<rparr>;
             rb2 = (if mc_root c then rb1\<lparr>rb_activeMode := mc_mode c\<rparr> else rb1)
         in if ok then rb2\<lparr>rb_objects := (rb_objects rb2)[i := (rb_objects rb2 ! i)\<lparr>au_mode := mc_mode c\<rparr>]\<rparr> else rb1))"

definition dispose_brokers :: "runtime_brokers \<Rightarrow> rb_effect list \<times> runtime_brokers" where
  "dispose_brokers rb =
     (if rb_disposed rb then ([], rb)
      else
        (let (outs, m) = dispose_servers (rb_mcp rb)
         in (map McpManaged outs, rb\<lparr>rb_disposed := True, rb_authorities := [], rb_mcp := m\<rparr>)))"

section \<open>Events\<close>

datatype rb_event =
    HandleRequest rb_env broker_request
  | ModeReturns nat bool
  | TaskStep string task_event
  | McpStep mcp_event
  | DisposeBrokers

text \<open>Requests and root modes reach the task manager only through the broker.\<close>

fun from_outside :: "task_event \<Rightarrow> bool" where
  "from_outside (task_event.Request _ _) = True"
| "from_outside (SetRootMode _ _) = True"
| "from_outside _ = False"

fun rb_step :: "rb_event \<Rightarrow> runtime_brokers \<Rightarrow> rb_effect list \<times> runtime_brokers" where
  "rb_step (HandleRequest env req) rb = snd (broker_handle env req rb)"
| "rb_step (ModeReturns n ok) rb = ([], mode_returns n ok rb)"
| "rb_step (TaskStep capability e) rb =
     (if from_outside e then ([], rb)
      else
        (let (outs, m) = task_step e (rb_tasks rb)
         in (map TaskEffect outs, task_effects capability outs (rb\<lparr>rb_tasks := m\<rparr>))))"
| "rb_step (McpStep e) rb =
     (case e of
        CallTool _ _ _ _ \<Rightarrow> ([], rb)
      | _ \<Rightarrow> let (outs, m) = mcp_step e (rb_mcp rb) in (map McpManaged outs, rb\<lparr>rb_mcp := m\<rparr>))"
| "rb_step DisposeBrokers rb = dispose_brokers rb"

fun fresh_request :: "rb_event \<Rightarrow> runtime_brokers \<Rightarrow> bool" where
  "fresh_request (HandleRequest env req) rb \<longleftrightarrow> fresh_ids (task_event.Request (rv_task env) req) (rb_tasks rb)"
| "fresh_request _ _ \<longleftrightarrow> True"

inductive rb_history :: "runtime_brokers \<Rightarrow> runtime_brokers \<Rightarrow> rb_effect list \<Rightarrow> bool" for rb0 where
  rb_created: "rb_history rb0 rb0 []"
| rb_stepped: "rb_history rb0 rb outs \<Longrightarrow> fresh_request e rb \<Longrightarrow> rb_step e rb = (outs', rb') \<Longrightarrow>
    rb_history rb0 rb' (outs @ outs')"

text \<open>A launch names a task that exists afterwards.\<close>

definition no_launch :: "task_effect list \<Rightarrow> bool" where
  "no_launch outs \<longleftrightarrow> (\<forall>t mode model. LaunchChild t mode model \<notin> set outs)"

lemma no_launch_simps [simp]:
  "no_launch []" "no_launch (TaskEvent t s # outs) = no_launch outs" "no_launch (PromptChild t # outs) = no_launch outs"
  "no_launch (AbortChild t # outs) = no_launch outs" "no_launch (SteerChild t # outs) = no_launch outs"
  "no_launch (outs @ outs') \<longleftrightarrow> no_launch outs \<and> no_launch outs'"
  by (auto simp: no_launch_def)

lemma settle_no_launch: "settle t st res err notify now m = (s, outs, m') \<Longrightarrow> no_launch outs"
  by (auto simp: no_launch_def settle_def deliver_def Let_def split: if_splits option.splits)

lemma settle_event_no_launch: "snd (settle t st res err notify now m) = (outs, m') \<Longrightarrow> no_launch outs"
  by (metis prod.collapse settle_no_launch)

lemma cleanup_no_launch: "cleanup t m = (outs, m') \<Longrightarrow> no_launch outs"
  by (auto simp: no_launch_def cleanup_def Let_def split: if_splits)

lemma stop_no_launch: "stop now i parent m = (r, outs, m') \<Longrightarrow> no_launch outs"
  by (auto simp: stop_def Let_def dest!: settle_no_launch cleanup_no_launch split: option.splits prod.splits)

lemma stop_each_no_launch: "stop_each now parent is m = (outs, m') \<Longrightarrow> no_launch outs"
proof (induction "is" arbitrary: m outs)
  case (Cons i "is")
  then show ?case by (auto dest!: stop_no_launch split: prod.splits)
qed simp

lemma setRootMode_no_launch: "setRootMode now mode m = (outs, m') \<Longrightarrow> no_launch outs"
  by (auto simp: setRootMode_def Let_def dest: stop_each_no_launch split: option.splits if_splits)

lemma start_failed_no_launch: "start_failed t err now m = (outs, m') \<Longrightarrow> no_launch outs"
  by (auto simp: start_failed_def Let_def dest!: settle_no_launch cleanup_no_launch split: prod.splits)

lemma dispose_each_no_launch: "dispose_each now ts m = (outs, m') \<Longrightarrow> no_launch outs"
proof (induction ts arbitrary: m outs)
  case (Cons t ts)
  then show ?case by (auto dest!: settle_no_launch cleanup_no_launch split: prod.splits)
qed simp

lemma perform_launch:
  assumes "perform env c op payload m = (r, outs, m')" and "LaunchChild t md model \<in> set outs"
  shows "t < length (tm_heap m')"
proof (cases "op = ''mode.set''")
  case True
  with assms(1) have "mode_set env c payload m = (r, outs, m')" by (simp add: perform_def)
  then have "no_launch outs" by (auto simp: mode_set_def Let_def dest: stop_each_no_launch split: if_splits prod.splits)
  with assms(2) show ?thesis by (simp add: no_launch_def)
next
  case other: False
  show ?thesis
  proof (cases "op = ''task.stop''")
    case True
    with assms(1) have "no_launch outs"
      by (auto simp: perform_def with_task_id_def Let_def dest: stop_no_launch split: sum.splits prod.splits)
    with assms(2) show ?thesis by (simp add: no_launch_def)
  next
    case False
    with other assms show ?thesis
      by (auto simp: perform_def with_task_id_def steer_def start_task_def Let_def
          split: if_splits sum.splits option.splits prod.splits)
  qed
qed

lemma handle_launch:
  "handle env req m = (r, outs, m') \<Longrightarrow> LaunchChild t md model \<in> set outs \<Longrightarrow> t < length (tm_heap m')"
  by (auto simp: handle_def dest: perform_launch split: if_splits option.splits)

lemma inner_step_no_launch:
  assumes "task_step e m = (outs, m')" and "\<not> from_outside e"
  shows "no_launch outs"
proof (cases e)
  case (StopTask taskId now)
  with assms(1) show ?thesis
    by (auto simp: stopTask_def dest: stop_no_launch split: option.splits) (metis prod.collapse stop_no_launch)
next
  case (LaunchReturns t e now)
  with assms(1) show ?thesis
    by (auto simp: launch_returns_def Let_def dest: start_failed_no_launch cleanup_no_launch split: if_splits launch_end.splits prod.splits)
next
  case (PromptReturns t failure now)
  with assms(1) show ?thesis
    by (auto simp: prompt_returns_def dest: start_failed_no_launch split: if_splits option.splits)
next
  case (ThrowContinues t err now)
  with assms(1) show ?thesis by (auto simp: throw_continues_def dest: start_failed_no_launch split: if_splits)
next
  case (MessageEnd t message)
  with assms(1) show ?thesis by (auto simp: message_end_def Let_def split: if_splits)
next
  case (AgentSettled t now)
  with assms(1) show ?thesis by (auto simp: agent_settled_def Let_def dest: settle_event_no_launch split: if_splits)
next
  case (ProcessExit t now)
  with assms(1) show ?thesis
    by (auto simp: process_exit_def Let_def dest!: settle_no_launch cleanup_no_launch split: if_splits prod.splits)
next
  case (RunTimer t now)
  with assms(1) show ?thesis by (auto simp: run_timer_def dest: settle_event_no_launch split: if_splits)
next
  case (AbortSignal t now)
  with assms(1) show ?thesis
    by (auto simp: abort_task_def Let_def dest: settle_event_no_launch split: if_splits prod.splits)
next
  case (CompletionSeen t)
  with assms(1) show ?thesis by (auto simp: completion_seen_def Let_def dest: cleanup_no_launch split: if_splits)
next
  case (SteerReturns t accepted now)
  with assms(1) show ?thesis by (auto simp: steer_returns_def Let_def split: if_splits)
next
  case (Dispose now)
  with assms(1) show ?thesis by (auto simp: dispose_def dest: dispose_each_no_launch split: if_splits)
qed (use assms in \<open>auto split: if_splits\<close>)

section \<open>Authorities of tasks\<close>

text \<open>
  The key of an authority is that of the root or of a task; the authority of a task has the lock the task was
  started with.
\<close>

definition entry_ok :: "runtime_brokers \<Rightarrow> string \<Rightarrow> broker_authority \<Rightarrow> bool" where
  "entry_ok rb k a \<longleftrightarrow>
     au_root a \<and> k = context_key (rb_sessionId rb) (rb_generation rb) \<or>
     (\<exists>x \<in> set (tm_heap (rb_tasks rb)). \<exists>g. k = context_key (at_sessionId x) g \<and> \<not> au_root a \<and> au_readOnlyLocked a = at_readOnly x)"

definition authorities_ok :: "runtime_brokers \<Rightarrow> bool" where
  "authorities_ok rb \<longleftrightarrow>
     (\<forall>k i. om_get (rb_authorities rb) k = Some i \<longrightarrow> i < length (rb_objects rb) \<and> entry_ok rb k (rb_objects rb ! i))"

definition rb_inv :: "(string \<Rightarrow> (string \<times> bool) list) \<Rightarrow> mcp_effect list \<Rightarrow> runtime_brokers \<Rightarrow> bool" where
  "rb_inv P mouts rb \<longleftrightarrow> authorities_ok rb \<and> (\<exists>touts. task_history (rb_sessionId rb) (rb_generation rb) (rb_tasks rb) touts) \<and>
     mgr_ok P mouts (rb_mcp rb)"

text \<open>What a request finds: the root authority, or that of a task with its lock.\<close>

lemma authority_found:
  assumes "authorities_ok rb" and "om_get (rb_authorities rb) (context_key s g) = Some i"
  shows "s = rb_sessionId rb \<or> (\<exists>x \<in> set (tm_heap (rb_tasks rb)). at_sessionId x = s \<and> (at_readOnly x \<longrightarrow> reads_only rb (rb_objects rb ! i)))"
proof -
  have "entry_ok rb (context_key s g) (rb_objects rb ! i)" using assms by (simp add: authorities_ok_def)
  then show ?thesis unfolding entry_ok_def reads_only_def using context_key_session by metis
qed

definition kept :: "task_manager \<Rightarrow> task_manager \<Rightarrow> bool" where
  "kept m m' \<longleftrightarrow> (\<forall>x \<in> set (tm_heap m). \<exists>y \<in> set (tm_heap m'). at_sessionId y = at_sessionId x \<and> at_readOnly y = at_readOnly x)"

lemma kept_refl [simp]: "kept m m"
  by (auto simp: kept_def)

lemma task_step_kept:
  assumes "task_history s g m touts" and "fresh_ids e m" and "task_step e m = (outs, m')"
  shows "kept m m'" and "task_history s g m' (touts @ outs)"
proof -
  obtain m0 where m0: "tm_heap m0 = tm_heap m" "does m0 outs m'"
    using step_history_inv [OF assms(3) task_history_inv [OF assms(1)] assms(2)] by blast
  have "\<exists>y \<in> set (tm_heap m'). at_sessionId y = at_sessionId x \<and> at_readOnly y = at_readOnly x" if "x \<in> set (tm_heap m0)" for x
  proof -
    from that obtain t where t: "t < length (tm_heap m0)" "x = task_at m0 t" by (metis in_set_conv_nth)
    have "t < length (tm_heap m')" using t(1) moves_settled [OF m0(2)] by (meson less_le_trans)
    then have "task_at m' t \<in> set (tm_heap m')" by simp
    with moves_same [OF m0(2) t(1)] t(2) show ?thesis unfolding same_task_def by blast
  qed
  with m0(1) show "kept m m'" by (simp add: kept_def)
  from task_history.step [OF assms] show "task_history s g m' (touts @ outs)" .
qed

lemma entry_kept: "entry_ok rb k a \<Longrightarrow> kept (rb_tasks rb) m \<Longrightarrow> entry_ok (rb\<lparr>rb_tasks := m\<rparr>) k a"
  unfolding entry_ok_def kept_def by simp metis

lemma authorities_kept: "authorities_ok rb \<Longrightarrow> kept (rb_tasks rb) m \<Longrightarrow> authorities_ok (rb\<lparr>rb_tasks := m\<rparr>)"
  using entry_kept by (simp add: authorities_ok_def)

text \<open>Fields that the effects of the task manager leave alone.\<close>

lemma task_effect_frame:
  "rb_tasks (apply_task_effect c e rb) = rb_tasks rb \<and> rb_mcp (apply_task_effect c e rb) = rb_mcp rb \<and>
   rb_sessionId (apply_task_effect c e rb) = rb_sessionId rb \<and> rb_generation (apply_task_effect c e rb) = rb_generation rb"
  by (cases e) (simp_all add: Let_def issueChildEndpoint_def revokeChildEndpoint_def)

lemma task_effects_frame:
  "rb_tasks (task_effects c outs rb) = rb_tasks rb \<and> rb_mcp (task_effects c outs rb) = rb_mcp rb \<and>
   rb_sessionId (task_effects c outs rb) = rb_sessionId rb \<and> rb_generation (task_effects c outs rb) = rb_generation rb"
  unfolding task_effects_def by (induction outs arbitrary: rb) (simp_all add: task_effect_frame)

lemma task_effect_ok:
  assumes ok: "authorities_ok rb" and t: "\<And>t md model. e = LaunchChild t md model \<Longrightarrow> t < length (tm_heap (rb_tasks rb))"
  shows "authorities_ok (apply_task_effect c e rb)"
proof (cases e)
  case (LaunchChild t md model)
  let ?x = "task_at (rb_tasks rb) t"
  have x: "?x \<in> set (tm_heap (rb_tasks rb))" using t [OF LaunchChild] by simp
  have "entry_ok rb (context_key (at_sessionId ?x) (at_generation ?x))
      \<lparr>au_capability = c, au_mode = md, au_readOnlyLocked = at_readOnly ?x, au_root = False\<rparr>"
    unfolding entry_ok_def using x by auto
  with ok LaunchChild show ?thesis
    by (auto simp: authorities_ok_def issueChildEndpoint_def Let_def nth_append entry_ok_def less_SucI)
next
  case (RevokeEndpoint s g)
  with ok show ?thesis by (auto simp: authorities_ok_def revokeChildEndpoint_def entry_ok_def)
qed (use ok in simp_all)

lemma task_effects_ok:
  assumes "authorities_ok rb" and "\<And>t md model. LaunchChild t md model \<in> set outs \<Longrightarrow> t < length (tm_heap (rb_tasks rb))"
  shows "authorities_ok (task_effects c outs rb)"
  using assms unfolding task_effects_def
proof (induction outs arbitrary: rb)
  case (Cons e outs)
  have "authorities_ok (apply_task_effect c e rb)"
    by (rule task_effect_ok [OF Cons.prems(1)]) (use Cons.prems(2) in auto)
  moreover have "t < length (tm_heap (rb_tasks (apply_task_effect c e rb)))" if "LaunchChild t md model \<in> set outs" for t md model
    using Cons.prems(2) [of t md model] that by (simp add: task_effect_frame)
  ultimately show ?case using Cons.IH [of "apply_task_effect c e rb"] by simp
qed simp

section \<open>Harmless effects\<close>

definition source :: "rb_effect \<Rightarrow> string option" where
  "source e = (case e of McpCalled s _ \<Rightarrow> Some s | NativeAction s _ \<Rightarrow> Some s | AppAction s _ _ \<Rightarrow> Some s | _ \<Rightarrow> None)"

text \<open>A call of a tool that the configuration declares read-only, or one of the two reading operations on apps.\<close>

definition harmless :: "(string \<Rightarrow> (string \<times> bool) list) \<Rightarrow> rb_effect \<Rightarrow> bool" where
  "harmless P e =
     (case e of
        McpCalled _ call \<Rightarrow> (case call of ToolCall n _ tool ro \<Rightarrow> ro \<and> map_of (P n) tool = Some True | _ \<Rightarrow> False)
      | NativeAction _ _ \<Rightarrow> False
      | AppAction _ operation _ \<Rightarrow> operation \<in> {''app.list'', ''app.versions''}
      | _ \<Rightarrow> True)"

definition unsourced :: "rb_effect list \<Rightarrow> bool" where
  "unsourced outs \<longleftrightarrow> (\<forall>e \<in> set outs. source e = None)"

lemma unsourced_maps [simp]: "unsourced (map TaskEffect outs)" "unsourced (map McpManaged outs')" "unsourced []"
  by (auto simp: unsourced_def source_def)

lemma handleTask_unsourced: "handleTask env req rb = (r, outs, rb') \<Longrightarrow> unsourced outs"
  by (auto simp: handleTask_def split: prod.splits)

lemma requests_unsourced:
  "mode_request env req i rb = (r, outs, rb') \<Longrightarrow> unsourced outs"
  "mcp_toggle req rb = (r, outs, rb') \<Longrightarrow> unsourced outs"
  "mcp_reconnect req rb = (r, outs, rb') \<Longrightarrow> unsourced outs"
  "task_request env req rb = (r, outs, rb') \<Longrightarrow> unsourced outs"
  unfolding mode_request_def mcp_toggle_def mcp_reconnect_def task_request_def Let_def
  by (auto simp del: mcp_step.simps dest: handleTask_unsourced split: if_split_asm prod.splits sum.splits option.splits)

text \<open>Every sourced effect of a request comes from its session, and is harmless if its authority only reads.\<close>

lemma broker_handle_sourced:
  assumes op: "broker_handle env req rb = (r, outs, rb')" and mgr: "mgr_ok P mouts (rb_mcp rb)"
    and e: "e \<in> set outs" "source e = Some s"
  shows "s = br_sessionId req \<and> (\<exists>i. om_get (rb_authorities rb) (context_key (br_sessionId req) (br_generation req)) = Some i \<and>
    (reads_only rb (rb_objects rb ! i) \<longrightarrow> harmless P e))"
proof -
  have sourced: "\<not> unsourced outs" using e by (auto simp: unsourced_def)
  from op sourced obtain i where i: "om_get (rb_authorities rb) (context_key (br_sessionId req) (br_generation req)) = Some i"
    by (cases "om_get (rb_authorities rb) (context_key (br_sessionId req) (br_generation req))") (auto simp: broker_handle_def)
  let ?a = "rb_objects rb ! i"
  have quiet: "unsourced o1" if "mode_request env req i rb = (r1, o1, rb1) \<or> mcp_toggle req rb = (r1, o1, rb1) \<or>
      mcp_reconnect req rb = (r1, o1, rb1) \<or> task_request env req rb = (r1, o1, rb1)" for r1 o1 rb1
    using that requests_unsourced by metis
  from op i sourced quiet consider "mcp_call req ?a rb = (r, outs, rb')" | "native_file_action req ?a rb = (r, outs, rb')"
    | "app_request req ?a rb = (r, outs, rb')"
    unfolding broker_handle_def Let_def by (auto split: if_splits)
  then have "s = br_sessionId req \<and> (reads_only rb ?a \<longrightarrow> harmless P e)"
  proof cases
    case 1
    with e(1) obtain server tool call where
      call: "callTool server tool JUndefined (reads_only rb ?a) (rb_mcp rb) = Inr call" and o: "e = McpCalled (br_sessionId req) call"
      by (auto simp: mcp_call_def Let_def split: if_splits sum.splits)
    from callTool_authorised [OF call mgr] o e(2) show ?thesis by (auto simp: harmless_def source_def authorised_def)
  next
    case 2
    with e show ?thesis by (auto simp: native_file_action_def source_def split: if_splits)
  next
    case 3
    with e show ?thesis
      by (auto simp: app_request_def Let_def source_def harmless_def reads_only_def effective_mode_def split: if_splits)
  qed
  with i show ?thesis by blast
qed

section \<open>Every step keeps the invariant\<close>

fun mcp_part :: "rb_effect \<Rightarrow> mcp_effect list" where
  "mcp_part (McpCalled _ c) = [c]"
| "mcp_part (McpManaged c) = [c]"
| "mcp_part _ = []"

definition mcp_of :: "rb_effect list \<Rightarrow> mcp_effect list" where
  "mcp_of outs = concat (map mcp_part outs)"

lemma mcp_of_simps [simp]:
  "mcp_of [] = []" "mcp_of (e # es) = mcp_part e @ mcp_of es" "mcp_of (es @ fs) = mcp_of es @ mcp_of fs"
  "mcp_of (map TaskEffect ts) = []" "mcp_of (map McpManaged cs) = cs"
proof -
  show "mcp_of (map TaskEffect ts) = []" by (induction ts) (simp_all add: mcp_of_def)
  show "mcp_of (map McpManaged cs) = cs" by (induction cs) (simp_all add: mcp_of_def)
qed (simp_all add: mcp_of_def)

definition good :: "(string \<Rightarrow> (string \<times> bool) list) \<Rightarrow> mcp_effect list \<Rightarrow> runtime_brokers \<Rightarrow> rb_effect list \<Rightarrow> runtime_brokers \<Rightarrow> bool" where
  "good P mouts rb outs rb' \<longleftrightarrow> rb_inv P (mouts @ mcp_of outs) rb' \<and> kept (rb_tasks rb) (rb_tasks rb') \<and>
     rb_sessionId rb' = rb_sessionId rb \<and> rb_generation rb' = rb_generation rb"

lemma good_refl: "rb_inv P mouts rb \<Longrightarrow> good P mouts rb [] rb"
  by (simp add: good_def)

lemma tasks_moved:
  assumes inv: "rb_inv P mouts rb" and step: "fresh_ids e (rb_tasks rb)" "task_step e (rb_tasks rb) = (touts, m)"
    and launch: "\<And>t md model. LaunchChild t md model \<in> set touts \<Longrightarrow> t < length (tm_heap m)"
  shows "good P mouts rb (map TaskEffect touts) (task_effects c touts (rb\<lparr>rb_tasks := m\<rparr>))"
proof -
  from inv obtain t0 where h: "task_history (rb_sessionId rb) (rb_generation rb) (rb_tasks rb) t0" by (auto simp: rb_inv_def)
  note k = task_step_kept [OF h step]
  from inv have "authorities_ok (rb\<lparr>rb_tasks := m\<rparr>)" using authorities_kept [OF _ k(1)] by (simp add: rb_inv_def)
  then have "authorities_ok (task_effects c touts (rb\<lparr>rb_tasks := m\<rparr>))"
    by (rule task_effects_ok) (use launch in simp)
  with inv k show ?thesis by (auto simp: good_def rb_inv_def task_effects_frame)
qed

lemma handleTask_good:
  assumes "rb_inv P mouts rb" and "fresh_ids (task_event.Request (rv_task env) req) (rb_tasks rb)" and "handleTask env req rb = (r, outs, rb')"
  shows "good P mouts rb outs rb'"
proof -
  obtain r1 touts m where h: "handle (rv_task env) req (rb_tasks rb) = (r1, touts, m)" by (metis prod_cases3)
  have "good P mouts rb (map TaskEffect touts) (task_effects (rv_capability env) touts (rb\<lparr>rb_tasks := m\<rparr>))"
    by (rule tasks_moved [OF assms(1,2)]) (use h handle_launch [OF h] in simp_all)
  with h assms(3) show ?thesis by (simp add: handleTask_def)
qed

lemma mcp_moved:
  assumes "rb_inv P mouts rb" and "mcp_step e (rb_mcp rb) = (outs, m)"
  shows "good P mouts rb (map McpManaged outs) (rb\<lparr>rb_mcp := m\<rparr>)"
proof -
  from assms(1) have "mgr_ok P mouts (rb_mcp rb)" by (simp add: rb_inv_def)
  from mcp_step_ok [OF this assms(2)] assms(1) show ?thesis
    by (simp add: good_def rb_inv_def authorities_ok_def entry_ok_def)
qed

lemma good_frame:
  assumes "good P mouts rb outs rb'" and "rb_authorities rb'' = rb_authorities rb'" and "rb_tasks rb'' = rb_tasks rb'"
    and "rb_mcp rb'' = rb_mcp rb'" and "rb_sessionId rb'' = rb_sessionId rb'" and "rb_generation rb'' = rb_generation rb'"
    and "length (rb_objects rb'') = length (rb_objects rb')"
    and "\<And>i. i < length (rb_objects rb') \<Longrightarrow> au_root (rb_objects rb'' ! i) = au_root (rb_objects rb' ! i) \<and>
      au_readOnlyLocked (rb_objects rb'' ! i) = au_readOnlyLocked (rb_objects rb' ! i)"
  shows "good P mouts rb outs rb''"
  using assms(1) unfolding good_def rb_inv_def authorities_ok_def entry_ok_def assms(2-7) using assms(8) by simp metis

lemma pending_good: "good P mouts rb outs rb' \<Longrightarrow> good P mouts rb outs (pending_change b i md rb')"
  by (rule good_frame) (simp_all add: pending_change_def)

lemma mode_request_good:
  assumes inv: "rb_inv P mouts rb" and fresh: "fresh_ids (task_event.Request (rv_task env) req) (rb_tasks rb)"
    and op: "mode_request env req i rb = (r, outs, rb')"
  shows "good P mouts rb outs rb'"
proof -
  let ?md = "mode_of (member (br_payload req) ''mode'')"
  obtain touts m where root: "setRootMode (te_now (rv_task env)) ?md (rb_tasks rb) = (touts, m)" by fastforce
  have "task_step (SetRootMode ?md (te_now (rv_task env))) (rb_tasks rb) = (touts, m)" using root by simp
  then have 1: "good P mouts rb (map TaskEffect touts) (task_effects (rv_capability env) touts (rb\<lparr>rb_tasks := m\<rparr>))"
    by (rule tasks_moved [OF inv, rotated]) (use setRootMode_no_launch [OF root] in \<open>simp_all add: no_launch_def\<close>)
  obtain r2 o2 rb2 where h: "handleTask env req rb = (r2, o2, rb2)" by (metis prod_cases3)
  note 2 = handleTask_good [OF inv fresh h]
  have 3: "good P mouts rb [] (task_effects (rv_capability env) [] (rb\<lparr>rb_tasks := rb_tasks rb\<rparr>))"
    using good_refl [OF inv] by (simp add: task_effects_def)
  show ?thesis
    using op root h good_refl [OF inv] 2 pending_good [OF 1] pending_good [OF 2] pending_good [OF 3]
    unfolding mode_request_def Let_def by (auto split: if_split_asm sum.splits)
qed

lemma broker_handle_good:
  assumes inv: "rb_inv P mouts rb" and fresh: "fresh_ids (task_event.Request (rv_task env) req) (rb_tasks rb)"
    and op: "broker_handle env req rb = (r, outs, rb')"
  shows "good P mouts rb outs rb'"
proof (cases "om_get (rb_authorities rb) (context_key (br_sessionId req) (br_generation req))")
  case None
  with op good_refl [OF inv] show ?thesis by (auto simp: broker_handle_def)
next
  case (Some i)
  let ?a = "rb_objects rb ! i"
  have call: "good P mouts rb o1 rb1" if "mcp_call req ?a rb = (r1, o1, rb1)" for r1 o1 rb1
  proof -
    have rb1: "rb1 = rb" using that by (auto simp: mcp_call_def Let_def split: if_splits sum.splits)
    have "mgr_ok P mouts (rb_mcp rb)" using inv by (simp add: rb_inv_def)
    moreover have "o1 = [] \<or> (\<exists>server tool c. callTool server tool JUndefined (reads_only rb ?a) (rb_mcp rb) = Inr c \<and>
        o1 = [McpCalled (br_sessionId req) c])"
      using that by (auto simp: mcp_call_def Let_def split: if_splits sum.splits)
    ultimately have "o1 = [] \<or> (\<exists>s n e t ro. o1 = [McpCalled s (ToolCall n e t ro)])"
      using callTool_authorised by metis
    with inv rb1 show ?thesis by (auto simp: good_def rb_inv_def mgr_ok_def)
  qed
  have other: "good P mouts rb o1 rb1"
    if "native_file_action req ?a rb = (r1, o1, rb1) \<or> app_request req ?a rb = (r1, o1, rb1)" for r1 o1 rb1
    using that inv by (auto simp: native_file_action_def app_request_def Let_def good_def split: if_splits)
  have switch: "good P mouts rb o1 rb1"
    if "mcp_toggle req rb = (r1, o1, rb1) \<or> mcp_reconnect req rb = (r1, o1, rb1)" for r1 o1 rb1
    using that good_refl [OF inv] mcp_moved [OF inv] unfolding mcp_toggle_def mcp_reconnect_def Let_def
    by (auto simp del: mcp_step.simps split: if_split_asm prod.splits option.splits)
  have task: "good P mouts rb o1 rb1" if "task_request env req rb = (r1, o1, rb1)" for r1 o1 rb1
    using that good_refl [OF inv] handleTask_good [OF inv fresh] by (auto simp: task_request_def split: if_splits prod.splits)
  from op Some call other [OF disjI1] other [OF disjI2] switch [OF disjI1] switch [OF disjI2] task
    mode_request_good [OF inv fresh] good_refl [OF inv] show ?thesis
    unfolding broker_handle_def Let_def by (auto split: if_splits)
qed

lemma mode_update_same:
  "i < length xs \<Longrightarrow> au_root (xs[j := (xs ! j)\<lparr>au_mode := md\<rparr>] ! i) = au_root (xs ! i) \<and>
     au_readOnlyLocked (xs[j := (xs ! j)\<lparr>au_mode := md\<rparr>] ! i) = au_readOnlyLocked (xs ! i)"
  by (cases "i = j") simp_all

lemma rb_step_good:
  assumes inv: "rb_inv P mouts rb" and fresh: "fresh_request e rb" and step: "rb_step e rb = (outs, rb')"
  shows "good P mouts rb outs rb'"
proof (cases e)
  case (HandleRequest env req)
  obtain r o1 rb1 where "broker_handle env req rb = (r, o1, rb1)" by (metis prod_cases3)
  with HandleRequest step broker_handle_good [OF inv] fresh show ?thesis by simp
next
  case (ModeReturns n ok)
  with step have "outs = []" "rb' = mode_returns n ok rb" by simp_all
  moreover have "good P mouts rb [] (mode_returns n ok rb)"
    by (rule good_frame [OF good_refl [OF inv]]) (auto simp: mode_returns_def Let_def mode_update_same)
  ultimately show ?thesis by simp
next
  case (TaskStep c ev)
  obtain touts m where t: "task_step ev (rb_tasks rb) = (touts, m)" by fastforce
  have "good P mouts rb (map TaskEffect touts) (task_effects c touts (rb\<lparr>rb_tasks := m\<rparr>))" if "\<not> from_outside ev"
  proof (rule tasks_moved [OF inv _ t])
    show "fresh_ids ev (rb_tasks rb)" using that by (cases ev) simp_all
  qed (use inner_step_no_launch [OF t that] in \<open>simp add: no_launch_def\<close>)
  with TaskStep step t good_refl [OF inv] show ?thesis by (auto split: if_splits)
next
  case (McpStep ev)
  obtain mo m where t: "mcp_step ev (rb_mcp rb) = (mo, m)" by fastforce
  from mcp_moved [OF inv t] good_refl [OF inv] McpStep step t show ?thesis
    by (cases ev) (auto simp del: mcp_step.simps)
next
  case DisposeBrokers
  obtain mo m where t: "mcp_step DisposeServers (rb_mcp rb) = (mo, m)" by fastforce
  from mcp_moved [OF inv t] have "good P mouts rb (map McpManaged mo) (rb\<lparr>rb_disposed := True, rb_authorities := [], rb_mcp := m\<rparr>)"
    by (auto simp: good_def rb_inv_def authorities_ok_def)
  with DisposeBrokers step t good_refl [OF inv] show ?thesis by (auto simp: dispose_brokers_def split: if_splits)
qed

section \<open>Histories\<close>

text \<open>An effect comes from the root, or from a task that exists, and is harmless if that task is read-only.\<close>

definition accounted_for :: "(string \<Rightarrow> (string \<times> bool) list) \<Rightarrow> runtime_brokers \<Rightarrow> rb_effect \<Rightarrow> bool" where
  "accounted_for P rb e \<longleftrightarrow> (\<forall>s. source e = Some s \<longrightarrow>
     s = rb_sessionId rb \<or> (\<exists>x \<in> set (tm_heap (rb_tasks rb)). at_sessionId x = s \<and> (at_readOnly x \<longrightarrow> harmless P e)))"

lemma accounted_kept:
  "accounted_for P rb e \<Longrightarrow> kept (rb_tasks rb) (rb_tasks rb') \<Longrightarrow> rb_sessionId rb' = rb_sessionId rb \<Longrightarrow> accounted_for P rb' e"
  unfolding accounted_for_def kept_def by metis

lemma step_accounted:
  assumes inv: "rb_inv P mouts rb" and step: "rb_step e rb = (outs, rb')" and x: "x \<in> set outs"
  shows "accounted_for P rb x"
proof (cases "\<exists>env req. e = HandleRequest env req")
  case True
  then obtain env req where e: "e = HandleRequest env req" by blast
  obtain r where op: "broker_handle env req rb = (r, outs, rb')" using e step by (metis prod.collapse rb_step.simps(1))
  from inv have mgr: "mgr_ok P mouts (rb_mcp rb)" and auth: "authorities_ok rb" by (simp_all add: rb_inv_def)
  show ?thesis unfolding accounted_for_def
  proof (intro allI impI)
    fix s assume "source x = Some s"
    from broker_handle_sourced [OF op mgr x this] authority_found [OF auth] show
      "s = rb_sessionId rb \<or> (\<exists>y \<in> set (tm_heap (rb_tasks rb)). at_sessionId y = s \<and> (at_readOnly y \<longrightarrow> harmless P x))"
      by blast
  qed
next
  case False
  then have "unsourced outs"
    using step by (cases e) (auto simp: dispose_brokers_def split: if_splits prod.splits mcp_event.splits)
  with x show ?thesis by (simp add: unsourced_def accounted_for_def)
qed

lemma rb_history_accounted:
  assumes "rb_history rb0 rb outs" and "rb_inv P [] rb0"
  shows "rb_inv P (mcp_of outs) rb \<and> (\<forall>e \<in> set outs. accounted_for P rb e) \<and> rb_sessionId rb = rb_sessionId rb0"
  using assms(1)
proof (induction rule: rb_history.induct)
  case (rb_stepped rb outs e outs' rb')
  then have inv: "rb_inv P (mcp_of outs) rb" by simp
  note g = rb_step_good [OF inv rb_stepped.hyps(2,3)]
  have "accounted_for P rb' x" if "x \<in> set outs \<union> set outs'" for x
    using that rb_stepped.IH step_accounted [OF inv rb_stepped.hyps(3)] g accounted_kept unfolding good_def by blast
  with g rb_stepped.IH show ?case by (simp add: good_def)
qed (use assms(2) in simp)

lemma new_runtime_brokers_inv:
  assumes "mgr_ok P [] mcp"
  shows "rb_inv P [] (new_runtime_brokers s g mode cap mcp b1 b2 b3 model)"
proof -
  have "\<exists>touts. task_history s g (new_task_manager s g mode model) touts" using task_history.created by blast
  with assms show ?thesis
    by (auto simp: rb_inv_def new_runtime_brokers_def authorities_ok_def entry_ok_def om_get_def split: if_splits)
qed


text \<open>
  While the session is in Plan mode, a request of the root, and a request of a task in Plan mode, has no
  effect beyond calls of tools declared read-only and the two reading operations on apps.
\<close>

theorem plan_mode_requests_are_harmless:
  assumes "new_mcp_manager parse_url servers cs = (Some mcp, cs')"
    and "rb_history (new_runtime_brokers s g mode cap mcp hasTasks hasNative hasApp model) rb outs"
    and "om_get (rb_authorities rb) (context_key (br_sessionId req) (br_generation req)) = Some i"
    and "effective_mode rb (rb_objects rb ! i) = PlanMode" and "broker_handle env req rb = (r, outs', rb')"
  shows "\<forall>e \<in> set outs'. source e = None \<or> harmless (\<lambda>n. rt_policies (the (om_get (mm_runtimes mcp) n))) e"
proof
  fix e assume e: "e \<in> set outs'"
  note H = rb_history_accounted [OF assms(2) new_runtime_brokers_inv [OF new_manager_ok [OF assms(1)]]]
  then have mgr: "mgr_ok (\<lambda>n. rt_policies (the (om_get (mm_runtimes mcp) n))) (mcp_of outs) (rb_mcp rb)" by (simp add: rb_inv_def)
  show "source e = None \<or> harmless (\<lambda>n. rt_policies (the (om_get (mm_runtimes mcp) n))) e"
    using broker_handle_sourced [OF assms(5) mgr e] assms(3,4) by (cases "source e") (auto simp: reads_only_def)
qed

section \<open>Examples\<close>

fun rb_run :: "rb_event list \<Rightarrow> runtime_brokers \<Rightarrow> (rb_effect list \<times> runtime_brokers) option" where
  "rb_run [] rb = Some ([], rb)"
| "rb_run (e # es) rb =
     (if \<not> fresh_request e rb then None
      else (let (o1, rb1) = rb_step e rb in map_option (\<lambda>(o2, rb2). (o1 @ o2, rb2)) (rb_run es rb1)))"

lemma rb_run_history:
  assumes "rb_history rb0 rb outs" and "rb_run es rb = Some (outs', rb')"
  shows "rb_history rb0 rb' (outs @ outs')"
  using assms
proof (induction es arbitrary: rb outs outs')
  case (Cons e es)
  obtain o1 rb1 where step: "rb_step e rb = (o1, rb1)" by fastforce
  with Cons.prems(2) obtain o2 where fresh: "fresh_request e rb" and rest: "rb_run es rb1 = Some (o2, rb')" and o: "outs' = o1 @ o2"
    by (auto split: if_splits)
  from Cons.IH [OF rb_stepped [OF Cons.prems(1) fresh step] rest] o show ?case by simp
qed simp

definition sample_rb_env :: "string \<Rightarrow> rb_env" where
  "sample_rb_env i = \<lparr>rv_capability = ''child'', rv_task = \<lparr>te_now = 10, te_Number = (\<lambda>v. v), te_localeCompare = (\<lambda>_ _. 0),
     te_taskId = i, te_sessionId = ''s'' @ i, te_setup = True, te_aborted = False, te_transport = (\<lambda>_. True)\<rparr>\<rparr>"

definition broker_ask :: "string \<Rightarrow> string \<Rightarrow> (string \<times> json) list \<Rightarrow> broker_request" where
  "broker_ask sessionId operation payload =
     \<lparr>br_sessionId = sessionId, br_generation = 1, br_operation = operation, br_payload = JObject payload\<rparr>"

definition asks :: "string \<Rightarrow> string \<Rightarrow> (string \<times> json) list \<Rightarrow> rb_event" where
  "asks sessionId operation payload = HandleRequest (sample_rb_env (if operation = ''task.start'' then ''a'' else ''b'')) (broker_ask sessionId operation payload)"

definition call_of :: "string \<Rightarrow> (string \<times> json) list" where
  "call_of tool = [(''server'', JString ''a''), (''tool'', JString tool)]"

definition sample_rb :: runtime_brokers where
  "sample_rb = new_runtime_brokers ''root'' 1 AgentMode ''cap'' sample_manager True True True JNull"

text \<open>A read-only task reads through MCP and is refused everything else.\<close>

definition reading_task :: "rb_event list" where
  "reading_task = map McpStep connected @
     [asks ''root'' ''task.start'' [(''depth'', JNumber (JInt 1)), (''prompt'', JString ''look''), (''readOnly'', JBool True)],
      asks ''sa'' ''mcp.call'' (call_of ''change''), asks ''sa'' ''native-file.action'' [], asks ''sa'' ''app.deploy'' [],
      asks ''sa'' ''mcp.call'' (call_of ''look'')]"

lemma reading_task_run:
  "map_option (\<lambda>(outs, rb). (filter (\<lambda>e. source e \<noteq> None) outs, map (\<lambda>x. (at_sessionId x, at_readOnly x)) (tm_heap (rb_tasks rb))))
     (rb_run reading_task sample_rb) = Some ([McpCalled ''sa'' (ToolCall ''a'' 1 ''look'' True)], [(''sa'', True)])"
  by code_simp


definition planning :: "rb_event list" where
  "planning = map McpStep connected @ [asks ''root'' ''mode.set'' [(''mode'', JString ''plan'')], ModeReturns 0 True]"

lemma planning_run:
  "map_option (\<lambda>(outs, rb). (om_get (rb_authorities rb) (context_key ''root'' 1), effective_mode rb (rb_objects rb ! 0),
       fst (snd (broker_handle (sample_rb_env ''b'') (broker_ask ''root'' ''mcp.call'' (call_of ''look'')) rb)),
       fst (snd (broker_handle (sample_rb_env ''b'') (broker_ask ''root'' ''mcp.call'' (call_of ''change'')) rb))))
     (rb_run planning sample_rb) = Some (Some 0, PlanMode, [McpCalled ''root'' (ToolCall ''a'' 1 ''look'' True)], [])"
  by code_simp

theorem plan_mode_requests_are_harmless_witness:
  "harmless (\<lambda>n. rt_policies (the (om_get (mm_runtimes sample_manager) n))) (McpCalled ''root'' (ToolCall ''a'' 1 ''look'' True))"
proof -
  let ?req = "broker_ask ''root'' ''mcp.call'' (call_of ''look'')"
  obtain outs rb where run: "rb_run planning sample_rb = Some (outs, rb)" using planning_run by auto
  obtain r outs' rb' where op: "broker_handle (sample_rb_env ''b'') ?req rb = (r, outs', rb')" by (metis prod_cases3)
  have req: "br_sessionId ?req = ''root''" "br_generation ?req = 1" by (simp_all add: broker_ask_def)
  from planning_run run op have "om_get (rb_authorities rb) (context_key (br_sessionId ?req) (br_generation ?req)) = Some 0"
    and "effective_mode rb (rb_objects rb ! 0) = PlanMode" and o: "outs' = [McpCalled ''root'' (ToolCall ''a'' 1 ''look'' True)]"
    unfolding req by simp_all
  with plan_mode_requests_are_harmless [OF sample_manager_new _ this(1,2) op] rb_run_history [OF rb_created run]
  show ?thesis by (simp add: sample_rb_def source_def)
qed

text \<open>
  Two switches of the root that overlap: the one to Plan mode waits for the tasks it stops, the one back to Agent mode
  does not. The broker records the modes in the order in which the waits end, the task manager has set them in the
  order of the requests: the session is in Plan mode and its tasks may still be started writable.
\<close>

lemma overlapping_switches_diverge:
  "map_option (\<lambda>(outs, rb). (rb_activeMode rb, map pc_mode (tm_ctxs (rb_tasks rb))))
     (rb_run [asks ''root'' ''mode.set'' [(''mode'', JString ''plan'')], asks ''root'' ''mode.set'' [(''mode'', JString ''agent'')],
        ModeReturns 1 True, ModeReturns 0 True] sample_rb) = Some (PlanMode, [AgentMode])"
  by code_simp

end
