(* ===== verification/Atomic_Json_Store.thy ===== *)
theory Atomic_Json_Store
  imports Prelude
begin

text \<open>
  Crash-safe JSON files (web/server/atomic-json-store.ts): an envelope with a revision, replaced by writing a
  temporary file and renaming it over the old one.

  The files of one store are a record: the file itself, the backup of a file without envelope, the temporary files
  and the quarantined texts. A commit is the list of the states it goes through, so that a crash is a position in
  that list; copying a backup and filling the temporary file take many. \<open>JSON.parse\<close>, \<open>JSON.stringify\<close> and the normaliser of a store are parameters. Modes, \<open>fsync\<close> and the
  names of temporary and quarantined files are left out; a rename fails or replaces the file at once.
\<close>

section \<open>State\<close>

record 'v store_options =
  so_schemaVersion :: int
  so_normalize :: "json \<Rightarrow> 'v option"
  so_data :: "'v \<Rightarrow> json"
  so_defaultValue :: "'v option"
  so_quarantineCorrupt :: bool
  so_backupLegacy :: bool
  so_parse :: "string \<Rightarrow> json option"
  so_print :: "json \<Rightarrow> string"

record json_files =
  jf_file :: "string option"
  jf_backup :: "string option"
  jf_temps :: "string list"
  jf_quarantined :: "string list"

record 'v envelope =
  en_schemaVersion :: int
  en_revision :: int
  en_updatedAt :: string
  en_data :: 'v

record 'v read_result =
  rr_value :: 'v
  rr_envelope :: "'v envelope option"
  rr_legacy :: bool

datatype store_error = RevisionConflict int int | NormalizeFailed | MissingFile | AlreadyCommitted | WriteFailed

definition cleanupTempFiles :: "json_files \<Rightarrow> nat \<times> json_files" where
  "cleanupTempFiles f = (length (jf_temps f), f\<lparr>jf_temps := []\<rparr>)"

section \<open>Reading\<close>

fun is_js_integer :: "json \<Rightarrow> bool" where
  "is_js_integer (JNumber (JInt _)) = True"
| "is_js_integer _ = False"

definition isAtomicJsonEnvelope :: "json \<Rightarrow> bool" where
  "isAtomicJsonEnvelope v \<longleftrightarrow>
     is_record v \<and> is_js_integer (member v ''schemaVersion'') \<and> number_of (member v ''schemaVersion'') > 0 \<and>
     is_js_integer (member v ''revision'') \<and> number_of (member v ''revision'') \<ge> 0 \<and>
     is_js_string (member v ''updatedAt'') \<and> ''data'' \<in> set (object_keys v)"

text \<open>\<open>quarantineFile\<close>: \<open>renames\<close> says whether the rename succeeds.\<close>

definition quarantineFile :: "bool \<Rightarrow> json_files \<Rightarrow> bool \<times> json_files" where
  "quarantineFile renames f =
     (case jf_file f of
        None \<Rightarrow> (False, f)
      | Some text \<Rightarrow>
          if renames then (True, f\<lparr>jf_file := None, jf_quarantined := text # jf_quarantined f\<rparr>) else (False, f))"

definition default_result :: "'v store_options \<Rightarrow> 'v read_result option" where
  "default_result so = map_option (\<lambda>v. \<lparr>rr_value = v, rr_envelope = None, rr_legacy = False\<rparr>) (so_defaultValue so)"

definition read_text :: "'v store_options \<Rightarrow> string \<Rightarrow> 'v read_result option" where
  "read_text so text =
     (case so_parse so text of
        None \<Rightarrow> None
      | Some parsed \<Rightarrow>
          if isAtomicJsonEnvelope parsed then
            map_option (\<lambda>v. \<lparr>rr_value = v,
                rr_envelope = Some \<lparr>en_schemaVersion = number_of (member parsed ''schemaVersion''),
                  en_revision = number_of (member parsed ''revision''), en_updatedAt = str_of (member parsed ''updatedAt''), en_data = v\<rparr>,
                rr_legacy = False\<rparr>) (so_normalize so (member parsed ''data''))
          else map_option (\<lambda>v. \<lparr>rr_value = v, rr_envelope = None, rr_legacy = True\<rparr>) (so_normalize so parsed))"

definition store_read :: "'v store_options \<Rightarrow> bool \<Rightarrow> json_files \<Rightarrow> 'v read_result option \<times> json_files" where
  "store_read so renames f =
     (case jf_file f of
        None \<Rightarrow> (default_result so, f)
      | Some text \<Rightarrow>
          (case read_text so text of
             Some r \<Rightarrow> (Some r, f)
           | None \<Rightarrow> (default_result so, if so_quarantineCorrupt so then snd (quarantineFile renames f) else f)))"

definition readValue :: "'v store_options \<Rightarrow> bool \<Rightarrow> json_files \<Rightarrow> 'v option \<times> json_files" where
  "readValue so renames f = (let (r, f') = store_read so renames f in (map_option rr_value r, f'))"

section \<open>Writing\<close>

record 'v prepared =
  pw_envelope :: "'v envelope"
  pw_serialized :: string
  pw_backup :: bool
  pw_legacyBackupBytes :: nat
  pw_committed :: bool

definition envelope_json :: "'v store_options \<Rightarrow> 'v envelope \<Rightarrow> json" where
  "envelope_json so e = JObject [(''schemaVersion'', JNumber (JInt (en_schemaVersion e))), (''revision'', JNumber (JInt (en_revision e))),
     (''updatedAt'', JString (en_updatedAt e)), (''data'', so_data so (en_data e))]"

definition revision_of :: "'v read_result option \<Rightarrow> int" where
  "revision_of r = (case r of None \<Rightarrow> 0 | Some x \<Rightarrow> (case rr_envelope x of None \<Rightarrow> 0 | Some e \<Rightarrow> en_revision e))"

definition should_backup :: "'v store_options \<Rightarrow> 'v read_result option \<Rightarrow> bool option \<Rightarrow> bool" where
  "should_backup so current backup \<longleftrightarrow>
     (case current of None \<Rightarrow> False | Some r \<Rightarrow> rr_legacy r) \<and> (case backup of None \<Rightarrow> so_backupLegacy so | Some b \<Rightarrow> b)"

text \<open>The part of \<open>prepareWrite\<close> behind the check of the revision.\<close>

definition prepare_checked :: "'v store_options \<Rightarrow> string \<Rightarrow> json \<Rightarrow> 'v read_result option \<Rightarrow> bool option \<Rightarrow> json_files \<Rightarrow>
    (store_error + 'v prepared) \<times> json_files" where
  "prepare_checked so now v current backup f =
     (case so_normalize so v of
        None \<Rightarrow> (Inl NormalizeFailed, f)
      | Some value \<Rightarrow>
          let backs = should_backup so current backup;
              e = \<lparr>en_schemaVersion = so_schemaVersion so, en_revision = revision_of current + 1, en_updatedAt = now, en_data = value\<rparr>
          in (Inr \<lparr>pw_envelope = e, pw_serialized = so_print so (envelope_json so e), pw_backup = backs,
                pw_legacyBackupBytes =
                  (if backs \<and> jf_backup f = None then (case jf_file f of None \<Rightarrow> 0 | Some t \<Rightarrow> utf8_length t) else 0),
                pw_committed = False\<rparr>, f))"

text \<open>\<open>expected\<close> is \<open>options.expectedRevision\<close>, \<open>backup\<close> is \<open>options.backupLegacy\<close>; the value is given as JSON.\<close>

definition prepareWrite :: "'v store_options \<Rightarrow> bool \<Rightarrow> string \<Rightarrow> json \<Rightarrow> int option \<Rightarrow> bool option \<Rightarrow> json_files \<Rightarrow>
    (store_error + 'v prepared) \<times> json_files" where
  "prepareWrite so renames now v expected backup f =
     (let (current, f1) = store_read so renames f in
      case expected of
        Some r \<Rightarrow>
          if r \<noteq> revision_of current then (Inl (RevisionConflict r (revision_of current)), f1)
          else prepare_checked so now v current backup f1
      | None \<Rightarrow> prepare_checked so now v current backup f1)"

definition serializedBytes :: "'v prepared \<Rightarrow> nat" where
  "serializedBytes p = utf8_length (pw_serialized p)"

definition reservationBytes :: "'v prepared \<Rightarrow> nat" where
  "reservationBytes p = serializedBytes p + pw_legacyBackupBytes p"

text \<open>\<open>backupLegacyFile\<close>: the states of the copy, the last of which is the whole backup.\<close>

definition backupLegacyFile :: "json_files \<Rightarrow> json_files list" where
  "backupLegacyFile f =
     (case jf_file f of
        None \<Rightarrow> []
      | Some t \<Rightarrow> if jf_backup f \<noteq> None then [] else map (\<lambda>n. f\<lparr>jf_backup := Some (take n t)\<rparr>) [0..<length t + 1])"

text \<open>\<open>writeEnvelope\<close>: the temporary file grows to the whole text, then it takes the place of the file.\<close>

definition temp_states :: "string \<Rightarrow> json_files \<Rightarrow> json_files list" where
  "temp_states text f = map (\<lambda>n. f\<lparr>jf_temps := take n text # jf_temps f\<rparr>) [0..<length text + 1]"

definition writeEnvelope :: "string \<Rightarrow> json_files \<Rightarrow> json_files list" where
  "writeEnvelope text f = temp_states text f @ [f\<lparr>jf_file := Some text\<rparr>]"

definition backup_states :: "'v prepared \<Rightarrow> json_files \<Rightarrow> json_files list" where
  "backup_states p f = f # (if pw_backup p then backupLegacyFile f else [])"

definition commit_states :: "'v prepared \<Rightarrow> json_files \<Rightarrow> json_files list" where
  "commit_states p f = (let before = backup_states p f in before @ writeEnvelope (pw_serialized p) (last before))"

text \<open>With \<open>fails\<close>, opening, writing or renaming the temporary file throws: the file is removed and the error passed on.\<close>

definition commit :: "bool \<Rightarrow> 'v prepared \<Rightarrow> json_files \<Rightarrow> (store_error + 'v envelope) \<times> 'v prepared \<times> json_files" where
  "commit fails p f =
     (if pw_committed p then (Inl AlreadyCommitted, p, f)
      else if fails then (Inl WriteFailed, p\<lparr>pw_committed := True\<rparr>, last (backup_states p f))
      else (Inr (pw_envelope p), p\<lparr>pw_committed := True\<rparr>, last (commit_states p f)))"

definition store_write :: "'v store_options \<Rightarrow> bool \<Rightarrow> bool \<Rightarrow> string \<Rightarrow> json \<Rightarrow> int option \<Rightarrow> bool option \<Rightarrow> json_files \<Rightarrow>
    (store_error + 'v envelope) \<times> json_files" where
  "store_write so renames fails now v expected backup f =
     (case prepareWrite so renames now v expected backup f of
        (Inl e, f1) \<Rightarrow> (Inl e, f1)
      | (Inr p, f1) \<Rightarrow> (case commit fails p f1 of (r, _, f2) \<Rightarrow> (r, f2)))"

text \<open>The mutator of \<open>update\<close> gives its result as JSON.\<close>

definition store_update :: "'v store_options \<Rightarrow> bool \<Rightarrow> bool \<Rightarrow> string \<Rightarrow> ('v \<Rightarrow> json) \<Rightarrow> json_files \<Rightarrow> (store_error + 'v envelope) \<times> json_files" where
  "store_update so renames fails now mutator f =
     (case store_read so renames f of
        (None, f1) \<Rightarrow> (Inl MissingFile, f1)
      | (Some current, f1) \<Rightarrow> store_write so renames fails now (mutator (rr_value current)) (Some (revision_of (Some current))) None f1)"

definition reconcile :: "'v store_options \<Rightarrow> bool \<Rightarrow> json_files \<Rightarrow> nat \<times> bool \<times> json_files" where
  "reconcile so renames f =
     (let (removed, f1) = cleanupTempFiles f in
      case jf_file f1 of
        None \<Rightarrow> (removed, False, f1)
      | Some t \<Rightarrow>
          if so_parse so t \<noteq> None then (removed, False, f1)
          else if so_quarantineCorrupt so then (let (moved, f2) = quarantineFile renames f1 in (removed, moved, f2))
          else (removed, False, f1))"

section \<open>Crashes\<close>

text \<open>Reading looks at the file only, and reading again gives the same.\<close>

definition seen_value :: "'v store_options \<Rightarrow> json_files \<Rightarrow> 'v read_result option" where
  "seen_value so f = (case jf_file f of None \<Rightarrow> default_result so
     | Some t \<Rightarrow> (case read_text so t of Some r \<Rightarrow> Some r | None \<Rightarrow> default_result so))"

lemma store_read_seen: "fst (store_read so renames f) = seen_value so f"
  by (simp add: store_read_def seen_value_def split: option.split)

lemma seen_value_file: "jf_file g = jf_file f \<Longrightarrow> seen_value so g = seen_value so f"
  by (simp add: seen_value_def)

lemma store_read_again: "seen_value so (snd (store_read so renames f)) = seen_value so f"
  by (auto simp: store_read_def seen_value_def quarantineFile_def split: option.split)

lemma backup_state_file: "g \<in> set (backup_states p f) \<Longrightarrow> jf_file g = jf_file f"
  by (auto simp: backup_states_def backupLegacyFile_def split: if_splits option.splits)

lemma last_backup_state: "last (backup_states p f) \<in> set (backup_states p f)"
  by (rule last_in_set) (simp add: backup_states_def)

text \<open>The backup is whole before the temporary file is opened.\<close>

lemma backup_complete:
  assumes "pw_backup p"
  shows "jf_backup (last (backup_states p f)) = (if jf_backup f = None then jf_file f else jf_backup f)"
  using assms by (auto simp: backup_states_def backupLegacyFile_def split: option.splits)

lemma commit_state_cases:
  assumes "g \<in> set (commit_states p f)"
  shows "g \<in> set (backup_states p f) \<or> jf_file g = jf_file f \<and> jf_backup g = jf_backup (last (backup_states p f)) \<or>
    jf_file g = Some (pw_serialized p) \<and> jf_backup g = jf_backup (last (backup_states p f))"
  using assms backup_state_file [OF last_backup_state, of p f]
  by (auto simp: commit_states_def writeEnvelope_def temp_states_def Let_def)

lemma last_commit_state: "jf_file (last (commit_states p f)) = Some (pw_serialized p)"
  by (simp add: commit_states_def writeEnvelope_def Let_def)

lemma last_in_commit_states: "last (commit_states p f) \<in> set (commit_states p f)"
  by (rule last_in_set) (simp add: commit_states_def writeEnvelope_def Let_def)

text \<open>What a prepared write was prepared from.\<close>

lemma prepared_facts:
  assumes "prepareWrite so renames now v expected backup f = (Inr p, f1)"
  shows "f1 = snd (store_read so renames f)" and "expected = None \<or> expected = Some (revision_of (seen_value so f))"
    and "\<exists>x. so_normalize so v = Some x \<and>
      pw_envelope p = \<lparr>en_schemaVersion = so_schemaVersion so, en_revision = revision_of (seen_value so f) + 1, en_updatedAt = now, en_data = x\<rparr>"
    and "pw_serialized p = so_print so (envelope_json so (pw_envelope p))" and "\<not> pw_committed p"
    and "pw_backup p = should_backup so (seen_value so f) backup"
  using assms store_read_seen [of so renames f]
  by (auto simp: prepareWrite_def prepare_checked_def Let_def split: prod.splits option.splits if_splits)

lemma member_simps [simp]:
  "member (JObject ((k, v) # ms)) k' = (if k' = k then v else member (JObject ms) k')" "member (JObject []) k' = JUndefined"
  by (simp_all add: member_def)

text \<open>The law of the JSON text: what is printed is read back.\<close>

lemma envelope_read_back:
  assumes "so_parse so (so_print so (envelope_json so e)) = Some (envelope_json so e)" and "so_normalize so (so_data so (en_data e)) = Some (en_data e)"
    and "en_schemaVersion e > 0" and "en_revision e \<ge> 0"
  shows "read_text so (so_print so (envelope_json so e)) = Some \<lparr>rr_value = en_data e, rr_envelope = Some e, rr_legacy = False\<rparr>"
proof -
  have "isAtomicJsonEnvelope (envelope_json so e)"
    using assms(3,4) by (simp add: isAtomicJsonEnvelope_def envelope_json_def object_keys_def)
  with assms(1,2) show ?thesis by (simp add: read_text_def envelope_json_def)
qed

lemma revision_nonneg: "0 \<le> revision_of (seen_value so f)"
  by (auto simp: seen_value_def read_text_def default_result_def revision_of_def isAtomicJsonEnvelope_def split: option.splits)

text \<open>The laws of text and normaliser for one prepared write.\<close>

definition readable :: "'v store_options \<Rightarrow> 'v prepared \<Rightarrow> bool" where
  "readable so p \<longleftrightarrow> so_parse so (so_print so (envelope_json so (pw_envelope p))) = Some (envelope_json so (pw_envelope p)) \<and>
     so_normalize so (so_data so (en_data (pw_envelope p))) = Some (en_data (pw_envelope p)) \<and> so_schemaVersion so > 0"

definition written :: "'v prepared \<Rightarrow> 'v read_result" where
  "written p = \<lparr>rr_value = en_data (pw_envelope p), rr_envelope = Some (pw_envelope p), rr_legacy = False\<rparr>"

lemma seen_written:
  assumes "prepareWrite so renames now v expected backup f = (Inr p, f1)" and "readable so p" and "jf_file g = Some (pw_serialized p)"
  shows "seen_value so g = Some (written p)"
proof -
  note P = prepared_facts [OF assms(1)]
  have "read_text so (pw_serialized p) = Some (written p)"
    unfolding P(4) written_def
    by (rule envelope_read_back) (use assms(2) P(3) revision_nonneg [of so f] in \<open>auto simp: readable_def\<close>)
  with assms(3) show ?thesis by (simp add: seen_value_def)
qed


text \<open>
  C36. No update is lost: of two writes that were decided on the same revision, the second is refused, with both
  revisions in the error, and leaves the files as the first has left them.
\<close>

theorem second_writer_conflicts:
  assumes "prepareWrite so renames now v (Some r) backup f = (Inr p, f1)" and "readable so p" and "commit fails p f1 = (Inr e, p', f2)"
  shows "en_revision e = r + 1 \<and> store_write so renames' fails' now' v' (Some r) backup' f2 = (Inl (RevisionConflict r (r + 1)), f2)"
proof -
  note P = prepared_facts [OF assms(1)]
  have f2: "jf_file f2 = Some (pw_serialized p)" and e: "e = pw_envelope p"
    using assms(3) last_commit_state [of p f1] by (auto simp: commit_def split: if_splits)
  have s: "seen_value so f2 = Some (written p)" by (rule seen_written [OF assms(1,2) f2])
  have "read_text so (pw_serialized p) \<noteq> None"
    using s f2 P(4) envelope_read_back [of so "pw_envelope p"] assms(2) P(3) revision_nonneg [of so f]
    by (auto simp: readable_def)
  then have read: "store_read so renames' f2 = (Some (written p), f2)"
    using f2 s store_read_seen [of so renames' f2] by (auto simp: store_read_def seen_value_def)
  have rev: "en_revision (pw_envelope p) = r + 1" using P(2,3) by auto
  with e read show ?thesis by (simp add: store_write_def prepareWrite_def revision_of_def written_def)
qed

section \<open>Examples\<close>

definition sample_store :: "json store_options" where
  "sample_store = \<lparr>so_schemaVersion = 1, so_normalize = (\<lambda>v. if is_js_string v then Some v else None), so_data = (\<lambda>v. v),
     so_defaultValue = None, so_quarantineCorrupt = True, so_backupLegacy = True,
     so_parse = (\<lambda>t. if t = ''new'' then
         Some (JObject [(''schemaVersion'', JNumber (JInt 1)), (''revision'', JNumber (JInt 1)), (''updatedAt'', JString ''t''), (''data'', JString ''b'')])
       else if t = ''old'' then Some (JString ''a'') else None),
     so_print = (\<lambda>_. ''new'')\<rparr>"

definition sample_files :: json_files where
  "sample_files = \<lparr>jf_file = Some ''old'', jf_backup = None, jf_temps = [], jf_quarantined = []\<rparr>"

definition sample_prepared :: "json prepared" where
  "sample_prepared = \<lparr>pw_envelope = \<lparr>en_schemaVersion = 1, en_revision = 1, en_updatedAt = ''t'', en_data = JString ''b''\<rparr>,
     pw_serialized = ''new'', pw_backup = True, pw_legacyBackupBytes = 3, pw_committed = False\<rparr>"

lemma sample_prepares:
  "prepareWrite sample_store True ''t'' (JString ''b'') (Some 0) None sample_files = (Inr sample_prepared, sample_files)"
  by code_simp

lemma sample_readable: "readable sample_store sample_prepared"
  by (simp add: readable_def sample_store_def sample_prepared_def envelope_json_def)


theorem second_writer_conflicts_witness:
  "fst (store_write sample_store True False ''u'' (JString ''c'') (Some 0) None (last (commit_states sample_prepared sample_files))) =
     Inl (RevisionConflict 0 1)"
proof -
  have "commit False sample_prepared sample_files = (Inr (pw_envelope sample_prepared), sample_prepared\<lparr>pw_committed := True\<rparr>,
      last (commit_states sample_prepared sample_files))" by (simp add: commit_def sample_prepared_def)
  from second_writer_conflicts [OF sample_prepares sample_readable this] show ?thesis by simp
qed

text \<open>
  A crash while the backup is copied leaves a backup that ends early. The next write finds it in place, keeps it
  and replaces the only complete copy of the file.
\<close>

lemma interrupted_backup_is_kept:
  "\<exists>g \<in> set (commit_states sample_prepared sample_files). jf_backup g = Some ''ol'' \<and>
     snd (store_write sample_store True False ''t'' (JString ''b'') None None g) = g\<lparr>jf_file := Some ''new''\<rparr>"
proof -
  have "sample_files\<lparr>jf_backup := Some ''ol''\<rparr> \<in> set (commit_states sample_prepared sample_files)"
    unfolding commit_states_def backup_states_def backupLegacyFile_def Let_def
    by (simp add: sample_prepared_def sample_files_def upt_rec)
  moreover have "snd (store_write sample_store True False ''t'' (JString ''b'') None None (sample_files\<lparr>jf_backup := Some ''ol''\<rparr>)) =
    (sample_files\<lparr>jf_backup := Some ''ol''\<rparr>)\<lparr>jf_file := Some ''new''\<rparr>"
    by code_simp
  ultimately show ?thesis by force
qed

end
