(* ===== verification/File_Tree.thy ===== *)
theory File_Tree
  imports Posix_Paths "HOL-Library.Sublist"
begin

text \<open>
  A small file system for the modules that change files: a map from absolute paths, as lists of names, to
  directories, regular files and symbolic links. Looking up a path follows links, at most \<open>MAX_LINKS\<close> of them, as
  the operating system does; the operations are those of \<open>node:fs\<close> the journal uses. An operation that consists of
  several atomic changes returns the list of states it goes through.
\<close>

section \<open>Trees\<close>

datatype node = FDir | FFile string | FLink bool "string list"

type_synonym path = "string list"
type_synonym fs = "path \<Rightarrow> node option"

definition MAX_LINKS :: nat where "MAX_LINKS = 40"

text \<open>The lookup of the names \<open>cs\<close> from the directory at \<open>p\<close>; a link starts again at the root or at its directory.\<close>

fun walk :: "nat \<Rightarrow> fs \<Rightarrow> path \<Rightarrow> string list \<Rightarrow> path option" where
  "walk n f p [] = Some p"
| "walk n f p (c # cs) =
     (if c = ''.'' then walk n f p cs
      else if c = ''..'' then walk n f (butlast p) cs
      else
        (case f (p @ [c]) of
           None \<Rightarrow> None
         | Some FDir \<Rightarrow> walk n f (p @ [c]) cs
         | Some (FFile _) \<Rightarrow> if cs = [] then Some (p @ [c]) else None
         | Some (FLink absolute target) \<Rightarrow>
             (case n of 0 \<Rightarrow> None | Suc m \<Rightarrow> walk m f (if absolute then [] else p) (target @ cs))))"

definition realpath :: "fs \<Rightarrow> path \<Rightarrow> path option" where
  "realpath f p = walk MAX_LINKS f [] p"

definition fs_exists :: "fs \<Rightarrow> path \<Rightarrow> bool" where
  "fs_exists f p \<longleftrightarrow> realpath f p \<noteq> None"

definition node_at :: "fs \<Rightarrow> path \<Rightarrow> node option" where
  "node_at f p = (if p = [] then Some FDir else f p)"

text \<open>The position of the entry a path names, its last name not followed.\<close>

definition entry :: "fs \<Rightarrow> path \<Rightarrow> path option" where
  "entry f p = (if p = [] then Some [] else map_option (\<lambda>q. q @ [last p]) (realpath f (butlast p)))"

definition lstat :: "fs \<Rightarrow> path \<Rightarrow> node option" where
  "lstat f p = (case entry f p of None \<Rightarrow> None | Some q \<Rightarrow> node_at f q)"

definition is_link :: "fs \<Rightarrow> path \<Rightarrow> bool" where
  "is_link f p \<longleftrightarrow> (case lstat f p of Some (FLink _ _) \<Rightarrow> True | _ \<Rightarrow> False)"

text \<open>\<open>mkdirSync\<close> with \<open>recursive\<close>: one directory after the other; False when one of them cannot be made.\<close>

fun mkdir_all :: "fs \<Rightarrow> path list \<Rightarrow> fs list \<times> bool" where
  "mkdir_all f [] = ([], True)"
| "mkdir_all f (p # ps) =
     (case realpath f p of
        Some q \<Rightarrow> if node_at f q = Some FDir then mkdir_all f ps else ([], False)
      | None \<Rightarrow>
          (case entry f p of
             None \<Rightarrow> ([], False)
           | Some q \<Rightarrow>
               if f q \<noteq> None then ([], False)
               else (let f1 = f(q \<mapsto> FDir); (gs, ok) = mkdir_all f1 ps in (f1 # gs, ok))))"

definition mkdirs :: "fs \<Rightarrow> path \<Rightarrow> fs list \<times> bool" where
  "mkdirs f p = mkdir_all f (tl (prefixes p))"

text \<open>\<open>renameSync\<close> onto a name that is not taken; a directory cannot be moved below itself.\<close>

definition move :: "path \<Rightarrow> path \<Rightarrow> fs \<Rightarrow> fs" where
  "move src dst f =
     (\<lambda>x. if prefix dst x then f (src @ drop (length dst) x) else if prefix src x then None else f x)"

definition fs_rename :: "fs \<Rightarrow> path \<Rightarrow> path \<Rightarrow> fs option" where
  "fs_rename f src dst =
     (case (entry f src, entry f dst) of
        (Some p, Some q) \<Rightarrow>
          if p = [] \<or> f p = None \<or> f q \<noteq> None \<or> prefix p q \<or> node_at f (butlast q) \<noteq> Some FDir then None else Some (move p q f)
      | _ \<Rightarrow> None)"

text \<open>\<open>copyFileSync\<close> with \<open>COPYFILE_EXCL\<close>: the copy grows to the whole content.\<close>

definition copy_states :: "fs \<Rightarrow> path \<Rightarrow> path \<Rightarrow> fs list option" where
  "copy_states f src dst =
     (case (realpath f src, entry f dst) of
        (Some p, Some q) \<Rightarrow>
          (case f p of
             Some (FFile content) \<Rightarrow>
               if f q \<noteq> None \<or> node_at f (butlast q) \<noteq> Some FDir then None
               else Some (map (\<lambda>n. f(q \<mapsto> FFile (take n content))) [0..<length content + 1])
           | _ \<Rightarrow> None)
      | _ \<Rightarrow> None)"

section \<open>Lookups\<close>

lemma walk_append:
  "walk n f p (cs @ ds) = Some r \<Longrightarrow> \<exists>q. walk n f p cs = Some q"
proof (induction n f p cs rule: walk.induct)
  case (2 n f p c cs)
  show ?case
  proof (cases "f (p @ [c])")
    case None
    with 2 show ?thesis by (auto split: if_splits)
  next
    case (Some k)
    with 2 show ?thesis by (cases k) (auto split: if_splits nat.splits)
  qed
qed simp

lemma realpath_prefix: "realpath f (p @ q) \<noteq> None \<Longrightarrow> realpath f p \<noteq> None"
  using walk_append unfolding realpath_def by fastforce

lemma fs_exists_Nil [simp]: "fs_exists f []"
  by (simp add: fs_exists_def realpath_def)

text \<open>Entries are in directories; in a plain tree there are no links.\<close>

definition rooted :: "fs \<Rightarrow> bool" where
  "rooted f \<longleftrightarrow> (\<forall>p c. f (p @ [c]) \<noteq> None \<longrightarrow> node_at f p = Some FDir)"

definition plain :: "fs \<Rightarrow> bool" where
  "plain f \<longleftrightarrow> rooted f \<and> (\<forall>p a t. f p \<noteq> Some (FLink a t))"

definition plain_names :: "path \<Rightarrow> bool" where
  "plain_names p \<longleftrightarrow> ''.'' \<notin> set p \<and> ''..'' \<notin> set p"

lemma plain_names_simps [simp]:
  "plain_names []" "plain_names (p @ q) \<longleftrightarrow> plain_names p \<and> plain_names q"
  "plain_names (c # p) \<longleftrightarrow> c \<noteq> ''.'' \<and> c \<noteq> ''..'' \<and> plain_names p"
  by (auto simp: plain_names_def)

lemma plain_names_butlast: "plain_names p \<Longrightarrow> plain_names (butlast p)"
  by (auto simp: plain_names_def dest: in_set_butlastD)

lemma rooted_child: "rooted f \<Longrightarrow> node_at f p \<noteq> Some FDir \<Longrightarrow> f (p @ [c]) = None"
  unfolding rooted_def by blast

lemma rooted_parent: "rooted f \<Longrightarrow> f (p @ [c]) \<noteq> None \<Longrightarrow> node_at f p = Some FDir"
  unfolding rooted_def by blast

lemma rooted_above: "rooted f \<Longrightarrow> f (p @ c # q) \<noteq> None \<Longrightarrow> node_at f p = Some FDir"
proof (induction q arbitrary: c rule: rev_induct)
  case (snoc d q)
  have "f ((p @ c # q) @ [d]) \<noteq> None" using snoc.prems(2) by simp
  from rooted_parent [OF snoc.prems(1) this] have "f (p @ c # q) \<noteq> None" by (simp add: node_at_def)
  with snoc show ?case by blast
qed (use rooted_parent in auto)

lemma plain_parent: "plain f \<Longrightarrow> f (p @ [c]) \<noteq> None \<Longrightarrow> node_at f p = Some FDir"
  by (simp add: plain_def rooted_parent)

lemma plain_above: "plain f \<Longrightarrow> f (p @ c # q) \<noteq> None \<Longrightarrow> node_at f p = Some FDir"
  by (simp add: plain_def rooted_above)

lemma walk_plain:
  assumes "plain f" and "plain_names cs" and "node_at f p = Some FDir"
  shows "walk n f p cs = (if node_at f (p @ cs) = None then None else Some (p @ cs))"
  using assms(2,3)
proof (induction cs arbitrary: p)
  case (Cons c cs)
  show ?case
  proof (cases "f (p @ [c])")
    case None
    have "f (p @ c # cs) = None"
    proof (rule ccontr)
      assume a: "f (p @ c # cs) \<noteq> None"
      with None obtain d ds where "cs = d # ds" by (cases cs) auto
      with a plain_above [OF assms(1), of "p @ [c]" d ds] None show False by (simp add: node_at_def)
    qed
    with None Cons.prems show ?thesis by (simp add: node_at_def)
  next
    case (Some k)
    show ?thesis
    proof (cases k)
      case FDir
      with Some Cons.IH [of "p @ [c]"] Cons.prems show ?thesis by (simp add: node_at_def)
    next
      case (FFile t)
      have "f (p @ c # cs) = None" if "cs \<noteq> []"
      proof (rule ccontr)
        assume a: "f (p @ c # cs) \<noteq> None"
        from that obtain d ds where "cs = d # ds" by (cases cs) auto
        with plain_above [OF assms(1), of "p @ [c]" d ds] a Some FFile show False by (simp add: node_at_def)
      qed
      with Some FFile Cons.prems show ?thesis by (simp add: node_at_def)
    next
      case (FLink a t)
      with Some assms(1) show ?thesis by (auto simp: plain_def)
    qed
  qed
qed simp

lemma realpath_plain:
  "plain f \<Longrightarrow> plain_names p \<Longrightarrow> realpath f p = (if node_at f p = None then None else Some p)"
  using walk_plain [of f p "[]"] by (simp add: realpath_def node_at_def)

lemma fs_exists_plain: "plain f \<Longrightarrow> plain_names p \<Longrightarrow> fs_exists f p \<longleftrightarrow> node_at f p \<noteq> None"
  by (simp add: fs_exists_def realpath_plain)

lemma node_parent: "plain f \<Longrightarrow> node_at f p \<noteq> None \<Longrightarrow> node_at f (butlast p) \<noteq> None"
  by (cases p rule: rev_cases) (auto simp: node_at_def plain_def rooted_def split: if_splits)

lemma entry_plain:
  "plain f \<Longrightarrow> plain_names p \<Longrightarrow> entry f p = (if node_at f (butlast p) = None then None else Some p)"
  by (cases p rule: rev_cases) (auto simp: entry_def realpath_plain node_at_def)

lemma lstat_plain: "plain f \<Longrightarrow> plain_names p \<Longrightarrow> lstat f p = node_at f p"
  using node_parent [of f p] by (cases "node_at f p") (auto simp: lstat_def entry_plain)

lemma is_link_plain: "plain f \<Longrightarrow> plain_names p \<Longrightarrow> \<not> is_link f p"
  by (auto simp: is_link_def lstat_plain node_at_def plain_def split: node.splits option.splits)

section \<open>Lookups in a growing tree\<close>

text \<open>A directory whose path has no links, such as the result of \<open>realpathSync\<close>.\<close>

definition root_dir :: "fs \<Rightarrow> path \<Rightarrow> bool" where
  "root_dir f root \<longleftrightarrow> rooted f \<and> plain_names root \<and> node_at f root = Some FDir"

lemma walk_root_dir: "rooted f \<Longrightarrow> node_at f (p @ cs) = Some FDir \<Longrightarrow> plain_names cs \<Longrightarrow> walk n f p cs = Some (p @ cs)"
proof (induction cs arbitrary: p)
  case (Cons c cs)
  have "f (p @ [c]) = Some FDir"
  proof (cases cs)
    case (Cons d ds)
    have "f ((p @ [c]) @ d # ds) \<noteq> None" using Cons.prems(2) Cons by (simp add: node_at_def)
    from rooted_above [OF Cons.prems(1) this] show ?thesis by (simp add: node_at_def)
  qed (use Cons.prems(2) in \<open>simp add: node_at_def\<close>)
  with Cons show ?case by simp
qed simp

lemma realpath_root_dir: "root_dir f root \<Longrightarrow> realpath f root = Some root"
  using walk_root_dir [of f "[]" root MAX_LINKS] by (simp add: root_dir_def realpath_def)

lemma root_dir_grown: "root_dir f root \<Longrightarrow> rooted g \<Longrightarrow> (\<And>x. f x \<noteq> None \<Longrightarrow> g x = f x) \<Longrightarrow> root_dir g root"
  by (auto simp: root_dir_def node_at_def)

lemma walk_grows:
  "walk n f p cs = Some r \<Longrightarrow> f q = None \<Longrightarrow> walk n (f(q \<mapsto> k)) p cs = Some r"
proof (induction n f p cs rule: walk.induct)
  case (2 n f p c cs)
  show ?case
  proof (cases "c = ''.'' \<or> c = ''..''")
    case False
    with 2(5) obtain e where e: "f (p @ [c]) = Some e" by (cases "f (p @ [c])") auto
    with 2(6) have e': "(f(q \<mapsto> k)) (p @ [c]) = Some e" by auto
    show ?thesis
    proof (cases e)
      case FDir
      with e e' False 2(3,5,6) show ?thesis by simp
    next
      case (FFile t)
      with e e' False 2(5) show ?thesis by (simp split: if_splits)
    next
      case (FLink a t)
      with e False 2(5) obtain m where m: "n = Suc m" by (cases n) auto
      with FLink e e' False 2(4) [of e a t m] 2(5,6) show ?thesis by simp
    qed
  qed (use 2 in auto)
qed simp

lemma realpath_grows: "realpath f p = Some r \<Longrightarrow> f q = None \<Longrightarrow> realpath (f(q \<mapsto> k)) p = Some r"
  by (simp add: realpath_def walk_grows)

text \<open>Behind a lookup that has come to \<open>r\<close> there may be fewer links left to follow.\<close>

definition walk_one :: "nat \<Rightarrow> fs \<Rightarrow> path \<Rightarrow> string \<Rightarrow> path option" where
  "walk_one n f r d = walk n f r [d]"

lemma walk_split:
  assumes "walk n f p cs = Some r" and "rooted f" and "plain_names [d]"
  shows "\<exists>m. walk n f p (cs @ [d]) = walk_one m f r d"
  using assms
proof (induction n f p cs rule: walk.induct)
  case (2 n f p c cs)
  show ?case
  proof (cases "c = ''.'' \<or> c = ''..''")
    case False
    with 2(5) obtain e where e: "f (p @ [c]) = Some e" by (cases "f (p @ [c])") auto
    show ?thesis
    proof (cases e)
      case FDir
      with e False 2(3,5,6,7) show ?thesis by simp
    next
      case (FFile t)
      with e False 2(5) have r: "r = p @ [c]" "cs = []" by (simp_all split: if_splits)
      have "f (r @ [d]) = None"
        by (rule rooted_child [OF 2(6)]) (use e FFile r(1) in \<open>simp add: node_at_def\<close>)
      with r e FFile False 2(7) show ?thesis by (simp add: walk_one_def)
    next
      case (FLink a t)
      with e False 2(5) obtain m where m: "n = Suc m" by (cases n) auto
      with FLink e False 2(4) [of e a t m] 2(5,6,7) show ?thesis by simp
    qed
  qed (use 2 in auto)
qed (auto simp: walk_one_def)

lemma realpath_child:
  assumes "realpath f p = Some r" and "rooted f" and "plain_names [d]"
  shows "f (r @ [d]) = None \<Longrightarrow> realpath f (p @ [d]) = None" and "f (r @ [d]) = Some FDir \<Longrightarrow> realpath f (p @ [d]) = Some (r @ [d])"
  using walk_split [of MAX_LINKS f "[]" p r d] assms by (auto simp: realpath_def walk_one_def)

lemma rooted_grows: 
  assumes r: "rooted f" and d: "node_at f p = Some FDir" and free: "f (p @ [c]) = None"
  shows "rooted (f(p @ [c] \<mapsto> k))"
proof -
  show ?thesis unfolding rooted_def
  proof (intro allI impI)
    fix q e assume q: "(f(p @ [c] \<mapsto> k)) (q @ [e]) \<noteq> None"
    show "node_at (f(p @ [c] \<mapsto> k)) q = Some FDir"
    proof (cases "q = p")
      case False
      with q have "f (q @ [e]) \<noteq> None" by simp
      then have "node_at f q = Some FDir" using rooted_child [OF r, of q e] by (rule_tac ccontr) simp
      with free show ?thesis by (auto simp: node_at_def split: if_splits)
    qed (use d in \<open>auto simp: node_at_def split: if_splits\<close>)
  qed
qed

lemma plain_upd:
  assumes "plain f" and "node_at f x = Some FDir" and "f (x @ [c]) = None" and "\<And>a t. k \<noteq> FLink a t"
  shows "plain (f(x @ [c] \<mapsto> k))"
  using rooted_grows [of f x c k] assms by (auto simp: plain_def)

text \<open>Only entries below \<open>base\<close> change.\<close>

definition changes_below :: "path \<Rightarrow> fs \<Rightarrow> fs \<Rightarrow> bool" where
  "changes_below base f g \<longleftrightarrow> (\<forall>x. g x \<noteq> f x \<longrightarrow> prefix base x)"

lemma changes_below_refl [simp]: "changes_below base f f"
  by (simp add: changes_below_def)

lemma changes_below_trans: "changes_below base f g \<Longrightarrow> changes_below base g h \<Longrightarrow> changes_below base f h"
  unfolding changes_below_def by metis

lemma changes_below_upd: "prefix base q \<Longrightarrow> changes_below base f (f(q := k))"
  by (auto simp: changes_below_def)

lemma changes_below_move: "prefix base p \<Longrightarrow> prefix base q \<Longrightarrow> changes_below base f (move p q f)"
  unfolding changes_below_def move_def by (auto split: if_splits intro: prefix_order.order_trans)

text \<open>What \<open>mkdirs\<close> does: it keeps what can be looked up and changes nothing outside of the directory it starts from.\<close>

definition grown :: "path \<Rightarrow> fs \<Rightarrow> fs \<Rightarrow> bool" where
  "grown base f g \<longleftrightarrow> rooted g \<and> changes_below base f g \<and> (\<forall>p r. realpath f p = Some r \<longrightarrow> realpath g p = Some r) \<and>
     (\<forall>x. f x \<noteq> None \<longrightarrow> g x = f x)"

lemma grown_refl: "rooted f \<Longrightarrow> grown base f f"
  by (simp add: grown_def)

lemma grown_trans: "grown base f g \<Longrightarrow> grown base g h \<Longrightarrow> grown base f h"
  unfolding grown_def using changes_below_trans by metis

lemma grown_entry:
  assumes "rooted f" and "node_at f p = Some FDir" and "f (p @ [c]) = None" and "prefix base p"
  shows "grown base f (f(p @ [c] \<mapsto> k))"
  using assms rooted_grows realpath_grows changes_below_upd [of base "p @ [c]" f "Some k"] by (auto simp: grown_def)

lemma mkdir_chain:
  assumes "realpath f x = Some q" and "node_at f q = Some FDir" and "rooted f" and "prefix base q" and "plain_names cs"
    and "cs \<noteq> [] \<Longrightarrow> f (q @ [hd cs]) = None" and "mkdir_all f (map (\<lambda>ys. x @ ys) (tl (prefixes cs))) = (gs, ok)"
  shows "ok \<and> (\<forall>g \<in> set gs. grown base f g) \<and> realpath (last (f # gs)) (x @ cs) = Some (q @ cs)"
  using assms
proof (induction cs arbitrary: f x q gs)
  case (Cons c cs)
  have c: "plain_names [c]" "f (q @ [c]) = None" using Cons.prems by simp_all
  define f1 where "f1 = f(q @ [c] \<mapsto> FDir)"
  have "realpath f (x @ [c]) = None" by (rule realpath_child(1) [OF Cons.prems(1,3) c(1) c(2)])
  moreover have "entry f (x @ [c]) = Some (q @ [c])" using Cons.prems(1) by (simp add: entry_def)
  moreover have "map (\<lambda>ys. x @ ys) (tl (prefixes (c # cs))) = (x @ [c]) # map (\<lambda>ys. (x @ [c]) @ ys) (tl (prefixes cs))"
    by (cases cs) (simp_all add: comp_def)
  ultimately obtain hs where rest: "mkdir_all f1 (map (\<lambda>ys. (x @ [c]) @ ys) (tl (prefixes cs))) = (hs, ok)" and gs: "gs = f1 # hs"
    using Cons.prems(7) c(2) by (auto simp: f1_def Let_def split: prod.splits)
  have g1: "grown base f f1" unfolding f1_def by (rule grown_entry [OF Cons.prems(3,2) c(2) Cons.prems(4)])
  then have r1: "rooted f1" "realpath f1 x = Some q" using Cons.prems(1) by (auto simp: grown_def)
  have p1: "realpath f1 (x @ [c]) = Some (q @ [c])" by (rule realpath_child(2) [OF r1(2,1) c(1)]) (simp add: f1_def)
  have "f (q @ [c, d]) = None" for d
    using rooted_child [OF Cons.prems(3), of "q @ [c]" d] c(2) by (simp add: node_at_def)
  then have free: "cs \<noteq> [] \<Longrightarrow> f1 ((q @ [c]) @ [hd cs]) = None" by (simp add: f1_def)
  have "ok \<and> (\<forall>g \<in> set hs. grown base f1 g) \<and> realpath (last (f1 # hs)) ((x @ [c]) @ cs) = Some ((q @ [c]) @ cs)"
    by (rule Cons.IH [OF p1 _ r1(1) _ _ free rest]) (use Cons.prems(4,5) in \<open>auto simp: f1_def node_at_def\<close>)
  with g1 gs grown_trans [OF g1] show ?case by auto
qed simp

lemma mkdir_existing:
  assumes "\<And>x. x \<in> set ps \<Longrightarrow> realpath f x \<noteq> None"
  shows "mkdir_all f (ps @ qs) = ([], False) \<or>
    mkdir_all f (ps @ qs) = mkdir_all f qs \<and> (\<forall>x \<in> set ps. \<exists>q. realpath f x = Some q \<and> node_at f q = Some FDir)"
  using assms
proof (induction ps)
  case (Cons p ps)
  then obtain q where "realpath f p = Some q" by auto
  with Cons show ?case by auto
qed simp

text \<open>\<open>mkdirs\<close> below a position \<open>r\<close> that the longest existing part \<open>n\<close> of the path leads to.\<close>

lemma mkdirs_grown:
  assumes "realpath f n = Some r" and "rooted f" and "prefix base r" and "plain_names cs"
    and "cs \<noteq> [] \<Longrightarrow> realpath f (n @ [hd cs]) = None" and "mkdirs f (n @ cs) = (gs, ok)"
  shows "(\<forall>g \<in> set gs. grown base f g) \<and> (ok \<longrightarrow> realpath (last (f # gs)) (n @ cs) \<noteq> None)"
proof -
  let ?new = "map (\<lambda>ys. n @ ys) (tl (prefixes cs))"
  have "mkdirs f (n @ cs) = mkdir_all f (tl (prefixes n) @ ?new)"
    by (simp add: mkdirs_def prefixes_append)
  moreover have old: "realpath f x \<noteq> None" if "x \<in> set (tl (prefixes n))" for x
  proof -
    have "x \<in> set (prefixes n)" using that by (cases "prefixes n") auto
    then obtain y where "n = x @ y" by (auto simp: prefix_def)
    with assms(1) realpath_prefix [of f x y] show ?thesis by simp
  qed
  ultimately have split: "mkdir_all f (tl (prefixes n) @ ?new) = (gs, ok)" and old: "\<And>x. x \<in> set (tl (prefixes n)) \<Longrightarrow> realpath f x \<noteq> None"
    using assms(6) by simp_all
  have self: "n = [] \<or> n \<in> set (tl (prefixes n))" by (cases n) auto
  from mkdir_existing [of "tl (prefixes n)" f ?new, OF old]
  consider "gs = []" "\<not> ok" | "mkdir_all f ?new = (gs, ok)" "n = [] \<or> node_at f r = Some FDir"
  proof
    assume "mkdir_all f (tl (prefixes n) @ ?new) = ([], False)"
    with split that(1) show thesis by simp
  next
    assume *: "mkdir_all f (tl (prefixes n) @ ?new) = mkdir_all f ?new \<and>
      (\<forall>x \<in> set (tl (prefixes n)). \<exists>q. realpath f x = Some q \<and> node_at f q = Some FDir)"
    with self assms(1) have "n = [] \<or> node_at f r = Some FDir" by auto
    with * split that(2) show thesis by simp
  qed
  then show ?thesis
  proof cases
    case 2
    have dir: "node_at f r = Some FDir" using 2(2) assms(1) by (auto simp: realpath_def node_at_def)
    show ?thesis
    proof (cases "cs = [] \<or> f (r @ [hd cs]) = None")
      case True
      with mkdir_chain [OF assms(1) dir assms(2,3,4) _ 2(1)] show ?thesis by auto
    next
      case False
      then obtain c cs' where cs: "cs = c # cs'" by (cases cs) auto
      have "entry f (n @ [c]) = Some (r @ [c])" using assms(1) by (simp add: entry_def)
      with 2(1) False cs assms(5) have "gs = []" "\<not> ok" by (cases cs'; auto simp: comp_def)+
      then show ?thesis by simp
    qed
  qed simp
qed

section \<open>Moving entries\<close>

lemma rooted_move:
  assumes "rooted f" and "node_at f q = Some FDir" and "\<not> prefix p (q @ [c])" and "f (q @ [c]) = None"
  shows "rooted (move p (q @ [c]) f)"
  unfolding rooted_def
proof (intro allI impI)
  fix y d assume y: "move p (q @ [c]) f (y @ [d]) \<noteq> None"
  show "node_at (move p (q @ [c]) f) y = Some FDir"
  proof (cases "prefix (q @ [c]) (y @ [d])")
    case True
    show ?thesis
    proof (cases "y = q")
      case True
      with assms(2,3) show ?thesis by (auto simp: node_at_def move_def prefix_def)
    next
      case False
      with True have below: "prefix (q @ [c]) y" by (auto simp: prefix_snoc)
      then obtain z where z: "y = q @ c # z" by (auto simp: prefix_def)
      with y have "f ((p @ z) @ [d]) \<noteq> None" by (simp add: move_def)
      then have "node_at f (p @ z) = Some FDir" by (rule rooted_parent [OF assms(1)])
      moreover have "p \<noteq> []" using assms(3) by auto
      ultimately show ?thesis using z below by (simp add: move_def node_at_def)
    qed
  next
    case False
    with y have *: "f (y @ [d]) \<noteq> None" "\<not> prefix p (y @ [d])" by (auto simp: move_def split: if_splits)
    from rooted_parent [OF assms(1) *(1)] have "node_at f y = Some FDir" .
    with False *(2) show ?thesis by (auto simp: move_def node_at_def)
  qed
qed

end
