(* ===== verification/Operation_Journal.thy ===== *)
theory Operation_Journal
  imports File_Tree
begin

text \<open>
  The write-ahead journal for file operations (web/server/operation-journal.ts).

  A state is the file system and the record of the operation as it is on disk; a run is the list of the states it
  goes through, one for each atomic change of a file or write of the record, so that a crash is a position
  in that list. The records are written through Atomic_Json_Store, whose writes are atomic. The root is a list of
  names, the result of \<open>realpathSync\<close>. The clock and the random names of temporary files are parameters; modes and
  \<open>fsync\<close> are left out.
\<close>

section \<open>Operations\<close>

datatype journal_step = Mkdir string | MoveIfExists string string | CopyFileIfMissing string string

datatype journal_status = Pending | Applying | JournalCompleted | JournalFailed

datatype journal_error =
    InvalidPath | InvalidStep | InvalidOperation | OperationExists | OperationMissing | EscapesRoot | EscapesThroughLink | NotDirectory
  | CopyDestinationTaken | CopySourceMissing | CopySourceNotFile | MoveBothMissing | MoveDestinationTaken | IoFailed

record journal_operation =
  jo_id :: string
  jo_kind :: string
  jo_status :: journal_status
  jo_createdAt :: string
  jo_updatedAt :: string
  jo_nextStep :: nat
  jo_steps :: "journal_step list"
  jo_error :: "journal_error option"

definition operation_id :: "string \<Rightarrow> bool" where
  "operation_id s \<longleftrightarrow>
     (case s of [] \<Rightarrow> False | c # cs \<Rightarrow> is_alnum c \<and> length cs \<le> 127 \<and> list_all (\<lambda>d. is_alnum d \<or> d \<in> set ''_-'') cs)"

definition operation_kind :: "string \<Rightarrow> bool" where
  "operation_kind s \<longleftrightarrow>
     (case s of [] \<Rightarrow> False | c # cs \<Rightarrow> is_alnum c \<and> length cs \<le> 127 \<and> list_all (\<lambda>d. is_alnum d \<or> d \<in> set ''._-'') cs)"

definition normalizeRelativePath :: "json \<Rightarrow> string option" where
  "normalizeRelativePath v =
     (if \<not> is_js_string v \<or> length (str_of v) = 0 \<or> js_includes (str_of v) nul \<or> js_includes (str_of v) backslash then None
      else if is_absolute (str_of v) then None
      else
        (let segments = js_split slash (str_of v) in
         if list_ex (\<lambda>s. s = [] \<or> s = ''.'' \<or> s = ''..'') segments then None else Some (js_join [slash] segments)))"

definition two_paths :: "(string \<Rightarrow> string \<Rightarrow> journal_step) \<Rightarrow> json \<Rightarrow> journal_step option" where
  "two_paths build v =
     (case (normalizeRelativePath (member v ''from''), normalizeRelativePath (member v ''to'')) of
        (Some from_path, Some to_path) \<Rightarrow> if from_path = to_path then None else Some (build from_path to_path)
      | _ \<Rightarrow> None)"

definition normalizeStep :: "json \<Rightarrow> journal_step option" where
  "normalizeStep v =
     (if \<not> is_record v then None
      else if member v ''type'' = JString ''mkdir'' then map_option Mkdir (normalizeRelativePath (member v ''path''))
      else if member v ''type'' = JString ''move-if-exists'' then two_paths MoveIfExists v
      else if member v ''type'' = JString ''copy-file-if-missing'' then two_paths CopyFileIfMissing v
      else None)"

definition status_of :: "json \<Rightarrow> journal_status option" where
  "status_of v =
     (if v = JString ''pending'' then Some Pending else if v = JString ''applying'' then Some Applying
      else if v = JString ''completed'' then Some JournalCompleted else if v = JString ''failed'' then Some JournalFailed else None)"

fun all_some :: "('a \<Rightarrow> 'b option) \<Rightarrow> 'a list \<Rightarrow> 'b list option" where
  "all_some f [] = Some []"
| "all_some f (x # xs) = (case f x of None \<Rightarrow> None | Some y \<Rightarrow> map_option (\<lambda>ys. y # ys) (all_some f xs))"

text \<open>The text of a stored error is not kept: a failed record has some error.\<close>

definition normalizeOperation :: "json \<Rightarrow> journal_operation option" where
  "normalizeOperation v =
     (if \<not> is_record v \<or> \<not> is_js_string (member v ''id'') \<or> \<not> operation_id (str_of (member v ''id'')) \<or>
         \<not> is_js_string (member v ''kind'') \<or> \<not> operation_kind (str_of (member v ''kind'')) then None
      else
        (case status_of (member v ''status'') of
           None \<Rightarrow> None
         | Some status \<Rightarrow>
             if \<not> is_js_string (member v ''createdAt'') \<or> \<not> is_js_string (member v ''updatedAt'') \<or> \<not> is_js_array (member v ''steps'')
             then None
             else
               (case all_some normalizeStep (elems_of (member v ''steps'')) of
                  None \<Rightarrow> None
                | Some steps \<Rightarrow>
                    (case member v ''nextStep'' of
                       JNumber (JInt n) \<Rightarrow>
                         if n < 0 \<or> n > int (length steps) then None
                         else Some \<lparr>jo_id = str_of (member v ''id''), jo_kind = str_of (member v ''kind''), jo_status = status,
                           jo_createdAt = str_of (member v ''createdAt''), jo_updatedAt = str_of (member v ''updatedAt''),
                           jo_nextStep = nat n, jo_steps = steps,
                           jo_error = (if is_js_string (member v ''error'') then Some IoFailed else None)\<rparr>
                     | _ \<Rightarrow> None))))"

section \<open>Paths\<close>

definition isInsideRoot :: "path \<Rightarrow> path \<Rightarrow> bool" where
  "isInsideRoot root p \<longleftrightarrow>
     prefix root p \<and> (case drop (length root) p of [] \<Rightarrow> True | c # _ \<Rightarrow> \<not> js_starts_with c ''..'')"

text \<open>The upward search of \<open>assertParentInsideRoot\<close>.\<close>

function nearest_existing :: "fs \<Rightarrow> path \<Rightarrow> path" where
  "nearest_existing f cursor =
     (if fs_exists f cursor then cursor else if butlast cursor = cursor then cursor else nearest_existing f (butlast cursor))"
  by pat_completeness auto

termination
  by (relation "measure (\<lambda>(_, cursor). length cursor)") (auto simp: butlast_conv_take dest: arg_cong [where f = length])

declare nearest_existing.simps [simp del]

definition assertParentInsideRoot :: "path \<Rightarrow> fs \<Rightarrow> path \<Rightarrow> bool" where
  "assertParentInsideRoot root f p =
     (case realpath f (nearest_existing f (butlast p)) of None \<Rightarrow> False | Some canonical \<Rightarrow> isInsideRoot root canonical)"

definition resolveJournalPath :: "path \<Rightarrow> string \<Rightarrow> journal_error + path" where
  "resolveJournalPath root relativePath =
     (case normalizeRelativePath (JString relativePath) of
        None \<Rightarrow> Inl InvalidPath
      | Some normalized \<Rightarrow>
          let target = root @ js_split slash normalized in
          if \<not> isInsideRoot root target \<or> target = root then Inl EscapesRoot else Inr target)"

section \<open>Steps\<close>

definition apply_mkdir :: "path \<Rightarrow> string \<Rightarrow> fs \<Rightarrow> fs list \<times> journal_error option" where
  "apply_mkdir root p f =
     (case resolveJournalPath root p of
        Inl e \<Rightarrow> ([], Some e)
      | Inr target \<Rightarrow>
          if \<not> assertParentInsideRoot root f target then ([], Some EscapesThroughLink)
          else if fs_exists f target then (if lstat f target = Some FDir then ([], None) else ([], Some NotDirectory))
          else (let (gs, ok) = mkdirs f target in (gs, if ok then None else Some IoFailed)))"

definition last_state :: "fs \<Rightarrow> fs list \<Rightarrow> fs" where
  "last_state f gs = last (f # gs)"

definition temp_path :: "path \<Rightarrow> string \<Rightarrow> path" where
  "temp_path destination unique = butlast destination @ [''.'' @ last destination @ ''.journal-copy-tmp-'' @ unique]"

definition present :: "fs \<Rightarrow> path \<Rightarrow> bool" where
  "present f p \<longleftrightarrow> fs_exists f p \<or> is_link f p"

definition is_file :: "node option \<Rightarrow> bool" where
  "is_file k \<longleftrightarrow> (case k of Some (FFile _) \<Rightarrow> True | _ \<Rightarrow> False)"

text \<open>The parent directories of a destination, and the second look at them.\<close>

definition make_parents :: "path \<Rightarrow> path \<Rightarrow> fs \<Rightarrow> fs list \<times> journal_error option" where
  "make_parents root destination f =
     (let (gs, ok) = mkdirs f (butlast destination) in
      if \<not> ok then (gs, Some IoFailed)
      else if \<not> assertParentInsideRoot root (last_state f gs) destination then (gs, Some EscapesThroughLink)
      else (gs, None))"

definition copy_file :: "path \<Rightarrow> string \<Rightarrow> path \<Rightarrow> path \<Rightarrow> fs \<Rightarrow> fs list \<times> journal_error option" where
  "copy_file root unique source destination f =
     (if present f destination then
        (if is_file (lstat f destination) then ([], None) else ([], Some CopyDestinationTaken))
      else if \<not> present f source then ([], Some CopySourceMissing)
      else if \<not> is_file (lstat f source) then ([], Some CopySourceNotFile)
      else
        (case make_parents root destination f of
           (gs, Some e) \<Rightarrow> (gs, Some e)
         | (gs, None) \<Rightarrow>
             let f1 = last_state f gs; tmp = temp_path destination unique in
             (case copy_states f1 source tmp of
                None \<Rightarrow> (gs, Some IoFailed)
              | Some cs \<Rightarrow>
                  (case fs_rename (last_state f1 cs) tmp destination of
                     None \<Rightarrow> (gs @ cs @ [f1], Some IoFailed)
                   | Some f2 \<Rightarrow> (gs @ cs @ [f2], None)))))"

definition move_entry :: "path \<Rightarrow> path \<Rightarrow> path \<Rightarrow> fs \<Rightarrow> fs list \<times> journal_error option" where
  "move_entry root source destination f =
     (if \<not> present f source then (if present f destination then ([], None) else ([], Some MoveBothMissing))
      else if present f destination then ([], Some MoveDestinationTaken)
      else
        (case make_parents root destination f of
           (gs, Some e) \<Rightarrow> (gs, Some e)
         | (gs, None) \<Rightarrow>
             (case fs_rename (last_state f gs) source destination of
                None \<Rightarrow> (gs, Some IoFailed)
              | Some f2 \<Rightarrow> (gs @ [f2], None))))"

definition with_two_paths :: "path \<Rightarrow> string \<Rightarrow> string \<Rightarrow> (path \<Rightarrow> path \<Rightarrow> fs \<Rightarrow> fs list \<times> journal_error option) \<Rightarrow> fs \<Rightarrow>
    fs list \<times> journal_error option" where
  "with_two_paths root from_path to_path act f =
     (case resolveJournalPath root from_path of
        Inl e \<Rightarrow> ([], Some e)
      | Inr source \<Rightarrow>
          (case resolveJournalPath root to_path of
             Inl e \<Rightarrow> ([], Some e)
           | Inr destination \<Rightarrow>
               if \<not> assertParentInsideRoot root f source \<or> \<not> assertParentInsideRoot root f destination
               then ([], Some EscapesThroughLink)
               else act source destination f))"

text \<open>The states a step goes through, and its error; \<open>unique\<close> is the random part of the name of a temporary file.\<close>

fun applyStep :: "path \<Rightarrow> string \<Rightarrow> journal_step \<Rightarrow> fs \<Rightarrow> fs list \<times> journal_error option" where
  "applyStep root unique (Mkdir p) f = apply_mkdir root p f"
| "applyStep root unique (MoveIfExists from_path to_path) f = with_two_paths root from_path to_path (move_entry root) f"
| "applyStep root unique (CopyFileIfMissing from_path to_path) f = with_two_paths root from_path to_path (copy_file root unique) f"

section \<open>Execution\<close>

type_synonym journal_state = "fs \<times> journal_operation"

definition persist :: "string \<Rightarrow> journal_operation \<Rightarrow> journal_operation" where
  "persist now op = op\<lparr>jo_updatedAt := now\<rparr>"

function run_steps :: "path \<Rightarrow> (nat \<Rightarrow> string) \<Rightarrow> string \<Rightarrow> journal_state \<Rightarrow> journal_state list \<times> journal_error option" where
  "run_steps root unique now (f, op) =
     (if jo_nextStep op < length (jo_steps op) then
        (case applyStep root (unique (jo_nextStep op)) (jo_steps op ! jo_nextStep op) f of
           (gs, Some e) \<Rightarrow>
             (map (\<lambda>g. (g, op)) gs @ [(last_state f gs, persist now (op\<lparr>jo_status := JournalFailed, jo_error := Some e\<rparr>))], Some e)
         | (gs, None) \<Rightarrow>
             let st = (last_state f gs, persist now (op\<lparr>jo_nextStep := jo_nextStep op + 1\<rparr>));
                 (rest, r) = run_steps root unique now st
             in (map (\<lambda>g. (g, op)) gs @ st # rest, r))
      else ([(f, persist now (op\<lparr>jo_status := JournalCompleted, jo_error := None\<rparr>))], None))"
  by pat_completeness auto

termination
  by (relation "measure (\<lambda>(_, _, _, _, op). length (jo_steps op) - jo_nextStep op)") (auto simp: persist_def)

declare run_steps.simps [simp del]

definition execute :: "path \<Rightarrow> (nat \<Rightarrow> string) \<Rightarrow> string \<Rightarrow> journal_state \<Rightarrow> journal_state list \<times> journal_error option" where
  "execute root unique now st =
     (case st of (f, op) \<Rightarrow>
        if jo_status op = JournalCompleted then ([], None)
        else
          (let st1 = (f, persist now (op\<lparr>jo_status := Applying, jo_error := None\<rparr>)); (rest, r) = run_steps root unique now st1
           in (st1 # rest, r)))"

section \<open>Steps change nothing outside of the root\<close>

lemma js_split_names:
  assumes "normalizeRelativePath (JString t) = Some s"
  shows "s = t" and "plain_names (js_split slash s)"
proof -
  have *: "s = t \<and> \<not> list_ex (\<lambda>s. s = [] \<or> s = ''.'' \<or> s = ''..'') (js_split slash t)"
    using assms unfolding normalizeRelativePath_def by (simp add: Let_def js_join_split split: if_split_asm)
  then show "s = t" by blast
  from * show "plain_names (js_split slash s)" unfolding plain_names_def list_ex_iff by blast
qed

lemma resolved_names:
  "resolveJournalPath root t = Inr p \<Longrightarrow> p = root @ js_split slash t \<and> isInsideRoot root p \<and> plain_names (js_split slash t)"
  using js_split_names [of t] by (auto simp: resolveJournalPath_def Let_def split: option.splits if_splits)

lemma resolved_path:
  assumes "resolveJournalPath root t = Inr p"
  obtains cs where "p = root @ cs" and "cs \<noteq> []" and "plain_names cs"
  using resolved_names [OF assms] js_split_not_Nil by blast

lemma nearest_existing_simps:
  "fs_exists f p \<Longrightarrow> nearest_existing f p = p" "\<not> fs_exists f (p @ [c]) \<Longrightarrow> nearest_existing f (p @ [c]) = nearest_existing f p"
  by (subst nearest_existing.simps, simp)+

lemma nearest_existing_split:
  assumes "fs_exists f root"
  shows "\<exists>ns ms. cs = ns @ ms \<and> nearest_existing f (root @ cs) = root @ ns \<and> (ms \<noteq> [] \<longrightarrow> realpath f ((root @ ns) @ [hd ms]) = None)"
proof (induction cs rule: rev_induct)
  case Nil
  with assms show ?case by (simp add: nearest_existing_simps)
next
  case (snoc c cs)
  show ?case
  proof (cases "fs_exists f (root @ cs @ [c])")
    case True
    then show ?thesis by (intro exI [of _ "cs @ [c]"] exI [of _ "[]"]) (simp add: nearest_existing_simps)
  next
    case False
    from snoc obtain ns ms where *: "cs = ns @ ms" "nearest_existing f (root @ cs) = root @ ns"
      "ms \<noteq> [] \<longrightarrow> realpath f ((root @ ns) @ [hd ms]) = None" by blast
    have "nearest_existing f (root @ cs @ [c]) = root @ ns"
      using nearest_existing_simps(2) [of f "root @ cs" c] False *(2) by simp
    with * False show ?thesis by (intro exI [of _ ns] exI [of _ "ms @ [c]"]) (cases ms; auto simp: fs_exists_def)
  qed
qed

text \<open>What a passed check says, for the parent \<open>root @ cs\<close> of a path.\<close>

lemma checked_parent:
  assumes "root_dir f root" and "assertParentInsideRoot root f (root @ cs @ [c])" and "plain_names cs"
  obtains ns ms r where "cs = ns @ ms" and "realpath f (root @ ns) = Some r" and "prefix root r" and "plain_names ms"
    and "ms \<noteq> [] \<longrightarrow> realpath f ((root @ ns) @ [hd ms]) = None"
proof -
  have "fs_exists f root" using realpath_root_dir [OF assms(1)] by (simp add: fs_exists_def)
  from nearest_existing_split [OF this, of cs] obtain ns ms where
    *: "cs = ns @ ms" "nearest_existing f (root @ cs) = root @ ns" "ms \<noteq> [] \<longrightarrow> realpath f ((root @ ns) @ [hd ms]) = None" by blast
  moreover have "butlast (root @ cs @ [c]) = root @ cs" by (simp add: butlast_append)
  ultimately obtain r where "realpath f (root @ ns) = Some r" "prefix root r"
    using assms(2) by (auto simp: assertParentInsideRoot_def isInsideRoot_def split: option.splits)
  with * assms(3) show thesis by (intro that [of ns ms r]) auto
qed

lemma checked_existing_parent:
  assumes "assertParentInsideRoot root f (p @ [c])" and "fs_exists f p"
  obtains r where "realpath f p = Some r" and "prefix root r"
  using assms by (auto simp: assertParentInsideRoot_def isInsideRoot_def nearest_existing_simps split: option.splits)

lemma make_parents_grown:
  assumes "root_dir f root" and "assertParentInsideRoot root f (root @ cs @ [c])" and "plain_names cs"
    and "make_parents root (root @ cs @ [c]) f = (gs, e)"
  shows "(\<forall>g \<in> set gs. grown root f g) \<and> (e = None \<longrightarrow> (\<exists>r. realpath (last_state f gs) (root @ cs) = Some r \<and> prefix root r))"
proof -
  have rooted: "rooted f" using assms(1) by (simp add: root_dir_def)
  obtain ns ms r where *: "cs = ns @ ms" "realpath f (root @ ns) = Some r" "prefix root r" "plain_names ms"
    "ms \<noteq> [] \<longrightarrow> realpath f ((root @ ns) @ [hd ms]) = None"
    by (rule checked_parent [OF assms(1,2,3)])
  obtain hs ok where mk: "mkdirs f ((root @ ns) @ ms) = (hs, ok)" by force
  have G: "(\<forall>g \<in> set hs. grown root f g) \<and> (ok \<longrightarrow> realpath (last (f # hs)) ((root @ ns) @ ms) \<noteq> None)"
    by (rule mkdirs_grown [OF *(2) rooted *(3,4) _ mk]) (use *(5) in blast)
  have parent: "butlast (root @ cs @ [c]) = (root @ ns) @ ms" using *(1) by (simp add: butlast_append)
  have gs: "gs = hs" and e: "e = None \<Longrightarrow> ok \<and> assertParentInsideRoot root (last_state f hs) (root @ cs @ [c])"
    using assms(4) mk parent by (auto simp: make_parents_def split: if_splits)
  have "\<exists>r. realpath (last_state f gs) (root @ cs) = Some r \<and> prefix root r" if "e = None"
  proof -
    have "fs_exists (last_state f hs) (root @ cs)" using G *(1) e [OF that] unfolding fs_exists_def last_state_def by (metis append.assoc)
    with e [OF that] checked_existing_parent [of root "last_state f hs" "root @ cs" c] gs show ?thesis by auto
  qed
  with G gs show ?thesis by blast
qed

text \<open>What a step does: it changes entries below the root and keeps the root a directory.\<close>

definition stays :: "path \<Rightarrow> fs \<Rightarrow> fs \<Rightarrow> bool" where
  "stays root f g \<longleftrightarrow> changes_below root f g \<and> root_dir g root"

lemma stays_refl: "root_dir f root \<Longrightarrow> stays root f f"
  by (simp add: stays_def)

lemma stays_trans: "stays root f g \<Longrightarrow> stays root g h \<Longrightarrow> stays root f h"
  unfolding stays_def using changes_below_trans by metis

lemma stays_grown: "root_dir f root \<Longrightarrow> grown root f g \<Longrightarrow> stays root f g"
  unfolding stays_def grown_def using root_dir_grown by metis

lemma last_grown: "root_dir f root \<Longrightarrow> \<forall>g \<in> set gs. grown root f g \<Longrightarrow> grown root f (last_state f gs)"
  by (auto simp: last_state_def root_dir_def grown_refl)

lemma present_parent: "present f (p @ [c]) \<Longrightarrow> fs_exists f p"
  using realpath_prefix [of f p "[c]"]
  by (auto simp: present_def fs_exists_def is_link_def lstat_def entry_def split: option.splits)

lemma entry_child: "realpath f p = Some r \<Longrightarrow> entry f (p @ [c]) = Some (r @ [c])"
  by (simp add: entry_def)

lemma rename_stays:
  assumes "root_dir f root" and "realpath f p = Some r" and "prefix root r" and "realpath f q = Some s" and "prefix root s"
    and "fs_rename f (p @ [c]) (q @ [d]) = Some g"
  shows "stays root f g"
proof -
  have g: "g = move (r @ [c]) (s @ [d]) f" "f (s @ [d]) = None" "\<not> prefix (r @ [c]) (s @ [d])" "node_at f s = Some FDir"
    using assms(6) entry_child [OF assms(2), of c] entry_child [OF assms(4), of d] by (auto simp: fs_rename_def split: if_splits)
  have "rooted g" unfolding g(1) by (rule rooted_move) (use assms(1) g in \<open>auto simp: root_dir_def\<close>)
  moreover have "\<not> prefix (s @ [d]) root" "\<not> prefix (r @ [c]) root"
    using assms(3,5) by (auto simp: prefix_def)
  then have "node_at g root = node_at f root" by (simp add: g(1) move_def node_at_def)
  moreover have "changes_below root f g"
    unfolding g(1) by (rule changes_below_move) (use assms(3,5) in \<open>auto simp: prefix_snoc\<close>)
  ultimately show ?thesis using assms(1) by (simp add: stays_def root_dir_def)
qed

lemma mkdir_stays:
  assumes "root_dir f root" and "apply_mkdir root t f = (gs, e)" and "g \<in> set gs"
  shows "stays root f g"
proof -
  obtain p where p: "resolveJournalPath root t = Inr p" using assms(2,3) by (cases "resolveJournalPath root t") (auto simp: apply_mkdir_def)
  obtain cs where cs: "p = root @ cs" "cs \<noteq> []" "plain_names cs" by (rule resolved_path [OF p])
  obtain bs c where bs: "cs = bs @ [c]" using cs(2) by (cases cs rule: rev_cases) auto
  have A: "assertParentInsideRoot root f (root @ bs @ [c])" "\<not> fs_exists f p" and mk: "\<exists>ok. mkdirs f p = (gs, ok)"
    using assms(2,3) p cs(1) bs by (auto simp: apply_mkdir_def split: if_splits prod.splits)
  obtain ns ms r where *: "bs = ns @ ms" "realpath f (root @ ns) = Some r" "prefix root r" "plain_names ms"
    "ms \<noteq> [] \<longrightarrow> realpath f ((root @ ns) @ [hd ms]) = None"
    by (rule checked_parent [OF assms(1) A(1)]) (use cs(3) bs in auto)
  from mk obtain ok where mk: "mkdirs f ((root @ ns) @ ms @ [c]) = (gs, ok)" using cs(1) bs *(1) by auto
  have free: "realpath f ((root @ ns) @ [hd (ms @ [c])]) = None"
    using *(1,5) A(2) cs(1) bs by (cases ms) (auto simp: fs_exists_def)
  have "\<forall>g \<in> set gs. grown root f g"
    using mkdirs_grown [OF *(2) _ *(3) _ _ mk] assms(1) *(4) cs(3) bs free by (auto simp: root_dir_def)
  with assms(3) stays_grown [OF assms(1)] show ?thesis by blast
qed

lemma two_resolved:
  assumes "with_two_paths root s t act f = (gs, e)" and "gs \<noteq> []"
  obtains ps c qs d where "resolveJournalPath root s = Inr (root @ ps @ [c])" and "resolveJournalPath root t = Inr (root @ qs @ [d])"
    and "plain_names (ps @ [c])" and "plain_names (qs @ [d])"
    and "assertParentInsideRoot root f (root @ ps @ [c])" and "assertParentInsideRoot root f (root @ qs @ [d])"
    and "act (root @ ps @ [c]) (root @ qs @ [d]) f = (gs, e)"
proof -
  from assms obtain p q where *: "resolveJournalPath root s = Inr p" "resolveJournalPath root t = Inr q"
    "assertParentInsideRoot root f p" "assertParentInsideRoot root f q" "act p q f = (gs, e)"
    by (auto simp: with_two_paths_def split: sum.splits if_splits)
  obtain cs where cs: "p = root @ cs" "cs \<noteq> []" "plain_names cs" by (rule resolved_path [OF *(1)])
  obtain ds where ds: "q = root @ ds" "ds \<noteq> []" "plain_names ds" by (rule resolved_path [OF *(2)])
  from cs(2) ds(2) obtain ps c qs d where "cs = ps @ [c]" "ds = qs @ [d]"
    by (cases cs rule: rev_cases; cases ds rule: rev_cases) auto
  with * cs ds that show thesis by simp
qed

lemma move_stays:
  assumes "root_dir f root" and "assertParentInsideRoot root f (root @ ps @ [c])" and "assertParentInsideRoot root f (root @ qs @ [d])"
    and "plain_names qs" and "move_entry root (root @ ps @ [c]) (root @ qs @ [d]) f = (gs, e)" and "g \<in> set gs"
  shows "stays root f g"
proof -
  let ?p = "root @ ps @ [c]" and ?q = "root @ qs @ [d]"
  have there: "present f ?p" using assms(5,6) by (auto simp: move_entry_def split: if_splits)
  obtain hs e' where mk: "make_parents root ?q f = (hs, e')" by force
  note G = make_parents_grown [OF assms(1,3,4) mk]
  let ?h = "last_state f hs"
  have early: "stays root f x" if "x \<in> set hs" for x using that G stays_grown [OF assms(1)] by blast
  show ?thesis
  proof (cases "g \<in> set hs")
    case False
    then have e': "e' = None" and ren: "fs_rename ?h ?p ?q = Some g"
      using assms(5,6) mk there by (auto simp: move_entry_def split: if_splits option.splits)
    have gr: "grown root f ?h" using last_grown [OF assms(1)] G by blast
    from present_parent [of f "root @ ps" c] there have "fs_exists f (root @ ps)" by simp
    then obtain r where r: "realpath f (root @ ps) = Some r" "prefix root r"
      using checked_existing_parent [of root f "root @ ps" c] assms(2) by auto
    from G e' obtain s where s: "realpath ?h (root @ qs) = Some s" "prefix root s" by blast
    have "realpath ?h (root @ ps) = Some r" using gr r(1) by (simp add: grown_def)
    then have "stays root ?h g"
      using rename_stays [of ?h root "root @ ps" r "root @ qs" s c d g] r(2) s ren stays_grown [OF assms(1) gr] by (simp add: stays_def)
    with stays_grown [OF assms(1) gr] show ?thesis by (rule stays_trans)
  qed (rule early)
qed

lemma copied_stays:
  assumes "root_dir f root" and "realpath f p = Some r" and "prefix root r" and "copy_states f src (p @ [t]) = Some cs" and "g \<in> set cs"
  shows "grown root f g"
proof -
  have "node_at f r = Some FDir" "f (r @ [t]) = None" "\<exists>k. g = f(r @ [t] \<mapsto> k)"
    using assms(4,5) entry_child [OF assms(2), of t] by (auto simp: copy_states_def split: option.splits node.splits if_splits)
  with grown_entry [of f r t root] assms(1,3) show ?thesis by (auto simp: root_dir_def)
qed

lemma copy_stays:
  assumes "root_dir f root" and "assertParentInsideRoot root f (root @ qs @ [d])"
    and "plain_names qs" and "copy_file root u src (root @ qs @ [d]) f = (gs, e)" and "g \<in> set gs"
  shows "stays root f g"
proof -
  let ?q = "root @ qs @ [d]" and ?t = "''.'' @ d @ ''.journal-copy-tmp-'' @ u"
  have tmp: "temp_path ?q u = (root @ qs) @ [?t]" by (simp add: temp_path_def butlast_append)
  obtain hs e' where mk: "make_parents root ?q f = (hs, e')" by force
  note G = make_parents_grown [OF assms(1,2,3) mk]
  let ?h = "last_state f hs"
  have gr: "grown root f ?h" using last_grown [OF assms(1)] G by blast
  have h: "root_dir ?h root" using stays_grown [OF assms(1) gr] by (simp add: stays_def)
  consider "g \<in> set hs" | cs where "e' = None" "copy_states ?h src ((root @ qs) @ [?t]) = Some cs"
      "g \<in> set cs \<or> g = ?h \<or> fs_rename (last_state ?h cs) ((root @ qs) @ [?t]) ((root @ qs) @ [d]) = Some g"
    using assms(4,5) mk tmp by (auto simp: copy_file_def Let_def split: if_splits option.splits)
  then show ?thesis
  proof cases
    case 1
    with G stays_grown [OF assms(1)] show ?thesis by blast
  next
    case 2
    from G 2(1) obtain s where s: "realpath ?h (root @ qs) = Some s" "prefix root s" by blast
    have C: "grown root ?h x" if "x \<in> set cs" for x by (rule copied_stays [OF h s 2(2) that])
    have L: "grown root ?h (last_state ?h cs)" using C last_grown [OF h] by blast
    have "stays root ?h g"
      using 2(3)
    proof (elim disjE)
      assume "fs_rename (last_state ?h cs) ((root @ qs) @ [?t]) ((root @ qs) @ [d]) = Some g"
      moreover have "realpath (last_state ?h cs) (root @ qs) = Some s" using L s(1) by (simp add: grown_def)
      ultimately have "stays root (last_state ?h cs) g"
        using rename_stays s(2) stays_grown [OF h L] by (metis stays_def)
      with stays_grown [OF h L] show ?thesis by (rule stays_trans)
    qed (use C stays_grown [OF h] stays_refl [OF h] in blast)+
    with stays_grown [OF assms(1) gr] show ?thesis by (rule stays_trans)
  qed
qed

lemma step_stays:
  assumes "root_dir f root" and "applyStep root u st f = (gs, e)" and "g \<in> set gs"
  shows "stays root f g"
proof (cases st)
  case (Mkdir t)
  with assms mkdir_stays show ?thesis by simp
next
  case (MoveIfExists s t)
  with assms(2) have "with_two_paths root s t (move_entry root) f = (gs, e)" by simp
  from two_resolved [OF this] assms(3) obtain ps c qs d where "plain_names (qs @ [d])"
    "assertParentInsideRoot root f (root @ ps @ [c])" "assertParentInsideRoot root f (root @ qs @ [d])"
    "move_entry root (root @ ps @ [c]) (root @ qs @ [d]) f = (gs, e)" by (metis list.set_cases list.distinct(1))
  with move_stays [OF assms(1)] assms(3) show ?thesis by simp
next
  case (CopyFileIfMissing s t)
  with assms(2) have "with_two_paths root s t (copy_file root u) f = (gs, e)" by simp
  from two_resolved [OF this] assms(3) obtain ps c qs d where "plain_names (qs @ [d])"
    "assertParentInsideRoot root f (root @ qs @ [d])"
    "copy_file root u (root @ ps @ [c]) (root @ qs @ [d]) f = (gs, e)" by (metis list.set_cases list.distinct(1))
  with copy_stays [OF assms(1)] assms(3) show ?thesis by simp
qed

section \<open>Executions\<close>

lemma last_stays: "root_dir f root \<Longrightarrow> \<forall>g \<in> set gs. stays root f g \<Longrightarrow> stays root f (last_state f gs)"
  by (auto simp: last_state_def stays_refl)

lemma run_steps_stays:
  "root_dir (fst st) root \<Longrightarrow> g \<in> set (fst (run_steps root unique now st)) \<Longrightarrow> stays root (fst st) (fst g)"
proof (induction root unique now st rule: run_steps.induct)
  case (1 root unique now f op)
  note IH = 1(1) and root = 1(2) and g = 1(3)
  show ?case
  proof (cases "jo_nextStep op < length (jo_steps op)")
    case True
    obtain gs e where step: "applyStep root (unique (jo_nextStep op)) (jo_steps op ! jo_nextStep op) f = (gs, e)" by force
    have S: "\<forall>g \<in> set gs. stays root f g" using step_stays [OF _ step] root by simp
    have L: "stays root f (last_state f gs)" by (rule last_stays [OF _ S]) (use root in simp)
    show ?thesis
    proof (cases e)
      case None
      let ?st = "(last_state f gs, persist now (op\<lparr>jo_nextStep := jo_nextStep op + 1\<rparr>))"
      have "g \<in> set (map (\<lambda>g. (g, op)) gs) \<or> g = ?st \<or> g \<in> set (fst (run_steps root unique now ?st))"
        using g True step None by (auto simp: run_steps.simps [of root unique now f] Let_def split: prod.splits)
      moreover have "stays root (last_state f gs) (fst g)" if "g \<in> set (fst (run_steps root unique now ?st))"
        using IH [OF True step [symmetric] None refl] L that by (simp add: stays_def)
      ultimately show ?thesis using S L stays_trans [OF L] by auto
    qed (use g True step S L in \<open>auto simp: run_steps.simps [of root unique now f]\<close>)
  qed (use root g in \<open>auto simp: run_steps.simps [of root unique now f] stays_refl\<close>)
qed

text \<open>
  C21. An operation of the journal changes nothing outside of its root, whatever links there are below it: in every
  state an execution goes through, each entry that is not below the root is as it was, and the root is still a directory.
\<close>

theorem journal_stays_inside_root:
  assumes "root_dir f root" and "(g, op') \<in> set (fst (execute root unique now (f, op)))"
  shows "root_dir g root \<and> (\<forall>x. prefix root x \<or> g x = f x)"
proof -
  let ?st = "(f, persist now (op\<lparr>jo_status := Applying, jo_error := None\<rparr>))"
  have "(g, op') = ?st \<or> (g, op') \<in> set (fst (run_steps root unique now ?st))"
    using assms(2) by (auto simp: execute_def Let_def split: if_splits prod.splits)
  with run_steps_stays [of ?st root "(g, op')"] assms(1) have "stays root f g" by (auto simp: stays_refl)
  then show ?thesis by (auto simp: stays_def changes_below_def)
qed

lemma run_steps_ends:
  assumes "jo_nextStep (snd st) \<le> length (jo_steps (snd st))" and "run_steps root unique now st = (sts, r)"
  shows "sts \<noteq> [] \<and> jo_error (snd (last sts)) = r \<and> jo_steps (snd (last sts)) = jo_steps (snd st) \<and>
    jo_status (snd (last sts)) = (if r = None then JournalCompleted else JournalFailed) \<and>
    (if r = None then jo_nextStep (snd (last sts)) = length (jo_steps (snd st))
     else jo_nextStep (snd (last sts)) < length (jo_steps (snd st)))"
  using assms
proof (induction root unique now st arbitrary: sts r rule: run_steps.induct)
  case (1 root unique now f op)
  show ?case
  proof (cases "jo_nextStep op < length (jo_steps op)")
    case True
    obtain gs e where step: "applyStep root (unique (jo_nextStep op)) (jo_steps op ! jo_nextStep op) f = (gs, e)" by force
    show ?thesis
    proof (cases e)
      case None
      let ?st = "(last_state f gs, persist now (op\<lparr>jo_nextStep := jo_nextStep op + 1\<rparr>))"
      obtain rest r' where rest: "run_steps root unique now ?st = (rest, r')" by force
      with 1(3) True step None have *: "r = r'" "sts = map (\<lambda>g. (g, op)) gs @ ?st # rest"
        by (simp_all add: run_steps.simps [of root unique now f] Let_def)
      from 1(1) [OF True step [symmetric] None refl _ rest] True show ?thesis by (cases r') (simp_all add: * persist_def)
    qed (use 1(3) True step in \<open>auto simp: run_steps.simps [of root unique now f] persist_def\<close>)
  qed (use 1(2,3) in \<open>auto simp: run_steps.simps [of root unique now f] persist_def\<close>)
qed


section \<open>Examples\<close>

definition sample_root :: path where "sample_root = [''r'']"

definition sample_tree :: fs where "sample_tree = (\<lambda>_. None)([''r''] \<mapsto> FDir)"

definition sample_half :: fs where "sample_half = sample_tree([''r'', ''a''] \<mapsto> FDir)"

definition sample_operation :: "journal_operation" where
  "sample_operation = \<lparr>jo_id = ''i'', jo_kind = ''k'', jo_status = Pending, jo_createdAt = ''t'', jo_updatedAt = ''t'', jo_nextStep = 0,
     jo_steps = [Mkdir ''a/b''], jo_error = None\<rparr>"

lemma sample_step:
  "applyStep sample_root u (Mkdir ''a/b'') sample_tree = ([sample_half, sample_half([''r'', ''a'', ''b''] \<mapsto> FDir)], None)"
proof -
  have "mkdirs sample_tree [''r'', ''a'', ''b''] = ([sample_half, sample_half([''r'', ''a'', ''b''] \<mapsto> FDir)], True)"
    by (simp add: mkdirs_def realpath_def entry_def node_at_def sample_tree_def sample_half_def Let_def)
  moreover have "resolveJournalPath sample_root ''a/b'' = Inr [''r'', ''a'', ''b'']" by code_simp
  moreover have "assertParentInsideRoot sample_root sample_tree [''r'', ''a'', ''b'']" by code_simp
  moreover have "\<not> fs_exists sample_tree [''r'', ''a'', ''b'']" by code_simp
  ultimately show ?thesis by (simp add: apply_mkdir_def)
qed

lemma sample_execution:
  "execute sample_root u now (sample_tree, sample_operation) =
    (let op1 = sample_operation\<lparr>jo_status := Applying, jo_updatedAt := now\<rparr>; op2 = op1\<lparr>jo_nextStep := 1\<rparr>;
         h = sample_half([''r'', ''a'', ''b''] \<mapsto> FDir)
     in ([(sample_tree, op1), (sample_half, op1), (h, op1), (h, op2), (h, op2\<lparr>jo_status := JournalCompleted\<rparr>)], None))"
  by (simp add: execute_def run_steps.simps sample_operation_def persist_def sample_step last_state_def Let_def del: applyStep.simps)

lemma plain_sample_tree: "plain sample_tree"
proof -
  have "plain (\<lambda>_. None)" by (simp add: plain_def rooted_def)
  from plain_upd [OF this, where x = "[]" and c = "''r''" and k = FDir] show ?thesis by (simp add: sample_tree_def node_at_def)
qed

lemma root_sample_tree: "root_dir sample_tree sample_root"
  using plain_sample_tree by (simp add: root_dir_def plain_def sample_tree_def sample_root_def node_at_def)

theorem journal_stays_inside_root_witness:
  "root_dir sample_half sample_root \<and> sample_half [''etc''] = sample_tree [''etc'']"
proof -
  have "(sample_half, sample_operation\<lparr>jo_status := Applying, jo_updatedAt := ''t''\<rparr>) \<in>
      set (fst (execute sample_root (\<lambda>_. ''u'') ''t'' (sample_tree, sample_operation)))"
    by (simp add: sample_execution Let_def)
  from journal_stays_inside_root [OF root_sample_tree this] have "root_dir sample_half sample_root" "prefix sample_root [''etc''] \<or> sample_half [''etc''] = sample_tree [''etc'']"
    by blast+
  then show ?thesis by (simp add: sample_root_def)
qed


end
