(* ===== verification/Journal_Recovery.thy ===== *)
theory Journal_Recovery
  imports Operation_Journal
begin

text \<open>
  The recovery of the file operation journal: each step is specified as one atomic change of a tree without links,
  \<open>step_effect\<close>; the steps of Operation_Journal implement it, in every state a crash leaves them they still can, and so
  an operation that is executed again after a crash ends as if there had been none. Temporary files that a crash leaves
  behind are ignored by looking at \<open>clean\<close> trees.
\<close>

section \<open>Making directories at once\<close>

definition dirs_or_free :: "fs \<Rightarrow> path \<Rightarrow> bool" where
  "dirs_or_free f p \<longleftrightarrow> list_all (\<lambda>x. node_at f x = None \<or> node_at f x = Some FDir) (prefixes p)"

definition fill :: "path \<Rightarrow> fs \<Rightarrow> fs" where
  "fill p f = (\<lambda>x. if x \<noteq> [] \<and> prefix x p then Some FDir else f x)"

lemma dirs_or_free_iff: "dirs_or_free f p \<longleftrightarrow> (\<forall>x. prefix x p \<longrightarrow> node_at f x = None \<or> node_at f x = Some FDir)"
  by (auto simp: dirs_or_free_def list_all_iff)

lemma node_at_fill: "node_at (fill p f) x = (if prefix x p then Some FDir else node_at f x)"
  by (simp add: node_at_def fill_def)

lemma fill_Some: "x \<noteq> [] \<Longrightarrow> fill p f x = (if prefix x p then Some FDir else f x)"
  by (simp add: fill_def)

text \<open>A directory that is there is above directories only.\<close>

lemma fill_existing:
  assumes "plain f" and "node_at f p = Some FDir"
  shows "fill p f = f" and "dirs_or_free f p"
proof -
  have "node_at f x = Some FDir" if "prefix x p" for x
  proof -
    from that obtain y where y: "p = x @ y" by (auto simp: prefix_def)
    show ?thesis
    proof (cases y)
      case (Cons c z)
      with y assms show ?thesis using plain_above [of f x c z] by (simp add: node_at_def split: if_splits)
    qed (use y assms in simp)
  qed
  then show "fill p f = f" "dirs_or_free f p" by (force simp: fill_def node_at_def dirs_or_free_iff fun_eq_iff)+
qed

lemma plain_fill:
  assumes "plain f" and "dirs_or_free f p"
  shows "plain (fill p f)"
proof -
  have "node_at (fill p f) x = Some FDir" if "fill p f (x @ [c]) \<noteq> None" for x c
  proof (cases "prefix (x @ [c]) p")
    case True
    then have "prefix x p" by (auto simp: prefix_def)
    then show ?thesis by (simp add: node_at_fill)
  next
    case False
    with that have "f (x @ [c]) \<noteq> None" by (simp add: fill_def)
    with plain_parent [OF assms(1)] show ?thesis by (simp add: node_at_fill)
  qed
  with assms(1) show ?thesis unfolding plain_def rooted_def by (auto simp: fill_def)
qed

lemma mkdir_all_plain:
  assumes "plain f" and "node_at f x = Some FDir" and "plain_names (x @ cs)"
    and "mkdir_all f (map (\<lambda>ys. x @ ys) (tl (prefixes cs))) = (gs, ok)"
  shows "ok = dirs_or_free f (x @ cs) \<and> (ok \<longrightarrow> last_state f gs = fill (x @ cs) f) \<and>
    (\<forall>g \<in> set gs. \<exists>y. prefix x y \<and> prefix y (x @ cs) \<and> dirs_or_free f y \<and> g = fill y f)"
  using assms
proof (induction cs arbitrary: f x gs)
  case Nil
  with fill_existing [OF Nil(1,2)] show ?case by (simp add: last_state_def)
next
  case (Cons c cs)
  let ?x = "x @ [c]"
  have step: "map (\<lambda>ys. x @ ys) (tl (prefixes (c # cs))) = ?x # map (\<lambda>ys. ?x @ ys) (tl (prefixes cs))"
    by (cases cs) (simp_all add: comp_def)
  have look: "realpath f ?x = (if f ?x = None then None else Some ?x)" "entry f ?x = Some ?x"
    using Cons.prems by (simp_all add: realpath_plain entry_plain node_at_def butlast_append)
  show ?case
  proof (cases "f ?x")
    case None
    define f1 where "f1 = f(?x \<mapsto> FDir)"
    obtain hs where hs: "mkdir_all f1 (map (\<lambda>ys. ?x @ ys) (tl (prefixes cs))) = (hs, ok)" "gs = f1 # hs"
      using Cons.prems(4) step look None by (auto simp: f1_def Let_def split: prod.splits)
    have p1: "plain f1" unfolding f1_def by (rule plain_upd) (use Cons.prems None in auto)
    have IH: "ok = dirs_or_free f1 (?x @ cs) \<and> (ok \<longrightarrow> last_state f1 hs = fill (?x @ cs) f1) \<and>
        (\<forall>g \<in> set hs. \<exists>y. prefix ?x y \<and> prefix y (?x @ cs) \<and> dirs_or_free f1 y \<and> g = fill y f1)"
      by (rule Cons.IH [OF p1 _ _ hs(1)]) (use Cons.prems(3) in \<open>auto simp: f1_def node_at_def\<close>)
    have same: "fill y f1 = fill y f \<and> dirs_or_free f1 y = dirs_or_free f y" if "prefix ?x y" for y
    proof
      show "fill y f1 = fill y f" using that by (auto simp: f1_def fill_def fun_eq_iff)
      have "(node_at f1 z = None \<or> node_at f1 z = Some FDir) = (node_at f z = None \<or> node_at f z = Some FDir)" for z
        using None by (auto simp: f1_def node_at_def)
      then show "dirs_or_free f1 y = dirs_or_free f y" by (simp add: dirs_or_free_iff)
    qed
    have full: "fill ?x f1 = f1" "dirs_or_free f1 ?x"
      by (rule fill_existing [OF p1], simp add: f1_def node_at_def)+
    from same [of ?x] have same1: "fill ?x f1 = fill ?x f" "dirs_or_free f1 ?x = dirs_or_free f ?x" by blast+
    have first: "f1 = fill ?x f" by (rule full(1) [symmetric, THEN trans, OF same1(1)])
    have first_dirs: "dirs_or_free f ?x" by (rule same1(2) [THEN iffD1, OF full(2)])
    have last: "last_state f gs = last_state f1 hs" by (simp add: last_state_def hs(2))
    have whole: "prefix ?x (x @ c # cs)" by simp
    have "\<exists>y. prefix x y \<and> prefix y (x @ c # cs) \<and> dirs_or_free f y \<and> g = fill y f" if g: "g \<in> set gs" for g
    proof (cases "g = f1")
      case True
      show ?thesis by (intro exI [of _ ?x] conjI) (simp_all only: True first_dirs, simp_all add: first [symmetric])
    next
      case False
      with g hs(2) IH obtain y where y: "prefix ?x y" "prefix y (?x @ cs)" "dirs_or_free f1 y" "g = fill y f1" by auto
      then have "prefix x y" by (auto simp: prefix_def)
      with y same [OF y(1)] show ?thesis by (intro exI [of _ y]) auto
    qed
    moreover have "ok = dirs_or_free f (x @ c # cs) \<and> (ok \<longrightarrow> last_state f gs = fill (x @ c # cs) f)"
      using IH last same [of "x @ c # cs"] whole by auto
    ultimately show ?thesis by blast
  next
    case (Some k)
    show ?thesis
    proof (cases "k = FDir")
      case True
      with Cons.prems(4) step look Some have "mkdir_all f (map (\<lambda>ys. ?x @ ys) (tl (prefixes cs))) = (gs, ok)"
        by (simp add: node_at_def)
      from Cons.IH [OF Cons.prems(1) _ _ this] Cons.prems(3) Some True show ?thesis
        by (auto simp: node_at_def dest: append_prefixD)
    next
      case False
      then have "\<not> dirs_or_free f (x @ c # cs)" using Some by (auto simp: dirs_or_free_iff node_at_def intro!: exI [of _ ?x])
      moreover have "gs = [] \<and> \<not> ok" using Cons.prems(4) step look Some False by (auto simp: node_at_def)
      ultimately show ?thesis by simp
    qed
  qed
qed

lemma mkdirs_plain:
  assumes "plain f" and "plain_names p" and "mkdirs f p = (gs, ok)"
  shows "ok = dirs_or_free f p \<and> (ok \<longrightarrow> last_state f gs = fill p f) \<and>
    (\<forall>g \<in> set gs. \<exists>y. prefix y p \<and> dirs_or_free f y \<and> g = fill y f)"
  using mkdir_all_plain [of f "[]" p gs ok] assms by (simp add: mkdirs_def node_at_def)

lemma root_dir_fill: "root_dir f root \<Longrightarrow> plain f \<Longrightarrow> dirs_or_free f p \<Longrightarrow> root_dir (fill p f) root"
  using plain_fill [of f p] by (simp add: root_dir_def node_at_fill plain_def)

lemma fill_fill: "prefix y p \<Longrightarrow> fill p (fill y f) = fill p f"
  by (auto simp: fill_def fun_eq_iff)

lemma dirs_or_free_fill: "prefix y p \<Longrightarrow> dirs_or_free f y \<Longrightarrow> dirs_or_free (fill y f) p \<longleftrightarrow> dirs_or_free f p"
  by (auto simp: dirs_or_free_iff node_at_fill)

lemma present_plain: "plain f \<Longrightarrow> plain_names p \<Longrightarrow> present f p \<longleftrightarrow> node_at f p \<noteq> None"
  by (simp add: present_def is_link_plain fs_exists_plain)

lemma butlast_fixed: "butlast p = p \<Longrightarrow> p = []"
  by (metis append_butlast_last_id append_self_conv list.distinct(1))

lemma not_prefix_butlast: "q \<noteq> [] \<Longrightarrow> \<not> prefix q (butlast q)"
  by (cases q rule: rev_cases) (auto dest: prefix_length_le)

section \<open>Steps as one change\<close>

fun step_effect :: "path \<Rightarrow> journal_step \<Rightarrow> fs \<Rightarrow> fs option" where
  "step_effect root (Mkdir t) f =
     (case resolveJournalPath root t of
        Inl _ \<Rightarrow> None
      | Inr p \<Rightarrow> if dirs_or_free f p then Some (fill p f) else None)"
| "step_effect root (MoveIfExists s t) f =
     (case (resolveJournalPath root s, resolveJournalPath root t) of
        (Inr p, Inr q) \<Rightarrow>
          if f p = None then (if f q = None then None else Some f)
          else if f q \<noteq> None \<or> prefix p q \<or> \<not> dirs_or_free f (butlast q) then None
          else Some (move p q (fill (butlast q) f))
      | _ \<Rightarrow> None)"
| "step_effect root (CopyFileIfMissing s t) f =
     (case (resolveJournalPath root s, resolveJournalPath root t) of
        (Inr p, Inr q) \<Rightarrow>
          (case f q of
             Some k \<Rightarrow> if is_file (Some k) then Some f else None
           | None \<Rightarrow>
               (case f p of
                  Some (FFile content) \<Rightarrow> if dirs_or_free f (butlast q) then Some ((fill (butlast q) f)(q \<mapsto> FFile content)) else None
                | _ \<Rightarrow> None))
      | _ \<Rightarrow> None)"

text \<open>Without links, the look at the parent of a path always passes.\<close>

lemma parent_passes:
  assumes "plain f" and "root_dir f root" and "resolveJournalPath root t = Inr p"
  shows "assertParentInsideRoot root f p"
proof -
  obtain cs where p: "p = root @ cs" "cs \<noteq> []" "plain_names cs" by (rule resolved_path [OF assms(3)])
  obtain bs c where cs: "cs = bs @ [c]" using p(2) by (cases cs rule: rev_cases) auto
  have names: "plain_names root" using assms(2) by (simp add: root_dir_def)
  have "fs_exists f root" using realpath_root_dir [OF assms(2)] by (simp add: fs_exists_def)
  from nearest_existing_split [OF this, of bs] obtain ns ms where
    *: "bs = ns @ ms" "nearest_existing f (root @ bs) = root @ ns" by blast
  have "fs_exists f (root @ ns)"
  proof -
    have "fs_exists f (nearest_existing f x)" for x
      by (induction f x rule: nearest_existing.induct) (subst nearest_existing.simps, auto dest: butlast_fixed)
    with *(2) show ?thesis by metis
  qed
  then have "realpath f (root @ ns) = Some (root @ ns)"
    using realpath_plain [OF assms(1), of "root @ ns"] names p(3) cs *(1) by (auto simp: fs_exists_def split: if_splits)
  moreover have "isInsideRoot root (root @ ns)"
    using resolved_names [OF assms(3)] p(1) cs *(1) by (cases ns) (auto simp: isInsideRoot_def)
  moreover have "butlast p = root @ bs" by (simp add: p(1) cs butlast_append)
  ultimately show ?thesis using *(2) by (simp add: assertParentInsideRoot_def)
qed

lemma resolved_plain:
  assumes "plain f" and "root_dir f root" and "resolveJournalPath root t = Inr p"
  shows "p \<noteq> []" and "plain_names p" and "plain_names (butlast p)" and "node_at f p = f p" and "present f p \<longleftrightarrow> f p \<noteq> None"
    and "lstat f p = f p" and "fs_exists f p \<longleftrightarrow> f p \<noteq> None"
proof -
  obtain cs where p: "p = root @ cs" "cs \<noteq> []" "plain_names cs" by (rule resolved_path [OF assms(3)])
  then show "p \<noteq> []" "node_at f p = f p" by (simp_all add: node_at_def)
  show names: "plain_names p" using p assms(2) by (simp add: root_dir_def)
  then show "plain_names (butlast p)" by (rule plain_names_butlast)
  show "present f p \<longleftrightarrow> f p \<noteq> None" "lstat f p = f p" "fs_exists f p \<longleftrightarrow> f p \<noteq> None"
    using names assms(1) \<open>node_at f p = f p\<close> by (simp_all add: present_plain lstat_plain fs_exists_plain)
qed

lemma mkdir_plain:
  assumes "plain f" and "root_dir f root" and "resolveJournalPath root t = Inr p" and "apply_mkdir root t f = (gs, e)"
  shows "(e = None \<longleftrightarrow> dirs_or_free f p) \<and> (e = None \<longrightarrow> last_state f gs = fill p f) \<and>
    (\<forall>g \<in> set gs. \<exists>y. prefix y p \<and> dirs_or_free f y \<and> g = fill y f)"
proof -
  note P = resolved_plain [OF assms(1,2,3)] and pass = parent_passes [OF assms(1,2,3)]
  show ?thesis
  proof (cases "f p = None")
    case True
    obtain hs ok where mk: "mkdirs f p = (hs, ok)" by force
    with assms(3,4) P pass True have "gs = hs" "e = (if ok then None else Some IoFailed)"
      by (auto simp: apply_mkdir_def)
    with mkdirs_plain [OF assms(1) P(2) mk] show ?thesis by auto
  next
    case False
    with assms(3,4) P pass have *: "gs = []" "e = (if f p = Some FDir then None else Some NotDirectory)"
      by (auto simp: apply_mkdir_def split: if_splits)
    show ?thesis
    proof (cases "f p = Some FDir")
      case True
      with * fill_existing [OF assms(1), of p] P(4) show ?thesis by (simp add: last_state_def)
    next
      case False
      then have "\<not> dirs_or_free f p" using \<open>f p \<noteq> None\<close> P(4) by (auto simp: dirs_or_free_iff)
      with * False show ?thesis by simp
    qed
  qed
qed

lemma make_parents_plain:
  assumes "plain f" and "root_dir f root" and "resolveJournalPath root t = Inr p" and "make_parents root p f = (gs, e)"
  shows "(e = None \<longleftrightarrow> dirs_or_free f (butlast p)) \<and> (e = None \<longrightarrow> last_state f gs = fill (butlast p) f) \<and>
    (\<forall>g \<in> set gs. \<exists>y. prefix y (butlast p) \<and> dirs_or_free f y \<and> g = fill y f)"
proof -
  note P = resolved_plain [OF assms(1,2,3)]
  obtain hs ok where mk: "mkdirs f (butlast p) = (hs, ok)" by force
  note M = mkdirs_plain [OF assms(1) P(3) mk]
  have "assertParentInsideRoot root (last_state f hs) p" if "ok"
    using M that parent_passes [OF _ _ assms(3), of "fill (butlast p) f"] plain_fill [OF assms(1)] root_dir_fill [OF assms(2,1)] by simp
  with M mk assms(4) show ?thesis by (auto simp: make_parents_def split: if_splits)
qed

lemma rename_plain:
  assumes "plain f" and "plain_names p" and "plain_names q" and "p \<noteq> []" and "q \<noteq> []"
    and "f p \<noteq> None" and "f q = None" and "node_at f (butlast q) = Some FDir"
  shows "fs_rename f p q = (if prefix p q then None else Some (move p q f))"
proof -
  have "node_at f (butlast p) \<noteq> None" using node_parent [OF assms(1), of p] assms(4,6) by (simp add: node_at_def)
  with assms have "entry f p = Some p" "entry f q = Some q" by (simp_all add: entry_plain)
  with assms show ?thesis by (auto simp: fs_rename_def)
qed

lemma move_plain:
  assumes "plain f" and "root_dir f root" and "resolveJournalPath root s = Inr p" and "resolveJournalPath root t = Inr q"
    and "move_entry root p q f = (gs, e)"
  shows "step_effect root (MoveIfExists s t) f = (if e = None then Some (last_state f gs) else None) \<and>
    (e = None \<longrightarrow> (\<forall>g \<in> set gs. g = last_state f gs \<or> f p \<noteq> None \<and> f q = None \<and> (\<exists>y. prefix y (butlast q) \<and> dirs_or_free f y \<and> g = fill y f)))"
proof -
  note P = resolved_plain [OF assms(1,2,3)] and Q = resolved_plain [OF assms(1,2,4)]
  show ?thesis
  proof (cases "f p = None \<or> f q \<noteq> None")
    case True
    with assms(3,4,5) P Q show ?thesis by (auto simp: move_entry_def last_state_def split: if_splits)
  next
    case False
    obtain hs e' where mk: "make_parents root q f = (hs, e')" by force
    note M = make_parents_plain [OF assms(1,2,4) mk]
    show ?thesis
    proof (cases e')
      case None
      let ?h = "fill (butlast q) f"
      have h: "last_state f hs = ?h" "dirs_or_free f (butlast q)" using M None by auto
      have "f p \<noteq> None" "f q = None" using False by auto
      moreover have "\<not> prefix q (butlast q)" by (rule not_prefix_butlast [OF Q(1)])
      ultimately have "?h p \<noteq> None" "?h q = None" by (auto simp: fill_def)
      then have "fs_rename ?h p q = (if prefix p q then None else Some (move p q ?h))"
        using rename_plain [OF plain_fill [OF assms(1) h(2)] P(2) Q(2) P(1) Q(1)] by (simp add: node_at_fill)
      with False mk None h assms(3,4,5) P Q M show ?thesis by (auto simp: move_entry_def last_state_def split: if_splits)
    next
      case (Some e1)
      with M False mk assms(3,4,5) P Q show ?thesis by (auto simp: move_entry_def)
    qed
  qed
qed

lemma plain_below_None: "plain f \<Longrightarrow> p \<noteq> [] \<Longrightarrow> f p = None \<Longrightarrow> f (p @ q) = None"
  using plain_above [of f p "hd q" "tl q"] by (cases q; cases "f (p @ q)") (auto simp: node_at_def)

lemma move_new_file:
  assumes "plain h" and "t \<noteq> []" and "h t = None" and "h q = None" and "t \<noteq> q" and "length t = length q"
  shows "move t q (h(t \<mapsto> k)) = h(q \<mapsto> k)"
proof
  fix x
  have q: "q \<noteq> []" using assms(2,6) by auto
  show "move t q (h(t \<mapsto> k)) x = (h(q \<mapsto> k)) x"
  proof (cases "prefix q x")
    case True
    then obtain z where z: "x = q @ z" by (auto simp: prefix_def)
    show ?thesis
      using z plain_below_None [OF assms(1) q assms(4), of z] plain_below_None [OF assms(1,2,3), of z]
      by (cases z) (simp_all add: move_def)
  next
    case False
    then have "x \<noteq> q" by auto
    show ?thesis
    proof (cases "prefix t x")
      case True
      then obtain z where "x = t @ z" by (auto simp: prefix_def)
      with False \<open>x \<noteq> q\<close> True plain_below_None [OF assms(1,2,3), of z] show ?thesis by (simp add: move_def)
    qed (use False \<open>x \<noteq> q\<close> in \<open>auto simp: move_def\<close>)
  qed
qed

lemma not_prefix_same:
  assumes "length t = length q" and "t \<noteq> q"
  shows "\<not> prefix t q"
proof
  assume "prefix t q"
  then obtain z where z: "q = t @ z" by (auto simp: prefix_def)
  with assms(1) [symmetric] have "z = []" by simp
  with z assms(2) show False by simp
qed

lemma temp_path_facts:
  assumes "q \<noteq> []"
  shows "butlast (temp_path q u) = butlast q" and "temp_path q u \<noteq> q" and "length (temp_path q u) = length q"
    and "temp_path q u = butlast q @ [last (temp_path q u)]" and "plain_names q \<Longrightarrow> plain_names (temp_path q u)"
proof -
  have "last q \<noteq> ''.'' @ last q @ ''.journal-copy-tmp-'' @ u" by (auto dest: arg_cong [where f = length])
  then show "temp_path q u \<noteq> q" using assms by (cases q rule: rev_cases) (auto simp: temp_path_def)
qed (use assms plain_names_butlast in \<open>auto simp: temp_path_def\<close>)

lemma copy_states_plain:
  assumes "plain f" and "plain_names p" and "p \<noteq> []" and "f p = Some (FFile content)" and "plain_names t" and "t \<noteq> []" and "node_at f (butlast t) = Some FDir"
  shows "copy_states f p t = (if f t = None then Some (map (\<lambda>n. f(t \<mapsto> FFile (take n content))) [0..<length content + 1]) else None)"
proof -
  have "realpath f p = Some p" using assms by (simp add: realpath_plain node_at_def)
  moreover have "entry f t = Some t" using assms by (simp add: entry_plain)
  ultimately show ?thesis using assms by (simp add: copy_states_def)
qed

lemma copy_plain:
  assumes "plain f" and "root_dir f root" and "resolveJournalPath root s = Inr p" and "resolveJournalPath root t = Inr q"
    and "copy_file root u p q f = (gs, e)"
  shows "(e = None \<longrightarrow> step_effect root (CopyFileIfMissing s t) f = Some (last_state f gs)) \<and>
    (step_effect root (CopyFileIfMissing s t) f \<noteq> None \<and> f (temp_path q u) = None \<longrightarrow> e = None) \<and>
    (e = None \<longrightarrow> (\<forall>g \<in> set gs. g = last_state f gs \<or> f q = None \<and> (\<exists>y. prefix y (butlast q) \<and> dirs_or_free f y \<and> g = fill y f) \<or>
      f q = None \<and> dirs_or_free f (butlast q) \<and> f (temp_path q u) = None \<and> (\<exists>c. g = (fill (butlast q) f)(temp_path q u \<mapsto> FFile c))))"
proof -
  note P = resolved_plain [OF assms(1,2,3)] and Q = resolved_plain [OF assms(1,2,4)]
  consider "f q \<noteq> None" | "f q = None" "\<And>c. f p \<noteq> Some (FFile c)" | c where "f q = None" "f p = Some (FFile c)"
    by (cases "f q") auto
  then show ?thesis
  proof cases
    case 1
    with assms(3,4,5) Q show ?thesis by (auto simp: copy_file_def last_state_def split: if_splits)
  next
    case 2
    then have "\<not> is_file (f p)" by (auto simp: is_file_def split: option.splits node.splits)
    with 2 assms(3,4,5) P Q show ?thesis
      by (auto simp: copy_file_def split: if_splits option.splits node.splits)
  next
    case 3
    let ?h = "fill (butlast q) f" and ?t = "temp_path q u"
    note T = temp_path_facts [OF Q(1), of u]
    obtain hs e' where mk: "make_parents root q f = (hs, e')" by force
    note M = make_parents_plain [OF assms(1,2,4) mk]
    have isf: "is_file (f p)" by (simp add: is_file_def 3)
    show ?thesis
    proof (cases e')
      case (Some e1)
      with M isf mk 3 assms(3,4,5) P Q show ?thesis by (auto simp: copy_file_def split: if_splits)
    next
      case None
      have h: "last_state f hs = ?h" "dirs_or_free f (butlast q)" using M None by auto
      have ph: "plain ?h" by (rule plain_fill [OF assms(1) h(2)])
      have "\<not> prefix p (butlast q)" using h(2) 3(2) P(4) by (auto simp: dirs_or_free_iff)
      then have hp: "?h p = Some (FFile c)" using 3(2) by (simp add: fill_def)
      have "?t \<noteq> []" using T(4) by auto
      then have ht: "?h ?t = f ?t" using not_prefix_butlast [of ?t] T(1) by (simp add: fill_def)
      have hq: "?h q = None" using 3(1) not_prefix_butlast [OF Q(1)] by (simp add: fill_def)
      have dir: "node_at ?h (butlast ?t) = Some FDir" by (simp add: T(1) node_at_fill)
      note C = copy_states_plain [OF ph P(2,1) hp T(5) [OF Q(2)] \<open>?t \<noteq> []\<close> dir]
      let ?cs = "map (\<lambda>n. ?h(?t \<mapsto> FFile (take n c))) [0..<length c + 1]" and ?k = "?h(?t \<mapsto> FFile c)"
      have last: "last_state ?h ?cs = ?k" by (simp add: last_state_def)
      have "plain ?k" if "f ?t = None"
        using plain_upd [OF ph, of "butlast q" "last ?t" "FFile c"] that ht T(4) by (simp add: node_at_fill)
      then have "fs_rename ?k ?t q = (if prefix ?t q then None else Some (move ?t q ?k))" if "f ?t = None"
        by (rule rename_plain) (use that T Q hq \<open>?t \<noteq> []\<close> in \<open>auto simp: node_at_def node_at_fill fill_def\<close>)
      moreover have "\<not> prefix ?t q" by (rule not_prefix_same [OF T(3,2)])
      moreover have "move ?t q ?k = ?h(q \<mapsto> FFile c)" if "f ?t = None"
        by (rule move_new_file [OF ph \<open>?t \<noteq> []\<close> _ hq T(2,3)]) (use that ht in simp)
      ultimately have ren: "fs_rename ?k ?t q = Some (?h(q \<mapsto> FFile c))" if "f ?t = None" using that by simp
      have run: "copy_file root u p q f = (case copy_states ?h p ?t of None \<Rightarrow> (hs, Some IoFailed)
          | Some cs \<Rightarrow> (case fs_rename (last_state ?h cs) ?t q of None \<Rightarrow> (hs @ cs @ [?h], Some IoFailed) | Some f2 \<Rightarrow> (hs @ cs @ [f2], None)))"
        using 3 isf mk None h P(5,6) Q(5) by (simp add: copy_file_def Let_def cong: option.case_cong)
      show ?thesis
      proof (cases "f ?t = None")
        case False
        with run C ht assms(5) show ?thesis by auto
      next
        case True
        with run C ht last ren have *: "gs = hs @ ?cs @ [?h(q \<mapsto> FFile c)]" "e = None" using assms(5) by simp_all
        have "step_effect root (CopyFileIfMissing s t) f = Some (last_state f gs)"
          using 3 assms(3,4) h(2) * by (simp add: last_state_def)
        moreover have "g = last_state f gs \<or> (\<exists>y. prefix y (butlast q) \<and> dirs_or_free f y \<and> g = fill y f) \<or> (\<exists>c. g = ?h(?t \<mapsto> FFile c))"
          if "g \<in> set gs" for g using that * M by (auto simp: last_state_def)
        ultimately show ?thesis using 3(1) h(2) True *(2) by blast
      qed
    qed
  qed
qed

section \<open>Files that are not temporary\<close>

definition temp_name :: "string \<Rightarrow> bool" where
  "temp_name c \<longleftrightarrow> sublist ''.journal-copy-tmp-'' c"

definition clean_path :: "path \<Rightarrow> bool" where
  "clean_path p \<longleftrightarrow> \<not> list_ex temp_name p"

definition same_files :: "fs \<Rightarrow> fs \<Rightarrow> bool" where
  "same_files f g \<longleftrightarrow> (\<forall>x. clean_path x \<longrightarrow> f x = g x)"

fun step_paths :: "path \<Rightarrow> journal_step \<Rightarrow> path list" where
  "step_paths root (Mkdir t) = [root @ js_split slash t]"
| "step_paths root (MoveIfExists s t) = [root @ js_split slash s, root @ js_split slash t]"
| "step_paths root (CopyFileIfMissing s t) = [root @ js_split slash s, root @ js_split slash t]"

lemma same_files_refl [simp]: "same_files f f"
  by (simp add: same_files_def)

lemma same_files_sym: "same_files f g \<Longrightarrow> same_files g f"
  by (simp add: same_files_def)

lemma same_files_trans: "same_files f g \<Longrightarrow> same_files g h \<Longrightarrow> same_files f h"
  by (simp add: same_files_def)

lemma clean_path_append [simp]: "clean_path (p @ q) \<longleftrightarrow> clean_path p \<and> clean_path q"
  by (simp add: clean_path_def)

lemma clean_path_prefix: "clean_path p \<Longrightarrow> prefix x p \<Longrightarrow> clean_path x"
  by (auto simp: prefix_def)

lemma clean_path_butlast: "clean_path p \<Longrightarrow> clean_path (butlast p)"
  using clean_path_prefix prefixeq_butlast by blast

lemma dirs_or_free_same: "same_files f g \<Longrightarrow> clean_path p \<Longrightarrow> dirs_or_free f p \<longleftrightarrow> dirs_or_free g p"
  unfolding dirs_or_free_iff same_files_def node_at_def using clean_path_prefix by metis

lemma same_files_fill: "same_files f g \<Longrightarrow> same_files (fill p f) (fill p g)"
  by (simp add: same_files_def fill_def)

lemma same_files_upd: "same_files f g \<Longrightarrow> same_files (f(p \<mapsto> k)) (g(p \<mapsto> k))"
  by (simp add: same_files_def)

lemma same_files_move:
  assumes "same_files f g" and "clean_path p"
  shows "same_files (move p q f) (move p q g)"
  unfolding same_files_def
proof (intro allI impI)
  fix x assume "clean_path x"
  then have "clean_path (p @ drop (length q) x)" if "prefix q x" using assms(2) that by (auto simp: prefix_def)
  with assms(1) \<open>clean_path x\<close> show "move p q f x = move p q g x" by (simp add: move_def same_files_def)
qed

lemma temp_name_temp: "temp_name (''.'' @ d @ ''.journal-copy-tmp-'' @ u)"
  unfolding temp_name_def sublist_def by (rule exI [of _ "''.'' @ d"], rule exI [of _ u]) simp

lemma temp_not_clean: "\<not> clean_path (temp_path q u)"
  using temp_name_temp [of "last q" u] by (simp add: temp_path_def clean_path_def)

lemma same_files_temp: "same_files (f(temp_path q u \<mapsto> k)) f"
  using temp_not_clean [of q u] by (auto simp: same_files_def)

lemma step_effect_same:
  assumes "same_files f g" and "list_all clean_path (step_paths root st)" and "step_effect root st f = Some h"
  shows "\<exists>k. step_effect root st g = Some k \<and> same_files h k"
proof (cases st)
  case (Mkdir t)
  then obtain p where p: "resolveJournalPath root t = Inr p" "dirs_or_free f p" "h = fill p f"
    using assms(3) by (auto split: sum.splits if_splits)
  with Mkdir assms(2) resolved_names [OF p(1)] have "clean_path p" by simp
  with p Mkdir dirs_or_free_same [OF assms(1)] same_files_fill [OF assms(1)] show ?thesis by simp
next
  case (MoveIfExists s t)
  then obtain p q where pq: "resolveJournalPath root s = Inr p" "resolveJournalPath root t = Inr q"
    using assms(3) by (auto split: sum.splits)
  with MoveIfExists assms(2) resolved_names [OF pq(1)] resolved_names [OF pq(2)] have c: "clean_path p" "clean_path q" by simp_all
  then have "f p = g p" "f q = g q" using assms(1) by (simp_all add: same_files_def)
  with MoveIfExists pq assms(1,3) c dirs_or_free_same [OF assms(1) clean_path_butlast [OF c(2)]] show ?thesis
    by (auto split: if_splits intro!: same_files_move same_files_fill)
next
  case (CopyFileIfMissing s t)
  then obtain p q where pq: "resolveJournalPath root s = Inr p" "resolveJournalPath root t = Inr q"
    using assms(3) by (auto split: sum.splits)
  with CopyFileIfMissing assms(2) resolved_names [OF pq(1)] resolved_names [OF pq(2)] have c: "clean_path p" "clean_path q" by simp_all
  then have "f p = g p" "f q = g q" using assms(1) by (simp_all add: same_files_def)
  with CopyFileIfMissing pq assms(1,3) dirs_or_free_same [OF assms(1) clean_path_butlast [OF c(2)]] show ?thesis
    by (auto split: if_splits option.splits node.splits intro!: same_files_upd same_files_fill)
qed

section \<open>Effects keep plain trees and are idempotent\<close>

lemma not_above_root:
  assumes "resolveJournalPath root t = Inr p"
  shows "\<not> prefix p root"
proof
  assume "prefix p root"
  obtain cs where cs: "p = root @ cs" "cs \<noteq> []" by (rule resolved_path [OF assms])
  with \<open>prefix p root\<close> have "length p \<le> length root" by (simp add: prefix_length_le)
  with cs show False by simp
qed

lemma plain_move:
  assumes "plain f" and "node_at f q = Some FDir" and "\<not> prefix p (q @ [c])" and "f (q @ [c]) = None"
  shows "plain (move p (q @ [c]) f)"
  using rooted_move [OF _ assms(2,3,4)] assms(1) by (auto simp: plain_def move_def)

lemma effect_plain:
  assumes "plain f" and "root_dir f root" and "step_effect root st f = Some h"
  shows "plain h \<and> root_dir h root"
proof -
  have fill: "plain (fill p f) \<and> root_dir (fill p f) root" if "dirs_or_free f p" for p
    using plain_fill [OF assms(1) that] root_dir_fill [OF assms(2,1) that] by blast
  have "plain h \<and> node_at h root = Some FDir"
  proof (cases st)
    case (Mkdir t)
    with assms(3) fill show ?thesis by (auto simp: root_dir_def split: sum.splits if_splits)
  next
    case (MoveIfExists s t)
    with assms(3) obtain p q where pq: "resolveJournalPath root s = Inr p" "resolveJournalPath root t = Inr q"
      by (auto split: sum.splits)
    note P = resolved_plain [OF assms(1,2) pq(1)] and Q = resolved_plain [OF assms(1,2) pq(2)]
    obtain b c where q: "q = b @ [c]" using Q(1) by (cases q rule: rev_cases) auto
    consider "h = f" | "dirs_or_free f b" "f q = None" "\<not> prefix p q" "h = move p q (fill b f)"
      using assms(3) MoveIfExists pq q by (auto split: if_splits)
    then show ?thesis
    proof cases
      case 2
      have "fill b f q = None" using 2(2) q by (auto simp: fill_def dest: prefix_length_le)
      with 2 q fill [OF 2(1)] have "plain h" by (auto intro!: plain_move simp: node_at_fill)
      moreover have "node_at h root = node_at (fill b f) root"
        using 2(4) not_above_root [OF pq(1)] not_above_root [OF pq(2)] by (simp add: node_at_def move_def)
      ultimately show ?thesis using fill [OF 2(1)] by (simp add: root_dir_def)
    qed (use assms in \<open>simp add: root_dir_def\<close>)
  next
    case (CopyFileIfMissing s t)
    with assms(3) obtain p q where pq: "resolveJournalPath root s = Inr p" "resolveJournalPath root t = Inr q"
      by (auto split: sum.splits)
    note Q = resolved_plain [OF assms(1,2) pq(2)]
    obtain b c where q: "q = b @ [c]" using Q(1) by (cases q rule: rev_cases) auto
    consider "h = f" | k where "dirs_or_free f b" "f q = None" "h = (fill b f)(q \<mapsto> FFile k)"
      using assms(3) CopyFileIfMissing pq q by (auto split: if_splits option.splits node.splits)
    then show ?thesis
    proof cases
      case 2
      have "fill b f q = None" using 2(2) q by (auto simp: fill_def dest: prefix_length_le)
      with 2 q fill [OF 2(1)] have "plain h" by (auto intro!: plain_upd simp: node_at_fill)
      moreover have "node_at h root = node_at (fill b f) root"
        using 2(3) not_above_root [OF pq(2)] by (auto simp: node_at_def)
      ultimately show ?thesis using fill [OF 2(1)] by (simp add: root_dir_def)
    qed (use assms in \<open>simp add: root_dir_def\<close>)
  qed
  with assms(2) show ?thesis by (simp add: root_dir_def plain_def)
qed

lemma effect_again:
  assumes "plain f" and "root_dir f root" and "step_effect root st f = Some h"
  shows "step_effect root st h = Some h"
proof (cases st)
  case (Mkdir t)
  with assms(3) show ?thesis
    by (auto simp: fill_fill dirs_or_free_iff node_at_fill split: sum.splits if_splits)
next
  case (MoveIfExists s t)
  with assms(3) obtain p q where pq: "resolveJournalPath root s = Inr p" "resolveJournalPath root t = Inr q"
    by (auto split: sum.splits)
  note P = resolved_plain [OF assms(1,2) pq(1)] and Q = resolved_plain [OF assms(1,2) pq(2)]
  show ?thesis
  proof (cases "f p = None")
    case False
    with assms(3) MoveIfExists pq have h: "f q = None" "h = move p q (fill (butlast q) f)" by (auto split: if_splits)
    have "\<not> prefix q p" using plain_below_None [OF assms(1) Q(1) h(1)] False by (auto simp: prefix_def)
    then have "h p = None" by (simp add: h(2) move_def)
    moreover have "h q \<noteq> None" using False by (simp add: h(2) move_def fill_def)
    ultimately show ?thesis using MoveIfExists pq by simp
  qed (use assms(3) MoveIfExists pq in \<open>auto split: if_splits\<close>)
next
  case (CopyFileIfMissing s t)
  with assms(3) show ?thesis by (auto simp: is_file_def split: sum.splits option.splits node.splits if_splits)
qed

lemma effect_fill_mkdir:
  assumes "resolveJournalPath root t = Inr p" and "prefix y p" and "dirs_or_free f y"
  shows "step_effect root (Mkdir t) (fill y f) = step_effect root (Mkdir t) f"
  using assms by (simp add: dirs_or_free_fill fill_fill)

lemma fill_butlast_free: "q \<noteq> [] \<Longrightarrow> prefix y (butlast q) \<Longrightarrow> fill y f q = f q"
  using not_prefix_butlast [of q] by (auto simp: fill_def dest: prefix_order.order_trans)

lemma effect_fill_move:
  assumes "resolveJournalPath root s = Inr p" and "resolveJournalPath root t = Inr q" and "q \<noteq> []" and "p \<noteq> []"
    and "f q = None" and "f p \<noteq> None" and "prefix y (butlast q)" and "dirs_or_free f y"
  shows "step_effect root (MoveIfExists s t) (fill y f) = step_effect root (MoveIfExists s t) f"
proof -
  have "fill y f p \<noteq> None" using assms(6) by (simp add: fill_def)
  with assms fill_butlast_free [OF assms(3,7)] show ?thesis by (auto simp: dirs_or_free_fill fill_fill)
qed

lemma effect_fill_copy:
  assumes "resolveJournalPath root s = Inr p" and "resolveJournalPath root t = Inr q" and "q \<noteq> []" and "p \<noteq> []"
    and "f q = None" and "f p = Some (FFile c)" and "prefix y (butlast q)" and "dirs_or_free f y"
  shows "step_effect root (CopyFileIfMissing s t) (fill y f) = step_effect root (CopyFileIfMissing s t) f"
proof -
  have "\<not> prefix p y" using assms(4,6,8) by (auto simp: dirs_or_free_iff node_at_def)
  then have "fill y f p = f p" by (simp add: fill_def)
  with assms fill_butlast_free [OF assms(3,7)] show ?thesis by (simp add: dirs_or_free_fill fill_fill)
qed

section \<open>The steps implement their effects, also from where a crash has left them\<close>

lemma step_unfold:
  assumes "plain f" and "root_dir f root" and "resolveJournalPath root s = Inr p" and "resolveJournalPath root t = Inr q"
  shows "with_two_paths root s t act f = act p q f"
  using assms parent_passes [OF assms(1,2,3)] parent_passes [OF assms(1,2,4)] by (simp add: with_two_paths_def)

lemma unresolved_step:
  "with_two_paths root s t act f = (gs, None) \<Longrightarrow>
    \<exists>p q. resolveJournalPath root s = Inr p \<and> resolveJournalPath root t = Inr q"
  by (auto simp: with_two_paths_def split: sum.splits)

lemma step_sound:
  assumes "plain f" and "root_dir f root" and "applyStep root u st f = (gs, None)"
  shows "step_effect root st f = Some (last_state f gs)"
proof (cases st)
  case (Mkdir t)
  with assms(3) obtain p where p: "resolveJournalPath root t = Inr p" by (auto simp: apply_mkdir_def split: sum.splits)
  with mkdir_plain [OF assms(1,2) p, of gs None] assms(3) Mkdir show ?thesis by simp
next
  case (MoveIfExists s t)
  with assms(3) obtain p q where pq: "resolveJournalPath root s = Inr p" "resolveJournalPath root t = Inr q"
    using unresolved_step by fastforce
  with move_plain [OF assms(1,2) pq, of gs None] assms(3) MoveIfExists show ?thesis
    by (simp add: step_unfold [OF assms(1,2) pq])
next
  case (CopyFileIfMissing s t)
  with assms(3) obtain p q where pq: "resolveJournalPath root s = Inr p" "resolveJournalPath root t = Inr q"
    using unresolved_step by fastforce
  with copy_plain [OF assms(1,2) pq, of u gs None] assms(3) CopyFileIfMissing show ?thesis
    by (simp add: step_unfold [OF assms(1,2) pq])
qed

text \<open>The random part of the name of a temporary file occurs at the end of no name so far.\<close>

definition avoids :: "string \<Rightarrow> path \<Rightarrow> bool" where
  "avoids u p \<longleftrightarrow> \<not> list_ex (suffix u) p"

definition fresh :: "string \<Rightarrow> fs \<Rightarrow> bool" where
  "fresh u f \<longleftrightarrow> (\<forall>x. f x \<noteq> None \<longrightarrow> avoids u x)"

lemma avoids_append [simp]: "avoids u (p @ q) \<longleftrightarrow> avoids u p \<and> avoids u q"
  by (simp add: avoids_def)

lemma avoids_prefix: "avoids u p \<Longrightarrow> prefix x p \<Longrightarrow> avoids u x"
  by (auto simp: prefix_def)

lemma fresh_temp: "fresh u f \<Longrightarrow> f (temp_path q u) = None"
proof (rule ccontr)
  assume "fresh u f" "f (temp_path q u) \<noteq> None"
  then have "\<not> suffix u (''.'' @ last q @ ''.journal-copy-tmp-'' @ u)" by (auto simp: fresh_def temp_path_def avoids_def)
  then show False by (simp add: suffix_def)
qed

lemma fresh_fill: "fresh u f \<Longrightarrow> avoids u p \<Longrightarrow> fresh u (fill p f)"
  using avoids_prefix by (auto simp: fresh_def fill_def)

lemma fresh_move:
  assumes "fresh u f" and "avoids u q"
  shows "fresh u (move p q f)"
  unfolding fresh_def
proof (intro allI impI)
  fix x assume x: "move p q f x \<noteq> None"
  show "avoids u x"
  proof (cases "prefix q x")
    case True
    then obtain z where z: "x = q @ z" by (auto simp: prefix_def)
    with x have "f (p @ z) \<noteq> None" by (simp add: move_def)
    then have "avoids u (p @ z)" using assms(1) unfolding fresh_def by blast
    with z assms(2) show ?thesis by simp
  qed (use x assms(1) in \<open>auto simp: move_def fresh_def split: if_splits\<close>)
qed

lemma effect_fresh:
  assumes "fresh u f" and "list_all (avoids u) (step_paths root st)" and "step_effect root st f = Some h"
  shows "fresh u h"
proof (cases st)
  case (Mkdir t)
  with assms obtain p where "resolveJournalPath root t = Inr p" "h = fill p f" by (auto split: sum.splits if_splits)
  with Mkdir assms(1,2) resolved_names [of root t p] show ?thesis by (simp add: fresh_fill)
next
  case (MoveIfExists s t)
  with assms(3) obtain p q where pq: "resolveJournalPath root s = Inr p" "resolveJournalPath root t = Inr q"
    by (auto split: sum.splits)
  with assms(2) MoveIfExists resolved_names [OF pq(2)] have q: "avoids u q" "avoids u (butlast q)"
    using avoids_prefix [OF _ prefixeq_butlast] by auto
  with assms(1,3) MoveIfExists pq show ?thesis by (auto split: if_splits intro!: fresh_move fresh_fill)
next
  case (CopyFileIfMissing s t)
  with assms(3) obtain p q where pq: "resolveJournalPath root s = Inr p" "resolveJournalPath root t = Inr q"
    by (auto split: sum.splits)
  with assms(2) CopyFileIfMissing resolved_names [OF pq(2)] have q: "avoids u q" "avoids u (butlast q)"
    using avoids_prefix [OF _ prefixeq_butlast] by auto
  with fresh_fill [OF assms(1) q(2)] assms(1,3) CopyFileIfMissing pq show ?thesis
    by (auto simp: fresh_def split: if_splits option.splits node.splits)
qed

lemma step_complete:
  assumes "plain f" and "root_dir f root" and "step_effect root st f = Some h" and "fresh u f"
  shows "\<exists>gs. applyStep root u st f = (gs, None) \<and> last_state f gs = h"
proof -
  have "snd (applyStep root u st f) = None"
  proof (cases st)
    case (Mkdir t)
    with assms(3) obtain p where p: "resolveJournalPath root t = Inr p" "dirs_or_free f p" by (auto split: sum.splits if_splits)
    with mkdir_plain [OF assms(1,2) p(1), of "fst (apply_mkdir root t f)" "snd (apply_mkdir root t f)"] Mkdir show ?thesis by simp
  next
    case (MoveIfExists s t)
    with assms(3) obtain p q where pq: "resolveJournalPath root s = Inr p" "resolveJournalPath root t = Inr q"
      by (auto split: sum.splits)
    obtain gs e where m: "move_entry root p q f = (gs, e)" by force
    from move_plain [OF assms(1,2) pq m] assms(3) MoveIfExists m show ?thesis
      by (cases e) (simp_all add: step_unfold [OF assms(1,2) pq])
  next
    case (CopyFileIfMissing s t)
    with assms(3) obtain p q where pq: "resolveJournalPath root s = Inr p" "resolveJournalPath root t = Inr q"
      by (auto split: sum.splits)
    with copy_plain [OF assms(1,2) pq, of u "fst (copy_file root u p q f)" "snd (copy_file root u p q f)"] assms(3) fresh_temp [OF assms(4)] CopyFileIfMissing
    show ?thesis by (auto simp: step_unfold [OF assms(1,2) pq])
  qed
  then obtain gs where gs: "applyStep root u st f = (gs, None)" by (metis prod.collapse)
  with step_sound [OF assms(1,2) gs] assms(3) show ?thesis by simp
qed

text \<open>A state from which the step can still be done, with the same files as \<open>h\<close> in the end.\<close>

definition resumable :: "path \<Rightarrow> journal_step \<Rightarrow> fs \<Rightarrow> fs \<Rightarrow> bool" where
  "resumable root st h g \<longleftrightarrow> plain g \<and> root_dir g root \<and> (\<exists>k. step_effect root st g = Some k \<and> same_files k h)"

lemma resumable_fill:
  assumes "plain f" and "root_dir f root" and "dirs_or_free f y" and "step_effect root st (fill y f) = step_effect root st f"
    and "step_effect root st f = Some h"
  shows "resumable root st h (fill y f)"
  using assms plain_fill [OF assms(1,3)] root_dir_fill [OF assms(2,1,3)] by (simp add: resumable_def)

lemma resumable_end:
  assumes "plain f" and "root_dir f root" and "step_effect root st f = Some h"
  shows "resumable root st h h"
  using effect_plain [OF assms] effect_again [OF assms] by (simp add: resumable_def)

lemma step_resumable:
  assumes "plain f" and "root_dir f root" and "list_all clean_path (step_paths root st)"
    and "applyStep root u st f = (gs, None)" and "g \<in> set gs"
  shows "resumable root st (last_state f gs) g"
proof -
  note E = step_sound [OF assms(1,2,4)]
  note ended = resumable_end [OF assms(1,2) E]
  show ?thesis
  proof (cases st)
    case (Mkdir t)
    with assms(4) obtain p where p: "resolveJournalPath root t = Inr p" by (auto simp: apply_mkdir_def split: sum.splits)
    with mkdir_plain [OF assms(1,2) p, of gs None] assms(4,5) Mkdir obtain y where y: "prefix y p" "dirs_or_free f y" "g = fill y f" by auto
    show ?thesis unfolding y(3)
      by (rule resumable_fill [OF assms(1,2) y(2) _ E]) (use effect_fill_mkdir [OF p y(1,2)] Mkdir in simp)
  next
    case (MoveIfExists s t)
    with assms(4) obtain p q where pq: "resolveJournalPath root s = Inr p" "resolveJournalPath root t = Inr q"
      using unresolved_step by fastforce
    note P = resolved_plain [OF assms(1,2) pq(1)] and Q = resolved_plain [OF assms(1,2) pq(2)]
    have "move_entry root p q f = (gs, None)" using assms(4) MoveIfExists by (simp add: step_unfold [OF assms(1,2) pq])
    from move_plain [OF assms(1,2) pq this] assms(5) consider "g = last_state f gs"
      | y where "f p \<noteq> None" "f q = None" "prefix y (butlast q)" "dirs_or_free f y" "g = fill y f" by auto
    then show ?thesis
    proof cases
      case 2
      show ?thesis unfolding 2(5)
        by (rule resumable_fill [OF assms(1,2) 2(4) _ E])
          (use effect_fill_move [OF pq Q(1) P(1) 2(2,1,3,4)] MoveIfExists in simp)
    qed (use ended in simp)
  next
    case (CopyFileIfMissing s t)
    with assms(4) obtain p q where pq: "resolveJournalPath root s = Inr p" "resolveJournalPath root t = Inr q"
      using unresolved_step by fastforce
    note P = resolved_plain [OF assms(1,2) pq(1)] and Q = resolved_plain [OF assms(1,2) pq(2)]
    have run: "copy_file root u p q f = (gs, None)" using assms(4) CopyFileIfMissing by (simp add: step_unfold [OF assms(1,2) pq])
    have source: "\<exists>c. f p = Some (FFile c)" if "f q = None"
      using E CopyFileIfMissing pq that by (auto split: option.splits node.splits)
    have again: "step_effect root st (fill y f) = step_effect root st f" if "f q = None" "prefix y (butlast q)" "dirs_or_free f y" for y
      using source [OF that(1)] effect_fill_copy [OF pq Q(1) P(1) that(1) _ that(2,3)] CopyFileIfMissing by auto
    from copy_plain [OF assms(1,2) pq run] assms(5) consider "g = last_state f gs"
      | y where "f q = None" "prefix y (butlast q)" "dirs_or_free f y" "g = fill y f"
      | c where "f q = None" "dirs_or_free f (butlast q)" "f (temp_path q u) = None" "g = (fill (butlast q) f)(temp_path q u \<mapsto> FFile c)"
      by auto
    then show ?thesis
    proof cases
      case 2
      show ?thesis unfolding 2(4) by (rule resumable_fill [OF assms(1,2) 2(3) again [OF 2(1,2,3)] E])
    next
      case 3
      let ?h = "fill (butlast q) f" and ?t = "temp_path q u"
      have R: "resumable root st (last_state f gs) ?h"
        by (rule resumable_fill [OF assms(1,2) 3(2) again [OF 3(1) prefix_order.refl 3(2)] E])
      note T = temp_path_facts [OF Q(1), of u]
      have "?t \<noteq> []" using T(4) by auto
      then have free: "?h ?t = None" using 3(3) not_prefix_butlast [of ?t] T(1) by (simp add: fill_def)
      have "plain g" unfolding 3(4)
        using plain_upd [of ?h "butlast q" "last ?t" "FFile c"] R free T(4) by (simp add: resumable_def node_at_fill)
      moreover have "root_dir g root" unfolding 3(4)
        using R free \<open>plain g\<close> \<open>?t \<noteq> []\<close> 3(4) by (auto simp: resumable_def root_dir_def plain_def node_at_def)
      moreover obtain k where k: "step_effect root st ?h = Some k" "same_files k (last_state f gs)" using R unfolding resumable_def by blast
      have "same_files ?h g" unfolding 3(4) by (rule same_files_sym [OF same_files_temp])
      then obtain k' where k': "step_effect root st g = Some k'" "same_files k k'" using step_effect_same [OF _ assms(3) k(1)] by blast
      have "same_files k' (last_state f gs)" by (rule same_files_trans [OF same_files_sym [OF k'(2)] k(2)])
      with k'(1) have "\<exists>k. step_effect root st g = Some k \<and> same_files k (last_state f gs)" by blast
      ultimately show ?thesis by (simp add: resumable_def)
    qed (use ended in simp)
  qed
qed

section \<open>Executions\<close>

fun effects :: "path \<Rightarrow> journal_step list \<Rightarrow> fs \<Rightarrow> fs option" where
  "effects root [] f = Some f"
| "effects root (st # sts) f = (case step_effect root st f of None \<Rightarrow> None | Some g \<Rightarrow> effects root sts g)"

lemma effects_same:
  "same_files f g \<Longrightarrow> list_all (\<lambda>st. list_all clean_path (step_paths root st)) sts \<Longrightarrow> effects root sts f = Some h \<Longrightarrow>
    \<exists>k. effects root sts g = Some k \<and> same_files h k"
proof (induction sts arbitrary: f g)
  case (Cons st sts)
  then obtain f1 where f1: "step_effect root st f = Some f1" "effects root sts f1 = Some h" by (auto split: option.splits)
  from step_effect_same [OF Cons.prems(1) _ f1(1)] Cons.prems(2) obtain g1 where "step_effect root st g = Some g1" "same_files f1 g1" by auto
  with Cons.IH [of f1 g1] f1(2) Cons.prems(2) show ?case by simp
qed simp

lemma drop_step: "n < length xs \<Longrightarrow> drop n xs = xs ! n # drop (n + 1) xs"
  by (simp add: Cons_nth_drop_Suc)

text \<open>A successful run has the effects of the steps left; from each of its states the steps left can be done.\<close>

definition recoverable :: "path \<Rightarrow> journal_step list \<Rightarrow> fs \<Rightarrow> journal_state \<Rightarrow> bool" where
  "recoverable root steps h = (\<lambda>(g, op). plain g \<and> root_dir g root \<and> jo_steps op = steps \<and> jo_nextStep op \<le> length steps \<and>
     (jo_status op = JournalCompleted \<longrightarrow> jo_nextStep op = length steps) \<and>
     (\<exists>k. effects root (drop (jo_nextStep op) steps) g = Some k \<and> same_files k h))"

lemma recoverable_step:
  assumes "resumable root st g1 g" and "jo_nextStep op < length (jo_steps op)" and "st = jo_steps op ! jo_nextStep op"
    and "jo_status op \<noteq> JournalCompleted" and "list_all (\<lambda>st. list_all clean_path (step_paths root st)) (jo_steps op)"
    and "effects root (drop (jo_nextStep op + 1) (jo_steps op)) g1 = Some h"
  shows "recoverable root (jo_steps op) h (g, op)"
proof -
  from assms(1) obtain k where k: "plain g" "root_dir g root" "step_effect root st g = Some k" "same_files k g1" by (auto simp: resumable_def)
  have "list_all (\<lambda>st. list_all clean_path (step_paths root st)) (drop (jo_nextStep op + 1) (jo_steps op))"
    using assms(5) by (auto simp: list_all_iff dest: in_set_dropD)
  from effects_same [OF same_files_sym [OF k(4)] this assms(6)] obtain k' where
    "effects root (drop (jo_nextStep op + 1) (jo_steps op)) k = Some k'" "same_files k' h" by (auto dest: same_files_sym)
  with k assms(2,3,4) show ?thesis by (simp add: recoverable_def drop_step)
qed

lemma run_recoverable:
  assumes "plain (fst st)" and "root_dir (fst st) root" and "jo_status (snd st) \<noteq> JournalCompleted"
    and "jo_nextStep (snd st) \<le> length (jo_steps (snd st))"
    and "list_all (\<lambda>st. list_all clean_path (step_paths root st)) (jo_steps (snd st))"
    and "run_steps root unique now st = (sts, None)"
  shows "effects root (drop (jo_nextStep (snd st)) (jo_steps (snd st))) (fst st) = Some (fst (last sts)) \<and>
    (\<forall>x \<in> set sts. recoverable root (jo_steps (snd st)) (fst (last sts)) x)"
  using assms
proof (induction root unique now st arbitrary: sts rule: run_steps.induct)
  case (1 root unique now f op)
  note clean = 1(6) and run = 1(7)
  have f: "plain f" "root_dir f root" using 1(2,3) by simp_all
  show ?case
  proof (cases "jo_nextStep op < length (jo_steps op)")
    case True
    let ?s = "jo_steps op ! jo_nextStep op"
    obtain gs where step: "applyStep root (unique (jo_nextStep op)) ?s f = (gs, None)"
      using run True by (auto simp: run_steps.simps [of root unique now f] split: prod.splits option.splits)
    let ?g = "last_state f gs"
    define op1 where "op1 = persist now (op\<lparr>jo_nextStep := jo_nextStep op + 1\<rparr>)"
    have op1: "jo_nextStep op1 = jo_nextStep op + 1" "jo_steps op1 = jo_steps op" "jo_status op1 = jo_status op"
      by (simp_all add: op1_def persist_def)
    obtain rest where rest: "run_steps root unique now (?g, op1) = (rest, None)" "sts = map (\<lambda>g. (g, op)) gs @ (?g, op1) # rest"
      using run True step by (auto simp: run_steps.simps [of root unique now f] op1_def Let_def split: prod.splits)
    note E = step_sound [OF f step]
    have g: "plain ?g" "root_dir ?g root" using effect_plain [OF f E] by blast+
    have IH: "effects root (drop (jo_nextStep op + 1) (jo_steps op)) ?g = Some (fst (last rest)) \<and>
        (\<forall>x \<in> set rest. recoverable root (jo_steps op) (fst (last rest)) x)"
      using 1(1) [OF True step [symmetric] refl refl _ _ _ _ _ rest(1) [unfolded op1_def]] 1(4) True clean g
      by (simp add: persist_def)
    have "rest \<noteq> []" using run_steps_ends [OF _ rest(1)] True by (simp add: op1)
    then have last: "last sts = last rest" by (simp add: rest(2))
    have "list_all clean_path (step_paths root ?s)" using clean True by (auto simp: list_all_iff)
    then have "recoverable root (jo_steps op) (fst (last rest)) (x, op)" if "x \<in> set gs" for x
      using recoverable_step [OF step_resumable [OF f _ step that] True refl] 1(4) clean IH by simp
    moreover have "recoverable root (jo_steps op) (fst (last rest)) (?g, op1)"
      using g IH True 1(4) by (auto simp: recoverable_def op1)
    moreover have "effects root (drop (jo_nextStep op) (jo_steps op)) f = Some (fst (last rest))"
      using IH E by (simp add: drop_step [OF True])
    ultimately show ?thesis using IH \<open>rest \<noteq> []\<close> by (auto simp: last rest(2))
  next
    case False
    with run 1(5) f show ?thesis by (auto simp: run_steps.simps [of root unique now f] recoverable_def persist_def)
  qed
qed

lemma run_complete:
  assumes "plain (fst st)" and "root_dir (fst st) root" and "\<And>i. fresh (unique i) (fst st)"
    and "\<And>i s. s \<in> set (jo_steps (snd st)) \<Longrightarrow> list_all (avoids (unique i)) (step_paths root s)"
    and "effects root (drop (jo_nextStep (snd st)) (jo_steps (snd st))) (fst st) = Some h"
  shows "\<exists>sts. run_steps root unique now st = (sts, None) \<and> fst (last (st # sts)) = h"
  using assms
proof (induction root unique now st rule: run_steps.induct)
  case (1 root unique now f op)
  have f: "plain f" "root_dir f root" using 1(2,3) by simp_all
  show ?case
  proof (cases "jo_nextStep op < length (jo_steps op)")
    case True
    let ?s = "jo_steps op ! jo_nextStep op"
    obtain g where g: "step_effect root ?s f = Some g" "effects root (drop (jo_nextStep op + 1) (jo_steps op)) g = Some h"
      using 1(6) True by (auto simp: drop_step split: option.splits)
    have fr: "fresh (unique i) f" for i using 1(4) [of i] by simp
    from step_complete [OF f g(1) fr] obtain gs where
      step: "applyStep root (unique (jo_nextStep op)) ?s f = (gs, None)" "last_state f gs = g" by blast
    define op1 where "op1 = persist now (op\<lparr>jo_nextStep := jo_nextStep op + 1\<rparr>)"
    have op1: "jo_nextStep op1 = jo_nextStep op + 1" "jo_steps op1 = jo_steps op" by (simp_all add: op1_def persist_def)
    have s: "?s \<in> set (jo_steps op)" using True by simp
    have "fresh (unique i) g" for i using effect_fresh [OF fr _ g(1)] 1(5) [of ?s i] s by simp
    then have "\<exists>sts. run_steps root unique now (last_state f gs, op1) = (sts, None) \<and> fst (last ((last_state f gs, op1) # sts)) = h"
      unfolding op1_def by (intro 1(1) [OF True step(1) [symmetric] refl refl])
        (use effect_plain [OF f g(1)] g(2) 1(5) step(2) in \<open>simp_all add: persist_def\<close>)
    then obtain rest where rest: "run_steps root unique now (last_state f gs, op1) = (rest, None)" "fst (last ((last_state f gs, op1) # rest)) = h"
      by blast
    have "run_steps root unique now (f, op) = (map (\<lambda>g. (g, op)) gs @ (last_state f gs, op1) # rest, None)"
      by (subst run_steps.simps) (use rest(1) in \<open>simp add: True step(1) op1_def Let_def\<close>)
    then show ?thesis using rest(2) by (intro exI conjI) auto
  next
    case False
    then have "h = f" using 1(6) by simp
    with False show ?thesis by (subst run_steps.simps) simp
  qed
qed



end
