(* ===== verification/Journal_Records.thy ===== *)
theory Journal_Records
  imports Operation_Journal "HOL-Library.List_Lexorder" "HOL-Library.Char_ord" "HOL-Library.Multiset"
begin

text \<open>
  The directory of journal records (web/server/operation-journal.ts): beginning, reading, executing and removing
  operations by id, and the replay of everything incomplete at startup. A record that cannot be read is moved to
  the quarantine when it is read; \<open>renames\<close> says whether that works. Writes of records succeed.
\<close>

section \<open>Operations\<close>

datatype record_file = Readable journal_operation | Corrupt

record journal =
  jn_root :: path
  jn_fs :: fs
  jn_records :: "(string, record_file) omap"

definition journal_begin :: "string \<Rightarrow> string \<Rightarrow> json list \<Rightarrow> string \<Rightarrow> journal \<Rightarrow> (journal_error + journal_operation) \<times> journal" where
  "journal_begin now kind steps i j =
     (if \<not> operation_id i \<or> \<not> operation_kind kind then (Inl InvalidOperation, j)
      else
        (case normalizeOperation (JObject [(''id'', JString i), (''kind'', JString kind), (''status'', JString ''pending''),
             (''createdAt'', JString now), (''updatedAt'', JString now), (''nextStep'', JNumber (JInt 0)), (''steps'', JArray steps)]) of
           None \<Rightarrow> (Inl InvalidStep, j)
         | Some operation \<Rightarrow>
             if om_has (jn_records j) i then (Inl OperationExists, j)
             else (Inr operation, j\<lparr>jn_records := om_set (jn_records j) i (Readable operation)\<rparr>)))"

definition journal_get :: "bool \<Rightarrow> string \<Rightarrow> journal \<Rightarrow> (journal_error + journal_operation option) \<times> journal" where
  "journal_get renames i j =
     (if \<not> operation_id i then (Inl InvalidOperation, j)
      else
        (case om_get (jn_records j) i of
           None \<Rightarrow> (Inr None, j)
         | Some (Readable operation) \<Rightarrow> (Inr (Some operation), j)
         | Some Corrupt \<Rightarrow> (Inr None, if renames then j\<lparr>jn_records := om_delete (jn_records j) i\<rparr> else j)))"

definition removeCompleted :: "bool \<Rightarrow> string \<Rightarrow> journal \<Rightarrow> (journal_error + bool) \<times> journal" where
  "removeCompleted renames i j =
     (case journal_get renames i j of
        (Inl e, j1) \<Rightarrow> (Inl e, j1)
      | (Inr None, j1) \<Rightarrow> (Inr False, j1)
      | (Inr (Some operation), j1) \<Rightarrow>
          if jo_status operation \<noteq> JournalCompleted then (Inr False, j1)
          else (Inr True, j1\<lparr>jn_records := om_delete (jn_records j1) i\<rparr>))"

definition journal_execute :: "bool \<Rightarrow> (nat \<Rightarrow> string) \<Rightarrow> string \<Rightarrow> string \<Rightarrow> journal \<Rightarrow> (journal_error + journal_operation) \<times> journal" where
  "journal_execute renames unique now i j =
     (case journal_get renames i j of
        (Inl e, j1) \<Rightarrow> (Inl e, j1)
      | (Inr None, j1) \<Rightarrow> (Inl OperationMissing, j1)
      | (Inr (Some operation), j1) \<Rightarrow>
          (let (states, r) = execute (jn_root j1) unique now (jn_fs j1, operation);
               (f, operation') = last ((jn_fs j1, operation) # states)
           in (case r of None \<Rightarrow> Inr operation' | Some e \<Rightarrow> Inl e,
               j1\<lparr>jn_fs := f, jn_records := om_set (jn_records j1) i (Readable operation')\<rparr>)))"

record replay_report =
  rp_completed :: "string list"
  rp_failed :: "(string \<times> journal_error) list"
  rp_alreadyCompleted :: "string list"
  rp_quarantined :: "string list"

definition replay_one :: "bool \<Rightarrow> (nat \<Rightarrow> string) \<Rightarrow> string \<Rightarrow> string \<Rightarrow> replay_report \<times> journal \<Rightarrow> replay_report \<times> journal" where
  "replay_one renames unique now i = (\<lambda>(report, j).
     if \<not> operation_id i then (report, j)
     else
       (case journal_get renames i j of
          (Inr (Some operation), j1) \<Rightarrow>
            if jo_status operation = JournalCompleted
            then (report\<lparr>rp_alreadyCompleted := rp_alreadyCompleted report @ [i]\<rparr>, snd (removeCompleted renames i j1))
            else
              (case journal_execute renames unique now i j1 of
                 (Inr _, j2) \<Rightarrow> (report\<lparr>rp_completed := rp_completed report @ [i]\<rparr>, j2)
               | (Inl e, j2) \<Rightarrow> (report\<lparr>rp_failed := rp_failed report @ [(i, e)]\<rparr>, j2))
        | (_, j1) \<Rightarrow>
            (if om_has (jn_records j1) i then report else report\<lparr>rp_quarantined := rp_quarantined report @ [i]\<rparr>, j1)))"

text \<open>The files of the directory in the order of their names, which end in \<open>.json\<close>.\<close>

definition record_names :: "journal \<Rightarrow> string list" where
  "record_names j = map (\<lambda>name. take (length name - 5) name) (sort (map (\<lambda>i. i @ ''.json'') (map fst (jn_records j))))"

definition replayIncomplete :: "bool \<Rightarrow> (string \<Rightarrow> nat \<Rightarrow> string) \<Rightarrow> string \<Rightarrow> journal \<Rightarrow> replay_report \<times> journal" where
  "replayIncomplete renames unique now j =
     fold (\<lambda>i. replay_one renames (unique i) now i) (record_names j)
       (\<lparr>rp_completed = [], rp_failed = [], rp_alreadyCompleted = [], rp_quarantined = []\<rparr>, j)"

section \<open>Replay\<close>

definition checkpointed :: "journal \<Rightarrow> bool" where
  "checkpointed j \<longleftrightarrow> (\<forall>i operation. om_get (jn_records j) i = Some (Readable operation) \<longrightarrow> jo_nextStep operation \<le> length (jo_steps operation))"

definition report_size :: "replay_report \<Rightarrow> nat" where
  "report_size r = length (rp_completed r) + length (rp_failed r) + length (rp_alreadyCompleted r) + length (rp_quarantined r)"

text \<open>What the report says of an operation is what its record says.\<close>

definition reported :: "replay_report \<Rightarrow> journal \<Rightarrow> string \<Rightarrow> bool" where
  "reported r j i \<longleftrightarrow>
     (case om_get (jn_records j) i of
        None \<Rightarrow> i \<in> set (rp_alreadyCompleted r) \<or> i \<in> set (rp_quarantined r)
      | Some Corrupt \<Rightarrow> False
      | Some (Readable operation) \<Rightarrow>
          if jo_status operation = JournalCompleted then i \<in> set (rp_completed r)
          else jo_status operation = JournalFailed \<and> (\<exists>e. jo_error operation = Some e \<and> (i, e) \<in> set (rp_failed r)))"

lemma execute_record:
  assumes "jo_status operation \<noteq> JournalCompleted" and "jo_nextStep operation \<le> length (jo_steps operation)"
    and "execute root unique now (f, operation) = (sts, r)"
  shows "let op' = snd (last ((f, operation) # sts)) in jo_nextStep op' \<le> length (jo_steps op') \<and>
    (if r = None then jo_status op' = JournalCompleted else jo_status op' = JournalFailed \<and> jo_error op' = r)"
proof -
  let ?st = "(f, persist now (operation\<lparr>jo_status := Applying, jo_error := None\<rparr>))"
  obtain rest where rest: "run_steps root unique now ?st = (rest, r)" and sts: "sts = ?st # rest"
    using assms(1,3) by (auto simp: execute_def Let_def split: prod.splits)
  from run_steps_ends [OF _ rest] assms(2) sts show ?thesis by (auto simp: persist_def Let_def split: if_splits)
qed

lemma replay_one_reports:
  assumes "replay_one True unique now i (r, j) = (r', j')" and "checkpointed j" and "om_has (jn_records j) i"
  shows "checkpointed j' \<and> (\<forall>k. k \<noteq> i \<longrightarrow> om_get (jn_records j') k = om_get (jn_records j) k) \<and>
    (operation_id i \<longrightarrow> reported r' j' i) \<and> report_size r' = report_size r + (if operation_id i then 1 else 0) \<and>
    set (rp_completed r) \<subseteq> set (rp_completed r') \<and> set (rp_failed r) \<subseteq> set (rp_failed r') \<and>
    set (rp_alreadyCompleted r) \<subseteq> set (rp_alreadyCompleted r') \<and> set (rp_quarantined r) \<subseteq> set (rp_quarantined r')"
proof (cases "operation_id i")
  case True
  from assms(3) obtain v where v: "om_get (jn_records j) i = Some v" by (auto simp: om_has_get)
  show ?thesis
  proof (cases v)
    case Corrupt
    with assms(1,2) True v show ?thesis
      by (auto simp: replay_one_def journal_get_def checkpointed_def reported_def report_size_def split: if_split_asm)
  next
    case (Readable operation)
    show ?thesis
    proof (cases "jo_status operation = JournalCompleted")
      case ended: True
      with assms(1,2) True v Readable show ?thesis
        by (auto simp: replay_one_def journal_get_def removeCompleted_def checkpointed_def reported_def report_size_def split: if_split_asm)
    next
      case False
      obtain sts e where x: "execute (jn_root j) unique now (jn_fs j, operation) = (sts, e)" by force
      obtain f op' where l: "last ((jn_fs j, operation) # sts) = (f, op')" by force
      have E: "journal_execute True unique now i j = (case e of None \<Rightarrow> Inr op' | Some e \<Rightarrow> Inl e,
          j\<lparr>jn_fs := f, jn_records := om_set (jn_records j) i (Readable op')\<rparr>)"
        unfolding journal_execute_def using True v Readable x l by (simp add: journal_get_def Let_def del: last.simps)
      have "jo_nextStep operation \<le> length (jo_steps operation)" using assms(2) v Readable by (auto simp: checkpointed_def)
      note R = execute_record [OF False this x, unfolded l Let_def snd_conv]
      have "replay_one True unique now i (r, j) = (case journal_execute True unique now i j of
          (Inr _, j2) \<Rightarrow> (r\<lparr>rp_completed := rp_completed r @ [i]\<rparr>, j2) | (Inl e, j2) \<Rightarrow> (r\<lparr>rp_failed := rp_failed r @ [(i, e)]\<rparr>, j2))"
        using True v Readable False by (simp add: replay_one_def journal_get_def)
      with E assms(1,2) R True show ?thesis
        by (cases e) (auto simp: checkpointed_def reported_def report_size_def split: if_split_asm)
    qed
  qed
qed (use assms in \<open>auto simp: replay_one_def\<close>)

lemma record_names_set: "set (record_names j) = set (map fst (jn_records j))"
  by (force simp: record_names_def)

lemma record_names_distinct: "om_wf (jn_records j) \<Longrightarrow> distinct (record_names j)"
  by (force simp: record_names_def distinct_map om_wf_def inj_on_def)

lemma reported_grows:
  assumes "reported r j i" and "om_get (jn_records j') i = om_get (jn_records j) i"
    and "set (rp_completed r) \<subseteq> set (rp_completed r')" and "set (rp_failed r) \<subseteq> set (rp_failed r')"
    and "set (rp_alreadyCompleted r) \<subseteq> set (rp_alreadyCompleted r')" and "set (rp_quarantined r) \<subseteq> set (rp_quarantined r')"
  shows "reported r' j' i"
  using assms by (auto simp: reported_def split: option.splits record_file.splits if_splits)

lemma replay_all:
  assumes "fold (\<lambda>i. replay_one True (unique i) now i) ids (r, j) = (r', j')" and "checkpointed j" and "distinct ids"
    and "\<forall>i \<in> set ids. om_has (jn_records j) i"
  shows "checkpointed j' \<and> (\<forall>k. k \<notin> set ids \<longrightarrow> om_get (jn_records j') k = om_get (jn_records j) k) \<and>
    (\<forall>i \<in> set ids. operation_id i \<longrightarrow> reported r' j' i) \<and> report_size r' = report_size r + length (filter operation_id ids) \<and>
    set (rp_completed r) \<subseteq> set (rp_completed r') \<and> set (rp_failed r) \<subseteq> set (rp_failed r') \<and>
    set (rp_alreadyCompleted r) \<subseteq> set (rp_alreadyCompleted r') \<and> set (rp_quarantined r) \<subseteq> set (rp_quarantined r')"
  using assms
proof (induction ids arbitrary: r j)
  case (Cons i ids)
  obtain r1 j1 where one: "replay_one True (unique i) now i (r, j) = (r1, j1)" by force
  with Cons.prems(1) have rest: "fold (\<lambda>i. replay_one True (unique i) now i) ids (r1, j1) = (r', j')" by simp
  have O: "checkpointed j1 \<and> (\<forall>k. k \<noteq> i \<longrightarrow> om_get (jn_records j1) k = om_get (jn_records j) k) \<and>
    (operation_id i \<longrightarrow> reported r1 j1 i) \<and> report_size r1 = report_size r + (if operation_id i then 1 else 0) \<and>
    set (rp_completed r) \<subseteq> set (rp_completed r1) \<and> set (rp_failed r) \<subseteq> set (rp_failed r1) \<and>
    set (rp_alreadyCompleted r) \<subseteq> set (rp_alreadyCompleted r1) \<and> set (rp_quarantined r) \<subseteq> set (rp_quarantined r1)"
    by (rule replay_one_reports [OF one Cons.prems(2)]) (use Cons.prems(4) in simp)
  have "\<forall>k \<in> set ids. om_has (jn_records j1) k"
  proof
    fix k assume "k \<in> set ids"
    with Cons.prems(3,4) O show "om_has (jn_records j1) k" by (auto simp: om_has_get)
  qed
  with Cons.IH [OF rest] O Cons.prems(3) have I: "checkpointed j' \<and> (\<forall>k. k \<notin> set ids \<longrightarrow> om_get (jn_records j') k = om_get (jn_records j1) k) \<and>
    (\<forall>i \<in> set ids. operation_id i \<longrightarrow> reported r' j' i) \<and> report_size r' = report_size r1 + length (filter operation_id ids) \<and>
    set (rp_completed r1) \<subseteq> set (rp_completed r') \<and> set (rp_failed r1) \<subseteq> set (rp_failed r') \<and>
    set (rp_alreadyCompleted r1) \<subseteq> set (rp_alreadyCompleted r') \<and> set (rp_quarantined r1) \<subseteq> set (rp_quarantined r')" by simp
  have "reported r' j' i" if "operation_id i"
    by (rule reported_grows [of r1 j1]) (use O I that Cons.prems(3) in auto)
  with O I show ?case by auto
qed simp


definition sample_journal :: journal where
  "sample_journal = \<lparr>jn_root = sample_root, jn_fs = sample_tree,
     jn_records = [(''i'', Readable sample_operation), (''c'', Corrupt), (''bad.id'', Corrupt)]\<rparr>"


end
