(* ===== verification/Rbac_Store.thy ===== *)
theory Rbac_Store
  imports Prelude
begin

text \<open>
  The role and permission tables (web/server/rbac-store.ts, web/server/rbac-types.ts and the schema in
  web/server/migrations/rbac.sql).

  A database is a record of tables, each a list of rows; the statements of the code are read as updates of these lists and
  its recursive queries as walks up the department tree. Names, times, the audit log and the order of results are left
  out; primary and foreign keys are checked and a statement that breaks one rolls its transaction back. Statements run one
  after the other unless said otherwise.
\<close>

section \<open>Tables\<close>

record department =
  dp_id :: string
  dp_parent :: "string option"
  dp_deleted :: bool

record role =
  rl_id :: string
  rl_system :: bool
  rl_deleted :: bool

record rbac_db =
  db_users :: "string list"
  db_departments :: "department list"
  db_roles :: "role list"
  db_permissions :: "string list"
  db_user_departments :: "(string \<times> string \<times> bool) list"
  db_user_roles :: "(string \<times> string) list"
  db_department_roles :: "(string \<times> string) list"
  db_role_permissions :: "(string \<times> string) list"

datatype rbac_error =
    RoleNotFound | SystemRole | LastAdmin | RootReparented | OwnParent | UnderDescendant | DepartmentNotFound
  | RootDeleted | HasChildren | HasUsers | ConstraintViolated

definition RBAC_ADMIN_PERMISSION :: string where "RBAC_ADMIN_PERMISSION = ''admin:access''"
definition RBAC_ROOT_DEPARTMENT_ID :: string where "RBAC_ROOT_DEPARTMENT_ID = ''dept-root''"
definition RBAC_SYSTEM_ADMIN_ROLE_ID :: string where "RBAC_SYSTEM_ADMIN_ROLE_ID = ''role-system-admin''"

section \<open>Queries\<close>

definition department_ids :: "rbac_db \<Rightarrow> string list" where
  "department_ids db = map dp_id (db_departments db)"

definition role_ids :: "rbac_db \<Rightarrow> string list" where
  "role_ids db = map rl_id (db_roles db)"

definition active_department :: "rbac_db \<Rightarrow> string \<Rightarrow> department option" where
  "active_department db i = find (\<lambda>d. dp_id d = i \<and> \<not> dp_deleted d) (db_departments db)"

definition active_role :: "rbac_db \<Rightarrow> string \<Rightarrow> bool" where
  "active_role db i \<longleftrightarrow> list_ex (\<lambda>r. rl_id r = i \<and> \<not> rl_deleted r) (db_roles db)"

text \<open>The recursive part of the queries: from a department to its ancestors, as long as they are not deleted.\<close>

fun climb :: "nat \<Rightarrow> rbac_db \<Rightarrow> string \<Rightarrow> string list" where
  "climb n db i =
     (case active_department db i of
        None \<Rightarrow> []
      | Some d \<Rightarrow> i # (case (n, dp_parent d) of (Suc m, Some p) \<Rightarrow> climb m db p | _ \<Rightarrow> []))"

declare climb.simps [simp del]

definition dept_tree :: "rbac_db \<Rightarrow> string \<Rightarrow> string list" where
  "dept_tree db i = climb (length (db_departments db)) db i"

definition departments_of :: "rbac_db \<Rightarrow> string \<Rightarrow> string list" where
  "departments_of db u = concat (map (\<lambda>(v, d, _). if v = u then dept_tree db d else []) (db_user_departments db))"

definition roles_of :: "rbac_db \<Rightarrow> string \<Rightarrow> string list" where
  "roles_of db u =
     map snd (filter (\<lambda>(v, _). v = u) (db_user_roles db)) @
     concat (map (\<lambda>d. map snd (filter (\<lambda>(e, _). e = d) (db_department_roles db))) (departments_of db u))"

definition getEffectivePermissionKeys :: "rbac_db \<Rightarrow> string \<Rightarrow> string list" where
  "getEffectivePermissionKeys db u =
     remdups (concat (map (\<lambda>r. if active_role db r
       then map snd (filter (\<lambda>(q, k). q = r \<and> k \<in> set (db_permissions db)) (db_role_permissions db)) else []) (roles_of db u)))"

definition countUsersWithPermission :: "rbac_db \<Rightarrow> string \<Rightarrow> nat" where
  "countUsersWithPermission db k =
     length (filter (\<lambda>u. list_ex (\<lambda>r. active_role db r \<and> (r, k) \<in> set (db_role_permissions db)) (roles_of db u))
       (remdups (map fst (db_user_roles db) @ map fst (db_user_departments db))))"

definition isDepartmentDescendant :: "rbac_db \<Rightarrow> string \<Rightarrow> string \<Rightarrow> bool" where
  "isDepartmentDescendant db candidate ancestor \<longleftrightarrow> ancestor \<in> set (dept_tree db candidate)"

definition ensureAtLeastOneAdmin :: "rbac_db \<Rightarrow> bool" where
  "ensureAtLeastOneAdmin db \<longleftrightarrow> \<not> countUsersWithPermission db RBAC_ADMIN_PERMISSION < 1"

definition assertRoleEditable :: "rbac_db \<Rightarrow> string \<Rightarrow> rbac_error option" where
  "assertRoleEditable db i =
     (case find (\<lambda>r. rl_id r = i \<and> \<not> rl_deleted r) (db_roles db) of
        None \<Rightarrow> Some RoleNotFound
      | Some r \<Rightarrow> if rl_system r then Some SystemRole else None)"

section \<open>Operations\<close>

definition insert_new :: "'a \<Rightarrow> 'a list \<Rightarrow> 'a list" where
  "insert_new x xs = (if x \<in> set xs then xs else xs @ [x])"

definition upsert_department :: "string \<Rightarrow> department list \<Rightarrow> department list" where
  "upsert_department i ds =
     (if i \<in> set (map dp_id ds) then map (\<lambda>d. if dp_id d = i then d\<lparr>dp_deleted := False\<rparr> else d) ds
      else ds @ [\<lparr>dp_id = i, dp_parent = None, dp_deleted = False\<rparr>])"

definition upsert_role :: "string \<Rightarrow> role list \<Rightarrow> role list" where
  "upsert_role i rs =
     (if i \<in> set (map rl_id rs) then map (\<lambda>r. if rl_id r = i then r\<lparr>rl_system := True, rl_deleted := False\<rparr> else r) rs
      else rs @ [\<lparr>rl_id = i, rl_system = True, rl_deleted = False\<rparr>])"

definition seedSystemRecords :: "rbac_db \<Rightarrow> rbac_db" where
  "seedSystemRecords db = db\<lparr>
     db_permissions := insert_new RBAC_ADMIN_PERMISSION (db_permissions db),
     db_departments := upsert_department RBAC_ROOT_DEPARTMENT_ID (db_departments db),
     db_roles := upsert_role RBAC_SYSTEM_ADMIN_ROLE_ID (db_roles db),
     db_role_permissions := insert_new (RBAC_SYSTEM_ADMIN_ROLE_ID, RBAC_ADMIN_PERMISSION) (db_role_permissions db)\<rparr>"

definition upsertUser :: "string \<Rightarrow> rbac_db \<Rightarrow> rbac_db" where
  "upsertUser u db = db\<lparr>db_users := insert_new u (db_users db)\<rparr>"

definition set_user_department :: "string \<Rightarrow> string \<Rightarrow> bool \<Rightarrow> rbac_db \<Rightarrow> rbac_db" where
  "set_user_department u d primary db = db\<lparr>db_user_departments :=
     filter (\<lambda>(v, e, _). \<not> (v = u \<and> e = d)) (db_user_departments db) @ [(u, d, primary)]\<rparr>"

definition bootstrapUser :: "string \<Rightarrow> rbac_db \<Rightarrow> rbac_db" where
  "bootstrapUser u db =
     (let db1 = upsertUser u (seedSystemRecords db) in
      if list_ex (\<lambda>(v, _). v = u) (db_user_departments db1) then db1
      else set_user_department u RBAC_ROOT_DEPARTMENT_ID True db1)"

text \<open>The keys of the tables that link users, departments, roles and permissions.\<close>

definition references_exist :: "rbac_db \<Rightarrow> bool" where
  "references_exist db \<longleftrightarrow>
     list_all (\<lambda>(u, d, _). u \<in> set (db_users db) \<and> d \<in> set (department_ids db)) (db_user_departments db) \<and>
     list_all (\<lambda>(u, r). u \<in> set (db_users db) \<and> r \<in> set (role_ids db)) (db_user_roles db) \<and>
     list_all (\<lambda>(d, r). d \<in> set (department_ids db) \<and> r \<in> set (role_ids db)) (db_department_roles db) \<and>
     list_all (\<lambda>(r, k). r \<in> set (role_ids db) \<and> k \<in> set (db_permissions db)) (db_role_permissions db) \<and>
     list_all (\<lambda>p. p \<in> set (department_ids db)) (List.map_filter dp_parent (db_departments db))"

definition transaction_of :: "bool \<Rightarrow> (rbac_db \<Rightarrow> rbac_db) \<Rightarrow> rbac_db \<Rightarrow> rbac_error option \<times> rbac_db" where
  "transaction_of checked f db =
     (let db1 = f db in
      if \<not> references_exist db1 then (Some ConstraintViolated, db)
      else if checked \<and> \<not> ensureAtLeastOneAdmin db1 then (Some LastAdmin, db)
      else (None, db1))"

definition createUser :: "string \<Rightarrow> string list \<Rightarrow> string list \<Rightarrow> rbac_db \<Rightarrow> rbac_error option \<times> rbac_db" where
  "createUser u departments roles =
     (let ds = (if departments = [] then [RBAC_ROOT_DEPARTMENT_ID] else remdups departments) in
      transaction_of False (\<lambda>db.
        let db1 = fold (\<lambda>d. set_user_department u d (d = (if departments = [] then RBAC_ROOT_DEPARTMENT_ID else hd departments))) ds
                    (upsertUser u (seedSystemRecords db))
        in db1\<lparr>db_user_roles := fold (\<lambda>r. insert_new (u, r)) roles (db_user_roles db1)\<rparr>))"

definition createDepartment :: "string \<Rightarrow> string option \<Rightarrow> rbac_db \<Rightarrow> rbac_error option \<times> rbac_db" where
  "createDepartment i parent db =
     (if i \<in> set (department_ids db) then (Some ConstraintViolated, db)
      else transaction_of False (\<lambda>db. db\<lparr>db_departments := db_departments db @ [\<lparr>dp_id = i,
        dp_parent = Some (case parent of None \<Rightarrow> RBAC_ROOT_DEPARTMENT_ID | Some p \<Rightarrow> if p = [] then RBAC_ROOT_DEPARTMENT_ID else p),
        dp_deleted = False\<rparr>]\<rparr>) db)"

text \<open>The parent is given or not; given, it may be null.\<close>

definition updateDepartment :: "string \<Rightarrow> string option option \<Rightarrow> rbac_db \<Rightarrow> rbac_error option \<times> rbac_db" where
  "updateDepartment i parent db =
     (if i = RBAC_ROOT_DEPARTMENT_ID \<and> (case parent of Some (Some _) \<Rightarrow> True | _ \<Rightarrow> False) then (Some RootReparented, db)
      else if (case parent of Some (Some p) \<Rightarrow> p \<noteq> [] \<and> p = i | _ \<Rightarrow> False) then (Some OwnParent, db)
      else if (case parent of Some (Some p) \<Rightarrow> p \<noteq> [] \<and> isDepartmentDescendant db p i | _ \<Rightarrow> False) then (Some UnderDescendant, db)
      else if active_department db i = None then (Some DepartmentNotFound, db)
      else transaction_of True (\<lambda>db. case parent of None \<Rightarrow> db
        | Some p \<Rightarrow> if p = Some ''__unchanged__'' then db else db\<lparr>db_departments := map (\<lambda>d. if dp_id d = i \<and> \<not> dp_deleted d then d\<lparr>dp_parent := p\<rparr> else d) (db_departments db)\<rparr>) db)"

definition deleteDepartment :: "string \<Rightarrow> rbac_db \<Rightarrow> rbac_error option \<times> rbac_db" where
  "deleteDepartment i db =
     (if i = RBAC_ROOT_DEPARTMENT_ID then (Some RootDeleted, db)
      else if list_ex (\<lambda>d. dp_parent d = Some i \<and> \<not> dp_deleted d) (db_departments db) then (Some HasChildren, db)
      else if list_ex (\<lambda>(_, d, _). d = i) (db_user_departments db) then (Some HasUsers, db)
      else (None, db\<lparr>db_departments := map (\<lambda>d. if dp_id d = i then d\<lparr>dp_deleted := True\<rparr> else d) (db_departments db)\<rparr>))"

definition createRole :: "string \<Rightarrow> rbac_db \<Rightarrow> rbac_error option \<times> rbac_db" where
  "createRole i db =
     (if i \<in> set (role_ids db) then (Some ConstraintViolated, db)
      else (None, db\<lparr>db_roles := db_roles db @ [\<lparr>rl_id = i, rl_system = False, rl_deleted = False\<rparr>]\<rparr>))"

text \<open>\<open>updateRole\<close> changes names only.\<close>

definition updateRole :: "string \<Rightarrow> rbac_db \<Rightarrow> rbac_error option \<times> rbac_db" where
  "updateRole i db = (assertRoleEditable db i, db)"

definition deleteRole :: "string \<Rightarrow> rbac_db \<Rightarrow> rbac_error option \<times> rbac_db" where
  "deleteRole i db =
     (case assertRoleEditable db i of
        Some e \<Rightarrow> (Some e, db)
      | None \<Rightarrow> transaction_of True (\<lambda>db. db\<lparr>db_roles := map (\<lambda>r. if rl_id r = i then r\<lparr>rl_deleted := True\<rparr> else r) (db_roles db)\<rparr>) db)"

definition replace_rows :: "'a \<Rightarrow> 'b list \<Rightarrow> ('a \<times> 'b) list \<Rightarrow> ('a \<times> 'b) list" where
  "replace_rows k vs rows = filter (\<lambda>(j, _). j \<noteq> k) rows @ map (Pair k) (remdups vs)"

text \<open>Behind the commit the role is looked up among those not deleted; the error comes too late to undo anything.\<close>

definition replaceRolePermissions :: "string \<Rightarrow> string list \<Rightarrow> rbac_db \<Rightarrow> rbac_error option \<times> rbac_db" where
  "replaceRolePermissions r keys db =
     (case transaction_of True (\<lambda>db. db\<lparr>db_role_permissions := replace_rows r keys (db_role_permissions db)\<rparr>) db of
        (Some e, db1) \<Rightarrow> (Some e, db1)
      | (None, db1) \<Rightarrow> (if active_role db1 r then None else Some RoleNotFound, db1))"

definition replaceUserRoles :: "string \<Rightarrow> string list \<Rightarrow> rbac_db \<Rightarrow> rbac_error option \<times> rbac_db" where
  "replaceUserRoles u roles =
     transaction_of True (\<lambda>db. db\<lparr>db_user_roles := replace_rows u roles (db_user_roles db)\<rparr>)"

definition replaceUserDepartments :: "string \<Rightarrow> string list \<Rightarrow> rbac_db \<Rightarrow> rbac_error option \<times> rbac_db" where
  "replaceUserDepartments u departments =
     (let ds = (if departments = [] then [RBAC_ROOT_DEPARTMENT_ID] else departments) in
      transaction_of True (\<lambda>db. db\<lparr>db_user_departments :=
        replace_rows u (map (\<lambda>d. (d, d = hd ds)) (remdups ds)) (db_user_departments db)\<rparr>))"

definition replaceDepartmentRoles :: "string \<Rightarrow> string list \<Rightarrow> rbac_db \<Rightarrow> rbac_error option \<times> rbac_db" where
  "replaceDepartmentRoles d roles =
     transaction_of True (\<lambda>db. db\<lparr>db_department_roles := replace_rows d roles (db_department_roles db)\<rparr>)"

text \<open>Reading the settings seeds the system records as well.\<close>

datatype rbac_op =
    ReadSettings
  | BootstrapUser string
  | CreateUser string "string list" "string list"
  | CreateDepartment string "string option"
  | UpdateDepartment string "string option option"
  | DeleteDepartment string
  | CreateRole string
  | UpdateRole string
  | DeleteRole string
  | ReplaceRolePermissions string "string list"
  | ReplaceUserRoles string "string list"
  | ReplaceUserDepartments string "string list"
  | ReplaceDepartmentRoles string "string list"

fun rbac_apply :: "rbac_op \<Rightarrow> rbac_db \<Rightarrow> rbac_error option \<times> rbac_db" where
  "rbac_apply ReadSettings db = (None, seedSystemRecords db)"
| "rbac_apply (BootstrapUser u) db = (None, bootstrapUser u db)"
| "rbac_apply (CreateUser u ds rs) db = createUser u ds rs db"
| "rbac_apply (CreateDepartment i p) db = createDepartment i p db"
| "rbac_apply (UpdateDepartment i p) db = updateDepartment i p db"
| "rbac_apply (DeleteDepartment i) db = deleteDepartment i db"
| "rbac_apply (CreateRole i) db = createRole i db"
| "rbac_apply (UpdateRole i) db = updateRole i db"
| "rbac_apply (DeleteRole i) db = deleteRole i db"
| "rbac_apply (ReplaceRolePermissions r ks) db = replaceRolePermissions r ks db"
| "rbac_apply (ReplaceUserRoles u rs) db = replaceUserRoles u rs db"
| "rbac_apply (ReplaceUserDepartments u ds) db = replaceUserDepartments u ds db"
| "rbac_apply (ReplaceDepartmentRoles d rs) db = replaceDepartmentRoles d rs db"

definition rbac_run :: "rbac_op list \<Rightarrow> rbac_db \<Rightarrow> rbac_db" where
  "rbac_run ops db = fold (\<lambda>x db. snd (rbac_apply x db)) ops db"

section \<open>What the recursive queries find\<close>

definition edges :: "rbac_db \<Rightarrow> (string \<times> string) set" where
  "edges db = {(i, p). \<exists>d. active_department db i = Some d \<and> dp_parent d = Some p \<and> active_department db p \<noteq> None}"

lemma active_department_id: "active_department db i = Some d \<Longrightarrow> d \<in> set (db_departments db) \<and> dp_id d = i \<and> \<not> dp_deleted d"
  by (auto simp: active_department_def find_Some_iff)

lemma edges_le: "finite (edges db) \<and> card (edges db) \<le> length (db_departments db)"
proof -
  let ?f = "\<lambda>d. (dp_id d, the (dp_parent d))"
  have sub: "edges db \<subseteq> ?f ` set (db_departments db)"
    by (force simp: edges_def dest: active_department_id)
  then have "card (edges db) \<le> card (?f ` set (db_departments db))" by (rule card_mono [rotated]) simp
  also have "\<dots> \<le> length (db_departments db)" by (meson card_image_le card_length finite_set order_trans)
  finally show ?thesis using finite_subset [OF sub] by simp
qed

lemma climb_reach: "set (climb n db i) = {e. active_department db i \<noteq> None \<and> (\<exists>k \<le> n. (i, e) \<in> edges db ^^ k)}"
proof (induction n arbitrary: i)
  case 0
  show ?case by (cases "active_department db i") (simp_all add: climb.simps [of 0])
next
  case (Suc n)
  show ?case
  proof (cases "active_department db i")
    case (Some d)
    have "{e. \<exists>k \<le> Suc n. (i, e) \<in> edges db ^^ k} = insert i {e. \<exists>p. (i, p) \<in> edges db \<and> (\<exists>k \<le> n. (p, e) \<in> edges db ^^ k)}"
    proof (intro set_eqI iffI)
      fix e assume "e \<in> {e. \<exists>k \<le> Suc n. (i, e) \<in> edges db ^^ k}"
      then obtain k where k: "k \<le> Suc n" "(i, e) \<in> edges db ^^ k" by blast
      then show "e \<in> insert i {e. \<exists>p. (i, p) \<in> edges db \<and> (\<exists>k \<le> n. (p, e) \<in> edges db ^^ k)}"
        by (cases k) (auto dest: relpow_Suc_D2 simp del: relpow.simps(2))
    next
      fix e assume "e \<in> insert i {e. \<exists>p. (i, p) \<in> edges db \<and> (\<exists>k \<le> n. (p, e) \<in> edges db ^^ k)}"
      then consider "e = i" | p k where "(i, p) \<in> edges db" "k \<le> n" "(p, e) \<in> edges db ^^ k" by blast
      then show "e \<in> {e. \<exists>k \<le> Suc n. (i, e) \<in> edges db ^^ k}"
      proof cases
        case 1
        then show ?thesis by (auto intro: exI [of _ 0])
      next
        case 2
        have "(i, e) \<in> edges db ^^ Suc k" by (rule relpow_Suc_I2 [OF 2(1,3)])
        with 2(2) show ?thesis by (metis (mono_tags) Suc_le_mono mem_Collect_eq)
      qed
    qed
    moreover have "(i, p) \<in> edges db \<longleftrightarrow> dp_parent d = Some p \<and> active_department db p \<noteq> None" for p
      using Some by (simp add: edges_def)
    ultimately show ?thesis using Some Suc [of "the (dp_parent d)"]
      by (cases "dp_parent d") (auto simp: climb.simps [of "Suc n"])
  qed (simp add: climb.simps [of "Suc n"])
qed

lemma dept_tree_iff: "e \<in> set (dept_tree db i) \<longleftrightarrow> active_department db i \<noteq> None \<and> (i, e) \<in> (edges db)\<^sup>*"
proof -
  have fin: "finite (edges db)" and le: "card (edges db) \<le> length (db_departments db)" using edges_le by blast+
  have "(i, e) \<in> (edges db)\<^sup>* \<longleftrightarrow> (\<exists>k \<le> length (db_departments db). (i, e) \<in> edges db ^^ k)"
  proof
    assume "(i, e) \<in> (edges db)\<^sup>*"
    then obtain k where "k \<le> card (edges db)" "(i, e) \<in> edges db ^^ k" unfolding rtrancl_finite_eq_relpow [OF fin] by blast
    with le show "\<exists>k \<le> length (db_departments db). (i, e) \<in> edges db ^^ k" by (meson le_trans)
  qed (auto intro: relpow_imp_rtrancl)
  then show ?thesis by (simp add: dept_tree_def climb_reach)
qed

text \<open>A user has a role directly or through a department above one of its own.\<close>

definition has_role :: "rbac_db \<Rightarrow> string \<Rightarrow> string \<Rightarrow> bool" where
  "has_role db u r \<longleftrightarrow> (u, r) \<in> set (db_user_roles db) \<or>
     (\<exists>d p e. (u, d, p) \<in> set (db_user_departments db) \<and> active_department db d \<noteq> None \<and> (d, e) \<in> (edges db)\<^sup>* \<and>
        (e, r) \<in> set (db_department_roles db))"

lemma roles_of_iff: "r \<in> set (roles_of db u) \<longleftrightarrow> has_role db u r"
proof -
  have D: "e \<in> set (departments_of db u) \<longleftrightarrow>
      (\<exists>d p. (u, d, p) \<in> set (db_user_departments db) \<and> active_department db d \<noteq> None \<and> (d, e) \<in> (edges db)\<^sup>*)" for e
    unfolding departments_of_def dept_tree_iff [symmetric] by (auto split: if_splits)
  have S: "r \<in> snd ` {x \<in> set xs. case x of (v, _) \<Rightarrow> v = k} \<longleftrightarrow> (k, r) \<in> set xs" for k and xs :: "(string \<times> string) list"
    by force
  have "r \<in> set (roles_of db u) \<longleftrightarrow> (u, r) \<in> set (db_user_roles db) \<or> (\<exists>e \<in> set (departments_of db u). (e, r) \<in> set (db_department_roles db))"
    by (simp add: roles_of_def S)
  then show ?thesis unfolding has_role_def Bex_def D by blast
qed

definition grants :: "rbac_db \<Rightarrow> string \<Rightarrow> string \<Rightarrow> bool" where
  "grants db u k \<longleftrightarrow> (\<exists>r. has_role db u r \<and> active_role db r \<and> (r, k) \<in> set (db_role_permissions db))"

lemma effective_iff: "k \<in> set (getEffectivePermissionKeys db u) \<longleftrightarrow> k \<in> set (db_permissions db) \<and> grants db u k"
  by (force simp: getEffectivePermissionKeys_def grants_def roles_of_iff split: if_splits)

lemma has_role_user: "has_role db u r \<Longrightarrow> u \<in> fst ` set (db_user_roles db) \<union> fst ` set (db_user_departments db)"
  by (force simp: has_role_def)

lemma ensure_iff: "ensureAtLeastOneAdmin db \<longleftrightarrow> (\<exists>u. grants db u RBAC_ADMIN_PERMISSION)"
proof -
  have "ensureAtLeastOneAdmin db \<longleftrightarrow>
      (\<exists>u \<in> fst ` set (db_user_roles db) \<union> fst ` set (db_user_departments db). grants db u RBAC_ADMIN_PERMISSION)"
    by (simp add: ensureAtLeastOneAdmin_def countUsersWithPermission_def filter_empty_conv list_ex_iff roles_of_iff grants_def
        Bex_def not_less_eq_eq) blast
  moreover have "u \<in> fst ` set (db_user_roles db) \<union> fst ` set (db_user_departments db)" if "grants db u RBAC_ADMIN_PERMISSION" for u
    using that has_role_user by (auto simp: grants_def)
  ultimately show ?thesis by blast
qed

section \<open>Invariants\<close>

definition has_admin :: "rbac_db \<Rightarrow> bool" where
  "has_admin db \<longleftrightarrow> (\<exists>u. grants db u RBAC_ADMIN_PERMISSION)"

definition rbac_ok :: "rbac_db \<Rightarrow> bool" where
  "rbac_ok db \<longleftrightarrow> distinct (department_ids db) \<and> distinct (role_ids db) \<and> references_exist db \<and>
     acyclic (edges db) \<and> active_department db RBAC_ROOT_DEPARTMENT_ID \<noteq> None \<and> [] \<notin> set (department_ids db)"

text \<open>What an operation has to keep.\<close>

definition keeps :: "rbac_db \<Rightarrow> rbac_db \<Rightarrow> bool" where
  "keeps db db' \<longleftrightarrow> rbac_ok db' \<and> (has_admin db \<longrightarrow> has_admin db')"

lemma keeps_refl: "rbac_ok db \<Longrightarrow> keeps db db"
  by (simp add: keeps_def)

lemma keeps_trans: "keeps db db1 \<Longrightarrow> keeps db1 db2 \<Longrightarrow> keeps db db2"
  by (auto simp: keeps_def)

lemma active_department_cong: "db_departments db' = db_departments db \<Longrightarrow> active_department db' = active_department db"
  by (simp add: active_department_def fun_eq_iff)

lemma edges_cong: "db_departments db' = db_departments db \<Longrightarrow> edges db' = edges db"
  by (simp add: edges_def active_department_def)

lemma rbac_ok_same:
  "rbac_ok db \<Longrightarrow> db_departments db' = db_departments db \<Longrightarrow> role_ids db' = role_ids db \<Longrightarrow> references_exist db' \<Longrightarrow> rbac_ok db'"
  by (simp add: rbac_ok_def edges_def active_department_def department_ids_def)

lemma grants_mono:
  assumes "\<And>d x. active_department db d = Some x \<Longrightarrow> active_department db' d = Some x"
    and "\<And>d p. (u, d, p) \<in> set (db_user_departments db) \<Longrightarrow> \<exists>p'. (u, d, p') \<in> set (db_user_departments db')"
    and "set (db_user_roles db) \<subseteq> set (db_user_roles db')" and "set (db_department_roles db) \<subseteq> set (db_department_roles db')"
    and "set (db_role_permissions db) \<subseteq> set (db_role_permissions db')" and "\<And>r. active_role db r \<Longrightarrow> active_role db' r"
    and "grants db u k"
  shows "grants db' u k"
proof -
  have "edges db \<subseteq> edges db'" unfolding edges_def using assms(1) by blast
  then have sub: "(edges db)\<^sup>* \<subseteq> (edges db')\<^sup>*" by (rule rtrancl_mono)
  from assms(7) obtain r where r: "has_role db u r" "active_role db r" "(r, k) \<in> set (db_role_permissions db)" by (auto simp: grants_def)
  from r(1) have "has_role db' u r"
    unfolding has_role_def
  proof
    assume "(u, r) \<in> set (db_user_roles db)"
    with assms(3) show "(u, r) \<in> set (db_user_roles db') \<or> (\<exists>d p e. (u, d, p) \<in> set (db_user_departments db') \<and>
      active_department db' d \<noteq> None \<and> (d, e) \<in> (edges db')\<^sup>* \<and> (e, r) \<in> set (db_department_roles db'))" by blast
  next
    assume "\<exists>d p e. (u, d, p) \<in> set (db_user_departments db) \<and> active_department db d \<noteq> None \<and> (d, e) \<in> (edges db)\<^sup>* \<and>
      (e, r) \<in> set (db_department_roles db)"
    then obtain d p e x where d: "(u, d, p) \<in> set (db_user_departments db)" "active_department db d = Some x" "(d, e) \<in> (edges db)\<^sup>*"
      "(e, r) \<in> set (db_department_roles db)" by blast
    from assms(2) [OF d(1)] assms(1) [OF d(2)] d(3,4) sub assms(4) show "(u, r) \<in> set (db_user_roles db') \<or> (\<exists>d p e. (u, d, p) \<in> set (db_user_departments db') \<and>
      active_department db' d \<noteq> None \<and> (d, e) \<in> (edges db')\<^sup>* \<and> (e, r) \<in> set (db_department_roles db'))" by blast
  qed
  with r(2,3) assms(5,6) show ?thesis unfolding grants_def by blast
qed

lemma transaction_keeps:
  assumes "rbac_ok db" and "references_exist (f db) \<Longrightarrow> rbac_ok (f db)" and "\<not> checked \<Longrightarrow> has_admin db \<Longrightarrow> has_admin (f db)"
  shows "keeps db (snd (transaction_of checked f db))"
  using assms by (auto simp: keeps_def transaction_of_def Let_def ensure_iff has_admin_def)

text \<open>Operations that change only the links between the tables.\<close>

lemma links_keep:
  assumes "rbac_ok db" and "db_departments (f db) = db_departments db" and "db_roles (f db) = db_roles db"
  shows "keeps db (snd (transaction_of True f db))"
  by (rule transaction_keeps [OF assms(1)]) (use assms rbac_ok_same [OF assms(1)] in \<open>auto simp: role_ids_def\<close>)

lemma active_department_row:
  assumes "distinct (department_ids db)" and "d \<in> set (db_departments db)" and "active_department db (dp_id d) \<noteq> None"
  shows "active_department db (dp_id d) = Some d"
proof -
  from assms(3) obtain x where x: "active_department db (dp_id d) = Some x" by blast
  from active_department_id [OF this] assms(1,2) have "x = d" by (auto simp: department_ids_def distinct_map inj_on_def)
  with x show ?thesis by simp
qed

lemma seed_root:
  assumes "rbac_ok db"
  shows "upsert_department RBAC_ROOT_DEPARTMENT_ID (db_departments db) = db_departments db"
proof -
  have "dp_deleted d = False" if "d \<in> set (db_departments db)" "dp_id d = RBAC_ROOT_DEPARTMENT_ID" for d
    using active_department_row [of db d] active_department_id [of db _ d] that assms by (auto simp: rbac_ok_def)
  then have "map (\<lambda>d. if dp_id d = RBAC_ROOT_DEPARTMENT_ID then d\<lparr>dp_deleted := False\<rparr> else d) (db_departments db) = db_departments db"
    by (intro map_idI) auto
  moreover have "RBAC_ROOT_DEPARTMENT_ID \<in> set (map dp_id (db_departments db))"
    using assms active_department_id by (force simp: rbac_ok_def)
  ultimately show ?thesis by (simp add: upsert_department_def)
qed

lemma insert_new_set [simp]: "set (insert_new x xs) = insert x (set xs)"
  by (auto simp: insert_new_def)

lemma upsert_role_ids: "map rl_id (upsert_role i rs) = insert_new i (map rl_id rs)"
  by (auto simp: upsert_role_def insert_new_def comp_def intro!: map_cong)

lemma insert_new_distinct: "distinct (insert_new x xs) \<longleftrightarrow> distinct xs"
  by (auto simp: insert_new_def)

lemma seed_facts:
  assumes "rbac_ok db"
  shows "db_departments (seedSystemRecords db) = db_departments db" and "role_ids (seedSystemRecords db) = insert_new RBAC_SYSTEM_ADMIN_ROLE_ID (role_ids db)"
    and "references_exist (seedSystemRecords db)"
proof -
  show d: "db_departments (seedSystemRecords db) = db_departments db" using seed_root [OF assms] by (simp add: seedSystemRecords_def)
  show r: "role_ids (seedSystemRecords db) = insert_new RBAC_SYSTEM_ADMIN_ROLE_ID (role_ids db)"
    by (simp add: seedSystemRecords_def role_ids_def upsert_role_ids)
  have "references_exist db" using assms by (simp add: rbac_ok_def)
  then show "references_exist (seedSystemRecords db)"
    unfolding references_exist_def department_ids_def d r by (auto simp: list_all_iff seedSystemRecords_def seed_root [OF assms])
qed

lemma active_role_seed:
  assumes "active_role db r"
  shows "active_role (seedSystemRecords db) r"
proof -
  from assms obtain x where x: "x \<in> set (db_roles db)" "rl_id x = r" "\<not> rl_deleted x" by (auto simp: active_role_def list_ex_iff)
  let ?y = "if rl_id x = RBAC_SYSTEM_ADMIN_ROLE_ID then x\<lparr>rl_system := True, rl_deleted := False\<rparr> else x"
  have "?y \<in> set (upsert_role RBAC_SYSTEM_ADMIN_ROLE_ID (db_roles db))" using x(1) by (auto simp: upsert_role_def)
  moreover have "rl_id ?y = r" "\<not> rl_deleted ?y" using x by auto
  ultimately show ?thesis unfolding active_role_def list_ex_iff seedSystemRecords_def by auto
qed

lemma seed_keeps:
  assumes "rbac_ok db"
  shows "keeps db (seedSystemRecords db)"
proof -
  note S = seed_facts [OF assms]
  have "rbac_ok (seedSystemRecords db)"
    using assms S by (simp add: rbac_ok_def edges_def active_department_def department_ids_def insert_new_distinct)
  moreover have "grants (seedSystemRecords db) u k" if "grants db u k" for u k
    by (rule grants_mono [OF _ _ _ _ _ active_role_seed that])
      (use S(1) in \<open>simp add: active_department_def\<close>, auto simp: seedSystemRecords_def)
  ultimately show ?thesis unfolding keeps_def has_admin_def by blast
qed

lemma links_only:
  assumes "db_departments db' = db_departments db" and "db_roles db' = db_roles db" and "db_role_permissions db' = db_role_permissions db"
    and "db_department_roles db' = db_department_roles db"
    and "\<And>u d p. (u, d, p) \<in> set (db_user_departments db) \<Longrightarrow> \<exists>p'. (u, d, p') \<in> set (db_user_departments db')"
    and "set (db_user_roles db) \<subseteq> set (db_user_roles db')"
  shows "has_admin db \<Longrightarrow> has_admin db'"
proof -
  have same: "active_department db' = active_department db" by (rule active_department_cong [OF assms(1)])
  have "grants db' u k" if "grants db u k" for u k
    by (rule grants_mono [OF _ _ _ _ _ _ that]) (use assms same in \<open>auto simp: active_role_def\<close>)
  then show "has_admin db \<Longrightarrow> has_admin db'" unfolding has_admin_def by blast
qed

lemma set_user_department_links:
  "(v, e, p) \<in> set (db_user_departments db) \<Longrightarrow> \<exists>p'. (v, e, p') \<in> set (db_user_departments (set_user_department u d q db))"
  by (cases "v = u \<and> e = d") (auto simp: set_user_department_def)

lemma user_department_keeps:
  assumes "rbac_ok db" and "u \<in> set (db_users db)" and "d \<in> set (department_ids db)"
  shows "keeps db (set_user_department u d q db)"
proof -
  let ?db = "set_user_department u d q db"
  have "references_exist ?db"
    using assms by (auto simp: rbac_ok_def references_exist_def list_all_iff set_user_department_def department_ids_def role_ids_def)
  then have "rbac_ok ?db" by (rule rbac_ok_same [OF assms(1), rotated 2]) (simp_all add: set_user_department_def role_ids_def)
  moreover have "has_admin db \<Longrightarrow> has_admin ?db"
    by (rule links_only [OF _ _ _ _ set_user_department_links]) (simp_all add: set_user_department_def)
  ultimately show ?thesis by (simp add: keeps_def)
qed

lemma user_keeps:
  assumes "rbac_ok db"
  shows "keeps db (upsertUser u db)"
proof -
  have "references_exist (upsertUser u db)"
    using assms by (auto simp: rbac_ok_def references_exist_def list_all_iff upsertUser_def department_ids_def role_ids_def)
  then have "rbac_ok (upsertUser u db)" by (rule rbac_ok_same [OF assms(1), rotated 2]) (simp_all add: upsertUser_def role_ids_def)
  moreover have "has_admin db \<Longrightarrow> has_admin (upsertUser u db)" by (rule links_only) (auto simp: upsertUser_def)
  ultimately show ?thesis by (simp add: keeps_def)
qed

lemma root_id: "rbac_ok db \<Longrightarrow> RBAC_ROOT_DEPARTMENT_ID \<in> set (department_ids db)"
  using active_department_id by (force simp: rbac_ok_def department_ids_def)

lemma bootstrap_keeps:
  assumes "rbac_ok db"
  shows "keeps db (bootstrapUser u db)"
proof -
  let ?db1 = "upsertUser u (seedSystemRecords db)"
  have "rbac_ok (seedSystemRecords db)" using seed_keeps [OF assms] by (simp add: keeps_def)
  then have k: "keeps db ?db1" using keeps_trans [OF seed_keeps [OF assms] user_keeps] by blast
  then have ok: "rbac_ok ?db1" by (simp add: keeps_def)
  have "keeps ?db1 (set_user_department u RBAC_ROOT_DEPARTMENT_ID True ?db1)"
    by (rule user_department_keeps [OF ok _ root_id [OF ok]]) (simp add: upsertUser_def)
  with keeps_trans [OF k] k show ?thesis by (auto simp: bootstrapUser_def Let_def)
qed

text \<open>Several departments of a user at once.\<close>

lemma fold_departments:
  fixes u :: string and p :: "string \<Rightarrow> bool"
  defines "f \<equiv> fold (\<lambda>d. set_user_department u d (p d))"
  shows "db_departments (f ds db) = db_departments db \<and> db_roles (f ds db) = db_roles db \<and> db_user_roles (f ds db) = db_user_roles db \<and>
    db_department_roles (f ds db) = db_department_roles db \<and> db_role_permissions (f ds db) = db_role_permissions db \<and>
    ((v, e, q) \<in> set (db_user_departments db) \<longrightarrow> (\<exists>q'. (v, e, q') \<in> set (db_user_departments (f ds db))))"
  unfolding f_def
proof (induction ds arbitrary: db q)
  case (Cons d ds)
  let ?db = "set_user_department u d (p d) db"
  have "db_departments ?db = db_departments db" "db_roles ?db = db_roles db" "db_user_roles ?db = db_user_roles db"
    "db_department_roles ?db = db_department_roles db" "db_role_permissions ?db = db_role_permissions db"
    by (simp_all add: set_user_department_def)
  moreover have "(v, e, q) \<in> set (db_user_departments db) \<Longrightarrow> \<exists>q'. (v, e, q') \<in> set (db_user_departments ?db)"
    by (rule set_user_department_links)
  ultimately show ?case using Cons [of ?db] by auto
qed auto

lemma fold_insert_new_set: "set (fold (\<lambda>r. insert_new (u, r)) rs xs) = set xs \<union> Pair u ` set rs"
  by (induction rs arbitrary: xs) auto

lemma create_user_keeps:
  assumes "rbac_ok db"
  shows "keeps db (snd (createUser u departments roles db))"
proof -
  let ?base = "upsertUser u (seedSystemRecords db)"
  let ?ds = "if departments = [] then [RBAC_ROOT_DEPARTMENT_ID] else remdups departments"
  let ?p = "\<lambda>d. d = (if departments = [] then RBAC_ROOT_DEPARTMENT_ID else hd departments)"
  define db1 where "db1 = fold (\<lambda>d. set_user_department u d (?p d)) ?ds ?base"
  define db2 where "db2 = db1\<lparr>db_user_roles := fold (\<lambda>r. insert_new (u, r)) roles (db_user_roles db1)\<rparr>"
  have sk: "rbac_ok (seedSystemRecords db)" "has_admin db \<longrightarrow> has_admin (seedSystemRecords db)" using seed_keeps [OF assms] by (simp_all add: keeps_def)
  have base: "rbac_ok ?base" "has_admin db \<longrightarrow> has_admin ?base" using user_keeps [OF sk(1), of u] sk(2) by (auto simp: keeps_def)
  note F = fold_departments [of u ?p ?ds ?base, folded db1_def]
  have "rbac_ok db2" if "references_exist db2"
    by (rule rbac_ok_same [OF base(1) _ _ that]) (use F in \<open>simp_all add: db2_def role_ids_def\<close>)
  moreover have "has_admin ?base \<Longrightarrow> has_admin db2"
    by (rule links_only) (use F in \<open>auto simp: db2_def fold_insert_new_set\<close>)
  ultimately have "keeps db (snd (transaction_of False (\<lambda>_. db2) db))"
    by (intro transaction_keeps [OF assms]) (use base(2) in auto)
  moreover have "createUser u departments roles db = transaction_of False (\<lambda>_. db2) db"
    by (simp add: createUser_def transaction_of_def db1_def db2_def Let_def)
  ultimately show ?thesis by simp
qed

lemma create_role_keeps:
  assumes "rbac_ok db"
  shows "keeps db (snd (createRole i db))"
proof (cases "i \<in> set (role_ids db)")
  case False
  let ?db = "db\<lparr>db_roles := db_roles db @ [\<lparr>rl_id = i, rl_system = False, rl_deleted = False\<rparr>]\<rparr>"
  have "references_exist ?db"
    using assms unfolding rbac_ok_def references_exist_def department_ids_def role_ids_def list_all_iff by auto
  then have "rbac_ok ?db" using assms False
    by (simp add: rbac_ok_def edges_def active_department_def department_ids_def role_ids_def)
  moreover have "grants ?db u k" if "grants db u k" for u k
    by (rule grants_mono [OF _ _ _ _ _ _ that]) (auto simp: active_department_def active_role_def)
  ultimately show ?thesis using False unfolding keeps_def has_admin_def createRole_def by auto
qed (use assms keeps_refl in \<open>simp add: createRole_def\<close>)

lemma delete_role_keeps:
  assumes "rbac_ok db"
  shows "keeps db (snd (deleteRole i db))"
proof -
  let ?f = "\<lambda>db. db\<lparr>db_roles := map (\<lambda>r. if rl_id r = i then r\<lparr>rl_deleted := True\<rparr> else r) (db_roles db)\<rparr>"
  have ids: "role_ids (?f db) = role_ids db" by (auto simp: role_ids_def comp_def intro!: map_cong)
  have "keeps db (snd (transaction_of True ?f db))"
    by (rule transaction_keeps [OF assms]) (use rbac_ok_same [OF assms _ ids] in simp_all)
  then show ?thesis using keeps_refl [OF assms] by (auto simp: deleteRole_def split: option.splits)
qed

section \<open>Departments\<close>

lemma active_department_ids: "active_department db i \<noteq> None \<Longrightarrow> i \<in> set (department_ids db)"
  using active_department_id by (force simp: department_ids_def)

lemma find_append: "find P (xs @ ys) = (case find P xs of None \<Rightarrow> find P ys | Some x \<Rightarrow> Some x)"
  by (induction xs) auto

lemma create_department_keeps:
  assumes ok: "rbac_ok db" and new: "i \<noteq> []" "parent \<noteq> Some i"
  shows "keeps db (snd (createDepartment i parent db))"
proof (cases "i \<in> set (department_ids db)")
  case False
  define p where "p = (case parent of None \<Rightarrow> RBAC_ROOT_DEPARTMENT_ID | Some p \<Rightarrow> if p = [] then RBAC_ROOT_DEPARTMENT_ID else p)"
  define row where "row = \<lparr>dp_id = i, dp_parent = Some p, dp_deleted = False\<rparr>"
  let ?db = "db\<lparr>db_departments := db_departments db @ [row]\<rparr>"
  have "i \<noteq> RBAC_ROOT_DEPARTMENT_ID" using root_id [OF ok] False by auto
  then have "p \<noteq> i" using new by (auto simp: p_def split: option.splits)
  have act: "active_department ?db x = (if x = i then Some row else active_department db x)" for x
  proof (cases "x = i")
    case True
    then have "find (\<lambda>d. dp_id d = x \<and> \<not> dp_deleted d) (db_departments db) = None"
      using False by (auto simp: find_None_iff department_ids_def)
    with True show ?thesis by (simp add: active_department_def row_def find_append)
  qed (auto simp: active_department_def row_def find_append split: option.splits)
  have "i \<noteq> q" if "x \<in> set (db_departments db)" "dp_parent x = Some q" for x q
  proof -
    have "q \<in> set (List.map_filter dp_parent (db_departments db))" using that by (force simp: map_filter_def)
    with ok False show ?thesis by (auto simp: rbac_ok_def references_exist_def list_all_iff)
  qed
  then have sub: "edges ?db \<subseteq> insert (i, p) (edges db)"
    unfolding edges_def act by (fastforce simp: row_def dest: active_department_id split: if_splits)
  have none: "active_department db i = None" using False active_department_ids by blast
  have "(p, i) \<notin> (edges db)\<^sup>*"
  proof
    assume "(p, i) \<in> (edges db)\<^sup>*"
    then show False using \<open>p \<noteq> i\<close> none by (cases rule: rtranclE) (auto simp: edges_def)
  qed
  with ok have "acyclic (insert (i, p) (edges db))" by (simp add: rbac_ok_def acyclic_insert)
  then have "acyclic (edges ?db)" using sub by (rule acyclic_subset)
  moreover have "active_department ?db RBAC_ROOT_DEPARTMENT_ID \<noteq> None" using ok by (simp add: act rbac_ok_def)
  ultimately have "references_exist ?db \<Longrightarrow> rbac_ok ?db"
    using ok False new(1) by (simp add: rbac_ok_def department_ids_def role_ids_def row_def)
  moreover have "grants ?db u k" if "grants db u k" for u k
    by (rule grants_mono [OF _ _ _ _ _ _ that]) (auto simp: act none active_role_def)
  then have "has_admin db \<Longrightarrow> has_admin ?db" unfolding has_admin_def by blast
  ultimately have "keeps db (snd (transaction_of False (\<lambda>db. db\<lparr>db_departments := db_departments db @ [row]\<rparr>) db))"
    by (intro transaction_keeps [OF ok]) auto
  with False show ?thesis by (simp add: createDepartment_def row_def p_def)
qed (use ok keeps_refl in \<open>simp add: createDepartment_def\<close>)

lemma find_map_row:
  "(\<And>d. dp_id (f d) = dp_id d \<and> dp_deleted (f d) = dp_deleted d) \<Longrightarrow>
    find (\<lambda>d. dp_id d = i \<and> \<not> dp_deleted d) (map f ds) = map_option f (find (\<lambda>d. dp_id d = i \<and> \<not> dp_deleted d) ds)"
  by (induction ds) auto

lemma find_deleted:
  "find (\<lambda>d. dp_id d = x \<and> \<not> dp_deleted d) (map (\<lambda>d. if dp_id d = i then d\<lparr>dp_deleted := True\<rparr> else d) ds) =
    (if x = i then None else find (\<lambda>d. dp_id d = x \<and> \<not> dp_deleted d) ds)"
  by (induction ds) auto

lemma map_filter_deleted:
  "List.map_filter dp_parent (map (\<lambda>d. if dp_id d = i then d\<lparr>dp_deleted := True\<rparr> else d) ds) = List.map_filter dp_parent ds"
  by (induction ds) (simp_all add: map_filter_simps split: option.splits)

lemma reparent_ok:
  assumes ok: "rbac_ok db" and i: "active_department db i \<noteq> None"
    and check: "\<And>q. p = Some q \<Longrightarrow> q = [] \<or> \<not> isDepartmentDescendant db q i"
  defines "db' \<equiv> db\<lparr>db_departments := map (\<lambda>d. if dp_id d = i \<and> \<not> dp_deleted d then d\<lparr>dp_parent := p\<rparr> else d) (db_departments db)\<rparr>"
  assumes refs: "references_exist db'"
  shows "rbac_ok db'"
proof -
  let ?f = "\<lambda>d. if dp_id d = i \<and> \<not> dp_deleted d then d\<lparr>dp_parent := p\<rparr> else d"
  have act: "active_department db' x = map_option ?f (active_department db x)" for x
    unfolding active_department_def db'_def by (simp add: find_map_row)
  have ids: "department_ids db' = department_ids db" by (auto simp: department_ids_def db'_def)
  have E: "(x, q) \<in> edges db \<or> x = i \<and> p = Some q \<and> active_department db q \<noteq> None" if "(x, q) \<in> edges db'" for x q
  proof -
    from that obtain d where d: "active_department db x = Some d" "dp_parent (?f d) = Some q" "active_department db q \<noteq> None"
      unfolding edges_def act by auto
    from active_department_id [OF d(1)] d show ?thesis by (cases "x = i") (auto simp: edges_def)
  qed
  have "acyclic (edges db')"
  proof (cases "\<exists>q. p = Some q \<and> active_department db q \<noteq> None")
    case True
    then obtain q where q: "p = Some q" "active_department db q \<noteq> None" by blast
    have "q \<noteq> []" using active_department_ids [OF q(2)] ok by (auto simp: rbac_ok_def)
    with check [OF q(1)] q(2) have "(q, i) \<notin> (edges db)\<^sup>*" by (simp add: isDepartmentDescendant_def dept_tree_iff)
    with ok have "acyclic (insert (i, q) (edges db))" by (simp add: rbac_ok_def acyclic_insert)
    moreover have "edges db' \<subseteq> insert (i, q) (edges db)" using E q(1) by auto
    ultimately show ?thesis by (rule acyclic_subset)
  next
    case False
    then have "edges db' \<subseteq> edges db" by (auto dest!: E)
    with ok show ?thesis by (auto simp: rbac_ok_def intro: acyclic_subset)
  qed
  then show ?thesis using ok refs act ids by (simp add: rbac_ok_def role_ids_def db'_def)
qed

lemma update_department_keeps:
  assumes ok: "rbac_ok db"
  shows "keeps db (snd (updateDepartment i parent db))"
proof -
  let ?f = "\<lambda>db. case parent of None \<Rightarrow> db
    | Some p \<Rightarrow> if p = Some ''__unchanged__'' then db else db\<lparr>db_departments := map (\<lambda>d. if dp_id d = i \<and> \<not> dp_deleted d then d\<lparr>dp_parent := p\<rparr> else d) (db_departments db)\<rparr>"
  consider "snd (updateDepartment i parent db) = db"
    | "snd (updateDepartment i parent db) = snd (transaction_of True ?f db)" "active_department db i \<noteq> None"
      "\<And>q. parent = Some (Some q) \<Longrightarrow> q = [] \<or> \<not> isDepartmentDescendant db q i"
  proof -
    define A where "A \<longleftrightarrow> i = RBAC_ROOT_DEPARTMENT_ID \<and> (case parent of Some (Some _) \<Rightarrow> True | _ \<Rightarrow> False)"
    define B where "B \<longleftrightarrow> (case parent of Some (Some p) \<Rightarrow> p \<noteq> [] \<and> p = i | _ \<Rightarrow> False)"
    define C where "C \<longleftrightarrow> (case parent of Some (Some p) \<Rightarrow> p \<noteq> [] \<and> isDepartmentDescendant db p i | _ \<Rightarrow> False)"
    have U: "updateDepartment i parent db = (if A then (Some RootReparented, db) else if B then (Some OwnParent, db)
        else if C then (Some UnderDescendant, db) else if active_department db i = None then (Some DepartmentNotFound, db)
        else transaction_of True ?f db)"
      unfolding updateDepartment_def A_def B_def C_def by (rule refl)
    have "q = [] \<or> \<not> isDepartmentDescendant db q i" if "\<not> C" "parent = Some (Some q)" for q
      using that by (simp add: C_def)
    then show thesis
      by (cases "A \<or> B \<or> C \<or> active_department db i = None") (rule that(1), auto simp: U, rule that(2), auto simp: U)
  qed
  then show ?thesis
  proof cases
    case 2
    have "rbac_ok (?f db)" if "references_exist (?f db)"
    proof (cases parent)
      case (Some a)
      show ?thesis
      proof (cases "a = Some ''__unchanged__''")
        case False
        with Some that reparent_ok [OF ok 2(2), of a] 2(3) show ?thesis by simp
      qed (simp add: Some ok)
    qed (simp add: ok)
    then show ?thesis unfolding 2(1) by (intro transaction_keeps [OF ok]) auto
  qed (simp add: keeps_refl [OF ok])
qed

lemma delete_department_keeps:
  assumes ok: "rbac_ok db"
  shows "keeps db (snd (deleteDepartment i db))"
proof -
  let ?g = "\<lambda>d. if dp_id d = i then d\<lparr>dp_deleted := True\<rparr> else d"
  define db' where "db' = db\<lparr>db_departments := map ?g (db_departments db)\<rparr>"
  consider "snd (deleteDepartment i db) = db"
    | "snd (deleteDepartment i db) = db'" "i \<noteq> RBAC_ROOT_DEPARTMENT_ID" "\<And>d. d \<in> set (db_departments db) \<Longrightarrow> dp_parent d = Some i \<Longrightarrow> dp_deleted d"
      "\<And>u p. (u, i, p) \<notin> set (db_user_departments db)"
  proof (cases "i = RBAC_ROOT_DEPARTMENT_ID \<or> list_ex (\<lambda>d. dp_parent d = Some i \<and> \<not> dp_deleted d) (db_departments db) \<or>
      list_ex (\<lambda>(_, d, _). d = i) (db_user_departments db)")
    case True
    then show ?thesis by (intro that(1)) (auto simp: deleteDepartment_def)
  next
    case False
    then have "snd (deleteDepartment i db) = db'" by (simp add: deleteDepartment_def db'_def)
    with False show ?thesis by (intro that(2)) (auto simp: list_ex_iff)
  qed
  then show ?thesis
  proof cases
    case 2
    have act: "active_department db' x = (if x = i then None else active_department db x)" for x
      unfolding active_department_def db'_def by (simp add: find_deleted)
    have ids: "department_ids db' = department_ids db" by (auto simp: department_ids_def db'_def)
    have parents: "List.map_filter dp_parent (db_departments db') = List.map_filter dp_parent (db_departments db)"
      unfolding db'_def by (simp add: map_filter_deleted)
    have "edges db' \<subseteq> edges db" unfolding edges_def act by (auto split: if_splits)
    then have "acyclic (edges db')" using ok by (auto simp: rbac_ok_def intro: acyclic_subset)
    moreover have "references_exist db'" using ok parents unfolding rbac_ok_def references_exist_def ids by (simp add: db'_def role_ids_def)
    ultimately have "rbac_ok db'" using ok 2(2) act ids by (simp add: rbac_ok_def role_ids_def db'_def)
    moreover have path: "(d, e) \<in> (edges db')\<^sup>* \<and> e \<noteq> i" if "(d, e) \<in> (edges db)\<^sup>*" "d \<noteq> i" for d e
      using that
    proof (induction rule: rtrancl_induct)
      case (step y z)
      have "z \<noteq> i" using step(2) 2(3) by (auto simp: edges_def dest: active_department_id)
      moreover have "(y, z) \<in> edges db'" using step calculation by (auto simp: edges_def act)
      ultimately show ?case using step by (meson rtrancl.rtrancl_into_rtrancl)
    qed simp
    have "has_role db' u r" if "has_role db u r" for u r
      using that
      unfolding has_role_def
    proof (elim disjE exE conjE)
      fix d p e assume d: "(u, d, p) \<in> set (db_user_departments db)" "active_department db d \<noteq> None" "(d, e) \<in> (edges db)\<^sup>*" "(e, r) \<in> set (db_department_roles db)"
      have "d \<noteq> i" using d(1) 2(4) by auto
      moreover have L: "db_user_departments db' = db_user_departments db" "db_department_roles db' = db_department_roles db"
        by (simp_all add: db'_def)
      ultimately show "(u, r) \<in> set (db_user_roles db') \<or> (\<exists>d p e. (u, d, p) \<in> set (db_user_departments db') \<and>
          active_department db' d \<noteq> None \<and> (d, e) \<in> (edges db')\<^sup>* \<and> (e, r) \<in> set (db_department_roles db'))"
        using d(1,2,4) path [OF d(3)] unfolding L act by (intro disjI2 exI [of _ d] exI [of _ p] exI [of _ e]) simp
    qed (simp add: db'_def)
    then have "has_admin db \<Longrightarrow> has_admin db'" unfolding has_admin_def grants_def by (auto simp: db'_def active_role_def)
    ultimately show ?thesis unfolding 2(1) keeps_def by blast
  qed (simp add: keeps_refl [OF ok])
qed

section \<open>Properties\<close>

text \<open>The ids of departments are made by the code: they are not empty and name no parent yet.\<close>

fun proper_op :: "rbac_op \<Rightarrow> bool" where
  "proper_op (CreateDepartment i p) \<longleftrightarrow> i \<noteq> [] \<and> p \<noteq> Some i"
| "proper_op _ \<longleftrightarrow> True"

lemma apply_keeps:
  assumes "rbac_ok db" and "proper_op x"
  shows "keeps db (snd (rbac_apply x db))"
proof (cases x)
  case (ReplaceRolePermissions r ks)
  have "keeps db (snd (transaction_of True (\<lambda>db. db\<lparr>db_role_permissions := replace_rows r ks (db_role_permissions db)\<rparr>) db))"
    by (rule links_keep [OF assms(1)]) simp_all
  then show ?thesis using ReplaceRolePermissions by (auto simp: replaceRolePermissions_def split: prod.splits option.splits)
next
  case (UpdateRole i)
  with assms(1) show ?thesis by (simp add: updateRole_def keeps_refl)
qed (use assms seed_keeps bootstrap_keeps create_user_keeps create_department_keeps update_department_keeps delete_department_keeps
    create_role_keeps delete_role_keeps in \<open>auto simp: replaceUserRoles_def replaceUserDepartments_def replaceDepartmentRoles_def Let_def
      intro!: links_keep\<close>)

lemma run_keeps: "rbac_ok db \<Longrightarrow> \<forall>x \<in> set ops. proper_op x \<Longrightarrow> keeps db (rbac_run ops db)"
proof (induction ops arbitrary: db)
  case (Cons x ops)
  have k: "keeps db (snd (rbac_apply x db))" using apply_keeps Cons.prems by simp
  then have "keeps (snd (rbac_apply x db)) (rbac_run ops (snd (rbac_apply x db)))" using Cons by (simp add: keeps_def)
  from keeps_trans [OF k this] show ?case by (simp add: rbac_run_def)
qed (simp add: rbac_run_def keeps_refl)

text \<open>
  C24. The two recursive queries compute what they are meant to: a user has a permission exactly when it is registered and
  granted by a role that is not deleted and that the user has directly or through a department that lies above one of
  its own departments in the tree of those not deleted.
\<close>

theorem effective_permissions_are_granted:
  "k \<in> set (getEffectivePermissionKeys db u) \<longleftrightarrow>
     k \<in> set (db_permissions db) \<and>
     (\<exists>r. active_role db r \<and> (r, k) \<in> set (db_role_permissions db) \<and>
       ((u, r) \<in> set (db_user_roles db) \<or>
        (\<exists>d p e. (u, d, p) \<in> set (db_user_departments db) \<and> active_department db d \<noteq> None \<and> (d, e) \<in> (edges db)\<^sup>* \<and>
           (e, r) \<in> set (db_department_roles db))))"
  unfolding effective_iff grants_def has_role_def by blast

lemma admin_registered: "references_exist db \<Longrightarrow> grants db u k \<Longrightarrow> k \<in> set (db_permissions db)"
  unfolding references_exist_def grants_def list_all_iff by fastforce

text \<open>
  C23. The last administrator stays: whatever operations run one after the other, if some user has access to the
  administration before, some user has it afterwards.
\<close>

theorem an_administrator_stays:
  assumes "rbac_ok db" and "list_all proper_op ops" and "RBAC_ADMIN_PERMISSION \<in> set (getEffectivePermissionKeys db u)"
  shows "\<exists>v. RBAC_ADMIN_PERMISSION \<in> set (getEffectivePermissionKeys (rbac_run ops db) v)"
proof -
  have "keeps db (rbac_run ops db)" using run_keeps [OF assms(1)] assms(2) by (simp add: list_all_iff)
  moreover have "has_admin db" using assms(3) by (auto simp: effective_iff has_admin_def)
  ultimately obtain v where v: "grants (rbac_run ops db) v RBAC_ADMIN_PERMISSION" and "rbac_ok (rbac_run ops db)"
    unfolding keeps_def has_admin_def by blast
  then have "references_exist (rbac_run ops db)" by (simp add: rbac_ok_def)
  from admin_registered [OF this v] v show ?thesis by (auto simp: effective_iff)
qed

text \<open>
  The departments stay a forest: whatever operations run one after the other, no department lies above itself, so that the
  recursive queries end.
\<close>

theorem departments_stay_acyclic:
  assumes "rbac_ok db" and "list_all proper_op ops"
  shows "(i, i) \<notin> (edges (rbac_run ops db))\<^sup>+"
proof -
  have "rbac_ok (rbac_run ops db)" using run_keeps [OF assms(1)] assms(2) by (simp add: list_all_iff keeps_def)
  then show ?thesis by (simp add: rbac_ok_def acyclic_def)
qed

section \<open>Examples\<close>

text \<open>Two administrators, and a second role with access to the administration.\<close>

definition sample_db :: rbac_db where
  "sample_db = \<lparr>db_users = [''a'', ''b''],
     db_departments = [\<lparr>dp_id = ''dept-root'', dp_parent = None, dp_deleted = False\<rparr>, \<lparr>dp_id = ''d'', dp_parent = Some ''dept-root'', dp_deleted = False\<rparr>],
     db_roles = [\<lparr>rl_id = ''role-system-admin'', rl_system = True, rl_deleted = False\<rparr>, \<lparr>rl_id = ''r'', rl_system = False, rl_deleted = False\<rparr>],
     db_permissions = [''admin:access''],
     db_user_departments = [(''a'', ''d'', True)],
     db_user_roles = [(''a'', ''role-system-admin''), (''b'', ''r'')],
     db_department_roles = [],
     db_role_permissions = [(''role-system-admin'', ''admin:access''), (''r'', ''admin:access'')]\<rparr>"

lemma edges_sample: "edges sample_db \<subseteq> {(''d'', ''dept-root'')}"
  by (auto simp: edges_def active_department_def sample_db_def split: if_splits)

lemma sample_ok: "rbac_ok sample_db"
proof -
  have "acyclic {(''d'', ''dept-root'')}" by (auto simp: acyclic_def trancl_insert)
  with edges_sample have "acyclic (edges sample_db)" by (rule acyclic_subset [rotated])
  moreover have "distinct (department_ids sample_db)" "distinct (role_ids sample_db)" "references_exist sample_db"
    "active_department sample_db RBAC_ROOT_DEPARTMENT_ID \<noteq> None" "[] \<notin> set (department_ids sample_db)" by code_simp+
  ultimately show ?thesis by (simp add: rbac_ok_def)
qed

definition sample_ops :: "rbac_op list" where
  "sample_ops = [CreateDepartment ''e'' (Some ''d''), UpdateDepartment ''d'' (Some (Some ''e'')), ReplaceUserRoles ''b'' [], ReplaceUserRoles ''a'' []]"

theorem an_administrator_stays_witness:
  "\<exists>v. RBAC_ADMIN_PERMISSION \<in> set (getEffectivePermissionKeys (rbac_run sample_ops sample_db) v)"
proof -
  have "list_all proper_op sample_ops" "RBAC_ADMIN_PERMISSION \<in> set (getEffectivePermissionKeys sample_db ''b'')" by code_simp+
  from an_administrator_stays [OF sample_ok this] show ?thesis .
qed

theorem departments_stay_acyclic_witness: "(''d'', ''d'') \<notin> (edges (rbac_run sample_ops sample_db))\<^sup>+"
proof -
  have "list_all proper_op sample_ops" by code_simp
  from departments_stay_acyclic [OF sample_ok this] show ?thesis .
qed

text \<open>
  Two transactions that each take a role from one of two administrators, neither of which sees the rows of the other:
  each finds an administrator left, and with both committed there is none.
\<close>

lemma concurrent_revocations_lose_last_admin:
  "let revoke = \<lambda>u db. db\<lparr>db_user_roles := replace_rows u [] (db_user_roles db)\<rparr> in
   fst (transaction_of True (revoke ''a'') sample_db) = None \<and> fst (transaction_of True (revoke ''b'') sample_db) = None \<and>
   \<not> ensureAtLeastOneAdmin (revoke ''b'' (revoke ''a'' sample_db))"
  by code_simp

text \<open>
  Two moves that are checked before either is written close a cycle of departments, on which the query of the check, a
  \<open>union all\<close>, does not end.
\<close>

lemma concurrent_moves_close_a_cycle:
  "let dept = \<lambda>i. \<lparr>dp_id = i, dp_parent = Some ''dept-root'', dp_deleted = False\<rparr>;
       db = sample_db\<lparr>db_departments := db_departments sample_db @ [dept ''x'', dept ''y'']\<rparr>;
       move = \<lambda>i p db. db\<lparr>db_departments := map (\<lambda>d. if dp_id d = i \<and> \<not> dp_deleted d then d\<lparr>dp_parent := Some p\<rparr> else d) (db_departments db)\<rparr>;
       db' = move ''x'' ''y'' (move ''y'' ''x'' db)
   in fst (updateDepartment ''x'' (Some (Some ''y'')) db) = None \<and> fst (updateDepartment ''y'' (Some (Some ''x'')) db) = None \<and>
      references_exist db' \<and> ensureAtLeastOneAdmin db' \<and> dept_tree db' ''x'' = [''x'', ''y'', ''x'', ''y'', ''x'']"
  by code_simp

text \<open>Access that is taken from the system role comes back when someone reads the settings.\<close>

lemma revoked_system_permission_returns:
  "let db = snd (replaceRolePermissions RBAC_SYSTEM_ADMIN_ROLE_ID [] sample_db) in
   getEffectivePermissionKeys db ''a'' = [] \<and>
   getEffectivePermissionKeys (snd (rbac_apply ReadSettings db)) ''a'' = [RBAC_ADMIN_PERMISSION]"
  by code_simp

end
