(* ===== verification/Rbac_Service.thy ===== *)
theory Rbac_Service
  imports Rbac_Store
begin

text \<open>
  The authorization service (web/server/rbac-service.ts): decisions from principals that are cached per user, and
  administrative operations that invalidate the cache after the store has committed.

  A request that finds nothing in the cache reads the tables and sets the cache when the answer of the database arrives; the
  reads that are under way are part of the state. Creating accounts and passwords is done by the authentication library
  and left out, and so are the queries that only list tables.
\<close>

section \<open>State\<close>

record principal =
  pr_roles :: "string list"
  pr_permissions :: "string list"
  pr_departments :: "(string \<times> bool) list"

definition store_getPrincipal :: "rbac_db \<Rightarrow> string \<Rightarrow> principal" where
  "store_getPrincipal db u = \<lparr>
     pr_roles = remdups (filter (active_role db) (roles_of db u)),
     pr_permissions = getEffectivePermissionKeys db u,
     pr_departments = map snd (filter (\<lambda>(v, d, _). v = u \<and> active_department db d \<noteq> None) (db_user_departments db))\<rparr>"

record rbac_service =
  sv_db :: rbac_db
  sv_cache :: "(string, principal) omap"
  sv_loads :: "(string \<times> principal) list"

definition deleteByUser :: "string \<Rightarrow> rbac_service \<Rightarrow> rbac_service" where
  "deleteByUser u s = s\<lparr>sv_cache := om_delete (sv_cache s) u\<rparr>"

definition invalidateAll :: "rbac_service \<Rightarrow> rbac_service" where
  "invalidateAll s = s\<lparr>sv_cache := []\<rparr>"

section \<open>Operations\<close>

text \<open>\<open>getPrincipal\<close> up to its \<open>await\<close>, and behind it.\<close>

definition load_starts :: "string \<Rightarrow> rbac_service \<Rightarrow> principal option \<times> rbac_service" where
  "load_starts u s =
     (case om_get (sv_cache s) u of
        Some p \<Rightarrow> (Some p, s)
      | None \<Rightarrow> (None, s\<lparr>sv_loads := sv_loads s @ [(u, store_getPrincipal (sv_db s) u)]\<rparr>))"

definition load_returns :: "nat \<Rightarrow> rbac_service \<Rightarrow> rbac_service" where
  "load_returns n s =
     (if n < length (sv_loads s)
      then (case sv_loads s ! n of (u, p) \<Rightarrow>
        s\<lparr>sv_cache := om_set (sv_cache s) u p, sv_loads := take n (sv_loads s) @ drop (n + 1) (sv_loads s)\<rparr>)
      else s)"

text \<open>\<open>getPrincipal\<close> when nothing happens in between.\<close>

definition getPrincipal :: "string \<Rightarrow> rbac_service \<Rightarrow> principal \<times> rbac_service" where
  "getPrincipal u s =
     (case om_get (sv_cache s) u of
        Some p \<Rightarrow> (p, s)
      | None \<Rightarrow> (let p = store_getPrincipal (sv_db s) u in (p, s\<lparr>sv_cache := om_set (sv_cache s) u p\<rparr>)))"

text \<open>\<open>carried\<close> are the permissions the caller has on the user already, if any.\<close>

definition can :: "string \<Rightarrow> string list option \<Rightarrow> string \<Rightarrow> rbac_service \<Rightarrow> bool \<times> rbac_service" where
  "can u carried permission s =
     (if (case carried of Some ks \<Rightarrow> permission \<in> set ks | None \<Rightarrow> False) then (True, s)
      else (let (p, s1) = getPrincipal u s in (permission \<in> set (pr_permissions p), s1)))"

definition requireAdmin :: "string \<Rightarrow> string list option \<Rightarrow> rbac_service \<Rightarrow> bool \<times> rbac_service" where
  "requireAdmin u carried s = can u carried RBAC_ADMIN_PERMISSION s"

text \<open>What an operation that has succeeded drops from the cache.\<close>

fun invalidates :: "rbac_op \<Rightarrow> rbac_service \<Rightarrow> rbac_service" where
  "invalidates ReadSettings s = s"
| "invalidates (BootstrapUser u) s = deleteByUser u s"
| "invalidates (CreateUser u _ _) s = deleteByUser u s"
| "invalidates (ReplaceUserRoles u _) s = deleteByUser u s"
| "invalidates (ReplaceUserDepartments u _) s = deleteByUser u s"
| "invalidates _ s = invalidateAll s"

definition administer :: "rbac_op \<Rightarrow> rbac_service \<Rightarrow> rbac_error option \<times> rbac_service" where
  "administer x s =
     (case rbac_apply x (sv_db s) of
        (Some e, db) \<Rightarrow> (Some e, s\<lparr>sv_db := db\<rparr>)
      | (None, db) \<Rightarrow> (None, invalidates x (s\<lparr>sv_db := db\<rparr>)))"

definition syncAuthenticatedUser :: "string \<Rightarrow> rbac_service \<Rightarrow> principal \<times> rbac_service" where
  "syncAuthenticatedUser u s = getPrincipal u (snd (administer (BootstrapUser u) s))"

section \<open>Requests one after the other\<close>

datatype service_request = Decide string "string list option" string | Administer rbac_op | Sync string

fun serve :: "service_request \<Rightarrow> rbac_service \<Rightarrow> rbac_service" where
  "serve (Decide u carried k) s = snd (can u carried k s)"
| "serve (Administer x) s = snd (administer x s)"
| "serve (Sync u) s = snd (syncAuthenticatedUser u s)"

fun service_states :: "service_request list \<Rightarrow> rbac_service \<Rightarrow> rbac_service list" where
  "service_states [] s = [s]"
| "service_states (r # rs) s = s # service_states rs (serve r s)"

definition cache_current :: "rbac_service \<Rightarrow> bool" where
  "cache_current s \<longleftrightarrow> (\<forall>u p. om_get (sv_cache s) u = Some p \<longrightarrow> p = store_getPrincipal (sv_db s) u)"

text \<open>Operations on one user leave the principals of the others alone.\<close>

lemma replace_rows_other: "w \<noteq> u \<Longrightarrow> filter (\<lambda>(v, x). v = w \<and> P x) (replace_rows u xs rows) = filter (\<lambda>(v, x). v = w \<and> P x) rows"
  by (induction rows) (auto simp: replace_rows_def filter_empty_conv)

lemma concat_owner:
  "concat (map (\<lambda>(v, d, _). if v = u then f d else []) rows) = concat (map (\<lambda>(_, d, _). f d) (filter (\<lambda>(v, x). v = u \<and> True) rows))"
  by (induction rows) auto

lemma principal_cong:
  assumes "db_departments db' = db_departments db" and "db_roles db' = db_roles db" and "db_permissions db' = db_permissions db"
    and "db_department_roles db' = db_department_roles db" and "db_role_permissions db' = db_role_permissions db"
    and "filter (\<lambda>(v, _). v = w) (db_user_roles db') = filter (\<lambda>(v, _). v = w) (db_user_roles db)"
    and "\<And>P. filter (\<lambda>(v, x). v = w \<and> P x) (db_user_departments db') = filter (\<lambda>(v, x). v = w \<and> P x) (db_user_departments db)"
  shows "store_getPrincipal db' w = store_getPrincipal db w"
proof -
  have act: "active_department db' = active_department db" "active_role db' = active_role db"
    using assms(1,2) by (simp_all add: active_department_def active_role_def fun_eq_iff)
  have "climb n db' i = climb n db i" for n i
    by (induction n arbitrary: i) (simp_all add: climb.simps [of _ db'] climb.simps [of _ db] act split: option.splits)
  then have tree: "dept_tree db' = dept_tree db" by (simp add: dept_tree_def assms(1) fun_eq_iff)
  have "departments_of db' w = departments_of db w" unfolding departments_of_def concat_owner assms(7) tree by (rule refl)
  then have roles: "roles_of db' w = roles_of db w" unfolding roles_of_def assms(4,6) by simp
  have perms: "getEffectivePermissionKeys db' w = getEffectivePermissionKeys db w"
    unfolding getEffectivePermissionKeys_def roles act assms(3,5) by (rule refl)
  have "(\<lambda>(v, d, _). v = w \<and> active_department db d \<noteq> None) = (\<lambda>(v :: string, x :: string \<times> bool). v = w \<and> active_department db (fst x) \<noteq> None)"
    by auto
  then show ?thesis unfolding store_getPrincipal_def roles perms act using assms(7) [of "\<lambda>x. active_department db (fst x) \<noteq> None"] by simp
qed

lemma owner_filter: "filter (\<lambda>(v, x). v = w \<and> True) xs = filter (\<lambda>(v, _). v = w) xs"
  by (induction xs) auto

lemma set_user_department_other:
  "w \<noteq> u \<Longrightarrow> filter (\<lambda>(v, x). v = w \<and> P x) (db_user_departments (set_user_department u d q db)) =
    filter (\<lambda>(v, x). v = w \<and> P x) (db_user_departments db)"
  by (auto simp: set_user_department_def filter_empty_conv intro!: filter_cong)

lemma fold_departments_other:
  "w \<noteq> u \<Longrightarrow> filter (\<lambda>(v, x). v = w \<and> P x) (db_user_departments (fold (\<lambda>d. set_user_department u d (p d)) ds db)) =
    filter (\<lambda>(v, x). v = w \<and> P x) (db_user_departments db)"
  by (induction ds arbitrary: db) (simp_all add: set_user_department_other)

lemma fold_insert_other: "w \<noteq> u \<Longrightarrow> filter (\<lambda>(v, _). v = w) (fold (\<lambda>r. insert_new (u, r)) rs xs) = filter (\<lambda>(v, _). v = w) xs"
  by (induction rs arbitrary: xs) (auto simp: insert_new_def)

lemma fold_departments_permissions: "db_permissions (fold (\<lambda>d. set_user_department u d (p d)) ds db) = db_permissions db"
  by (induction ds arbitrary: db) (simp_all add: set_user_department_def)

lemma transaction_principal:
  assumes "store_getPrincipal (f db) w = store_getPrincipal db w"
  shows "store_getPrincipal (snd (transaction_of checked f db)) w = store_getPrincipal db w"
  using assms by (simp add: transaction_of_def Let_def)

lemma bootstrap_other:
  assumes "seedSystemRecords db = db" and "w \<noteq> u"
  shows "store_getPrincipal (bootstrapUser u db) w = store_getPrincipal db w"
proof -
  have "store_getPrincipal (upsertUser u db) w = store_getPrincipal db w" by (rule principal_cong) (simp_all add: upsertUser_def)
  moreover have "store_getPrincipal (set_user_department u d q db1) w = store_getPrincipal db1 w" for d q db1
    by (rule principal_cong) (simp_all add: set_user_department_other [OF assms(2)], simp_all add: set_user_department_def)
  ultimately show ?thesis by (simp add: bootstrapUser_def assms(1) Let_def)
qed

lemma create_user_other:
  assumes "seedSystemRecords db = db" and "w \<noteq> u"
  shows "store_getPrincipal (snd (createUser u ds rs db)) w = store_getPrincipal db w"
  unfolding createUser_def Let_def
  by (rule transaction_principal, rule principal_cong)
    (simp_all add: assms(1) fold_departments fold_departments_permissions fold_departments_other [OF assms(2)] fold_insert_other [OF assms(2)],
     simp_all add: upsertUser_def)

lemma replace_roles_other:
  assumes "w \<noteq> u"
  shows "store_getPrincipal (snd (replaceUserRoles u rs db)) w = store_getPrincipal db w"
  unfolding replaceUserRoles_def
  by (rule transaction_principal, rule principal_cong)
    (use replace_rows_other [OF assms, of "\<lambda>_. True" rs "db_user_roles db"] in \<open>simp_all add: owner_filter\<close>)

lemma replace_departments_other:
  assumes "w \<noteq> u"
  shows "store_getPrincipal (snd (replaceUserDepartments u ds db)) w = store_getPrincipal db w"
  unfolding replaceUserDepartments_def Let_def
  by (rule transaction_principal, rule principal_cong) (simp_all add: replace_rows_other [OF assms])

text \<open>The permissions of a role that is deleted do not matter.\<close>

lemma replace_rows_key: "r' \<noteq> r \<Longrightarrow> filter (\<lambda>(q, k). q = r' \<and> P k) (replace_rows r ks rows) = filter (\<lambda>(q, k). q = r' \<and> P k) rows"
  by (rule replace_rows_other)

lemma deleted_role_permissions:
  assumes "\<not> active_role db r"
  shows "store_getPrincipal (db\<lparr>db_role_permissions := replace_rows r ks (db_role_permissions db)\<rparr>) w = store_getPrincipal db w"
proof -
  let ?db = "db\<lparr>db_role_permissions := replace_rows r ks (db_role_permissions db)\<rparr>"
  have act: "active_department ?db = active_department db" "active_role ?db = active_role db"
    by (simp_all add: active_department_def active_role_def fun_eq_iff)
  have "climb n ?db i = climb n db i" for n i
    by (induction n arbitrary: i) (simp_all add: climb.simps [of _ ?db] climb.simps [of _ db] act split: option.splits)
  then have tree: "dept_tree ?db = dept_tree db" by (simp add: dept_tree_def fun_eq_iff)
  have roles: "roles_of ?db w = roles_of db w" unfolding roles_of_def departments_of_def tree by simp
  have "(if active_role db q then map snd (filter (\<lambda>(q', k). q' = q \<and> k \<in> set (db_permissions db)) (replace_rows r ks (db_role_permissions db))) else []) =
      (if active_role db q then map snd (filter (\<lambda>(q', k). q' = q \<and> k \<in> set (db_permissions db)) (db_role_permissions db)) else [])" for q
    using assms replace_rows_key [of q r "\<lambda>k. k \<in> set (db_permissions db)" ks] by (cases "q = r") auto
  note Q = this
  have P: "db_permissions ?db = db_permissions db" "db_role_permissions ?db = replace_rows r ks (db_role_permissions db)" by simp_all
  have "getEffectivePermissionKeys ?db w = getEffectivePermissionKeys db w"
    unfolding getEffectivePermissionKeys_def roles act P Q by (rule refl)
  then show ?thesis by (simp add: store_getPrincipal_def roles act)
qed

section \<open>Decisions\<close>

text \<open>An operation that fails changes nothing, or only what a deleted role would grant.\<close>

lemma transaction_error: "fst (transaction_of checked f db) \<noteq> None \<Longrightarrow> snd (transaction_of checked f db) = db"
  by (simp add: transaction_of_def Let_def split: if_splits)

lemma failed_operation:
  assumes "rbac_apply x db = (Some e, db')"
  shows "store_getPrincipal db' w = store_getPrincipal db w"
proof (cases x)
  case (ReplaceRolePermissions r ks)
  let ?f = "\<lambda>db. db\<lparr>db_role_permissions := replace_rows r ks (db_role_permissions db)\<rparr>"
  obtain e' db1 where t: "transaction_of True ?f db = (e', db1)" by force
  have same: "active_role (?f db) r = active_role db r" by (simp add: active_role_def)
  from t have "db1 = db \<or> db1 = ?f db" by (auto simp: transaction_of_def Let_def split: if_splits)
  moreover have "db' = db1" "e' = None \<longrightarrow> \<not> active_role db1 r"
    using assms ReplaceRolePermissions t by (auto simp: replaceRolePermissions_def split: option.splits if_splits)
  moreover have "e' \<noteq> None \<longrightarrow> db1 = db" using transaction_error [of True ?f db] t by auto
  ultimately show ?thesis using deleted_role_permissions [of db r ks w] same by (cases "e' = None") auto
qed (use assms in \<open>auto simp: createUser_def createDepartment_def updateDepartment_def deleteDepartment_def createRole_def updateRole_def
    deleteRole_def replaceUserRoles_def replaceUserDepartments_def replaceDepartmentRoles_def transaction_of_def Let_def
    split: if_splits option.splits\<close>)

lemma other_users:
  assumes "seedSystemRecords db = db" and "w \<noteq> u"
  shows "store_getPrincipal (snd (rbac_apply (BootstrapUser u) db)) w = store_getPrincipal db w"
    and "store_getPrincipal (snd (rbac_apply (CreateUser u ds rs) db)) w = store_getPrincipal db w"
    and "store_getPrincipal (snd (rbac_apply (ReplaceUserRoles u rs) db)) w = store_getPrincipal db w"
    and "store_getPrincipal (snd (rbac_apply (ReplaceUserDepartments u ds) db)) w = store_getPrincipal db w"
  using assms by (simp_all add: bootstrap_other create_user_other replace_roles_other replace_departments_other)

lemma administer_current:
  assumes "cache_current s" and "seedSystemRecords (sv_db s) = sv_db s"
  shows "cache_current (snd (administer x s))"
proof -
  obtain e db where a: "rbac_apply x (sv_db s) = (e, db)" by force
  show ?thesis
  proof (cases e)
    case None
    with a have E: "snd (administer x s) = invalidates x (s\<lparr>sv_db := db\<rparr>)" by (simp add: administer_def)
    have db: "db = snd (rbac_apply x (sv_db s))" using a by simp
    have current: "p = store_getPrincipal (sv_db s) w" if "om_get (sv_cache s) w = Some p" for w p
      using assms(1) that by (simp add: cache_current_def)
    have one: "cache_current (deleteByUser u (s\<lparr>sv_db := db\<rparr>))"
      if "\<And>w. w \<noteq> u \<Longrightarrow> store_getPrincipal db w = store_getPrincipal (sv_db s) w" for u
      using that current by (auto simp: cache_current_def deleteByUser_def split: if_splits)
    have all: "cache_current (invalidateAll (s\<lparr>sv_db := db\<rparr>))" by (simp add: cache_current_def invalidateAll_def)
    note other = other_users [OF assms(2)]
    show ?thesis unfolding E
    proof (cases x)
      case ReadSettings
      with db assms show "cache_current (invalidates x (s\<lparr>sv_db := db\<rparr>))" by (simp add: cache_current_def)
    qed (use all one other db in simp_all)
  next
    case (Some err)
    with a have f: "rbac_apply x (sv_db s) = (Some err, db)" by simp
    from assms(1) failed_operation [OF f] show ?thesis by (simp add: administer_def f cache_current_def)
  qed
qed

lemma principal_current: "cache_current s \<Longrightarrow> cache_current (snd (getPrincipal u s)) \<and> fst (getPrincipal u s) = store_getPrincipal (sv_db s) u"
  by (auto simp: cache_current_def getPrincipal_def Let_def split: option.split if_splits)

lemma serve_current:
  assumes "cache_current s" and "seedSystemRecords (sv_db s) = sv_db s"
  shows "cache_current (serve r s)"
proof (cases r)
  case (Decide u carried k)
  with principal_current [OF assms(1), of u] assms(1) show ?thesis by (auto simp: can_def Let_def split: prod.splits)
next
  case (Administer x)
  with administer_current [OF assms] show ?thesis by simp
next
  case (Sync u)
  with principal_current [OF administer_current [OF assms], of u "BootstrapUser u"] show ?thesis by (simp add: syncAuthenticatedUser_def)
qed

lemma states_current:
  "cache_current s \<Longrightarrow> list_all (\<lambda>s. seedSystemRecords (sv_db s) = sv_db s) (service_states rs s) \<Longrightarrow> cache_current (last (service_states rs s))"
proof (induction rs arbitrary: s)
  case (Cons r rs)
  moreover have "service_states rs (serve r s) \<noteq> []" by (cases rs) simp_all
  ultimately show ?case using serve_current [of s r] by simp
qed simp


section \<open>Examples\<close>

definition sample_service :: rbac_service where
  "sample_service = \<lparr>sv_db = sample_db, sv_cache = [], sv_loads = []\<rparr>"


text \<open>
  A load that is under way when the role is revoked puts the old principal back into the cache behind the invalidation. No
  later request removes it: the user keeps the permission until something else invalidates the cache.
\<close>

lemma revoked_permission_stays_cached:
  "let s1 = snd (load_starts ''b'' sample_service);
       s2 = snd (administer (ReplaceUserRoles ''b'' []) s1);
       s3 = load_returns 0 s2
   in getEffectivePermissionKeys (sv_db s3) ''b'' = [] \<and> requireAdmin ''b'' None s3 = (True, s3)"
proof -
  have "let s1 = snd (load_starts ''b'' sample_service); s2 = snd (administer (ReplaceUserRoles ''b'' []) s1); s3 = load_returns 0 s2
     in getEffectivePermissionKeys (sv_db s3) ''b'' = [] \<and> om_get (sv_cache s3) ''b'' =
       Some \<lparr>pr_roles = [''r''], pr_permissions = [''admin:access''], pr_departments = []\<rparr>" by code_simp
  then show ?thesis by (simp add: Let_def requireAdmin_def can_def getPrincipal_def RBAC_ADMIN_PERMISSION_def)
qed

text \<open>When the system records are not in place, signing in changes the permissions of others, whose cached principals stay.\<close>

lemma sign_in_changes_others:
  "let s1 = snd (administer (ReplaceRolePermissions RBAC_SYSTEM_ADMIN_ROLE_ID []) sample_service);
       s2 = serve (Decide ''a'' None RBAC_ADMIN_PERMISSION) s1;
       s3 = serve (Sync ''b'') s2
   in getEffectivePermissionKeys (sv_db s3) ''a'' = [RBAC_ADMIN_PERMISSION] \<and> \<not> fst (requireAdmin ''a'' None s3)"
  by code_simp

end
