(* ===== verification/Pi_Launcher.thy ===== *)
theory Pi_Launcher
  imports Session_Phases
begin

text \<open>
  The launcher of native Pi processes (web/server/pi-launcher.ts) as far as the life of one session goes: the generations, the
  runtime that is registered, the information about the session, and what a launch, a kill and the exit of a child make of
  them. Sessions do not share state, so one is enough.

  A launch and a kill are cut where the code awaits something. Children are numbered in the order they are spawned; the
  information a launch creates is an object of its own, which carries the number of its child, and 0 when it is restored.
  Preparing directories, settings, arguments and the sandbox is left out: it makes a launch fail or go on.
\<close>

section \<open>State\<close>

datatype pi_process_state = PiStarting | PiReady | PiRunning | PiExited

record session_info =
  si_child :: nat
  si_state :: pi_process_state
  si_generation :: int
  si_archived :: bool

record active_runtime =
  rt_child :: nat
  rt_generation :: int
  rt_terminating :: bool

datatype kill_phase = Aborting | Waiting

text \<open>\<open>la_alive\<close> are the children that run, \<open>la_spawned\<close> the generations of all children so far, the last first.\<close>

record launcher =
  la_info :: "session_info option"
  la_runtime :: "active_runtime option"
  la_kills :: "(nat, int \<times> kill_phase) omap"
  la_generation :: int
  la_shuttingDown :: bool
  la_alive :: "nat list"
  la_spawned :: "int list"

definition new_launcher :: launcher where
  "new_launcher = \<lparr>la_info = None, la_runtime = None, la_kills = [], la_generation = 0, la_shuttingDown = False,
     la_alive = [], la_spawned = []\<rparr>"

definition update_info :: "nat \<Rightarrow> (session_info \<Rightarrow> session_info) \<Rightarrow> launcher \<Rightarrow> launcher" where
  "update_info c f la = la\<lparr>la_info := map_option (\<lambda>i. if si_child i = c then f i else i) (la_info la)\<rparr>"

abbreviation "in_state st i \<equiv> i\<lparr>si_state := st\<rparr>"

section \<open>Launching\<close>

datatype launch_error = LauncherShuttingDown | ActiveRuntime

definition nextLaunchGeneration :: "launcher \<Rightarrow> int" where
  "nextLaunchGeneration la = la_generation la + 1"

definition launch_begins :: "launcher \<Rightarrow> launch_error + int \<times> launcher" where
  "launch_begins la =
     (if la_shuttingDown la then Inl LauncherShuttingDown
      else if la_runtime la \<noteq> None then Inl ActiveRuntime
      else Inr (la_generation la + 1, la\<lparr>la_generation := la_generation la + 1\<rparr>))"

definition launch_spawns :: "int \<Rightarrow> launcher \<Rightarrow> nat \<times> launcher" where
  "launch_spawns g la =
     (let c = length (la_spawned la) + 1 in
      (c, la\<lparr>la_info := Some \<lparr>si_child = c, si_state = PiStarting, si_generation = g, si_archived = False\<rparr>,
             la_alive := c # la_alive la, la_spawned := g # la_spawned la\<rparr>))"

definition launch_published :: "nat \<Rightarrow> int \<Rightarrow> launcher \<Rightarrow> launcher" where
  "launch_published c g la =
     update_info c (in_state PiReady) (la\<lparr>la_runtime := Some \<lparr>rt_child = c, rt_generation = g, rt_terminating = False\<rparr>\<rparr>)"

definition launch_consumed :: "nat \<Rightarrow> launcher \<Rightarrow> launcher" where
  "launch_consumed c la = update_info c (in_state PiRunning) la"

text \<open>\<open>finalizeRuntime\<close> with the information of the launch, and with what is registered for the session.\<close>

definition drop_runtime :: "nat \<Rightarrow> launcher \<Rightarrow> launcher" where
  "drop_runtime c la = (case la_runtime la of Some rt \<Rightarrow> if rt_child rt = c then la\<lparr>la_runtime := None\<rparr> else la | None \<Rightarrow> la)"

definition finalizeRuntime :: "nat \<Rightarrow> launcher \<Rightarrow> launcher" where
  "finalizeRuntime c la = update_info c (in_state PiExited) (drop_runtime c la)"

definition finalize_registered :: "nat \<Rightarrow> launcher \<Rightarrow> launcher" where
  "finalize_registered c la = (drop_runtime c la)\<lparr>la_info := map_option (in_state PiExited) (la_info la)\<rparr>"

text \<open>A launch that fails behind the publication marks its runtime; then it kills the child and waits.\<close>

definition mark_failed :: "nat \<Rightarrow> int \<Rightarrow> launcher \<Rightarrow> launcher" where
  "mark_failed c g la = la\<lparr>
     la_runtime := map_option (\<lambda>rt. if rt_child rt = c then rt\<lparr>rt_terminating := True\<rparr> else rt) (la_runtime la),
     la_generation := max (la_generation la) (g + 1)\<rparr>"

definition launch_failed :: "bool \<Rightarrow> nat \<Rightarrow> int \<Rightarrow> launcher \<Rightarrow> launcher" where
  "launch_failed published c g la =
     (let exited = c \<notin> set (la_alive la) in
      if published then (if exited then finalizeRuntime c la else la)
      else if exited then (if la_generation la = g then update_info c (in_state PiExited) la else la)
      else la\<lparr>la_runtime := Some \<lparr>rt_child = c, rt_generation = g, rt_terminating = True\<rparr>,
              la_generation := max (la_generation la) (g + 1)\<rparr>)"

section \<open>Killing and exits\<close>

text \<open>
  The result at once, or the child whose termination the caller waits for. The terminations under way are kept by child, with the
  generation of the runtime: a second caller shares the first.
\<close>

definition kill_begins :: "launcher \<Rightarrow> (bool + nat) \<times> launcher" where
  "kill_begins la =
     (case la_runtime la of
        None \<Rightarrow> (Inl (case la_info la of None \<Rightarrow> True | Some i \<Rightarrow> si_state i = PiExited), la)
      | Some rt \<Rightarrow>
          (Inr (rt_child rt),
           if om_has (la_kills la) (rt_child rt) then la
           else if rt_terminating rt then la\<lparr>la_kills := om_set (la_kills la) (rt_child rt) (rt_generation rt, Waiting)\<rparr>
           else la\<lparr>la_runtime := Some (rt\<lparr>rt_terminating := True\<rparr>),
                   la_kills := om_set (la_kills la) (rt_child rt) (rt_generation rt, Aborting)\<rparr>))"

text \<open>The wait for the exit is over, because the child has exited or in vain: the result, when there is a wait.\<close>

definition kill_ends :: "nat \<Rightarrow> launcher \<Rightarrow> bool option \<times> launcher" where
  "kill_ends c la =
     (case om_get (la_kills la) c of
        Some (g, Waiting) \<Rightarrow>
          (let la1 = la\<lparr>la_kills := om_delete (la_kills la) c\<rparr> in
           if c \<in> set (la_alive la) then (Some False, la1) else (Some True, finalize_registered c la1))
      | _ \<Rightarrow> (None, la))"

text \<open>The abort that precedes the signals has ended.\<close>

definition kill_signals :: "nat \<Rightarrow> launcher \<Rightarrow> bool option \<times> launcher" where
  "kill_signals c la =
     (case om_get (la_kills la) c of
        Some (g, Aborting) \<Rightarrow>
          (let la1 = la\<lparr>la_kills := om_set (la_kills la) c (g, Waiting), la_generation := max (la_generation la) (g + 1)\<rparr>
           in if c \<in> set (la_alive la) then (None, la1) else kill_ends c la1)
      | _ \<Rightarrow> (None, la))"

text \<open>
  A child exits: the generation whose exit is reported, and the result of a termination that waits for it. Only a child
  whose runtime is registered has a listener that reports it.
\<close>

definition child_exits :: "nat \<Rightarrow> launcher \<Rightarrow> int option \<times> bool option \<times> launcher" where
  "child_exits c la =
     (let la1 = la\<lparr>la_alive := removeAll c (la_alive la)\<rparr>;
          (report, la2) = (case la_runtime la1 of
             Some rt \<Rightarrow> if rt_child rt = c then (Some (rt_generation rt), finalizeRuntime c la1) else (None, la1)
           | None \<Rightarrow> (None, la1));
          (result, la3) = kill_ends c la2
      in (report, result, la3))"

section \<open>The registered information\<close>

definition is_alive :: "launcher \<Rightarrow> bool" where
  "is_alive la \<longleftrightarrow> la_runtime la \<noteq> None"

definition has_transport :: "launcher \<Rightarrow> bool" where
  "has_transport la \<longleftrightarrow> (case la_runtime la of Some rt \<Rightarrow> \<not> rt_terminating rt | None \<Rightarrow> False)"

definition validateLaunchGeneration :: "launcher \<Rightarrow> int \<Rightarrow> bool" where
  "validateLaunchGeneration la g \<longleftrightarrow>
     safe_int g \<and> g > 0 \<and> (case la_runtime la of Some rt \<Rightarrow> \<not> rt_terminating rt \<and> rt_generation rt = g | None \<Rightarrow> False)"

definition restoreSession :: "bool \<Rightarrow> int \<Rightarrow> launcher \<Rightarrow> launcher" where
  "restoreSession archived generation la =
     (if la_runtime la \<noteq> None \<or> la_info la \<noteq> None then la
      else la\<lparr>la_generation := max 0 generation,
        la_info := Some \<lparr>si_child = 0, si_state = PiExited, si_generation = max 0 generation, si_archived = archived\<rparr>\<rparr>)"

definition launcher_setArchived :: "bool \<Rightarrow> launcher \<Rightarrow> launcher" where
  "launcher_setArchived archived la = la\<lparr>la_info := map_option (\<lambda>i. i\<lparr>si_archived := archived\<rparr>) (la_info la)\<rparr>"

definition removeSession :: "launcher \<Rightarrow> launcher option" where
  "removeSession la = (if la_runtime la \<noteq> None then None else Some (la\<lparr>la_info := None, la_generation := 0\<rparr>))"

lemmas launcher_defs = update_info_def launch_published_def launch_consumed_def drop_runtime_def
  finalizeRuntime_def finalize_registered_def mark_failed_def launch_failed_def

end
