(* ===== verification/Session_Orchestrator.thy ===== *)
theory Session_Orchestrator
  imports Pi_Launcher
begin

text \<open>
  The orchestrator of sessions (web/server/session-orchestrator.ts) for one session, together with the launcher, the archived
  flag in session.json, the runtime state registry and the adapter that is attached to the browser bridge.

  Launches and kills run one after the other in a queue (\<open>serialize\<close>); each is a stage between two awaits. What archiving and
  deleting do behind their kill is not in the queue and may come at any time: these are the continuations. An event is
  a request, the end of what the running operation awaits, a continuation, or something the child or its transport
  does. Progress, metrics, names and the index of runtimes in the database are left out, and so is the clock.
\<close>

section \<open>State\<close>

datatype after_kill = No_More | Then_Archive | Then_Delete
datatype session_op = Create_Session | Relaunch_Session | Activate_Session | Kill_Session after_kill

text \<open>Where the operation at the head of the queue waits. The number is the generation; then comes the child.\<close>

datatype op_stage =
    Not_Started
  | Relaunch_Kill nat
  | Relaunch_Killed
  | Index_Preparing int
  | Build_Options int
  | Index_Starting int
  | Launch_Prepare int int
  | Launch_Readiness int nat
  | Launch_Consume int nat bool
  | Launch_Failing int nat bool
  | Index_Connecting int
  | Index_Ready int
  | Launch_Finish int
  | Kill_Index int int
  | Kill_Wait int int nat
  | Kill_Hook int int bool
  | Kill_Stopped int int
  | Kill_Cleanup

datatype continuation = Archive_Next bool | Delete_Cleaned | Delete_Named
datatype verdict = Returned bool | Threw
datatype log_entry = Finished session_op verdict | Activated | Archived bool | Deleted bool

record orchestrator =
  ow_id :: string
  ow_launcher :: launcher
  ow_persisted :: "bool option"
  ow_states :: runtime_registry
  ow_intentional :: bool
  ow_adapter :: "int option"
  ow_queue :: "session_op list"
  ow_stage :: op_stage
  ow_later :: "continuation list"
  ow_shuttingDown :: bool
  ow_log :: "log_entry list"

section \<open>Small steps of the source\<close>

definition begin_in :: "int \<Rightarrow> begin_state \<Rightarrow> string \<Rightarrow> orchestrator \<Rightarrow> orchestrator" where
  "begin_in g st reason w = w\<lparr>ow_states := snd (registry_begin (ow_states w) (ow_id w) g st reason 0)\<rparr>"

definition to_state :: "int \<Rightarrow> runtime_state \<Rightarrow> string \<Rightarrow> orchestrator \<Rightarrow> orchestrator" where
  "to_state g st reason w = w\<lparr>ow_states := snd (registry_transition (ow_states w) (ow_id w) g st reason 0)\<rparr>"

definition detachPiAdapter :: "int \<Rightarrow> orchestrator \<Rightarrow> orchestrator" where
  "detachPiAdapter g w = (if ow_adapter w = Some g then w\<lparr>ow_adapter := None\<rparr> else w)"

definition logged :: "log_entry \<Rightarrow> orchestrator \<Rightarrow> orchestrator" where
  "logged e w = w\<lparr>ow_log := ow_log w @ [e]\<rparr>"

definition go_on :: "op_stage \<Rightarrow> orchestrator \<Rightarrow> orchestrator" where
  "go_on st w = w\<lparr>ow_stage := st\<rparr>"

text \<open>
  The operation at the head of the queue is over; the next one may start. A creation that fails removes what it has stored.
\<close>

definition failed_creation :: "orchestrator \<Rightarrow> orchestrator" where
  "failed_creation w = w\<lparr>ow_states := snd (registry_remove (ow_states w) (ow_id w)), ow_persisted := None\<rparr>"

fun followed_by :: "session_op \<Rightarrow> verdict \<Rightarrow> orchestrator \<Rightarrow> orchestrator" where
  "followed_by Create_Session v w = (if v = Returned True then w else failed_creation w)"
| "followed_by (Kill_Session Then_Archive) v w =
     (case v of Threw \<Rightarrow> w | Returned ok \<Rightarrow> w\<lparr>ow_later := ow_later w @ [Archive_Next ok]\<rparr>)"
| "followed_by (Kill_Session Then_Delete) v w =
     (if v = Returned True then w\<lparr>ow_later := ow_later w @ [Delete_Cleaned]\<rparr>
      else if v = Returned False then logged (Deleted False) w else w)"
| "followed_by _ _ w = w"

definition finish_op :: "verdict \<Rightarrow> orchestrator \<Rightarrow> orchestrator" where
  "finish_op v w =
     (case ow_queue w of
        [] \<Rightarrow> w
      | x # q \<Rightarrow> followed_by x v (logged (Finished x v) (w\<lparr>ow_queue := q, ow_stage := Not_Started\<rparr>)))"

section \<open>Starting an operation\<close>

definition launchSession :: "orchestrator \<Rightarrow> orchestrator" where
  "launchSession w =
     (if ow_shuttingDown w then finish_op Threw w
      else go_on (Index_Preparing (nextLaunchGeneration (ow_launcher w))) w)"

text \<open>The launcher's kill is asked for: \<open>r\<close> says what to do with a result that is there at once.\<close>

definition ask_kill :: "(bool \<Rightarrow> orchestrator \<Rightarrow> orchestrator) \<Rightarrow> (nat \<Rightarrow> op_stage) \<Rightarrow> orchestrator \<Rightarrow> orchestrator" where
  "ask_kill r waits w =
     (case kill_begins (ow_launcher w) of
        (Inl ok, la) \<Rightarrow> r ok (w\<lparr>ow_launcher := la\<rparr>)
      | (Inr c, la) \<Rightarrow> go_on (waits c) (w\<lparr>ow_launcher := la\<rparr>))"

fun start_op :: "session_op \<Rightarrow> orchestrator \<Rightarrow> orchestrator" where
  "start_op Create_Session w = launchSession w"
| "start_op Activate_Session w = (if ow_persisted w = None then finish_op Threw w else launchSession w)"
| "start_op Relaunch_Session w =
     (if ow_persisted w \<noteq> Some False then finish_op Threw w
      else ask_kill (\<lambda>_. go_on Relaunch_Killed) Relaunch_Kill w)"
| "start_op (Kill_Session a) w =
     (case la_info (ow_launcher w) of
        None \<Rightarrow> go_on Kill_Cleanup w
      | Some i \<Rightarrow>
          if si_state i = PiExited then go_on Kill_Cleanup w
          else (let g = max (si_generation i + 1) (generation_of (ow_states w) (ow_id w) + 1)
                in go_on (Kill_Index g (si_generation i)) (begin_in g BeginStopping ''kill_requested'' w)))"

definition start_next :: "orchestrator \<Rightarrow> orchestrator" where
  "start_next w = (case ow_queue w of x # _ \<Rightarrow> if ow_stage w = Not_Started then start_op x w else w | [] \<Rightarrow> w)"

section \<open>What is awaited ends\<close>

text \<open>True when it succeeds. Where the code only waits, nothing depends on it.\<close>

fun resume :: "bool \<Rightarrow> op_stage \<Rightarrow> orchestrator \<Rightarrow> orchestrator" where
  "resume ok Relaunch_Killed w = launchSession w"
| "resume ok (Index_Preparing g) w = go_on (Build_Options g) (begin_in g BeginPreparing ''launch_requested'' w)"
| "resume ok (Build_Options g) w =
     (if ok then go_on (Index_Starting g) (to_state g RtStarting ''srt_spawn_requested'' w) else finish_op Threw w)"
| "resume ok (Index_Starting g) w =
     (case launch_begins (ow_launcher w) of
        Inl _ \<Rightarrow> finish_op Threw w
      | Inr (lg, la) \<Rightarrow> go_on (Launch_Prepare g lg) (w\<lparr>ow_launcher := la\<rparr>))"
| "resume ok (Launch_Prepare g lg) w =
     (if ok \<and> g = lg
      then (let (c, la) = launch_spawns lg (ow_launcher w) in go_on (Launch_Readiness g c) (w\<lparr>ow_launcher := la\<rparr>))
      else finish_op Threw w)"
| "resume ok (Launch_Readiness g c) w =
     (if ok \<and> c \<in> set (la_alive (ow_launcher w))
      then go_on (Launch_Consume g c False) (w\<lparr>ow_launcher := launch_published c g (ow_launcher w)\<rparr>)
      else go_on (Launch_Failing g c False) w)"
| "resume ok (Launch_Consume g c broken) w =
     (if ok \<and> \<not> broken
      then go_on (Index_Connecting g) (to_state g Connecting ''pi_rpc_connected'' (w\<lparr>ow_launcher := launch_consumed c (ow_launcher w)\<rparr>))
      else go_on (Launch_Failing g c True) (w\<lparr>ow_launcher := mark_failed c g (ow_launcher w)\<rparr>))"
| "resume ok (Launch_Failing g c published) w =
     finish_op Threw (w\<lparr>ow_launcher := launch_failed published c g (ow_launcher w)\<rparr>)"
| "resume ok (Index_Connecting g) w =
     (if has_transport (ow_launcher w)
      then go_on (Index_Ready g) (to_state g RtReady ''pi_readiness_complete'' (w\<lparr>ow_adapter := Some g\<rparr>))
      else finish_op Threw w)"
| "resume ok (Index_Ready g) w = go_on (Launch_Finish g) (w\<lparr>ow_intentional := False\<rparr>)"
| "resume ok (Launch_Finish g) w = finish_op (if ok then Returned True else Threw) w"
| "resume ok (Kill_Index g old) w =
     ask_kill (\<lambda>r. go_on (Kill_Hook g old r)) (Kill_Wait g old) (w\<lparr>ow_intentional := True\<rparr>)"
| "resume ok (Kill_Hook g old killed) w =
     (if \<not> ok then finish_op Threw w
      else if \<not> killed then finish_op (Returned False) w
      else go_on (Kill_Stopped g old) (to_state g Stopped ''kill_complete'' w))"
| "resume ok (Kill_Stopped g old) w = finish_op (Returned True) (detachPiAdapter old w)"
| "resume ok Kill_Cleanup w = finish_op (Returned False) w"
| "resume ok _ w = w"

text \<open>A kill of the launcher has a result: the operation that waits for that child gets it.\<close>

definition kill_result :: "nat \<Rightarrow> bool option \<Rightarrow> orchestrator \<Rightarrow> orchestrator" where
  "kill_result c result w =
     (case result of
        None \<Rightarrow> w
      | Some r \<Rightarrow>
          (case ow_stage w of
             Relaunch_Kill d \<Rightarrow> if d = c then go_on Relaunch_Killed w else w
           | Kill_Wait g old d \<Rightarrow> if d = c then go_on (Kill_Hook g old r) w else w
           | _ \<Rightarrow> w))"

text \<open>\<open>onExit\<close> of the launch options, with the generation of the launch.\<close>

definition onExit :: "int \<Rightarrow> orchestrator \<Rightarrow> orchestrator" where
  "onExit g w =
     (if ow_intentional w then to_state g Stopped ''intentional_stop'' (detachPiAdapter g w)
      else to_state g Failed ''pi_process_exit'' (detachPiAdapter g w))"

section \<open>Continuations\<close>

definition continue_with :: "continuation \<Rightarrow> orchestrator \<Rightarrow> orchestrator" where
  "continue_with k w =
     (case k of
        Archive_Next ok \<Rightarrow>
          if (case la_info (ow_launcher w) of Some i \<Rightarrow> si_state i \<noteq> PiExited \<and> \<not> ok | None \<Rightarrow> False)
          then logged (Archived False) w
          else (let w1 = w\<lparr>ow_launcher := launcher_setArchived True (ow_launcher w)\<rparr> in
                if ow_persisted w1 = None then logged (Archived False) w1 else logged (Archived True) (w1\<lparr>ow_persisted := Some True\<rparr>))
      | Delete_Cleaned \<Rightarrow>
          (case removeSession (ow_launcher w) of
             None \<Rightarrow> w
           | Some la \<Rightarrow> w\<lparr>ow_launcher := la, ow_adapter := None, ow_persisted := None, ow_later := ow_later w @ [Delete_Named]\<rparr>)
      | Delete_Named \<Rightarrow>
          logged (Deleted True) (w\<lparr>ow_states := snd (registry_remove (ow_states w) (ow_id w)), ow_intentional := False\<rparr>))"

section \<open>Events\<close>

datatype session_event =
    Request_Create
  | Request_Relaunch
  | Request_Activate
  | Request_Kill
  | Request_Archive
  | Request_Unarchive
  | Request_Delete
  | Start_Next
  | Awaited bool
  | Continue nat
  | Child_Exits nat
  | Kill_Signals nat
  | Kill_Times_Out nat
  | Transport_Fails
  | Shutdown

definition enqueue :: "session_op \<Rightarrow> orchestrator \<Rightarrow> orchestrator" where
  "enqueue x w = w\<lparr>ow_queue := ow_queue w @ [x]\<rparr>"

definition activateSession :: "orchestrator \<Rightarrow> orchestrator" where
  "activateSession w =
     (case la_info (ow_launcher w) of
        None \<Rightarrow> w
      | Some i \<Rightarrow>
          if si_archived i then w
          else if is_alive (ow_launcher w) \<and> si_state i \<noteq> PiExited then logged Activated w
          else enqueue Activate_Session w)"

definition hardDeleteSession :: "orchestrator \<Rightarrow> orchestrator" where
  "hardDeleteSession w =
     (if (case la_info (ow_launcher w) of Some i \<Rightarrow> si_state i \<noteq> PiExited | None \<Rightarrow> False)
      then enqueue (Kill_Session Then_Delete) w
      else w\<lparr>ow_later := ow_later w @ [Delete_Cleaned]\<rparr>)"

fun orchestrator_step :: "session_event \<Rightarrow> orchestrator \<Rightarrow> orchestrator" where
  "orchestrator_step Request_Create w = enqueue Create_Session (w\<lparr>ow_persisted := Some False\<rparr>)"
| "orchestrator_step Request_Relaunch w = enqueue Relaunch_Session w"
| "orchestrator_step Request_Activate w = activateSession w"
| "orchestrator_step Request_Kill w = enqueue (Kill_Session No_More) w"
| "orchestrator_step Request_Archive w = enqueue (Kill_Session Then_Archive) w"
| "orchestrator_step Request_Unarchive w =
     w\<lparr>ow_launcher := launcher_setArchived False (ow_launcher w), ow_persisted := map_option (\<lambda>_. False) (ow_persisted w)\<rparr>"
| "orchestrator_step Request_Delete w = hardDeleteSession w"
| "orchestrator_step Start_Next w = start_next w"
| "orchestrator_step (Awaited ok) w = resume ok (ow_stage w) w"
| "orchestrator_step (Continue n) w =
     (if n < length (ow_later w)
      then continue_with (ow_later w ! n) (w\<lparr>ow_later := take n (ow_later w) @ drop (n + 1) (ow_later w)\<rparr>) else w)"
| "orchestrator_step (Child_Exits c) w =
     (if c \<notin> set (la_alive (ow_launcher w)) then w
      else (case child_exits c (ow_launcher w) of (report, result, la) \<Rightarrow>
        kill_result c result ((case report of None \<Rightarrow> id | Some g \<Rightarrow> onExit g) (w\<lparr>ow_launcher := la\<rparr>))))"
| "orchestrator_step (Kill_Signals c) w =
     (case kill_signals c (ow_launcher w) of (result, la) \<Rightarrow> kill_result c result (w\<lparr>ow_launcher := la\<rparr>))"
| "orchestrator_step (Kill_Times_Out c) w =
     (case kill_ends c (ow_launcher w) of (result, la) \<Rightarrow> kill_result c result (w\<lparr>ow_launcher := la\<rparr>))"
| "orchestrator_step Transport_Fails w =
     (if has_transport (ow_launcher w)
      then (let w1 = w\<lparr>ow_launcher := snd (kill_begins (ow_launcher w))\<rparr> in
            case ow_stage w1 of Launch_Consume g c _ \<Rightarrow> go_on (Launch_Consume g c True) w1 | _ \<Rightarrow> w1)
      else w)"
| "orchestrator_step Shutdown w = w\<lparr>ow_shuttingDown := True\<rparr>"

definition orchestrator_run :: "session_event list \<Rightarrow> orchestrator \<Rightarrow> orchestrator" where
  "orchestrator_run es w = fold orchestrator_step es w"

text \<open>A session that does not exist yet, and one that is restored by \<open>initialize\<close>.\<close>

definition new_session :: "string \<Rightarrow> orchestrator" where
  "new_session sid = \<lparr>ow_id = sid, ow_launcher = new_launcher, ow_persisted = None, ow_states = [], ow_intentional = False,
     ow_adapter = None, ow_queue = [], ow_stage = Not_Started, ow_later = [], ow_shuttingDown = False, ow_log = []\<rparr>"

definition restored_session :: "string \<Rightarrow> bool \<Rightarrow> orchestrator" where
  "restored_session sid archived = (new_session sid)\<lparr>ow_launcher := restoreSession archived 0 new_launcher, ow_persisted := Some archived,
     ow_states := om_set [] sid (new_runtime_machine sid (Some Stopped) (Some 0) (Some ''restored_from_pi_authority'') 0)\<rparr>"

end
