(* ===== verification/Session_Lifecycle.thy ===== *)
theory Session_Lifecycle
  imports Session_Orchestrator
begin

text \<open>
  What the orchestrator and the launcher guarantee together, in every order of events: at most one process per session, a
  new generation for every process, and no process behind a kill that has succeeded. The examples at the end show what
  is not guaranteed, because archiving and deleting go on outside of the queue and because results are ignored.
\<close>

section \<open>Who owns the living child\<close>

fun kill_op :: "session_op \<Rightarrow> bool" where
  "kill_op (Kill_Session _) \<longleftrightarrow> True"
| "kill_op _ \<longleftrightarrow> False"

fun kill_stage :: "op_stage \<Rightarrow> bool" where
  "kill_stage (Kill_Index _ _) \<longleftrightarrow> True"
| "kill_stage (Kill_Wait _ _ _) \<longleftrightarrow> True"
| "kill_stage (Kill_Hook _ _ _) \<longleftrightarrow> True"
| "kill_stage (Kill_Stopped _ _) \<longleftrightarrow> True"
| "kill_stage Kill_Cleanup \<longleftrightarrow> True"
| "kill_stage _ \<longleftrightarrow> False"

definition queue_ok :: "op_stage \<Rightarrow> session_op list \<Rightarrow> bool" where
  "queue_ok st q \<longleftrightarrow> st = Not_Started \<or> (q \<noteq> [] \<and> (kill_op (hd q) \<longleftrightarrow> kill_stage st))"

text \<open>The child a stage may have started and not yet published.\<close>

fun unpublished :: "op_stage \<Rightarrow> nat set option" where
  "unpublished (Launch_Prepare _ _) = Some {}"
| "unpublished (Launch_Readiness _ c) = Some {c}"
| "unpublished (Launch_Failing _ c False) = Some {c}"
| "unpublished _ = None"

definition registered :: "active_runtime option \<Rightarrow> nat set" where
  "registered r = (case r of None \<Rightarrow> {} | Some rt \<Rightarrow> {rt_child rt})"

lemma registered_simps [simp]: "registered None = {}" "registered (Some rt) = {rt_child rt}"
  by (simp_all add: registered_def)

definition children_ok :: "op_stage \<Rightarrow> launcher \<Rightarrow> bool" where
  "children_ok st la \<longleftrightarrow> length (la_alive la) \<le> 1 \<and>
     (case unpublished st of
        Some cs \<Rightarrow> la_runtime la = None \<and> set (la_alive la) \<subseteq> cs
      | None \<Rightarrow> set (la_alive la) \<subseteq> registered (la_runtime la))"

text \<open>A kill that waits waits for the registered child; one that has succeeded leaves none.\<close>

fun kill_ok :: "op_stage \<Rightarrow> launcher \<Rightarrow> bool" where
  "kill_ok (Kill_Wait _ _ c) la \<longleftrightarrow> registered (la_runtime la) \<subseteq> {c}"
| "kill_ok (Kill_Hook _ _ r) la \<longleftrightarrow> (r \<longrightarrow> la_runtime la = None)"
| "kill_ok (Kill_Stopped _ _) la \<longleftrightarrow> la_runtime la = None"
| "kill_ok _ la \<longleftrightarrow> True"

definition session_ok :: "orchestrator \<Rightarrow> bool" where
  "session_ok w \<longleftrightarrow> queue_ok (ow_stage w) (ow_queue w) \<and> children_ok (ow_stage w) (ow_launcher w) \<and> kill_ok (ow_stage w) (ow_launcher w)"

section \<open>Operations of the launcher\<close>

lemma alive_simps [simp]:
  "la_alive (update_info c f la) = la_alive la" "la_runtime (update_info c f la) = la_runtime la"
  "la_alive (drop_runtime c la) = la_alive la"
  "la_alive (finalizeRuntime c la) = la_alive la" "la_alive (finalize_registered c la) = la_alive la"
  "la_alive (launch_published c g la) = la_alive la" "la_alive (launch_consumed c la) = la_alive la"
  "la_runtime (launch_consumed c la) = la_runtime la"
  "la_alive (mark_failed c g la) = la_alive la" "la_alive (launch_failed p c g la) = la_alive la"
  "la_alive (launcher_setArchived a la) = la_alive la" "la_runtime (launcher_setArchived a la) = la_runtime la"
  by (simp_all add: launcher_defs launcher_setArchived_def Let_def split: option.split)

lemma registered_drop: "registered (la_runtime (drop_runtime c la)) = registered (la_runtime la) - {c}"
  by (auto simp: drop_runtime_def split: option.split)

lemma registered_finalize [simp]:
  "registered (la_runtime (finalizeRuntime c la)) = registered (la_runtime la) - {c}"
  "registered (la_runtime (finalize_registered c la)) = registered (la_runtime la) - {c}"
  by (simp_all add: finalizeRuntime_def finalize_registered_def registered_drop)

lemma registered_empty: "registered r = {} \<longleftrightarrow> r = None"
  by (cases r) simp_all

lemma registered_mark [simp]: "registered (la_runtime (mark_failed c g la)) = registered (la_runtime la)"
  by (cases "la_runtime la") (simp_all add: mark_failed_def)

lemma kill_begins_keeps:
  "kill_begins la = (r, la') \<Longrightarrow> la_alive la' = la_alive la \<and> registered (la_runtime la') = registered (la_runtime la) \<and>
    (r = Inl True \<longrightarrow> la_runtime la' = None) \<and> (\<forall>c. r = Inr c \<longrightarrow> registered (la_runtime la) = {c})"
  by (auto simp: kill_begins_def split: option.splits if_splits)

lemma kill_ends_keeps:
  "kill_ends c la = (r, la') \<Longrightarrow> la_alive la' = la_alive la \<and>
    registered (la_runtime la') = registered (la_runtime la) - (if r = Some True then {c} else {}) \<and> (r = Some True \<longrightarrow> c \<notin> set (la_alive la))"
  by (auto simp: kill_ends_def Let_def split: option.splits kill_phase.splits if_splits)

lemma kill_signals_keeps:
  assumes "kill_signals c la = (r, la')"
  shows "la_alive la' = la_alive la \<and>
    registered (la_runtime la') = registered (la_runtime la) - (if r = Some True then {c} else {}) \<and> (r = Some True \<longrightarrow> c \<notin> set (la_alive la))"
proof (cases "\<exists>g. om_get (la_kills la) c = Some (g, Aborting) \<and> c \<notin> set (la_alive la)")
  case True
  then obtain g where g: "om_get (la_kills la) c = Some (g, Aborting)" "c \<notin> set (la_alive la)" by blast
  then have "kill_ends c (la\<lparr>la_kills := om_set (la_kills la) c (g, Waiting), la_generation := max (la_generation la) (g + 1)\<rparr>) = (r, la')"
    using assms by (simp add: kill_signals_def Let_def)
  from kill_ends_keeps [OF this] show ?thesis by simp
qed (use assms in \<open>auto simp: kill_signals_def Let_def split: option.splits kill_phase.splits if_splits\<close>)

lemma child_exits_keeps:
  assumes "child_exits c la = (report, r, la')"
  shows "la_alive la' = removeAll c (la_alive la) \<and> registered (la_runtime la') = registered (la_runtime la) - {c} \<and>
    (report \<noteq> None \<longrightarrow> registered (la_runtime la) = {c})"
proof -
  define la1 where "la1 = la\<lparr>la_alive := removeAll c (la_alive la)\<rparr>"
  define p where "p = (case la_runtime la1 of
             Some rt \<Rightarrow> if rt_child rt = c then (Some (rt_generation rt), finalizeRuntime c la1) else (None, la1)
           | None \<Rightarrow> (None, la1))"
  have p: "la_alive (snd p) = removeAll c (la_alive la)" "registered (la_runtime (snd p)) = registered (la_runtime la) - {c}"
    "fst p \<noteq> None \<longrightarrow> registered (la_runtime la) = {c}"
    by (auto simp: p_def la1_def split: option.splits)
  have "report = fst p" "kill_ends c (snd p) = (r, la')"
    using assms unfolding child_exits_def la1_def [symmetric] p_def [symmetric] Let_def by (auto split: prod.splits)
  with kill_ends_keeps [of c "snd p" r la'] p show ?thesis by (auto split: if_splits)
qed

section \<open>Steps\<close>

lemma small_simps [simp]:
  "ow_launcher (begin_in g b r w) = ow_launcher w" "ow_stage (begin_in g b r w) = ow_stage w" "ow_queue (begin_in g b r w) = ow_queue w"
  "ow_launcher (to_state g s r w) = ow_launcher w" "ow_stage (to_state g s r w) = ow_stage w" "ow_queue (to_state g s r w) = ow_queue w"
  "ow_launcher (detachPiAdapter g w) = ow_launcher w" "ow_stage (detachPiAdapter g w) = ow_stage w" "ow_queue (detachPiAdapter g w) = ow_queue w"
  "ow_launcher (logged e w) = ow_launcher w" "ow_stage (logged e w) = ow_stage w" "ow_queue (logged e w) = ow_queue w"
  "ow_launcher (go_on st w) = ow_launcher w" "ow_stage (go_on st w) = st" "ow_queue (go_on st w) = ow_queue w"
  "ow_launcher (onExit g w) = ow_launcher w" "ow_stage (onExit g w) = ow_stage w" "ow_queue (onExit g w) = ow_queue w"
  "ow_launcher (enqueue x w) = ow_launcher w" "ow_stage (enqueue x w) = ow_stage w" "ow_queue (enqueue x w) = ow_queue w @ [x]"
  by (simp_all add: begin_in_def to_state_def detachPiAdapter_def logged_def go_on_def onExit_def enqueue_def)

lemma followed_simps [simp]:
  "ow_launcher (followed_by x v w) = ow_launcher w" "ow_stage (followed_by x v w) = ow_stage w" "ow_queue (followed_by x v w) = ow_queue w"
  by (cases "(x, v, w)" rule: followed_by.cases; simp add: failed_creation_def split: verdict.split)+

lemma finish_simps [simp]:
  "ow_launcher (finish_op v w) = ow_launcher w"
  "ow_queue w \<noteq> [] \<Longrightarrow> ow_stage (finish_op v w) = Not_Started"
  by (cases "ow_queue w"; simp add: finish_op_def)+

lemma finish_ok:
  assumes "ow_queue w \<noteq> []" and "length (la_alive (ow_launcher w)) \<le> 1" and "set (la_alive (ow_launcher w)) \<subseteq> registered (la_runtime (ow_launcher w))"
  shows "session_ok (finish_op v w)"
  using assms by (simp add: session_ok_def queue_ok_def children_ok_def)

lemma queue_append: "queue_ok st q \<Longrightarrow> queue_ok st (q @ [x])"
  by (auto simp: queue_ok_def)

lemma enqueue_ok: "session_ok w \<Longrightarrow> session_ok (enqueue x w)"
  by (simp add: session_ok_def queue_append)

lemma launch_ok:
  assumes "ow_queue w \<noteq> []" and "\<not> kill_op (hd (ow_queue w))" and "length (la_alive (ow_launcher w)) \<le> 1"
    and "set (la_alive (ow_launcher w)) \<subseteq> registered (la_runtime (ow_launcher w))"
  shows "session_ok (launchSession w)"
proof (cases "ow_shuttingDown w")
  case True
  with finish_ok assms show ?thesis by (simp add: launchSession_def)
next
  case False
  with assms show ?thesis by (simp add: launchSession_def session_ok_def queue_ok_def children_ok_def)
qed

lemma not_started_ok:
  "session_ok w \<Longrightarrow> ow_stage w = Not_Started \<Longrightarrow> length (la_alive (ow_launcher w)) \<le> 1 \<and>
    set (la_alive (ow_launcher w)) \<subseteq> registered (la_runtime (ow_launcher w))"
  by (simp add: session_ok_def children_ok_def)

text \<open>A kill is asked for by a stage of its own or by a relaunch.\<close>

lemma ask_kill_ok:
  assumes "ow_queue w \<noteq> []" and "length (la_alive (ow_launcher w)) \<le> 1"
    and "set (la_alive (ow_launcher w)) \<subseteq> registered (la_runtime (ow_launcher w))"
    and now: "\<And>ok w'. ow_queue w' = ow_queue w \<Longrightarrow> length (la_alive (ow_launcher w')) \<le> 1 \<Longrightarrow>
      set (la_alive (ow_launcher w')) \<subseteq> registered (la_runtime (ow_launcher w')) \<Longrightarrow>
      (ok \<Longrightarrow> la_runtime (ow_launcher w') = None) \<Longrightarrow> session_ok (r ok w')"
    and later: "\<And>c. unpublished (st c) = None \<and> (kill_op (hd (ow_queue w)) \<longleftrightarrow> kill_stage (st c)) \<and>
      (\<forall>la. registered (la_runtime la) = {c} \<longrightarrow> kill_ok (st c) la)"
  shows "session_ok (ask_kill r st w)"
proof -
  obtain x la where k: "kill_begins (ow_launcher w) = (x, la)" by force
  note keeps = kill_begins_keeps [OF k]
  show ?thesis
  proof (cases x)
    case (Inl ok)
    have "session_ok (r ok (w\<lparr>ow_launcher := la\<rparr>))" by (rule now) (use assms(1,2,3) keeps Inl in simp_all)
    with Inl k show ?thesis by (simp add: ask_kill_def)
  next
    case (Inr c)
    with keeps later [of c] assms(1,2,3) show ?thesis by (simp add: ask_kill_def k session_ok_def queue_ok_def children_ok_def)
  qed
qed

lemma start_ok:
  assumes "session_ok w" and "ow_queue w = x # q" and "ow_stage w = Not_Started"
  shows "session_ok (start_op x w)"
proof -
  have alive: "length (la_alive (ow_launcher w)) \<le> 1" "set (la_alive (ow_launcher w)) \<subseteq> registered (la_runtime (ow_launcher w))"
    using not_started_ok [OF assms(1,3)] by simp_all
  show ?thesis
  proof (cases x)
    case (Kill_Session a)
    with alive assms show ?thesis
      by (auto simp: session_ok_def queue_ok_def children_ok_def Let_def split: option.split)
  next
    case Relaunch_Session
    have "session_ok (ask_kill (\<lambda>_. go_on Relaunch_Killed) Relaunch_Kill w)"
      by (rule ask_kill_ok) (use alive in \<open>simp_all add: assms(2) session_ok_def queue_ok_def children_ok_def Relaunch_Session\<close>)
    moreover have "session_ok (finish_op Threw w)" by (rule finish_ok) (use alive assms(2) in simp_all)
    ultimately show ?thesis using Relaunch_Session by simp
  qed (use alive assms in \<open>auto intro: launch_ok finish_ok\<close>)
qed

lemma start_next_ok: "session_ok w \<Longrightarrow> session_ok (start_next w)"
  using start_ok by (auto simp: start_next_def split: list.split)

lemma spawn_simps:
  "launch_spawns g la = (c, la') \<Longrightarrow> la_alive la' = c # la_alive la \<and> la_runtime la' = la_runtime la"
  by (auto simp: launch_spawns_def Let_def)

lemma launch_begins_Inr:
  "launch_begins la = Inr (lg, la') \<Longrightarrow> la_runtime la = None \<and> la_runtime la' = None \<and> la_alive la' = la_alive la \<and>
    lg = la_generation la + 1 \<and> la_generation la' = lg \<and> la_spawned la' = la_spawned la"
  by (auto simp: launch_begins_def split: if_splits)

lemma failed_registered:
  "registered (la_runtime (launch_failed p c g la)) =
     (if p then registered (la_runtime la) - (if c \<in> set (la_alive la) then {} else {c})
      else if c \<in> set (la_alive la) then {c} else registered (la_runtime la))"
  by (simp add: launch_failed_def Let_def)

lemma resume_ok:
  assumes "session_ok w"
  shows "session_ok (resume ok (ow_stage w) w)"
proof -
  have q: "ow_queue w \<noteq> []" "kill_op (hd (ow_queue w)) \<longleftrightarrow> kill_stage (ow_stage w)" if "ow_stage w \<noteq> Not_Started"
    using assms that by (simp_all add: session_ok_def queue_ok_def)
  have one: "length (la_alive (ow_launcher w)) \<le> 1" using assms by (simp add: session_ok_def children_ok_def)
  have free: "set (la_alive (ow_launcher w)) \<subseteq> registered (la_runtime (ow_launcher w))" if "unpublished (ow_stage w) = None"
    using assms that by (simp add: session_ok_def children_ok_def)
  have taken: "la_runtime (ow_launcher w) = None \<and> set (la_alive (ow_launcher w)) \<subseteq> cs" if "unpublished (ow_stage w) = Some cs" for cs
    using assms that by (simp add: session_ok_def children_ok_def)
  have kill: "kill_ok (ow_stage w) (ow_launcher w)" using assms by (simp add: session_ok_def)
  show ?thesis
  proof (cases "ow_stage w")
    case Relaunch_Killed
    with q one free show ?thesis by (auto intro: launch_ok)
  next
    case (Index_Preparing g)
    with q one free show ?thesis by (simp add: session_ok_def queue_ok_def children_ok_def)
  next
    case (Build_Options g)
    with q one free show ?thesis by (auto simp: session_ok_def queue_ok_def children_ok_def intro: finish_ok)
  next
    case (Index_Starting g)
    with q one free show ?thesis
      by (auto simp: session_ok_def [of "go_on _ _"] queue_ok_def children_ok_def intro!: finish_ok split: sum.split dest: launch_begins_Inr)
  next
    case (Launch_Prepare g lg)
    with taken [of "{}"] q one show ?thesis
      by (auto simp: session_ok_def [of "go_on _ _"] queue_ok_def children_ok_def intro!: finish_ok split: prod.split dest: spawn_simps)
  next
    case (Launch_Readiness g c)
    with taken [of "{c}"] q one show ?thesis
      by (simp add: session_ok_def queue_ok_def children_ok_def launch_published_def)
  next
    case (Launch_Consume g c broken)
    with free q one show ?thesis by (simp add: session_ok_def queue_ok_def children_ok_def)
  next
    case (Launch_Failing g c published)
    have "set (la_alive (ow_launcher w)) \<subseteq> registered (la_runtime (launch_failed published c g (ow_launcher w)))"
      using Launch_Failing taken [of "{c}"] free by (cases published) (auto simp: failed_registered subset_singleton_iff)
    with Launch_Failing q one show ?thesis by (auto intro!: finish_ok)
  next
    case (Index_Connecting g)
    with q one free show ?thesis by (auto simp: session_ok_def [of "go_on _ _"] queue_ok_def children_ok_def intro!: finish_ok)
  next
    case (Index_Ready g)
    with q one free show ?thesis by (simp add: session_ok_def queue_ok_def children_ok_def)
  next
    case (Launch_Finish g)
    with q one free show ?thesis by (auto intro!: finish_ok)
  next
    case (Kill_Index g old)
    then show ?thesis
      by simp (intro ask_kill_ok; use Kill_Index q one free in \<open>simp add: session_ok_def queue_ok_def children_ok_def\<close>)
  next
    case (Kill_Hook g old killed)
    with q one free kill show ?thesis by (auto simp: session_ok_def [of "go_on _ _"] queue_ok_def children_ok_def intro!: finish_ok)
  next
    case (Kill_Stopped g old)
    with q one free show ?thesis by (auto intro!: finish_ok)
  next
    case Kill_Cleanup
    with q one free show ?thesis by (auto intro!: finish_ok)
  qed (use assms in simp_all)
qed

lemma kill_result_ok:
  assumes "session_ok w" and "r = Some True \<longrightarrow> c \<notin> registered (la_runtime (ow_launcher w))"
  shows "session_ok (kill_result c r w)"
proof (cases r)
  case (Some ok)
  show ?thesis
  proof (cases "ow_stage w")
    case (Kill_Wait g old d)
    have "ok \<longrightarrow> d = c \<longrightarrow> la_runtime (ow_launcher w) = None"
      using assms Kill_Wait Some by (auto simp: session_ok_def registered_def split: option.splits)
    with assms(1) Some Kill_Wait show ?thesis by (auto simp: kill_result_def session_ok_def queue_ok_def children_ok_def)
  qed (use assms(1) Some in \<open>auto simp: kill_result_def session_ok_def queue_ok_def children_ok_def\<close>)
qed (use assms(1) in \<open>simp add: kill_result_def\<close>)

text \<open>Fewer children and fewer runtimes do no harm.\<close>

lemma launcher_shrinks:
  assumes "session_ok w" and "set (la_alive la) \<subseteq> set (la_alive (ow_launcher w))" and "length (la_alive la) \<le> length (la_alive (ow_launcher w))"
    and "registered (la_runtime la) \<subseteq> registered (la_runtime (ow_launcher w))"
    and "unpublished (ow_stage w) = None \<Longrightarrow> set (la_alive la) \<subseteq> registered (la_runtime la)"
  shows "session_ok (w\<lparr>ow_launcher := la\<rparr>)"
proof -
  have none: "la_runtime (ow_launcher w) = None \<Longrightarrow> la_runtime la = None" using assms(4) by (simp add: registered_empty)
  have "children_ok (ow_stage w) la" using assms none by (auto simp: session_ok_def children_ok_def split: option.splits)
  moreover have "kill_ok (ow_stage w) la" using assms(1,4) none by (cases "ow_stage w") (auto simp: session_ok_def)
  ultimately show ?thesis using assms(1) by (simp add: session_ok_def)
qed

lemma kill_ok_cong: "la_runtime la' = la_runtime la \<Longrightarrow> kill_ok st la' = kill_ok st la"
  by (cases st) simp_all

lemma children_ok_cong: "la_alive la' = la_alive la \<Longrightarrow> la_runtime la' = la_runtime la \<Longrightarrow> children_ok st la' = children_ok st la"
  unfolding children_ok_def by (simp cong: option.case_cong)

lemma same_ok:
  "session_ok w \<Longrightarrow> ow_stage w' = ow_stage w \<Longrightarrow> ow_queue w' = ow_queue w \<Longrightarrow>
    la_alive (ow_launcher w') = la_alive (ow_launcher w) \<Longrightarrow> la_runtime (ow_launcher w') = la_runtime (ow_launcher w) \<Longrightarrow> session_ok w'"
  using kill_ok_cong [of "ow_launcher w'" "ow_launcher w" "ow_stage w"] children_ok_cong [of "ow_launcher w'" "ow_launcher w" "ow_stage w"]
  by (simp add: session_ok_def)

lemma exit_ok: "session_ok w \<Longrightarrow> session_ok (onExit g w)"
  by (rule same_ok [of w]) simp_all

lemma continue_ok: "session_ok w \<Longrightarrow> session_ok (continue_with k w)"
  by (cases k) (auto simp: continue_with_def Let_def removeSession_def logged_def split: option.splits if_splits elim!: same_ok)

lemma child_exit_ok:
  assumes "session_ok w"
  shows "session_ok (orchestrator_step (Child_Exits c) w)"
proof (cases "c \<in> set (la_alive (ow_launcher w))")
  case True
  obtain report r la where e: "child_exits c (ow_launcher w) = (report, r, la)" by (cases "child_exits c (ow_launcher w)") auto
  note keeps = child_exits_keeps [OF e]
  have "session_ok (w\<lparr>ow_launcher := la\<rparr>)"
    by (rule launcher_shrinks [OF assms]) (use keeps assms in \<open>auto simp: session_ok_def children_ok_def length_removeAll_less_eq\<close>)
  then have "session_ok ((case report of None \<Rightarrow> id | Some g \<Rightarrow> onExit g) (w\<lparr>ow_launcher := la\<rparr>))"
    using exit_ok by (simp split: option.split)
  then have "session_ok (kill_result c r ((case report of None \<Rightarrow> id | Some g \<Rightarrow> onExit g) (w\<lparr>ow_launcher := la\<rparr>)))"
    by (rule kill_result_ok) (use keeps in \<open>cases report; simp\<close>)
  then show ?thesis using True e by simp
qed (use assms in simp)

lemma kill_event_ok:
  assumes "session_ok w" and "la_alive la = la_alive (ow_launcher w)"
    and "registered (la_runtime la) = registered (la_runtime (ow_launcher w)) - (if r = Some True then {c} else {})"
    and "r = Some True \<longrightarrow> c \<notin> set (la_alive (ow_launcher w))"
  shows "session_ok (kill_result c r (w\<lparr>ow_launcher := la\<rparr>))"
proof (rule kill_result_ok)
  show "session_ok (w\<lparr>ow_launcher := la\<rparr>)"
    by (rule launcher_shrinks [OF assms(1)]) (use assms in \<open>auto simp: session_ok_def children_ok_def split: if_splits\<close>)
qed (use assms in simp)

lemma transport_fails_ok:
  assumes "session_ok w"
  shows "session_ok (orchestrator_step Transport_Fails w)"
proof -
  obtain x la where k: "kill_begins (ow_launcher w) = (x, la)" by force
  note keeps = kill_begins_keeps [OF k]
  have ok: "session_ok (w\<lparr>ow_launcher := la\<rparr>)"
    by (rule launcher_shrinks [OF assms]) (use keeps assms in \<open>auto simp: session_ok_def children_ok_def\<close>)
  moreover have "session_ok (go_on (Launch_Consume g c True) (w\<lparr>ow_launcher := la\<rparr>))" if "ow_stage w = Launch_Consume g c b" for g c b
    using ok that by (simp add: session_ok_def queue_ok_def children_ok_def)
  ultimately show ?thesis using assms by (simp add: k Let_def split: op_stage.split)
qed

lemma step_ok:
  assumes "session_ok w"
  shows "session_ok (orchestrator_step e w)"
proof (cases e)
  case Request_Activate
  with assms show ?thesis by (auto simp: activateSession_def logged_def intro: enqueue_ok elim: same_ok split: option.split)
next
  case Request_Delete
  with assms show ?thesis by (auto simp: hardDeleteSession_def intro: enqueue_ok elim: same_ok split: option.split)
next
  case Request_Create
  have "session_ok (w\<lparr>ow_persisted := Some False\<rparr>)" by (rule same_ok [OF assms]) simp_all
  with Request_Create show ?thesis by (simp add: enqueue_ok)
next
  case (Continue n)
  have "session_ok (w\<lparr>ow_later := ks\<rparr>)" for ks by (rule same_ok [OF assms]) simp_all
  with Continue assms show ?thesis by (simp add: continue_ok)
next
  case (Kill_Signals c)
  obtain r la where k: "kill_signals c (ow_launcher w) = (r, la)" by force
  from kill_event_ok [OF assms] kill_signals_keeps [OF k] Kill_Signals k show ?thesis by simp
next
  case (Kill_Times_Out c)
  obtain r la where k: "kill_ends c (ow_launcher w) = (r, la)" by force
  from kill_event_ok [OF assms] kill_ends_keeps [OF k] Kill_Times_Out k show ?thesis by simp
next
  case Request_Unarchive
  with assms show ?thesis by (auto elim: same_ok)
next
  case Shutdown
  with assms show ?thesis by (auto elim: same_ok)
qed (use assms enqueue_ok start_next_ok resume_ok child_exit_ok transport_fails_ok in simp_all)

lemma run_ok: "session_ok w \<Longrightarrow> session_ok (orchestrator_run es w)"
  by (induction es arbitrary: w) (simp_all add: orchestrator_run_def step_ok)

definition session_begins :: "orchestrator \<Rightarrow> bool" where
  "session_begins w \<longleftrightarrow> w \<in> {new_session (ow_id w), restored_session (ow_id w) False, restored_session (ow_id w) True}"

lemma begins_ok: "session_begins w \<Longrightarrow> session_ok w"
  by (auto simp: session_begins_def new_session_def restored_session_def new_launcher_def restoreSession_def
      session_ok_def queue_ok_def children_ok_def dest!: arg_cong [where f = "\<lambda>w. (ow_stage w, ow_queue w, ow_launcher w)"])

section \<open>Generations\<close>

definition gens_ok :: "op_stage \<Rightarrow> launcher \<Rightarrow> bool" where
  "gens_ok st la \<longleftrightarrow> sorted_wrt (>) (la_spawned la) \<and> (\<forall>s\<in>set (la_spawned la). s \<le> la_generation la) \<and>
     (case st of Launch_Prepare g lg \<Rightarrow> lg \<le> la_generation la \<and> (\<forall>s\<in>set (la_spawned la). s < lg) | _ \<Rightarrow> True)"

definition no_deletion :: "orchestrator \<Rightarrow> bool" where
  "no_deletion w \<longleftrightarrow> Kill_Session Then_Delete \<notin> set (ow_queue w) \<and> Delete_Cleaned \<notin> set (ow_later w)"

definition grows :: "launcher \<Rightarrow> launcher \<Rightarrow> bool" where
  "grows la la' \<longleftrightarrow> la_spawned la' = la_spawned la \<and> la_generation la \<le> la_generation la'"

lemma grows_refl [simp]: "grows la la"
  by (simp add: grows_def)

lemma grows_trans: "grows la lb \<Longrightarrow> grows lb lc \<Longrightarrow> grows la lc"
  by (simp add: grows_def)

lemma gens_grow: "gens_ok st la \<Longrightarrow> grows la la' \<Longrightarrow> st' = st \<or> (\<forall>g lg. st' \<noteq> Launch_Prepare g lg) \<Longrightarrow> gens_ok st' la'"
  unfolding gens_ok_def grows_def by (cases st'; cases st; fastforce)

lemma grows_simps [simp]:
  "grows la (update_info c f la)" "grows la (drop_runtime c la)" "grows la (finalizeRuntime c la)" "grows la (finalize_registered c la)"
  "grows la (launch_published c g la)" "grows la (launch_consumed c la)" "grows la (mark_failed c g la)" "grows la (launch_failed p c g la)"
  "grows la (launcher_setArchived a la)" "grows la (snd (kill_begins la))"
  by (simp_all add: grows_def launcher_defs launcher_setArchived_def kill_begins_def Let_def split: option.split)

lemma grows_ends: "grows la (snd (kill_ends c la))"
  by (auto simp: kill_ends_def Let_def grows_def finalize_registered_def drop_runtime_def split: option.split kill_phase.split)

lemma grows_signals: "grows la (snd (kill_signals c la))"
proof -
  have "grows la (snd (kill_ends c (la\<lparr>la_kills := ks, la_generation := max (la_generation la) g\<rparr>)))" for ks g
    by (rule grows_trans [OF _ grows_ends]) (simp add: grows_def)
  then show ?thesis by (auto simp: kill_signals_def Let_def split: option.split kill_phase.split) (simp_all add: grows_def)
qed

lemma grows_exit: "grows la (snd (snd (child_exits c la)))"
proof -
  have "grows la lb \<Longrightarrow> grows la (snd (kill_ends c lb))" for lb using grows_trans grows_ends by blast
  moreover have "grows la (la\<lparr>la_alive := removeAll c (la_alive la)\<rparr>)" "grows la (finalizeRuntime c (la\<lparr>la_alive := removeAll c (la_alive la)\<rparr>))"
    by (simp_all add: grows_def launcher_defs split: option.split)
  ultimately show ?thesis by (auto simp: child_exits_def Let_def split: option.split prod.split)
qed

lemma deletion_simps [simp]:
  "ow_later (begin_in g b r w) = ow_later w" "ow_later (to_state g s r w) = ow_later w" "ow_later (detachPiAdapter g w) = ow_later w"
  "ow_later (logged e w) = ow_later w" "ow_later (go_on st w) = ow_later w" "ow_later (onExit g w) = ow_later w"
  "ow_later (enqueue x w) = ow_later w" "ow_queue (kill_result c kr w) = ow_queue w" "ow_later (kill_result c kr w) = ow_later w"
  "ow_launcher (kill_result c kr w) = ow_launcher w"
  by (simp_all add: begin_in_def to_state_def detachPiAdapter_def logged_def go_on_def onExit_def enqueue_def kill_result_def
      split: option.split op_stage.split)

lemma followed_no_deletion: "x \<noteq> Kill_Session Then_Delete \<Longrightarrow> no_deletion w \<Longrightarrow> no_deletion (followed_by x v w)"
  by (cases "(x, v, w)" rule: followed_by.cases) (simp_all add: no_deletion_def failed_creation_def split: verdict.split)

lemma finish_no_deletion: "no_deletion w \<Longrightarrow> no_deletion (finish_op v w)"
  by (auto simp: finish_op_def no_deletion_def [of w] split: list.split intro!: followed_no_deletion)
    (simp add: no_deletion_def)

lemma no_deletion_simps [simp]:
  "no_deletion (begin_in g b r w) = no_deletion w" "no_deletion (to_state g s r w) = no_deletion w" "no_deletion (detachPiAdapter g w) = no_deletion w"
  "no_deletion (logged e w) = no_deletion w" "no_deletion (go_on st w) = no_deletion w" "no_deletion (onExit g w) = no_deletion w"
  "no_deletion (kill_result c kr w) = no_deletion w" "no_deletion (w\<lparr>ow_launcher := la\<rparr>) = no_deletion w"
  "no_deletion (w\<lparr>ow_adapter := ad\<rparr>) = no_deletion w" "no_deletion (w\<lparr>ow_intentional := b1\<rparr>) = no_deletion w"
  "no_deletion (w\<lparr>ow_persisted := ps\<rparr>) = no_deletion w"
  by (simp_all add: no_deletion_def)

lemma launch_no_deletion: "no_deletion w \<Longrightarrow> no_deletion (launchSession w)"
  using finish_no_deletion by (simp add: launchSession_def)

lemma ask_no_deletion: "no_deletion w \<Longrightarrow> no_deletion (ask_kill (\<lambda>ok. go_on (f ok)) st w)"
  by (simp add: ask_kill_def split: prod.split sum.split)

lemma start_no_deletion: "no_deletion w \<Longrightarrow> no_deletion (start_op x w)"
  by (cases x) (auto simp: Let_def intro: launch_no_deletion finish_no_deletion ask_no_deletion split: option.split)

lemma resume_no_deletion:
  assumes "no_deletion w"
  shows "no_deletion (resume ok st w)"
  by (cases "(ok, st, w)" rule: resume.cases)
    (use assms in \<open>auto intro!: launch_no_deletion finish_no_deletion ask_no_deletion split: sum.split prod.split\<close>)

lemma continue_no_deletion: "no_deletion w \<Longrightarrow> k \<noteq> Delete_Cleaned \<Longrightarrow> no_deletion (continue_with k w)"
  by (cases k) (auto simp: continue_with_def Let_def no_deletion_def logged_def split: option.split)

lemma step_no_deletion:
  assumes "no_deletion w" and "e \<noteq> Request_Delete"
  shows "no_deletion (orchestrator_step e w)"
proof (cases e)
  case (Continue n)
  have "no_deletion (continue_with (ow_later w ! n) (w\<lparr>ow_later := take n (ow_later w) @ drop (n + 1) (ow_later w)\<rparr>))"
    if "n < length (ow_later w)"
    using assms(1) nth_mem [OF that]
    by (intro continue_no_deletion) (auto simp: no_deletion_def dest: in_set_takeD in_set_dropD)
  with Continue assms show ?thesis by simp
next
  case (Child_Exits c)
  with assms(1) show ?thesis by (auto simp: no_deletion_def split: prod.split option.split)
next
  case Start_Next
  with assms(1) show ?thesis by (auto simp: start_next_def intro: start_no_deletion split: list.split)
qed (use assms resume_no_deletion in \<open>auto simp: no_deletion_def activateSession_def enqueue_def logged_def Let_def split: option.split prod.split op_stage.split\<close>)

definition gens :: "orchestrator \<Rightarrow> bool" where
  "gens w \<longleftrightarrow> gens_ok (ow_stage w) (ow_launcher w)"

lemma gens_to: "gens w \<Longrightarrow> grows (ow_launcher w) (ow_launcher w') \<Longrightarrow>
    ow_stage w' = ow_stage w \<or> (\<forall>g lg. ow_stage w' \<noteq> Launch_Prepare g lg) \<Longrightarrow> gens w'"
  using gens_grow unfolding gens_def by blast

lemma finish_stage: "ow_stage (finish_op v w) = ow_stage w \<or> ow_stage (finish_op v w) = Not_Started"
  by (cases "ow_queue w") (simp_all add: finish_op_def)

lemma finish_gens: "gens w \<Longrightarrow> gens (finish_op v w)"
  using finish_stage [of v w] by (auto intro: gens_to [of w])

lemma launcher_gens: "gens w \<Longrightarrow> grows (ow_launcher w) la \<Longrightarrow> gens (w\<lparr>ow_launcher := la\<rparr>)"
  by (rule gens_to [of w]) simp_all

lemma go_gens: "gens w \<Longrightarrow> (\<forall>g lg. st \<noteq> Launch_Prepare g lg) \<Longrightarrow> gens (go_on st w)"
  by (rule gens_to [of w]) simp_all

lemma gens_simps [simp]:
  "gens (begin_in g b r w) = gens w" "gens (to_state g s r w) = gens w" "gens (detachPiAdapter g w) = gens w"
  "gens (logged e w) = gens w" "gens (onExit g w) = gens w" "gens (enqueue x w) = gens w"
  "gens (w\<lparr>ow_adapter := ad\<rparr>) = gens w" "gens (w\<lparr>ow_intentional := b1\<rparr>) = gens w"
  "gens (w\<lparr>ow_shuttingDown := b1\<rparr>) = gens w" "gens (w\<lparr>ow_persisted := ps\<rparr>) = gens w" "gens (w\<lparr>ow_later := ks\<rparr>) = gens w" "gens (w\<lparr>ow_states := rs\<rparr>) = gens w"
  by (simp_all add: gens_def)

lemma launch_gens: "gens w \<Longrightarrow> gens (launchSession w)"
  by (simp add: launchSession_def finish_gens go_gens)

lemma ask_gens: "gens w \<Longrightarrow> (\<forall>ok g lg. f ok \<noteq> Launch_Prepare g lg) \<Longrightarrow> (\<forall>c g lg. st c \<noteq> Launch_Prepare g lg) \<Longrightarrow>
    gens (ask_kill (\<lambda>ok. go_on (f ok)) st w)"
  using grows_simps(10) [of "ow_launcher w"] by (cases "kill_begins (ow_launcher w)") (auto simp: ask_kill_def intro!: go_gens launcher_gens split: sum.split)

lemma start_gens: "gens w \<Longrightarrow> gens (start_op x w)"
  by (cases x) (auto simp: Let_def intro: launch_gens finish_gens ask_gens go_gens split: option.split)

lemma begins_gens:
  assumes "gens w" and "launch_begins (ow_launcher w) = Inr (lg, la)"
  shows "gens (go_on (Launch_Prepare g lg) (w\<lparr>ow_launcher := la\<rparr>))"
proof -
  have old: "\<forall>s\<in>set (la_spawned (ow_launcher w)). s \<le> la_generation (ow_launcher w)" "sorted_wrt (>) (la_spawned (ow_launcher w))"
    using assms(1) by (simp_all add: gens_def gens_ok_def)
  from launch_begins_Inr [OF assms(2)] old show ?thesis by (auto simp: gens_def gens_ok_def)
qed

lemma spawns_gens:
  assumes "gens w" and "ow_stage w = Launch_Prepare g lg" and "launch_spawns lg (ow_launcher w) = (c, la)"
  shows "gens (go_on (Launch_Readiness g c) (w\<lparr>ow_launcher := la\<rparr>))"
  using assms by (auto simp: gens_def gens_ok_def launch_spawns_def Let_def)

lemma resume_gens:
  assumes "gens w"
  shows "gens (resume ok (ow_stage w) w)"
proof (cases "ow_stage w")
  case (Launch_Prepare g lg)
  with assms spawns_gens show ?thesis by (auto intro: finish_gens split: prod.split)
next
  case (Index_Starting g)
  with assms begins_gens show ?thesis by (auto intro: finish_gens split: sum.split)
qed (use assms in \<open>auto intro!: launch_gens finish_gens go_gens ask_gens launcher_gens\<close>)

lemma kill_result_gens: "gens w \<Longrightarrow> gens (kill_result c kr w)"
  by (auto simp: kill_result_def intro: go_gens split: option.split op_stage.split)

lemma continue_gens: "gens w \<Longrightarrow> k \<noteq> Delete_Cleaned \<Longrightarrow> gens (continue_with k w)"
  by (cases k) (auto simp: continue_with_def Let_def intro: launcher_gens split: option.split)

lemma step_gens:
  assumes "gens w" and "no_deletion w"
  shows "gens (orchestrator_step e w)"
proof (cases e)
  case (Continue n)
  have "n < length (ow_later w) \<Longrightarrow> ow_later w ! n \<noteq> Delete_Cleaned" using assms(2) nth_mem unfolding no_deletion_def by metis
  with Continue assms show ?thesis by (auto intro!: continue_gens)
next
  case (Child_Exits c)
  obtain report r la where e: "child_exits c (ow_launcher w) = (report, r, la)" by (cases "child_exits c (ow_launcher w)") auto
  with grows_exit [of "ow_launcher w" c] have "gens (w\<lparr>ow_launcher := la\<rparr>)" by (intro launcher_gens [OF assms(1)]) simp
  then have "gens ((case report of None \<Rightarrow> id | Some g \<Rightarrow> onExit g) (w\<lparr>ow_launcher := la\<rparr>))" by (simp split: option.split)
  with Child_Exits assms(1) show ?thesis by (simp add: e kill_result_gens)
next
  case (Kill_Signals c)
  with grows_signals [of "ow_launcher w" c] assms show ?thesis by (auto intro!: kill_result_gens launcher_gens split: prod.split)
next
  case (Kill_Times_Out c)
  with grows_ends [of "ow_launcher w" c] assms show ?thesis by (auto intro!: kill_result_gens launcher_gens split: prod.split)
next
  case Start_Next
  with assms show ?thesis by (auto simp: start_next_def intro: start_gens split: list.split)
next
  case Transport_Fails
  with assms show ?thesis by (auto simp: Let_def intro!: go_gens launcher_gens split: op_stage.split)
qed (use assms resume_gens in \<open>auto simp: activateSession_def hardDeleteSession_def intro: launcher_gens split: option.split\<close>)

lemma run_gens: "gens w \<Longrightarrow> no_deletion w \<Longrightarrow> Request_Delete \<notin> set es \<Longrightarrow> gens (orchestrator_run es w)"
proof (induction es arbitrary: w)
  case (Cons e es)
  have "gens (orchestrator_run es (orchestrator_step e w))"
    by (rule Cons.IH) (use Cons.prems step_gens step_no_deletion in auto)
  then show ?case by (simp add: orchestrator_run_def)
qed (simp add: orchestrator_run_def)

section \<open>Properties\<close>

text \<open>
  C13. A session never has two processes: whatever is requested, and whatever fails, times out, or exits at any time, at most one
  child of the session is alive.
\<close>

theorem one_process_per_session:
  assumes "session_begins w"
  shows "length (la_alive (ow_launcher (orchestrator_run es w))) \<le> 1"
  using run_ok [OF begins_ok [OF assms], of es] by (simp add: session_ok_def children_ok_def)

text \<open>
  C34. As long as the session is not deleted every process gets a generation that is higher than all before, whatever
  launches have failed and whatever was killed in between.
\<close>

theorem generations_are_never_reused:
  assumes "session_begins w" and "Request_Delete \<notin> set es"
  shows "sorted_wrt (>) (la_spawned (ow_launcher (orchestrator_run es w)))"
proof -
  have "gens w" "no_deletion w"
    using assms(1) by (auto simp: session_begins_def new_session_def restored_session_def new_launcher_def restoreSession_def
      gens_def gens_ok_def no_deletion_def dest!: arg_cong [where f = "\<lambda>w. (ow_stage w, ow_queue w, ow_launcher w, ow_later w)"])
  from run_gens [OF this assms(2)] show ?thesis by (simp add: gens_def gens_ok_def)
qed

lemma log_simps [simp]:
  "ow_log (begin_in g b r w) = ow_log w" "ow_log (to_state g s r w) = ow_log w" "ow_log (detachPiAdapter g w) = ow_log w"
  "ow_log (go_on st w) = ow_log w" "ow_log (onExit g w) = ow_log w" "ow_log (enqueue x w) = ow_log w" "ow_log (kill_result c kr w) = ow_log w"
  by (simp_all add: begin_in_def to_state_def detachPiAdapter_def go_on_def onExit_def enqueue_def kill_result_def split: option.split op_stage.split)

definition kill_succeeded :: "log_entry \<Rightarrow> bool" where
  "kill_succeeded x \<longleftrightarrow> (\<exists>a. x = Finished (Kill_Session a) (Returned True))"

text \<open>Only the last stage of a kill, or a launch, ends an operation with success.\<close>

definition quiet :: "orchestrator \<Rightarrow> orchestrator \<Rightarrow> bool" where
  "quiet w w' \<longleftrightarrow> filter kill_succeeded (ow_log w') = filter kill_succeeded (ow_log w)"

lemma quiet_log: "ow_log w' = ow_log w \<Longrightarrow> quiet w w'"
  by (simp add: quiet_def)

lemma quiet_logged: "ow_log w' = ow_log w \<Longrightarrow> \<not> kill_succeeded x \<Longrightarrow> quiet w (logged x w')"
  by (simp add: quiet_def logged_def)

lemma followed_log: "filter kill_succeeded (ow_log (followed_by x v w)) = filter kill_succeeded (ow_log w)"
  by (cases "(x, v, w)" rule: followed_by.cases) (simp_all add: failed_creation_def logged_def kill_succeeded_def split: verdict.split)

lemma finish_quiet:
  assumes "ow_log w' = ow_log w" and "ow_queue w' = ow_queue w"
    and "v \<noteq> Returned True \<or> \<not> kill_op (hd (ow_queue w)) \<or> ow_queue w = []"
  shows "quiet w (finish_op v w')"
proof (cases "ow_queue w")
  case (Cons x q)
  with assms have "\<not> kill_succeeded (Finished x v)" by (auto simp: kill_succeeded_def)
  with Cons assms show ?thesis by (simp add: finish_op_def quiet_def followed_log) (simp add: logged_def)
qed (use assms in \<open>simp add: finish_op_def quiet_def\<close>)

lemma launch_quiet: "ow_log w' = ow_log w \<Longrightarrow> ow_queue w' = ow_queue w \<Longrightarrow> quiet w (launchSession w')"
  by (auto simp: launchSession_def intro: finish_quiet quiet_log)

lemma ask_quiet: "ow_log w' = ow_log w \<Longrightarrow> quiet w (ask_kill (\<lambda>ok. go_on (f ok)) st w')"
  by (auto simp: ask_kill_def quiet_def split: prod.split sum.split)

lemma resume_quiet:
  assumes "session_ok w" and "\<not> (\<exists>g old. ow_stage w = Kill_Stopped g old)"
  shows "quiet w (resume ok (ow_stage w) w)"
proof -
  have "\<not> kill_op (hd (ow_queue w))" if "ow_stage w = Launch_Finish g" for g
    using assms(1) that by (simp add: session_ok_def queue_ok_def)
  then show ?thesis using assms(2)
    by (cases "ow_stage w")
      (auto intro!: finish_quiet launch_quiet ask_quiet intro: quiet_log split: sum.split prod.split)
qed

lemma step_quiet:
  assumes "session_ok w" and "\<not> (\<exists>g old ok. ow_stage w = Kill_Stopped g old \<and> e = Awaited ok)"
  shows "quiet w (orchestrator_step e w)"
proof (cases e)
  case (Awaited ok)
  with resume_quiet [OF assms(1)] assms(2) show ?thesis by simp
next
  case (Continue n)
  then show ?thesis
    by (auto simp: continue_with_def Let_def kill_succeeded_def intro: quiet_log intro!: quiet_logged split: continuation.split option.split)
next
  case (Child_Exits c)
  then show ?thesis by (auto intro!: quiet_log split: prod.split option.split)
next
  case Start_Next
  have "quiet w (start_op x w)" if "ow_queue w = x # q" for x q
    by (cases x) (auto simp: Let_def intro!: finish_quiet launch_quiet ask_quiet intro: quiet_log split: option.split)
  with Start_Next show ?thesis by (auto simp: start_next_def intro: quiet_log split: list.split)
next
  case Transport_Fails
  then show ?thesis by (auto simp: Let_def intro!: quiet_log split: op_stage.split)
next
  case Request_Activate
  have "quiet w (logged Activated w)" by (rule quiet_logged) (simp_all add: kill_succeeded_def)
  with Request_Activate show ?thesis by (auto simp: activateSession_def intro: quiet_log split: option.split)
qed (auto simp: hardDeleteSession_def Let_def intro!: quiet_log split: option.split prod.split)

text \<open>
  C14. A kill tells the truth: when a kill reports success, the session has no process any more and none is registered with
  the launcher.
\<close>

theorem killed_session_has_no_process:
  assumes "session_begins w\<^sub>0" and "w = orchestrator_run es w\<^sub>0"
    and "ow_log (orchestrator_step e w) = ow_log w @ Finished (Kill_Session a) (Returned True) # rest"
  shows "la_alive (ow_launcher (orchestrator_step e w)) = [] \<and> \<not> is_alive (ow_launcher (orchestrator_step e w))"
proof -
  have ok: "session_ok w" using run_ok [OF begins_ok [OF assms(1)]] assms(2) by simp
  have "\<not> quiet w (orchestrator_step e w)" unfolding quiet_def assms(3) by (simp add: kill_succeeded_def)
  with step_quiet [OF ok] obtain g old b where s: "ow_stage w = Kill_Stopped g old" "e = Awaited b" by blast
  with ok have "la_runtime (ow_launcher w) = None" "la_alive (ow_launcher w) = []"
    by (auto simp: session_ok_def children_ok_def)
  with s show ?thesis by (simp add: is_alive_def)
qed

section \<open>Examples\<close>

definition launched :: "session_event list" where
  "launched = Start_Next # replicate 9 (Awaited True)"

definition killed :: "session_event list" where
  "killed = [Start_Next, Awaited True, Kill_Signals 1, Child_Exits 1]"

definition created :: "session_event list" where
  "created = Request_Create # launched"

text \<open>A session is created, killed and activated again: the second process has the third generation.\<close>

definition sample_run :: "session_event list" where
  "sample_run = created @ Request_Kill # killed @ [Awaited True, Awaited True, Request_Activate] @ launched"

lemma sample_runs:
  "let w = orchestrator_run sample_run (new_session ''s'') in
     la_alive (ow_launcher w) = [2] \<and> la_spawned (ow_launcher w) = [3, 1] \<and> ow_adapter w = Some 3 \<and>
     map_option rs_state (registry_get (ow_states w) ''s'') = Some RtReady"
  by code_simp

theorem one_process_per_session_witness: "length (la_alive (ow_launcher (orchestrator_run sample_run (new_session ''s'')))) \<le> 1"
  by (rule one_process_per_session) (simp add: session_begins_def new_session_def)

theorem generations_are_never_reused_witness: "sorted_wrt (>) (la_spawned (ow_launcher (orchestrator_run sample_run (new_session ''s''))))"
proof -
  have "Request_Delete \<notin> set sample_run" by code_simp
  then show ?thesis by (intro generations_are_never_reused) (simp_all add: session_begins_def new_session_def)
qed

theorem killed_session_has_no_process_witness:
  "la_alive (ow_launcher (orchestrator_step (Awaited True) (orchestrator_run (created @ Request_Kill # killed @ [Awaited True]) (new_session ''s'')))) = []"
proof -
  let ?w = "orchestrator_run (created @ Request_Kill # killed @ [Awaited True]) (new_session ''s'')"
  have "ow_log (orchestrator_step (Awaited True) ?w) = ow_log ?w @ [Finished (Kill_Session No_More) (Returned True)]" by code_simp
  with killed_session_has_no_process [of "new_session ''s''" ?w _ "Awaited True" No_More "[]"] show ?thesis
    by (simp add: session_begins_def new_session_def)
qed

section \<open>What is not guaranteed\<close>

text \<open>
  The session is archived while it is activated: behind the kill, before the flag is set, the activation that was accepted for the
  exited process launches another one. In the end the session is archived and its process runs.
\<close>

lemma archived_session_runs:
  "let w = orchestrator_run (created @ Request_Archive # killed @ [Request_Activate, Awaited True, Awaited True] @ launched @ [Continue 0])
     (new_session ''s'')
   in ow_persisted w = Some True \<and> la_alive (ow_launcher w) = [2] \<and> ow_queue w = [] \<and> ow_later w = [] \<and>
     map_option rs_state (registry_get (ow_states w) ''s'') = Some RtReady"
  by code_simp

text \<open>
  The session is deleted while it is activated: its files are gone, the launcher has forgotten it, and the process that was on
  its way is alive. A kill finds no session and reports failure; nothing ever ends the process.
\<close>

lemma deleted_session_runs:
  "let w = orchestrator_run (created @ Request_Delete # killed @ [Request_Activate, Awaited True, Awaited True] @
       Start_Next # replicate 4 (Awaited True) @ [Continue 0, Continue 0] @ replicate 5 (Awaited True) @ [Request_Kill, Start_Next, Awaited True])
     (new_session ''s'')
   in ow_persisted w = None \<and> Deleted True \<in> set (ow_log w) \<and> la_alive (ow_launcher w) = [2] \<and> la_info (ow_launcher w) = None \<and>
     last (ow_log w) = Finished (Kill_Session No_More) (Returned False) \<and> ow_queue w = [] \<and> ow_later w = []"
  by code_simp

text \<open>
  A kill that times out and a second one that succeeds leave the registry one generation ahead of the launcher. The next
  launch cannot begin a generation there, which is ignored: the process is ready and the state says stopped.
\<close>

lemma running_session_is_stopped:
  "let w = orchestrator_run (created @ [Request_Kill, Start_Next, Awaited True, Kill_Signals 1, Kill_Times_Out 1, Awaited True] @
       [Request_Kill, Start_Next, Awaited True, Child_Exits 1, Awaited True, Awaited True, Request_Activate] @ launched)
     (new_session ''s'')
   in la_alive (ow_launcher w) = [2] \<and> ow_adapter w = Some 3 \<and> last (ow_log w) = Finished Activate_Session (Returned True) \<and>
     map_option rs_state (registry_get (ow_states w) ''s'') = Some Stopped"
  by code_simp

text \<open>A launch that fails before it is published has no listener: the state stays at starting.\<close>

lemma failed_launch_stays_starting:
  "let w = orchestrator_run (created @ Request_Kill # killed @ [Awaited True, Awaited True, Request_Activate] @
       Start_Next # replicate 4 (Awaited True) @ [Child_Exits 2, Awaited False, Awaited True]) (new_session ''s'')
   in la_alive (ow_launcher w) = [] \<and> ow_queue w = [] \<and> last (ow_log w) = Finished Activate_Session Threw \<and>
     map_option rs_state (registry_get (ow_states w) ''s'') = Some RtStarting"
  by code_simp

text \<open>
  The mark of an intended stop outlives the stop until the next launch is complete. A process that exits just before that is taken
  for stopped on purpose, which cannot follow on ready: the state of a dead process stays ready.
\<close>

lemma dead_session_stays_ready:
  "let w = orchestrator_run (created @ Request_Kill # killed @ [Awaited True, Awaited True, Request_Activate] @
       Start_Next # replicate 7 (Awaited True) @ [Child_Exits 2, Awaited True, Awaited True]) (new_session ''s'')
   in la_alive (ow_launcher w) = [] \<and> last (ow_log w) = Finished Activate_Session (Returned True) \<and>
     map_option rs_state (registry_get (ow_states w) ''s'') = Some RtReady"
  by code_simp

end
