(* ===== verification/Prompt_Delivery.thy ===== *)
theory Prompt_Delivery
  imports Browser_Replay
begin

text \<open>
  The delivery of prompts from browsers to Pi (web/server/ws-bridge.ts, sendAgentMessage of web/server/pi-adapter.ts): prompts go to
  the attached adapter when it is connected and wait in the offline queue of session.json otherwise; identifiers that
  were accepted are remembered.

  One session. An adapter is a number; its generation goes with it. A call of \<open>sendAgentMessage\<close> is an entry of
  \<open>dv_sends\<close> until it settles, which may be in any order. What is persisted is the content of session.json as far as
  delivery is concerned. Run states, broadcasts other than the acceptance, and the search for a settled state are left out;
  persisting succeeds.
\<close>

section \<open>State\<close>

datatype delivery_outcome = Accepted_By_Pi | Rejected_By_Pi | Outcome_Unknown

text \<open>Who waits for a send: a prompt of a browser, an injected prompt, or the head of the queue.\<close>

datatype send_origin = From_Browser | From_Injection | From_Queue

record send =
  sn_origin :: send_origin
  sn_id :: string
  sn_text :: string
  sn_adapter :: nat

datatype delivery_entry =
    Delivered string string
  | Acknowledged string
  | Refused string

record stored_session =
  st_queue :: "(string \<times> string) list"
  st_processed :: "string list"
  st_archived :: bool

record delivery =
  dv_session :: session
  dv_queue :: "(string \<times> string) list"
  dv_archived :: bool
  dv_adapter :: "nat option"
  dv_open :: "nat list"
  dv_accepting :: "string list"
  dv_sends :: "send list"
  dv_flushing :: bool
  dv_closed :: bool
  dv_stored :: stored_session
  dv_log :: "delivery_entry list"

definition OFFLINE_QUEUE_LIMIT :: nat where "OFFLINE_QUEUE_LIMIT = 100"

definition adapter_of :: "delivery \<Rightarrow> nat option" where
  "adapter_of d = (case dv_adapter d of Some a \<Rightarrow> if a \<in> set (dv_open d) then Some a else None | None \<Rightarrow> None)"

definition logs :: "delivery_entry \<Rightarrow> delivery \<Rightarrow> delivery" where
  "logs e d = d\<lparr>dv_log := dv_log d @ [e]\<rparr>"

text \<open>\<open>serializeForStore\<close>: everything comes from the memory of the bridge.\<close>

definition persistSessionSync :: "delivery \<Rightarrow> delivery" where
  "persistSessionSync d = d\<lparr>dv_stored := \<lparr>st_queue = dv_queue d, st_processed = ses_processedIds (dv_session d), st_archived = dv_archived d\<rparr>\<rparr>"

section \<open>Accepting prompts\<close>

definition sendAgentMessage :: "send_origin \<Rightarrow> string \<Rightarrow> string \<Rightarrow> nat \<Rightarrow> delivery \<Rightarrow> delivery" where
  "sendAgentMessage origin i text a d = d\<lparr>dv_sends := dv_sends d @ [\<lparr>sn_origin = origin, sn_id = i, sn_text = text, sn_adapter = a\<rparr>]\<rparr>"

definition enqueueAgentMessage :: "string \<Rightarrow> string \<Rightarrow> delivery \<Rightarrow> bool \<times> delivery" where
  "enqueueAgentMessage i text d =
     (if length (dv_queue d) \<ge> OFFLINE_QUEUE_LIMIT then (False, d)
      else (True, if list_ex (\<lambda>(j, _). j = i) (dv_queue d) then d else d\<lparr>dv_queue := dv_queue d @ [(i, text)]\<rparr>))"

text \<open>The end of \<open>acceptBrowserAgentMessage\<close>; the reservation goes in any case.\<close>

definition release_id :: "string \<Rightarrow> delivery \<Rightarrow> delivery" where
  "release_id i d = d\<lparr>dv_accepting := removeAll i (dv_accepting d)\<rparr>"

definition accept_browser :: "nat \<Rightarrow> string \<Rightarrow> bool \<Rightarrow> delivery \<Rightarrow> delivery" where
  "accept_browser limit i ok d =
     (if \<not> ok then logs (Refused i) (release_id i d)
      else if dv_closed d then release_id i d
      else logs (Acknowledged i) (release_id i (persistSessionSync (d\<lparr>dv_session := rememberClientMessage (dv_session d) i limit\<rparr>))))"

definition queue_browser :: "nat \<Rightarrow> string \<Rightarrow> string \<Rightarrow> delivery \<Rightarrow> delivery" where
  "queue_browser limit i text d = (let (ok, d1) = enqueueAgentMessage i text d in accept_browser limit i ok d1)"

definition acceptBrowserAgentMessage :: "nat \<Rightarrow> string \<Rightarrow> string \<Rightarrow> bool \<Rightarrow> delivery \<Rightarrow> delivery" where
  "acceptBrowserAgentMessage limit i text fits d =
     (if \<not> fits \<or> i \<in> set (dv_accepting d) then d
      else (let d1 = d\<lparr>dv_accepting := i # dv_accepting d\<rparr> in
            case adapter_of d1 of
              Some a \<Rightarrow> sendAgentMessage From_Browser i text a d1
            | None \<Rightarrow> queue_browser limit i text d1))"

text \<open>\<open>routeBrowserMessage\<close> for an agent message.\<close>

definition routeAgentMessage :: "nat \<Rightarrow> string \<Rightarrow> string \<Rightarrow> bool \<Rightarrow> bool \<Rightarrow> delivery \<Rightarrow> delivery" where
  "routeAgentMessage limit i text current fits d =
     (if dv_closed d \<or> \<not> current then d
      else if isDuplicateClientMessage (dv_session d) i then logs (Acknowledged i) d
      else acceptBrowserAgentMessage limit i text fits d)"

text \<open>\<open>injectUserMessage\<close> up to its await.\<close>

definition queue_injected :: "string \<Rightarrow> string \<Rightarrow> delivery \<Rightarrow> delivery" where
  "queue_injected i text d =
     (let (ok, d1) = enqueueAgentMessage i text d in
      if ok then logs (Acknowledged i) (persistSessionSync d1) else logs (Refused i) d1)"

definition injectUserMessage :: "string \<Rightarrow> string \<Rightarrow> bool \<Rightarrow> delivery \<Rightarrow> delivery" where
  "injectUserMessage i text fits d =
     (if dv_closed d \<or> \<not> fits then d
      else (case adapter_of d of
              Some a \<Rightarrow> sendAgentMessage From_Injection i text a d
            | None \<Rightarrow> queue_injected i text d))"

section \<open>The offline queue\<close>

definition flushOfflineQueue :: "delivery \<Rightarrow> delivery" where
  "flushOfflineQueue d =
     (if dv_flushing d \<or> dv_closed d then d
      else (case (adapter_of d, dv_queue d) of
              (Some a, (i, text) # _) \<Rightarrow> sendAgentMessage From_Queue i text a (d\<lparr>dv_flushing := True\<rparr>)
            | _ \<Rightarrow> d))"

section \<open>A send settles\<close>

definition log_delivery :: "delivery_outcome \<Rightarrow> send \<Rightarrow> delivery \<Rightarrow> delivery" where
  "log_delivery r s d = (if r = Rejected_By_Pi then d else logs (Delivered (sn_id s) (sn_text s)) d)"

text \<open>Another adapter that is connected, after the one of the send.\<close>

definition replacement :: "send \<Rightarrow> delivery \<Rightarrow> nat option" where
  "replacement s d = (case adapter_of d of Some a \<Rightarrow> if a \<noteq> sn_adapter s then Some a else None | None \<Rightarrow> None)"

definition browser_settled :: "nat \<Rightarrow> delivery_outcome \<Rightarrow> send \<Rightarrow> delivery \<Rightarrow> delivery" where
  "browser_settled limit r s d =
     (if r \<noteq> Rejected_By_Pi then accept_browser limit (sn_id s) True d
      else if dv_closed d then release_id (sn_id s) d
      else (case replacement s d of
              Some a \<Rightarrow> sendAgentMessage From_Browser (sn_id s) (sn_text s) a d
            | None \<Rightarrow>
                if adapter_of d \<noteq> None then logs (Refused (sn_id s)) (release_id (sn_id s) d)
                else queue_browser limit (sn_id s) (sn_text s) d))"

definition injection_settled :: "delivery_outcome \<Rightarrow> send \<Rightarrow> delivery \<Rightarrow> delivery" where
  "injection_settled r s d =
     (if r = Rejected_By_Pi then logs (Refused (sn_id s)) d
      else if dv_closed d then d
      else logs (Acknowledged (sn_id s)) d)"

definition queue_settled :: "delivery_outcome \<Rightarrow> send \<Rightarrow> delivery \<Rightarrow> delivery" where
  "queue_settled r s d =
     (if dv_closed d then d\<lparr>dv_flushing := False\<rparr>
      else if r = Rejected_By_Pi
      then (case replacement s d of
              Some a \<Rightarrow> sendAgentMessage From_Queue (sn_id s) (sn_text s) a d
            | None \<Rightarrow> d\<lparr>dv_flushing := False\<rparr>)
      else (case dv_queue d of
              (i, _) # q \<Rightarrow> if i = sn_id s then persistSessionSync (d\<lparr>dv_queue := q, dv_flushing := False\<rparr>) else d\<lparr>dv_flushing := False\<rparr>
            | [] \<Rightarrow> d\<lparr>dv_flushing := False\<rparr>))"

definition send_settled :: "nat \<Rightarrow> delivery_outcome \<Rightarrow> send \<Rightarrow> delivery \<Rightarrow> delivery" where
  "send_settled limit r s d =
     (let d1 = log_delivery r s d in
      case sn_origin s of
        From_Browser \<Rightarrow> browser_settled limit r s d1
      | From_Injection \<Rightarrow> injection_settled r s d1
      | From_Queue \<Rightarrow> queue_settled r s d1)"

section \<open>Events\<close>

datatype delivery_event =
    Browser_Prompt string string bool bool
  | Inject string string bool
  | Send_Settles nat delivery_outcome
  | Attach nat bool
  | Detach
  | Connection_Lost nat
  | Flush
  | Archive_Session
  | Close_Session
  | Crash

text \<open>After a crash the session is restored from what is stored; before the next one, nothing of the old process goes on.\<close>

definition restored :: "delivery \<Rightarrow> delivery" where
  "restored d = d\<lparr>
     dv_session := (dv_session d)\<lparr>ses_processedIds := st_processed (dv_stored d), ses_processedIdSet := set (st_processed (dv_stored d))\<rparr>,
     dv_queue := st_queue (dv_stored d), dv_archived := st_archived (dv_stored d), dv_adapter := None, dv_open := [], dv_accepting := [],
     dv_sends := [], dv_flushing := False\<rparr>"

text \<open>
  An adapter is attached with the flag its launch has read; the one before it is disconnected. Archiving changes the file, by way of the session store, but not the memory of the bridge.\<close>

fun delivery_step :: "nat \<Rightarrow> delivery_event \<Rightarrow> delivery \<Rightarrow> delivery" where
  "delivery_step limit (Browser_Prompt i text current fits) d = routeAgentMessage limit i text current fits d"
| "delivery_step limit (Inject i text fits) d = injectUserMessage i text fits d"
| "delivery_step limit (Send_Settles n r) d =
     (if n < length (dv_sends d)
      then send_settled limit r (dv_sends d ! n) (d\<lparr>dv_sends := take n (dv_sends d) @ drop (n + 1) (dv_sends d)\<rparr>) else d)"
| "delivery_step limit (Attach a archived) d =
     (if dv_closed d then d
      else persistSessionSync (d\<lparr>dv_adapter := Some a, dv_archived := archived,
        dv_open := a # (case dv_adapter d of Some b \<Rightarrow> removeAll b (dv_open d) | None \<Rightarrow> dv_open d)\<rparr>))"
| "delivery_step limit Detach d = d\<lparr>dv_adapter := None\<rparr>"
| "delivery_step limit (Connection_Lost a) d = d\<lparr>dv_open := removeAll a (dv_open d)\<rparr>"
| "delivery_step limit Flush d = flushOfflineQueue d"
| "delivery_step limit Archive_Session d = d\<lparr>dv_stored := (dv_stored d)\<lparr>st_archived := True\<rparr>\<rparr>"
| "delivery_step limit Close_Session d = d\<lparr>dv_closed := True, dv_adapter := None, dv_accepting := [], dv_flushing := False\<rparr>"
| "delivery_step limit Crash d = (if dv_closed d then d else restored d)"

definition delivery_run :: "nat \<Rightarrow> delivery_event list \<Rightarrow> delivery \<Rightarrow> delivery" where
  "delivery_run limit es d = fold (delivery_step limit) es d"

definition new_delivery :: "session \<Rightarrow> delivery" where
  "new_delivery s = \<lparr>dv_session = s\<lparr>ses_processedIds := [], ses_processedIdSet := {}\<rparr>, dv_queue = [], dv_archived = False, dv_adapter = None,
     dv_open = [], dv_accepting = [], dv_sends = [], dv_flushing = False, dv_closed = False,
     dv_stored = \<lparr>st_queue = [], st_processed = [], st_archived = False\<rparr>, dv_log = []\<rparr>"

section \<open>No accepted prompt is lost\<close>

definition delivered :: "delivery \<Rightarrow> string set" where
  "delivered d = {i. \<exists>t. Delivered i t \<in> set (dv_log d)}"

definition kept :: "delivery \<Rightarrow> string set" where
  "kept d = delivered d \<union> fst ` set (dv_queue d)"

definition same_stored :: "delivery \<Rightarrow> bool" where
  "same_stored d \<longleftrightarrow> st_queue (dv_stored d) = dv_queue d \<and> st_processed (dv_stored d) = ses_processedIds (dv_session d)"

definition delivery_ok :: "delivery \<Rightarrow> bool" where
  "delivery_ok d \<longleftrightarrow> same_stored d \<and>
     (dv_closed d \<or> ses_processedIdSet (dv_session d) \<union> set (ses_processedIds (dv_session d)) \<union> {i. Acknowledged i \<in> set (dv_log d)} \<subseteq> kept d)"

lemma logs_simps [simp]:
  "dv_queue (logs e d) = dv_queue d" "dv_session (logs e d) = dv_session d" "dv_stored (logs e d) = dv_stored d"
  "dv_closed (logs e d) = dv_closed d" "dv_log (logs e d) = dv_log d @ [e]" "dv_sends (logs e d) = dv_sends d"
  "dv_accepting (logs e d) = dv_accepting d" "dv_flushing (logs e d) = dv_flushing d"
  by (simp_all add: logs_def)

lemma delivered_logs [simp]:
  "delivered (logs (Delivered i t) d) = insert i (delivered d)"
  "delivered (logs (Acknowledged i) d) = delivered d" "delivered (logs (Refused i) d) = delivered d"
  by (auto simp: delivered_def)

lemma kept_logs [simp]:
  "kept (logs (Delivered i t) d) = insert i (kept d)" "kept (logs (Acknowledged i) d) = kept d" "kept (logs (Refused i) d) = kept d"
  by (auto simp: kept_def)

lemma kept_updates [simp]:
  "kept (d\<lparr>dv_sends := x1\<rparr>) = kept d" "kept (d\<lparr>dv_flushing := x2\<rparr>) = kept d" "kept (d\<lparr>dv_accepting := x3\<rparr>) = kept d"
  "kept (d\<lparr>dv_session := x4\<rparr>) = kept d" "kept (d\<lparr>dv_stored := x5\<rparr>) = kept d"
  "kept (d\<lparr>dv_queue := q\<rparr>) = delivered d \<union> fst ` set q"
  by (simp_all add: kept_def delivered_def)

lemma remembered_subset:
  "set (ses_processedIds (rememberClientMessage s i limit)) \<subseteq> insert i (set (ses_processedIds s))"
  "ses_processedIdSet (rememberClientMessage s i limit) \<subseteq> insert i (ses_processedIdSet s)"
  using set_drop_subset [of "Suc (length (ses_processedIds s)) - limit" "ses_processedIds s @ [i]"]
  by (auto simp: rememberClientMessage_def Let_def split: if_splits)

lemma ok_logs: "delivery_ok d \<Longrightarrow> (\<And>i. e = Acknowledged i \<Longrightarrow> i \<in> kept d) \<Longrightarrow> delivery_ok (logs e d)"
  by (cases e) (auto simp: delivery_ok_def same_stored_def)

lemma ok_updates:
  assumes "delivery_ok d"
  shows "delivery_ok (d\<lparr>dv_sends := x1\<rparr>)" and "delivery_ok (d\<lparr>dv_flushing := x2\<rparr>)" and "delivery_ok (d\<lparr>dv_accepting := x3\<rparr>)"
  using assms by (simp_all add: delivery_ok_def same_stored_def)

lemma accept_ok:
  assumes "delivery_ok d" and "i \<in> kept d" and "ok"
  shows "delivery_ok (accept_browser limit i ok d)"
proof (cases "dv_closed d")
  case True
  with assms show ?thesis by (simp add: accept_browser_def release_id_def ok_updates)
next
  case False
  have "delivery_ok (release_id i (persistSessionSync (d\<lparr>dv_session := rememberClientMessage (dv_session d) i limit\<rparr>)))"
    using assms False remembered_subset [where s = "dv_session d" and i = i and limit = limit]
    by (auto simp: delivery_ok_def same_stored_def release_id_def persistSessionSync_def kept_def delivered_def)
  with assms False show ?thesis
    by (simp add: accept_browser_def) (rule ok_logs, assumption, simp add: release_id_def persistSessionSync_def)
qed

text \<open>A prompt that is queued is stored at once.\<close>

lemma accept_queued:
  assumes "enqueueAgentMessage i text d = (ok, d1)" and "delivery_ok d" and "\<not> dv_closed d"
  shows "delivery_ok (accept_browser limit i ok d1)" and "ok \<Longrightarrow> delivery_ok (persistSessionSync d1) \<and> i \<in> kept d1"
proof -
  have d1: "ok \<Longrightarrow> i \<in> kept d1 \<and> kept d \<subseteq> kept d1 \<and> dv_log d1 = dv_log d \<and> dv_session d1 = dv_session d \<and> dv_closed d1 = dv_closed d"
    "\<not> ok \<Longrightarrow> d1 = d"
    using assms(1) by (force simp: enqueueAgentMessage_def kept_def delivered_def list_ex_iff split: if_splits)+
  show stored: "delivery_ok (persistSessionSync d1) \<and> i \<in> kept d1" if ok
  proof -
    have "ses_processedIdSet (dv_session d) \<union> set (ses_processedIds (dv_session d)) \<union> {i. Acknowledged i \<in> set (dv_log d)} \<subseteq> kept d"
      using assms(2,3) by (simp add: delivery_ok_def)
    also have "\<dots> \<subseteq> kept d1" using d1(1) [OF that] by blast
    finally show ?thesis using d1(1) [OF that] by (simp add: delivery_ok_def same_stored_def persistSessionSync_def)
  qed
  show "delivery_ok (accept_browser limit i ok d1)"
  proof (cases ok)
    case True
    have "accept_browser limit i True d1 = accept_browser limit i True (persistSessionSync d1)"
      using d1(1) [OF True] assms(3) by (simp add: accept_browser_def release_id_def persistSessionSync_def logs_def)
    moreover have "delivery_ok (accept_browser limit i True (persistSessionSync d1))"
      by (rule accept_ok) (use stored [OF True] in \<open>simp_all add: persistSessionSync_def\<close>)
    ultimately show ?thesis using True by simp
  next
    case False
    with assms(2) d1(2) show ?thesis by (auto simp: accept_browser_def release_id_def intro!: ok_logs ok_updates)
  qed
qed

lemma queue_browser_ok: "delivery_ok d \<Longrightarrow> \<not> dv_closed d \<Longrightarrow> delivery_ok (queue_browser limit i text d)"
  by (cases "enqueueAgentMessage i text d") (simp add: queue_browser_def accept_queued)

lemma send_ok: "delivery_ok d \<Longrightarrow> delivery_ok (sendAgentMessage origin i text a d)"
  by (simp add: sendAgentMessage_def ok_updates)

lemma route_ok: "delivery_ok d \<Longrightarrow> delivery_ok (routeAgentMessage limit i text current fits d)"
  by (auto simp: routeAgentMessage_def acceptBrowserAgentMessage_def Let_def isDuplicateClientMessage_def
      intro!: send_ok queue_browser_ok ok_updates ok_logs split: option.split) (auto simp: delivery_ok_def)

lemma inject_ok: "delivery_ok d \<Longrightarrow> delivery_ok (injectUserMessage i text fits d)"
proof -
  assume ok: "delivery_ok d"
  show ?thesis
  proof (cases "dv_closed d \<or> \<not> fits \<or> adapter_of d \<noteq> None")
    case True
    with ok show ?thesis by (auto simp: injectUserMessage_def intro!: send_ok split: option.split)
  next
    case False
    obtain queued d1 where q: "enqueueAgentMessage i text d = (queued, d1)" by force
    from q have "\<not> queued \<Longrightarrow> d1 = d" by (auto simp: enqueueAgentMessage_def split: if_splits)
    moreover have "queued \<Longrightarrow> delivery_ok (persistSessionSync d1) \<and> i \<in> kept (persistSessionSync d1)"
      using accept_queued(2) [OF q ok] False by (simp add: persistSessionSync_def)
    ultimately show ?thesis using False ok q by (auto simp: injectUserMessage_def queue_injected_def intro!: ok_logs)
  qed
qed

lemma settled_ok:
  assumes "delivery_ok d"
  shows "delivery_ok (send_settled limit r s d)"
proof -
  define d1 where "d1 = log_delivery r s d"
  have d1: "delivery_ok d1" "dv_closed d1 = dv_closed d" using assms ok_logs [OF assms, of "Delivered (sn_id s) (sn_text s)"] by (simp_all add: d1_def log_delivery_def)
  have kept: "r \<noteq> Rejected_By_Pi \<Longrightarrow> sn_id s \<in> delivered d1" by (simp add: d1_def log_delivery_def)
  then have kept': "r \<noteq> Rejected_By_Pi \<Longrightarrow> sn_id s \<in> kept d1" by (simp add: kept_def)
  have "delivery_ok (queue_settled r s d1)"
  proof -
    have "delivery_ok (persistSessionSync (d1\<lparr>dv_queue := q, dv_flushing := False\<rparr>))"
      if "dv_queue d1 = (sn_id s, t) # q" "r \<noteq> Rejected_By_Pi" for t q
      using d1(1) kept [OF that(2)] that(1) by (auto simp: delivery_ok_def same_stored_def persistSessionSync_def kept_def delivered_def)
    with d1 show ?thesis by (auto simp: queue_settled_def intro!: ok_updates send_ok split: list.split option.split)
  qed
  moreover have "delivery_ok (browser_settled limit r s d1)"
    using d1 kept' by (auto simp: browser_settled_def release_id_def intro!: accept_ok send_ok queue_browser_ok ok_logs ok_updates split: option.split)
  moreover have "delivery_ok (injection_settled r s d1)"
    using d1 kept' by (auto simp: injection_settled_def intro!: ok_logs)
  ultimately show ?thesis by (simp add: send_settled_def Let_def d1_def [symmetric] split: send_origin.split)
qed

lemma delivery_step_ok: "delivery_ok d \<Longrightarrow> delivery_ok (delivery_step limit e d)"
proof (cases e)
  case Flush
  moreover assume "delivery_ok d"
  ultimately show ?thesis by (auto simp: flushOfflineQueue_def intro!: send_ok ok_updates split: option.split list.split)
next
  case (Send_Settles n r)
  moreover assume "delivery_ok d"
  ultimately show ?thesis by (simp add: settled_ok ok_updates)
next
  case (Browser_Prompt i m current fits)
  moreover assume "delivery_ok d"
  ultimately show ?thesis by (simp add: route_ok)
next
  case (Inject i m fits)
  moreover assume "delivery_ok d"
  ultimately show ?thesis by (simp add: inject_ok)
qed (auto simp: delivery_ok_def same_stored_def restored_def kept_def delivered_def persistSessionSync_def)

lemma delivery_run_ok: "delivery_ok d \<Longrightarrow> delivery_ok (delivery_run limit es d)"
  by (induction es arbitrary: d) (simp_all add: delivery_run_def delivery_step_ok)

lemma new_delivery_ok: "delivery_ok (new_delivery s)"
  by (simp add: new_delivery_def delivery_ok_def same_stored_def kept_def)


definition example_prompts :: "delivery_event list" where
  "example_prompts =
     [Browser_Prompt ''1'' ''a'' True True, Browser_Prompt ''2'' ''b'' True True, Attach 1 False, Flush, Connection_Lost 1,
      Send_Settles 0 Rejected_By_Pi, Browser_Prompt ''1'' ''a'' True True, Attach 2 False, Flush, Browser_Prompt ''3'' ''c'' True True,
      Send_Settles 0 Accepted_By_Pi, Send_Settles 0 Outcome_Unknown]"


section \<open>At most once\<close>

fun delivered_ids :: "delivery_entry list \<Rightarrow> string list" where
  "delivered_ids [] = []"
| "delivered_ids (Delivered i t # es) = i # delivered_ids es"
| "delivered_ids (_ # es) = delivered_ids es"

lemma delivered_ids_append [simp]: "delivered_ids (xs @ ys) = delivered_ids xs @ delivered_ids ys"
  by (induction xs rule: delivered_ids.induct) simp_all

fun waiting :: "send_origin \<Rightarrow> send list \<Rightarrow> string list" where
  "waiting origin [] = []"
| "waiting origin (s # ss) = (if sn_origin s = origin then sn_id s # waiting origin ss else waiting origin ss)"

lemma waiting_append [simp]: "waiting origin (xs @ ys) = waiting origin xs @ waiting origin ys"
  by (induction xs) simp_all

text \<open>
  An open session after \<open>m\<close> prompts of browsers, with the prompts delivered, on their way from a browser, and on their way from the
  queue, the identifiers remembered, as a list and as a set, those reserved, and the queue. What is on its way from a browser is
  reserved and not yet remembered; the queue holds remembered prompts only, of which the first may be on its way.
\<close>

definition open_ok :: "nat \<Rightarrow> string list \<Rightarrow> string list \<Rightarrow> string list \<Rightarrow> string list \<Rightarrow> string set \<Rightarrow> string list \<Rightarrow> string list \<Rightarrow> bool \<Rightarrow> bool" where
  "open_ok m sent B K P S A q flushing \<longleftrightarrow>
     S = set P \<and> distinct P \<and> distinct A \<and> length P + length A \<le> m \<and> set B = set A \<and> set A \<inter> set P = {} \<and>
     set sent \<subseteq> set P \<and> distinct q \<and> set q \<subseteq> set P \<and> set q \<inter> set sent = {} \<and>
     (flushing \<longrightarrow> q \<noteq> []) \<and> K = (if flushing then [hd q] else [])"

lemma length_removeAll_distinct: "distinct xs \<Longrightarrow> x \<in> set xs \<Longrightarrow> Suc (length (removeAll x xs)) = length xs"
  by (induction xs) auto

lemma open_reserved:
  assumes "open_ok m sent (b1 @ i # b2) K P S A q fl"
  shows "i \<in> set A" and "i \<notin> set P" and "i \<notin> set q" and "length P < m" and "Suc (length P + length (removeAll i A)) \<le> m"
proof -
  show "i \<in> set A" "i \<notin> set P" "i \<notin> set q" using assms by (auto simp: open_ok_def)
  with length_removeAll_distinct [of A i] assms show "length P < m" "Suc (length P + length (removeAll i A)) \<le> m"
    by (auto simp: open_ok_def)
qed

lemma open_delivered:
  assumes "open_ok m sent (b1 @ i # b2) K P S A q fl" and "distinct (b1 @ i # b2)"
  shows "open_ok m (sent @ [i]) (b1 @ b2) K (P @ [i]) (insert i S) (removeAll i A) q fl"
  using assms open_reserved [OF assms(1)] unfolding open_ok_def by (auto simp: distinct_removeAll)

lemma open_queued:
  assumes "open_ok m sent (b1 @ i # b2) K P S A q fl" and "distinct (b1 @ i # b2)"
  shows "open_ok m sent (b1 @ b2) K (P @ [i]) (insert i S) (removeAll i A) (q @ [i]) fl"
  using assms open_reserved [OF assms(1)] unfolding open_ok_def by (auto simp: distinct_removeAll hd_append)

lemma open_refused:
  assumes "open_ok m sent (b1 @ i # b2) K P S A q fl" and "distinct (b1 @ i # b2)"
  shows "open_ok m sent (b1 @ b2) K P S (removeAll i A) q fl"
  using assms open_reserved [OF assms(1)] unfolding open_ok_def by (auto simp: distinct_removeAll)

lemma open_flushed:
  "open_ok m sent B [i] P S A (i # q) True \<Longrightarrow> open_ok m (sent @ [i]) B [] P S A q False"
  by (auto simp: open_ok_def)

lemma open_returned: "open_ok m sent B [i] P S A q True \<Longrightarrow> open_ok m sent B [] P S A q False"
  by (simp add: open_ok_def)

lemma open_head: "open_ok m sent B (k1 @ i # k2) P S A q fl \<Longrightarrow> k1 = [] \<and> k2 = [] \<and> fl \<and> q \<noteq> [] \<and> i = hd q"
  by (auto simp: open_ok_def Cons_eq_append_conv append_eq_Cons_conv split: if_splits)

definition once_ok :: "nat \<Rightarrow> delivery \<Rightarrow> bool" where
  "once_ok m d \<longleftrightarrow>
     distinct (delivered_ids (dv_log d) @ waiting From_Browser (dv_sends d) @ waiting From_Queue (dv_sends d)) \<and>
     list_all (\<lambda>s. sn_origin s \<noteq> From_Injection) (dv_sends d) \<and>
     (dv_closed d \<or>
       open_ok m (delivered_ids (dv_log d)) (waiting From_Browser (dv_sends d)) (waiting From_Queue (dv_sends d))
         (ses_processedIds (dv_session d)) (ses_processedIdSet (dv_session d)) (dv_accepting d) (map fst (dv_queue d)) (dv_flushing d))"

lemma remember_room:
  "length (ses_processedIds s) < limit \<Longrightarrow> rememberClientMessage s i limit =
     s\<lparr>ses_processedIds := ses_processedIds s @ [i], ses_processedIdSet := insert i (ses_processedIdSet s)\<rparr>"
  by (simp add: rememberClientMessage_def Let_def)

lemma logged_once: "once_ok m d \<Longrightarrow> delivered_ids [e] = [] \<Longrightarrow> once_ok m (logs e d)"
  by (simp add: once_ok_def)

text \<open>A prompt of a browser whose send is over: delivered, refused, or put into the queue.\<close>

lemma browser_once:
  assumes "once_ok m (d\<lparr>dv_sends := ys @ s # zs\<rparr>)" and "sn_origin s = From_Browser" and "m \<le> limit"
  shows "once_ok m (accept_browser limit (sn_id s) True (logs (Delivered (sn_id s) t) (d\<lparr>dv_sends := ys @ zs\<rparr>)))"
    and "once_ok m (release_id (sn_id s) (d\<lparr>dv_sends := ys @ zs\<rparr>))"
    and "\<not> dv_closed d \<Longrightarrow> once_ok m (queue_browser limit (sn_id s) t (d\<lparr>dv_sends := ys @ zs\<rparr>))"
proof -
  let ?L = "delivered_ids (dv_log d)" and ?b1 = "waiting From_Browser ys" and ?b2 = "waiting From_Browser zs"
  let ?K = "waiting From_Queue ys @ waiting From_Queue zs" and ?P = "ses_processedIds (dv_session d)"
  have D: "distinct (?L @ (?b1 @ sn_id s # ?b2) @ ?K)" "distinct (?b1 @ sn_id s # ?b2)"
    and I: "list_all (\<lambda>s. sn_origin s \<noteq> From_Injection) (ys @ zs)"
    using assms(1,2) by (auto simp: once_ok_def)
  have O: "open_ok m ?L (?b1 @ sn_id s # ?b2) ?K ?P (ses_processedIdSet (dv_session d)) (dv_accepting d) (map fst (dv_queue d)) (dv_flushing d)"
    if "\<not> dv_closed d" using assms(1,2) that by (simp add: once_ok_def)
  show "once_ok m (release_id (sn_id s) (d\<lparr>dv_sends := ys @ zs\<rparr>))"
    using D I open_refused [OF O D(2)] by (auto simp: once_ok_def release_id_def)
  show "once_ok m (accept_browser limit (sn_id s) True (logs (Delivered (sn_id s) t) (d\<lparr>dv_sends := ys @ zs\<rparr>)))"
  proof (cases "dv_closed d")
    case True
    with D I show ?thesis by (auto simp: once_ok_def accept_browser_def release_id_def)
  next
    case False
    have "length ?P < limit" using open_reserved(4) [OF O [OF False]] assms(3) by simp
    with False D I open_delivered [OF O D(2)] show ?thesis
      by (auto simp: once_ok_def accept_browser_def release_id_def persistSessionSync_def remember_room)
  qed
  assume open_session: "\<not> dv_closed d"
  note O = O [OF open_session]
  show "once_ok m (queue_browser limit (sn_id s) t (d\<lparr>dv_sends := ys @ zs\<rparr>))"
  proof (cases "length (dv_queue d) \<ge> OFFLINE_QUEUE_LIMIT")
    case True
    with D I open_refused [OF O D(2)] show ?thesis
      by (auto simp: queue_browser_def enqueueAgentMessage_def accept_browser_def once_ok_def release_id_def)
  next
    case False
    have "\<not> list_ex (\<lambda>(j, _). j = sn_id s) (dv_queue d)" using open_reserved(3) [OF O] by (force simp: list_ex_iff)
    with False have E: "queue_browser limit (sn_id s) t (d\<lparr>dv_sends := ys @ zs\<rparr>) =
        accept_browser limit (sn_id s) True (d\<lparr>dv_sends := ys @ zs, dv_queue := dv_queue d @ [(sn_id s, t)]\<rparr>)"
      by (simp add: queue_browser_def enqueueAgentMessage_def)
    have "length ?P < limit" using open_reserved(4) [OF O] assms(3) by simp
    with open_session D I open_queued [OF O D(2)] show ?thesis unfolding E
      by (auto simp: once_ok_def accept_browser_def release_id_def persistSessionSync_def remember_room)
  qed
qed

lemma resend_once:
  assumes "once_ok m (d\<lparr>dv_sends := ys @ s # zs\<rparr>)" and "sn_origin s = origin" and "origin \<noteq> From_Injection"
  shows "once_ok m (sendAgentMessage origin (sn_id s) t a (d\<lparr>dv_sends := ys @ zs\<rparr>))"
proof (cases origin)
  case From_Browser
  let ?ss = "ys @ zs @ [\<lparr>sn_origin = origin, sn_id = sn_id s, sn_text = t, sn_adapter = a\<rparr>]"
  have "waiting From_Queue ?ss = waiting From_Queue (ys @ s # zs)" "set (waiting From_Browser ?ss) = set (waiting From_Browser (ys @ s # zs))"
    "distinct (waiting From_Browser ?ss) = distinct (waiting From_Browser (ys @ s # zs))"
    using assms(2) From_Browser by auto
  with assms From_Browser show ?thesis by (auto simp: once_ok_def sendAgentMessage_def open_ok_def)
next
  case From_Queue
  let ?ss = "ys @ zs @ [\<lparr>sn_origin = origin, sn_id = sn_id s, sn_text = t, sn_adapter = a\<rparr>]"
  have "distinct (waiting From_Queue ?ss) = distinct (waiting From_Queue (ys @ s # zs))" "set (waiting From_Queue ?ss) = set (waiting From_Queue (ys @ s # zs))"
    using assms(2) From_Queue by auto
  moreover have "waiting From_Queue ?ss = waiting From_Queue (ys @ s # zs)" if "\<not> dv_closed d"
    using assms(1,2) From_Queue that open_head by (fastforce simp: once_ok_def)
  ultimately show ?thesis using assms From_Queue by (cases "dv_closed d") (auto simp: once_ok_def sendAgentMessage_def)
qed (use assms in simp)

lemma queue_once:
  assumes "once_ok m (d\<lparr>dv_sends := ys @ s # zs\<rparr>)" and "sn_origin s = From_Queue"
  shows "once_ok m (queue_settled r s (log_delivery r s (d\<lparr>dv_sends := ys @ zs\<rparr>)))"
proof (cases "dv_closed d")
  case True
  with assms show ?thesis by (auto simp: once_ok_def queue_settled_def log_delivery_def)
next
  case False
  let ?L = "delivered_ids (dv_log d)" and ?B = "waiting From_Browser ys @ waiting From_Browser zs"
  have D: "distinct (?L @ ?B @ waiting From_Queue ys @ sn_id s # waiting From_Queue zs)"
    and I: "list_all (\<lambda>s. sn_origin s \<noteq> From_Injection) (ys @ zs)"
    and O: "open_ok m ?L ?B (waiting From_Queue ys @ sn_id s # waiting From_Queue zs) (ses_processedIds (dv_session d))
      (ses_processedIdSet (dv_session d)) (dv_accepting d) (map fst (dv_queue d)) (dv_flushing d)"
    using assms False by (simp_all add: once_ok_def)
  have h: "waiting From_Queue ys = []" "waiting From_Queue zs = []" "dv_flushing d" "dv_queue d \<noteq> []" "sn_id s = fst (hd (dv_queue d))"
    using open_head [OF O] by (simp_all add: hd_map)
  then obtain t q where q: "dv_queue d = (sn_id s, t) # q" by (cases "dv_queue d") auto
  have O': "open_ok m ?L ?B [sn_id s] (ses_processedIds (dv_session d)) (ses_processedIdSet (dv_session d)) (dv_accepting d) (sn_id s # map fst q) True"
    using O by (simp add: h(1-3) q)
  show ?thesis
  proof (cases "r = Rejected_By_Pi")
    case True
    have returned: "once_ok m (d\<lparr>dv_sends := ys @ zs, dv_flushing := False\<rparr>)"
      using open_returned [OF O'] D I by (simp add: once_ok_def h(1,2) q)
    have again: "once_ok m (sendAgentMessage From_Queue (sn_id s) (sn_text s) a (d\<lparr>dv_sends := ys @ zs\<rparr>))" for a
      by (rule resend_once [OF assms(1,2)]) simp
    have "queue_settled r s (log_delivery r s (d\<lparr>dv_sends := ys @ zs\<rparr>)) =
      (case replacement s (d\<lparr>dv_sends := ys @ zs\<rparr>) of
        Some a \<Rightarrow> sendAgentMessage From_Queue (sn_id s) (sn_text s) a (d\<lparr>dv_sends := ys @ zs\<rparr>)
      | None \<Rightarrow> d\<lparr>dv_sends := ys @ zs, dv_flushing := False\<rparr>)"
      using True False by (simp add: queue_settled_def log_delivery_def)
    with returned again show ?thesis by (simp split: option.split)
  next
    case rejected: False
    from open_flushed [OF O'] D I rejected False show ?thesis
      by (simp add: queue_settled_def log_delivery_def persistSessionSync_def once_ok_def h(1,2) q)
  qed
qed

lemma settle_once:
  assumes "once_ok m (d\<lparr>dv_sends := ys @ s # zs\<rparr>)" and "m \<le> limit"
  shows "once_ok m (send_settled limit r s (d\<lparr>dv_sends := ys @ zs\<rparr>))"
proof (cases "sn_origin s")
  case From_Browser
  note browser = browser_once [OF assms(1) From_Browser assms(2)] and again = resend_once [OF assms(1) From_Browser]
  show ?thesis
  proof (cases "r = Rejected_By_Pi")
    case True
    with From_Browser browser(2,3) again show ?thesis
      by (auto simp: send_settled_def Let_def browser_settled_def log_delivery_def intro!: logged_once split: option.split)
  next
    case False
    with From_Browser browser(1) show ?thesis by (simp add: send_settled_def Let_def browser_settled_def log_delivery_def)
  qed
next
  case From_Queue
  with queue_once [OF assms(1)] show ?thesis by (simp add: send_settled_def Let_def)
next
  case From_Injection
  with assms(1) show ?thesis by (simp add: once_ok_def)
qed

lemma reserve_once:
  assumes "once_ok m d" and "\<not> dv_closed d" and "i \<notin> set (dv_accepting d)" and "\<not> isDuplicateClientMessage (dv_session d) i"
  shows "once_ok (Suc m) (sendAgentMessage From_Browser i t a (d\<lparr>dv_accepting := i # dv_accepting d\<rparr>))"
proof -
  let ?L = "delivered_ids (dv_log d)" and ?B = "waiting From_Browser (dv_sends d)" and ?K = "waiting From_Queue (dv_sends d)"
  let ?P = "ses_processedIds (dv_session d)"
  have O: "open_ok m ?L ?B ?K ?P (ses_processedIdSet (dv_session d)) (dv_accepting d) (map fst (dv_queue d)) (dv_flushing d)"
    and D: "distinct (?L @ ?B @ ?K)" "list_all (\<lambda>s. sn_origin s \<noteq> From_Injection) (dv_sends d)"
    using assms(1,2) by (simp_all add: once_ok_def)
  have i: "i \<notin> set ?P" using assms(4) O by (simp add: isDuplicateClientMessage_def open_ok_def)
  have "set ?K \<subseteq> set ?P" using O hd_in_set [of "map fst (dv_queue d)"] by (auto simp: open_ok_def split: if_splits)
  with O i assms(3) have "i \<notin> set ?L" "i \<notin> set ?B" "i \<notin> set ?K" by (auto simp: open_ok_def)
  moreover have "open_ok (Suc m) ?L (?B @ [i]) ?K ?P (ses_processedIdSet (dv_session d)) (i # dv_accepting d) (map fst (dv_queue d)) (dv_flushing d)"
    using O i assms(3) by (simp add: open_ok_def)
  ultimately show ?thesis using D assms(2) by (auto simp: once_ok_def sendAgentMessage_def)
qed

lemma more_once: "once_ok m d \<Longrightarrow> once_ok (Suc m) d"
  by (auto simp: once_ok_def open_ok_def)

lemma route_once:
  assumes "once_ok m d" and "Suc m \<le> limit"
  shows "once_ok (Suc m) (routeAgentMessage limit i t current fits d)"
proof (cases "dv_closed d \<or> \<not> current \<or> isDuplicateClientMessage (dv_session d) i \<or> \<not> fits \<or> i \<in> set (dv_accepting d)")
  case True
  with more_once [OF assms(1)] show ?thesis
    by (auto simp: routeAgentMessage_def acceptBrowserAgentMessage_def intro: logged_once)
next
  case False
  let ?d = "d\<lparr>dv_accepting := i # dv_accepting d\<rparr>"
  let ?s = "\<lparr>sn_origin = From_Browser, sn_id = i, sn_text = t, sn_adapter = 0\<rparr>"
  have sent: "once_ok (Suc m) (sendAgentMessage From_Browser i t a ?d)" for a using reserve_once [OF assms(1)] False by simp
  have "once_ok (Suc m) (?d\<lparr>dv_sends := dv_sends d @ ?s # []\<rparr>)" using sent [of 0] by (simp add: sendAgentMessage_def)
  from browser_once(3) [OF this _ assms(2)] False have "once_ok (Suc m) (queue_browser limit i t ?d)" by simp
  with sent False show ?thesis by (auto simp: routeAgentMessage_def acceptBrowserAgentMessage_def Let_def split: option.split)
qed

lemma flush_once:
  assumes "once_ok m d"
  shows "once_ok m (flushOfflineQueue d)"
proof (cases "dv_flushing d \<or> dv_closed d \<or> adapter_of d = None \<or> dv_queue d = []")
  case True
  with assms show ?thesis by (auto simp: flushOfflineQueue_def split: option.split list.split)
next
  case False
  then obtain a i t q where q: "adapter_of d = Some a" "dv_queue d = (i, t) # q" by (cases "dv_queue d") auto
  have "open_ok m (delivered_ids (dv_log d)) (waiting From_Browser (dv_sends d)) (waiting From_Queue (dv_sends d))
      (ses_processedIds (dv_session d)) (ses_processedIdSet (dv_session d)) (dv_accepting d) (i # map fst q) False"
    using assms False q by (simp add: once_ok_def)
  then have "waiting From_Queue (dv_sends d) = []" "i \<notin> set (delivered_ids (dv_log d))" "i \<notin> set (waiting From_Browser (dv_sends d))"
    by (auto simp: open_ok_def)
  with assms False q show ?thesis
    by (simp add: flushOfflineQueue_def sendAgentMessage_def once_ok_def open_ok_def) blast
qed

fun prompts :: "delivery_event list \<Rightarrow> nat" where
  "prompts [] = 0"
| "prompts (Browser_Prompt _ _ _ _ # es) = Suc (prompts es)"
| "prompts (_ # es) = prompts es"

fun ordinary :: "delivery_event \<Rightarrow> bool" where
  "ordinary (Inject _ _ _) \<longleftrightarrow> False"
| "ordinary Crash \<longleftrightarrow> False"
| "ordinary _ \<longleftrightarrow> True"

lemma step_once:
  assumes "once_ok m d" and "m + prompts [e] \<le> limit" and "ordinary e"
  shows "once_ok (m + prompts [e]) (delivery_step limit e d)"
proof (cases e)
  case (Browser_Prompt i t current fits)
  with assms route_once show ?thesis by simp
next
  case (Send_Settles n r)
  show ?thesis
  proof (cases "n < length (dv_sends d)")
    case True
    from id_take_nth_drop [OF True]
    have "once_ok m (d\<lparr>dv_sends := take n (dv_sends d) @ dv_sends d ! n # drop (Suc n) (dv_sends d)\<rparr>)" using assms(1) by simp
    from settle_once [OF this] assms(2) True Send_Settles show ?thesis by simp
  qed (use assms Send_Settles in simp)
next
  case Flush
  with assms flush_once show ?thesis by simp
qed (use assms in \<open>auto simp: once_ok_def persistSessionSync_def\<close>)

lemma run_once:
  "once_ok m d \<Longrightarrow> m + prompts es \<le> limit \<Longrightarrow> list_all ordinary es \<Longrightarrow> once_ok (m + prompts es) (delivery_run limit es d)"
proof (induction es arbitrary: m d)
  case (Cons e es)
  have p: "prompts (e # es) = prompts [e] + prompts es" by (cases e) simp_all
  from step_once [OF Cons.prems(1)] Cons.prems(2,3) p have "once_ok (m + prompts [e]) (delivery_step limit e d)" by simp
  from Cons.IH [OF this] Cons.prems(2,3) p show ?case by (simp add: delivery_run_def add.assoc)
qed (simp add: delivery_run_def)



section \<open>What may go wrong\<close>

text \<open>
  Only the head of the queue is flushed, after which the run state is running: a prompt that comes in then goes to Pi directly,
  before those that wait.
\<close>

lemma later_prompt_overtakes:
  "delivered_ids (dv_log (delivery_run 5
     [Browser_Prompt ''1'' ''a'' True True, Browser_Prompt ''2'' ''b'' True True, Attach 1 False, Flush, Send_Settles 0 Accepted_By_Pi,
      Browser_Prompt ''3'' ''c'' True True, Send_Settles 0 Accepted_By_Pi, Flush, Send_Settles 0 Accepted_By_Pi]
     (new_delivery example_session))) = [''1'', ''3'', ''2'']"
  by code_simp

text \<open>
  A flush that is asked for while another one waits for its adapter is dropped. When that adapter is lost, the outcome is unknown,
  and nothing flushes the rest of the queue to the adapter that is connected.
\<close>

lemma flush_is_dropped:
  "let d = delivery_run 5
     [Browser_Prompt ''1'' ''a'' True True, Browser_Prompt ''2'' ''b'' True True, Attach 1 False, Flush, Connection_Lost 1, Attach 2 False,
      Flush, Send_Settles 0 Outcome_Unknown] (new_delivery example_session)
   in adapter_of d = Some 2 \<and> map fst (dv_queue d) = [''2''] \<and> dv_sends d = [] \<and> \<not> dv_flushing d"
  by code_simp

text \<open>A session that was archived is no longer archived after a prompt of a browser is queued.\<close>

lemma prompt_reverts_archiving:
  "st_archived (dv_stored (delivery_run 5 [Archive_Session, Browser_Prompt ''1'' ''a'' True True] (new_delivery example_session))) = False"
  by code_simp

end
