(* ===== verification/Browser_Sync.thy ===== *)
theory Browser_Sync
  imports Browser_Replay
begin

text \<open>
  A browser and its session (web/src/ws.ts with the server side of Browser_Replay): connections that break and are made
  again, subscriptions that load a history, events that are numbered and prompts that are sent again.

  One session and one browser. The messages on their way are two lists, which a break empties. What the browser shows
  is taken as the list of numbered events it has applied since its transcript was last reset by a history. The
  loader of histories is a parameter; a subscription that awaits it is an entry of \<open>cn_loading\<close>. Envelopes, timers, the
  contents of the store and user space requests are left out; sending on an open socket does not throw.
\<close>

section \<open>Subscriptions, cut at their await\<close>

datatype subscription = Loads_Initial history_reason | Loads_Gap int | Loads_Recovery

definition subscribe_begins :: "session \<Rightarrow> nat \<Rightarrow> int \<Rightarrow> (outgoing list + subscription) \<times> session" where
  "subscribe_begins s socket lastSeq =
     (case om_get (ses_sockets s) socket of
        None \<Rightarrow> (Inl [], s)
      | Some d \<Rightarrow>
          (let from_seq = replay_from s lastSeq;
               s0 = s\<lparr>ses_sockets := om_set (ses_sockets s) socket (d\<lparr>sk_subscribed := True, sk_lastAckSeq := Some from_seq\<rparr>)\<rparr>
           in if from_seq = 0 then (Inr (Loads_Initial (if cursor_ahead s lastSeq then HistRecovery else HistInitial)), s0)
              else (case ses_eventBuffer s0 of
                      [] \<Rightarrow> (Inr Loads_Recovery, s0)
                    | first # _ \<Rightarrow>
                        if from_seq < be_seq first - 1 then (Inr (Loads_Gap from_seq), s0)
                        else (let missed = missed_events s0 from_seq False isHistoryBackedEvent in
                              (Inl ((if missed \<noteq> [] then [EventReplay missed] else []) @ [run_state_message s0]), s0)))))"

definition replay_rest :: "session \<Rightarrow> int \<Rightarrow> outgoing list" where
  "replay_rest s from_seq =
     (let missed = missed_events s from_seq True isHistoryBackedEvent in
      (if missed \<noteq> [] then [EventReplay missed] else []) @ [run_state_message s])"

fun subscribe_ends :: "(history_reason \<Rightarrow> json option) \<Rightarrow> subscription \<Rightarrow> session \<Rightarrow> outgoing list" where
  "subscribe_ends load (Loads_Initial r) s = sendHistory load r # replay_rest s 0"
| "subscribe_ends load (Loads_Gap from_seq) s = sendHistory load HistGap # replay_rest s from_seq"
| "subscribe_ends load Loads_Recovery s = [sendHistory load HistRecovery, run_state_message s]"

text \<open>Both parts together are the handler of Browser_Replay, whatever happens during the await.\<close>

lemma subscribe_in_parts:
  "handleSessionSubscribe load isHistoryBackedEvent turn turn s socket lastSeq =
     (case subscribe_begins s socket lastSeq of
        (Inl out, t) \<Rightarrow> (out, t)
      | (Inr p, t) \<Rightarrow> (subscribe_ends load p (turn t), turn t))"
proof (cases "om_get (ses_sockets s) socket")
  case (Some d)
  let ?f = "replay_from s lastSeq"
  let ?s = "s\<lparr>ses_sockets := om_set (ses_sockets s) socket (d\<lparr>sk_subscribed := True, sk_lastAckSeq := Some ?f\<rparr>)\<rparr>"
  have f: "0 \<le> ?f" by simp
  show ?thesis
  proof (cases "?f = 0")
    case True
    have "missed_events (turn ?s) 0 True isHistoryBackedEvent = []" if "ses_eventBuffer (turn ?s) = []"
      using that by (simp add: missed_events_def)
    with True Some show ?thesis
      by (auto simp: handleSessionSubscribe_def subscribe_begins_def Let_def replay_rest_def split: list.split)
  next
    case False
    with f have "0 < ?f" by linarith
    with Some show ?thesis
      by (auto simp: handleSessionSubscribe_def subscribe_begins_def Let_def replay_rest_def split: list.split)
  qed
qed (simp add: handleSessionSubscribe_def subscribe_begins_def)

section \<open>The browser\<close>

datatype downstream =
    Session_Init int
  | Live buffered_event
  | Answer outgoing
  | Message_Accepted int string

datatype browser_message = Agent_Message int string string | Setting string | Command string

datatype upstream = Subscribe int | Session_Ack int | Sends browser_message

record browser =
  br_lastSeq :: int
  br_applied :: "buffered_event list"
  br_generation :: "int option"
  br_unacknowledged :: "(string, int \<times> string) omap"
  br_outgoing :: "string list"

definition MAX_PENDING_OUTGOING_PER_SESSION :: nat where "MAX_PENDING_OUTGOING_PER_SESSION = 128"

definition setLastSeq :: "int \<Rightarrow> browser \<Rightarrow> browser" where
  "setLastSeq seq b = b\<lparr>br_lastSeq := max 0 seq\<rparr>"

definition subscribeSeq :: "bool \<Rightarrow> browser \<Rightarrow> int" where
  "subscribeSeq hydrated b = (if hydrated then br_lastSeq b else 0)"

text \<open>Prompts that were sent and are not acknowledged; those that are sent again get the generation of the session.\<close>

definition rememberUnacknowledgedAgentMessage :: "string \<Rightarrow> int \<Rightarrow> string \<Rightarrow> browser \<Rightarrow> bool \<times> browser" where
  "rememberUnacknowledgedAgentMessage i generation content b =
     (if length (br_unacknowledged b) \<ge> MAX_PENDING_OUTGOING_PER_SESSION \<and> \<not> om_has (br_unacknowledged b) i then (False, b)
      else (True, b\<lparr>br_unacknowledged := om_set (br_unacknowledged b) i (generation, content)\<rparr>))"

definition acknowledgeAgentMessage :: "string \<Rightarrow> browser \<Rightarrow> browser" where
  "acknowledgeAgentMessage i b = b\<lparr>br_unacknowledged := om_delete (br_unacknowledged b) i\<rparr>"

definition resendUnacknowledgedAgentMessages :: "browser \<Rightarrow> browser \<times> upstream list" where
  "resendUnacknowledgedAgentMessages b =
     (let again = map (\<lambda>(i, g, c). (i, case br_generation b of Some h \<Rightarrow> h | None \<Rightarrow> g, c)) (br_unacknowledged b)
      in (b\<lparr>br_unacknowledged := again\<rparr>, map (\<lambda>(i, g, c). Sends (Agent_Message g i c)) again))"

text \<open>
  What a numbered event does besides changing the transcript; \<open>session_init\<close> may also be broadcast. An event of an older
  generation is let through by its number and then changes nothing.
\<close>

definition generation_types :: "string list" where
  "generation_types = [''agent_message'', ''message_delta'', ''tool_execution'', ''interaction_request'', ''interaction_response'',
     ''run_state'', ''pi_queue'', ''pi_extension_event'']"

definition message_generation :: "json \<Rightarrow> int option" where
  "message_generation m = (case member m ''generation'' of JNumber (JInt g) \<Rightarrow> Some g | _ \<Rightarrow> None)"

definition event_generation :: "json \<Rightarrow> int option" where
  "event_generation m = (if str_of (member m ''type'') \<in> set generation_types then message_generation m else None)"

definition user_message_id :: "json \<Rightarrow> string option" where
  "user_message_id m =
     (if member m ''type'' = JString ''agent_message'' \<and> member (member m ''message'') ''role'' = JString ''user''
      then (case member (member m ''message'') ''id'' of JString i \<Rightarrow> Some i | _ \<Rightarrow> None) else None)"

definition newer_generation :: "int option \<Rightarrow> int option \<Rightarrow> int option" where
  "newer_generation current g =
     (case (current, g) of (Some c, Some n) \<Rightarrow> Some (max c n) | _ \<Rightarrow> current)"

definition apply_event :: "buffered_event \<Rightarrow> browser \<Rightarrow> browser \<times> upstream list" where
  "apply_event e b =
     (let m = be_message e; b1 = b\<lparr>br_applied := br_applied b @ [e]\<rparr> in
      if member m ''type'' = JString ''session_init''
      then resendUnacknowledgedAgentMessages (b1\<lparr>br_generation := message_generation (member m ''session'')\<rparr>)
      else if (case (br_generation b, event_generation m) of (Some c, Some g) \<Rightarrow> g < c | _ \<Rightarrow> False) then (b1, [])
      else (let b2 = b1\<lparr>br_generation := newer_generation (br_generation b) (event_generation m)\<rparr> in
            (case user_message_id m of Some i \<Rightarrow> acknowledgeAgentMessage i b2 | None \<Rightarrow> b2, [])))"

text \<open>A replay: events that are not new are skipped; the last of the others is acknowledged.\<close>

fun apply_replay :: "buffered_event list \<Rightarrow> browser \<times> upstream list \<Rightarrow> browser \<times> upstream list" where
  "apply_replay [] (b, up) = (b, up)"
| "apply_replay (e # es) (b, up) =
     (if be_seq e \<le> br_lastSeq b then apply_replay es (b, up)
      else (let (b', out) = apply_event e (setLastSeq (be_seq e) b) in apply_replay es (b', up @ out)))"

fun resets :: "history_reason \<Rightarrow> bool" where
  "resets HistInitial = True" | "resets HistGap = True" | "resets HistRecovery = True"

fun handleParsedMessage :: "downstream \<Rightarrow> browser \<Rightarrow> browser \<times> upstream list" where
  "handleParsedMessage (Session_Init g) b = resendUnacknowledgedAgentMessages ((setLastSeq 0 b)\<lparr>br_generation := Some g\<rparr>)"
| "handleParsedMessage (Live e) b =
     (if be_seq e \<le> br_lastSeq b then (b, [])
      else (let (b', out) = apply_event e (setLastSeq (be_seq e) b) in (b', Session_Ack (be_seq e) # out)))"
| "handleParsedMessage (Answer (HistorySnapshot reason h)) b =
     (let b1 = (if reason = HistRecovery then setLastSeq 0 b else b)
      in (if resets reason then b1\<lparr>br_applied := []\<rparr> else b1, []))"
| "handleParsedMessage (Answer HistoryUnavailable) b = (b, [])"
| "handleParsedMessage (Answer (EventReplay es)) b =
     (let (b', out) = apply_replay es (b, [])
      in (b', out @ (if \<exists>e \<in> set es. br_lastSeq b < be_seq e then [Session_Ack (br_lastSeq b')] else [])))"
| "handleParsedMessage (Answer (RunState s g u)) b = (b\<lparr>br_generation := newer_generation (br_generation b) (Some g)\<rparr>, [])"
| "handleParsedMessage (Message_Accepted g i) b =
     (if br_generation b = Some g then acknowledgeAgentMessage i b else b, [])"

text \<open>\<open>sendToSession\<close>, with the generation the caller has put into the message.\<close>

definition enqueueOutgoing :: "string \<Rightarrow> browser \<Rightarrow> browser" where
  "enqueueOutgoing m b =
     b\<lparr>br_outgoing := (if length (br_outgoing b) \<ge> MAX_PENDING_OUTGOING_PER_SESSION then tl (br_outgoing b) else br_outgoing b) @ [m]\<rparr>"

fun sendToSession :: "bool \<Rightarrow> browser_message \<Rightarrow> browser \<Rightarrow> bool \<times> browser \<times> upstream list" where
  "sendToSession is_open (Agent_Message g i content) b =
     (if is_open
      then (let (ok, b') = rememberUnacknowledgedAgentMessage i g content b
            in if ok then (True, b', [Sends (Agent_Message g i content)]) else (False, b, []))
      else (False, b, []))"
| "sendToSession is_open (Setting m) b = (if is_open then (True, b, [Sends (Setting m)]) else (True, enqueueOutgoing m b, []))"
| "sendToSession is_open (Command m) b = (if is_open then (True, b, [Sends (Command m)]) else (False, b, []))"

section \<open>A browser and its server\<close>

record socket_link =
  cn_down :: "downstream list"
  cn_up :: "upstream list"
  cn_loading :: "subscription list"

record sync =
  sy_session :: session
  sy_log :: "buffered_event list"
  sy_browser :: browser
  sy_connection :: "socket_link option"

datatype sync_event =
    Broadcast json
  | Opens socket_data bool
  | Resubscribes bool
  | Server_Reads
  | History_Loads nat
  | Browser_Reads
  | Browser_Sends browser_message
  | Connection_Drops

definition pushes :: "downstream list \<Rightarrow> sync \<Rightarrow> sync" where
  "pushes ms y = y\<lparr>sy_connection := map_option (\<lambda>c. c\<lparr>cn_down := cn_down c @ ms\<rparr>) (sy_connection y)\<rparr>"

definition server_reads :: "upstream \<Rightarrow> sync \<Rightarrow> sync" where
  "server_reads m y =
     (case m of
        Subscribe n \<Rightarrow>
          (case subscribe_begins (sy_session y) 0 n of
             (Inl out, s) \<Rightarrow> pushes (map Answer out) (y\<lparr>sy_session := s\<rparr>)
           | (Inr p, s) \<Rightarrow> y\<lparr>sy_session := s, sy_connection := map_option (\<lambda>c. c\<lparr>cn_loading := cn_loading c @ [p]\<rparr>) (sy_connection y)\<rparr>)
      | Session_Ack n \<Rightarrow> y\<lparr>sy_session := handleSessionAck (sy_session y) 0 n\<rparr>
      | _ \<Rightarrow> y)"

text \<open>
  \<open>Opens\<close> is the moment the socket is open on both sides: the browser sends its cursor and what is queued, and what was
  connected before is gone.
\<close>

fun sync_step :: "(buffered_event \<Rightarrow> int) \<Rightarrow> (history_reason \<Rightarrow> json option) \<Rightarrow> sync_event \<Rightarrow> sync \<Rightarrow> sync" where
  "sync_step msr load (Broadcast m) y =
     (let e = \<lparr>be_seq = ses_nextEventSeq (sy_session y), be_message = m\<rparr> in
      pushes [Live e] (y\<lparr>sy_session := emit msr EVENT_BUFFER_LIMIT EVENT_BUFFER_MAX_BYTES m (sy_session y), sy_log := sy_log y @ [e]\<rparr>))"
| "sync_step msr load (Opens d hydrated) y =
     (let s = sy_session y; b = sy_browser y in
      y\<lparr>sy_session := s\<lparr>ses_sockets := om_set (ses_sockets s) 0 (d\<lparr>sk_subscribed := False, sk_lastAckSeq := Some 0\<rparr>)\<rparr>,
        sy_browser := b\<lparr>br_outgoing := []\<rparr>,
        sy_connection := Some \<lparr>cn_down = [Session_Init (ses_generation s)],
          cn_up = Subscribe (subscribeSeq hydrated b) # map (\<lambda>m. Sends (Setting m)) (br_outgoing b), cn_loading = []\<rparr>\<rparr>)"
| "sync_step msr load (Resubscribes hydrated) y =
     y\<lparr>sy_connection := map_option (\<lambda>c. c\<lparr>cn_up := cn_up c @ [Subscribe (subscribeSeq hydrated (sy_browser y))]\<rparr>) (sy_connection y)\<rparr>"
| "sync_step msr load Server_Reads y =
     (case sy_connection y of
        Some c \<Rightarrow>
          (case cn_up c of
             m # ms \<Rightarrow> server_reads m (y\<lparr>sy_connection := Some (c\<lparr>cn_up := ms\<rparr>)\<rparr>)
           | [] \<Rightarrow> y)
      | None \<Rightarrow> y)"
| "sync_step msr load (History_Loads n) y =
     (case sy_connection y of
        Some c \<Rightarrow>
          (if n < length (cn_loading c)
           then pushes (map Answer (subscribe_ends load (cn_loading c ! n) (sy_session y)))
             (y\<lparr>sy_connection := Some (c\<lparr>cn_loading := take n (cn_loading c) @ drop (n + 1) (cn_loading c)\<rparr>)\<rparr>)
           else y)
      | None \<Rightarrow> y)"
| "sync_step msr load Browser_Reads y =
     (case sy_connection y of
        Some c \<Rightarrow>
          (case cn_down c of
             m # ms \<Rightarrow>
               (let (b, out) = handleParsedMessage m (sy_browser y)
                in y\<lparr>sy_browser := b, sy_connection := Some (c\<lparr>cn_down := ms, cn_up := cn_up c @ out\<rparr>)\<rparr>)
           | [] \<Rightarrow> y)
      | None \<Rightarrow> y)"
| "sync_step msr load (Browser_Sends m) y =
     (let (ok, b, out) = sendToSession (sy_connection y \<noteq> None) m (sy_browser y)
      in y\<lparr>sy_browser := b, sy_connection := map_option (\<lambda>c. c\<lparr>cn_up := cn_up c @ out\<rparr>) (sy_connection y)\<rparr>)"
| "sync_step msr load Connection_Drops y =
     y\<lparr>sy_session := (sy_session y)\<lparr>ses_sockets := om_delete (ses_sockets (sy_session y)) 0\<rparr>, sy_connection := None\<rparr>"

definition sync_run :: "(buffered_event \<Rightarrow> int) \<Rightarrow> (history_reason \<Rightarrow> json option) \<Rightarrow> sync_event list \<Rightarrow> sync \<Rightarrow> sync" where
  "sync_run msr load es y = fold (sync_step msr load) es y"

definition new_browser :: browser where
  "new_browser = \<lparr>br_lastSeq = 0, br_applied = [], br_generation = None, br_unacknowledged = [], br_outgoing = []\<rparr>"

definition new_sync :: "session \<Rightarrow> sync" where
  "new_sync s = \<lparr>sy_session = s, sy_log = [], sy_browser = new_browser, sy_connection = None\<rparr>"

section \<open>What counts for the order of events\<close>

type_synonym cursor_view = "int \<times> buffered_event list"

definition cursor_view :: "browser \<Rightarrow> cursor_view" where
  "cursor_view b = (br_lastSeq b, br_applied b)"

fun takes :: "buffered_event \<Rightarrow> cursor_view \<Rightarrow> cursor_view" where
  "takes e (n, A) = (if be_seq e \<le> n then (n, A) else (max 0 (be_seq e), A @ [e]))"

fun handles :: "downstream \<Rightarrow> cursor_view \<Rightarrow> cursor_view" where
  "handles (Session_Init g) (n, A) = (0, A)"
| "handles (Live e) v = takes e v"
| "handles (Answer (HistorySnapshot r h)) (n, A) = (if r = HistRecovery then 0 else n, [])"
| "handles (Answer (EventReplay es)) v = fold takes es v"
| "handles _ v = v"

lemma view_simps [simp]:
  "cursor_view (fst (resendUnacknowledgedAgentMessages b)) = cursor_view b" "cursor_view (acknowledgeAgentMessage i b) = cursor_view b"
  "cursor_view (b\<lparr>br_generation := g\<rparr>) = cursor_view b" "cursor_view (b\<lparr>br_outgoing := x\<rparr>) = cursor_view b" "cursor_view (b\<lparr>br_unacknowledged := u\<rparr>) = cursor_view b"
  by (simp_all add: cursor_view_def resendUnacknowledgedAgentMessages_def Let_def acknowledgeAgentMessage_def)

lemma view_apply_event: "cursor_view (fst (apply_event e b)) = (br_lastSeq b, br_applied b @ [e])"
  by (auto simp: apply_event_def Let_def cursor_view_def resendUnacknowledgedAgentMessages_def acknowledgeAgentMessage_def split: option.split)

lemma view_takes:
  "be_seq e \<le> br_lastSeq b \<Longrightarrow> takes e (cursor_view b) = cursor_view b"
  "\<not> be_seq e \<le> br_lastSeq b \<Longrightarrow> takes e (cursor_view b) = cursor_view (fst (apply_event e (setLastSeq (be_seq e) b)))"
  by (simp add: cursor_view_def, simp add: view_apply_event, simp add: cursor_view_def setLastSeq_def)

lemma view_replay: "cursor_view (fst (apply_replay es (b, up))) = fold takes es (cursor_view b)"
proof (induction es arbitrary: b up)
  case (Cons e es)
  obtain b' out where a: "apply_event e (setLastSeq (be_seq e) b) = (b', out)" by force
  with Cons view_takes [of e b] show ?case by simp
qed simp

lemma view_handles: "cursor_view (fst (handleParsedMessage m b)) = handles m (cursor_view b)"
proof (cases m)
  case (Live e)
  then show ?thesis using view_takes [of e b] by (auto split: prod.split)
next
  case (Answer a)
  show ?thesis
  proof (cases a)
    case (HistorySnapshot r h)
    with Answer show ?thesis by (cases r) (simp_all add: cursor_view_def setLastSeq_def)
  next
    case (EventReplay es)
    with Answer view_replay [of es b "[]"] show ?thesis by (auto split: prod.split)
  qed (use Answer in simp_all)
qed (simp_all add: setLastSeq_def cursor_view_def resendUnacknowledgedAgentMessages_def acknowledgeAgentMessage_def Let_def)

text \<open>A view is good when its events are in order and below the next number; after \<open>session_init\<close> the last number is 0.\<close>

fun good_view :: "int \<Rightarrow> cursor_view \<Rightarrow> bool" where
  "good_view N (n, A) \<longleftrightarrow>
     sorted_wrt (<) (map be_seq A) \<and> (\<forall>a \<in> set A. 0 < be_seq a \<and> be_seq a < N) \<and> 0 \<le> n \<and> n < N \<and> (n = 0 \<or> (\<forall>a \<in> set A. be_seq a \<le> n))"

fun good_views :: "int \<Rightarrow> cursor_view \<Rightarrow> downstream list \<Rightarrow> bool" where
  "good_views N v [] \<longleftrightarrow> good_view N v"
| "good_views N v (m # q) \<longleftrightarrow> good_view N v \<and> good_views N (handles m v) q"

definition drained :: "cursor_view \<Rightarrow> downstream list \<Rightarrow> cursor_view" where
  "drained v q = fold handles q v"

text \<open>What a cursor may be: 0, or not below the events shown, unless a new one has been shown since the connection was made.\<close>

fun cursor_ok :: "int \<Rightarrow> cursor_view \<Rightarrow> int \<Rightarrow> bool" where
  "cursor_ok N (n, A) L \<longleftrightarrow> 0 \<le> L \<and> L < N \<and> (L = 0 \<or> n \<noteq> 0 \<or> (\<forall>a \<in> set A. be_seq a \<le> L))"

lemma good_view_more: "good_view N v \<Longrightarrow> N \<le> M \<Longrightarrow> good_view M v"
  by (cases v) auto

lemma good_views_more: "good_views N v q \<Longrightarrow> N \<le> M \<Longrightarrow> good_views M v q"
  by (induction q arbitrary: v) (auto intro: good_view_more)

lemma cursor_ok_more: "cursor_ok N v L \<Longrightarrow> N \<le> M \<Longrightarrow> cursor_ok M v L"
  by (cases v) auto

lemma good_views_snoc: "good_views N v (q @ [m]) \<longleftrightarrow> good_views N v q \<and> good_view N (handles m (drained v q))"
  by (induction q arbitrary: v) (auto simp: drained_def)

lemma good_views_end: "good_views N v q \<Longrightarrow> good_view N (drained v q)"
  by (induction q arbitrary: v) (auto simp: drained_def)

lemma good_views_start: "good_views N v q \<Longrightarrow> good_view N v"
  by (cases q) auto

lemma drained_append [simp]: "drained v (p @ q) = drained (drained v p) q"
  by (simp add: drained_def)

lemma drained_simps [simp]: "drained v [] = v" "drained v (m # q) = drained (handles m v) q"
  by (simp_all add: drained_def)

lemma good_live:
  "good_view N v \<Longrightarrow> be_seq e = N \<Longrightarrow> good_view (N + 1) (takes e v) \<and> fst (takes e v) = N \<and> e \<in> set (snd (takes e v))"
  by (cases v) (fastforce simp: sorted_wrt_append)

lemma cursor_nonzero: "cursor_ok N v L \<Longrightarrow> fst w \<noteq> 0 \<Longrightarrow> cursor_ok N w L"
  by (cases v; cases w) auto

text \<open>A replay behind a cursor that is good for the view.\<close>

lemma good_replay:
  assumes "good_view N (n, A)" and "cursor_ok N (n, A) L" and "L \<noteq> 0 \<or> A = []"
    and "sorted_wrt (<) (map be_seq es)" and "\<forall>e \<in> set es. L < be_seq e \<and> 0 < be_seq e \<and> be_seq e < N"
  shows "good_view N (fold takes es (n, A)) \<and> (es \<noteq> [] \<longrightarrow> fst (fold takes es (n, A)) \<noteq> 0)"
  using assms
proof (induction es arbitrary: n A L)
  case (Cons e es)
  let ?v = "takes e (n, A)"
  have e: "0 < be_seq e" "be_seq e < N" "L < be_seq e" using Cons.prems(5) by auto
  have g: "good_view N ?v" using Cons.prems(1,2,3) e by (fastforce simp: sorted_wrt_append)
  have nz: "fst ?v \<noteq> 0" using e Cons.prems(1) by auto
  obtain n' A' where v: "?v = (n', A')" by force
  have "cursor_ok N (n', A') (be_seq e)" using e nz v by simp
  moreover have "\<forall>x \<in> set es. be_seq e < be_seq x \<and> 0 < be_seq x \<and> be_seq x < N" "sorted_wrt (<) (map be_seq es)"
    using Cons.prems(4,5) by auto
  ultimately have "good_view N (fold takes es (n', A')) \<and> (es \<noteq> [] \<longrightarrow> fst (fold takes es (n', A')) \<noteq> 0)"
    using Cons.IH [of n' A' "be_seq e"] g v e(1) by simp
  with nz v show ?case by (cases es) simp_all
qed simp

section \<open>The invariant\<close>

fun numbered :: "downstream \<Rightarrow> buffered_event list" where
  "numbered (Live e) = [e]"
| "numbered (Answer (EventReplay es)) = es"
| "numbered _ = []"

fun starts :: "downstream \<Rightarrow> bool" where
  "starts (Session_Init g) \<longleftrightarrow> True"
| "starts _ \<longleftrightarrow> False"

definition channel_ok :: "int \<Rightarrow> cursor_view \<Rightarrow> downstream list \<Rightarrow> upstream list \<Rightarrow> bool" where
  "channel_ok N v down up \<longleftrightarrow>
     good_views N v down \<and> list_all (\<lambda>m. \<not> starts m) (tl down) \<and> (\<forall>m \<in> set down. \<forall>e \<in> set (numbered m). 0 < be_seq e) \<and>
     (\<forall>L. Subscribe L \<in> set up \<longrightarrow> cursor_ok N (drained v down) L)"

definition sync_ok :: "(buffered_event \<Rightarrow> int) \<Rightarrow> sync \<Rightarrow> bool" where
  "sync_ok msr y \<longleftrightarrow>
     replay_inv msr EVENT_BUFFER_LIMIT EVENT_BUFFER_MAX_BYTES (sy_session y) (sy_log y) \<and>
     (case sy_connection y of
        None \<Rightarrow> good_view (ses_nextEventSeq (sy_session y)) (cursor_view (sy_browser y))
      | Some c \<Rightarrow> channel_ok (ses_nextEventSeq (sy_session y)) (cursor_view (sy_browser y)) (cn_down c) (cn_up c))"

lemma channel_push:
  assumes "channel_ok N v down up" and "\<not> starts m" and "\<forall>e \<in> set (numbered m). 0 < be_seq e"
    and "good_view N (handles m (drained v down))" and "\<And>L. cursor_ok N (drained v down) L \<Longrightarrow> cursor_ok N (handles m (drained v down)) L"
  shows "channel_ok N v (down @ [m]) up"
  using assms by (cases down) (auto simp: channel_ok_def good_views_snoc)

lemma channel_plain: "channel_ok N v down up \<Longrightarrow> channel_ok N v (down @ [Answer (run_state_message s)]) up"
  by (rule channel_push) (auto simp: run_state_message_def channel_ok_def good_views_end)

lemma channel_replay:
  assumes "channel_ok N v down up" and "cursor_ok N (drained v down) L" and "L \<noteq> 0 \<or> snd (drained v down) = []"
    and "sorted_wrt (<) (map be_seq es)" and "\<forall>e \<in> set es. L < be_seq e \<and> 0 < be_seq e \<and> be_seq e < N"
  shows "channel_ok N v (down @ [Answer (EventReplay es)]) up"
proof -
  obtain n A where D: "drained v down = (n, A)" by force
  have g: "good_view N (n, A)" using assms(1) D good_views_end [of N v down] by (simp add: channel_ok_def)
  from good_replay [OF g] assms D have "good_view N (fold takes es (n, A))" "es \<noteq> [] \<Longrightarrow> fst (fold takes es (n, A)) \<noteq> 0" by auto
  then show ?thesis using assms(1,5) D by (cases "es = []") (auto intro!: channel_push intro: cursor_nonzero)
qed

lemma channel_history:
  assumes "channel_ok N v down up"
  shows "channel_ok N v (down @ [Answer (HistorySnapshot r h)]) up" and "snd (drained v (down @ [Answer (HistorySnapshot r h)])) = []"
proof -
  obtain n A where D: "drained v down = (n, A)" by force
  have "good_view N (n, A)" using assms D good_views_end [of N v down] by (simp add: channel_ok_def)
  then show "channel_ok N v (down @ [Answer (HistorySnapshot r h)]) up" using assms D by (intro channel_push) auto
  show "snd (drained v (down @ [Answer (HistorySnapshot r h)])) = []" using D by simp
qed

lemma replay_inv_sockets [simp]:
  "replay_inv msr mi mb (s\<lparr>ses_sockets := x\<rparr>) log = replay_inv msr mi mb s log"
  "replay_inv msr mi mb (s\<lparr>ses_lastAckSeq := l\<rparr>) log = replay_inv msr mi mb s log"
  by (simp_all add: replay_inv_def replayEventBuffer_def split: option.split)

lemma ack_simps [simp]:
  "replay_inv msr mi mb (handleSessionAck s k n) log = replay_inv msr mi mb s log"
  "ses_nextEventSeq (handleSessionAck s k n) = ses_nextEventSeq s"
  by (simp_all add: handleSessionAck_def Let_def split: option.split)

lemma buffered_events:
  assumes "replay_inv msr mi mb s log"
  shows "sorted_wrt (<) (map be_seq (ses_eventBuffer s))" and "set (ses_eventBuffer s) \<subseteq> set log"
    and "\<forall>e \<in> set (ses_eventBuffer s). 0 < be_seq e \<and> be_seq e < ses_nextEventSeq s"
proof -
  obtain pre where p: "filter (bufferable msr mb) log = pre @ ses_eventBuffer s" using assms by (auto simp: replay_inv_def suffix_def)
  have "sorted_wrt (<) (map be_seq (pre @ ses_eventBuffer s))"
    unfolding p [symmetric] using assms by (intro filter_sorted_seq) (simp add: replay_inv_def)
  then show "sorted_wrt (<) (map be_seq (ses_eventBuffer s))" by (simp add: sorted_wrt_append)
  have "set (ses_eventBuffer s) \<subseteq> set (filter (bufferable msr mb) log)" unfolding p by simp
  then show "set (ses_eventBuffer s) \<subseteq> set log" by auto
  with assms show "\<forall>e \<in> set (ses_eventBuffer s). 0 < be_seq e \<and> be_seq e < ses_nextEventSeq s" by (auto simp: replay_inv_def)
qed

lemma missed_sorted:
  assumes "replay_inv msr mi mb s log"
  shows "sorted_wrt (<) (map be_seq (missed_events s f h b))"
    and "\<forall>e \<in> set (missed_events s f h b). f < be_seq e \<and> 0 < be_seq e \<and> be_seq e < ses_nextEventSeq s"
  using buffered_events [OF assms] by (auto simp: missed_events_def intro!: filter_sorted_seq)

lemma channel_rest:
  assumes "channel_ok N v down up" and "snd (drained v down) = []" and "replay_inv msr mi mb s log" and "N = ses_nextEventSeq s"
  shows "channel_ok N v (down @ map Answer (replay_rest s f)) up"
proof -
  have "cursor_ok N (drained v down) 0" using assms(3,4) by (cases "drained v down") (simp add: replay_inv_def)
  with assms missed_sorted [OF assms(3), of f True isHistoryBackedEvent]
  have "channel_ok N v (down @ [Answer (EventReplay (missed_events s f True isHistoryBackedEvent))]) up"
    by (intro channel_replay [where L = 0]) auto
  from channel_plain [OF this] channel_plain [OF assms(1)] show ?thesis by (simp add: replay_rest_def Let_def)
qed

lemma channel_ends:
  assumes "channel_ok N v down up" and "replay_inv msr mi mb s log" and "N = ses_nextEventSeq s" and "\<And>r. load r \<noteq> None"
  shows "channel_ok N v (down @ map Answer (subscribe_ends load p s)) up"
proof -
  have "\<exists>h. sendHistory load r = HistorySnapshot r h" for r using assms(4) [of r] by (auto simp: sendHistory_def)
  then obtain h where h: "\<And>r. sendHistory load r = HistorySnapshot r (h r)" by metis
  note history = channel_history [OF assms(1)]
  note rest = channel_rest [OF history(1) history(2) assms(2,3)] and plain = channel_plain [OF history(1)]
  show ?thesis using rest plain by (cases p) (simp_all add: h)
qed

lemma subscribe_begins_ok:
  assumes "subscribe_begins s k L = (out, t)" and "replay_inv msr mi mb s log"
  shows "replay_inv msr mi mb t log" and "ses_nextEventSeq t = ses_nextEventSeq s"
  using assms by (auto simp: subscribe_begins_def Let_def split: option.splits if_splits list.splits)

lemma subscribe_begins_replays:
  assumes "subscribe_begins s k L = (Inl out, t)" and "replay_inv msr mi mb s log" and "N = ses_nextEventSeq s"
    and "channel_ok N v down up" and "cursor_ok N (drained v down) L"
  shows "channel_ok N v (down @ map Answer out) up"
proof (cases "om_get (ses_sockets s) k")
  case None
  with assms show ?thesis by (simp add: subscribe_begins_def)
next
  case (Some d)
  have L: "0 \<le> L" "L < N" using assms(5) by (cases "drained v down"; auto)+
  then have f: "replay_from s L = L" using assms(3) by (auto simp: replay_from_def cursor_ahead_def)
  from assms(1) Some f L obtain first rest where b: "ses_eventBuffer s = first # rest" "0 < L"
    "out = (let missed = missed_events t L False isHistoryBackedEvent in (if missed \<noteq> [] then [EventReplay missed] else []) @ [run_state_message t])"
    and t: "replay_inv msr mi mb t log" "ses_nextEventSeq t = N"
    using subscribe_begins_ok [OF assms(1,2)] assms(3)
    by (auto simp: subscribe_begins_def Let_def split: if_splits list.splits)
  from channel_replay [OF assms(4,5)] missed_sorted [OF t(1), of L False isHistoryBackedEvent] t(2) b(2)
  have "channel_ok N v (down @ [Answer (EventReplay (missed_events t L False isHistoryBackedEvent))]) up" by auto
  from channel_plain [OF this] channel_plain [OF assms(4)] show ?thesis by (simp add: b(3) Let_def)
qed

lemma takes_positive: "0 < be_seq e \<Longrightarrow> 0 \<le> fst v \<Longrightarrow> takes e v = v \<or> 0 < fst (takes e v)"
  by (cases v) auto

lemma replays_positive: "\<forall>e \<in> set es. 0 < be_seq e \<Longrightarrow> 0 \<le> fst v \<Longrightarrow> fold takes es v = v \<or> 0 < fst (fold takes es v)"
proof (induction es arbitrary: v)
  case (Cons e es)
  with takes_positive [of e v] Cons.IH [of "takes e v"] show ?case by fastforce
qed simp

lemma handles_positive:
  assumes "\<not> starts m" and "\<forall>e \<in> set (numbered m). 0 < be_seq e" and "0 \<le> fst v"
  shows "0 \<le> fst (handles m v) \<and> (handles m v = v \<or> snd (handles m v) = [] \<or> 0 < fst (handles m v))"
proof (cases m)
  case (Live e)
  with assms takes_positive [of e v] show ?thesis by auto
next
  case (Answer a)
  show ?thesis
  proof (cases a)
    case (EventReplay es)
    with Answer assms replays_positive [of es v] show ?thesis by auto
  qed (use Answer assms in \<open>cases v; simp\<close>)+
qed (use assms in simp_all)

lemma drained_zero:
  assumes "list_all (\<lambda>m. \<not> starts m) q" and "\<forall>m \<in> set q. \<forall>e \<in> set (numbered m). 0 < be_seq e" and "0 \<le> fst v" and "fst (drained v q) = 0"
  shows "snd (drained v q) = [] \<or> fst v = 0 \<and> snd (drained v q) = snd v"
  using assms
proof (induction q arbitrary: v)
  case (Cons m q)
  with handles_positive [of m v] Cons.IH [of "handles m v"] show ?case by fastforce
qed simp

text \<open>The cursor of a browser is good on its connection, and on a new one.\<close>

lemma cursor_start:
  assumes "channel_ok N v down up" and "L = fst v \<or> L = 0"
  shows "cursor_ok N (drained v down) L"
proof -
  obtain n A where v: "v = (n, A)" by force
  obtain n' A' where D: "drained v down = (n', A')" by force
  have g: "good_view N (n, A)" using assms(1) v good_views_start [of N v down] by (simp add: channel_ok_def)
  then have n: "0 \<le> n" "n < N" "n = 0 \<or> (\<forall>a \<in> set A. be_seq a \<le> n)" by auto
  have "A' = [] \<or> A' = A" if z: "n' = 0"
  proof (cases down)
    case (Cons m q)
    show ?thesis
    proof (cases "starts m")
      case True
      then obtain g where m: "m = Session_Init g" by (cases m) auto
      with drained_zero [of q "(0, A)"] assms(1) Cons D v z show ?thesis by (auto simp: channel_ok_def)
    next
      case False
      with drained_zero [of down v] assms(1) Cons D v z n(1) show ?thesis by (auto simp: channel_ok_def)
    qed
  qed (use D v in simp)
  with assms(2) D v n show ?thesis by auto
qed

lemma channel_new:
  assumes "good_view N v" and "L = fst v \<or> L = 0"
  shows "channel_ok N v [Session_Init g] (Subscribe L # map (\<lambda>m. Sends (Setting m)) xs)"
  using assms by (cases v) (auto simp: channel_ok_def)

lemma emit_next: "replay_inv msr mi mb s log \<Longrightarrow> ses_nextEventSeq (emit msr mi mb m s) = ses_nextEventSeq s + 1"
proof (cases "shouldBufferForReplay m")
  case True
  assume "replay_inv msr mi mb s log"
  then obtain b where "replayEventBuffer msr s mi mb = Inr b" "buffer_good msr b" by (auto simp: replay_inv_def)
  from emit_buffered [OF True this] show ?thesis by simp
qed (simp add: emit_unbuffered)

lemma sync_good_view: "sync_ok msr y \<Longrightarrow> good_view (ses_nextEventSeq (sy_session y)) (cursor_view (sy_browser y))"
  by (auto simp: sync_ok_def channel_ok_def dest: good_views_start split: option.splits)

lemma resend_ups: "set (snd (resendUnacknowledgedAgentMessages b)) \<subseteq> range Sends"
  by (auto simp: resendUnacknowledgedAgentMessages_def Let_def)

lemma apply_event_ups: "set (snd (apply_event e b)) \<subseteq> range Sends"
  using resend_ups by (auto simp: apply_event_def Let_def)

lemma replay_ups: "set (snd (apply_replay es (b, up))) \<subseteq> set up \<union> range Sends"
proof (induction es arbitrary: b up)
  case (Cons e es)
  obtain b' out where a: "apply_event e (setLastSeq (be_seq e) b) = (b', out)" by force
  have "set out \<subseteq> range Sends" using apply_event_ups [of e "setLastSeq (be_seq e) b"] a by simp
  with Cons.IH [of b "up"] Cons.IH [of b' "up @ out"] a show ?case by auto
qed simp

lemma browser_sends_no_cursor: "Subscribe L \<notin> set (snd (handleParsedMessage m b))"
proof (cases m)
  case (Session_Init g)
  with resend_ups [of "(setLastSeq 0 b)\<lparr>br_generation := Some g\<rparr>"] show ?thesis by auto
next
  case (Live e)
  with apply_event_ups [of e "setLastSeq (be_seq e) b"] show ?thesis by (auto split: prod.split)
next
  case (Answer a)
  show ?thesis
  proof (cases a)
    case (EventReplay es)
    with Answer replay_ups [of es b "[]"] show ?thesis by (auto split: prod.split)
  qed (use Answer in \<open>simp_all\<close>)
qed simp

lemma sent_views: "cursor_view (fst (snd (sendToSession op m b))) = cursor_view b" "Subscribe L \<notin> set (snd (snd (sendToSession op m b)))"
  by (cases m; auto simp: rememberUnacknowledgedAgentMessage_def enqueueOutgoing_def Let_def)+

lemma channel_up:
  "channel_ok N v down up \<Longrightarrow> (\<And>L. Subscribe L \<in> set up' \<Longrightarrow> Subscribe L \<in> set up) \<Longrightarrow> channel_ok N v down up'"
  by (auto simp: channel_ok_def)

lemma broadcast_ok:
  assumes "sync_ok msr y"
  shows "sync_ok msr (sync_step msr load (Broadcast m) y)"
proof -
  let ?s = "sy_session y" and ?N = "ses_nextEventSeq (sy_session y)"
  let ?e = "\<lparr>be_seq = ?N, be_message = m\<rparr>"
  have inv: "replay_inv msr EVENT_BUFFER_LIMIT EVENT_BUFFER_MAX_BYTES ?s (sy_log y)" using assms by (simp add: sync_ok_def)
  then have N: "0 < ?N" by (simp add: replay_inv_def)
  have "channel_ok (?N + 1) v (down @ [Live ?e]) up" if "channel_ok ?N v down up" for v down up
  proof -
    have "good_view ?N (drained v down)" using that good_views_end by (simp add: channel_ok_def)
    note live = good_live [OF this, of ?e]
    have "channel_ok (?N + 1) v down up"
      using that by (auto simp: channel_ok_def intro: good_views_more cursor_ok_more)
    then show ?thesis using live N by (intro channel_push) (auto intro: cursor_nonzero)
  qed
  with assms emit_inv [OF inv, of m] show ?thesis
    by (auto simp: sync_ok_def emit_next [OF inv] pushes_def Let_def intro: good_view_more split: option.splits)
qed

lemma server_reads_ok:
  assumes "sync_ok msr (y\<lparr>sy_connection := Some (c\<lparr>cn_up := m # up\<rparr>)\<rparr>)"
  shows "sync_ok msr (server_reads m (y\<lparr>sy_connection := Some (c\<lparr>cn_up := up\<rparr>)\<rparr>))"
proof -
  let ?N = "ses_nextEventSeq (sy_session y)" and ?v = "cursor_view (sy_browser y)"
  have inv: "replay_inv msr EVENT_BUFFER_LIMIT EVENT_BUFFER_MAX_BYTES (sy_session y) (sy_log y)"
    and c: "channel_ok ?N ?v (cn_down c) (m # up)" using assms by (simp_all add: sync_ok_def)
  from c have rest: "channel_ok ?N ?v (cn_down c) up" by (rule channel_up) simp
  show ?thesis
  proof (cases m)
    case (Subscribe L)
    have L: "cursor_ok ?N (drained ?v (cn_down c)) L" using c Subscribe by (simp add: channel_ok_def)
    obtain out t where b: "subscribe_begins (sy_session y) 0 L = (out, t)" by force
    note t = subscribe_begins_ok [OF b inv]
    show ?thesis
    proof (cases out)
      case (Inl os)
      from subscribe_begins_replays [OF b [unfolded Inl] inv refl rest L] t Subscribe b Inl show ?thesis
        by (simp add: server_reads_def sync_ok_def pushes_def)
    next
      case (Inr p)
      with t rest Subscribe b show ?thesis by (simp add: server_reads_def sync_ok_def)
    qed
  qed (use inv rest in \<open>simp_all add: server_reads_def sync_ok_def\<close>)
qed

lemma sync_step_ok:
  assumes "sync_ok msr y" and load: "\<And>r. load r \<noteq> None"
  shows "sync_ok msr (sync_step msr load e y)"
proof (cases e)
  case (Broadcast m)
  with broadcast_ok [OF assms(1)] show ?thesis by simp
next
  case (Opens d hydrated)
  from channel_new [OF sync_good_view [OF assms(1)]] assms(1) Opens show ?thesis
    by (simp add: sync_ok_def Let_def subscribeSeq_def cursor_view_def)
next
  case (Resubscribes hydrated)
  have "channel_ok N v down (up @ [Subscribe L])" if "channel_ok N v down up" "L = fst v \<or> L = 0" for N v down up L
    using that cursor_start [OF that] by (auto simp: channel_ok_def)
  with assms(1) Resubscribes show ?thesis by (auto simp: sync_ok_def subscribeSeq_def cursor_view_def split: option.splits)
next
  case Server_Reads
  with assms(1) show ?thesis
  proof (cases "sy_connection y")
    case (Some c)
    show ?thesis
    proof (cases "cn_up c")
      case (Cons m up)
      have "sync_ok msr (y\<lparr>sy_connection := Some (c\<lparr>cn_up := m # up\<rparr>)\<rparr>)" using assms(1) Some Cons by (simp add: sync_ok_def)
      from server_reads_ok [OF this] Server_Reads Some Cons show ?thesis by simp
    qed (use assms(1) Server_Reads Some in simp)
  qed simp
next
  case (History_Loads n)
  show ?thesis
  proof (cases "sy_connection y")
    case (Some c)
    have inv: "replay_inv msr EVENT_BUFFER_LIMIT EVENT_BUFFER_MAX_BYTES (sy_session y) (sy_log y)"
      and ch: "channel_ok (ses_nextEventSeq (sy_session y)) (cursor_view (sy_browser y)) (cn_down c) (cn_up c)"
      using assms(1) Some by (simp_all add: sync_ok_def)
    from channel_ends [OF ch inv refl load] inv ch History_Loads Some show ?thesis by (simp add: sync_ok_def pushes_def)
  qed (use assms(1) History_Loads in simp)
next
  case Browser_Reads
  show ?thesis
  proof (cases "sy_connection y")
    case (Some c)
    show ?thesis
    proof (cases "cn_down c")
      case (Cons m ms)
      obtain b out where h: "handleParsedMessage m (sy_browser y) = (b, out)" by force
      have v: "cursor_view b = handles m (cursor_view (sy_browser y))" using view_handles [of m "sy_browser y"] h by simp
      have "Subscribe L \<notin> set out" for L using browser_sends_no_cursor [of L m "sy_browser y"] h by simp
      moreover have "list_all (\<lambda>m. \<not> starts m) ms \<Longrightarrow> list_all (\<lambda>m. \<not> starts m) (tl ms)" by (cases ms) auto
      ultimately show ?thesis using assms(1) Some Cons h Browser_Reads v
        by (auto simp: sync_ok_def channel_ok_def)
    qed (use assms(1) Some Browser_Reads in simp)
  qed (use assms(1) Browser_Reads in simp)
next
  case (Browser_Sends m)
  obtain ok b out where o: "sendToSession (sy_connection y \<noteq> None) m (sy_browser y) = (ok, b, out)" using prod_cases3 by blast
  have v: "cursor_view b = cursor_view (sy_browser y)" "\<And>L. Subscribe L \<notin> set out"
    using sent_views [where op = "sy_connection y \<noteq> None" and m = m and b = "sy_browser y"] o by auto
  with o assms(1) Browser_Sends show ?thesis by (auto simp: sync_ok_def channel_ok_def split: option.splits)
next
  case Connection_Drops
  with assms(1) sync_good_view [OF assms(1)] show ?thesis by (simp add: sync_ok_def)
qed

lemma sync_run_ok: "sync_ok msr y \<Longrightarrow> (\<And>r. load r \<noteq> None) \<Longrightarrow> sync_ok msr (sync_run msr load es y)"
  by (induction es arbitrary: y) (simp_all add: sync_run_def sync_step_ok)

lemma new_sync_ok: "fresh_session s \<Longrightarrow> \<forall>e. 0 \<le> msr e \<and> safe_int (msr e) \<Longrightarrow> sync_ok msr (new_sync s)"
  using fresh_inv [of s msr EVENT_BUFFER_LIMIT EVENT_BUFFER_MAX_BYTES]
  by (simp add: sync_ok_def new_sync_def new_browser_def cursor_view_def EVENT_BUFFER_LIMIT_def EVENT_BUFFER_MAX_BYTES_def safe_int_def
      max_safe_integer_def fresh_session_def)

definition example_socket :: socket_data where
  "example_socket = \<lparr>sk_protocolVersion = 1, sk_contextEpoch = 0, sk_contextId = replicate 32 CHR ''a'', sk_subscribed = False, sk_lastAckSeq = None\<rparr>"

definition example_event :: json where
  "example_event = JObject [(''type'', JString ''pi_queue'')]"

text \<open>A browser that subscribes, gets one event, loses its connection and misses two.\<close>

definition example_before :: "sync_event list" where
  "example_before =
     [Opens example_socket True, Server_Reads, History_Loads 0, Broadcast example_event, Browser_Reads, Browser_Reads, Browser_Reads,
      Browser_Reads, Connection_Drops, Broadcast example_event, Broadcast example_event]"

definition example_sync :: "sync_event list \<Rightarrow> sync" where
  "example_sync es = sync_run (\<lambda>e. 10) (\<lambda>r. Some JNull) es (new_sync example_session)"

definition example_later :: "sync_event list" where
  "example_later = [Browser_Reads, Broadcast example_event, Browser_Reads, Browser_Reads, Browser_Reads]"

lemma example_premises:
  "fresh_session example_session" "\<forall>e :: buffered_event. 0 \<le> (10 :: int) \<and> safe_int 10" "\<forall>r :: history_reason. Some JNull \<noteq> None"
  by (simp_all add: fresh_session_def example_session_def safe_int_def max_safe_integer_def)



section \<open>Catching up\<close>

text \<open>What may happen after the subscription: broadcasts, reading, and messages of the user.\<close>

fun ordinary_event :: "sync_event \<Rightarrow> bool" where
  "ordinary_event (Broadcast m) \<longleftrightarrow> True"
| "ordinary_event Browser_Reads \<longleftrightarrow> True"
| "ordinary_event (Browser_Sends m) \<longleftrightarrow> True"
| "ordinary_event _ \<longleftrightarrow> False"

definition catching_up :: "(buffered_event \<Rightarrow> int) \<Rightarrow> int \<Rightarrow> sync \<Rightarrow> bool" where
  "catching_up msr L y \<longleftrightarrow>
     sync_ok msr y \<and>
     (\<exists>c. sy_connection y = Some c \<and>
        {e \<in> set (sy_log y). bufferable msr EVENT_BUFFER_MAX_BYTES e \<and> L < be_seq e} \<subseteq> set (snd (drained (cursor_view (sy_browser y)) (cn_down c))))"

lemma catching_up_step:
  assumes "catching_up msr L y" and "ordinary_event e" and load: "\<And>r. load r \<noteq> None"
  shows "catching_up msr L (sync_step msr load e y)"
proof -
  obtain c where c: "sy_connection y = Some c"
    "{e \<in> set (sy_log y). bufferable msr EVENT_BUFFER_MAX_BYTES e \<and> L < be_seq e} \<subseteq> set (snd (drained (cursor_view (sy_browser y)) (cn_down c)))"
    and ok: "sync_ok msr y"
    using assms(1) by (auto simp: catching_up_def)
  have ok': "sync_ok msr (sync_step msr load e y)" by (rule sync_step_ok [OF ok load])
  let ?v = "cursor_view (sy_browser y)"
  show ?thesis
  proof (cases e)
    case (Broadcast m)
    let ?e = "\<lparr>be_seq = ses_nextEventSeq (sy_session y), be_message = m\<rparr>"
    have "good_view (ses_nextEventSeq (sy_session y)) (drained ?v (cn_down c))"
      using ok c(1) good_views_end by (simp add: sync_ok_def channel_ok_def)
    from good_live [OF this, of ?e] have "?e \<in> set (snd (takes ?e (drained ?v (cn_down c))))" by simp
    moreover have "set (snd w) \<subseteq> set (snd (takes x w))" for x w by (cases w) auto
    ultimately show ?thesis using ok' c Broadcast by (fastforce simp: catching_up_def pushes_def Let_def)
  next
    case Browser_Reads
    show ?thesis
    proof (cases "cn_down c")
      case (Cons m ms)
      with ok' c Browser_Reads view_handles [of m "sy_browser y"] show ?thesis
        by (auto simp: catching_up_def split: prod.splits)
    qed (use assms(1) c Browser_Reads in simp)
  next
    case (Browser_Sends m)
    with ok' c sent_views(1) [where op = True and m = m and b = "sy_browser y"] show ?thesis
      by (auto simp: catching_up_def split: prod.splits)
  qed (use assms(2) in simp_all)
qed

lemma catching_up_run:
  "catching_up msr L y \<Longrightarrow> list_all ordinary_event es \<Longrightarrow> (\<And>r. load r \<noteq> None) \<Longrightarrow> catching_up msr L (sync_run msr load es y)"
  by (induction es arbitrary: y) (simp_all add: sync_run_def catching_up_step)

lemma takes_all: "sorted_wrt (<) (map be_seq es) \<Longrightarrow> \<forall>e \<in> set es. n < be_seq e \<Longrightarrow> 0 \<le> n \<Longrightarrow> snd (fold takes es (n, A)) = A @ es"
proof (induction es arbitrary: n A)
  case (Cons e es)
  then show ?case by auto
qed simp

lemma no_gap:
  assumes "replay_inv msr mi mb s log" and "ses_eventBuffer s = first # rest" and "be_seq first \<le> L + 1"
  shows "{e \<in> set log. bufferable msr mb e \<and> L < be_seq e} \<subseteq> set (missed_events s L False hb)"
proof
  fix e assume "e \<in> {e \<in> set log. bufferable msr mb e \<and> L < be_seq e}"
  then have e: "e \<in> set (filter (bufferable msr mb) log)" "L < be_seq e" by auto
  have "e \<in> set (first # rest)"
  proof (rule suffix_of_sorted_complete [OF _ _ e(1)])
    show "suffix (first # rest) (filter (bufferable msr mb) log)" using assms by (simp add: replay_inv_def)
    show "sorted_wrt (<) (map be_seq (filter (bufferable msr mb) log))"
      using assms by (intro filter_sorted_seq) (simp add: replay_inv_def)
  qed (use e assms(3) in simp)
  with e assms(2) show "e \<in> set (missed_events s L False hb)" by (auto simp: missed_events_def)
qed

lemma subscribed_catches_up:
  assumes ok: "sync_ok msr y" and load: "\<And>r. load r \<noteq> None" and L: "L = br_lastSeq (sy_browser y)" "0 < L"
    and "ses_eventBuffer (sy_session y) \<noteq> []" and "be_seq (hd (ses_eventBuffer (sy_session y))) \<le> L + 1"
  shows "catching_up msr L (sync_step msr load Server_Reads (sync_step msr load (Opens d True) y))"
proof -
  let ?y = "sync_step msr load (Opens d True) y"
  let ?z = "sync_step msr load Server_Reads ?y"
  have ok1: "sync_ok msr ?y" by (rule sync_step_ok [OF ok load])
  have ok2: "sync_ok msr ?z" by (rule sync_step_ok [OF ok1 load])
  obtain first rest where buf: "ses_eventBuffer (sy_session ?y) = first # rest" "be_seq first \<le> L + 1"
    using assms(5,6) by (cases "ses_eventBuffer (sy_session y)") (auto simp: Let_def)
  have inv: "replay_inv msr EVENT_BUFFER_LIMIT EVENT_BUFFER_MAX_BYTES (sy_session ?y) (sy_log ?y)" using ok1 by (simp add: sync_ok_def)
  have less: "L < ses_nextEventSeq (sy_session ?y)"
    using sync_good_view [OF ok] L by (simp add: cursor_view_def Let_def)
  then have f: "replay_from (sy_session ?y) L = L" using L by (auto simp: replay_from_def cursor_ahead_def)
  define t where "t = sy_session ?z"
  define missed where "missed = missed_events t L False isHistoryBackedEvent"
  have z: "sy_log ?z = sy_log ?y" "cursor_view (sy_browser ?z) = cursor_view (sy_browser y)" "ses_eventBuffer t = first # rest"
    "\<exists>c. sy_connection ?z = Some c \<and>
       cn_down c = Session_Init (ses_generation (sy_session y)) # map Answer ((if missed \<noteq> [] then [EventReplay missed] else []) @ [run_state_message t])"
    using buf f L by (auto simp: t_def missed_def server_reads_def subscribe_begins_def pushes_def Let_def subscribeSeq_def)
  have inv': "replay_inv msr EVENT_BUFFER_LIMIT EVENT_BUFFER_MAX_BYTES t (sy_log ?z)" using ok2 by (simp add: sync_ok_def t_def)
  obtain n A where v: "cursor_view (sy_browser y) = (n, A)" by force
  have "snd (fold takes missed (0, A)) = A @ missed"
    using missed_sorted [OF inv', of L False isHistoryBackedEvent] by (intro takes_all) (auto simp: missed_def)
  moreover from z(4) obtain c where c: "sy_connection ?z = Some c"
    "cn_down c = Session_Init (ses_generation (sy_session y)) # map Answer ((if missed \<noteq> [] then [EventReplay missed] else []) @ [run_state_message t])"
    by blast
  ultimately have "snd (drained (cursor_view (sy_browser ?z)) (cn_down c)) = A @ missed"
    using v z(2) by (auto simp: run_state_message_def)
  with no_gap [OF inv' z(3) buf(2), of isHistoryBackedEvent] ok2 c(1) show ?thesis
    by (auto simp: catching_up_def missed_def)
qed



section \<open>What may go wrong\<close>

text \<open>
  The server adds a socket to the session when it opens, before its subscription is read. An event that is broadcast in
  between is applied first, and the replay of what was missed then is skipped: the events 2 and 3 never reach the browser,
  and no later subscription asks for them.
\<close>

lemma early_event_hides_missed_ones:
  "map be_seq (br_applied (sy_browser (example_sync
     (example_before @ [Opens example_socket True, Broadcast example_event, Server_Reads] @ example_later @ [Browser_Reads])))) = [1, 4, 5]"
  by code_simp

text \<open>
  The same happens while a history is loaded: what is broadcast meanwhile is applied, then the transcript is reset by the
  history, and the replay behind it is skipped as well. Event 1 is not in the history.
\<close>

lemma event_during_history_load_is_lost:
  "map be_seq (br_applied (sy_browser (example_sync
     [Broadcast example_event, Opens example_socket True, Server_Reads, Broadcast example_event, History_Loads 0,
      Browser_Reads, Browser_Reads, Browser_Reads, Browser_Reads, Browser_Reads]))) = []"
  by code_simp

end
