(* ===== verification/Spec2Isabelle.thy ===== *)
theory Spec2Isabelle
  imports Session_Phases Browser_Replay Resource_Governor Plan_Policy Browser_Ingest App_Manifest
    Transport_Settlement Transport_Diagnostics Transport_Api Disk_Quota Outbox_Worker Path_Policy Task_Lifecycle Model_Policy Srt_Policy
    Broker_Server Runtime_Brokers Atomic_Json_Store Journal_Recovery Journal_Records Rbac_Service Session_Lifecycle Prompt_Delivery Browser_Sync
begin

text \<open>
  The server of pi-work (directory web/server of the repository) runs a native Pi process for each chat session of a user, in a
  sandbox, and stands between that process, the browsers of the user, the files of the user and a few services. This
  development models the parts of the server that decide something.

  \<^bold>\<open>How the parts interact.\<close> A browser speaks the product protocol over a web socket. Its messages are validated, bound to a
  runtime context and freed of duplicates (Browser_Ingest); prompts go on to the adapter of the session or wait in its offline
  queue (Prompt_Delivery). What the session says is numbered, kept in a bounded buffer and replayed to browsers that connect
  again (Message_Buffer, Browser_Replay). A session has a phase and a runtime state with a generation (Session_Phases).
  The orchestrator (Session_Orchestrator) queues launches and kills and drives the launcher (Pi_Launcher), which gives each
  process a generation, a transport and a sandbox policy (Srt_Policy, over Path_Policy and Posix_Paths). The transport
  (Rpc_Transport) cuts the output of the process into lines (Frame_Decoder), checks them against the contract (Rpc_Contract) and
  settles the requests of its callers. The process in turn asks the server for things through a private socket (Broker_Server):
  the brokers of the runtime (Runtime_Brokers) hand such requests to the task manager, which runs children of the session
  (Task_Manager), to the connections of MCP servers (Managed_Mcp, Mcp_Connections), to the file helper and to the apps, as the mode
  of the caller allows; in Plan mode a shell command is checked first (Plan_Policy). Models are chosen by Model_Policy. Processes,
  leases and disk space of a user are bounded (Resource_Governor, Disk_Quota). Files that hold state are replaced atomically
  (Atomic_Json_Store), changes of the files of a user go through a journal (Operation_Journal), users and roles are in
  tables (Rbac_Store, Rbac_Service), and the operations that deploy apps are recovered from an outbox (Outbox_Worker, App_Manifest).

  \<^bold>\<open>Conventions.\<close> A class is a record, a method a function from the record to the new record and what it returns or does, an
  \<open>async\<close> method is cut at its awaits, and a component with several entry points has a datatype of events and a step function;
  a history is a fold of the step function over any list of events, or an inductive predicate where the environment is
  involved. Errors are values, \<open>Inl\<close> or a constructor. Numbers of JavaScript that the code keeps in the safe range are \<open>int\<close>
  or \<open>nat\<close>; bytes are \<open>8 word\<close>. JSON values, \<open>undefined\<close> among them, are the datatype \<open>json\<close> of Prelude; insertion-ordered
  maps are the association lists \<open>omap\<close>. \<open>JSON.parse\<close>, decoders of UTF-8, clocks, random identifiers, host file systems and
  remote services are parameters or answers of the environment.

  \<^bold>\<open>Theories and sources\<close> (paths below src/web/server).

  \<^item> Prelude, Leases: values, strings, maps and lists shared by all; the locale \<open>settle_once\<close> of things that are given back once.
  \<^item> Session_Phases: session-state-machine.ts (\<open>transition\<close>, its table and listeners), session-runtime-state.ts (\<open>begin\<close>,
    \<open>transition\<close>, \<open>ensure\<close>, the registry). Both interpret the locale \<open>guarded_machine\<close>.
  \<^item> Message_Buffer: bounded-message-buffer.ts, with the locale \<open>bounded_fifo\<close>. Browser_Replay: session-message-buffers.ts,
    ws-bridge-replay.ts, ws-bridge-browser.ts, ws-bridge-publish.ts. Browser_Ingest: ws-bridge-browser-ingest.ts,
    websocket-transport.ts, with the locale \<open>id_window\<close>. Prompt_Delivery: the agent messages of ws-bridge.ts
    (\<open>acceptBrowserAgentMessage\<close>, \<open>injectUserMessage\<close>, \<open>flushOfflineQueue\<close>), pi-adapter.ts and ws-bridge-persist.ts.
  \<^item> Pi_Launcher: \<open>launch\<close>, \<open>kill\<close>, \<open>finalizeRuntime\<close> of pi-launcher.ts. Session_Orchestrator: session-orchestrator.ts, with
    \<open>serialize\<close> as an explicit queue of stages. Session_Lifecycle: what both guarantee together.
  \<^item> Rpc_Contract: pi-rpc-contract.ts; the closed unions of the contract are datatypes. Frame_Decoder, Rpc_Transport,
    Transport_Settlement, Transport_Diagnostics, Transport_Api: pi-rpc-transport.ts; \<open>StrictLfJsonlDecoder\<close> interprets the
    locale \<open>chunked_stream\<close>.
  \<^item> Plan_Policy: pi-plan-policy.ts. Model_Policy: pi-model-policy.ts. Srt_Policy: srt-policy.ts and path-scope.ts.
    Posix_Paths, Path_Policy: what is used of node:path, path-policy.ts.
  \<^item> Task_Manager, Task_Lifecycle: pi-task-manager.ts. Broker_Server: pi-broker-server.ts. Managed_Mcp, Mcp_Connections:
    managed-mcp.ts. Runtime_Brokers: pi-runtime-brokers.ts, composed with the models of the task manager and the MCP manager.
  \<^item> Resource_Governor: resource-governor.ts. Disk_Scan, Disk_Quota: user-disk-quota.ts.
  \<^item> Atomic_Json_Store: atomic-json-store.ts. File_Tree: a file system with links. Operation_Journal, Journal_Recovery,
    Journal_Records: operation-journal.ts.
  \<^item> Rbac_Store: rbac-store.ts, rbac-types.ts, migrations/rbac.sql. Rbac_Service: rbac-service.ts.
  \<^item> Outbox_Worker: apps-outbox-worker.ts, apps-types.ts. App_Manifest: app-manifest.ts.

  \<^bold>\<open>What the lemmas show.\<close>

  \<^item> \<^emph>\<open>Transport.\<close> Every request is settled once or pending with its timer armed; a closed transport owes nothing; lines do not
    depend on how the stream was cut; guards accept exactly the declared types; results have the declared types.
  \<^item> \<^emph>\<open>Sessions.\<close> At most one living process, generations that are never reused, nothing alive behind a successful kill. Phases
    follow their tables. Each acknowledged prompt reaches Pi or stays stored, and none reaches it twice.
  \<^item> \<^emph>\<open>Browsers.\<close> A subscriber gets what it missed or a history; the buffer keeps the longest suffix within its budgets; an
    idempotent message is let through once per window.
  \<^item> \<^emph>\<open>Confinement.\<close> A shell command of Plan mode is a pipeline of reviewed commands; paths lead to nothing protected; a policy of a
    task is within the one of its parent; a read-only task stays so and changes nothing through the brokers; brokers
    run authenticated requests only; redacted values hold no secret; tools are called on clients that listed them.
  \<^item> \<^emph>\<open>Accounting.\<close> The governor counts live references exactly; the disk usage stays within the quota; tasks and handlers are
    within their limits and finish once; models pass every gate.
  \<^item> \<^emph>\<open>Durability.\<close> A read after a crash of a commit gives the old value or the new one; an interrupted journal can be executed
    again with the same result and touches nothing outside its root; replays settle every record.
  \<^item> \<^emph>\<open>Authorization.\<close> The recursive query computes the permissions granted; an administrator stays; decisions follow the tables.

  Refinements relate detailed models to short specifications: \<open>step_effect\<close> for journal steps, the grants of a parent policy
  for derived ones, the committed value for the states of a commit, inductive reachability of departments for the recursive
  query. Lemmas named after a fault are evaluated histories in which the code does something that it does not mean to do: among
  them concurrent revocations, archiving past a queued activation, prompts that overtake, and reads that overlap invalidations.

  \<^bold>\<open>Bounds and fuel.\<close> Functions are total. Looking up a path follows \<open>MAX_LINKS\<close> = 40 links and is an error
  beyond, as on Linux. Walks up the department tree are bounded by the number of departments, which is enough as long as the
  tree is acyclic, which \<open>departments_stay_acyclic\<close> shows of operations one after the other. The glob matcher, the shell
  tokenizer, the decoder, the parsers and the executions of a journal recurse on their input. Histories have any length.
  Limits of the code, such as 4 parallel tasks or 100 queued prompts, have their values.

  \<^bold>\<open>Not modelled.\<close> The user interface (web/src) is rendering and browser state. The control plane of apps and the control plane
  database are queries of Postgres and calls of a hosting provider. Browser control drives a third-party process. The user
  space service, the descriptor-based file access and the office documents are calls of the host, apart from the policies, quotas
  and journals above. The HTTP routes parse a request and call the services above. The control channel of runtimes repeats
  framing and request bookkeeping of the kind modelled in Rpc_Transport and Broker_Server. Within the modelled parts, texts of
  messages, logs, metrics, modes of files and the recorder are left out; each theory says what else.
\<close>

end
